(* ===== verification/Prelude.thy ===== *)
theory Prelude
  imports Main "HOL-Library.Sublist" "HOL-Library.Word" "HOL-Library.Char_ord"
begin

text \<open>
  What every component of the development shares: the name of a byte string's position type, the
  two index scans that the string code of LLVM writes as loops, and the facts about lists, options
  and result values that the component proofs use.
\<close>

subsection \<open>Positions\<close>

text \<open>
  A \<^verbatim>\<open>size_t\<close> that may be \<^verbatim>\<open>npos\<close> is an optional natural number: \<open>None\<close> is \<^verbatim>\<open>npos\<close>.
  A subtraction that wraps below zero gives a value above every string length; the code only
  compares such a value with a length or clamps it to one, so it is \<open>None\<close> as well.
\<close>

type_synonym pos = "nat option"

definition pos_sub :: "nat \<Rightarrow> nat \<Rightarrow> pos" where
  "pos_sub a b = (if b \<le> a then Some (a - b) else None)"

definition pos_min :: "pos \<Rightarrow> nat \<Rightarrow> nat" where
  "pos_min p n = (case p of None \<Rightarrow> n | Some i \<Rightarrow> min i n)"

lemma pos_min_le [simp]: "pos_min p n \<le> n"
  by (simp add: pos_min_def split: option.split)

lemma pos_min_None [simp]: "pos_min None n = n"
  by (simp add: pos_min_def)

lemma pos_min_Some [simp]: "pos_min (Some i) n = min i n"
  by (simp add: pos_min_def)

subsection \<open>Forward and backward scans\<close>

text \<open>
  \<open>scan p i xs\<close>: the index of the first element of \<open>xs\<close> that satisfies \<open>p\<close>, counted from
  \<open>i\<close>. \<open>rscan p xs n\<close>: the greatest index below \<open>n\<close> whose element satisfies \<open>p\<close>.
\<close>

fun scan :: "('a \<Rightarrow> bool) \<Rightarrow> nat \<Rightarrow> 'a list \<Rightarrow> pos" where
  "scan p i [] = None"
| "scan p i (x # xs) = (if p x then Some i else scan p (Suc i) xs)"

fun rscan :: "('a \<Rightarrow> bool) \<Rightarrow> 'a list \<Rightarrow> nat \<Rightarrow> pos" where
  "rscan p xs 0 = None"
| "rscan p xs (Suc n) = (if p (xs ! n) then Some n else rscan p xs n)"

lemma scan_None_iff: "scan p i xs = None \<longleftrightarrow> (\<forall>x\<in>set xs. \<not> p x)"
  by (induction xs arbitrary: i) auto

lemma scan_shift: "scan p (i + k) xs = map_option (\<lambda>j. j + k) (scan p i xs)"
  by (induction xs arbitrary: i) (simp_all flip: add_Suc)

lemma scan_Some_iff:
  "scan p i xs = Some j \<longleftrightarrow>
     i \<le> j \<and> j < i + length xs \<and> p (xs ! (j - i)) \<and> (\<forall>k<j - i. \<not> p (xs ! k))"
proof (induction xs arbitrary: i)
  case Nil
  then show ?case by simp
next
  case (Cons x xs)
  show ?case
  proof (cases "p x")
    case True
    then show ?thesis
      by (auto simp: nth_Cons split: nat.splits)
  next
    case False
    show ?thesis
    proof (cases "i < j")
      case True
      then obtain d where d: "j - i = Suc d" by (metis Suc_diff_Suc)
      with True have "j - Suc i = d" "Suc i \<le> j" by auto
      with Cons[of "Suc i"] False d True show ?thesis
        by (auto simp: nth_Cons less_Suc_eq_0_disj)
    next
      case no: False
      with Cons[of "Suc i"] False show ?thesis by auto
    qed
  qed
qed

lemma scan_0_Some_iff:
  "scan p 0 xs = Some j \<longleftrightarrow> j < length xs \<and> p (xs ! j) \<and> (\<forall>k<j. \<not> p (xs ! k))"
  by (simp add: scan_Some_iff)

lemma rscan_None_iff: "rscan p xs n = None \<longleftrightarrow> (\<forall>k<n. \<not> p (xs ! k))"
  by (induction n) (auto simp: less_Suc_eq)

lemma rscan_Some_iff:
  "rscan p xs n = Some j \<longleftrightarrow> j < n \<and> p (xs ! j) \<and> (\<forall>k. j < k \<and> k < n \<longrightarrow> \<not> p (xs ! k))"
  by (induction n) (auto simp: less_Suc_eq)

lemma rscan_less: "rscan p xs n = Some j \<Longrightarrow> j < n"
  by (simp add: rscan_Some_iff)

subsection \<open>Results\<close>

text \<open>Sequencing of an operation that may fail with an error: \<open>Inl\<close> is the error.\<close>

definition bind_err :: "'e + 'a \<Rightarrow> ('a \<Rightarrow> 'e + 'b) \<Rightarrow> 'e + 'b" where
  "bind_err r f = (case r of Inl e \<Rightarrow> Inl e | Inr x \<Rightarrow> f x)"

lemma bind_err_simps [simp]:
  "bind_err (Inl e) f = Inl e"
  "bind_err (Inr x) f = f x"
  by (simp_all add: bind_err_def)

subsection \<open>Lists\<close>

lemma prefix_take_iff: "prefix p s \<longleftrightarrow> length p \<le> length s \<and> take (length p) s = p"
  by (metis append_eq_conv_conj append_take_drop_id prefixE prefixI prefix_length_le)

lemma suffix_drop_iff:
  "suffix p s \<longleftrightarrow> length p \<le> length s \<and> drop (length s - length p) s = p"
proof
  assume "suffix p s"
  then obtain zs where "s = zs @ p" by (rule suffixE)
  then show "length p \<le> length s \<and> drop (length s - length p) s = p" by simp
next
  assume "length p \<le> length s \<and> drop (length s - length p) s = p"
  then show "suffix p s" by (metis suffix_drop)
qed

subsection \<open>Words\<close>

lemma unat_64_less [simp]: "unat r < 18446744073709551616" for r :: "64 word"
  using unsigned_less[where 'a = nat and w = r] by simp


subsection \<open>Linked lists\<close>

text \<open>\<open>list_path nx p xs q\<close>: following the pointers \<open>nx\<close> from \<open>p\<close> one meets \<open>xs\<close> and arrives at \<open>q\<close>.\<close>

fun list_path :: "('a \<Rightarrow> 'a option) \<Rightarrow> 'a option \<Rightarrow> 'a list \<Rightarrow> 'a option \<Rightarrow> bool" where
  "list_path nx p [] q \<longleftrightarrow> p = q"
| "list_path nx p (d # ds) q \<longleftrightarrow> p = Some d \<and> list_path nx (nx d) ds q"

lemma path_append: "list_path nx p (xs @ ys) q \<longleftrightarrow> (\<exists>m. list_path nx p xs m \<and> list_path nx m ys q)"
  by (induction xs arbitrary: p) auto

lemma path_upd [simp]: "d \<notin> set ds \<Longrightarrow> list_path (nx(d := n)) p ds q = list_path nx p ds q"
  by (induction ds arbitrary: p) auto

lemma path_cong:
  "(\<And>d. d \<in> set ds \<Longrightarrow> nx' d = nx d) \<Longrightarrow> list_path nx p ds q \<Longrightarrow> list_path nx' p ds q"
  by (induction ds arbitrary: p) auto

lemma path_snoc: "list_path nx p (xs @ [d]) q \<longleftrightarrow> list_path nx p xs (Some d) \<and> nx d = q"
  by (auto simp: path_append)

lemma path_relink:
  assumes "list_path nx p (xs @ [d]) q" "d \<notin> set xs"
  shows "list_path (nx(d := q')) p (xs @ [d]) q'"
  using assms by (simp add: path_snoc)

lemma path_determined:
  assumes "list_path nx p ds None" "list_path nx' p' ds None"
  shows "p = p' \<and> (\<forall>d \<in> set ds. nx d = nx' d)"
  using assms
proof (induction ds arbitrary: p p')
  case (Cons d ds)
  then have p: "p = Some d" "p' = Some d" "list_path nx (nx d) ds None" "list_path nx' (nx' d) ds None" by simp_all
  from Cons.IH[OF p(3,4)] show ?case by (simp add: p(1,2))
qed simp

subsection \<open>Structures that lose their members one by one\<close>

text \<open>
  The contract of an operation that takes one member out of a linked structure, shared by the chains
  of redeclarations and the lists of declarations: \<open>holds s xs\<close> says that the structure in the store
  \<open>s\<close> has the members \<open>xs\<close>, and at least \<open>least\<close> of them have to stay.
\<close>

fun remove_all :: "('a \<Rightarrow> 's \<Rightarrow> 's option) \<Rightarrow> 'a list \<Rightarrow> 's \<Rightarrow> 's option" where
  "remove_all removal [] s = Some s"
| "remove_all removal (x # xs) s = (case removal x s of None \<Rightarrow> None | Some s' \<Rightarrow> remove_all removal xs s')"

locale member_removal =
  fixes holds :: "'s \<Rightarrow> 'a list \<Rightarrow> bool"
    and removal :: "'a \<Rightarrow> 's \<Rightarrow> 's option"
    and least :: nat
  assumes holds_distinct: "holds s xs \<Longrightarrow> distinct xs"
    and removal_ok: "\<lbrakk>holds s xs; x \<in> set xs; least < length xs\<rbrakk> \<Longrightarrow>
      \<exists>s'. removal x s = Some s' \<and> holds s' (remove1 x xs)"
begin

lemma remove_all_keeps:
  assumes "holds s xs" "distinct ys" "set ys \<subseteq> set xs" "least + length ys \<le> length xs"
  shows "\<exists>s'. remove_all removal ys s = Some s' \<and> holds s' (filter (\<lambda>x. x \<notin> set ys) xs)"
  using assms
proof (induction ys arbitrary: s xs)
  case Nil
  then show ?case by simp
next
  case (Cons y ys)
  have xs: "distinct xs" by (rule holds_distinct[OF Cons.prems(1)])
  obtain s' where s': "removal y s = Some s'" "holds s' (remove1 y xs)"
    using removal_ok[OF Cons.prems(1), of y] Cons.prems(3,4) by auto
  moreover have "set ys \<subseteq> set (remove1 y xs)" "least + length ys \<le> length (remove1 y xs)"
    using Cons.prems(2-4) xs by (auto simp: length_remove1)
  moreover have "filter (\<lambda>x. x \<notin> set ys) (remove1 y xs) = filter (\<lambda>x. x \<notin> set (y # ys)) xs"
    using xs by (auto simp: distinct_remove1_removeAll removeAll_filter_not_eq intro: filter_cong)
  ultimately show ?case using Cons.IH[OF s'(2)] Cons.prems(2) by auto
qed

end

end
