(* ===== verification/StringRefs.thy ===== *)
theory StringRefs
  imports Prelude
begin

text \<open>
  The string operations of LLVM the program is built on: \<^verbatim>\<open>include/llvm/ADT/StringRef.h\<close> and
  \<^verbatim>\<open>lib/Support/StringRef.cpp\<close>. A \<^verbatim>\<open>StringRef\<close> is the list of its bytes. The searches
  return a position, \<open>None\<close> for \<^verbatim>\<open>npos\<close>; the integer parsers return the flag the code
  returns (true is an error) with the values of their reference arguments, over 64-bit words.
\<close>

unbundle bit_operations_syntax

subsection \<open>Substrings\<close>

definition sr_substr :: "string \<Rightarrow> nat \<Rightarrow> pos \<Rightarrow> string" where
  "sr_substr s start n =
     (let start = min start (length s) in take (pos_min n (length s - start)) (drop start s))"

definition sr_slice :: "string \<Rightarrow> nat \<Rightarrow> pos \<Rightarrow> string" where
  "sr_slice s start e =
     (let start = min start (length s);
          e' = min (case e of None \<Rightarrow> length s | Some k \<Rightarrow> max start k) (length s)
      in take (e' - start) (drop start s))"

definition sr_startswith :: "string \<Rightarrow> string \<Rightarrow> bool" where
  "sr_startswith s p \<longleftrightarrow> length p \<le> length s \<and> take (length p) s = p"

definition sr_endswith :: "string \<Rightarrow> string \<Rightarrow> bool" where
  "sr_endswith s p \<longleftrightarrow> length p \<le> length s \<and> drop (length s - length p) s = p"

lemma sr_startswith_prefix [simp]: "sr_startswith s p \<longleftrightarrow> prefix p s"
  by (simp add: sr_startswith_def prefix_take_iff)

lemma sr_endswith_suffix [simp]: "sr_endswith s p \<longleftrightarrow> suffix p s"
  by (simp add: sr_endswith_def suffix_drop_iff)

lemma sr_substr_None [simp]: "sr_substr s i None = drop i s"
  by (simp add: sr_substr_def Let_def min_def)

lemma sr_substr_Some [simp]: "sr_substr s i (Some n) = take n (drop i s)"
  by (simp add: sr_substr_def Let_def min_def)

subsection \<open>Searching for a character\<close>

definition sr_find_char :: "string \<Rightarrow> char \<Rightarrow> nat \<Rightarrow> pos" where
  "sr_find_char s c from =
     (let b = min from (length s)
      in if b < length s then scan (\<lambda>d. d = c) b (drop b s) else None)"

definition sr_rfind_char :: "string \<Rightarrow> char \<Rightarrow> pos \<Rightarrow> pos" where
  "sr_rfind_char s c from = rscan (\<lambda>d. d = c) s (pos_min from (length s))"

definition sr_count_char :: "string \<Rightarrow> char \<Rightarrow> nat" where
  "sr_count_char s c = length (filter (\<lambda>d. d = c) s)"

text \<open>\<^verbatim>\<open>CharBits\<close>, the bit set of the characters of an argument, is membership in its list.\<close>

definition sr_find_first_of :: "string \<Rightarrow> string \<Rightarrow> nat \<Rightarrow> pos" where
  "sr_find_first_of s cs from =
     (let i = min from (length s) in scan (\<lambda>d. d \<in> set cs) i (drop i s))"

definition sr_find_first_not_of_char :: "string \<Rightarrow> char \<Rightarrow> nat \<Rightarrow> pos" where
  "sr_find_first_not_of_char s c from =
     (let i = min from (length s) in scan (\<lambda>d. d \<noteq> c) i (drop i s))"

definition sr_find_first_not_of :: "string \<Rightarrow> string \<Rightarrow> nat \<Rightarrow> pos" where
  "sr_find_first_not_of s cs from =
     (let i = min from (length s) in scan (\<lambda>d. d \<notin> set cs) i (drop i s))"

definition sr_find_last_of :: "string \<Rightarrow> string \<Rightarrow> pos \<Rightarrow> pos" where
  "sr_find_last_of s cs from = rscan (\<lambda>d. d \<in> set cs) s (pos_min from (length s))"

definition sr_find_last_not_of_char :: "string \<Rightarrow> char \<Rightarrow> pos \<Rightarrow> pos" where
  "sr_find_last_not_of_char s c from = rscan (\<lambda>d. d \<noteq> c) s (pos_min from (length s))"

definition sr_find_last_not_of :: "string \<Rightarrow> string \<Rightarrow> pos \<Rightarrow> pos" where
  "sr_find_last_not_of s cs from = rscan (\<lambda>d. d \<notin> set cs) s (pos_min from (length s))"

lemma scan_drop_Some_iff:
  assumes "i \<le> length s"
  shows "scan p i (drop i s) = Some j \<longleftrightarrow>
     i \<le> j \<and> j < length s \<and> p (s ! j) \<and> (\<forall>k. i \<le> k \<and> k < j \<longrightarrow> \<not> p (s ! k))"
proof -
  have "(\<forall>k<j - i. \<not> p (drop i s ! k)) \<longleftrightarrow> (\<forall>k. i \<le> k \<and> k < j \<longrightarrow> \<not> p (s ! k))" if "i \<le> j"
  proof
    assume *: "\<forall>k<j - i. \<not> p (drop i s ! k)"
    show "\<forall>k. i \<le> k \<and> k < j \<longrightarrow> \<not> p (s ! k)"
    proof (intro allI impI)
      fix k assume k: "i \<le> k \<and> k < j"
      then have "k - i < j - i" by (simp add: diff_less_mono)
      then show "\<not> p (s ! k)" using * k assms by fastforce
    qed
  next
    assume "\<forall>k. i \<le> k \<and> k < j \<longrightarrow> \<not> p (s ! k)"
    with assms show "\<forall>k<j - i. \<not> p (drop i s ! k)" by simp
  qed
  with assms show ?thesis by (auto simp: scan_Some_iff)
qed

lemma sr_find_first_of_Some_iff:
  "sr_find_first_of s cs from = Some j \<longleftrightarrow>
     from \<le> j \<and> j < length s \<and> s ! j \<in> set cs \<and> (\<forall>k. from \<le> k \<and> k < j \<longrightarrow> s ! k \<notin> set cs)"
  by (cases "from \<le> length s") (auto simp: sr_find_first_of_def Let_def scan_drop_Some_iff)

lemma sr_find_first_of_None_iff:
  "sr_find_first_of s cs from = None \<longleftrightarrow> (\<forall>k. from \<le> k \<and> k < length s \<longrightarrow> s ! k \<notin> set cs)"
proof -
  have "sr_find_first_of s cs from = None \<longleftrightarrow> (\<forall>c \<in> set (drop from s). c \<notin> set cs)"
    by (cases "from \<le> length s") (simp_all add: sr_find_first_of_def Let_def scan_None_iff)
  also have "\<dots> \<longleftrightarrow> (\<forall>k. from \<le> k \<and> k < length s \<longrightarrow> s ! k \<notin> set cs)"
    by (auto simp: all_set_conv_all_nth) (metis add_diff_inverse_nat diff_less_mono leD)
  finally show ?thesis .
qed

subsection \<open>Searching for a string\<close>

text \<open>An occurrence of \<open>needle\<close> at \<open>i\<close>: what \<^verbatim>\<open>memcmp\<close> at \<open>Data + i\<close> compares.\<close>

definition occurs_at :: "string \<Rightarrow> string \<Rightarrow> nat \<Rightarrow> bool" where
  "occurs_at s needle i \<longleftrightarrow>
     i + length needle \<le> length s \<and> take (length needle) (drop i s) = needle"

text \<open>The naive loop, \<^verbatim>\<open>do ... while (Start < Stop)\<close> with \<open>Start\<close> an index below \<open>Stop\<close>.\<close>

function find_naive :: "string \<Rightarrow> string \<Rightarrow> nat \<Rightarrow> nat \<Rightarrow> pos" where
  "find_naive s needle start stop =
     (if take (length needle) (drop start s) = needle then Some start
      else if Suc start < stop then find_naive s needle (Suc start) stop else None)"
  by pat_completeness auto
termination
  by (relation "measure (\<lambda>(s, needle, start, stop). stop - start)") auto

declare find_naive.simps [simp del]

text \<open>
  The table of skips, a \<^verbatim>\<open>uint8_t\<close> for each byte: filled with \<open>N\<close>, then \<open>N - 1 - i\<close> at the
  byte \<open>i\<close> of the needle, for \<open>i\<close> from \<open>0\<close> to \<open>N - 2\<close>, later writes over earlier ones.
\<close>

definition bad_char_skip :: "string \<Rightarrow> char \<Rightarrow> 8 word" where
  "bad_char_skip needle =
     (let n = length needle
      in fold (\<lambda>i t. t(needle ! i := of_nat (n - 1 - i))) [0..<n - 1] (\<lambda>_. of_nat n))"

text \<open>
  The skip loop. \<open>fuel\<close> bounds its iterations: every skip is at least 1, so \<open>stop - start\<close> is
  enough (the theorem about \<open>sr_find\<close> would fail if it ran out).
\<close>

fun find_skip :: "nat \<Rightarrow> string \<Rightarrow> string \<Rightarrow> (char \<Rightarrow> 8 word) \<Rightarrow> nat \<Rightarrow> nat \<Rightarrow> pos" where
  "find_skip 0 s needle tbl start stop = None"
| "find_skip (Suc fuel) s needle tbl start stop =
     (let n = length needle; lst = s ! (start + n - 1)
      in if lst = needle ! (n - 1) \<and> take (n - 1) (drop start s) = take (n - 1) needle
         then Some start
         else let start' = start + unat (tbl lst)
              in if start' < stop then find_skip fuel s needle tbl start' stop else None)"

definition sr_find :: "string \<Rightarrow> string \<Rightarrow> nat \<Rightarrow> pos" where
  "sr_find s str from =
     (if from > length s then None
      else let size = length s - from; n = length str
        in if n = 0 then Some from
           else if size < n then None
           else if n = 1 then scan (\<lambda>d. d = str ! 0) from (drop from s)
           else let stop = from + (size - n + 1)
             in if size < 16 \<or> n > 255 then find_naive s str from stop
                else find_skip (stop - from) s str (bad_char_skip str) from stop)"

fun rfind_loop :: "string \<Rightarrow> string \<Rightarrow> nat \<Rightarrow> pos" where
  "rfind_loop s str 0 = None"
| "rfind_loop s str (Suc i) =
     (if sr_substr s i (Some (length str)) = str then Some i else rfind_loop s str i)"

definition sr_rfind :: "string \<Rightarrow> string \<Rightarrow> pos" where
  "sr_rfind s str =
     (if length str > length s then None else rfind_loop s str (length s - length str + 1))"

fun count_loop :: "string \<Rightarrow> string \<Rightarrow> nat list \<Rightarrow> nat" where
  "count_loop s str [] = 0"
| "count_loop s str (i # is) =
     (if sr_substr s i (Some (length str)) = str then Suc (count_loop s str is)
      else count_loop s str is)"

definition sr_count :: "string \<Rightarrow> string \<Rightarrow> nat" where
  "sr_count s str =
     (if length str > length s then 0 else count_loop s str [0..<length s - length str + 1])"

lemma occurs_at_nth:
  "occurs_at s needle i \<longleftrightarrow>
     i + length needle \<le> length s \<and> (\<forall>k<length needle. s ! (i + k) = needle ! k)"
  by (auto simp: occurs_at_def list_eq_iff_nth_eq)

lemma find_naive_Some_iff:
  assumes "start < stop" "stop = length s - length needle + 1" "length needle \<le> length s"
  shows "find_naive s needle start stop = Some j \<longleftrightarrow>
    start \<le> j \<and> occurs_at s needle j \<and> (\<forall>k. start \<le> k \<and> k < j \<longrightarrow> \<not> occurs_at s needle k)"
  using assms
proof (induction s needle start stop rule: find_naive.induct)
  case (1 s needle start stop)
  from "1.prems" have fits: "start + length needle \<le> length s" by simp
  show ?case
  proof (cases "take (length needle) (drop start s) = needle")
    case True
    with fits have "occurs_at s needle start" by (simp add: occurs_at_def)
    with True show ?thesis
      by (subst find_naive.simps) (auto dest: le_neq_implies_less)
  next
    case no: False
    then have nocc: "\<not> occurs_at s needle start" by (simp add: occurs_at_def)
    show ?thesis
    proof (cases "Suc start < stop")
      case True
      have step: "find_naive s needle start stop = find_naive s needle (Suc start) stop"
        using no True by (subst find_naive.simps) simp
      have IH: "find_naive s needle (Suc start) stop = Some j \<longleftrightarrow>
        Suc start \<le> j \<and> occurs_at s needle j \<and>
        (\<forall>k. Suc start \<le> k \<and> k < j \<longrightarrow> \<not> occurs_at s needle k)"
        by (rule "1.IH"[OF no True True "1.prems"(2,3)])
      have "(start \<le> j \<and> occurs_at s needle j \<and> (\<forall>k. start \<le> k \<and> k < j \<longrightarrow> \<not> occurs_at s needle k))
        \<longleftrightarrow> (Suc start \<le> j \<and> occurs_at s needle j \<and>
        (\<forall>k. Suc start \<le> k \<and> k < j \<longrightarrow> \<not> occurs_at s needle k))"
        using nocc by (metis Suc_leD Suc_leI le_neq_implies_less)
      then show ?thesis using step IH by simp
    next
      case False
      have "\<not> occurs_at s needle j" if "start \<le> j"
      proof (cases "j = start")
        case True
        then show ?thesis using nocc by simp
      next
        case neq: False
        with that False "1.prems" have "length s < j + length needle" by linarith
        then show ?thesis by (simp add: occurs_at_def)
      qed
      moreover have "find_naive s needle start stop = None"
        using no False by (subst find_naive.simps) simp
      ultimately show ?thesis by auto
    qed
  qed
qed

text \<open>The table: at least 1, and at most the distance of every earlier occurrence of the byte.\<close>

lemma skip_fold_bounds:
  assumes "n \<le> 255" "m \<le> n - 1" "0 < n"
  shows "1 \<le> unat (fold (\<lambda>i t. t(needle ! i := of_nat (n - 1 - i))) [0..<m] (\<lambda>_. of_nat n :: 8 word) c)
    \<and> (\<forall>i<m. needle ! i = c \<longrightarrow>
         unat (fold (\<lambda>i t. t(needle ! i := of_nat (n - 1 - i))) [0..<m] (\<lambda>_. of_nat n :: 8 word) c)
           \<le> n - 1 - i)"
  using assms(2)
proof (induction m)
  case 0
  then show ?case using assms by (simp add: unat_of_nat)
next
  case (Suc m)
  have "unat (of_nat (n - 1 - m) :: 8 word) = n - 1 - m"
    using assms by (simp add: unat_of_nat)
  with Suc show ?case by (auto simp: less_Suc_eq)
qed

lemma bad_char_skip_bounds:
  assumes "2 \<le> length needle" "length needle \<le> 255"
  shows "1 \<le> unat (bad_char_skip needle c)"
    and "i < length needle - 1 \<Longrightarrow> needle ! i = c \<Longrightarrow>
           unat (bad_char_skip needle c) \<le> length needle - 1 - i"
proof -
  have pos: "0 < length needle" using assms(1) by linarith
  note bounds = skip_fold_bounds[OF assms(2) order_refl pos, of needle c]
  show "1 \<le> unat (bad_char_skip needle c)"
    unfolding bad_char_skip_def Let_def using bounds by (rule conjunct1)
  show "i < length needle - 1 \<Longrightarrow> needle ! i = c \<Longrightarrow>
      unat (bad_char_skip needle c) \<le> length needle - 1 - i"
    unfolding bad_char_skip_def Let_def using bounds by blast
qed

lemma no_occurs_in_skip:
  assumes "2 \<le> length needle" "length needle \<le> 255"
    and "start < k" "k < start + unat (bad_char_skip needle (s ! (start + length needle - 1)))"
  shows "\<not> occurs_at s needle k"
proof
  assume occ: "occurs_at s needle k"
  let ?n = "length needle"
  let ?c = "s ! (start + ?n - 1)"
  show False
  proof (cases "k - start \<le> ?n - 1")
    case True
    let ?i = "?n - 1 - (k - start)"
    have idx: "k + ?i = start + ?n - 1" using True assms(1,3) by linarith
    have "?i < ?n" using assms(1) by linarith
    with occ have "s ! (k + ?i) = needle ! ?i" by (simp add: occurs_at_nth)
    then have "needle ! ?i = ?c" unfolding idx by simp
    moreover have "?i < ?n - 1" using assms(1,3) True by linarith
    ultimately have "unat (bad_char_skip needle ?c) \<le> ?n - 1 - ?i"
      using bad_char_skip_bounds(2)[OF assms(1,2)] by blast
    also have "\<dots> = k - start" using True by linarith
    finally show False using assms(3,4) by linarith
  next
    case False
    have "unat (bad_char_skip needle ?c) \<le> ?n"
    proof (cases "\<exists>i<?n - 1. needle ! i = ?c")
      case True
      then obtain i where "i < ?n - 1" "needle ! i = ?c" by blast
      from bad_char_skip_bounds(2)[OF assms(1,2) this] show ?thesis by linarith
    next
      case no: False
      have "fold (\<lambda>i t. t(needle ! i := of_nat (?n - 1 - i))) [0..<m] t0 ?c = t0 ?c"
        if "m \<le> ?n - 1" for m and t0 :: "char \<Rightarrow> 8 word"
        using that no by (induction m) (auto simp: Suc_le_eq)
      then show ?thesis using assms(2) by (simp add: bad_char_skip_def Let_def unat_of_nat)
    qed
    with False assms(4) have "k - start = ?n \<or> k - start < ?n" by linarith
    with False assms show False
      using \<open>unat (bad_char_skip needle ?c) \<le> ?n\<close> by linarith
  qed
qed

lemma occurs_at_last:
  assumes "2 \<le> length needle" "start + length needle \<le> length s"
  shows "occurs_at s needle start \<longleftrightarrow>
    s ! (start + length needle - 1) = needle ! (length needle - 1) \<and>
    take (length needle - 1) (drop start s) = take (length needle - 1) needle"
proof -
  let ?n = "length needle"
  have split: "(\<forall>k<?n. P k) \<longleftrightarrow> P (?n - 1) \<and> (\<forall>k<?n - 1. P k)" for P
    using assms(1) by (metis One_nat_def Suc_1 Suc_le_lessD Suc_pred less_Suc_eq less_imp_Suc_add zero_less_Suc)
  have "take (?n - 1) (drop start s) = take (?n - 1) needle \<longleftrightarrow>
      (\<forall>k<?n - 1. s ! (start + k) = needle ! k)"
    using assms by (auto simp: list_eq_iff_nth_eq)
  moreover have "start + (?n - 1) = start + ?n - 1" using assms(1) by linarith
  ultimately show ?thesis using assms(2) split[of "\<lambda>k. s ! (start + k) = needle ! k"]
    by (simp add: occurs_at_nth)
qed

lemma find_skip_Some_iff:
  assumes "2 \<le> length needle" "length needle \<le> 255" "length needle \<le> length s"
    and "stop = length s - length needle + 1" "start < stop" "stop - start \<le> fuel"
  shows "find_skip fuel s needle (bad_char_skip needle) start stop = Some j \<longleftrightarrow>
    start \<le> j \<and> occurs_at s needle j \<and> (\<forall>k. start \<le> k \<and> k < j \<longrightarrow> \<not> occurs_at s needle k)"
  using assms(5,6)
proof (induction fuel arbitrary: start)
  case 0
  then show ?case by simp
next
  case (Suc fuel)
  let ?lst = "s ! (start + length needle - 1)"
  let ?next = "start + unat (bad_char_skip needle ?lst)"
  have fits: "start + length needle \<le> length s" using Suc.prems assms(3,4) by linarith
  have adv: "start < ?next" using bad_char_skip_bounds(1)[OF assms(1,2), of ?lst] by linarith
  show ?case
  proof (cases "occurs_at s needle start")
    case True
    then show ?thesis
      using occurs_at_last[OF assms(1) fits] by (auto simp: Let_def dest: le_neq_implies_less)
  next
    case no: False
    then have step: "find_skip (Suc fuel) s needle (bad_char_skip needle) start stop =
        (if ?next < stop then find_skip fuel s needle (bad_char_skip needle) ?next stop else None)"
      using occurs_at_last[OF assms(1) fits] by (auto simp: Let_def)
    have gap: "\<not> occurs_at s needle k" if "start \<le> k" "k < ?next" for k
      using no_occurs_in_skip[OF assms(1,2), of start k s] no that by (cases "k = start") auto
    have shift: "(start \<le> j \<and> occurs_at s needle j \<and> (\<forall>k. start \<le> k \<and> k < j \<longrightarrow> \<not> occurs_at s needle k))
        \<longleftrightarrow> (?next \<le> j \<and> occurs_at s needle j \<and> (\<forall>k. ?next \<le> k \<and> k < j \<longrightarrow> \<not> occurs_at s needle k))"
    proof (intro iffI conjI allI impI)
      assume "start \<le> j \<and> occurs_at s needle j \<and>
        (\<forall>k. start \<le> k \<and> k < j \<longrightarrow> \<not> occurs_at s needle k)"
      then show "?next \<le> j" using gap by (meson not_less)
    next
      fix k
      assume "?next \<le> j \<and> occurs_at s needle j \<and>
        (\<forall>k. ?next \<le> k \<and> k < j \<longrightarrow> \<not> occurs_at s needle k)" and "start \<le> k \<and> k < j"
      then show "\<not> occurs_at s needle k" using gap by (cases "k < ?next") auto
    qed (use adv in auto)
    show ?thesis
    proof (cases "?next < stop")
      case True
      have "stop - ?next \<le> fuel" using adv Suc.prems by linarith
      from Suc.IH[OF True this] show ?thesis using step True shift by simp
    next
      case False
      have "\<not> occurs_at s needle j" if "?next \<le> j"
      proof -
        have "length s < j + length needle" using that False assms(3,4) by linarith
        then show ?thesis by (simp add: occurs_at_def)
      qed
      then show ?thesis using step False shift by auto
    qed
  qed
qed

lemma sr_find_Some_iff:
  "sr_find s str from = Some j \<longleftrightarrow>
     from \<le> j \<and> occurs_at s str j \<and> (\<forall>k. from \<le> k \<and> k < j \<longrightarrow> \<not> occurs_at s str k)"
proof -
  let ?n = "length str"
  let ?stop = "from + (length s - from - ?n + 1)"
  consider (out) "from > length s" | (empty) "from \<le> length s" "str = []"
    | (long) "from \<le> length s" "str \<noteq> []" "length s - from < ?n"
    | (one) "from \<le> length s" "?n = 1" "?n \<le> length s - from"
    | (many) "from \<le> length s" "2 \<le> ?n" "?n \<le> length s - from"
  proof -
    have "?n = 0 \<or> ?n = 1 \<or> 2 \<le> ?n" by linarith
    then show thesis
      using that by (metis length_0_conv not_le)
  qed
  then show ?thesis
  proof cases
    case out
    then show ?thesis by (auto simp: sr_find_def occurs_at_def)
  next
    case empty
    then show ?thesis by (auto simp: sr_find_def occurs_at_def)
  next
    case long
    then show ?thesis by (auto simp: sr_find_def occurs_at_def)
  next
    case one
    then obtain c where str: "str = [c]" by (auto simp: length_Suc_conv)
    have "occurs_at s str k \<longleftrightarrow> k < length s \<and> s ! k = c" for k
      by (auto simp: occurs_at_nth str)
    with one show ?thesis
      by (auto simp: sr_find_def Let_def str scan_drop_Some_iff)
  next
    case many
    have stop: "?stop = length s - ?n + 1" "from < ?stop" "?n \<le> length s" using many by linarith+
    have "str \<noteq> []" using many(2) by auto
    have nums: "\<not> from > length s" "?n \<noteq> 0" "\<not> length s - from < ?n" "?n \<noteq> 1"
      using many by linarith+
    show ?thesis
    proof (cases "length s - from < 16 \<or> ?n > 255")
      case True
      then have "sr_find s str from = find_naive s str from ?stop"
        using nums by (simp only: sr_find_def Let_def if_False if_True)
      with find_naive_Some_iff[OF stop(2,1,3)] show ?thesis by simp
    next
      case False
      then have "sr_find s str from = find_skip (?stop - from) s str (bad_char_skip str) from ?stop"
        using nums by (simp only: sr_find_def Let_def if_False if_True)
      moreover have "?n \<le> 255" using False by linarith
      ultimately show ?thesis
        using find_skip_Some_iff[OF many(2) _ stop(3,1,2) order_refl] by simp
    qed
  qed
qed

lemma sr_find_None_iff:
  "sr_find s str from = None \<longleftrightarrow> (\<forall>k\<ge>from. \<not> occurs_at s str k)"
proof
  assume none: "sr_find s str from = None"
  show "\<forall>k\<ge>from. \<not> occurs_at s str k"
  proof (rule ccontr)
    assume "\<not> ?thesis"
    then obtain k where k: "from \<le> k \<and> occurs_at s str k" by blast
    then obtain j where j: "from \<le> j \<and> occurs_at s str j"
        "\<forall>i<j. \<not> (from \<le> i \<and> occurs_at s str i)"
      using exists_least_iff[of "\<lambda>k. from \<le> k \<and> occurs_at s str k"] by blast
    then have "sr_find s str from = Some j"
      unfolding sr_find_Some_iff by blast
    with none show False by simp
  qed
next
  assume "\<forall>k\<ge>from. \<not> occurs_at s str k"
  then show "sr_find s str from = None"
    by (cases "sr_find s str from") (auto simp: sr_find_Some_iff)
qed

text \<open>
  \<^verbatim>\<open>StringRef::find\<close> returns the least position, at or after \<open>from\<close>, at which
  the needle occurs, whichever of its four algorithms runs (the empty needle, \<^verbatim>\<open>memchr\<close>, the naive
  loop, the loop that skips by the table of bytes); it returns \<^verbatim>\<open>npos\<close> exactly when there is none.
\<close>

theorem sr_find_first_occurrence:
  "case sr_find s str from of
     None \<Rightarrow> (\<nexists>k. from \<le> k \<and> occurs_at s str k)
   | Some j \<Rightarrow> from \<le> j \<and> occurs_at s str j \<and>
       (\<nexists>k. from \<le> k \<and> k < j \<and> occurs_at s str k)"
  by (auto simp: sr_find_Some_iff sr_find_None_iff split: option.split)

subsection \<open>Splitting\<close>

text \<open>
  \<^verbatim>\<open>split\<close> counts \<open>MaxSplit\<close> down to 0; a negative one never reaches 0 and splits for ever, until
  no separator is left. \<open>None\<close> is such a negative \<open>MaxSplit\<close> (its default). Each split shortens the
  string by the separator, a single character here, so the recursion is on the length.
\<close>

function sr_split_char :: "string \<Rightarrow> char \<Rightarrow> nat option \<Rightarrow> bool \<Rightarrow> string list" where
  "sr_split_char s sep ms keep =
     (let tl = (if keep \<or> s \<noteq> [] then [s] else [])
      in if ms = Some 0 then tl
         else case sr_find_char s sep 0 of
                None \<Rightarrow> tl
              | Some idx \<Rightarrow>
                  (if keep \<or> idx > 0 then [sr_slice s 0 (Some idx)] else []) @
                  sr_split_char (sr_slice s (idx + 1) None) sep (map_option (\<lambda>m. m - 1) ms) keep)"
  by pat_completeness auto
termination
  by (relation "measure (\<lambda>(s, sep, ms, keep). length s)")
    (auto simp: sr_find_char_def sr_slice_def Let_def scan_0_Some_iff split: if_splits)

declare sr_split_char.simps [simp del]

text \<open>\<^verbatim>\<open>split(Separator)\<close> of the header: the two parts around the first separator.\<close>

definition sr_split_pair :: "string \<Rightarrow> char \<Rightarrow> string \<times> string" where
  "sr_split_pair s sep =
     (case sr_find_char s sep 0 of
        None \<Rightarrow> (s, [])
      | Some idx \<Rightarrow> (sr_slice s 0 (Some idx), sr_slice s (idx + 1) None))"

lemma sr_find_char_0: "sr_find_char s c 0 = scan (\<lambda>d. d = c) 0 s"
  by (cases s) (simp_all add: sr_find_char_def)

text \<open>The pieces of \<open>s\<close> around \<open>sep\<close>, joined with \<open>sep\<close>, are \<open>s\<close>.\<close>

fun join_with :: "char \<Rightarrow> string list \<Rightarrow> string" where
  "join_with sep [] = []"
| "join_with sep [x] = x"
| "join_with sep (x # xs) = x @ sep # join_with sep xs"

lemma join_with_Cons: "xs \<noteq> [] \<Longrightarrow> join_with sep (x # xs) = x @ sep # join_with sep xs"
  by (cases xs) simp_all

lemma sr_split_char_not_Nil: "sr_split_char s sep ms True \<noteq> []"
  by (subst sr_split_char.simps) (auto simp: Let_def split: option.split)

lemma sr_slice_0: "i \<le> length s \<Longrightarrow> sr_slice s 0 (Some i) = take i s"
  by (simp add: sr_slice_def Let_def)

lemma sr_slice_None: "sr_slice s i None = drop i s"
  by (simp add: sr_slice_def Let_def min_def)

lemma sr_split_char_join_sep: "join_with sep (sr_split_char s sep ms True) = s"
proof (induction s sep ms "True" rule: sr_split_char.induct)
  case (1 s sep ms)
  show ?case
  proof (cases "ms = Some 0 \<or> sr_find_char s sep 0 = None")
    case True
    then show ?thesis by (subst sr_split_char.simps) (auto simp: Let_def)
  next
    case False
    then obtain i where ms: "ms \<noteq> Some 0" and i: "sr_find_char s sep 0 = Some i" by auto
    then have il: "i < length s" "s ! i = sep" by (auto simp: sr_find_char_0 scan_0_Some_iff)
    let ?rest = "sr_split_char (sr_slice s (i + 1) None) sep (map_option (\<lambda>m. m - 1) ms) True"
    have "join_with sep ?rest = sr_slice s (i + 1) None" by (rule "1"[OF _ ms i]) auto
    moreover have "sr_split_char s sep ms True = take i s # ?rest"
      using ms i il by (subst sr_split_char.simps) (simp add: sr_slice_0)
    ultimately show ?thesis
      using il id_take_nth_drop[OF il(1)]
      by (simp add: join_with_Cons sr_split_char_not_Nil sr_slice_None)
  qed
qed

subsection \<open>Integers\<close>

definition char_val :: "char \<Rightarrow> nat option" where
  "char_val c =
     (if CHR ''0'' \<le> c \<and> c \<le> CHR ''9'' then Some (of_char c - of_char (CHR ''0''))
      else if CHR ''a'' \<le> c \<and> c \<le> CHR ''z'' then Some (of_char c - of_char (CHR ''a'') + 10)
      else if CHR ''A'' \<le> c \<and> c \<le> CHR ''Z'' then Some (of_char c - of_char (CHR ''A'') + 10)
      else None)"

definition GetAutoSenseRadix :: "string \<Rightarrow> nat \<times> string" where
  "GetAutoSenseRadix s =
     (if s = [] then (10, s)
      else if sr_startswith s ''0x'' \<or> sr_startswith s ''0X'' then (16, sr_substr s 2 None)
      else if sr_startswith s ''0b'' \<or> sr_startswith s ''0B'' then (2, sr_substr s 2 None)
      else if sr_startswith s ''0o'' then (8, sr_substr s 2 None)
      else if s ! 0 = CHR ''0'' \<and> length s > 1 \<and> CHR ''0'' \<le> s ! 1 \<and> s ! 1 \<le> CHR ''9''
        then (8, sr_substr s 1 None)
      else (10, s))"

text \<open>
  The digit loop: the flag (true is overflow), what is left of the string, and the result so far.
\<close>

fun consume_digits :: "nat \<Rightarrow> string \<Rightarrow> 64 word \<Rightarrow> bool \<times> string \<times> 64 word" where
  "consume_digits radix [] result = (False, [], result)"
| "consume_digits radix (c # cs) result =
     (case char_val c of
        None \<Rightarrow> (False, c # cs, result)
      | Some v \<Rightarrow>
          if v \<ge> radix then (False, c # cs, result)
          else let result' = result * of_nat radix + of_nat v
               in if result' div of_nat radix < result then (True, c # cs, result')
                  else consume_digits radix cs result')"

text \<open>
  \<open>(flag, Str, Result)\<close>: a true flag is an error. Where the caller passes an uninitialised
  \<open>Result\<close>, the model passes 0: it is read after a success only, and a success assigns it.
\<close>

definition consumeUnsignedInteger :: "string \<Rightarrow> nat \<Rightarrow> 64 word \<Rightarrow> bool \<times> string \<times> 64 word" where
  "consumeUnsignedInteger str0 radix0 result =
     (let (radix, str) = (if radix0 = 0 then GetAutoSenseRadix str0 else (radix0, str0))
      in if str = [] then (True, str, result)
         else case consume_digits radix str 0 of
                (True, str2, r) \<Rightarrow> (True, str, r)
              | (False, str2, r) \<Rightarrow>
                  if length str = length str2 then (True, str, r) else (False, str2, r))"

definition consumeSignedInteger :: "string \<Rightarrow> nat \<Rightarrow> 64 word \<Rightarrow> bool \<times> string \<times> 64 word" where
  "consumeSignedInteger str radix result =
     (if str = [] \<or> str ! 0 \<noteq> CHR ''-''
      then case consumeUnsignedInteger str radix 0 of
             (err, str', v) \<Rightarrow>
               if err \<or> sint v < 0 then (True, str', result) else (False, str', v)
      else case consumeUnsignedInteger (tl str) radix 0 of
             (err, str', v) \<Rightarrow>
               if err \<or> sint (- v) > 0 then (True, str, result) else (False, str', - v))"

definition getAsUnsignedInteger :: "string \<Rightarrow> nat \<Rightarrow> 64 word \<Rightarrow> bool \<times> 64 word" where
  "getAsUnsignedInteger str radix result =
     (case consumeUnsignedInteger str radix result of
        (err, str', r) \<Rightarrow> if err then (True, r) else (str' \<noteq> [], r))"

definition getAsSignedInteger :: "string \<Rightarrow> nat \<Rightarrow> 64 word \<Rightarrow> bool \<times> 64 word" where
  "getAsSignedInteger str radix result =
     (case consumeSignedInteger str radix result of
        (err, str', r) \<Rightarrow> if err then (True, r) else (str' \<noteq> [], r))"

text \<open>\<^verbatim>\<open>getAsInteger\<close> at \<^verbatim>\<open>unsigned\<close> and at \<^verbatim>\<open>int\<close>; \<open>Result\<close> keeps its value on an error.\<close>

definition getAsInteger_unsigned :: "string \<Rightarrow> nat \<Rightarrow> 32 word \<Rightarrow> bool \<times> 32 word" where
  "getAsInteger_unsigned str radix result =
     (case getAsUnsignedInteger str radix 0 of
        (err, v) \<Rightarrow> if err \<or> (ucast (ucast v :: 32 word) :: 64 word) \<noteq> v then (True, result)
                    else (False, ucast v))"

definition getAsInteger_int :: "string \<Rightarrow> nat \<Rightarrow> 32 word \<Rightarrow> bool \<times> 32 word" where
  "getAsInteger_int str radix result =
     (case getAsSignedInteger str radix 0 of
        (err, v) \<Rightarrow> if err \<or> (scast (ucast v :: 32 word) :: 64 word) \<noteq> v then (True, result)
                    else (False, ucast v))"

text \<open>
  The specification of the parsers: the digits of a radix, the number a list of digits denotes.
\<close>

definition is_digit_of :: "nat \<Rightarrow> char \<Rightarrow> bool" where
  "is_digit_of radix c \<longleftrightarrow> (case char_val c of None \<Rightarrow> False | Some v \<Rightarrow> v < radix)"

definition digits_value :: "nat \<Rightarrow> string \<Rightarrow> nat" where
  "digits_value radix = foldl (\<lambda>a c. a * radix + the (char_val c)) 0"

text \<open>The overflow test of the loop is exact: dividing back shows whether bits were lost.\<close>

lemma overflow_test:
  fixes r :: "64 word"
  assumes "0 < radix" "radix \<le> 36" "v < radix"
  defines "r' \<equiv> r * of_nat radix + of_nat v"
  shows "r' div of_nat radix < r \<longleftrightarrow> 2 ^ 64 \<le> unat r * radix + v"
    and "unat r * radix + v < 2 ^ 64 \<Longrightarrow> unat r' = unat r * radix + v"
proof -
  have r': "unat r' = (unat r * radix + v) mod 2 ^ 64"
    using assms by (simp add: r'_def unat_word_ariths unat_of_nat mod_simps)
  have rdx: "unat (of_nat radix :: 64 word) = radix" using assms by (simp add: unat_of_nat)
  show fits: "unat r' = unat r * radix + v" if "unat r * radix + v < 2 ^ 64"
    using r' that by simp
  show "r' div of_nat radix < r \<longleftrightarrow> 2 ^ 64 \<le> unat r * radix + v"
  proof (cases "unat r * radix + v < 2 ^ 64")
    case True
    have "(unat r * radix + v) div radix = unat r" using assms by simp
    then show ?thesis
      using True fits rdx by (simp add: word_less_nat_alt unat_div)
  next
    case False
    then have "unat r' \<le> unat r * radix + v - 2 ^ 64"
      unfolding r' by (subst le_mod_geq) simp_all
    also have "\<dots> < unat r * radix"
    proof -
      have "v < 2 ^ 64" using assms by simp
      with False show ?thesis by linarith
    qed
    finally have "unat r' div radix < unat r" by (simp add: less_mult_imp_div_less)
    with False show ?thesis using rdx by (simp add: word_less_nat_alt unat_div)
  qed
qed


lemma foldl_digits_ge: "0 < radix \<Longrightarrow> a \<le> foldl (\<lambda>a c. a * radix + d c) a cs" for a radix :: nat
proof (induction cs arbitrary: a)
  case (Cons c cs)
  have "a \<le> a * radix + d c" using Cons.prems by (simp add: trans_le_add1)
  also have "\<dots> \<le> foldl (\<lambda>a c. a * radix + d c) (a * radix + d c) cs"
    by (rule Cons.IH[OF Cons.prems])
  finally show ?case by simp
qed simp

lemma consume_digits_value:
  assumes "0 < radix" "radix \<le> 36"
  defines "val \<equiv> \<lambda>a ds. foldl (\<lambda>a c. a * radix + the (char_val c)) a ds"
  shows "if val (unat r) (takeWhile (is_digit_of radix) s) < 2 ^ 64
    then consume_digits radix s r =
      (False, dropWhile (is_digit_of radix) s, of_nat (val (unat r) (takeWhile (is_digit_of radix) s)))
    else fst (consume_digits radix s r)"
proof (induction s arbitrary: r)
  case Nil
  show ?case by (simp add: val_def)
next
  case (Cons c s)
  show ?case
  proof (cases "is_digit_of radix c")
    case False
    then show ?thesis
      by (auto simp: val_def is_digit_of_def split: option.splits)
  next
    case True
    then obtain v where v: "char_val c = Some v" "v < radix"
      by (auto simp: is_digit_of_def split: option.splits)
    let ?r' = "r * of_nat radix + of_nat v"
    have val: "val (unat r) (takeWhile (is_digit_of radix) (c # s)) =
        val (unat r * radix + v) (takeWhile (is_digit_of radix) s)"
      using True v by (simp add: val_def)
    show ?thesis
    proof (cases "unat r * radix + v < 2 ^ 64")
      case fits: True
      have "unat ?r' = unat r * radix + v" by (rule overflow_test(2)[OF assms(1,2) v(2) fits])
      moreover have "consume_digits radix (c # s) r = consume_digits radix s ?r'"
        using v fits overflow_test(1)[OF assms(1,2) v(2), of r] by (simp add: Let_def)
      ultimately show ?thesis using Cons[of ?r'] True unfolding val by simp
    next
      case big: False
      have "unat r * radix + v \<le> val (unat r * radix + v) (takeWhile (is_digit_of radix) s)"
        unfolding val_def by (rule foldl_digits_ge[OF assms(1)])
      moreover have "fst (consume_digits radix (c # s) r)"
        using v big overflow_test(1)[OF assms(1,2) v(2), of r] by (simp add: Let_def)
      ultimately show ?thesis using big unfolding val by simp
    qed
  qed
qed

text \<open>A whole string of digits, and the number it denotes.\<close>

definition is_number :: "nat \<Rightarrow> string \<Rightarrow> bool" where
  "is_number radix s \<longleftrightarrow> s \<noteq> [] \<and> list_all (is_digit_of radix) s"

lemma takeWhile_all: "list_all P s \<Longrightarrow> takeWhile P s = s"
  by (simp add: list_all_iff takeWhile_eq_all_conv)

lemma consumeUnsigned_number:
  assumes "0 < radix" "radix \<le> 36"
  shows "is_number radix s \<and> digits_value radix s < 2 ^ 64 \<longleftrightarrow>
      (\<exists>v. consumeUnsignedInteger s radix r0 = (False, [], v))"
    and "is_number radix s \<Longrightarrow> digits_value radix s < 2 ^ 64 \<Longrightarrow>
      consumeUnsignedInteger s radix r0 = (False, [], of_nat (digits_value radix s))"
proof -
  note spec = consume_digits_value[OF assms, of 0 s]
  show number: "consumeUnsignedInteger s radix r0 = (False, [], of_nat (digits_value radix s))"
    if "is_number radix s" "digits_value radix s < 2 ^ 64"
  proof -
    from that have tw: "takeWhile (is_digit_of radix) s = s" "dropWhile (is_digit_of radix) s = []"
      and "s \<noteq> []"
      by (simp_all add: is_number_def takeWhile_all list_all_iff)
    moreover have "consume_digits radix s 0 = (False, [], of_nat (digits_value radix s))"
      using spec[unfolded tw] that(2) by (simp add: digits_value_def)
    ultimately show ?thesis using assms by (simp add: consumeUnsignedInteger_def)
  qed
  show "is_number radix s \<and> digits_value radix s < 2 ^ 64 \<longleftrightarrow>
      (\<exists>v. consumeUnsignedInteger s radix r0 = (False, [], v))"
  proof
    assume "\<exists>v. consumeUnsignedInteger s radix r0 = (False, [], v)"
    then obtain v where ok: "consumeUnsignedInteger s radix r0 = (False, [], v)" by blast
    then have ne: "s \<noteq> []" and nof: "\<not> fst (consume_digits radix s 0)"
      and rest: "fst (snd (consume_digits radix s 0)) = []"
      using assms by (auto simp: consumeUnsignedInteger_def split: if_splits prod.splits bool.splits)
    from spec nof have fits: "foldl (\<lambda>a c. a * radix + the (char_val c)) (unat (0 :: 64 word))
        (takeWhile (is_digit_of radix) s) < 2 ^ 64"
      by (auto split: if_splits)
    with spec rest have "dropWhile (is_digit_of radix) s = []" by simp
    then have "takeWhile (is_digit_of radix) s = s" "list_all (is_digit_of radix) s"
      by (simp_all add: takeWhile_eq_all_conv list_all_iff)
    with ne fits show "is_number radix s \<and> digits_value radix s < 2 ^ 64"
      by (simp add: is_number_def digits_value_def)
  qed (use number in blast)
qed

lemma getAsUnsigned_number:
  assumes "0 < radix" "radix \<le> 36"
  shows "is_number radix s \<Longrightarrow> digits_value radix s < 2 ^ 64 \<Longrightarrow>
      getAsUnsignedInteger s radix r0 = (False, of_nat (digits_value radix s))"
    and "\<not> (is_number radix s \<and> digits_value radix s < 2 ^ 64) \<Longrightarrow>
      fst (getAsUnsignedInteger s radix r0)"
  using consumeUnsigned_number[OF assms, of s r0]
  by (auto simp: getAsUnsignedInteger_def split: prod.splits)

lemma ucast_roundtrip_iff:
  "(ucast (ucast v :: 32 word) :: 64 word) = v \<longleftrightarrow> unat v < 2 ^ 32" for v :: "64 word"
proof -
  have "unat (ucast (ucast v :: 32 word) :: 64 word) = unat v mod 2 ^ 32"
    by (simp add: unsigned_ucast_eq unsigned_take_bit_eq take_bit_eq_mod unat_mod)
  then show ?thesis by (metis mod_less mod_less_divisor word_unat_eq_iff zero_less_power zero_less_numeral)
qed


lemma ucast_of_nat_64_32: "ucast (of_nat n :: 64 word) = (of_nat n :: 32 word)"
  by (simp add: bit_eq_iff bit_simps)

lemma getAsInteger_unsigned_number:
  assumes "0 < radix" "radix \<le> 36"
  shows "getAsInteger_unsigned s radix v0 =
     (if is_number radix s \<and> digits_value radix s < 2 ^ 32 then (False, of_nat (digits_value radix s))
      else (True, v0))"
proof (cases "is_number radix s \<and> digits_value radix s < 2 ^ 64")
  case True
  then have "unat (of_nat (digits_value radix s) :: 64 word) = digits_value radix s"
    by (simp add: unat_of_nat)
  then show ?thesis
    using True getAsUnsigned_number(1)[OF assms, of s 0]
    by (simp add: getAsInteger_unsigned_def ucast_roundtrip_iff ucast_of_nat_64_32)
next
  case False
  then have "\<not> (is_number radix s \<and> digits_value radix s < 2 ^ 32)" by auto
  then show ?thesis using getAsUnsigned_number(2)[OF assms False, of 0]
    by (auto simp: getAsInteger_unsigned_def split: prod.splits)
qed

text \<open>
  \<^verbatim>\<open>getAsInteger\<close> at \<^verbatim>\<open>unsigned\<close> succeeds exactly on the non-empty strings of digits
  of the radix whose number fits 32 bits, and then returns that number; the 64-bit overflow test of
  the digit loop and the narrowing test miss nothing. On an error the result variable keeps its value.
\<close>

theorem getAsInteger_unsigned_exact:
  assumes "0 < radix" "radix \<le> 36"
  shows "getAsInteger_unsigned s radix v0 =
     (if is_number radix s \<and> digits_value radix s < 2 ^ 32 then (False, of_nat (digits_value radix s))
      else (True, v0))"
  by (rule getAsInteger_unsigned_number[OF assms])

theorem getAsInteger_unsigned_exact_witness:
  "getAsInteger_unsigned ''4294967295'' 10 7 = (False, 4294967295) \<and>
   getAsInteger_unsigned ''4294967296'' 10 7 = (True, 7)"
proof -
  have v: "digits_value 10 ''4294967295'' = 4294967295" "digits_value 10 ''4294967296'' = 4294967296"
    "is_number 10 ''4294967295''"
    by (simp_all add: digits_value_def is_number_def is_digit_of_def char_val_def less_eq_char_def)
  show ?thesis
    using v getAsInteger_unsigned_exact[of 10 "''4294967295''" 7]
      getAsInteger_unsigned_exact[of 10 "''4294967296''" 7] by simp
qed

subsection \<open>Signed integers\<close>

lemma scast_roundtrip_iff:
  "(scast (ucast v :: 32 word) :: 64 word) = v \<longleftrightarrow> - (2 ^ 31) \<le> sint v \<and> sint v < 2 ^ 31" for v :: "64 word"
proof -
  have "(scast (ucast v :: 32 word) :: 64 word) = v \<longleftrightarrow> sint (scast (ucast v :: 32 word) :: 64 word) = sint v"
    by (metis signed_word_eqI)
  also have "sint (scast (ucast v :: 32 word) :: 64 word) = signed_take_bit 63 (sint (ucast v :: 32 word))"
    unfolding signed_scast_eq by simp
  also have "\<dots> = signed_take_bit 31 (uint v)"
    unfolding signed_ucast_eq by (simp add: signed_take_bit_signed_take_bit min_def)
  also have "\<dots> = signed_take_bit 31 (sint v)"
    by (simp add: sint_uint signed_take_bit_signed_take_bit min_def)
  also have "signed_take_bit 31 (sint v) = sint v \<longleftrightarrow> - (2 ^ 31) \<le> sint v \<and> sint v < 2 ^ 31"
    by (rule signed_take_bit_int_eq_self_iff)
  finally show ?thesis .
qed

lemma sint_of_int_64:
  "- (2 ^ 63) \<le> k \<Longrightarrow> k < 2 ^ 63 \<Longrightarrow> sint (of_int k :: 64 word) = k"
  by (simp add: signed_of_int signed_take_bit_int_eq_self)

lemma sint_of_nat_64:
  assumes "n < 2 ^ 64"
  shows "sint (of_nat n :: 64 word) = (if n < 2 ^ 63 then int n else int n - 2 ^ 64)"
proof (cases "n < 2 ^ 63")
  case True
  then show ?thesis using sint_of_int_64[of "int n"] by simp
next
  case False
  have "(of_nat n :: 64 word) = of_int (int n - 2 ^ 64)" by simp
  then have "sint (of_nat n :: 64 word) = sint (of_int (int n - 2 ^ 64) :: 64 word)"
    by (rule arg_cong)
  also have "\<dots> = int n - 2 ^ 64" by (rule sint_of_int_64) (use False assms in simp_all)
  finally show ?thesis using False by simp
qed

lemma sint_minus_of_nat_64:
  assumes "n < 2 ^ 64"
  shows "sint (- of_nat n :: 64 word) = (if n \<le> 2 ^ 63 then - int n else 2 ^ 64 - int n)"
proof (cases "n \<le> 2 ^ 63")
  case True
  then show ?thesis using sint_of_int_64[of "- int n"] by simp
next
  case False
  have "(- of_nat n :: 64 word) = of_int (2 ^ 64 - int n)" by simp
  then have "sint (- of_nat n :: 64 word) = sint (of_int (2 ^ 64 - int n) :: 64 word)"
    by (rule arg_cong)
  also have "\<dots> = 2 ^ 64 - int n" by (rule sint_of_int_64) (use False assms in simp_all)
  finally show ?thesis using False by simp
qed

text \<open>The signed numbers of a radix: the digits, after a minus sign or not.\<close>

definition signed_value :: "nat \<Rightarrow> string \<Rightarrow> int option" where
  "signed_value radix s =
     (if is_number radix s then Some (int (digits_value radix s))
      else if s \<noteq> [] \<and> hd s = CHR ''-'' \<and> is_number radix (tl s)
        then Some (- int (digits_value radix (tl s)))
      else None)"

definition fits_int :: "int option \<Rightarrow> bool" where
  "fits_int v \<longleftrightarrow> (case v of None \<Rightarrow> False | Some n \<Rightarrow> - (2 ^ 31) \<le> n \<and> n < 2 ^ 31)"

lemma minus_no_digit: "char_val (CHR ''-'') = None"
  by (simp add: char_val_def less_eq_char_def)

lemma getAsSigned_plus:
  assumes "0 < radix" "radix \<le> 36" "s = [] \<or> hd s \<noteq> CHR ''-''"
  shows "getAsSignedInteger s radix r0 =
    (if is_number radix s \<and> digits_value radix s < 2 ^ 63
     then (False, of_nat (digits_value radix s))
     else (True, snd (getAsSignedInteger s radix r0)))"
proof (cases "is_number radix s \<and> digits_value radix s < 2 ^ 64")
  case True
  moreover have "s \<noteq> [] \<and> s ! 0 \<noteq> CHR ''-''"
    using True assms(3) by (auto simp: hd_conv_nth is_number_def)
  ultimately show ?thesis
    using consumeUnsigned_number(2)[OF assms(1,2), of s 0] sint_of_nat_64[of "digits_value radix s"]
    by (simp add: getAsSignedInteger_def consumeSignedInteger_def)
next
  case False
  then have "\<not> (is_number radix s \<and> digits_value radix s < 2 ^ 63)" by auto
  moreover have "s = [] \<or> s ! 0 \<noteq> CHR ''-''" using assms(3) by (auto simp: hd_conv_nth)
  then have "fst (getAsSignedInteger s radix r0)"
    using False consumeUnsigned_number(1)[OF assms(1,2), of s 0]
    by (auto simp: getAsSignedInteger_def consumeSignedInteger_def split: prod.splits)
  ultimately show ?thesis by (metis prod.collapse)
qed

lemma getAsSigned_minus:
  assumes "0 < radix" "radix \<le> 36"
  shows "getAsSignedInteger (CHR ''-'' # s) radix r0 =
    (if is_number radix s \<and> digits_value radix s \<le> 2 ^ 63
     then (False, - of_nat (digits_value radix s))
     else (True, snd (getAsSignedInteger (CHR ''-'' # s) radix r0)))"
proof (cases "is_number radix s \<and> digits_value radix s < 2 ^ 64")
  case True
  with assms show ?thesis
    using consumeUnsigned_number(2)[OF assms(1,2), of s 0] sint_minus_of_nat_64[of "digits_value radix s"]
    by (auto simp: getAsSignedInteger_def consumeSignedInteger_def)
next
  case False
  then have "\<not> (is_number radix s \<and> digits_value radix s \<le> 2 ^ 63)" by auto
  moreover have "fst (getAsSignedInteger (CHR ''-'' # s) radix r0)"
    using False consumeUnsigned_number(1)[OF assms(1,2), of s 0]
    by (auto simp: getAsSignedInteger_def consumeSignedInteger_def split: prod.splits)
  ultimately show ?thesis by (metis prod.collapse)
qed

lemma ucast_of_int_64_32: "ucast (of_int n :: 64 word) = (of_int n :: 32 word)"
  by (simp add: bit_eq_iff bit_simps)

text \<open>
  \<^verbatim>\<open>getAsInteger\<close> at \<^verbatim>\<open>int\<close> succeeds exactly on the decimal (or other radix)
  numbers, with a minus sign or not, that fit 32 signed bits, the least one included, and returns
  the number; on an error the result variable keeps its value.
\<close>

theorem getAsInteger_int_exact:
  assumes "0 < radix" "radix \<le> 36"
  shows "getAsInteger_int s radix v0 =
     (if fits_int (signed_value radix s) then (False, of_int (the (signed_value radix s)))
      else (True, v0))"
proof (cases "s = [] \<or> hd s \<noteq> CHR ''-''")
  case True
  let ?n = "digits_value radix s"
  have val: "signed_value radix s = (if is_number radix s then Some (int ?n) else None)"
    using True by (auto simp: signed_value_def)
  show ?thesis
  proof (cases "is_number radix s \<and> ?n < 2 ^ 63")
    case num: True
    then have "sint (of_nat ?n :: 64 word) = int ?n" by (subst sint_of_nat_64) simp_all
    with num show ?thesis
      using getAsSigned_plus[OF assms True, of 0] ucast_of_int_64_32[of "int ?n"]
      by (simp add: getAsInteger_int_def scast_roundtrip_iff val fits_int_def)
  next
    case False
    then have "fst (getAsSignedInteger s radix 0)"
      using getAsSigned_plus[OF assms True, of 0] by (metis fst_conv)
    then show ?thesis using False
      by (auto simp: getAsInteger_int_def val fits_int_def split: prod.splits)
  qed
next
  case False
  then obtain t where s: "s = CHR ''-'' # t" by (cases s) auto
  let ?n = "digits_value radix t"
  have val: "signed_value radix s = (if is_number radix t then Some (- int ?n) else None)"
    by (simp add: s signed_value_def is_number_def is_digit_of_def minus_no_digit)
  show ?thesis
  proof (cases "is_number radix t \<and> ?n \<le> 2 ^ 63")
    case num: True
    then have "sint (- of_nat ?n :: 64 word) = - int ?n" by (subst sint_minus_of_nat_64) simp_all
    with num show ?thesis
      using getAsSigned_minus[OF assms, of t 0] ucast_of_int_64_32[of "- int ?n"]
      by (simp add: s getAsInteger_int_def scast_roundtrip_iff val[unfolded s] fits_int_def)
  next
    case False
    then have "fst (getAsSignedInteger s radix 0)"
      using getAsSigned_minus[OF assms, of t 0] s by (metis fst_conv)
    then show ?thesis using False
      by (auto simp: getAsInteger_int_def val fits_int_def split: prod.splits)
  qed
qed

theorem getAsInteger_int_exact_witness:
  "getAsInteger_int ''-2147483648'' 10 7 = (False, of_int (- 2147483648)) \<and>
   getAsInteger_int ''2147483648'' 10 7 = (True, 7)"
proof -
  have v: "signed_value 10 ''-2147483648'' = Some (- 2147483648)"
    "signed_value 10 ''2147483648'' = Some 2147483648"
    by (simp_all add: signed_value_def digits_value_def is_number_def is_digit_of_def char_val_def
        less_eq_char_def)
  show ?thesis
    using v getAsInteger_int_exact[of 10 "''-2147483648''" 7]
      getAsInteger_int_exact[of 10 "''2147483648''" 7] by (simp add: fits_int_def)
qed

end
