(* ===== verification/Paths.thy ===== *)
theory Paths
  imports StringRefs
begin

text \<open>
  Paths: \<^verbatim>\<open>lib/Support/Path.cpp\<close>, the part that works on the text of a path (no file system).
  A path style is a value, as in the code; the build modelled is one that is not
  \<^verbatim>\<open>LLVM_ON_WIN32\<close>, so the native style is the POSIX one. The forward iterator is a pair of the
  current component and its position; the reverse iterator is used for its first step only.
\<close>

subsection \<open>Styles and separators\<close>

datatype style = Windows | Posix | Native

definition real_style :: "style \<Rightarrow> style" where
  "real_style s = (if s = Windows then Windows else Posix)"

definition separators :: "style \<Rightarrow> string" where
  "separators s = (if real_style s = Windows then [CHR 0x5C, CHR ''/''] else ''/'')"

definition preferred_separator :: "style \<Rightarrow> char" where
  "preferred_separator s = (if real_style s = Windows then CHR 0x5C else CHR ''/'')"

definition is_separator :: "char \<Rightarrow> style \<Rightarrow> bool" where
  "is_separator c s =
     (if c = CHR ''/'' then True else if real_style s = Windows then c = CHR 0x5C else False)"

text \<open>\<^verbatim>\<open>std::isalpha\<close> in the C locale.\<close>

definition is_alpha :: "char \<Rightarrow> bool" where
  "is_alpha c \<longleftrightarrow> (CHR ''a'' \<le> c \<and> c \<le> CHR ''z'') \<or> (CHR ''A'' \<le> c \<and> c \<le> CHR ''Z'')"

subsection \<open>Positions in a path\<close>

definition find_first_component :: "string \<Rightarrow> style \<Rightarrow> string" where
  "find_first_component path s =
     (if path = [] then path
      else if real_style s = Windows \<and> length path \<ge> 2 \<and> is_alpha (path ! 0) \<and> path ! 1 = CHR '':''
        then sr_substr path 0 (Some 2)
      else if length path > 2 \<and> is_separator (path ! 0) s \<and> path ! 0 = path ! 1 \<and>
          \<not> is_separator (path ! 2) s
        then sr_substr path 0 (sr_find_first_of path (separators s) 2)
      else if is_separator (path ! 0) s then sr_substr path 0 (Some 1)
      else sr_substr path 0 (sr_find_first_of path (separators s) 0))"

definition filename_pos :: "string \<Rightarrow> style \<Rightarrow> nat" where
  "filename_pos str s =
     (if length str = 2 \<and> is_separator (str ! 0) s \<and> str ! 0 = str ! 1 then 0
      else if length str > 0 \<and> is_separator (str ! (length str - 1)) s then length str - 1
      else let p0 = sr_find_last_of str (separators s) (pos_sub (length str) 1);
               p = (if real_style s = Windows \<and> p0 = None
                    then sr_rfind_char str (CHR '':'') (pos_sub (length str) 2) else p0)
           in case p of
                None \<Rightarrow> 0
              | Some q \<Rightarrow> if q = 1 \<and> is_separator (str ! 0) s then 0 else q + 1)"

definition root_dir_start :: "string \<Rightarrow> style \<Rightarrow> pos" where
  "root_dir_start str s =
     (if real_style s = Windows \<and> length str > 2 \<and> str ! 1 = CHR '':'' \<and> is_separator (str ! 2) s
        then Some 2
      else if length str = 2 \<and> is_separator (str ! 0) s \<and> str ! 0 = str ! 1 then None
      else if length str > 3 \<and> is_separator (str ! 0) s \<and> str ! 0 = str ! 1 \<and>
          \<not> is_separator (str ! 2) s
        then sr_find_first_of str (separators s) 2
      else if length str > 0 \<and> is_separator (str ! 0) s then Some 0
      else None)"

text \<open>The loop that steps back over separators, but not over the root directory.\<close>

fun skip_seps_back :: "string \<Rightarrow> style \<Rightarrow> pos \<Rightarrow> nat \<Rightarrow> nat" where
  "skip_seps_back path s root 0 = 0"
| "skip_seps_back path s root (Suc n) =
     (if Some n \<noteq> root \<and> is_separator (path ! n) s then skip_seps_back path s root n else Suc n)"

definition parent_path_end :: "string \<Rightarrow> style \<Rightarrow> pos" where
  "parent_path_end path s =
     (let end0 = filename_pos path s;
          filename_was_sep = (length path > 0 \<and> is_separator (path ! end0) s);
          root = root_dir_start (sr_substr path 0 (Some end0)) s;
          e = skip_seps_back path s root end0
      in if e = 1 \<and> root = Some 0 \<and> filename_was_sep then None else Some e)"

subsection \<open>The iterators\<close>

text \<open>\<open>(Component, Position)\<close>; the end is the position \<open>length path\<close>.\<close>

type_synonym iter = "string \<times> nat"

definition path_begin :: "string \<Rightarrow> style \<Rightarrow> iter" where
  "path_begin path s = (find_first_component path s, 0)"

fun skip_seps :: "string \<Rightarrow> style \<Rightarrow> nat \<Rightarrow> nat" where
  "skip_seps [] s i = i"
| "skip_seps (c # cs) s i = (if is_separator c s then skip_seps cs s (Suc i) else i)"

definition iter_next :: "string \<Rightarrow> style \<Rightarrow> iter \<Rightarrow> iter" where
  "iter_next path s it =
     (let comp = fst it; p = snd it + length comp in
      if p = length path then ([], p)
      else
        let was_net = (length comp > 2 \<and> is_separator (comp ! 0) s \<and> comp ! 1 = comp ! 0 \<and>
              \<not> is_separator (comp ! 2) s);
            component = (\<lambda>q. (sr_slice path q (sr_find_first_of path (separators s) q), q))
        in if is_separator (path ! p) s
           then if was_net \<or> (real_style s = Windows \<and> sr_endswith comp '':'')
                then (sr_substr path p (Some 1), p)
                else let q = skip_seps (drop p path) s p
                     in if q = length path then (''.'', q - 1) else component q
           else component p)"

text \<open>
  The components a loop from \<^verbatim>\<open>begin\<close> to \<^verbatim>\<open>end\<close> visits. \<open>fuel\<close> bounds the steps; every step moves
  the position forward (lemma \<open>iter_next_advances\<close>), so the length of the path is enough.
\<close>

fun components_from :: "nat \<Rightarrow> string \<Rightarrow> style \<Rightarrow> iter \<Rightarrow> string list" where
  "components_from 0 path s it = []"
| "components_from (Suc fuel) path s it =
     (if snd it = length path then []
      else fst it # components_from fuel path s (iter_next path s it))"

definition path_components :: "string \<Rightarrow> style \<Rightarrow> string list" where
  "path_components path s = components_from (length path) path s (path_begin path s)"

text \<open>\<^verbatim>\<open>*rbegin(path)\<close>: one step of the reverse iterator from the end.\<close>

definition rbegin_component :: "string \<Rightarrow> style \<Rightarrow> string" where
  "rbegin_component path s =
     (let root = root_dir_start path s;
          root1 = (case root of None \<Rightarrow> 0 | Some r \<Rightarrow> r + 1)
      in if length path > root1 \<and> is_separator (path ! (length path - 1)) s then ''.''
         else let e = skip_seps_back path s root (length path);
                  st = filename_pos (sr_substr path 0 (Some e)) s
              in sr_slice path st (Some e))"

subsection \<open>The parts of a path\<close>

definition has_net :: "string \<Rightarrow> style \<Rightarrow> bool" where
  "has_net b s \<longleftrightarrow> length b > 2 \<and> is_separator (b ! 0) s \<and> b ! 1 = b ! 0"

definition has_drive :: "string \<Rightarrow> style \<Rightarrow> bool" where
  "has_drive b s \<longleftrightarrow> real_style s = Windows \<and> sr_endswith b '':''"

definition root_path :: "string \<Rightarrow> style \<Rightarrow> string" where
  "root_path path s =
     (let b = fst (path_begin path s)
      in if path = [] then []
         else if has_net b s \<or> has_drive b s
           then let (c, p) = iter_next path s (path_begin path s)
                in if p \<noteq> length path \<and> is_separator (c ! 0) s
                   then sr_substr path 0 (Some (length b + length c)) else b
         else if is_separator (b ! 0) s then b
         else [])"

definition root_name :: "string \<Rightarrow> style \<Rightarrow> string" where
  "root_name path s =
     (let b = fst (path_begin path s)
      in if path \<noteq> [] \<and> (has_net b s \<or> has_drive b s) then b else [])"

definition root_directory :: "string \<Rightarrow> style \<Rightarrow> string" where
  "root_directory path s =
     (let b = fst (path_begin path s); (c, p) = iter_next path s (path_begin path s)
      in if path = [] then []
         else if (has_net b s \<or> has_drive b s) \<and> p \<noteq> length path \<and> is_separator (c ! 0) s then c
         else if \<not> has_net b s \<and> is_separator (b ! 0) s then b
         else [])"

definition relative_path :: "string \<Rightarrow> style \<Rightarrow> string" where
  "relative_path path s = sr_substr path (length (root_path path s)) None"

definition path_is_absolute :: "string \<Rightarrow> style \<Rightarrow> bool" where
  "path_is_absolute path s \<longleftrightarrow>
     root_directory path s \<noteq> [] \<and> (real_style s \<noteq> Windows \<or> root_name path s \<noteq> [])"

text \<open>
  \<^verbatim>\<open>has_root_directory\<close> and \<^verbatim>\<open>has_root_name\<close>, then \<^verbatim>\<open>make_absolute\<close> with the current
  directory as an argument.
\<close>

definition has_root_directory :: "string \<Rightarrow> style \<Rightarrow> bool" where
  "has_root_directory path s = (root_directory path s \<noteq> [])"

definition has_root_name :: "string \<Rightarrow> style \<Rightarrow> bool" where
  "has_root_name path s = (root_name path s \<noteq> [])"

text \<open>\<^verbatim>\<open>append\<close> of one component; with several, one after the other.\<close>

definition path_append :: "string \<Rightarrow> style \<Rightarrow> string \<Rightarrow> string" where
  "path_append path s component =
     (if path \<noteq> [] \<and> is_separator (path ! (length path - 1)) s
      then path @ (case sr_find_first_not_of component (separators s) 0 of
             None \<Rightarrow> [] | Some loc \<Rightarrow> sr_substr component loc None)
      else if \<not> (component \<noteq> [] \<and> is_separator (component ! 0) s) \<and>
              \<not> (path = [] \<or> root_name component s \<noteq> [])
        then path @ [preferred_separator s] @ component
      else path @ component)"

definition make_absolute :: "string \<Rightarrow> string \<Rightarrow> style \<Rightarrow> string" where
  "make_absolute current_dir p s =
     (let rootDirectory = has_root_directory p s;
          rootName = (real_style s \<noteq> Windows \<or> has_root_name p s)
      in if rootName \<and> rootDirectory then p
         else if \<not> rootName \<and> \<not> rootDirectory then path_append current_dir s p
         else if \<not> rootName \<and> rootDirectory then path_append (root_name current_dir s) s p
         else path_append (path_append (path_append (path_append [] s (root_name p s)) s
                (root_directory current_dir s)) s (relative_path current_dir s)) s (relative_path p s))"

definition parent_path :: "string \<Rightarrow> style \<Rightarrow> string" where
  "parent_path path s =
     (case parent_path_end path s of None \<Rightarrow> [] | Some e \<Rightarrow> sr_substr path 0 (Some e))"

definition remove_filename :: "string \<Rightarrow> style \<Rightarrow> string" where
  "remove_filename path s =
     (case parent_path_end path s of None \<Rightarrow> path | Some e \<Rightarrow> take e path)"

definition replace_extension :: "string \<Rightarrow> string \<Rightarrow> style \<Rightarrow> string" where
  "replace_extension path ext s =
     (let path' = (case sr_rfind_char path (CHR ''.'') None of
                     None \<Rightarrow> path
                   | Some p \<Rightarrow> if p \<ge> filename_pos path s then take p path else path);
          path'' = (if length ext > 0 \<and> ext ! 0 \<noteq> CHR ''.'' then path' @ ''.'' else path')
      in path'' @ ext)"

definition replace_path_prefix :: "string \<Rightarrow> string \<Rightarrow> string \<Rightarrow> style \<Rightarrow> string" where
  "replace_path_prefix path old new s =
     (if old = [] \<and> new = [] then path
      else if \<not> sr_startswith path old then path
      else if length old = length new then new @ drop (length new) path
      else path_append (path_append [] s new) s (sr_substr path (length old) None))"

definition path_filename :: "string \<Rightarrow> style \<Rightarrow> string" where
  "path_filename path s = rbegin_component path s"

definition path_stem :: "string \<Rightarrow> style \<Rightarrow> string" where
  "path_stem path s =
     (let fname = path_filename path s
      in case sr_rfind_char fname (CHR ''.'') None of
           None \<Rightarrow> fname
         | Some p \<Rightarrow> if fname = ''.'' \<or> fname = ''..'' then fname else sr_substr fname 0 (Some p))"

definition path_extension :: "string \<Rightarrow> style \<Rightarrow> string" where
  "path_extension path s =
     (let fname = path_filename path s
      in case sr_rfind_char fname (CHR ''.'') None of
           None \<Rightarrow> []
         | Some p \<Rightarrow> if fname = ''.'' \<or> fname = ''..'' then [] else sr_substr fname p None)"

function remove_leading_dotslash :: "string \<Rightarrow> style \<Rightarrow> string" where
  "remove_leading_dotslash path s =
     (if length path > 2 \<and> path ! 0 = CHR ''.'' \<and> is_separator (path ! 1) s
      then remove_leading_dotslash (dropWhile (\<lambda>c. is_separator c s) (sr_substr path 2 None)) s
      else path)"
  by pat_completeness auto
termination
  by (relation "measure (\<lambda>(path, s). length path)")
    (auto simp: le_less_trans[OF length_dropWhile_le])

declare remove_leading_dotslash.simps [simp del]

subsection \<open>Removing dots\<close>

text \<open>One turn of the loop over the components: the stack has its top at the end of the list.\<close>

definition remove_dots_step :: "bool \<Rightarrow> bool \<Rightarrow> string list \<Rightarrow> string \<Rightarrow> string list" where
  "remove_dots_step remove_dot_dot absolute comps c =
     (if c = ''.'' then comps
      else if remove_dot_dot \<and> c = ''..'' \<and> comps \<noteq> [] \<and> last comps \<noteq> ''..'' then butlast comps
      else if remove_dot_dot \<and> c = ''..'' \<and> absolute then comps
      else comps @ [c])"

definition remove_dots :: "string \<Rightarrow> bool \<Rightarrow> style \<Rightarrow> string" where
  "remove_dots path remove_dot_dot s =
     (let rel = relative_path path s;
          comps = foldl (remove_dots_step remove_dot_dot (path_is_absolute path s)) []
            (path_components rel s)
      in foldl (\<lambda>buffer c. path_append buffer s c) (root_path path s) comps)"

subsection \<open>The components of a relative POSIX path\<close>

text \<open>
  What the iterator computes on a path that does not begin with a separator, as a function on
  lists: the maximal runs of other characters, and \<open>''.''\<close> for a trailing separator.
\<close>

abbreviation is_slash :: "char \<Rightarrow> bool" where
  "is_slash c \<equiv> c = CHR ''/''"

abbreviation no_slash :: "char \<Rightarrow> bool" where
  "no_slash c \<equiv> c \<noteq> CHR ''/''"

lemma slash_tail_shorter:
  assumes "dropWhile no_slash r \<noteq> []"
  shows "length (dropWhile is_slash (dropWhile no_slash r)) < length r"
proof -
  from assms obtain c t where t: "dropWhile no_slash r = c # t" by (cases "dropWhile no_slash r") auto
  with assms have "is_slash c" using hd_dropWhile[OF assms] by simp
  then have "length (dropWhile is_slash (c # t)) \<le> length t" by (simp add: length_dropWhile_le)
  also have "length t < length (dropWhile no_slash r)" using t by simp
  also have "\<dots> \<le> length r" by (rule length_dropWhile_le)
  finally show ?thesis using t by simp
qed

function rel_comps :: "string \<Rightarrow> string list" where
  "rel_comps r =
     (if r = [] then []
      else let t = dropWhile no_slash r; u = dropWhile is_slash t
           in takeWhile no_slash r #
              (if t = [] then [] else if u = [] then [''.''] else rel_comps u))"
  by pat_completeness auto
termination
  by (relation "measure length") (auto intro: slash_tail_shorter simp del: dropWhile_eq_Nil_conv)

declare rel_comps.simps [simp del]

lemma rel_comps_cases:
  "rel_comps r =
     (if r = [] then []
      else takeWhile no_slash r #
        (if dropWhile no_slash r = [] then []
         else if dropWhile is_slash (dropWhile no_slash r) = [] then [''.'']
         else rel_comps (dropWhile is_slash (dropWhile no_slash r))))"
  by (subst rel_comps.simps) (simp only: Let_def)

lemma is_separator_posix [simp]: "is_separator c Posix \<longleftrightarrow> is_slash c"
  by (simp add: is_separator_def real_style_def)

lemma separators_posix [simp]: "separators Posix = ''/''"
  by (simp add: separators_def real_style_def)

lemma real_style_posix [simp]: "real_style Posix = Posix"
  by (simp add: real_style_def)

lemma scan_None_takeWhile: "scan P i xs = None \<Longrightarrow> takeWhile (\<lambda>c. \<not> P c) xs = xs"
  by (induction xs arbitrary: i) (auto split: if_splits)

lemma scan_Some_takeWhile:
  "scan P i xs = Some j \<Longrightarrow> takeWhile (\<lambda>c. \<not> P c) xs = take (j - i) xs"
proof (induction xs arbitrary: i)
  case Nil
  then show ?case by simp
next
  case (Cons x xs)
  show ?case
  proof (cases "P x")
    case True
    with Cons.prems show ?thesis by simp
  next
    case False
    with Cons.prems have *: "scan P (Suc i) xs = Some j" by simp
    then have "Suc i \<le> j" by (simp add: scan_Some_iff)
    then have "j - i = Suc (j - Suc i)" by linarith
    with False Cons.IH[OF *] show ?thesis by simp
  qed
qed

lemma slice_component:
  assumes "q \<le> length path"
  shows "sr_slice path q (sr_find_first_of path ''/'' q) = takeWhile no_slash (drop q path)"
proof (cases "scan is_slash q (drop q path)")
  case None
  with assms have "sr_slice path q (sr_find_first_of path ''/'' q) = drop q path"
    by (simp add: sr_slice_def sr_find_first_of_def Let_def)
  also have "\<dots> = takeWhile no_slash (drop q path)"
    by (rule scan_None_takeWhile[OF None, symmetric])
  finally show ?thesis .
next
  case (Some j)
  then have "q \<le> j" "j < length path" using assms by (auto simp: scan_drop_Some_iff)
  with Some assms scan_Some_takeWhile[OF Some] show ?thesis
    by (simp add: sr_slice_def sr_find_first_of_def Let_def min_def)
qed

lemma skip_seps_posix: "skip_seps cs Posix i = i + (length cs - length (dropWhile is_slash cs))"
proof (induction cs arbitrary: i)
  case (Cons c cs)
  have "length (dropWhile is_slash cs) \<le> length cs" by (rule length_dropWhile_le)
  with Cons show ?case by simp
qed simp

lemma drop_takeWhile_length: "drop (length (takeWhile P xs)) xs = dropWhile P xs"
  by (simp add: dropWhile_eq_drop)

lemma hd_no_slash_takeWhile: "r \<noteq> [] \<Longrightarrow> no_slash (hd r) \<Longrightarrow> takeWhile no_slash r \<noteq> []"
  by (cases r) auto

text \<open>One step of the iterator from a component that begins \<open>r\<close>, the rest of the path.\<close>

lemma iter_next_rel:
  assumes r: "drop p path = r" "r \<noteq> []" "no_slash (hd r)"
  defines "t \<equiv> dropWhile no_slash r"
  defines "u \<equiv> dropWhile is_slash t"
  shows "iter_next path Posix (takeWhile no_slash r, p) =
    (if t = [] then ([], length path)
     else if u = [] then (''.'', length path - 1)
     else (takeWhile no_slash u, length path - length u))"
proof -
  let ?c = "takeWhile no_slash r"
  let ?p = "p + length ?c"
  have len: "length path = p + length r" using r(1,2) by (metis drop_eq_Nil length_drop
      linorder_not_le ordered_cancel_comm_monoid_diff_class.add_diff_inverse less_imp_le)
  have rt: "length r = length ?c + length t" unfolding t_def
    by (metis length_append takeWhile_dropWhile_id)
  have dt: "drop ?p path = t" unfolding t_def
    by (metis add.commute drop_drop drop_takeWhile_length r(1))
  have c0: "no_slash (?c ! 0)" using r(2,3) by (cases r) auto
  show ?thesis
  proof (cases "t = []")
    case True
    then show ?thesis using len rt by (simp add: iter_next_def Let_def)
  next
    case False
    have slash: "is_slash (path ! ?p)"
      using False dt hd_dropWhile[of no_slash r] by (metis hd_drop_conv_nth drop_eq_Nil linorder_not_le t_def)
    have ne: "?p \<noteq> length path" using False len rt by simp
    have "length u \<le> length t" unfolding u_def by (rule length_dropWhile_le)
    then have q: "skip_seps (drop ?p path) Posix ?p = length path - length u"
      using len rt unfolding dt skip_seps_posix u_def[symmetric] by linarith
    have du: "drop (length path - length u) path = u"
    proof -
      have "suffix u path" unfolding u_def dt[symmetric]
        by (metis suffix_dropWhile suffix_drop suffix_order.trans)
      then show ?thesis by (simp add: suffix_drop_iff)
    qed
    have "sr_slice path (length path - length u) (sr_find_first_of path ''/'' (length path - length u)) =
        takeWhile no_slash u"
      by (subst slice_component) (simp_all add: du)
    moreover have "length path - length u = length path \<longleftrightarrow> u = [] \<or> path = []"
      using len r(2) by (cases u; cases r; cases path; auto)
    ultimately show ?thesis
      using False ne slash c0 q len r(2) by (auto simp: iter_next_def Let_def)
  qed
qed

lemma components_from_rel:
  assumes "r \<noteq> []" "no_slash (hd r)" "drop p path = r" "length r \<le> fuel"
  shows "components_from fuel path Posix (takeWhile no_slash r, p) = rel_comps r"
  using assms
proof (induction r arbitrary: p fuel rule: rel_comps.induct)
  case (1 r)
  let ?t = "dropWhile no_slash r"
  let ?u = "dropWhile is_slash ?t"
  obtain f where f: "fuel = Suc f" using "1.prems" by (cases fuel) auto
  have "p < length path" using "1.prems"(1,3) by (metis drop_eq_Nil linorder_not_le)
  then have step: "components_from fuel path Posix (takeWhile no_slash r, p) =
      takeWhile no_slash r # components_from f path Posix (iter_next path Posix (takeWhile no_slash r, p))"
    by (simp add: f)
  note nxt = iter_next_rel[OF "1.prems"(3,1,2)]
  have stop: "components_from n path Posix ([], length path) = []" for n by (cases n) auto
  consider (last) "?t = []" | (trail) "?t \<noteq> []" "?u = []" | (more) "?t \<noteq> []" "?u \<noteq> []" by blast
  then show ?case
  proof cases
    case last
    then have "iter_next path Posix (takeWhile no_slash r, p) = ([], length path)"
      using nxt by (simp only: if_True simp_thms)
    then show ?thesis using step stop last "1.prems"(1)
      by (simp only: rel_comps_cases[of r] if_True if_False simp_thms)
  next
    case trail
    then have it: "iter_next path Posix (takeWhile no_slash r, p) = (''.'', length path - 1)"
      using nxt by (simp only: if_True if_False simp_thms)
    have "length r = length (takeWhile no_slash r) + length ?t"
      by (metis length_append takeWhile_dropWhile_id)
    moreover have "takeWhile no_slash r \<noteq> []" using "1.prems"(1,2) by (rule hd_no_slash_takeWhile)
    ultimately have "2 \<le> length r" using trail(1) by (metis One_nat_def Suc_1 Suc_leI add_mono
          length_greater_0_conv one_add_one)
    then obtain g where g: "f = Suc g" using "1.prems"(4) f by (cases f) auto
    have "iter_next path Posix (''.'', length path - 1) = ([], length path)"
      using \<open>p < length path\<close> by (simp add: iter_next_def Let_def)
    then have "components_from f path Posix (''.'', length path - 1) = [''.'']"
      using \<open>p < length path\<close> stop by (simp add: g)
    then show ?thesis using step it trail "1.prems"(1)
      by (simp only: rel_comps_cases[of r] if_True if_False simp_thms)
  next
    case more
    then have it: "iter_next path Posix (takeWhile no_slash r, p) =
        (takeWhile no_slash ?u, length path - length ?u)"
      using nxt by (simp only: if_True if_False simp_thms)
    have suf: "suffix ?u path"
      using "1.prems"(3) by (metis suffix_dropWhile suffix_drop suffix_order.trans)
    have "components_from f path Posix (takeWhile no_slash ?u, length path - length ?u) = rel_comps ?u"
    proof (rule "1.IH"[OF "1.prems"(1) refl refl more])
      show "no_slash (hd ?u)" using hd_dropWhile[OF more(2)] .
      show "drop (length path - length ?u) path = ?u" using suf by (simp add: suffix_drop_iff)
      show "length ?u \<le> f" using slash_tail_shorter[OF more(1)] "1.prems"(4) f by linarith
    qed (rule more(2))
    then show ?thesis using step it more "1.prems"(1)
      by (simp only: rel_comps_cases[of r] if_True if_False simp_thms)
  qed
qed

lemma first_component_rel:
  assumes "r \<noteq> []" "no_slash (hd r)"
  shows "find_first_component r Posix = takeWhile no_slash r"
proof -
  have "no_slash (r ! 0)" using assms by (simp add: hd_conv_nth)
  then have "find_first_component r Posix = sr_slice r 0 (sr_find_first_of r ''/'' 0)"
    using assms(1) by (auto simp: find_first_component_def sr_slice_def Let_def sr_substr_def
        pos_min_def split: option.splits)
  also have "\<dots> = takeWhile no_slash (drop 0 r)" by (rule slice_component) simp
  finally show ?thesis by simp
qed

definition starts_plain :: "string \<Rightarrow> bool" where
  "starts_plain r \<longleftrightarrow> r = [] \<or> no_slash (hd r)"

lemma path_components_rel:
  "starts_plain r \<Longrightarrow> path_components r Posix = rel_comps r"
  by (cases "r = []")
    (simp_all add: starts_plain_def path_components_def path_begin_def first_component_rel
      components_from_rel rel_comps.simps)

subsection \<open>Components and joined paths\<close>

definition good_comp :: "string \<Rightarrow> bool" where
  "good_comp c \<longleftrightarrow> c \<noteq> [] \<and> list_all no_slash c"

fun joined :: "string list \<Rightarrow> string" where
  "joined [] = []"
| "joined [c] = c"
| "joined (c # cs) = c @ CHR ''/'' # joined cs"

lemma starts_plain_rest: "starts_plain (dropWhile is_slash xs)"
  using hd_dropWhile[of is_slash xs] by (auto simp: starts_plain_def)

lemma rel_comps_good: "starts_plain r \<Longrightarrow> list_all good_comp (rel_comps r)"
proof (induction r rule: rel_comps.induct)
  case (1 r)
  let ?t = "dropWhile no_slash r"
  let ?u = "dropWhile is_slash ?t"
  have hd: "good_comp (takeWhile no_slash r)" if "r \<noteq> []"
    using that "1.prems" hd_no_slash_takeWhile[of r]
    by (auto simp: good_comp_def starts_plain_def list_all_iff dest: set_takeWhileD)
  consider "r = []" | "r \<noteq> []" "?t = []" | "r \<noteq> []" "?t \<noteq> []" "?u = []"
    | "r \<noteq> []" "?t \<noteq> []" "?u \<noteq> []" by blast
  then show ?case
  proof cases
    case 4
    have "list_all good_comp (rel_comps ?u)"
      by (rule "1.IH"[OF 4(1) refl refl 4(2,3) starts_plain_rest])
    with hd[OF 4(1)] 4 show ?thesis by (simp only: rel_comps_cases[of r] list.pred_inject if_False simp_thms)
  next
    case 3
    have "good_comp ''.''" by (simp add: good_comp_def)
    with hd[OF 3(1)] 3 show ?thesis by (simp only: rel_comps_cases[of r] list.pred_inject if_False if_True simp_thms)
  next
    case 2
    with hd[OF 2(1)] show ?thesis by (simp only: rel_comps_cases[of r] list.pred_inject if_False if_True simp_thms)
  next
    case 1
    then show ?thesis by (simp add: rel_comps_cases[of "[]"])
  qed
qed

lemma starts_plain_joined: "list_all good_comp cs \<Longrightarrow> starts_plain (joined cs)"
  by (cases cs rule: joined.cases) (auto simp: starts_plain_def good_comp_def list_all_iff hd_append)

lemma good_comp_takeWhile: "good_comp c \<Longrightarrow> takeWhile no_slash (c @ CHR ''/'' # r) = c"
  by (simp add: good_comp_def list_all_iff takeWhile_append2 takeWhile_tail)

lemma good_comp_dropWhile: "good_comp c \<Longrightarrow> dropWhile no_slash (c @ CHR ''/'' # r) = CHR ''/'' # r"
  by (simp add: good_comp_def list_all_iff dropWhile_append2)

lemma rel_comps_joined: "list_all good_comp cs \<Longrightarrow> rel_comps (joined cs) = cs"
proof (induction cs rule: joined.induct)
  case 1
  then show ?case by (simp add: rel_comps_cases[of "[]"])
next
  case (2 c)
  then have "dropWhile no_slash c = []" "takeWhile no_slash c = c" "c \<noteq> []"
    by (auto simp: good_comp_def list_all_iff)
  then show ?case by (simp only: rel_comps_cases[of c] joined.simps if_True if_False simp_thms)
next
  case (3 c d ds)
  let ?r = "joined (d # ds)"
  have good: "good_comp c" "list_all good_comp (d # ds)" "good_comp d" using "3.prems" by simp_all
  have ne: "?r \<noteq> []" using good(3) by (cases ds) (auto simp: good_comp_def)
  have "starts_plain ?r" by (rule starts_plain_joined[OF good(2)])
  then have dw: "dropWhile is_slash ?r = ?r" using ne by (simp add: starts_plain_def dropWhile_eq_self_iff)
  let ?x = "c @ CHR ''/'' # ?r"
  have d1: "dropWhile no_slash ?x = CHR ''/'' # ?r" by (rule good_comp_dropWhile[OF good(1)])
  have d2: "dropWhile is_slash (CHR ''/'' # ?r) = ?r" using dw by simp
  have "rel_comps ?x = c # rel_comps ?r"
    using ne by (simp only: rel_comps_cases[of ?x] d1 d2 good_comp_takeWhile[OF good(1)]
        if_False list.simps append_is_Nil_conv simp_thms)
  with "3.IH"[OF good(2)] show ?case by simp
qed

subsection \<open>Roots of POSIX paths\<close>

text \<open>
  A path that begins with two separators may name a network host, which the code keeps as the root.
  The lemmas below are about the other paths: \<open>one_root\<close>.
\<close>

definition one_root :: "string \<Rightarrow> bool" where
  "one_root p \<longleftrightarrow> take 2 p \<noteq> ''//''"

definition rooted :: "string \<Rightarrow> bool" where
  "rooted p \<longleftrightarrow> p \<noteq> [] \<and> is_slash (hd p)"

definition unrooted :: "string \<Rightarrow> string" where
  "unrooted p = (if rooted p then tl p else p)"

definition root_of :: "bool \<Rightarrow> string" where
  "root_of absolute = (if absolute then ''/'' else [])"

lemma first_component_rooted:
  assumes "one_root (CHR ''/'' # r)"
  shows "find_first_component (CHR ''/'' # r) Posix = ''/''"
  using assms by (cases r) (auto simp: find_first_component_def one_root_def)

lemma takeWhile_no_slash_nth: "\<not> is_slash (takeWhile no_slash r ! 0)" if "r \<noteq> []" "no_slash (hd r)"
  using that by (cases r) auto

lemma has_drive_posix [simp]: "\<not> has_drive b Posix"
  by (simp add: has_drive_def)

lemma root_parts:
  assumes "one_root p"
  shows "root_path p Posix = root_of (rooted p)"
    and "path_is_absolute p Posix = rooted p"
    and "relative_path p Posix = unrooted p"
    and "starts_plain (unrooted p)"
proof -
  have "root_path p Posix = root_of (rooted p) \<and> path_is_absolute p Posix = rooted p"
  proof (cases "rooted p")
    case True
    then obtain r where p: "p = CHR ''/'' # r" by (cases p) (auto simp: rooted_def)
    have "path_begin p Posix = (''/'', 0)"
      using assms by (simp add: p path_begin_def first_component_rooted)
    with True show ?thesis
      by (auto simp: root_path_def path_is_absolute_def root_directory_def p has_net_def root_of_def
          split: prod.splits)
  next
    case False
    then have b: "path_begin p Posix = (takeWhile no_slash p, 0)" if "p \<noteq> []"
      using that by (simp add: path_begin_def first_component_rel rooted_def)
    have n: "\<not> is_slash (takeWhile no_slash p ! 0)" if "p \<noteq> []"
      using that False by (intro takeWhile_no_slash_nth) (auto simp: rooted_def)
    show ?thesis
      using False b n by (cases "p = []")
        (auto simp: root_path_def path_is_absolute_def root_directory_def has_net_def root_of_def
          split: prod.splits)
  qed
  then show r: "root_path p Posix = root_of (rooted p)" and "path_is_absolute p Posix = rooted p"
    by simp_all
  show "relative_path p Posix = unrooted p"
    unfolding relative_path_def r by (cases p) (auto simp: root_of_def unrooted_def rooted_def)
  show "starts_plain (unrooted p)"
  proof (cases p)
    case (Cons c r)
    with assms show ?thesis
      by (cases r) (auto simp: unrooted_def starts_plain_def rooted_def one_root_def)
  qed (simp add: unrooted_def starts_plain_def rooted_def)
qed

lemma root_of_joined:
  assumes "list_all good_comp cs"
  shows "one_root (root_of a @ joined cs)" "rooted (root_of a @ joined cs) = a"
    "unrooted (root_of a @ joined cs) = joined cs"
proof -
  note s = starts_plain_joined[OF assms]
  show "one_root (root_of a @ joined cs)" using s
    by (cases "joined cs") (auto simp: one_root_def root_of_def starts_plain_def)
  show r: "rooted (root_of a @ joined cs) = a" using s
    by (cases "joined cs") (auto simp: rooted_def root_of_def starts_plain_def)
  show "unrooted (root_of a @ joined cs) = joined cs"
    unfolding unrooted_def r by (simp add: root_of_def)
qed

subsection \<open>Appending components\<close>

lemma append_good:
  assumes "good_comp c"
  shows "path_append p Posix c =
    (if p = [] \<or> is_slash (last p) then p @ c else p @ CHR ''/'' # c)"
proof -
  obtain d ds where c: "c = d # ds" "no_slash d"
    using assms by (cases c) (auto simp: good_comp_def)
  have pl: "starts_plain c" "one_root c" using c by (auto simp: starts_plain_def one_root_def)
  have "path_begin c Posix = (takeWhile no_slash c, 0)"
    using c by (simp add: path_begin_def first_component_rel)
  moreover have "\<not> has_net (takeWhile no_slash c) Posix" using c by (simp add: has_net_def)
  ultimately have "root_name c Posix = []" by (simp add: root_name_def)
  moreover have "sr_find_first_not_of c ''/'' 0 = Some 0"
    using c by (simp add: sr_find_first_not_of_def)
  ultimately show ?thesis using c
    by (auto simp: path_append_def preferred_separator_def last_conv_nth)
qed

lemma good_comp_last: "good_comp c \<Longrightarrow> no_slash (last c)"
  by (auto simp: good_comp_def list_all_iff)

lemma append_joined:
  assumes "list_all good_comp cs" "p \<noteq> []" "\<not> is_slash (last p)" "cs \<noteq> []"
  shows "foldl (\<lambda>b c. path_append b Posix c) p cs = p @ CHR ''/'' # joined cs"
  using assms
proof (induction cs arbitrary: p)
  case (Cons c cs)
  then have c: "good_comp c" "c \<noteq> []" by (auto simp: good_comp_def)
  then have nl: "\<not> is_slash (last c)" by (simp add: good_comp_last)
  show ?case
  proof (cases cs)
    case Nil
    with Cons.prems c show ?thesis by (simp add: append_good)
  next
    case (Cons d ds)
    have "foldl (\<lambda>b c. path_append b Posix c) (p @ CHR ''/'' # c) cs
        = (p @ CHR ''/'' # c) @ CHR ''/'' # joined cs"
      by (rule Cons.IH) (use Cons.prems c nl Cons in auto)
    with Cons.prems c Cons show ?thesis by (simp add: append_good)
  qed
qed simp

lemma append_root_joined:
  assumes "list_all good_comp cs"
  shows "foldl (\<lambda>b c. path_append b Posix c) (root_of a) cs = root_of a @ joined cs"
proof (cases cs)
  case (Cons c ds)
  then have c: "good_comp c" "c \<noteq> []" using assms by (auto simp: good_comp_def)
  then have nl: "\<not> is_slash (last c)" by (simp add: good_comp_last)
  have one: "path_append (root_of a) Posix c = root_of a @ c"
    using c by (simp add: append_good root_of_def)
  show ?thesis
  proof (cases ds)
    case Nil
    then show ?thesis using Cons one by simp
  next
    case (Cons d es)
    have "foldl (\<lambda>b c. path_append b Posix c) (root_of a @ c) ds
        = (root_of a @ c) @ CHR ''/'' # joined ds"
      by (rule append_joined) (use assms \<open>cs = c # ds\<close> c nl Cons in auto)
    then show ?thesis using \<open>cs = c # ds\<close> one Cons by simp
  qed
qed simp

subsection \<open>What removing dots preserves\<close>

text \<open>
  The lexical meaning of components, walked from a directory given by its names: \<open>''.''\<close> stays,
  \<open>''..''\<close> goes to the parent (the root is its own parent), a name descends.
\<close>

fun walk :: "string list \<Rightarrow> string list \<Rightarrow> string list" where
  "walk base [] = base"
| "walk base (c # cs) =
     walk (if c = ''.'' then base else if c = ''..'' then butlast base else base @ [c]) cs"

definition normal_comps :: "bool \<Rightarrow> string list \<Rightarrow> bool" where
  "normal_comps absolute cs \<longleftrightarrow>
     ''.'' \<notin> set cs \<and> ''..'' \<notin> set (dropWhile (\<lambda>c. c = ''..'') cs) \<and>
     (absolute \<longrightarrow> cs = [] \<or> hd cs \<noteq> ''..'')"

lemma walk_append [simp]: "walk base (xs @ ys) = walk (walk base xs) ys"
  by (induction xs arbitrary: base) simp_all

lemma dropWhile_last: "dropWhile P xs \<noteq> [] \<Longrightarrow> last (dropWhile P xs) = last xs"
  by (induction xs) auto

lemma normal_snoc:
  assumes "normal_comps a cs" "c \<noteq> ''.''" "c = ''..'' \<Longrightarrow> \<not> a \<and> (cs = [] \<or> last cs = ''..'')"
  shows "normal_comps a (cs @ [c])"
proof -
  let ?P = "\<lambda>c. c = ''..''"
  have "c \<noteq> ''..'' \<or> dropWhile ?P cs = []"
  proof (rule ccontr)
    assume "\<not> (c \<noteq> ''..'' \<or> dropWhile ?P cs = [])"
    then have c: "c = ''..''" and ne: "dropWhile ?P cs \<noteq> []" by blast+
    from ne have "cs \<noteq> []" by auto
    with assms(3)[OF c] have "last (dropWhile ?P cs) = ''..''" by (simp add: dropWhile_last[OF ne])
    with last_in_set[OF ne] assms(1) show False by (simp add: normal_comps_def)
  qed
  then have "''..'' \<notin> set (dropWhile ?P (cs @ [c]))"
    using assms(1) by (auto simp: normal_comps_def dropWhile_append)
  with assms show ?thesis by (cases cs) (auto simp: normal_comps_def)
qed

lemma dropWhile_butlast: "dropWhile P (butlast xs) = butlast (dropWhile P xs)"
  by (induction xs) auto

lemma normal_butlast: "normal_comps a cs \<Longrightarrow> normal_comps a (butlast cs)"
  by (cases cs) (auto simp: normal_comps_def dropWhile_butlast dest: in_set_butlastD)

lemma normal_step: "normal_comps a cs \<Longrightarrow> normal_comps a (remove_dots_step True a cs c)"
  by (auto simp: remove_dots_step_def intro: normal_butlast normal_snoc)

lemma normal_last:
  assumes "normal_comps True cs" "cs \<noteq> []"
  shows "last cs \<noteq> ''..''"
proof -
  have "dropWhile (\<lambda>c. c = ''..'') cs = cs"
    using assms by (simp add: normal_comps_def dropWhile_eq_self_iff)
  with assms(1) have "''..'' \<notin> set cs" by (simp add: normal_comps_def)
  with last_in_set[OF assms(2)] show ?thesis by metis
qed

lemma good_step: "list_all good_comp cs \<Longrightarrow> good_comp c \<Longrightarrow>
    list_all good_comp (remove_dots_step r a cs c)"
  by (auto simp: remove_dots_step_def list_all_iff dest: in_set_butlastD)

lemma walk_step:
  assumes "normal_comps a cs" "a \<Longrightarrow> base = []"
  shows "walk base (remove_dots_step True a cs c) = walk (walk base cs) [c]"
proof -
  have "walk base (butlast cs) = butlast (walk base cs)" if "cs \<noteq> []" "last cs \<noteq> ''..''"
  proof -
    obtain ds d where "cs = ds @ [d]" using \<open>cs \<noteq> []\<close> by (cases cs rule: rev_cases) auto
    with that assms(1) show ?thesis by (auto simp: normal_comps_def)
  qed
  moreover have "cs = []" if "a" "cs = [] \<or> last cs = ''..''"
    using that assms(1) normal_last[of cs] by auto
  ultimately show ?thesis using assms(2) by (auto simp: remove_dots_step_def)
qed

lemma fold_steps:
  assumes "normal_comps a cs" "list_all good_comp cs" "list_all good_comp ds"
  shows "normal_comps a (foldl (remove_dots_step True a) cs ds)"
    and "list_all good_comp (foldl (remove_dots_step True a) cs ds)"
    and "(a \<Longrightarrow> base = []) \<Longrightarrow>
      walk base (foldl (remove_dots_step True a) cs ds) = walk base (cs @ ds)"
  using assms
proof (induction ds arbitrary: cs)
  case (Cons d ds)
  {
    case 1
    then show ?case
      using Cons.IH(1)[OF normal_step[OF 1(1), of d]] good_step[OF 1(2)] by simp
  next
    case 2
    then show ?case
      using Cons.IH(2)[OF normal_step[OF 2(1), of d]] good_step[OF 2(2)] by simp
  next
    case 3
    then show ?case
      using Cons.IH(3)[OF 3(1) normal_step[OF 3(2), of d]] good_step[OF 3(3)]
        walk_step[OF 3(2,1), of d] by simp
  }
qed simp_all

lemma fold_normal: "normal_comps a cs \<Longrightarrow> foldl (remove_dots_step True a) [] cs = cs"
proof (induction cs rule: rev_induct)
  case (snoc c cs)
  have "normal_comps a cs" using normal_butlast[OF snoc.prems] by simp
  moreover have "remove_dots_step True a cs c = cs @ [c]"
  proof (cases "c = ''..''")
    case True
    with snoc.prems have all: "\<forall>x\<in>set cs. x = ''..''" and abs: "a \<longrightarrow> cs \<noteq> []"
      by (auto simp: normal_comps_def dropWhile_append split: if_splits)
    from all have "cs = [] \<or> last cs = ''..''" using last_in_set[of cs] by blast
    with True snoc.prems abs show ?thesis
      by (cases cs) (auto simp: remove_dots_step_def normal_comps_def)
  next
    case False
    with snoc.prems show ?thesis by (auto simp: remove_dots_step_def normal_comps_def)
  qed
  ultimately show ?case using snoc.IH by simp
qed simp

lemma remove_dots_posix:
  assumes "one_root p"
  shows "remove_dots p True Posix =
    root_of (rooted p) @ joined (foldl (remove_dots_step True (rooted p)) [] (rel_comps (unrooted p)))"
proof -
  note r = root_parts[OF assms]
  have "list_all good_comp (rel_comps (unrooted p))" by (rule rel_comps_good[OF r(4)])
  then have "list_all good_comp
      (foldl (remove_dots_step True (rooted p)) [] (rel_comps (unrooted p)))"
    by (intro fold_steps(2)) (simp_all add: normal_comps_def)
  then show ?thesis
    by (simp add: remove_dots_def Let_def r(1-3) path_components_rel[OF r(4)] append_root_joined)
qed

text \<open>
  Removing the dots of a POSIX path whose root is not a double separator. The
  result has the same root; its components are normal: no \<open>''.''\<close>, and \<open>''..''\<close> only at the
  front of a relative path; they lead from every directory (from the root for an absolute path) to
  where the components of the path lead; and removing the dots again changes nothing.
\<close>

theorem remove_dots_canonical:
  assumes "one_root p" "path_is_absolute p Posix \<longrightarrow> base = []"
  shows "let q = remove_dots p True Posix;
             absolute = path_is_absolute p Posix;
             names = (\<lambda>x. path_components (relative_path x Posix) Posix)
         in path_is_absolute q Posix = absolute \<and> normal_comps absolute (names q) \<and>
            walk base (names q) = walk base (names p) \<and> remove_dots q True Posix = q"
proof -
  let ?cs = "rel_comps (unrooted p)"
  let ?ds = "foldl (remove_dots_step True (rooted p)) [] ?cs"
  let ?q = "root_of (rooted p) @ joined ?ds"
  note r = root_parts[OF assms(1)]
  have good: "list_all good_comp ?cs" by (rule rel_comps_good[OF r(4)])
  have nil: "normal_comps (rooted p) []" "list_all good_comp []" by (simp_all add: normal_comps_def)
  note steps = fold_steps[OF nil good]
  note j = root_of_joined[OF steps(2), of "rooted p"]
  note rq = root_parts[OF j(1)]
  have names_q: "path_components (relative_path ?q Posix) Posix = ?ds"
    by (simp add: rq j path_components_rel[OF starts_plain_joined[OF steps(2)]]
        rel_comps_joined[OF steps(2)])
  have names_p: "path_components (relative_path p Posix) Posix = ?cs"
    by (simp add: r path_components_rel[OF r(4)])
  have "walk base ?ds = walk base ?cs"
    using steps(3)[of base] assms(2) r(2) by simp
  moreover have "remove_dots ?q True Posix = ?q"
    by (simp add: remove_dots_posix[OF j(1)] j rel_comps_joined[OF steps(2)] fold_normal[OF steps(1)])
  ultimately show ?thesis
    using steps(1) by (simp add: Let_def remove_dots_posix[OF assms(1)] names_q names_p rq(2) j(2) r(2))
qed

lemma remove_dots_canonical_witness:
  "let p = ''a/./../../b//c/''; base = [''x'', ''y'']; q = remove_dots p True Posix;
       names = (\<lambda>x. path_components (relative_path x Posix) Posix)
   in one_root p \<and> \<not> path_is_absolute p Posix \<and> walk base (names q) = walk base (names p)"
proof -
  have one: "one_root ''a/./../../b//c/''" by (simp add: one_root_def)
  have rel: "\<not> path_is_absolute ''a/./../../b//c/'' Posix"
    by (simp add: root_parts(2)[OF one] rooted_def)
  show ?thesis using remove_dots_canonical[OF one, of "[''x'', ''y'']"] one rel by (simp add: Let_def)
qed

text \<open>
  A path that begins with three separators. Its root is a single separator and what
  follows is read as a network name, so a \<open>''..''\<close> below the root stays in the result, which a
  second call then changes.
\<close>

theorem remove_dots_triple_separator:
  "remove_dots ''///../x'' True Posix = ''/../x'' \<and>
   remove_dots (remove_dots ''///../x'' True Posix) True Posix = ''/x''"
  by code_simp

end
