(* ===== verification/Wildcard.thy ===== *)
theory Wildcard
  imports Paths
begin

text \<open>
  The selection of files by wildcard patterns: \<^verbatim>\<open>tools/zapccs/UnloadSelector.cpp\<close>. The matcher
  \<^verbatim>\<open>WildMatch6\<close> is a loop over two C strings with labels; its inner \<^verbatim>\<open>for\<close> is \<open>wild_scan\<close>,
  its jumps to \<^verbatim>\<open>loopStart\<close> are the recursive calls of \<open>wild_loop\<close>. A C string is the bytes
  before the first zero of a list.
\<close>

subsection \<open>The matcher\<close>

definition c_str :: "string \<Rightarrow> string" where
  "c_str s = takeWhile (\<lambda>c. c \<noteq> CHR 0x00) s"

abbreviation is_star :: "char \<Rightarrow> bool" where
  "is_star c \<equiv> c = CHR ''*''"

text \<open>How the inner loop ends: with a result, at a star (pattern after it, string), or by a mismatch.\<close>

datatype scan_end = Done bool | AtStar string string | StarCheck

fun wild_scan :: "string \<Rightarrow> string \<Rightarrow> scan_end" where
  "wild_scan p [] = Done (dropWhile is_star p = [])"
| "wild_scan [] (c # s) = StarCheck"
| "wild_scan (d # p) (c # s) =
     (if d = CHR ''?'' then (if c = CHR ''.'' then StarCheck else wild_scan p s)
      else if is_star d then
        (let rest = dropWhile is_star p in if rest = [] then Done True else AtStar rest (c # s))
      else if c \<noteq> d then StarCheck else wild_scan p s)"

lemma wild_scan_star_shorter:
  "wild_scan p s = AtStar p' s' \<Longrightarrow> length p' < length p \<and> length s' \<le> length s"
proof (induction p s rule: wild_scan.induct)
  case (3 d p c s)
  from 3(3) consider (q) "wild_scan p s = AtStar p' s'" "d = CHR ''?''" "c \<noteq> CHR ''.''"
    | (star) "p' = dropWhile is_star p" "s' = c # s"
    | (lit) "wild_scan p s = AtStar p' s'" "d \<noteq> CHR ''?''" "\<not> is_star d" "c = d"
    by (auto simp: Let_def split: if_splits)
  then show ?case
  proof cases
    case q
    then show ?thesis using 3(1) by simp
  next
    case star
    then show ?thesis by (simp add: le_imp_less_Suc length_dropWhile_le)
  next
    case lit
    then show ?thesis using 3(2) by simp
  qed
qed simp_all

lemma wild_scan_check_nonempty: "wild_scan p s = StarCheck \<Longrightarrow> s \<noteq> []"
  by (cases s) simp_all

function wild_loop :: "bool \<Rightarrow> string \<Rightarrow> string \<Rightarrow> bool" where
  "wild_loop star pat str =
     (case wild_scan pat str of
        Done b \<Rightarrow> b
      | AtStar p s \<Rightarrow> wild_loop True p s
      | StarCheck \<Rightarrow> if \<not> star then False else wild_loop star pat (tl str))"
  by pat_completeness auto
termination
  by (relation "measure (\<lambda>(star, pat, str). length pat + length str)")
    (auto dest: wild_scan_star_shorter wild_scan_check_nonempty)

declare wild_loop.simps [simp del]

definition WildMatch6 :: "string \<Rightarrow> string \<Rightarrow> bool" where
  "WildMatch6 pat str = wild_loop False (c_str pat) (c_str str)"

subsection \<open>The selector\<close>

text \<open>\<^verbatim>\<open>tolower\<close> of the C locale.\<close>

definition to_lower :: "char \<Rightarrow> char" where
  "to_lower c = (if CHR ''A'' \<le> c \<and> c \<le> CHR ''Z'' then char_of (of_char c + 32 :: nat) else c)"

definition normalizeSlashes :: "string \<Rightarrow> string" where
  "normalizeSlashes out =
     map (\<lambda>c. if c = CHR ''/'' \<or> c = CHR 0x5C then CHR ''/'' else to_lower c) out"

datatype match_type = EndsWith | Find | Same | Wild

record wild_match =
  Pattern :: string
  Type :: match_type

record wild_regex =
  YesMatches :: "wild_match list"
  NoMatches :: "wild_match list"

definition classify :: "string \<Rightarrow> wild_match" where
  "classify pat =
     (let questions = sr_count_char pat (CHR ''?''); stars = sr_count_char pat (CHR ''*'')
      in if questions = 0 \<and> stars = 0 then \<lparr>Pattern = pat, Type = Same\<rparr>
         else if questions = 0 \<and> stars = 1 \<and> is_star (hd pat)
           then \<lparr>Pattern = tl pat, Type = EndsWith\<rparr>
         else if questions = 0 \<and> stars = 2 \<and> is_star (hd pat) \<and> is_star (last pat)
           then \<lparr>Pattern = butlast (tl pat), Type = Find\<rparr>
         else \<lparr>Pattern = pat, Type = Wild\<rparr>)"

definition add_pattern :: "wild_regex \<Rightarrow> string \<Rightarrow> wild_regex" where
  "add_pattern r pattern =
     (if sr_startswith pattern ''!''
      then r\<lparr>NoMatches := NoMatches r @ [classify (normalizeSlashes (tl pattern))]\<rparr>
      else r\<lparr>YesMatches := YesMatches r @ [classify (normalizeSlashes pattern)]\<rparr>)"

definition WildRegex :: "string list \<Rightarrow> wild_regex" where
  "WildRegex patterns = foldl add_pattern \<lparr>YesMatches = [], NoMatches = []\<rparr> patterns"

definition match_one :: "string \<Rightarrow> wild_match \<Rightarrow> bool" where
  "match_one name m =
     (case Type m of
        EndsWith \<Rightarrow> sr_endswith name (Pattern m)
      | Find \<Rightarrow> sr_find name (Pattern m) 0 \<noteq> None
      | Same \<Rightarrow> name = Pattern m
      | Wild \<Rightarrow> WildMatch6 (Pattern m) name)"

definition regex_match_no :: "wild_regex \<Rightarrow> string \<Rightarrow> bool \<Rightarrow> bool" where
  "regex_match_no r name no = list_ex (match_one name) (if no then NoMatches r else YesMatches r)"

definition regex_match :: "wild_regex \<Rightarrow> string \<Rightarrow> bool" where
  "regex_match r name \<longleftrightarrow> regex_match_no r name False \<and> \<not> regex_match_no r name True"

definition isRegex :: "wild_regex \<Rightarrow> string \<Rightarrow> bool" where
  "isRegex r file_name = regex_match r (normalizeSlashes (remove_dots file_name True Native))"

subsection \<open>What a pattern means\<close>

text \<open>
  The declarative meaning: a star stands for any bytes, a question mark for one byte that is not a
  dot, every other byte for itself.
\<close>

fun wmatch :: "string \<Rightarrow> string \<Rightarrow> bool" where
  "wmatch [] s \<longleftrightarrow> s = []"
| "wmatch (d # p) [] \<longleftrightarrow> is_star d \<and> wmatch p []"
| "wmatch (d # p) (c # s) \<longleftrightarrow>
     (if is_star d then wmatch p (c # s) \<or> wmatch (d # p) s
      else if d = CHR ''?'' then c \<noteq> CHR ''.'' \<and> wmatch p s
      else d = c \<and> wmatch p s)"

lemma wmatch_star_iff: "wmatch (CHR ''*'' # p) s \<longleftrightarrow> (\<exists>v. suffix v s \<and> wmatch p v)"
  by (induction s) (auto simp: suffix_Cons)

lemma wmatch_nil: "wmatch p [] \<longleftrightarrow> dropWhile is_star p = []"
  by (induction p) auto

lemma wmatch_star_star: "wmatch (CHR ''*'' # CHR ''*'' # p) s \<longleftrightarrow> wmatch (CHR ''*'' # p) s"
  by (meson suffix_order.refl suffix_order.trans wmatch_star_iff)

lemma wmatch_star_suffix: "wmatch (CHR ''*'' # p) v \<Longrightarrow> suffix v s \<Longrightarrow> wmatch (CHR ''*'' # p) s"
  by (meson suffix_order.trans wmatch_star_iff)

lemma wmatch_stars: "wmatch (CHR ''*'' # p) s \<longleftrightarrow> wmatch (CHR ''*'' # dropWhile is_star p) s"
  by (induction p) (simp_all add: wmatch_star_star)

lemma wmatch_star_nil [simp]: "wmatch ''*'' s"
  by (auto simp: wmatch_star_iff)

text \<open>A byte of the pattern other than a star takes one byte of the string.\<close>

definition takes :: "char \<Rightarrow> char \<Rightarrow> bool" where
  "takes d c \<longleftrightarrow> (if d = CHR ''?'' then c \<noteq> CHR ''.'' else d = c)"

lemma wmatch_step: "\<not> is_star d \<Longrightarrow> wmatch (d # p) s \<longleftrightarrow> (\<exists>c v. s = c # v \<and> takes d c \<and> wmatch p v)"
  by (cases s) (auto simp: takes_def)

lemma wild_scan_step:
  "wild_scan (d # p) (c # s) =
     (if is_star d then (let rest = dropWhile is_star p in if rest = [] then Done True else AtStar rest (c # s))
      else if takes d c then wild_scan p s else StarCheck)"
  by (simp add: takes_def)

lemma wild_scan_induct [case_names nil empty star step mismatch]:
  assumes "\<And>p. P p []" "\<And>c s. P [] (c # s)" "\<And>p c s. P (CHR ''*'' # p) (c # s)"
    and "\<And>d p c s. \<not> is_star d \<Longrightarrow> takes d c \<Longrightarrow> P p s \<Longrightarrow> P (d # p) (c # s)"
    and "\<And>d p c s. \<not> is_star d \<Longrightarrow> \<not> takes d c \<Longrightarrow> P (d # p) (c # s)"
  shows "P p s"
proof (induction s arbitrary: p)
  case Nil
  show ?case by (rule assms(1))
next
  case (Cons c s)
  show ?case
  proof (cases p)
    case Nil
    then show ?thesis using assms(2) by simp
  next
    case (Cons d q)
    then show ?thesis using assms(3)[of q c s] assms(4)[OF _ _ \<open>\<And>p. P p s\<close>, of d c q] assms(5)[of d c q s]
      by (cases "is_star d"; cases "takes d c") simp_all
  qed
qed

lemma wild_scan_Done_True: "wild_scan p s = Done True \<Longrightarrow> wmatch p s"
proof (induction p s rule: wild_scan_induct)
  case (star p c s)
  then have "dropWhile is_star p = []" by (auto simp: wild_scan_step Let_def split: if_splits)
  then show ?case using wmatch_stars[of p "c # s"] by (metis wmatch_star_nil)
qed (simp_all add: wmatch_nil wild_scan_step wmatch_step del: wild_scan.simps(3) wmatch.simps(3))

lemma wild_scan_Done_False: "wild_scan p s = Done False \<Longrightarrow> suffix v s \<Longrightarrow> \<not> wmatch p v"
proof (induction p s arbitrary: v rule: wild_scan_induct)
  case (step d p c s)
  show ?case
  proof
    assume "wmatch (d # p) v"
    then obtain e w where v: "v = e # w" "wmatch p w" using step(1) by (auto simp: wmatch_step)
    with step(5) have "suffix w s" by (auto simp: suffix_Cons dest: suffix_ConsD)
    with v step show False by (simp add: wild_scan_step del: wild_scan.simps(3))
  qed
next
  case (star p c s)
  then show ?case by (auto simp: wild_scan_step Let_def split: if_splits)
qed (simp_all add: wmatch_nil wild_scan_step del: wild_scan.simps(3))

lemma wild_scan_AtStar:
  "wild_scan p s = AtStar p' s' \<Longrightarrow> suffix v s \<Longrightarrow> wmatch p v \<Longrightarrow> wmatch (CHR ''*'' # p') s'"
proof (induction p s arbitrary: v rule: wild_scan_induct)
  case (step d p c s)
  then obtain e w where v: "v = e # w" "wmatch p w" by (auto simp: wmatch_step)
  with step have "suffix w s" by (auto simp: suffix_Cons dest: suffix_ConsD)
  with v step show ?case by (simp add: wild_scan_step del: wild_scan.simps(3))
next
  case (star p c s)
  then have "p' = dropWhile is_star p" "s' = c # s"
    by (auto simp: wild_scan_step Let_def split: if_splits)
  with star show ?case by (metis wmatch_star_suffix wmatch_stars)
qed (simp_all add: wild_scan_step del: wild_scan.simps(3))

lemma wild_scan_AtStar_rev:
  "wild_scan p s = AtStar p' s' \<Longrightarrow> wmatch (CHR ''*'' # p') s' \<Longrightarrow> wmatch p s"
proof (induction p s rule: wild_scan_induct)
  case (star p c s)
  then have "p' = dropWhile is_star p" "s' = c # s"
    by (auto simp: wild_scan_step Let_def split: if_splits)
  with star show ?case by (metis wmatch_stars)
qed (simp_all add: wild_scan_step wmatch_step del: wild_scan.simps(3) wmatch.simps(3))

lemma wild_scan_StarCheck: "wild_scan p s = StarCheck \<Longrightarrow> \<not> wmatch p s"
proof (induction p s rule: wild_scan_induct)
  case (star p c s)
  then show ?case by (auto simp: wild_scan_step Let_def split: if_splits)
qed (simp_all add: wild_scan_step wmatch_step del: wild_scan.simps(3) wmatch.simps(3))

lemma wild_loop_wmatch:
  "wild_loop star pat str \<longleftrightarrow> wmatch (if star then CHR ''*'' # pat else pat) str"
proof (induction star pat str rule: wild_loop.induct)
  case (1 star pat str)
  show ?case
  proof (cases "wild_scan pat str")
    case (Done b)
    then show ?thesis using wild_scan_Done_True[of pat str] wild_scan_Done_False[of pat str]
      by (cases b) (auto simp: wild_loop.simps[of star] wmatch_star_iff)
  next
    case (AtStar p s)
    have "wmatch (CHR ''*'' # p) s \<longleftrightarrow> wmatch (if star then CHR ''*'' # pat else pat) str"
      using wild_scan_AtStar[OF AtStar] wild_scan_AtStar_rev[OF AtStar]
      by (cases star) (auto simp: wmatch_star_iff)
    then show ?thesis using "1.IH"(1)[OF AtStar] AtStar by (simp add: wild_loop.simps[of star])
  next
    case StarCheck
    note no = wild_scan_StarCheck[OF this]
    show ?thesis
    proof (cases star)
      case True
      obtain c s where "str = c # s" using wild_scan_check_nonempty[OF StarCheck] by (cases str) auto
      then show ?thesis using "1.IH"(2)[OF StarCheck] True StarCheck no
        by (simp add: wild_loop.simps[of True pat "c # s"])
    next
      case False
      then show ?thesis using StarCheck no by (simp add: wild_loop.simps[of False pat str])
    qed
  qed
qed

text \<open>
  C36 (equivalence): the matching loop with its backtracking to the last star decides the
  declarative meaning of the pattern, for every pattern and every string.
\<close>

theorem WildMatch6_correct: "WildMatch6 pat str \<longleftrightarrow> wmatch (c_str pat) (c_str str)"
  by (simp add: WildMatch6_def wild_loop_wmatch)

subsection \<open>The classes of patterns\<close>

definition plain :: "string \<Rightarrow> bool" where
  "plain p \<longleftrightarrow> CHR ''*'' \<notin> set p \<and> CHR ''?'' \<notin> set p"

definition no_nul :: "string \<Rightarrow> bool" where
  "no_nul s \<longleftrightarrow> CHR 0x00 \<notin> set s"

lemma c_str_no_nul: "no_nul s \<Longrightarrow> c_str s = s"
  by (auto simp: no_nul_def c_str_def takeWhile_eq_all_conv)

lemma plain_Cons [simp]: "plain (c # p) \<longleftrightarrow> \<not> is_star c \<and> c \<noteq> CHR ''?'' \<and> plain p"
  by (auto simp: plain_def)

lemma wmatch_plain: "plain p \<Longrightarrow> wmatch p s \<longleftrightarrow> s = p"
  by (induction p s rule: wmatch.induct) auto

lemma wmatch_plain_star: "plain p \<Longrightarrow> wmatch (p @ ''*'') s \<longleftrightarrow> prefix p s"
proof (induction p arbitrary: s)
  case (Cons d p)
  then show ?case by (cases s) auto
qed simp

lemma occurs_suffix_prefix: "(\<exists>v. suffix v s \<and> prefix p v) \<longleftrightarrow> (\<exists>i. occurs_at s p i)"
proof
  assume "\<exists>v. suffix v s \<and> prefix p v"
  then obtain u w where "s = u @ p @ w" by (auto simp: suffix_def prefix_def)
  then have "occurs_at s p (length u)" by (simp add: occurs_at_def)
  then show "\<exists>i. occurs_at s p i" ..
next
  assume "\<exists>i. occurs_at s p i"
  then obtain i where "i + length p \<le> length s" "take (length p) (drop i s) = p"
    by (auto simp: occurs_at_def)
  then have "prefix p (drop i s)" by (simp add: prefix_take_iff)
  then show "\<exists>v. suffix v s \<and> prefix p v" using suffix_drop by blast
qed

lemma sr_count_char_0: "sr_count_char s c = 0 \<longleftrightarrow> c \<notin> set s"
  by (auto simp: sr_count_char_def filter_empty_conv)

lemma match_classify:
  assumes "no_nul pat" "no_nul name"
  shows "match_one name (classify pat) \<longleftrightarrow> wmatch pat name"
proof -
  let ?q = "sr_count_char pat (CHR ''?'')" and ?s = "sr_count_char pat (CHR ''*'')"
  consider (same) "?q = 0" "?s = 0"
    | (ends) "?q = 0" "?s = 1" "is_star (hd pat)"
    | (find) "?q = 0" "?s = 2" "is_star (hd pat)" "is_star (last pat)"
    | (wild) "\<not> (?q = 0 \<and> ?s = 0)" "\<not> (?q = 0 \<and> ?s = 1 \<and> is_star (hd pat))"
        "\<not> (?q = 0 \<and> ?s = 2 \<and> is_star (hd pat) \<and> is_star (last pat))"
    by metis
  then show ?thesis
  proof cases
    case same
    then have "plain pat" by (simp add: plain_def sr_count_char_0)
    with same show ?thesis by (auto simp: classify_def match_one_def wmatch_plain)
  next
    case ends
    then obtain p where p: "pat = CHR ''*'' # p" by (cases pat) (auto simp: sr_count_char_def)
    with ends have "plain p" by (simp add: plain_def sr_count_char_0[symmetric]) (simp add: sr_count_char_def)
    with ends p show ?thesis
      by (auto simp: classify_def match_one_def wmatch_star_iff wmatch_plain)
  next
    case find
    then obtain p where p: "pat = CHR ''*'' # p" by (cases pat) (auto simp: sr_count_char_def)
    with find have "p \<noteq> []" by (auto simp: sr_count_char_def)
    with find p obtain r where r: "pat = CHR ''*'' # r @ ''*''" by (cases p rule: rev_cases) auto
    with find have "plain r" by (simp add: plain_def sr_count_char_0[symmetric]) (simp add: sr_count_char_def)
    with find r show ?thesis
      by (auto simp: classify_def match_one_def wmatch_star_iff wmatch_plain_star occurs_suffix_prefix
          sr_find_None_iff simp flip: not_None_eq)
  next
    case wild
    then have "classify pat = \<lparr>Pattern = pat, Type = Wild\<rparr>"
      by (simp only: classify_def Let_def if_False)
    with assms show ?thesis by (simp add: match_one_def WildMatch6_def wild_loop_wmatch c_str_no_nul)
  qed
qed

lemma WildRegex_matches:
  "NoMatches (foldl add_pattern r ps) = NoMatches r @
     map (\<lambda>p. classify (normalizeSlashes (tl p))) (filter (\<lambda>p. prefix ''!'' p) ps)"
  "YesMatches (foldl add_pattern r ps) = YesMatches r @
     map (\<lambda>p. classify (normalizeSlashes p)) (filter (\<lambda>p. \<not> prefix ''!'' p) ps)"
  by (induction ps arbitrary: r) (auto simp: add_pattern_def)

lemma to_lower_nul: "to_lower c = CHR 0x00 \<longleftrightarrow> c = CHR 0x00"
proof (cases "CHR ''A'' \<le> c \<and> c \<le> CHR ''Z''")
  case True
  then have "(of_char c :: nat) \<le> 90" "65 \<le> (of_char c :: nat)" by (simp_all add: less_eq_char_def)
  then have "(of_char (to_lower c) :: nat) \<noteq> 0" using True by (simp add: to_lower_def)
  moreover have "c \<noteq> CHR 0x00" using True by auto
  ultimately show ?thesis by auto
next
  case False
  then show ?thesis by (simp only: to_lower_def if_False)
qed

lemma no_nul_normalize: "no_nul s \<Longrightarrow> no_nul (normalizeSlashes s)"
  by (auto simp: no_nul_def normalizeSlashes_def to_lower_nul dest: sym split: if_splits)

lemma no_nul_tl: "no_nul s \<Longrightarrow> no_nul (tl s)"
  by (cases s) (auto simp: no_nul_def)

text \<open>
  C37 (equivalence): the selector decides what its patterns say. A name is selected when it matches
  a pattern without \<open>!\<close> and none of those with it, each pattern read with its slashes and case
  normalised; the four ways of matching (the same, ends with, contains, wild) that the constructor
  chooses between all agree with the meaning of the pattern. Patterns and name have no zero byte.
\<close>

theorem WildRegex_match_spec:
  assumes "list_all no_nul patterns" "no_nul name"
  shows "regex_match (WildRegex patterns) name \<longleftrightarrow>
    (\<exists>p \<in> set patterns. \<not> prefix ''!'' p \<and> wmatch (normalizeSlashes p) name) \<and>
    \<not> (\<exists>p \<in> set patterns. prefix ''!'' p \<and> wmatch (normalizeSlashes (tl p)) name)"
proof -
  have "match_one name (classify (normalizeSlashes p)) \<longleftrightarrow> wmatch (normalizeSlashes p) name"
    "match_one name (classify (normalizeSlashes (tl p))) \<longleftrightarrow> wmatch (normalizeSlashes (tl p)) name"
    if "p \<in> set patterns" for p
    using that assms by (simp_all add: match_classify no_nul_normalize no_nul_tl list_all_iff)
  then show ?thesis
    by (auto simp: regex_match_def regex_match_no_def WildRegex_def WildRegex_matches list_ex_iff)
qed

lemma WildRegex_match_spec_witness:
  "let ps = [''*.CPP'', ''!*Test*'']
   in regex_match (WildRegex ps) ''src/a.cpp'' \<and> \<not> regex_match (WildRegex ps) ''src/atest.cpp''"
proof -
  let ?ps = "[''*.CPP'', ''!*Test*'']"
  have norm: "normalizeSlashes ''*.CPP'' = ''*.cpp''" "normalizeSlashes ''*Test*'' = ''*test*''"
    by code_simp+
  have "list_all no_nul ?ps" "no_nul ''src/a.cpp''" "no_nul ''src/atest.cpp''"
    by (simp_all add: no_nul_def)
  then show ?thesis
    using WildRegex_match_spec[of ?ps "''src/a.cpp''"] WildRegex_match_spec[of ?ps "''src/atest.cpp''"]
    by (simp add: norm)
qed

end
