(* ===== verification/Config.thy ===== *)
theory Config
  imports Wildcard
begin

text \<open>
  The configuration file: \<^verbatim>\<open>tools/zapccs/ZapccConfig.cpp\<close>. The map from section names to
  their lines is an association list without duplicate keys; the pointer \<^verbatim>\<open>Patterns\<close> into it
  is the name of the current section. Text written to \<^verbatim>\<open>errs()\<close> is returned, newest last.
\<close>

subsection \<open>Lines\<close>

abbreviation newline :: char where
  "newline \<equiv> CHR 0x0A"

lemma getlines_shorter: "s \<noteq> [] \<Longrightarrow> length (tl (dropWhile P s)) < length s"
  using length_dropWhile_le[of P s] by (cases s) (simp_all add: less_Suc_eq_le diff_le_mono)

text \<open>\<^verbatim>\<open>std::getline\<close> until it fails: a last line without a newline counts, an empty rest does not.\<close>

function getlines :: "string \<Rightarrow> string list" where
  "getlines s =
     (if s = [] then []
      else takeWhile (\<lambda>c. c \<noteq> newline) s # getlines (tl (dropWhile (\<lambda>c. c \<noteq> newline) s)))"
  by pat_completeness auto
termination
  by (relation "measure length")
    (auto simp: getlines_shorter simp del: length_tl)

declare getlines.simps [simp del]

subsection \<open>Sections\<close>

type_synonym sections = "(string \<times> string list) list"

definition lookup_section :: "sections \<Rightarrow> string \<Rightarrow> string list option" where
  "lookup_section ps name = map_of ps name"

text \<open>\<^verbatim>\<open>AllPatterns[Line]\<close>: the entry is made, empty, when it is not there.\<close>

definition enter_section :: "sections \<Rightarrow> string \<Rightarrow> sections" where
  "enter_section ps name = (if map_of ps name = None then ps @ [(name, [])] else ps)"

fun push_pattern :: "sections \<Rightarrow> string \<Rightarrow> string \<Rightarrow> sections" where
  "push_pattern [] name line = []"
| "push_pattern ((n, ls) # ps) name line =
     (if n = name then (n, ls @ [line]) # ps else (n, ls) # push_pattern ps name line)"

definition is_comment :: "string \<Rightarrow> bool" where
  "is_comment line \<longleftrightarrow> line = [] \<or> line ! 0 = CHR ''#'' \<or> line ! 0 = CHR '';''"

definition read_line :: "sections \<times> string option \<Rightarrow> string \<Rightarrow> sections \<times> string option" where
  "read_line st line =
     (if is_comment line then st
      else if line ! 0 = CHR ''['' then (enter_section (fst st) line, Some line)
      else case snd st of
             None \<Rightarrow> st
           | Some name \<Rightarrow> (push_pattern (fst st) name line, snd st))"

definition readSections :: "string \<Rightarrow> bool \<times> sections" where
  "readSections file =
     (let ps = fst (foldl read_line ([], None) (getlines file)) in (ps \<noteq> [], ps))"

subsection \<open>The values the program reads\<close>

text \<open>
  \<open>setNumeric v value limit\<close>: \<open>v\<close> is what the variable \<^verbatim>\<open>V\<close>, which the code declares without
  initialising it, holds. The parse leaves it alone when it fails.
\<close>

datatype numeric_message = NotANumber string | TooHigh string "32 word"

definition setNumeric :: "32 word \<Rightarrow> string \<Rightarrow> 32 word \<Rightarrow> 32 word \<times> numeric_message list" where
  "setNumeric v value limit =
     (let (err, r) = getAsInteger_unsigned value 10 v
      in if err then (r, [NotANumber value])
         else if limit < r then (limit, [TooHigh value limit]) else (r, []))"

datatype config_error =
    ConfigNotFound string
  | NoSections
  | MemoryEntries
  | MissingSection string \<comment> \<open>\<^verbatim>\<open>getPatterns\<close> dereferences the end iterator\<close>

record zapcc_config =
  AllPatterns :: sections
  MaxMemory :: "32 word"

definition getPatterns :: "sections \<Rightarrow> string \<Rightarrow> config_error + string list" where
  "getPatterns ps section =
     (case lookup_section ps section of None \<Rightarrow> Inl (MissingSection section) | Some ls \<Rightarrow> Inr ls)"

text \<open>
  \<open>files\<close> is the file system: the content of a file that can be opened.
\<close>

definition readConfigFile ::
    "(string \<Rightarrow> string option) \<Rightarrow> 32 word \<Rightarrow> string \<Rightarrow> config_error + zapcc_config" where
  "readConfigFile files uninit exe_path =
     (let name = replace_extension exe_path ''config'' Native
      in case files name of
           None \<Rightarrow> Inl (ConfigNotFound name)
         | Some text \<Rightarrow>
             let (ok, ps) = readSections text
             in if \<not> ok then Inl NoSections
                else bind_err (getPatterns ps ''[MaxMemory]'') (\<lambda>memory.
                       if length memory \<noteq> 1 then Inl MemoryEntries
                       else Inr \<lparr>AllPatterns = ps,
                                 MaxMemory = fst (setNumeric uninit (memory ! 0) 16384)\<rparr>))"

subsection \<open>The selectors\<close>

record unload_selector =
  MutableRegex :: wild_regex
  DoNotZapRegex :: wild_regex

definition selector_reset :: "zapcc_config \<Rightarrow> config_error + unload_selector" where
  "selector_reset zc =
     bind_err (getPatterns (AllPatterns zc) ''[Mutable]'') (\<lambda>mutable.
     bind_err (getPatterns (AllPatterns zc) ''[DoNotZap]'') (\<lambda>dnz.
       Inr \<lparr>MutableRegex = WildRegex mutable, DoNotZapRegex = WildRegex dnz\<rparr>))"

definition isMutable :: "unload_selector \<Rightarrow> string \<Rightarrow> bool" where
  "isMutable us file_name = isRegex (MutableRegex us) file_name"

definition isDoNotZap :: "unload_selector \<Rightarrow> string \<Rightarrow> bool" where
  "isDoNotZap us file_name = isRegex (DoNotZapRegex us) file_name"

subsection \<open>Reading back a configuration that was written\<close>

definition header :: "string \<Rightarrow> bool" where
  "header line \<longleftrightarrow> line \<noteq> [] \<and> line ! 0 = CHR ''['' \<and> newline \<notin> set line"

definition pattern_line :: "string \<Rightarrow> bool" where
  "pattern_line line \<longleftrightarrow> \<not> is_comment line \<and> line ! 0 \<noteq> CHR ''['' \<and> newline \<notin> set line"

definition print_lines :: "string list \<Rightarrow> string" where
  "print_lines ls = concat (map (\<lambda>l. l @ [newline]) ls)"

definition print_sections :: "sections \<Rightarrow> string" where
  "print_sections ps = print_lines (concat (map (\<lambda>(name, ls). name # ls) ps))"

definition valid_sections :: "sections \<Rightarrow> bool" where
  "valid_sections ps \<longleftrightarrow>
     distinct (map fst ps) \<and> list_all (\<lambda>(name, ls). header name \<and> list_all pattern_line ls) ps"

lemma getlines_print: "list_all (\<lambda>l. newline \<notin> set l) ls \<Longrightarrow> getlines (print_lines ls) = ls"
proof (induction ls)
  case Nil
  show ?case by (simp add: print_lines_def getlines.simps)
next
  case (Cons l ls)
  then have "\<forall>c\<in>set l. c \<noteq> newline" by auto
  then have "takeWhile (\<lambda>c. c \<noteq> newline) (l @ newline # r) = l"
    "dropWhile (\<lambda>c. c \<noteq> newline) (l @ newline # r) = newline # r" for r
    by (simp_all add: takeWhile_append2 dropWhile_append2)
  with Cons show ?case
    by (subst getlines.simps) (simp add: print_lines_def)
qed

lemma push_pattern_last:
  "name \<notin> fst ` set ps \<Longrightarrow> push_pattern (ps @ [(name, ls)]) name l = ps @ [(name, ls @ [l])]"
  by (induction ps) auto

lemma read_patterns:
  assumes "name \<notin> fst ` set ps" "list_all pattern_line ls"
  shows "foldl read_line (ps @ [(name, ks)], Some name) ls = (ps @ [(name, ks @ ls)], Some name)"
  using assms(2)
proof (induction ls arbitrary: ks)
  case (Cons l ls)
  then have "read_line (ps @ [(name, ks)], Some name) l = (ps @ [(name, ks @ [l])], Some name)"
    using assms(1) by (simp add: read_line_def pattern_line_def push_pattern_last)
  with Cons show ?case by simp
qed simp

lemma read_sections:
  assumes "valid_sections (ps @ qs)"
  shows "fst (foldl read_line (ps, cur) (concat (map (\<lambda>(name, ls). name # ls) qs))) = ps @ qs"
  using assms
proof (induction qs arbitrary: ps cur)
  case (Cons q qs)
  obtain name ls where q: "q = (name, ls)" by (cases q)
  from Cons.prems q have new: "name \<notin> fst ` set ps" and ls: "list_all pattern_line ls"
    and h: "header name" by (auto simp: valid_sections_def)
  then have "read_line (ps, cur) name = (ps @ [(name, [])], Some name)"
    by (auto simp: read_line_def header_def is_comment_def enter_section_def map_of_eq_None_iff)
  moreover have "fst (foldl read_line (ps @ [(name, ls)], Some name)
      (concat (map (\<lambda>(name, ls). name # ls) qs))) = (ps @ [(name, ls)]) @ qs"
    by (rule Cons.IH) (use Cons.prems q in simp)
  ultimately show ?case using read_patterns[OF new ls, of "[]"] by (simp add: q)
qed simp

lemma valid_sections_lines:
  "valid_sections ps \<Longrightarrow>
     list_all (\<lambda>l. newline \<notin> set l) (concat (map (\<lambda>(name, ls). name # ls) ps))"
  by (fastforce simp: valid_sections_def list_all_iff header_def pattern_line_def)

text \<open>
  A configuration written section by section, each a header line and its lines,
  is read back exactly, in order.
\<close>

theorem readSections_print:
  assumes "valid_sections ps"
  shows "readSections (print_sections ps) = (ps \<noteq> [], ps)"
  using read_sections[of "[]" ps None] getlines_print[OF valid_sections_lines[OF assms]] assms
  by (simp add: readSections_def print_sections_def Let_def)

lemma readSections_print_witness:
  "let ps = [(''[MaxMemory]'', [''2000'']), (''[Mutable]'', [''*.dat'', ''!*.h''])]
   in readSections (print_sections ps) = (True, ps)"
  using readSections_print[of "[(''[MaxMemory]'', [''2000'']), (''[Mutable]'', [''*.dat'', ''!*.h''])]"]
  by (simp add: valid_sections_def header_def pattern_line_def is_comment_def)

subsection \<open>The memory limit\<close>

lemma setNumeric_number:
  "setNumeric v value limit =
     (if is_number 10 value \<and> digits_value 10 value < 2 ^ 32
      then if unat limit < digits_value 10 value then (limit, [TooHigh value limit])
           else (of_nat (digits_value 10 value), [])
      else (v, [NotANumber value]))"
  by (simp add: setNumeric_def getAsInteger_unsigned_number word_less_nat_alt unat_of_nat)

text \<open>
  a configuration file is accepted when it can be opened and its \<open>[MaxMemory]\<close>
  section is one line; the limit is then the number of that line, at most 16384, if the line is a
  number that fits 32 bits. The section table is returned as read.
\<close>

theorem readConfigFile_memory:
  assumes "files (replace_extension exe ''config'' Native) = Some text"
    and "lookup_section (snd (readSections text)) ''[MaxMemory]'' = Some [line]"
    and "is_number 10 line" "digits_value 10 line < 2 ^ 32"
  shows "readConfigFile files uninit exe = Inr \<lparr>AllPatterns = snd (readSections text),
    MaxMemory = of_nat (min (digits_value 10 line) 16384)\<rparr>"
proof -
  have "fst (readSections text)" using assms(2)
    by (auto simp: readSections_def Let_def lookup_section_def)
  with assms show ?thesis
    by (auto simp: readConfigFile_def getPatterns_def setNumeric_number Let_def min_def
        split: prod.splits)
qed

text \<open>
  When the line is not a number that fits, for example because of a trailing blank,
  the message says that the limit is set to 1024, and the limit is whatever the uninitialised
  variable holds.
\<close>

theorem readConfigFile_not_a_number:
  assumes "files (replace_extension exe ''config'' Native) = Some text"
    and "lookup_section (snd (readSections text)) ''[MaxMemory]'' = Some [line]"
    and "\<not> (is_number 10 line \<and> digits_value 10 line < 2 ^ 32)"
  shows "map_sum id MaxMemory (readConfigFile files uninit exe) = Inr uninit \<and>
    setNumeric uninit line 16384 = (uninit, [NotANumber line])"
proof -
  have "fst (readSections text)" using assms(2)
    by (auto simp: readSections_def Let_def lookup_section_def)
  with assms show ?thesis
    by (auto simp: readConfigFile_def getPatterns_def setNumeric_number Let_def split: prod.splits)
qed

lemma readConfigFile_witness_file:
  "replace_extension ''/bin/zapccs'' ''config'' Native = ''/bin/zapccs.config''"
  "lookup_section (snd (readSections (print_lines [''[MaxMemory]'', ''# MB'', ''20000'']))) ''[MaxMemory]''
     = Some [''20000'']"
  "lookup_section (snd (readSections (print_lines [''[MaxMemory]'', ''2000 '']))) ''[MaxMemory]''
     = Some [''2000 '']"
  by code_simp+

lemma number_20000: "is_number 10 ''20000''" "digits_value 10 ''20000'' = 20000"
  "\<not> is_number 10 ''2000 ''"
  by (simp_all add: digits_value_def is_number_def is_digit_of_def char_val_def less_eq_char_def)

lemma readConfigFile_memory_witness:
  "let text = print_lines [''[MaxMemory]'', ''# MB'', ''20000'']
   in map_sum id MaxMemory
        (readConfigFile (\<lambda>n. if n = ''/bin/zapccs.config'' then Some text else None) 7 ''/bin/zapccs'') = Inr 16384"
  using readConfigFile_memory[of "\<lambda>n. if n = ''/bin/zapccs.config''
      then Some (print_lines [''[MaxMemory]'', ''# MB'', ''20000'']) else None" "''/bin/zapccs''"
      "print_lines [''[MaxMemory]'', ''# MB'', ''20000'']" "''20000''" 7]
  by (simp add: readConfigFile_witness_file number_20000)

lemma readConfigFile_not_a_number_witness:
  "let text = print_lines [''[MaxMemory]'', ''2000 '']
   in map_sum id MaxMemory
        (readConfigFile (\<lambda>n. if n = ''/bin/zapccs.config'' then Some text else None) 5 ''/bin/zapccs'') = Inr 5"
  using readConfigFile_not_a_number[of "\<lambda>n. if n = ''/bin/zapccs.config''
      then Some (print_lines [''[MaxMemory]'', ''2000 '']) else None" "''/bin/zapccs''"
      "print_lines [''[MaxMemory]'', ''2000 '']" "''2000 ''" 5]
  by (simp add: readConfigFile_witness_file number_20000)

end
