(* ===== verification/Options.thy ===== *)
theory Options
  imports Paths
begin

text \<open>
  Command line options shared by client and server: \<^verbatim>\<open>tools/zapccs/StringConst.cpp\<close>,
  \<^verbatim>\<open>FindOption.cpp\<close> and \<^verbatim>\<open>CommandLine.cpp\<close>, the choice between the caching server and the plain
  compiler in \<^verbatim>\<open>tools/zapcc/zapcc1_main.cpp\<close>, and \<^verbatim>\<open>FindBaseName.cpp\<close>. An \<^verbatim>\<open>int\<close> is a
  32-bit word read signed; the arguments are the list of their strings.
\<close>

subsection \<open>Switches\<close>

definition ServerIdSwitch :: string where "ServerIdSwitch = ''-serverid''"
definition DebugOnlySwitch :: string where "DebugOnlySwitch = ''-debug-only=''"
definition DebugSwitch :: string where "DebugSwitch = ''-debug''"
definition DebugTimeSwitch :: string where "DebugTimeSwitch = ''-time''"
definition ResetSwitch :: string where "ResetSwitch = ''-reset-server''"
definition PrintCommandsSwitch :: string where "PrintCommandsSwitch = ''-commands''"
definition SemaphorePrefix :: string where "SemaphorePrefix = ''/tmp/zapcc''"
definition macroUndefined :: string where "macroUndefined = ''(undefined)''"

lemmas switches = ServerIdSwitch_def DebugOnlySwitch_def DebugSwitch_def DebugTimeSwitch_def
  ResetSwitch_def PrintCommandsSwitch_def SemaphorePrefix_def

subsection \<open>Finding an option\<close>

definition findOption :: "string list \<Rightarrow> string \<Rightarrow> int" where
  "findOption argv opt = (case scan (\<lambda>s. s = opt) 0 argv of None \<Rightarrow> -1 | Some i \<Rightarrow> int i)"

datatype option_message = IllegalIndex | InvalidServerId string

text \<open>The value of a server id option: a negative result is an error. \<open>v0\<close> is the uninitialised variable.\<close>

definition getIntOption :: "32 word \<Rightarrow> string list \<Rightarrow> int \<Rightarrow> int \<times> option_message list" where
  "getIntOption v0 argv index =
     (if index < 0 \<or> index \<ge> int (length argv) then (-1, [IllegalIndex])
      else let value = argv ! nat index; (err, v) = getAsInteger_int value 10 v0
           in if err then (-1, [InvalidServerId value]) else (sint v, []))"

subsection \<open>Debug flags\<close>

definition debugFlagType :: "string \<Rightarrow> bool" where
  "debugFlagType arg \<longleftrightarrow>
     arg = DebugSwitch \<or> sr_startswith arg DebugOnlySwitch \<or> arg = DebugTimeSwitch"

text \<open>
  The arguments \<^verbatim>\<open>parseDebugFlags\<close> hands to the option parser of LLVM, \<open>None\<close> when it does
  not call it. The empty first argument stands for the program name.
\<close>

definition parseDebugFlags :: "string list \<Rightarrow> string list option" where
  "parseDebugFlags argv =
     (let debug_argv = [] # filter debugFlagType argv
      in if length debug_argv < 2 then None else Some debug_argv)"

subsection \<open>Caching server or plain compiler\<close>

definition forces_clang :: "string \<Rightarrow> bool" where
  "forces_clang arg \<longleftrightarrow>
     arg = ''-'' \<or> arg = ''-emit-pch'' \<or> arg = ''-emit-pth'' \<or> arg = ''-fmodules'' \<or>
     arg = ''-fdump-record-layouts-simple'' \<or> sr_startswith arg ''-E'' \<or>
     sr_startswith arg ''-fsanitize'' \<or> sr_startswith arg ''conftest'' \<or>
     sr_endswith arg ''.c'' \<or> sr_endswith arg ''.m''"

text \<open>A null argument is \<open>None\<close>; the two flags are \<^verbatim>\<open>Assembly\<close> and \<^verbatim>\<open>EmitLLVM\<close>.\<close>

fun useClang_loop :: "bool \<Rightarrow> bool \<Rightarrow> string option list \<Rightarrow> bool" where
  "useClang_loop assembly emit_llvm [] = (assembly \<and> \<not> emit_llvm)"
| "useClang_loop assembly emit_llvm (None # argv) = useClang_loop assembly emit_llvm argv"
| "useClang_loop assembly emit_llvm (Some arg # argv) =
     (if forces_clang arg then True
      else if arg = ''-S'' then useClang_loop True emit_llvm argv
      else if arg = ''-emit-llvm'' then useClang_loop assembly True argv
      else useClang_loop assembly emit_llvm argv)"

definition useClang :: "string option list \<Rightarrow> bool" where
  "useClang argv = useClang_loop False False argv"

text \<open>
  \<open>send\<close> is the exit code of \<^verbatim>\<open>startServerAndSend\<close>, \<open>cc1\<close> that of clang's \<^verbatim>\<open>cc1_main\<close>.
  The second component tells whether the server was asked.
\<close>

definition cc1_selector :: "(string option list \<Rightarrow> int) \<Rightarrow> (string option list \<Rightarrow> int) \<Rightarrow>
    string option list \<Rightarrow> int \<times> bool" where
  "cc1_selector send cc1 argv =
     (if \<not> useClang argv
      then let ret = send argv in if ret = 0 \<or> ret = 1 then (ret, True) else (cc1 argv, True)
      else (cc1 argv, False))"

lemma useClang_loop_iff:
  "useClang_loop a e argv \<longleftrightarrow>
     (\<exists>arg. Some arg \<in> set argv \<and> forces_clang arg) \<or>
     ((a \<or> Some ''-S'' \<in> set argv) \<and> \<not> (e \<or> Some ''-emit-llvm'' \<in> set argv))"
proof (induction a e argv rule: useClang_loop.induct)
  case (3 a e arg argv)
  have nf: "\<not> forces_clang ''-S''" "\<not> forces_clang ''-emit-llvm''"
    by (simp_all add: forces_clang_def suffix_def)
  show ?case using 3 nf by (cases "forces_clang arg"; cases "arg = ''-S''"; cases "arg = ''-emit-llvm''") auto
qed auto

text \<open>
  the plain compiler is chosen exactly when some argument forces it, or when
  assembly is asked for without LLVM output; and it then runs without the server being asked. When
  the server is asked, its exit codes 0 and 1 are final and every other one falls back to the plain
  compiler.
\<close>

theorem cc1_selector_chooses:
  "cc1_selector send cc1 argv =
     (if (\<exists>arg. Some arg \<in> set argv \<and> forces_clang arg) \<or>
         (Some ''-S'' \<in> set argv \<and> Some ''-emit-llvm'' \<notin> set argv)
      then (cc1 argv, False)
      else if send argv \<in> {0, 1} then (send argv, True) else (cc1 argv, True))"
  by (auto simp: cc1_selector_def useClang_def useClang_loop_iff Let_def)

subsection \<open>Base names\<close>

text \<open>
  \<^verbatim>\<open>findBaseName\<close>: the pointer starts at the terminating zero and stops at the first byte, which
  it does not examine.
\<close>

fun base_name_from :: "string \<Rightarrow> nat \<Rightarrow> nat" where
  "base_name_from name 0 = 0"
| "base_name_from name (Suc i) =
     (if Suc i < length name \<and> (name ! Suc i = CHR 0x5C \<or> name ! Suc i = CHR ''/'') then Suc (Suc i)
      else base_name_from name i)"

definition findBaseName :: "string \<Rightarrow> string" where
  "findBaseName full = drop (base_name_from full (length full)) full"

abbreviation is_dir_sep :: "char \<Rightarrow> bool" where
  "is_dir_sep c \<equiv> c = CHR 0x5C \<or> c = CHR ''/''"

lemma base_name_from_spec:
  assumes "\<not> is_dir_sep c"
  shows "drop (base_name_from (c # s) n) (c # s) =
    (case rscan is_dir_sep (c # s) (min (Suc n) (Suc (length s))) of None \<Rightarrow> c # s | Some i \<Rightarrow> drop i s)"
proof (induction n)
  case 0
  then show ?case using assms by simp
next
  case (Suc n)
  show ?case
  proof (cases "Suc n < length (c # s)")
    case True
    then have "min (Suc (Suc n)) (Suc (length s)) = Suc (Suc n)" "min (Suc n) (Suc (length s)) = Suc n" by auto
    with Suc True show ?thesis by simp
  next
    case False
    then have "min (Suc (Suc n)) (Suc (length s)) = min (Suc n) (Suc (length s))" by auto
    with Suc False show ?thesis by simp
  qed
qed

text \<open>
  Of a name that does not begin with a directory separator, the base name is what
  follows the last one, and the whole name when there is none.
\<close>

theorem findBaseName_last_separator:
  assumes "full = [] \<or> \<not> is_dir_sep (hd full)"
  shows "findBaseName full =
    (case rscan is_dir_sep full (length full) of None \<Rightarrow> full | Some i \<Rightarrow> drop (Suc i) full)"
  using assms base_name_from_spec[of "hd full" "tl full" "length full"]
  by (cases full) (auto simp: findBaseName_def split: option.split)

lemma findBaseName_last_separator_witness: "findBaseName ''bin/zapccs'' = ''zapccs''"
  using findBaseName_last_separator[of "''bin/zapccs''"] by simp

text \<open>
  A file directly in the root keeps its separator, because the loop does not examine the
  first byte.
\<close>

theorem findBaseName_root_file:
  "findBaseName ''/zapccs'' = ''/zapccs'' \<and> findBaseName ''/bin/zapccs'' = ''zapccs''"
  by code_simp

end
