(* ===== verification/Compiler.thy ===== *)
theory Compiler
  imports Config Options
begin

text \<open>
  The caching compiler: \<^verbatim>\<open>tools/zapccs/CachingCompiler.cpp\<close> and the driver part of
  \<^verbatim>\<open>Unload.cpp\<close>. What clang does to its own state is a parameter: a record of functions over a
  type of compiler instances, which also holds the dependency map and the pass manager that
  \<^verbatim>\<open>reset\<close> throws away with it. The state machine around it is modelled: the fresh instance,
  the buffered diagnostics, the commands file, the time of the last success. The build is one with
  assertions; what it prints besides diagnostics is left out.
\<close>

subsection \<open>Clang as a parameter\<close>

text \<open>
  \<open>create_from_args\<close> and \<open>execute\<close> return success, the diagnostics text they write, and the
  instance afterwards. \<open>temp_file\<close> is the outcome of creating the commands file, and
  \<open>can_append\<close> says whether a file opens for appending.
\<close>

record 'ci clang =
  new_instance :: 'ci
  create_from_args :: "'ci \<Rightarrow> string list \<Rightarrow> bool \<times> string \<times> 'ci"
  init_instance :: "'ci \<Rightarrow> 'ci"
  execute :: "'ci \<Rightarrow> bool \<times> string \<times> 'ci"
  has_source_manager :: "'ci \<Rightarrow> bool"
  has_preprocessor :: "'ci \<Rightarrow> bool"
  has_sema :: "'ci \<Rightarrow> bool"
  find_modified_files :: "'ci \<Rightarrow> 'ci"
  clear_live_decls :: "'ci \<Rightarrow> 'ci"
  update_map :: "'ci \<Rightarrow> 'ci"
  collect_users :: "'ci \<Rightarrow> 'ci"
  unload_users :: "'ci \<Rightarrow> 'ci"
  memory_usage :: "'ci \<Rightarrow> 32 word"
  temp_file :: "string option"
  can_append :: "string \<Rightarrow> bool"

record 'ci compiler =
  Instance :: 'ci
  Diags :: string
  PrintCommandsTxt :: bool
  CommandsTxtName :: string
  CommandsTxt :: string \<comment> \<open>the content of the commands file\<close>
  LastCompileEndTime :: nat
  MemoryLimit :: "32 word"

subsection \<open>Operations\<close>

definition reset_compiler :: "'ci clang \<Rightarrow> 'ci compiler \<Rightarrow> 'ci compiler" where
  "reset_compiler env cc =
     cc\<lparr>CommandsTxtName := [], Instance := new_instance env, LastCompileEndTime := 0\<rparr>"

definition new_compiler :: "'ci clang \<Rightarrow> bool \<Rightarrow> 32 word \<Rightarrow> 'ci compiler" where
  "new_compiler env commands limit =
     reset_compiler env \<lparr>Instance = new_instance env, Diags = [], PrintCommandsTxt = commands,
       CommandsTxtName = [], CommandsTxt = [], LastCompileEndTime = 0, MemoryLimit = limit\<rparr>"

text \<open>The block that writes the commands file; false when it cannot.\<close>

definition log_commands ::
    "'ci clang \<Rightarrow> string \<Rightarrow> string list \<Rightarrow> 'ci compiler \<Rightarrow> bool \<times> 'ci compiler" where
  "log_commands env working_dir argv cc =
     (if \<not> PrintCommandsTxt cc then (True, cc)
      else
        let created = (CommandsTxtName cc = []);
            cc' = (if created
                   then (case temp_file env of None \<Rightarrow> cc
                         | Some n \<Rightarrow> cc\<lparr>CommandsTxtName := n, CommandsTxt := []\<rparr>)
                   else cc)
        in if created \<and> temp_file env = None then (False, cc')
           else if \<not> can_append env (CommandsTxtName cc') then (False, cc')
           else (True, cc'\<lparr>CommandsTxt := CommandsTxt cc' @ working_dir @ [newline] @
                    concat (map (\<lambda>a. a @ [newline]) argv) @ [newline]\<rparr>))"

text \<open>\<^verbatim>\<open>CachingCompiler::unload\<close>; \<open>now\<close> is the clock, in seconds.\<close>

definition unload :: "'ci clang \<Rightarrow> nat \<Rightarrow> 'ci compiler \<Rightarrow> 'ci compiler" where
  "unload env now cc =
     (if \<not> has_sema env (Instance cc) then cc
      else let ci = (if LastCompileEndTime cc \<noteq> 0 \<and> now > LastCompileEndTime cc + 2
                     then find_modified_files env (Instance cc) else Instance cc)
           in cc\<lparr>Instance := unload_users env (collect_users env (update_map env (clear_live_decls env ci)))\<rparr>)"

definition compile ::
    "'ci clang \<Rightarrow> nat \<Rightarrow> string \<Rightarrow> string list \<Rightarrow> 'ci compiler \<Rightarrow> bool \<times> 'ci compiler" where
  "compile env now working_dir argv cc0 =
     (let (ok, cc1) = log_commands env working_dir argv cc0
      in if \<not> ok then (False, cc1)
         else let (success, d, ci) = create_from_args env (Instance cc1) argv;
                  cc2 = cc1\<lparr>Instance := ci, Diags := Diags cc1 @ d\<rparr>
              in if \<not> success then (False, cc2)
                 else let cc3 = (if \<not> has_source_manager env ci
                                 then cc2\<lparr>Instance := init_instance env ci\<rparr> else cc2);
                          cc4 = unload env now cc3;
                          (run_ok, d', ci') = execute env (Instance cc4);
                          cc5 = cc4\<lparr>Instance := ci', Diags := Diags cc4 @ d'\<rparr>
                      in if \<not> run_ok then (False, cc5)
                         else if \<not> has_source_manager env ci' \<or> \<not> has_preprocessor env ci'
                           then (False, cc5)
                         else (True, cc5\<lparr>LastCompileEndTime := now\<rparr>))"

definition isOutOfMemory :: "'ci clang \<Rightarrow> 'ci compiler \<Rightarrow> bool" where
  "isOutOfMemory env cc \<longleftrightarrow> memory_usage env (Instance cc) > MemoryLimit cc"

text \<open>What \<^verbatim>\<open>printDiags\<close> writes to the error stream.\<close>

definition suppressed_banner :: string where
  "suppressed_banner = ''==== Suppressed diagnostics ========================='' @ [newline]"

definition suppressed_end :: string where
  "suppressed_end = ''====================================================='' @ [newline]"

definition printDiags :: "bool \<Rightarrow> 'ci compiler \<Rightarrow> string" where
  "printDiags always cc =
     (let d = Diags cc
      in if always then d
         else if d = [] then []
         else case sr_find d ''when including'' 0 of
                Some macro_error \<Rightarrow> ''note: '' @ sr_substr d macro_error None
              | None \<Rightarrow> suppressed_banner @ d @ suppressed_end)"

definition clearDiags :: "'ci compiler \<Rightarrow> 'ci compiler" where
  "clearDiags cc = cc\<lparr>Diags := []\<rparr>"

subsection \<open>What a compilation depends on\<close>

text \<open>
  Two compilers are as good as fresh to clang when they agree on the instance and on the time of
  the last success; then a compilation gives the same result and the same new diagnostics.
\<close>

definition same_cache :: "'ci compiler \<Rightarrow> 'ci compiler \<Rightarrow> bool" where
  "same_cache a b \<longleftrightarrow> Instance a = Instance b \<and> LastCompileEndTime a = LastCompileEndTime b"

definition quiet :: "'ci compiler \<Rightarrow> bool" where
  "quiet cc \<longleftrightarrow> \<not> PrintCommandsTxt cc \<and> Diags cc = []"

lemma log_commands_quiet: "\<not> PrintCommandsTxt cc \<Longrightarrow> log_commands env wd argv cc = (True, cc)"
  by (simp add: log_commands_def)

lemma unload_same_cache:
  "same_cache a b \<Longrightarrow> same_cache (unload env now a) (unload env now b)"
  by (simp add: same_cache_def unload_def Let_def)

lemma compile_same_cache:
  assumes "same_cache a b" "\<not> PrintCommandsTxt a" "\<not> PrintCommandsTxt b"
  shows "fst (compile env now wd argv a) = fst (compile env now wd argv b)"
proof -
  obtain s d ci where c: "create_from_args env (Instance b) argv = (s, d, ci)"
    by (cases "create_from_args env (Instance b) argv")
  define start where "start cc = (let cc2 = cc\<lparr>Instance := ci, Diags := Diags cc @ d\<rparr>
    in if \<not> has_source_manager env ci then cc2\<lparr>Instance := init_instance env ci\<rparr> else cc2)"
    for cc :: "'a compiler"
  have "same_cache (start a) (start b)"
    using assms(1) by (simp add: same_cache_def start_def Let_def)
  then have u: "Instance (unload env now (start a)) = Instance (unload env now (start b))"
    using unload_same_cache by (auto simp: same_cache_def)
  obtain r d' ci' where e: "execute env (Instance (unload env now (start b))) = (r, d', ci')"
    by (cases "execute env (Instance (unload env now (start b)))")
  have "compile env now wd argv cc =
      (if \<not> s then (False, cc\<lparr>Instance := ci, Diags := Diags cc @ d\<rparr>)
       else let cc4 = unload env now (start cc); cc5 = cc4\<lparr>Instance := ci', Diags := Diags cc4 @ d'\<rparr>
            in if \<not> r then (False, cc5)
               else if \<not> has_source_manager env ci' \<or> \<not> has_preprocessor env ci' then (False, cc5)
               else (True, cc5\<lparr>LastCompileEndTime := now\<rparr>))"
    if "\<not> PrintCommandsTxt cc" "Instance cc = Instance b"
      "Instance (unload env now (start cc)) = Instance (unload env now (start b))" for cc
    using that c e unfolding compile_def log_commands_quiet[OF that(1)] start_def
    by (simp only: Let_def case_prod_conv simp_thms if_True if_False)
  from this[of a] this[of b] assms u show ?thesis
    by (simp add: same_cache_def Let_def)
qed

lemma compile_LastCompileEndTime:
  "compile env now wd argv cc = (True, cc') \<Longrightarrow> LastCompileEndTime cc' = now \<and>
     has_source_manager env (Instance cc') \<and> has_preprocessor env (Instance cc')"
  by (auto simp: compile_def Let_def split: prod.splits if_splits)

lemma compile_PrintCommandsTxt:
  "compile env now wd argv cc = (ok, cc') \<Longrightarrow> PrintCommandsTxt cc' = PrintCommandsTxt cc \<and>
     MemoryLimit cc' = MemoryLimit cc"
  by (auto simp: compile_def log_commands_def unload_def Let_def split: prod.splits if_splits option.splits)

end
