(* ===== verification/ServerLoop.thy ===== *)
theory ServerLoop
  imports Compiler
begin

text \<open>
  The server: \<^verbatim>\<open>tools/zapccs/ZapccsMain.cpp\<close>. A request is the lines a client sent; the state
  kept between requests is the history of the arguments and the caching compiler. Changing the
  directory is a parameter: \<open>None\<close> when it fails, else the current directory afterwards.
\<close>

subsection \<open>Arguments that do not matter\<close>

definition ignored_value_args :: "string list" where
  "ignored_value_args = [''-o'', ''-D'', ''-main-file-name'', ''-I'', ''-include'', ''-isystem'',
     ''-iquote'', ''-coverage-file'', ''-coverage-notes-file'', ''-internal-isystem'',
     ''-internal-externc-isystem'', ''-dependency-file'', ''-fdebug-compilation-dir'',
     ''-fmessage-length'', ''-include-pch'', ''-MT'', ''-MQ'', ServerIdSwitch]"

definition isIgnoredValueArg :: "string \<Rightarrow> bool" where
  "isIgnoredValueArg arg \<longleftrightarrow> arg \<in> set ignored_value_args"

definition ignored_args :: "string list" where
  "ignored_args = [''-fcolor-diagnostics'', ''-fconst-strings'', ''-fcxx-exceptions'',
     ''-fdiagnostics-show-option'', ''-fdeprecated-macro'', ''-fexceptions'', ''-fno-common'',
     ''-fwritable-strings'', ''-MP'', ''-nostdinc++'', ''-pedantic'', ''-pedantic-errors'', ''-w'',
     ''-sys-header-deps'', ''-v'', DebugSwitch]"

definition isIgnoredArg :: "string \<Rightarrow> bool" where
  "isIgnoredArg arg \<longleftrightarrow> arg \<in> set ignored_args \<or> sr_startswith arg ''-emit-llvm'' \<or>
     sr_startswith arg DebugOnlySwitch \<or> sr_startswith arg ''-W''"

text \<open>The next argument that matters, from position \<open>i\<close>, and the position after it; empty at the end.\<close>

function getNextArg :: "string list \<Rightarrow> nat \<Rightarrow> nat \<Rightarrow> string \<times> nat" where
  "getNextArg args i file_index =
     (if i < length args
      then if i = file_index then getNextArg args (Suc i) file_index
           else if isIgnoredValueArg (args ! i) then getNextArg args (Suc (Suc i)) file_index
           else if isIgnoredArg (args ! i) then getNextArg args (Suc i) file_index
           else (args ! i, Suc i)
      else ([], i))"
  by pat_completeness auto
termination
  by (relation "measure (\<lambda>(args, i, f). length args - i)") auto

declare getNextArg.simps [simp del]

subsection \<open>The history of arguments\<close>

record args_history =
  PreviousArgs :: "string list"
  CurrentArgs :: "string list"
  PreviousFileNameIndex :: nat
  CurrentFileNameIndex :: nat
  CurPath :: string

definition new_history :: "string \<Rightarrow> args_history" where
  "new_history current_path = \<lparr>PreviousArgs = [], CurrentArgs = [], PreviousFileNameIndex = 0,
     CurrentFileNameIndex = 0, CurPath = current_path\<rparr>"

definition ah_push_back :: "string \<Rightarrow> args_history \<Rightarrow> args_history" where
  "ah_push_back arg h = h\<lparr>CurrentArgs := CurrentArgs h @ [arg]\<rparr>"

definition markFileName :: "args_history \<Rightarrow> args_history" where
  "markFileName h = h\<lparr>CurrentFileNameIndex := length (CurrentArgs h)\<rparr>"

definition getFileName :: "args_history \<Rightarrow> string" where
  "getFileName h =
     (if CurrentFileNameIndex h = 0 then ''-'' else CurrentArgs h ! CurrentFileNameIndex h)"

definition makeFileNameAbsolute :: "string \<Rightarrow> args_history \<Rightarrow> args_history" where
  "makeFileNameAbsolute cwd h =
     (if getFileName h = ''-'' then h
      else h\<lparr>CurrentArgs := (CurrentArgs h)[CurrentFileNameIndex h := make_absolute cwd (getFileName h) Native]\<rparr>)"

lemma getNextArg_advance:
  "getNextArg args i f = (a, j) \<Longrightarrow> a \<noteq> [] \<Longrightarrow> i < j \<and> i < length args"
proof (induction args i f rule: getNextArg.induct)
  case (1 args i f)
  show ?case
  proof (cases "i < length args \<and> (i = f \<or> isIgnoredValueArg (args ! i) \<or> isIgnoredArg (args ! i))")
    case True
    with 1 show ?thesis by (subst (asm) (4) getNextArg.simps) (auto split: if_splits)
  next
    case False
    with "1.prems" show ?thesis by (auto simp: getNextArg.simps[of args i f] split: if_splits)
  qed
qed

function changed_loop :: "string list \<Rightarrow> nat \<Rightarrow> string list \<Rightarrow> nat \<Rightarrow> nat \<Rightarrow> nat \<Rightarrow> bool" where
  "changed_loop prev pfile cur cfile i j =
     (let (p, i') = getNextArg prev i pfile; (c, j') = getNextArg cur j cfile
      in if p = c then if p = [] then False else changed_loop prev pfile cur cfile i' j'
         else True)"
  by pat_completeness auto
termination
  by (relation "measure (\<lambda>(prev, pfile, cur, cfile, i, j). length prev - i)")
    (auto dest: getNextArg_advance[OF sym])

declare changed_loop.simps [simp del]

definition changed :: "args_history \<Rightarrow> bool" where
  "changed h =
     (if PreviousArgs h = [] \<or> CurrentArgs h = [] then False
      else changed_loop (PreviousArgs h) (PreviousFileNameIndex h) (CurrentArgs h)
             (CurrentFileNameIndex h) 0 0)"

definition ah_clear :: "bool \<Rightarrow> args_history \<Rightarrow> args_history" where
  "ah_clear reset h =
     (if reset then h\<lparr>PreviousArgs := [], PreviousFileNameIndex := 0, CurrentArgs := [], CurrentFileNameIndex := 0\<rparr>
      else h\<lparr>PreviousArgs := CurrentArgs h, PreviousFileNameIndex := CurrentFileNameIndex h,
             CurrentArgs := [], CurrentFileNameIndex := 0\<rparr>)"

definition isFirstRun :: "args_history \<Rightarrow> bool" where
  "isFirstRun h = (PreviousArgs h = [])"

subsection \<open>Performing a request\<close>

definition nextArgNotInput :: "string \<Rightarrow> bool" where
  "nextArgNotInput arg \<longleftrightarrow>
     arg \<in> set [''-internal-isystem'', ''-o'', ''-I'', ''-x'', ''-coverage-file'',
       ''-internal-externc-isystem'', ''-main-file-name'', ''-target-abi'', ''-target-feature'',
       ''-triple'', ''-ferror-limit'', ''-fmessage-length'', ''-ftype-visibility'', ''-fvisibility'']"

text \<open>The state of the loop over the arguments: the flags \<^verbatim>\<open>ResetFlag\<close>, \<^verbatim>\<open>SkipNextArg\<close>, \<^verbatim>\<open>NextArgNotInput\<close>.\<close>

record arg_flags =
  ResetFlag :: bool
  SkipNextArg :: bool
  NextArgNotInput :: bool

definition take_arg :: "arg_flags \<times> args_history \<Rightarrow> string \<Rightarrow> arg_flags \<times> args_history" where
  "take_arg st arg =
     (let (f, h) = st
      in if SkipNextArg f then (f\<lparr>SkipNextArg := False\<rparr>, h)
         else if arg = ResetSwitch then (f\<lparr>ResetFlag := True\<rparr>, ah_push_back arg h)
         else if arg = ''-include-pch'' \<or> arg = ''-include-pth'' \<or> sr_startswith arg ''-stack-protector''
           then (f\<lparr>SkipNextArg := True\<rparr>, h)
         else if arg = ''c++-cpp-output'' then (f, ah_push_back ''c++'' h)
         else if nextArgNotInput arg then (f\<lparr>NextArgNotInput := True\<rparr>, ah_push_back arg h)
         else if NextArgNotInput f then (f\<lparr>NextArgNotInput := False\<rparr>, ah_push_back arg h)
         else if hd arg \<noteq> CHR ''-'' then (f, ah_push_back arg (markFileName h))
         else (f, ah_push_back arg h))"

definition take_args :: "string list \<Rightarrow> args_history \<Rightarrow> bool \<times> args_history" where
  "take_args args h =
     (let (f, h') = foldl take_arg (\<lparr>ResetFlag = False, SkipNextArg = False, NextArgNotInput = False\<rparr>, h) args
      in (ResetFlag f, h'))"

text \<open>The arguments of a request: the lines up to an empty one, a leading dollar replaced.\<close>

definition read_args :: "string \<Rightarrow> string list \<Rightarrow> string list" where
  "read_args cur_path ls =
     map (\<lambda>a. if hd a = CHR ''$'' then cur_path @ tl a else a) (takeWhile (\<lambda>a. a \<noteq> []) ls)"

record 'ci server =
  History :: args_history
  Compiler :: "'ci compiler"

text \<open>
  \<open>performCompile\<close> on the lines of a request: the exit code, what is written to the error stream,
  the new state. The exit codes are 0 success, 1 failure, 2 compile with clang.
\<close>

definition run_compile ::
    "'ci clang \<Rightarrow> nat \<Rightarrow> string \<Rightarrow> string \<Rightarrow> 'ci server \<Rightarrow> bool \<times> string \<times> 'ci server" where
  "run_compile env now wd cwd s =
     (let h = History s;
          cc = (if changed h then reset_compiler env (Compiler s) else Compiler s);
          h' = makeFileNameAbsolute cwd h;
          argv = CurrentArgs h';
          (ok, cc1) = compile env now wd argv cc;
          retry = (\<not> ok \<and> \<not> isFirstRun h' \<and> getFileName h' \<noteq> ''-'');
          (ok', err, cc2) =
            (if retry
             then let (ok', cc2) = compile env now wd argv (reset_compiler env (clearDiags cc1))
                  in (ok', printDiags False cc1, cc2)
             else (ok, [], cc1))
      in (ok', err @ printDiags True cc2, \<lparr>History = h', Compiler = clearDiags cc2\<rparr>))"

definition performCompile ::
    "'ci clang \<Rightarrow> (string \<Rightarrow> string option) \<Rightarrow> unload_selector \<Rightarrow> nat \<Rightarrow> string list \<Rightarrow> 'ci server \<Rightarrow>
     nat \<times> string \<times> 'ci server" where
  "performCompile env chdir us now ls s =
     (case ls of
        [] \<Rightarrow> (0, [], s)
      | wd # rest \<Rightarrow>
          case chdir wd of
            None \<Rightarrow> (1, ''Could not change directory to '' @ wd, s)
          | Some cwd \<Rightarrow>
              let args = read_args (CurPath (History s)) rest
              in if args \<noteq> [] \<and> isDoNotZap us (make_absolute cwd (last args) Native) then (2, [], s)
                 else let (reset, h) = take_args args (History s)
                      in if reset
                         then (0, [], \<lparr>History = ah_clear True h, Compiler = reset_compiler env (Compiler s)\<rparr>)
                         else let (ok, err, s') = run_compile env now wd cwd (s\<lparr>History := h\<rparr>)
                              in (if ok then 0 else 1, err, s'\<lparr>History := ah_clear False (History s')\<rparr>))"

subsection \<open>The server loop\<close>

text \<open>
  One connection: whether the previous one could be closed, whether this one was accepted, the
  lines received, the clock, whether the directory of the binary can be entered again, and whether
  the exit code can be written. The loop ends with a result, or is still waiting when the
  connections of the list are used up: \<open>None\<close>.
\<close>

record connection =
  Disconnected :: bool
  Connected :: bool
  Received :: "string list"
  Clock :: nat
  BinDirEntered :: bool
  ExitCodeWritten :: bool

fun serve ::
    "'ci clang \<Rightarrow> (string \<Rightarrow> string option) \<Rightarrow> unload_selector \<Rightarrow> bool \<Rightarrow> connection list \<Rightarrow> 'ci server \<Rightarrow>
     bool option \<times> nat list \<times> 'ci server" where
  "serve env chdir us first_run [] s = (None, [], s)"
| "serve env chdir us first_run (c # cs) s =
     (if \<not> first_run \<and> \<not> Disconnected c then (Some False, [], s)
      else if \<not> Connected c then (Some False, [], s)
      else let (code, err, s') = performCompile env chdir us (Clock c) (Received c) s
           in if \<not> BinDirEntered c then (Some False, [], s')
              else let oom = isOutOfMemory env (Compiler s');
                       success = (code \<noteq> 1 \<and> ExitCodeWritten c);
                       sent = (if ExitCodeWritten c then [code] else [])
                   in if success \<and> \<not> oom
                      then let (r, codes, s'') = serve env chdir us False cs s'
                           in (r, sent @ codes, s'')
                      else (Some success, sent, s'))"

definition runServerMode ::
    "'ci clang \<Rightarrow> (string \<Rightarrow> string option) \<Rightarrow> unload_selector \<Rightarrow> string \<Rightarrow> connection list \<Rightarrow>
     'ci compiler \<Rightarrow> bool option \<times> nat list \<times> 'ci server" where
  "runServerMode env chdir us current_path cs cc =
     serve env chdir us True cs \<lparr>History = new_history current_path, Compiler = cc\<rparr>"

text \<open>
  \<^verbatim>\<open>runCommandFileMode\<close>: requests one after the other from the lines of a file. The end of the file
  is seen when the lines of a request run out before an empty one. Every exit code but 0 stops it.
\<close>

lemma rest_shorter: "ls \<noteq> [] \<Longrightarrow> length (tl (dropWhile P (tl ls))) < length ls"
  using length_dropWhile_le[of P "tl ls"] by (cases ls) auto

function command_loop ::
    "'ci clang \<Rightarrow> (string \<Rightarrow> string option) \<Rightarrow> unload_selector \<Rightarrow> nat \<Rightarrow> string list \<Rightarrow> 'ci server \<Rightarrow>
     bool \<times> 'ci server" where
  "command_loop env chdir us now ls s =
     (let (code, err, s') = performCompile env chdir us now ls s;
          success = (code = 0);
          at_end = ([] \<notin> set (tl ls))
      in if success \<and> ls \<noteq> [] \<and> \<not> at_end
         then command_loop env chdir us now (tl (dropWhile (\<lambda>a. a \<noteq> []) (tl ls))) s'
         else (success, s'))"
  by pat_completeness auto
termination
  by (relation "measure (\<lambda>(env, chdir, us, now, ls, s). length ls)") (use rest_shorter in auto)

declare command_loop.simps [simp del]

definition runCommandFileMode ::
    "'ci clang \<Rightarrow> (string \<Rightarrow> string option) \<Rightarrow> unload_selector \<Rightarrow> nat \<Rightarrow> string option \<Rightarrow> string \<Rightarrow>
     'ci compiler \<Rightarrow> bool" where
  "runCommandFileMode env chdir us now file current_path cc =
     (case file of
        None \<Rightarrow> False
      | Some text \<Rightarrow> fst (command_loop env chdir us now (getlines text)
                      \<lparr>History = new_history current_path, Compiler = cc\<rparr>))"

subsection \<open>When the arguments have changed\<close>

text \<open>
  The arguments that matter, as a function on the list: the file name, the ignored arguments and
  the ignored options with their values are left out.
\<close>

fun significant :: "nat \<Rightarrow> nat \<Rightarrow> string list \<Rightarrow> string list" where
  "significant f i [] = []"
| "significant f i (a # as) =
     (if i = f then significant f (Suc i) as
      else if isIgnoredValueArg a
        then (case as of [] \<Rightarrow> [] | b # bs \<Rightarrow> significant f (Suc (Suc i)) bs)
      else if isIgnoredArg a then significant f (Suc i) as
      else a # significant f (Suc i) as)"

lemma getNextArg_significant:
  assumes "[] \<notin> set args"
  shows "significant f i (drop i args) =
    (let (a, j) = getNextArg args i f in if a = [] then [] else a # significant f j (drop j args))"
  using assms
proof (induction args i f rule: getNextArg.induct)
  case (1 args i f)
  show ?case
  proof (cases "i < length args")
    case False
    then show ?thesis by (simp add: getNextArg.simps[of args i f])
  next
    case True
    then have d: "drop i args = args ! i # drop (Suc i) args" by (simp add: Cons_nth_drop_Suc)
    have ne: "args ! i \<noteq> []" using True "1.prems" by (metis nth_mem)
    have tl: "(case drop (Suc i) args of [] \<Rightarrow> [] | b # bs \<Rightarrow> significant f (Suc (Suc i)) bs)
        = significant f (Suc (Suc i)) (drop (Suc (Suc i)) args)"
    proof -
      have t: "drop (Suc (Suc i)) args = tl (drop (Suc i) args)"
        by (simp only: drop_Suc[of "Suc i"] tl_drop)
      show ?thesis unfolding t by (cases "drop (Suc i) args") simp_all
    qed
    consider (named) "i = f" | (valued) "i \<noteq> f" "isIgnoredValueArg (args ! i)"
      | (ignored) "i \<noteq> f" "\<not> isIgnoredValueArg (args ! i)" "isIgnoredArg (args ! i)"
      | (taken) "i \<noteq> f" "\<not> isIgnoredValueArg (args ! i)" "\<not> isIgnoredArg (args ! i)" by blast
    then show ?thesis
    proof cases
      case named
      then show ?thesis using "1.IH"(1)[OF True _ "1.prems"] True d
        by (simp add: getNextArg.simps[of args f f])
    next
      case valued
      then show ?thesis using "1.IH"(2)[OF True _ _ "1.prems"] True d tl
        by (simp add: getNextArg.simps[of args i f])
    next
      case ignored
      then show ?thesis using "1.IH"(3)[OF True _ _ _ "1.prems"] True d
        by (simp add: getNextArg.simps[of args i f])
    next
      case taken
      then show ?thesis using True d ne by (simp add: getNextArg.simps[of args i f])
    qed
  qed
qed

lemma changed_loop_significant:
  assumes "[] \<notin> set prev" "[] \<notin> set cur"
  shows "changed_loop prev pf cur cf i j \<longleftrightarrow>
    significant pf i (drop i prev) \<noteq> significant cf j (drop j cur)"
  using assms
proof (induction prev pf cur cf i j rule: changed_loop.induct)
  case (1 prev pf cur cf i j)
  obtain p i' where p: "getNextArg prev i pf = (p, i')" by fastforce
  obtain c j' where c: "getNextArg cur j cf = (c, j')" by fastforce
  note sp = getNextArg_significant[OF "1.prems"(1), of pf i, unfolded p Let_def prod.case]
  note sc = getNextArg_significant[OF "1.prems"(2), of cf j, unfolded c Let_def prod.case]
  show ?case
  proof (cases "p = c \<and> p \<noteq> []")
    case True
    then have "changed_loop prev pf cur cf i' j' \<longleftrightarrow>
        significant pf i' (drop i' prev) \<noteq> significant cf j' (drop j' cur)"
      using "1.IH"[OF p[symmetric] refl c[symmetric] refl _ _ "1.prems"] by blast
    then show ?thesis using True sp sc p c by (simp add: changed_loop.simps[of prev])
  next
    case False
    then show ?thesis using sp sc p c by (auto simp: changed_loop.simps[of prev])
  qed
qed

text \<open>
  C18 (equivalence): the cache is found stale exactly when there are arguments of both requests and
  the arguments that matter, in order, are not the same. No argument is empty, which reading a
  request ensures.
\<close>

theorem changed_iff_significant:
  assumes "[] \<notin> set (PreviousArgs h)" "[] \<notin> set (CurrentArgs h)"
  shows "changed h \<longleftrightarrow> PreviousArgs h \<noteq> [] \<and> CurrentArgs h \<noteq> [] \<and>
    significant (PreviousFileNameIndex h) 0 (PreviousArgs h) \<noteq>
    significant (CurrentFileNameIndex h) 0 (CurrentArgs h)"
  using changed_loop_significant[OF assms, of _ _ 0 0] by (simp add: changed_def)

lemma changed_iff_significant_witness:
  "let h = \<lparr>PreviousArgs = [''-cc1'', ''-O2'', ''-o'', ''a.o'', ''a.cpp''],
            CurrentArgs = [''-cc1'', ''-Wall'', ''-O2'', ''-o'', ''b.o'', ''b.cpp''],
            PreviousFileNameIndex = 4, CurrentFileNameIndex = 5, CurPath = ''/''\<rparr>
   in \<not> changed h \<and> changed (h\<lparr>CurrentArgs := [''-cc1'', ''-O1'', ''b.cpp''], CurrentFileNameIndex := 2\<rparr>)"
proof -
  have sig: "significant 4 0 [''-cc1'', ''-O2'', ''-o'', ''a.o'', ''a.cpp''] = [''-cc1'', ''-O2'']"
    "significant 5 0 [''-cc1'', ''-Wall'', ''-O2'', ''-o'', ''b.o'', ''b.cpp''] = [''-cc1'', ''-O2'']"
    "significant 2 0 [''-cc1'', ''-O1'', ''b.cpp''] = [''-cc1'', ''-O1'']"
    by (simp_all add: isIgnoredValueArg_def isIgnoredArg_def ignored_value_args_def
        ignored_args_def switches)
  show ?thesis
    using changed_iff_significant[of "\<lparr>PreviousArgs = [''-cc1'', ''-O2'', ''-o'', ''a.o'', ''a.cpp''],
        CurrentArgs = [''-cc1'', ''-Wall'', ''-O2'', ''-o'', ''b.o'', ''b.cpp''],
        PreviousFileNameIndex = 4, CurrentFileNameIndex = 5, CurPath = ''/''\<rparr>"]
      changed_iff_significant[of "\<lparr>PreviousArgs = [''-cc1'', ''-O2'', ''-o'', ''a.o'', ''a.cpp''],
        CurrentArgs = [''-cc1'', ''-O1'', ''b.cpp''],
        PreviousFileNameIndex = 4, CurrentFileNameIndex = 2, CurPath = ''/''\<rparr>"]
    by (simp add: sig del: significant.simps)
qed

subsection \<open>A stale cache is never the reason of a failure\<close>

lemma reset_same_cache: "same_cache (reset_compiler env a) (reset_compiler env b)"
  by (simp add: same_cache_def reset_compiler_def)

lemma reset_PrintCommandsTxt [simp]:
  "PrintCommandsTxt (reset_compiler env cc) = PrintCommandsTxt cc"
  "Diags (reset_compiler env cc) = Diags cc"
  by (simp_all add: reset_compiler_def)

lemma clearDiags_simps [simp]:
  "PrintCommandsTxt (clearDiags cc) = PrintCommandsTxt cc" "Diags (clearDiags cc) = []"
  by (simp_all add: clearDiags_def)

lemma compile_reset:
  assumes "\<not> PrintCommandsTxt cc"
  shows "fst (compile env now wd argv (reset_compiler env cc)) =
    fst (compile env now wd argv (new_compiler env False limit))"
  by (rule compile_same_cache) (simp_all add: new_compiler_def reset_same_cache assms)

lemma run_compile_fresh:
  assumes "\<not> PrintCommandsTxt (Compiler s)"
    and "fst (compile env now wd (CurrentArgs (makeFileNameAbsolute cwd (History s)))
           (new_compiler env False limit))"
    and "getFileName (makeFileNameAbsolute cwd (History s)) \<noteq> ''-''"
    and "isFirstRun (makeFileNameAbsolute cwd (History s)) \<Longrightarrow>
           same_cache (Compiler s) (new_compiler env False limit)"
  shows "fst (run_compile env now wd cwd s)"
proof -
  let ?h = "makeFileNameAbsolute cwd (History s)"
  let ?cc = "if changed (History s) then reset_compiler env (Compiler s) else Compiler s"
  obtain ok cc1 where c1: "compile env now wd (CurrentArgs ?h) ?cc = (ok, cc1)" by fastforce
  have quiet: "\<not> PrintCommandsTxt ?cc" using assms(1) by simp
  then have quiet1: "\<not> PrintCommandsTxt (clearDiags cc1)"
    using compile_PrintCommandsTxt[OF c1] by simp
  show ?thesis
  proof (cases "ok \<or> isFirstRun ?h")
    case True
    have "ok" if first: "isFirstRun ?h"
    proof -
      have "isFirstRun (History s)" using first by (simp add: isFirstRun_def makeFileNameAbsolute_def split: if_splits)
      then have "\<not> changed (History s)" by (simp add: changed_def isFirstRun_def)
      with compile_same_cache[OF assms(4)[OF first] assms(1), of env now wd "CurrentArgs ?h"]
        assms(2) c1 show ?thesis by (simp add: new_compiler_def reset_compiler_def)
    qed
    then show ?thesis using True c1 by (auto simp: run_compile_def Let_def split: prod.split)
  next
    case False
    then have "fst (compile env now wd (CurrentArgs ?h) (reset_compiler env (clearDiags cc1)))"
      using compile_reset[OF quiet1, of env now wd "CurrentArgs ?h" limit] assms(2) by simp
    then show ?thesis using False c1 assms(3)
      by (auto simp: run_compile_def Let_def split: prod.split)
  qed
qed

text \<open>
  The states between requests. A request that compiles has arguments, which the code asserts.
\<close>

definition request_args :: "string list \<Rightarrow> 'ci server \<Rightarrow> bool \<times> args_history" where
  "request_args ls s = take_args (read_args (CurPath (History s)) (tl ls)) (History s)"

inductive reachable ::
    "'ci clang \<Rightarrow> (string \<Rightarrow> string option) \<Rightarrow> unload_selector \<Rightarrow> 32 word \<Rightarrow> 'ci server \<Rightarrow> bool"
  for env chdir us limit where
  start: "reachable env chdir us limit
    \<lparr>History = new_history path, Compiler = new_compiler env False limit\<rparr>"
| request: "reachable env chdir us limit s \<Longrightarrow>
    CurrentArgs (snd (request_args ls s)) \<noteq> [] \<Longrightarrow>
    performCompile env chdir us now ls s = (code, err, s') \<Longrightarrow> reachable env chdir us limit s'"

definition between_requests :: "'ci clang \<Rightarrow> 32 word \<Rightarrow> 'ci server \<Rightarrow> bool" where
  "between_requests env limit s \<longleftrightarrow>
     CurrentArgs (History s) = [] \<and> CurrentFileNameIndex (History s) = 0 \<and>
     Diags (Compiler s) = [] \<and> \<not> PrintCommandsTxt (Compiler s) \<and>
     MemoryLimit (Compiler s) = limit \<and>
     (isFirstRun (History s) \<longrightarrow> same_cache (Compiler s) (new_compiler env False limit))"

lemma take_arg_keeps: "take_arg (f, h) a = (f', h') \<Longrightarrow>
    PreviousArgs h' = PreviousArgs h \<and> PreviousFileNameIndex h' = PreviousFileNameIndex h \<and>
    CurPath h' = CurPath h"
  by (auto simp: take_arg_def ah_push_back_def markFileName_def split: if_splits)

lemma take_args_fold_keeps: "foldl take_arg (f, h) as = (f', h') \<Longrightarrow>
    PreviousArgs h' = PreviousArgs h \<and> PreviousFileNameIndex h' = PreviousFileNameIndex h \<and>
    CurPath h' = CurPath h"
proof (induction as arbitrary: f h)
  case (Cons a as)
  obtain f1 h1 where "take_arg (f, h) a = (f1, h1)" by fastforce
  with Cons take_arg_keeps[OF this] show ?case by simp
qed simp

lemma take_args_keeps: "take_args as h = (r, h') \<Longrightarrow>
    PreviousArgs h' = PreviousArgs h \<and> PreviousFileNameIndex h' = PreviousFileNameIndex h \<and>
    CurPath h' = CurPath h"
  by (auto simp: take_args_def dest: take_args_fold_keeps split: prod.splits)

lemma makeFileNameAbsolute_simps [simp]:
  "PreviousArgs (makeFileNameAbsolute cwd h) = PreviousArgs h"
  "CurrentFileNameIndex (makeFileNameAbsolute cwd h) = CurrentFileNameIndex h"
  "CurPath (makeFileNameAbsolute cwd h) = CurPath h"
  "CurrentArgs (makeFileNameAbsolute cwd h) = [] \<longleftrightarrow> CurrentArgs h = []"
  by (simp_all add: makeFileNameAbsolute_def)

lemma run_compile_state:
  assumes "run_compile env now wd cwd s = (ok, err, s')" "\<not> PrintCommandsTxt (Compiler s)"
  shows "History s' = makeFileNameAbsolute cwd (History s)" "Diags (Compiler s') = []"
    "\<not> PrintCommandsTxt (Compiler s')" "MemoryLimit (Compiler s') = MemoryLimit (Compiler s)"
proof -
  let ?cc = "if changed (History s) then reset_compiler env (Compiler s) else Compiler s"
  let ?argv = "CurrentArgs (makeFileNameAbsolute cwd (History s))"
  obtain ok1 cc1 where c1: "compile env now wd ?argv ?cc = (ok1, cc1)" by fastforce
  obtain ok2 cc2 where c2: "compile env now wd ?argv (reset_compiler env (clearDiags cc1)) = (ok2, cc2)"
    by fastforce
  have k1: "PrintCommandsTxt cc1 = PrintCommandsTxt (Compiler s)" "MemoryLimit cc1 = MemoryLimit (Compiler s)"
    using compile_PrintCommandsTxt[OF c1] by (auto simp: reset_compiler_def)
  have k2: "PrintCommandsTxt cc2 = PrintCommandsTxt cc1" "MemoryLimit cc2 = MemoryLimit cc1"
    using compile_PrintCommandsTxt[OF c2] by (auto simp: reset_compiler_def clearDiags_def)
  show "History s' = makeFileNameAbsolute cwd (History s)" "Diags (Compiler s') = []"
    "\<not> PrintCommandsTxt (Compiler s')" "MemoryLimit (Compiler s') = MemoryLimit (Compiler s)"
    using assms c1 c2 k1 k2
    by (auto simp: run_compile_def Let_def clearDiags_def split: if_splits)
qed

lemma performCompile_invariant:
  assumes "between_requests env limit s" "CurrentArgs (snd (request_args ls s)) \<noteq> []"
    and "performCompile env chdir us now ls s = (code, err, s')"
  shows "between_requests env limit s'"
proof (cases "\<exists>wd rest cwd. ls = wd # rest \<and> chdir wd = Some cwd \<and>
    \<not> (read_args (CurPath (History s)) rest \<noteq> [] \<and>
       isDoNotZap us (make_absolute cwd (last (read_args (CurPath (History s)) rest)) Native))")
  case False
  then have "s' = s" using assms(3)
    by (auto simp: performCompile_def Let_def split: list.splits option.splits if_splits)
  with assms(1) show ?thesis by simp
next
  case True
  then obtain wd rest cwd where ls: "ls = wd # rest" "chdir wd = Some cwd"
    "\<not> (read_args (CurPath (History s)) rest \<noteq> [] \<and>
       isDoNotZap us (make_absolute cwd (last (read_args (CurPath (History s)) rest)) Native))" by blast
  obtain r h where h: "take_args (read_args (CurPath (History s)) rest) (History s) = (r, h)" by fastforce
  have ne: "CurrentArgs h \<noteq> []" using assms(2) h ls(1) by (simp add: request_args_def)
  show ?thesis
  proof (cases r)
    case True
    with assms(3) ls h have "s' = \<lparr>History = ah_clear True h, Compiler = reset_compiler env (Compiler s)\<rparr>"
      by (auto simp: performCompile_def Let_def split: if_splits)
    with assms(1) show ?thesis
      by (auto simp: between_requests_def ah_clear_def isFirstRun_def new_compiler_def
          reset_compiler_def same_cache_def)
  next
    case False
    obtain ok e s1 where run: "run_compile env now wd cwd (s\<lparr>History := h\<rparr>) = (ok, e, s1)"
      by (metis prod_cases3)
    have s': "s' = s1\<lparr>History := ah_clear False (History s1)\<rparr>"
      using assms(3) ls h run False by (auto simp: performCompile_def Let_def split: if_splits)
    have "\<not> PrintCommandsTxt (Compiler (s\<lparr>History := h\<rparr>))"
      using assms(1) by (simp add: between_requests_def)
    note st = run_compile_state[OF run this]
    show ?thesis using s' st ne assms(1)
      by (auto simp: between_requests_def ah_clear_def isFirstRun_def)
  qed
qed

lemma reachable_between_requests:
  "reachable env chdir us limit s \<Longrightarrow> between_requests env limit s"
proof (induction rule: reachable.induct)
  case (start path)
  show ?case
    by (simp add: between_requests_def new_history_def new_compiler_def reset_compiler_def
        same_cache_def)
next
  case (request s ls now code err s')
  then show ?case using performCompile_invariant by blast
qed

text \<open>
  C16 (safety): in every state the server can be in between requests, a file that a fresh
  compiler compiles is never reported as failed, whatever the cache and the history hold: a failure
  of the cached compilation is followed by one from a fresh instance, whose result is the one
  reported. The server runs without a file of commands, the request is no reset, and the input is
  one that is marked as a file: not the standard input, and not a file that follows
  \<^verbatim>\<open>-x c++-cpp-output\<close>, which is not marked and for which there is no second compilation.
\<close>

theorem stale_cache_never_fails:
  assumes "reachable env chdir us limit s" "chdir wd = Some cwd"
    and "take_args (read_args (CurPath (History s)) rest) (History s) = (False, h)"
    and "getFileName (makeFileNameAbsolute cwd h) \<noteq> ''-''"
    and "fst (compile env now wd (CurrentArgs (makeFileNameAbsolute cwd h)) (new_compiler env False limit))"
  shows "fst (performCompile env chdir us now (wd # rest) s) \<noteq> 1"
proof -
  have inv: "between_requests env limit s" using assms(1) by (rule reachable_between_requests)
  have keep: "PreviousArgs h = PreviousArgs (History s)" using take_args_keeps[OF assms(3)] by simp
  have "fst (run_compile env now wd cwd (s\<lparr>History := h\<rparr>))"
    by (rule run_compile_fresh[where limit = limit])
      (use inv assms(4,5) keep in \<open>auto simp: between_requests_def isFirstRun_def\<close>)
  then show ?thesis using assms(2,3)
    by (auto simp: performCompile_def Let_def split: prod.split)
qed

text \<open>A clang for which every instance compiles one file, and fails from then on.\<close>

definition one_shot :: "nat clang" where
  "one_shot = \<lparr>new_instance = 0, create_from_args = (\<lambda>ci argv. (True, [], ci)), init_instance = id,
     execute = (\<lambda>ci. (ci = 0, [], Suc ci)), has_source_manager = (\<lambda>_. True),
     has_preprocessor = (\<lambda>_. True), has_sema = (\<lambda>_. False), find_modified_files = id,
     clear_live_decls = id, update_map = id, collect_users = id, unload_users = id,
     memory_usage = (\<lambda>_. 0), temp_file = None, can_append = (\<lambda>_. False)\<rparr>"

definition no_patterns :: unload_selector where
  "no_patterns = \<lparr>MutableRegex = WildRegex [], DoNotZapRegex = WildRegex []\<rparr>"

definition one_shot_start :: "nat server" where
  "one_shot_start = \<lparr>History = new_history ''/'', Compiler = new_compiler one_shot False 100\<rparr>"

definition one_shot_request :: "string list" where
  "one_shot_request = [''/w'', ''-cc1'', ''a.cpp'', '''']"

lemma isDoNotZap_no_patterns [simp]: "\<not> isDoNotZap no_patterns f"
  by (simp add: isDoNotZap_def no_patterns_def isRegex_def regex_match_def regex_match_no_def
      WildRegex_def)

lemma one_shot_args:
  "take_args (read_args p [''-cc1'', ''a.cpp'', '''']) (h\<lparr>CurrentArgs := [], CurrentFileNameIndex := 0\<rparr>) =
    (False, h\<lparr>CurrentArgs := [''-cc1'', ''a.cpp''], CurrentFileNameIndex := 1\<rparr>)"
  by (simp add: take_args_def read_args_def take_arg_def ah_push_back_def markFileName_def
      switches nextArgNotInput_def)

lemma absolute_a_cpp: "make_absolute ''/w'' ''a.cpp'' Native = ''/w/a.cpp''"
  by code_simp

lemma one_shot_reachable:
  "\<exists>s. reachable one_shot Some no_patterns 100 s \<and> \<not> isFirstRun (History s) \<and> Instance (Compiler s) = 1 \<and>
     CurrentArgs (History s) = [] \<and> CurrentFileNameIndex (History s) = 0"
proof -
  have args: "take_args (read_args p [''-cc1'', ''a.cpp'', '''']) (new_history ''/'') =
    (False, (new_history ''/'')\<lparr>CurrentArgs := [''-cc1'', ''a.cpp''], CurrentFileNameIndex := 1\<rparr>)" for p
    using one_shot_args[of p "new_history ''/''"] by (simp add: new_history_def)
  note args' = args[unfolded new_history_def, simplified]
  obtain code err s where c:
      "performCompile one_shot Some no_patterns 1 one_shot_request one_shot_start = (code, err, s)"
    by (metis prod_cases3)
  then have s: "\<not> isFirstRun (History s)" "Instance (Compiler s) = 1" "CurrentArgs (History s) = []"
      "CurrentFileNameIndex (History s) = 0"
    by (auto simp: performCompile_def one_shot_request_def one_shot_start_def args' run_compile_def
        compile_def one_shot_def new_compiler_def reset_compiler_def log_commands_def unload_def
        changed_def new_history_def makeFileNameAbsolute_def getFileName_def absolute_a_cpp
        ah_clear_def isFirstRun_def clearDiags_def Let_def split: if_splits)
  have "reachable one_shot Some no_patterns 100 s"
  proof (rule reachable.request[OF _ _ c])
    show "reachable one_shot Some no_patterns 100 one_shot_start"
      unfolding one_shot_start_def by (rule reachable.start)
    show "CurrentArgs (snd (request_args one_shot_request one_shot_start)) \<noteq> []"
      by (simp add: request_args_def one_shot_request_def one_shot_start_def args)
  qed
  with s show ?thesis by blast
qed

lemma stale_cache_never_fails_witness:
  "\<exists>s. Instance (Compiler s) = 1 \<and> \<not> fst (execute one_shot (Instance (Compiler s))) \<and>
     fst (performCompile one_shot Some no_patterns 2 (''/w'' # [''-cc1'', ''a.cpp'', '''']) s) \<noteq> 1"
proof -
  obtain s where s: "reachable one_shot Some no_patterns 100 s" "Instance (Compiler s) = 1"
      "CurrentArgs (History s) = []" "CurrentFileNameIndex (History s) = 0"
    using one_shot_reachable by blast
  let ?h = "(History s)\<lparr>CurrentArgs := [''-cc1'', ''a.cpp''], CurrentFileNameIndex := 1\<rparr>"
  have "(History s)\<lparr>CurrentArgs := [], CurrentFileNameIndex := 0\<rparr> = History s" using s by simp
  with one_shot_args[of _ "History s"]
  have args: "take_args (read_args p [''-cc1'', ''a.cpp'', '''']) (History s) = (False, ?h)" for p
    by metis
  have "fst (performCompile one_shot Some no_patterns 2 (''/w'' # [''-cc1'', ''a.cpp'', '''']) s) \<noteq> 1"
    by (rule stale_cache_never_fails[OF s(1) _ args, where cwd = "''/w''"])
      (simp_all add: makeFileNameAbsolute_def getFileName_def absolute_a_cpp compile_def one_shot_def
        new_compiler_def reset_compiler_def log_commands_def unload_def Let_def)
  with s(2) show ?thesis by (auto simp: one_shot_def)
qed

subsection \<open>The exit codes a server sends\<close>

lemma performCompile_code: "performCompile env chdir us now ls s = (code, err, s') \<Longrightarrow> code \<in> {0, 1, 2}"
  by (auto simp: performCompile_def Let_def split: list.splits option.splits if_splits prod.splits)

text \<open>
  whatever its clients do, a server sends the exit codes 0, 1 and 2 only, and nothing
  after a 1, the failure it stops at; and it ends with success only when it is out of memory.
\<close>

theorem serve_exit_codes:
  "case serve env chdir us first_run cs s of (result, codes, s') \<Rightarrow>
     set codes \<subseteq> {0, 1, 2} \<and> 1 \<notin> set (butlast codes) \<and>
     (result = None \<longrightarrow> 1 \<notin> set codes) \<and>
     (result = Some True \<longrightarrow> isOutOfMemory env (Compiler s') \<and> 1 \<notin> set codes)"
proof (induction cs arbitrary: first_run s)
  case (Cons c cs)
  obtain code err s1 where p: "performCompile env chdir us (Clock c) (Received c) s = (code, err, s1)"
    by (metis prod_cases3)
  note code = performCompile_code[OF p]
  obtain r codes s2 where rec: "serve env chdir us False cs s1 = (r, codes, s2)" by (metis prod_cases3)
  have IH: "set codes \<subseteq> {0, 1, 2} \<and> 1 \<notin> set (butlast codes) \<and> (r = None \<longrightarrow> 1 \<notin> set codes) \<and>
     (r = Some True \<longrightarrow> isOutOfMemory env (Compiler s2) \<and> 1 \<notin> set codes)"
    using Cons.IH[of False s1] rec by simp
  show ?case using code IH rec p by (auto simp: Let_def)
qed simp

text \<open>One request of the one-shot compiler, served.\<close>

definition one_shot_connection :: connection where
  "one_shot_connection = \<lparr>Disconnected = True, Connected = True, Received = one_shot_request,
     Clock = 1, BinDirEntered = True, ExitCodeWritten = True\<rparr>"

lemma one_shot_first_request:
  "fst (performCompile one_shot Some no_patterns 1 one_shot_request one_shot_start) = 0"
  "fst (snd (performCompile one_shot Some no_patterns 1 one_shot_request one_shot_start)) = []"
  by code_simp+

lemma one_shot_serve:
  "fst (serve one_shot Some no_patterns True [one_shot_connection] one_shot_start) = None"
  by code_simp

lemma serve_exit_codes_witness:
  "1 \<notin> set (fst (snd (serve one_shot Some no_patterns True [one_shot_connection] one_shot_start)))"
  using serve_exit_codes[of one_shot Some no_patterns True "[one_shot_connection]" one_shot_start]
    one_shot_serve by (auto split: prod.splits)

text \<open>
  \<^verbatim>\<open>-x c++-cpp-output\<close>, which ccache uses. The branch that turns the language into
  \<open>c++\<close> leaves the flag set that the next argument is not the input, so the input file is not
  marked: it counts as standard input, a failure is not retried, and a request for another file
  looks like changed arguments. With \<open>c++\<close> itself none of this happens.
\<close>

theorem cpp_output_input_not_marked:
  "let h0 = new_history ''/''; lang = (\<lambda>l f. [''-cc1'', ''-x'', l, f]);
       run = (\<lambda>l f h. snd (take_args (lang l f) h));
       next_changed = (\<lambda>l. changed (run l ''b.ii'' (ah_clear False (run l ''a.ii'' h0))))
   in getFileName (run ''c++'' ''a.ii'' h0) = ''a.ii'' \<and> \<not> next_changed ''c++'' \<and>
      getFileName (run ''c++-cpp-output'' ''a.ii'' h0) = ''-'' \<and> next_changed ''c++-cpp-output''"
  by code_simp

end
