(* ===== verification/Client.thy ===== *)
theory Client
  imports ServerLoop
begin

text \<open>
  The client: \<^verbatim>\<open>tools/zapcc/Client.cpp\<close>, the part that is not Windows. System calls are
  values: what each of them answered during an attempt to connect, and for the reading thread the
  chunks that arrive on the two connections and the order in which \<^verbatim>\<open>select\<close> reports them.
\<close>

subsection \<open>The command line\<close>

datatype scan_cli_result = CliSuccess | CliError | CommandsRequest | ResetRequest

record scan_state =
  Command :: string
  ScanServerId :: int
  PrintCommands :: bool
  ResetRequested :: bool

text \<open>
  The loop over the arguments from index \<open>i\<close>; \<open>None\<close> is the error of a bad server id. \<open>v0\<close> is
  the uninitialised variable in \<open>getIntOption\<close>.
\<close>

function scan_args :: "32 word \<Rightarrow> string list \<Rightarrow> nat \<Rightarrow> scan_state \<Rightarrow> scan_state option" where
  "scan_args v0 argv i st =
     (if i \<ge> length argv then Some st
      else let arg = argv ! i
           in if arg = ServerIdSwitch
              then let sid = fst (getIntOption v0 argv (int i + 1))
                   in if sid < 0 then None
                      else scan_args v0 argv (i + 2) (st\<lparr>ScanServerId := sid\<rparr>)
              else if arg = PrintCommandsSwitch
              then scan_args v0 argv (i + 1) (st\<lparr>PrintCommands := True\<rparr>)
              else let st' = (if arg = ResetSwitch then st\<lparr>ResetRequested := True\<rparr> else st)
                   in scan_args v0 argv (i + 1) (st'\<lparr>Command := Command st' @ arg @ [newline]\<rparr>))"
  by pat_completeness auto
termination
  by (relation "measure (\<lambda>(v0, argv, i, st). length argv - i)") auto

declare scan_args.simps [simp del]

text \<open>The result, the command to send and the server id; \<open>cwd\<close> is the current directory if there is one.\<close>

definition scanCommandLine ::
    "32 word \<Rightarrow> string option \<Rightarrow> string list \<Rightarrow> scan_cli_result \<times> string \<times> int" where
  "scanCommandLine v0 cwd argv =
     (case cwd of
        None \<Rightarrow> (CliError, [], 0)
      | Some dir \<Rightarrow>
          case scan_args v0 argv 0 \<lparr>Command = dir @ [newline], ScanServerId = 0,
                 PrintCommands = False, ResetRequested = False\<rparr> of
            None \<Rightarrow> (CliError, [], 0)
          | Some st \<Rightarrow>
              (if PrintCommands st then CommandsRequest
               else if ResetRequested st then ResetRequest else CliSuccess,
               Command st @ [newline], ScanServerId st))"

definition getServerName :: "string \<Rightarrow> string" where
  "getServerName client_name =
     (let base = path_stem client_name Native;
          base = (if sr_endswith base ''++'' then take (length base - 2) base else base)
      in path_append (parent_path client_name Native) Native (base @ ''s''))"

subsection \<open>Sending arguments to the server\<close>

text \<open>An argument the protocol can carry, and that is not a switch of the client itself.\<close>

definition sendable :: "string \<Rightarrow> bool" where
  "sendable a \<longleftrightarrow> a \<noteq> [] \<and> hd a \<noteq> CHR ''$'' \<and> newline \<notin> set a \<and>
     a \<noteq> ServerIdSwitch \<and> a \<noteq> PrintCommandsSwitch \<and> a \<noteq> ResetSwitch"

lemma scan_args_sendable:
  assumes "list_all sendable (drop i argv)"
  shows "scan_args v0 argv i st = Some (st\<lparr>Command := Command st @ print_lines (drop i argv)\<rparr>)"
  using assms
proof (induction v0 argv i st rule: scan_args.induct)
  case (1 v0 argv i st)
  show ?case
  proof (cases "i < length argv")
    case True
    then have d: "drop i argv = argv ! i # drop (Suc i) argv" by (simp add: Cons_nth_drop_Suc)
    with "1.prems" have s: "argv ! i \<noteq> ServerIdSwitch" "argv ! i \<noteq> PrintCommandsSwitch"
      "argv ! i \<noteq> ResetSwitch" by (auto simp: sendable_def)
    have s4: "list_all sendable (drop (i + 1) argv)" using "1.prems" d by simp
    have IH: "scan_args v0 argv (i + 1) (st\<lparr>Command := Command st @ argv ! i @ [newline]\<rparr>) =
      Some (st\<lparr>Command := (Command st @ argv ! i @ [newline]) @ print_lines (drop (i + 1) argv)\<rparr>)"
      using "1.IH"(3)[OF _ refl s(1,2) refl] s s4 True by simp
    have "scan_args v0 argv i st =
        scan_args v0 argv (i + 1) (st\<lparr>Command := Command st @ argv ! i @ [newline]\<rparr>)"
      using True s by (simp add: scan_args.simps[of v0 argv i] Let_def)
    then show ?thesis unfolding IH d by (simp add: print_lines_def)
  next
    case False
    then show ?thesis by (simp add: scan_args.simps[of v0 argv i] print_lines_def)
  qed
qed

lemma getlines_line: "newline \<notin> set l \<Longrightarrow> getlines (l @ newline # r) = l # getlines r"
proof -
  assume "newline \<notin> set l"
  then have "\<forall>c\<in>set l. c \<noteq> newline" by auto
  then have "takeWhile (\<lambda>c. c \<noteq> newline) (l @ newline # r) = l"
    "dropWhile (\<lambda>c. c \<noteq> newline) (l @ newline # r) = newline # r"
    by (simp_all add: takeWhile_append2 dropWhile_append2)
  then show ?thesis by (subst getlines.simps) simp
qed

lemma getlines_prefix:
  "list_all (\<lambda>l. newline \<notin> set l) ls \<Longrightarrow> getlines (print_lines ls @ r) = ls @ getlines r"
  by (induction ls) (simp_all add: print_lines_def getlines_line)

lemma read_args_sendable:
  "list_all sendable argv \<Longrightarrow> read_args p (argv @ [] # r) = argv"
  by (induction argv) (auto simp: read_args_def sendable_def)

lemma sent_command:
  assumes "list_all sendable argv" "newline \<notin> set dir"
  shows "scanCommandLine uninit (Some dir) argv = (CliSuccess, print_lines (dir # argv) @ [newline], 0)"
    and "getlines ((print_lines (dir # argv) @ [newline]) @ later) = dir # argv @ [] # getlines later"
proof -
  show "scanCommandLine uninit (Some dir) argv = (CliSuccess, print_lines (dir # argv) @ [newline], 0)"
    using assms(1) by (simp add: scanCommandLine_def scan_args_sendable print_lines_def)
  show "getlines ((print_lines (dir # argv) @ [newline]) @ later) = dir # argv @ [] # getlines later"
    using getlines_prefix[of "dir # argv" "newline # later"] getlines_line[of "[]" later] assms
    by (auto simp: list_all_iff sendable_def)
qed

text \<open>
  C34 (roundtrip): the command the client sends is what the server reads: from a current directory
  and arguments without switches of the client, the server gets that directory and those
  arguments, whatever follows on the connection. The arguments are not empty, hold no newline and
  do not begin with a dollar, which the server would replace.
\<close>

theorem command_roundtrip:
  assumes "list_all sendable argv" "newline \<notin> set dir"
  shows "case scanCommandLine uninit (Some dir) argv of (result, command, server_id) \<Rightarrow>
    result = CliSuccess \<and> server_id = 0 \<and>
    hd (getlines (command @ later)) = dir \<and> read_args p (tl (getlines (command @ later))) = argv"
  using sent_command(1)[OF assms] sent_command(2)[OF assms, of later] assms(1)
  by (simp add: read_args_sendable)

lemma command_roundtrip_witness:
  "read_args ''/'' (tl (getlines (fst (snd (scanCommandLine 0 (Some ''/w'') [''-cc1'', ''a b.cpp'']))))) =
     [''-cc1'', ''a b.cpp'']"
  using command_roundtrip[where argv = "[''-cc1'', ''a b.cpp'']" and dir = "''/w''" and uninit = 0
      and later = "[]" and p = "''/''"]
  by (simp add: sendable_def switches split: prod.splits)

subsection \<open>Reading the output of the server\<close>

definition is_exit_code :: "char \<Rightarrow> bool" where
  "is_exit_code c \<longleftrightarrow> c = CHR 0x00 \<or> c = CHR 0x01 \<or> c = CHR 0x02"

definition findExitCode :: "string \<Rightarrow> int option" where
  "findExitCode buffer = (if is_exit_code (last buffer) then Some (of_char (last buffer)) else None)"

definition NotFoundExitCode :: int where
  "NotFoundExitCode = -9999"

text \<open>
  One of the two connections: the chunks \<^verbatim>\<open>recv\<close> will return, whether it is open, what was
  written to the stream it is copied to.
\<close>

record stream =
  Pending :: "string list"
  FdOpen :: bool
  Written :: string

record reader =
  StdOut :: stream
  StdErr :: stream
  ExitCode :: int

text \<open>
  Reading one descriptor that is ready: the end of its chunks closes it (that \<^verbatim>\<open>close\<close> succeeds
  is \<open>close_ok\<close>), a chunk is copied, without its last byte when that is an exit code. The flag
  says that one was found, which ends the inner loop.
\<close>

definition read_stream :: "bool \<Rightarrow> stream \<Rightarrow> int \<Rightarrow> stream \<times> int \<times> bool" where
  "read_stream close_ok s code =
     (case Pending s of
        [] \<Rightarrow> (s\<lparr>FdOpen := False\<rparr>, if close_ok then code else 1, False)
      | buffer # rest \<Rightarrow>
          case findExitCode buffer of
            Some c \<Rightarrow> (s\<lparr>Pending := rest, Written := Written s @ butlast buffer\<rparr>, c, True)
          | None \<Rightarrow> (s\<lparr>Pending := rest, Written := Written s @ buffer\<rparr>, code, False))"

text \<open>One turn: \<^verbatim>\<open>select\<close> reported the descriptors \<open>out_ready\<close>, \<open>err_ready\<close> of those that are open.\<close>

definition read_turn :: "bool \<Rightarrow> bool \<times> bool \<Rightarrow> reader \<Rightarrow> reader" where
  "read_turn close_ok ready r =
     (let (out_ready, err_ready) = ready;
          (so, c, found) = (if out_ready \<and> FdOpen (StdOut r) then read_stream close_ok (StdOut r) (ExitCode r)
                            else (StdOut r, ExitCode r, False));
          (se, c', found') = (if \<not> found \<and> err_ready \<and> FdOpen (StdErr r) then read_stream close_ok (StdErr r) c
                             else (StdErr r, c, False))
      in \<lparr>StdOut = so, StdErr = se, ExitCode = c'\<rparr>)"

text \<open>
  The loop over the turns, a failed \<^verbatim>\<open>select\<close> being a turn without an answer; \<open>None\<close> while a
  descriptor is open and no turn is left.
\<close>

fun readServerOutput_loop :: "bool \<Rightarrow> (bool \<times> bool) option list \<Rightarrow> reader \<Rightarrow> reader option" where
  "readServerOutput_loop close_ok turns r =
     (if \<not> FdOpen (StdOut r) \<and> \<not> FdOpen (StdErr r) then Some r
      else case turns of [] \<Rightarrow> None
           | None # ts \<Rightarrow> Some r
           | Some t # ts \<Rightarrow> readServerOutput_loop close_ok ts (read_turn close_ok t r))"

declare readServerOutput_loop.simps [simp del]

definition start_reader :: "string list \<Rightarrow> string list \<Rightarrow> reader" where
  "start_reader out err = \<lparr>StdOut = \<lparr>Pending = out, FdOpen = True, Written = []\<rparr>,
     StdErr = \<lparr>Pending = err, FdOpen = True, Written = []\<rparr>, ExitCode = NotFoundExitCode\<rparr>"

definition readServerOutput ::
    "bool \<Rightarrow> string list \<Rightarrow> string list \<Rightarrow> (bool \<times> bool) option list \<Rightarrow>
     (int \<times> string \<times> string) option" where
  "readServerOutput close_ok out err turns =
     map_option (\<lambda>r. (ExitCode r, Written (StdOut r), Written (StdErr r)))
       (readServerOutput_loop close_ok turns (start_reader out err))"

text \<open>A blocking \<^verbatim>\<open>select\<close> that does not fail: every turn reports a descriptor that is open.\<close>

fun blocking_select :: "bool \<Rightarrow> (bool \<times> bool) option list \<Rightarrow> reader \<Rightarrow> bool" where
  "blocking_select close_ok [] r = True"
| "blocking_select close_ok (None # ts) r = (\<not> FdOpen (StdOut r) \<and> \<not> FdOpen (StdErr r))"
| "blocking_select close_ok (Some t # ts) r =
     ((\<not> FdOpen (StdOut r) \<and> \<not> FdOpen (StdErr r)) \<or>
      ((fst t \<and> FdOpen (StdOut r) \<or> snd t \<and> FdOpen (StdErr r)) \<and>
       blocking_select close_ok ts (read_turn close_ok t r)))"

definition work_left :: "stream \<Rightarrow> nat" where
  "work_left s = length (Pending s) + (if FdOpen s then 1 else 0)"

text \<open>
  What the two streams still owe: \<open>data\<close> and the exit code on the first, \<open>err\<close> on the second. No
  chunk ends in a byte that would be taken for an exit code, but for the last one of the output.
\<close>

definition no_code_at_end :: "string list \<Rightarrow> bool" where
  "no_code_at_end chunks \<longleftrightarrow> (\<forall>b \<in> set chunks. \<not> is_exit_code (last b))"

definition owes_out :: "string \<Rightarrow> char \<Rightarrow> stream \<Rightarrow> int \<Rightarrow> bool" where
  "owes_out data c s code \<longleftrightarrow>
     [] \<notin> set (Pending s) \<and> no_code_at_end (butlast (Pending s)) \<and> (\<not> FdOpen s \<longrightarrow> Pending s = []) \<and>
     (if Pending s = [] then Written s = data \<and> code = of_char c
      else Written s @ concat (Pending s) = data @ [c])"

definition owes_err :: "string \<Rightarrow> stream \<Rightarrow> bool" where
  "owes_err data s \<longleftrightarrow> [] \<notin> set (Pending s) \<and> no_code_at_end (Pending s) \<and>
     (\<not> FdOpen s \<longrightarrow> Pending s = []) \<and> Written s @ concat (Pending s) = data"

lemma read_stream_out:
  assumes "owes_out d c s code" "is_exit_code c" "FdOpen s"
    and "read_stream True s code = (s', code', found)"
  shows "owes_out d c s' code'" "work_left s' < work_left s"
proof -
  show "owes_out d c s' code'"
  proof (cases "Pending s")
    case Nil
    with assms show ?thesis by (auto simp: owes_out_def read_stream_def)
  next
    case (Cons b rest)
    with assms(1) have b: "b \<noteq> []" "[] \<notin> set rest" "Written s @ b @ concat rest = d @ [c]"
      by (auto simp: owes_out_def)
    show ?thesis
    proof (cases rest)
      case Nil
      with b have "b = butlast b @ [c]" "Written s @ butlast b = d"
        by (metis append.right_neutral append_butlast_last_id butlast_append concat.simps(1) last_appendR last_snoc butlast_snoc)+
      then have "last b = c" by (metis last_snoc)
      with assms Cons Nil b \<open>Written s @ butlast b = d\<close> show ?thesis
        by (auto simp: owes_out_def read_stream_def findExitCode_def)
    next
      case (Cons r rs)
      with assms(1) \<open>Pending s = b # rest\<close> have "findExitCode b = None" "no_code_at_end (butlast rest)"
        by (simp_all add: owes_out_def no_code_at_end_def findExitCode_def)
      with assms \<open>Pending s = b # rest\<close> Cons b show ?thesis
        by (auto simp: owes_out_def read_stream_def)
    qed
  qed
  show "work_left s' < work_left s"
    using assms(3,4) by (auto simp: work_left_def read_stream_def split: list.splits option.splits)
qed

lemma read_stream_err:
  assumes "owes_err d s" "FdOpen s"
    and "read_stream True s code = (s', code', found)"
  shows "owes_err d s'" "code' = code" "work_left s' < work_left s"
proof -
  have "findExitCode b = None" if "Pending s = b # rest" for b rest
    using that assms(1) by (simp add: owes_err_def no_code_at_end_def findExitCode_def)
  with assms show "owes_err d s'" "code' = code" "work_left s' < work_left s"
    by (auto simp: owes_err_def no_code_at_end_def read_stream_def work_left_def split: list.splits)
qed

lemma read_turn_keeps:
  assumes "owes_out d c (StdOut r) (ExitCode r)" "owes_err e (StdErr r)"
    and "is_exit_code c"
  shows "owes_out d c (StdOut (read_turn True t r)) (ExitCode (read_turn True t r))"
    and "owes_err e (StdErr (read_turn True t r))"
    and "fst t \<and> FdOpen (StdOut r) \<or> snd t \<and> FdOpen (StdErr r) \<Longrightarrow>
      work_left (StdOut (read_turn True t r)) + work_left (StdErr (read_turn True t r)) <
      work_left (StdOut r) + work_left (StdErr r)"
proof -
  obtain so k f where so: "(if fst t \<and> FdOpen (StdOut r) then read_stream True (StdOut r) (ExitCode r)
      else (StdOut r, ExitCode r, False)) = (so, k, f)" by (metis prod_cases3)
  obtain se k' f' where se: "(if \<not> f \<and> snd t \<and> FdOpen (StdErr r) then read_stream True (StdErr r) k
      else (StdErr r, k, False)) = (se, k', f')" by (metis prod_cases3)
  have turn: "read_turn True t r = \<lparr>StdOut = so, StdErr = se, ExitCode = k'\<rparr>"
    using so se by (cases t) (simp add: read_turn_def Let_def)
  have o: "owes_out d c so k" and wo: "work_left so \<le> work_left (StdOut r)"
    and wo': "fst t \<and> FdOpen (StdOut r) \<Longrightarrow> work_left so < work_left (StdOut r)"
    using so assms read_stream_out[OF assms(1,3)] by (auto split: if_splits intro: less_imp_le)
  have nf: "f \<Longrightarrow> fst t \<and> FdOpen (StdOut r)" using so by (auto split: if_splits)
  have e: "owes_err e se" "k' = k" and we: "work_left se \<le> work_left (StdErr r)"
    and we': "\<not> f \<and> snd t \<and> FdOpen (StdErr r) \<Longrightarrow> work_left se < work_left (StdErr r)"
    using se assms read_stream_err[OF assms(2)] by (auto split: if_splits intro: less_imp_le)
  show "owes_out d c (StdOut (read_turn True t r)) (ExitCode (read_turn True t r))"
    and "owes_err e (StdErr (read_turn True t r))" using turn o e by simp_all
  assume "fst t \<and> FdOpen (StdOut r) \<or> snd t \<and> FdOpen (StdErr r)"
  then consider "fst t \<and> FdOpen (StdOut r)" | "\<not> f" "snd t \<and> FdOpen (StdErr r)" using nf by blast
  then show "work_left (StdOut (read_turn True t r)) + work_left (StdErr (read_turn True t r)) <
      work_left (StdOut r) + work_left (StdErr r)"
    by cases (use turn wo wo' we we' in \<open>fastforce\<close>)+
qed

lemma reader_loop:
  assumes "owes_out d c (StdOut r) (ExitCode r)" "owes_err e (StdErr r)"
    and "is_exit_code c"
    and "blocking_select True turns r" "work_left (StdOut r) + work_left (StdErr r) \<le> length turns"
  shows "\<exists>r'. readServerOutput_loop True turns r = Some r' \<and> ExitCode r' = of_char c \<and>
    Written (StdOut r') = d \<and> Written (StdErr r') = e"
  using assms
proof (induction turns arbitrary: r)
  case Nil
  then show ?case
    by (auto simp: work_left_def owes_out_def owes_err_def readServerOutput_loop.simps split: if_splits)
next
  case (Cons opt ts)
  show ?case
  proof (cases "\<not> FdOpen (StdOut r) \<and> \<not> FdOpen (StdErr r)")
    case True
    with Cons.prems show ?thesis
      by (auto simp: owes_out_def owes_err_def readServerOutput_loop.simps)
  next
    case False
    then obtain t where t: "opt = Some t" using Cons.prems(4) by (cases opt) auto
    note keeps = read_turn_keeps[OF Cons.prems(1-3), of t]
    have ready: "fst t \<and> FdOpen (StdOut r) \<or> snd t \<and> FdOpen (StdErr r)"
      and rest: "blocking_select True ts (read_turn True t r)" using Cons.prems(4) False t by auto
    have "readServerOutput_loop True (opt # ts) r = readServerOutput_loop True ts (read_turn True t r)"
      using False t by (subst readServerOutput_loop.simps) auto
    moreover have "work_left (StdOut (read_turn True t r)) + work_left (StdErr (read_turn True t r)) \<le> length ts"
      using keeps(3)[OF ready] Cons.prems(5) by simp
    ultimately show ?thesis using Cons.IH[OF keeps(1,2) Cons.prems(3) rest] by simp
  qed
qed

lemma reader_delivers:
  assumes "concat out = data @ [c]" "[] \<notin> set out" "concat err = errors" "[] \<notin> set err"
    and "is_exit_code c" "no_code_at_end (butlast out)" "no_code_at_end err"
    and "blocking_select True turns (start_reader out err)" "length out + length err + 2 \<le> length turns"
  shows "readServerOutput True out err turns = Some (of_char c, data, errors)"
proof -
  have ne: "out \<noteq> []" using assms(1) by auto
  have "owes_out data c (StdOut (start_reader out err)) (ExitCode (start_reader out err))"
    "owes_err errors (StdErr (start_reader out err))"
    using assms(1-4,6,7) ne by (auto simp: owes_out_def owes_err_def start_reader_def)
  from reader_loop[OF this assms(5,8)] assms(9) show ?thesis
    by (auto simp: readServerOutput_def start_reader_def work_left_def)
qed

text \<open>
  C17 (liveness): reading what the server sends. In whatever order the two connections become ready,
  the loop ends after at most one turn for each chunk and each end, it has copied the output and the
  errors byte for byte, and it returns the exit code, the last byte of the output. The sizes of the
  chunks may be any, as long as no chunk but the last of the output ends in a byte with the value of
  an exit code (0, 1 or 2); the data may hold such bytes elsewhere.
\<close>

theorem readServerOutput_delivers:
  assumes "concat out = data @ [c]" "[] \<notin> set out" "concat err = errors" "[] \<notin> set err"
    and "is_exit_code c" "no_code_at_end (butlast out)" "no_code_at_end err"
    and "blocking_select True turns (start_reader out err)" "length out + length err + 2 \<le> length turns"
  shows "readServerOutput True out err turns = Some (of_char c, data, errors)"
  by (rule reader_delivers[OF assms])

lemma readServerOutput_delivers_witness:
  "readServerOutput True [CHR 0x02 # ''no'', ''te'' @ [CHR 0x01]] [''a.cpp:1:''] (replicate 7 (Some (True, True))) =
     Some (1, CHR 0x02 # ''note'', ''a.cpp:1:'')"
  using readServerOutput_delivers[of "[CHR 0x02 # ''no'', ''te'' @ [CHR 0x01]]" "CHR 0x02 # ''note''" "CHR 0x01"
      "[''a.cpp:1:'']" "''a.cpp:1:''" "replicate 7 (Some (True, True))"]
  by (simp add: no_code_at_end_def is_exit_code_def numeral_eq_Suc blocking_select.simps start_reader_def read_turn_def
      read_stream_def findExitCode_def)

text \<open>
  the exit code is looked for at the end of every chunk of both connections. Output
  whose chunk happens to end in the value of an exit code loses that byte, and on the error
  connection it replaces the exit code of the server.
\<close>

theorem readServerOutput_in_band:
  "readServerOutput True [''ok'' @ [CHR 0x00]] [''x'' @ [CHR 0x01]]
     [Some (True, False), Some (False, True), Some (True, True), Some (True, True)] =
     Some (1, ''ok'', ''x'')"
  by code_simp

subsection \<open>Connecting to a server\<close>

datatype connect_result = Success | NotFound | Busy | Unexpected

datatype errno = EAGAIN | EACCES | ECONNREFUSED | OtherErrno nat

text \<open>
  What the system answers during one attempt: opening and locking the lock file; the sockets and
  connections of \<^verbatim>\<open>open\<close>, before and after a server was started; the calls that create the
  server's sockets; the start of the server.
\<close>

record open_answers =
  InSocket :: bool
  ErrSocket :: bool
  ConnectOut :: "errno option"
  ConnectErr :: bool

record attempt =
  LockFileOpens :: bool
  LockAnswer :: "errno option"
  FirstOpen :: open_answers
  SocketsCreated :: bool
  ReuseSet :: bool
  PortsBound :: bool
  Listening :: bool
  ServerStarted :: bool
  SecondOpen :: open_answers

text \<open>The client: its server id and the name of the lock file it holds, if any.\<close>

record client =
  ClientServerId :: int
  LockHeld :: "int option"

definition MaxServers :: int where
  "MaxServers = 256"

definition open_result :: "open_answers \<Rightarrow> connect_result" where
  "open_result a =
     (if \<not> InSocket a then Unexpected
      else if \<not> ErrSocket a then Unexpected
      else case ConnectOut a of
             Some e \<Rightarrow> if e = ECONNREFUSED then NotFound else Unexpected
           | None \<Rightarrow> if ConnectErr a then Success else Unexpected)"

text \<open>\<open>None\<close> is the failed assertion that the client holds no lock yet.\<close>

definition obtainLock :: "attempt \<Rightarrow> client \<Rightarrow> (connect_result \<times> client) option" where
  "obtainLock a c =
     (if LockHeld c \<noteq> None then None
      else if \<not> LockFileOpens a then Some (Unexpected, c)
      else case LockAnswer a of
             Some e \<Rightarrow> Some (if e = EAGAIN \<or> e = EACCES then Busy else Unexpected, c\<lparr>LockHeld := None\<rparr>)
           | None \<Rightarrow> Some (Success, c\<lparr>LockHeld := Some (ClientServerId c)\<rparr>))"

definition createPipeAndServer :: "attempt \<Rightarrow> connect_result" where
  "createPipeAndServer a =
     (if \<not> SocketsCreated a then Unexpected
      else if \<not> ReuseSet a then Unexpected
      else if \<not> PortsBound a then Unexpected
      else if \<not> Listening a then Unexpected
      else if \<not> ServerStarted a then Unexpected
      else Success)"

definition connectToOne :: "(int \<Rightarrow> attempt) \<Rightarrow> bool \<Rightarrow> client \<Rightarrow> (connect_result \<times> client) option" where
  "connectToOne os specific c0 =
     (let c = (if specific then c0\<lparr>ClientServerId := ClientServerId c0 + MaxServers\<rparr> else c0);
          a = os (ClientServerId c)
      in case obtainLock a c of
           None \<Rightarrow> None
         | Some (result, c) \<Rightarrow>
             if result \<noteq> Success then Some (result, c)
             else let result = open_result (FirstOpen a)
                  in if result = NotFound
                     then let result = createPipeAndServer a
                          in if result = Success then Some (open_result (SecondOpen a), c)
                             else Some (result, c)
                     else Some (result, c))"

fun connectToAny_loop :: "(int \<Rightarrow> attempt) \<Rightarrow> int list \<Rightarrow> client \<Rightarrow> (bool \<times> client) option" where
  "connectToAny_loop os [] c = Some (False, c)"
| "connectToAny_loop os (i # is) c =
     (case connectToOne os False (c\<lparr>ClientServerId := i\<rparr>) of
        None \<Rightarrow> None
      | Some (result, c') \<Rightarrow>
          (case result of
             Success \<Rightarrow> Some (True, c')
           | NotFound \<Rightarrow> Some (False, c')
           | Unexpected \<Rightarrow> Some (False, c')
           | Busy \<Rightarrow> connectToAny_loop os is c'))"

definition connectToAny :: "(int \<Rightarrow> attempt) \<Rightarrow> client \<Rightarrow> (bool \<times> client) option" where
  "connectToAny os c = connectToAny_loop os (map int [1..<257]) c"

definition connect :: "(int \<Rightarrow> attempt) \<Rightarrow> client \<Rightarrow> (bool \<times> client) option" where
  "connect os c =
     (if ClientServerId c \<noteq> 0
      then map_option (\<lambda>(result, c'). (result = Success, c')) (connectToOne os True c)
      else connectToAny os c)"

subsection \<open>The ports\<close>

definition ZapccBasePort :: int where
  "ZapccBasePort = 10600"

text \<open>The argument of \<^verbatim>\<open>htons\<close> is a 16-bit word: the port of a server for its output, then for its errors.\<close>

definition port_out :: "int \<Rightarrow> 16 word" where
  "port_out server_id = of_int (ZapccBasePort + server_id * 2)"

definition port_err :: "int \<Rightarrow> 16 word" where
  "port_err server_id = of_int (ZapccBasePort + server_id * 2 + 1)"

lemma of_int_16_eq: "(of_int a :: 16 word) = of_int b \<longleftrightarrow> a mod 65536 = b mod 65536"
  by (simp add: word_of_int_eq_iff take_bit_eq_mod)

lemma port_eq:
  assumes "0 < i" "i \<le> 27467" "0 < j" "j \<le> 27467"
  shows "port_out i = port_out j \<longleftrightarrow> i = j" "port_err i = port_err j \<longleftrightarrow> i = j" "port_out i \<noteq> port_err j"
proof -
  have m: "(10600 + k * 2) mod 65536 = 10600 + k * 2" "(10600 + k * 2 + 1) mod 65536 = 10600 + k * 2 + 1"
    if "0 < k" "k \<le> 27467" for k :: int using that by (simp_all add: mod_pos_pos_trivial)
  show "port_out i = port_out j \<longleftrightarrow> i = j" "port_err i = port_err j \<longleftrightarrow> i = j" "port_out i \<noteq> port_err j"
    unfolding port_out_def port_err_def ZapccBasePort_def of_int_16_eq m[OF assms(1,2)] m[OF assms(3,4)]
    by presburger+
qed

text \<open>
  Servers with different ids up to 27467, the ids a client adds \<open>MaxServers\<close> to
  included, listen on four different ports: the 16-bit port numbers do not wrap there.
\<close>

theorem server_ports_distinct:
  assumes "0 < i" "i \<le> 27467" "0 < j" "j \<le> 27467" "i \<noteq> j"
  shows "distinct [port_out i, port_err i, port_out j, port_err j]"
  using port_eq[OF assms(1-4)] port_eq(3)[OF assms(3,4,1,2)] port_eq(3)[OF assms(1,2,1,2)]
    port_eq(3)[OF assms(3,4,3,4)] assms(5) by auto

lemma server_ports_distinct_witness: "distinct [port_out 1, port_err 1, port_out 27467, port_err 27467]"
  using server_ports_distinct[of 1 27467] by simp

text \<open>
  The server id of a command line has no upper bound. With 32513 the client adds 256,
  the lock file is that of server 32769, and the ports are those of server 1.
\<close>

theorem server_port_wraps:
  "fst (getIntOption 0 [ServerIdSwitch, ''32513''] 1) + MaxServers = 32769 \<and>
   port_out 32769 = port_out 1 \<and> port_err 32769 = port_err 1"
proof -
  have "fst (getIntOption 0 [ServerIdSwitch, ''32513''] 1) = 32513" by code_simp
  then show ?thesis by (simp add: MaxServers_def port_out_def port_err_def ZapccBasePort_def)
qed

subsection \<open>Which server is chosen\<close>

text \<open>The outcome of an attempt that begins without a lock.\<close>

definition attempt_result :: "attempt \<Rightarrow> connect_result" where
  "attempt_result a =
     (if \<not> LockFileOpens a then Unexpected
      else case LockAnswer a of
             Some e \<Rightarrow> if e = EAGAIN \<or> e = EACCES then Busy else Unexpected
           | None \<Rightarrow> (case open_result (FirstOpen a) of
                       NotFound \<Rightarrow> if createPipeAndServer a = Success then open_result (SecondOpen a)
                                   else createPipeAndServer a
                     | r \<Rightarrow> r))"

lemma open_result_not_busy: "open_result a \<noteq> Busy"
  by (simp add: open_result_def split: option.split)

lemma connectToOne_result:
  assumes "LockHeld c = None"
  shows "\<exists>c'. connectToOne os False c = Some (attempt_result (os (ClientServerId c)), c') \<and>
    ClientServerId c' = ClientServerId c \<and>
    (attempt_result (os (ClientServerId c)) = Busy \<longrightarrow> LockHeld c' = None) \<and>
    (attempt_result (os (ClientServerId c)) = Success \<longrightarrow> LockHeld c' = Some (ClientServerId c))"
proof -
  have "createPipeAndServer a \<noteq> Busy" for a by (simp add: createPipeAndServer_def)
  then show ?thesis using assms open_result_not_busy
    by (auto simp: connectToOne_def obtainLock_def attempt_result_def Let_def
        split: option.splits connect_result.splits)
qed

lemma connectToAny_loop_result:
  assumes "LockHeld c = None"
  shows "\<exists>ok c'. connectToAny_loop os is c = Some (ok, c') \<and>
    (case find (\<lambda>i. attempt_result (os i) \<noteq> Busy) is of
       None \<Rightarrow> \<not> ok
     | Some i \<Rightarrow> (ok \<longleftrightarrow> attempt_result (os i) = Success) \<and> ClientServerId c' = i \<and>
         (ok \<longrightarrow> LockHeld c' = Some i))"
  using assms
proof (induction "is" arbitrary: c)
  case (Cons i "is")
  have "LockHeld (c\<lparr>ClientServerId := i\<rparr>) = None" using Cons.prems by simp
  from connectToOne_result[OF this, of os] obtain c' where
    c': "connectToOne os False (c\<lparr>ClientServerId := i\<rparr>) = Some (attempt_result (os i), c')"
      "ClientServerId c' = i" "attempt_result (os i) = Busy \<longrightarrow> LockHeld c' = None"
      "attempt_result (os i) = Success \<longrightarrow> LockHeld c' = Some i" by auto
  show ?case
  proof (cases "attempt_result (os i) = Busy")
    case True
    with c'(3) Cons.IH[of c'] c'(1) show ?thesis by simp
  next
    case False
    with c' show ?thesis by (cases "attempt_result (os i)") auto
  qed
qed auto

text \<open>
  a client without a server id of its own connects to the first server, of ids 1
  to 256, whose lock is not held by another client, and to no other: it holds the lock of that id
  when it succeeds, and fails when the attempt there fails or when all are busy. The assertion that
  no lock is obtained twice never fails on the way.
\<close>

theorem connectToAny_first_not_busy:
  assumes "LockHeld c = None"
  shows "\<exists>ok c'. connectToAny os c = Some (ok, c') \<and>
    (case find (\<lambda>i. attempt_result (os i) \<noteq> Busy) (map int [1..<257]) of
       None \<Rightarrow> \<not> ok
     | Some i \<Rightarrow> (ok \<longleftrightarrow> attempt_result (os i) = Success) \<and> ClientServerId c' = i \<and>
         (ok \<longrightarrow> LockHeld c' = Some i))"
  unfolding connectToAny_def by (rule connectToAny_loop_result[OF assms])

text \<open>A system where the servers below \<open>n\<close> are locked and the others answer at once.\<close>

definition locked_below :: "int \<Rightarrow> int \<Rightarrow> attempt" where
  "locked_below n i = \<lparr>LockFileOpens = True, LockAnswer = (if i < n then Some EAGAIN else None),
     FirstOpen = \<lparr>InSocket = True, ErrSocket = True, ConnectOut = None, ConnectErr = True\<rparr>,
     SocketsCreated = True, ReuseSet = True, PortsBound = True, Listening = True, ServerStarted = True,
     SecondOpen = \<lparr>InSocket = True, ErrSocket = True, ConnectOut = None, ConnectErr = True\<rparr>\<rparr>"

lemma locked_below_result: "attempt_result (locked_below n i) = (if i < n then Busy else Success)"
  by (simp add: attempt_result_def locked_below_def open_result_def)

lemma upto_2: "map int [1..<257] = 1 # 2 # map int [3..<257]"
  by (simp add: upt_conv_Cons)

lemma connectToAny_first_not_busy_witness:
  "\<exists>c'. connectToAny (locked_below 2) \<lparr>ClientServerId = 0, LockHeld = None\<rparr> = Some (True, c') \<and>
     ClientServerId c' = 2 \<and> LockHeld c' = Some 2"
  using connectToAny_first_not_busy[of "\<lparr>ClientServerId = 0, LockHeld = None\<rparr>" "locked_below 2"]
  unfolding upto_2 by (auto simp: locked_below_result)

subsection \<open>A request from start to end\<close>

text \<open>
  What happens during one run of the client: the current directory, the system's answers, whether
  the threads start and the command is sent, what the reading and the writing thread return.
\<close>

record session =
  SessionCwd :: "string option"
  SessionOs :: "int \<Rightarrow> attempt"
  OutThreadStarts :: bool
  SendSucceeds :: bool
  InThreadStarts :: bool
  OutThreadCode :: int
  InThreadCode :: int

definition startServerAndSend :: "32 word \<Rightarrow> session \<Rightarrow> string list \<Rightarrow> int" where
  "startServerAndSend v0 x argv =
     (let (result, command, server_id) = scanCommandLine v0 (SessionCwd x) argv
      in if result = CliError then 1
         else if result = CommandsRequest then 0
         else if result = ResetRequest \<and> server_id = 0 then 0
         else case connect (SessionOs x) \<lparr>ClientServerId = server_id, LockHeld = None\<rparr> of
                None \<Rightarrow> 1
              | Some (connected, c) \<Rightarrow>
                  if \<not> connected then 1
                  else if \<not> OutThreadStarts x then 1
                  else if \<not> SendSucceeds x then 1
                  else let from_stdin = (last argv = ''-'')
                       in if from_stdin \<and> \<not> InThreadStarts x then 1
                          else if OutThreadCode x = NotFoundExitCode then 1
                          else if OutThreadCode x \<noteq> 0 then OutThreadCode x
                          else if from_stdin \<and> InThreadCode x \<noteq> 0 then InThreadCode x
                          else 0)"

lemma exit_code_char: "code \<in> {0, 1, 2} \<Longrightarrow> is_exit_code (char_of code) \<and> of_char (char_of code) = int code"
  for code :: nat
proof -
  have "char_of (0::nat) = CHR 0x00" "char_of (1::nat) = CHR 0x01" "char_of (2::nat) = CHR 0x02"
    by code_simp+
  then show "code \<in> {0, 1, 2} \<Longrightarrow> is_exit_code (char_of code) \<and> of_char (char_of code) = int code"
    by (auto simp: is_exit_code_def)
qed

text \<open>
  C15 (refinement): a compile request from start to end. The client sends its arguments, the last of
  which is not the standard input, to a server it could connect to; its threads start and the sending
  succeeds; the server performs the request of the lines it reads; it writes some output and then
  its exit code, and errors; they arrive in any order, in chunks of which none but the last of the
  output ends in a byte with the value of an exit code. Then the client has reproduced both texts
  and returns the exit code that the request has on the server.
\<close>

theorem client_returns_server_code:
  assumes "list_all sendable argv" "newline \<notin> set dir" "last argv \<noteq> ''-''"
    and "SessionCwd x = Some dir" "OutThreadStarts x" "SendSucceeds x"
    and "connect (SessionOs x) \<lparr>ClientServerId = 0, LockHeld = None\<rparr> = Some (True, c)"
    and "performCompile env chdir us now
           (getlines (fst (snd (scanCommandLine uninit (Some dir) argv)))) s = (code, errors, s')"
    and "concat out = data @ [char_of code]" "[] \<notin> set out" "concat err = errors" "[] \<notin> set err"
    and "no_code_at_end (butlast out)" "no_code_at_end err"
    and "blocking_select True turns (start_reader out err)" "length out + length err + 2 \<le> length turns"
    and "OutThreadCode x = fst (the (readServerOutput True out err turns))"
  shows "performCompile env chdir us now (dir # argv @ [[]]) s = (code, errors, s') \<and>
    readServerOutput True out err turns = Some (int code, data, errors) \<and>
    startServerAndSend uninit x argv = int code"
proof -
  have ec: "is_exit_code (char_of code)" "of_char (char_of code) = int code"
    using exit_code_char[OF performCompile_code[OF assms(8)]] by simp_all
  have out: "readServerOutput True out err turns = Some (int code, data, errors)"
    using reader_delivers[OF assms(9-12) ec(1) assms(13-16)] by (simp add: ec(2))
  have "int code \<noteq> NotFoundExitCode" by (simp add: NotFoundExitCode_def)
  moreover have "getlines (print_lines (dir # argv) @ [newline]) = dir # argv @ [[]]"
    using sent_command(2)[OF assms(1,2), of "[]"] by (simp add: getlines.simps)
  ultimately show ?thesis using assms(3-8,17) out
    by (simp add: startServerAndSend_def sent_command(1)[OF assms(1,2)])
qed

lemma client_returns_server_code_witness:
  "startServerAndSend 0 \<lparr>SessionCwd = Some ''/w'', SessionOs = locked_below 2, OutThreadStarts = True,
     SendSucceeds = True, InThreadStarts = True, OutThreadCode = 0, InThreadCode = 0\<rparr> [''-cc1'', ''a.cpp''] = 0"
proof -
  let ?x = "\<lparr>SessionCwd = Some ''/w'', SessionOs = locked_below 2, OutThreadStarts = True,
     SendSucceeds = True, InThreadStarts = True, OutThreadCode = 0, InThreadCode = 0\<rparr>"
  obtain c where c: "connect (locked_below 2) \<lparr>ClientServerId = 0, LockHeld = None\<rparr> = Some (True, c)"
    using connectToAny_loop_result[of "\<lparr>ClientServerId = 0, LockHeld = None\<rparr>" "locked_below 2" "map int [1..<257]"]
    unfolding connect_def connectToAny_def upto_2 by (auto simp: locked_below_result)
  have ok: "list_all sendable [''-cc1'', ''a.cpp'']" "newline \<notin> set ''/w''"
    by (simp_all add: sendable_def switches)
  have lines: "getlines (fst (snd (scanCommandLine 0 (Some ''/w'') [''-cc1'', ''a.cpp'']))) = one_shot_request"
    using sent_command(1)[OF ok, of 0] sent_command(2)[OF ok, of "[]"]
    by (simp add: one_shot_request_def getlines.simps)
  obtain s' where run: "performCompile one_shot Some no_patterns 1 one_shot_request one_shot_start = (0, [], s')"
    using one_shot_first_request by (metis prod.collapse)
  have nul: "char_of (0::nat) = CHR 0x00" by code_simp
  have "performCompile one_shot Some no_patterns 1 (''/w'' # [''-cc1'', ''a.cpp''] @ [[]]) one_shot_start = (0, [], s') \<and>
      readServerOutput True [[CHR 0x00]] [] (replicate 3 (Some (True, True))) = Some (int 0, [], []) \<and>
      startServerAndSend 0 ?x [''-cc1'', ''a.cpp''] = int 0"
    by (rule client_returns_server_code[where c = c])
      (use ok c run lines nul in \<open>simp_all add: no_code_at_end_def blocking_select.simps numeral_eq_Suc start_reader_def
        read_turn_def read_stream_def findExitCode_def is_exit_code_def readServerOutput_def
        readServerOutput_loop.simps\<close>)
  then show ?thesis by simp
qed

end
