(* ===== verification/FDMapping.thy ===== *)
theory FDMapping
  imports Prelude
begin

text \<open>
  Which file declares what: \<^verbatim>\<open>tools/zapccs/FDMapping.h\<close>, two maps that have to be inverse to
  each other. Declarations and files are numbered. The set of a file is a list without duplicates
  in the order of insertion.
\<close>

subsection \<open>Small sets\<close>

definition set_add :: "'a \<Rightarrow> 'a list \<Rightarrow> 'a list" where
  "set_add x xs = (if x \<in> set xs then xs else xs @ [x])"

lemma set_set_add [simp]: "set (set_add x xs) = insert x (set xs)"
  by (auto simp: set_add_def)

lemma distinct_set_add [simp]: "distinct xs \<Longrightarrow> distinct (set_add x xs)"
  by (simp add: set_add_def)

subsection \<open>The two maps\<close>

type_synonym decl = nat
type_synonym "file" = nat

record fd_mapping =
  FileDecls :: "file \<Rightarrow> decl list option"
  DeclFiles :: "decl \<Rightarrow> file option"

definition fd_empty :: fd_mapping where
  "fd_empty = \<lparr>FileDecls = (\<lambda>_. None), DeclFiles = (\<lambda>_. None)\<rparr>"

definition fd_find_file :: "fd_mapping \<Rightarrow> file \<Rightarrow> decl list option" where
  "fd_find_file m fe = FileDecls m fe"

definition fd_find_decl :: "fd_mapping \<Rightarrow> decl \<Rightarrow> file option" where
  "fd_find_decl m d = DeclFiles m d"

text \<open>
  \<open>erase\<close> of a declaration. The assertion that the file is known is the \<open>None\<close> of the inner case,
  which the invariant excludes.
\<close>

definition fd_erase_decl :: "decl \<Rightarrow> fd_mapping \<Rightarrow> fd_mapping" where
  "fd_erase_decl d m =
     (case DeclFiles m d of
        None \<Rightarrow> m
      | Some fe \<Rightarrow>
          (case FileDecls m fe of
             None \<Rightarrow> m\<lparr>DeclFiles := (DeclFiles m)(d := None)\<rparr>
           | Some ds \<Rightarrow> m\<lparr>FileDecls := (FileDecls m)(fe \<mapsto> removeAll d ds),
                          DeclFiles := (DeclFiles m)(d := None)\<rparr>))"

definition fd_erase_file :: "file \<Rightarrow> fd_mapping \<Rightarrow> fd_mapping" where
  "fd_erase_file fe m =
     (case FileDecls m fe of
        None \<Rightarrow> m
      | Some ds \<Rightarrow> m\<lparr>FileDecls := (FileDecls m)(fe := None),
                     DeclFiles := fold (\<lambda>d f. f(d := None)) ds (DeclFiles m)\<rparr>)"

definition fd_insert :: "decl \<Rightarrow> file \<Rightarrow> fd_mapping \<Rightarrow> fd_mapping" where
  "fd_insert d fe m =
     (let m' = fd_erase_decl d m;
          ds = (case FileDecls m' fe of None \<Rightarrow> [] | Some ds \<Rightarrow> ds)
      in m'\<lparr>FileDecls := (FileDecls m')(fe \<mapsto> set_add d ds),
            DeclFiles := (DeclFiles m')(d \<mapsto> fe)\<rparr>)"

definition fd_decls :: "fd_mapping \<Rightarrow> file \<Rightarrow> decl list" where
  "fd_decls m fe = (case FileDecls m fe of None \<Rightarrow> [] | Some ds \<Rightarrow> ds)"

subsection \<open>The contract\<close>

text \<open>
  What a client of the maps relies on, as an interface: the two lookups agree, and the updates act
  on the file of a declaration as on a function.
\<close>

locale decl_index =
  fixes ok :: "'m \<Rightarrow> bool"
    and file_of :: "'m \<Rightarrow> 'd \<Rightarrow> 'f option"
    and decls_of :: "'m \<Rightarrow> 'f \<Rightarrow> 'd list"
    and add :: "'d \<Rightarrow> 'f \<Rightarrow> 'm \<Rightarrow> 'm"
    and remove_decl :: "'d \<Rightarrow> 'm \<Rightarrow> 'm"
    and remove_file :: "'f \<Rightarrow> 'm \<Rightarrow> 'm"
  assumes decls_iff: "ok m \<Longrightarrow> d \<in> set (decls_of m f) \<longleftrightarrow> file_of m d = Some f"
    and distinct_decls: "ok m \<Longrightarrow> distinct (decls_of m f)"
    and ok_add: "ok m \<Longrightarrow> ok (add d f m)"
    and ok_remove_decl: "ok m \<Longrightarrow> ok (remove_decl d m)"
    and ok_remove_file: "ok m \<Longrightarrow> ok (remove_file f m)"
    and file_of_add: "ok m \<Longrightarrow> file_of (add d f m) e = (if e = d then Some f else file_of m e)"
    and file_of_remove_decl: "ok m \<Longrightarrow> file_of (remove_decl d m) e = (if e = d then None else file_of m e)"
    and file_of_remove_file: "ok m \<Longrightarrow>
      file_of (remove_file f m) e = (if file_of m e = Some f then None else file_of m e)"
begin

lemma ok_add_all: "ok m \<Longrightarrow> ok (fold (\<lambda>(d, f). add d f) ps m)"
  by (induction ps arbitrary: m) (auto simp: ok_add split: prod.split)

lemma file_of_add_all:
  "ok m \<Longrightarrow> file_of (fold (\<lambda>(d, f). add d f) ps m) e =
     (case map_of (rev ps) e of Some f \<Rightarrow> Some f | None \<Rightarrow> file_of m e)"
proof (induction ps arbitrary: m)
  case (Cons p ps)
  obtain d f where p: "p = (d, f)" by (cases p)
  have "file_of (fold (\<lambda>(d, f). add d f) (p # ps) m) e =
      (case map_of (rev ps) e of Some f \<Rightarrow> Some f | None \<Rightarrow> file_of (add d f m) e)"
    using Cons.IH[of "add d f m"] ok_add[OF Cons.prems] p by simp
  then show ?case using file_of_add[OF Cons.prems] p
    by (auto simp: map_add_def split: option.split)
qed simp

lemma remove_file_empties: "ok m \<Longrightarrow> decls_of (remove_file f m) f = []"
proof -
  assume ok: "ok m"
  have "d \<notin> set (decls_of (remove_file f m) f)" for d
    using decls_iff[OF ok_remove_file[OF ok]] file_of_remove_file[OF ok] by simp
  then show ?thesis by (cases "decls_of (remove_file f m) f") auto
qed

end

subsection \<open>The maps fulfil it\<close>

definition fd_ok :: "fd_mapping \<Rightarrow> bool" where
  "fd_ok m \<longleftrightarrow> (\<forall>d fe. d \<in> set (fd_decls m fe) \<longleftrightarrow> DeclFiles m d = Some fe) \<and>
     (\<forall>fe. distinct (fd_decls m fe))"

text \<open>The assertion of \<open>fd_erase_decl\<close> holds: a file that a declaration is mapped to is known.\<close>

lemma fd_ok_file_known: "fd_ok m \<Longrightarrow> DeclFiles m d = Some fe \<Longrightarrow> FileDecls m fe \<noteq> None"
proof -
  assume "fd_ok m" "DeclFiles m d = Some fe"
  then have "d \<in> set (fd_decls m fe)" by (simp add: fd_ok_def)
  then show ?thesis by (cases "FileDecls m fe") (simp_all add: fd_decls_def)
qed

lemma fd_ok_empty: "fd_ok fd_empty"
  by (simp add: fd_ok_def fd_empty_def fd_decls_def)

lemma fold_clear: "fold (\<lambda>d f. f(d := None)) ds g e = (if e \<in> set ds then None else g e)"
  by (induction ds arbitrary: g) auto

lemma fd_erase_decl_maps:
  assumes "fd_ok m"
  shows "DeclFiles (fd_erase_decl d m) = (DeclFiles m)(d := None)"
    "fd_decls (fd_erase_decl d m) fe = removeAll d (fd_decls m fe)"
proof -
  have "removeAll d (fd_decls m fe) = fd_decls m fe" if "DeclFiles m d \<noteq> Some fe"
    using assms that by (simp add: fd_ok_def)
  with assms show "fd_decls (fd_erase_decl d m) fe = removeAll d (fd_decls m fe)"
    by (fastforce simp: fd_erase_decl_def fd_decls_def fd_ok_def split: option.splits)
  show "DeclFiles (fd_erase_decl d m) = (DeclFiles m)(d := None)"
    by (auto simp: fd_erase_decl_def split: option.splits)
qed

lemma fd_ok_erase_decl: "fd_ok m \<Longrightarrow> fd_ok (fd_erase_decl d m)"
  by (simp add: fd_ok_def[of "fd_erase_decl d m"] fd_erase_decl_maps) (auto simp: fd_ok_def distinct_removeAll)

lemma fd_erase_file_maps:
  "DeclFiles (fd_erase_file fe m) e = (if e \<in> set (fd_decls m fe) then None else DeclFiles m e)"
  "fd_decls (fd_erase_file fe m) g = (if g = fe then [] else fd_decls m g)"
  by (auto simp: fd_erase_file_def fd_decls_def fold_clear split: option.splits)

lemma fd_ok_erase_file: "fd_ok m \<Longrightarrow> fd_ok (fd_erase_file fe m)"
  by (auto simp: fd_ok_def fd_erase_file_maps)

lemma fd_insert_maps:
  assumes "fd_ok m"
  shows "DeclFiles (fd_insert d fe m) = (DeclFiles m)(d \<mapsto> fe)"
    "fd_decls (fd_insert d fe m) g =
       (if g = fe then set_add d (removeAll d (fd_decls m g)) else removeAll d (fd_decls m g))"
  using fd_erase_decl_maps[OF assms]
  by (auto simp: fd_insert_def Let_def) (auto simp: fd_decls_def split: option.splits)

lemma fd_ok_insert: "fd_ok m \<Longrightarrow> fd_ok (fd_insert d fe m)"
  by (simp add: fd_ok_def[of "fd_insert d fe m"] fd_insert_maps) (auto simp: fd_ok_def distinct_removeAll)

interpretation fdm: decl_index fd_ok fd_find_decl fd_decls fd_insert fd_erase_decl fd_erase_file
proof
  fix m d e f
  assume ok: "fd_ok m"
  show "d \<in> set (fd_decls m f) \<longleftrightarrow> fd_find_decl m d = Some f" "distinct (fd_decls m f)"
    using ok by (auto simp: fd_ok_def fd_find_decl_def)
  show "fd_ok (fd_insert d f m)" "fd_ok (fd_erase_decl d m)" "fd_ok (fd_erase_file f m)"
    using ok by (simp_all add: fd_ok_insert fd_ok_erase_decl fd_ok_erase_file)
  show "fd_find_decl (fd_insert d f m) e = (if e = d then Some f else fd_find_decl m e)"
    "fd_find_decl (fd_erase_decl d m) e = (if e = d then None else fd_find_decl m e)"
    using ok by (simp_all add: fd_find_decl_def fd_insert_maps fd_erase_decl_maps)
  show "fd_find_decl (fd_erase_file f m) e = (if fd_find_decl m e = Some f then None else fd_find_decl m e)"
    using ok by (auto simp: fd_find_decl_def fd_erase_file_maps fd_ok_def)
qed

end
