(* ===== verification/Ast.thy ===== *)
theory Ast
  imports FDMapping
begin

text \<open>
  The syntax trees of clang, as far as the dependency map looks at them. Declarations, types,
  nested name specifiers and files are nodes, referred to by number as the code refers to them by
  pointer; a null pointer is \<open>None\<close>. Statements, expressions, template arguments and template
  names are trees inside the nodes. The fields of a constructor are the values of the getters the
  dependency map calls on a node of that class, in the order of its calls.
\<close>

subsection \<open>Nodes\<close>

type_synonym type_id = nat
type_synonym nns_id = nat

datatype (plugins only: size code) node = DeclN decl | TypeN type_id | NnsN nns_id | FileN "file"

text \<open>A \<^verbatim>\<open>QualType\<close> without its qualifiers, null or not; a \<^verbatim>\<open>TypeSourceInfo\<close>, null or with a type.\<close>

type_synonym qual_type = "type_id option"
type_synonym tsi = "qual_type option"

subsection \<open>Statements and expressions\<close>

datatype cast_kind = BaseToDerived | BitCast | UncheckedDerivedToBase | DerivedToBase | Dynamic | OtherCast

text \<open>
  A cast: \<open>Some\<close> type as written when it is explicit, its kind, the type of the operand, the base
  specifiers of its path.
\<close>

datatype cast_expr = CastExpr "tsi option" cast_kind qual_type "tsi list"

datatype (plugins only: size code) stmt = Stmt "stmt option list" stmt_class
and stmt_class =
    ExprStmt qual_type "cast_expr option" expr_class
  | DeclStmt "decl option list"
  | LabelStmt "decl option"
  | IfStmt "decl option"
  | SwitchStmt "decl option"
  | WhileStmt "decl option"
  | ForStmt "decl option"
  | GotoStmt "decl option"
  | IndirectGotoStmt "decl option"
  | ReturnStmt "decl option"
  | CapturedStmt "decl option" "decl option"
  | CXXCatchStmt "decl option"
  | CXXForRangeStmt "decl option"
  | CoroutineBodyStmt "decl option"
  | OtherStmt
and expr_class =
    DeclRefExpr "nns_id option" "decl option"
  | UnaryOperator bool qual_type
  | BinaryOperator bool qual_type qual_type
  | CompoundAssignOperator qual_type
  | OffsetOfExpr tsi "decl option list"
  | UnaryExprOrTypeTraitExpr "tsi option"
  | ArraySubscriptExpr qual_type
  | MemberExpr "decl option" "nns_id option"
  | CompoundLiteralExpr tsi
  | AddrLabelExpr "decl option"
  | BlockExpr "decl option"
  | CXXTypeidOfType tsi
  | CXXTypeidOfExpr "stmt option"
  | MSPropertyRefExpr "decl option"
  | CXXUuidofExpr "tsi option"
  | CXXDefaultArgExpr "decl option"
  | CXXDefaultInitExpr "decl option"
  | CXXBindTemporaryExpr "decl option"
  | CXXConstructExpr "decl option" "tsi option"
  | LambdaExpr "decl option" "(bool \<times> decl option) list"
  | CXXScalarValueInitExpr tsi
  | CXXNewExpr tsi "decl option" "decl option"
  | CXXDeleteExpr "decl option"
  | CXXPseudoDestructorExpr "nns_id option" tsi tsi
  | ArrayTypeTraitExpr tsi
  | UnresolvedLookupExpr "template_argument list" "nns_id option" "decl option"
  | UnresolvedMemberExpr "template_argument list" "nns_id option" qual_type
  | DependentScopeDeclRefExpr "nns_id option" "template_argument list"
  | CXXUnresolvedConstructExpr tsi
  | CXXDependentScopeMemberExpr bool qual_type "nns_id option" "decl option"
  | SizeOfPackExpr "decl option"
  | SubstNonTypeTemplateParmPackExpr "decl option"
  | SubstNonTypeTemplateParmExpr "decl option"
  | FunctionParmPackExpr "decl option" "decl option list"
  | MaterializeTemporaryExpr "decl option"
  | ObjCProtocolExpr "decl option"
  | ObjCIvarRefExpr "decl option"
  | ObjCImplicitPropertyRefExpr "decl option" "decl option"
  | ObjCExplicitPropertyRefExpr "decl option"
  | ObjCSubscriptRefExpr "decl option" "decl option"
  | ObjCMessageExpr "decl option"
  | OtherExpr
and template_argument =
    TemplateArgumentNull
  | TemplateArgumentNullPtr
  | TemplateArgumentIntegral
  | TemplateArgumentType qual_type
  | TemplateArgumentDeclaration "decl option" qual_type
  | TemplateArgumentTemplate template_name
  | TemplateArgumentTemplateExpansion template_name
  | TemplateArgumentExpression "stmt option"
  | TemplateArgumentPack "template_argument list"
and template_name =
    TemplateTN "decl option"
  | OverloadedTemplateTN "decl option list"
  | QualifiedTemplateTN "nns_id option" "decl option"
  | DependentTemplateTN "nns_id option"
  | SubstTemplateTemplateParmTN "decl option" template_name
  | SubstTemplateTemplateParmPackTN "decl option" template_argument

subsection \<open>Types\<close>

datatype (plugins only: size code) type_kind =
    BuiltinType
  | ComplexType qual_type
  | ParenType qual_type
  | AdjustedType qual_type qual_type
  | DecayedType qual_type qual_type qual_type
  | PointerType qual_type
  | BlockPointerType qual_type
  | LValueReferenceType qual_type
  | RValueReferenceType qual_type
  | MemberPointerType qual_type "type_id option"
  | ConstantArrayType qual_type
  | IncompleteArrayType qual_type
  | VariableArrayType "stmt option" qual_type
  | DependentSizedArrayType "stmt option" qual_type
  | DependentSizedExtVectorType "stmt option" qual_type
  | VectorType qual_type
  | ExtVectorType qual_type
  | FunctionProtoType qual_type "qual_type list" "qual_type list" "qual_type list" "stmt option"
      "decl option" "decl option"
  | FunctionNoProtoType qual_type
  | UnresolvedUsingType "decl option"
  | TypedefType "decl option"
  | TypeOfExprType "stmt option"
  | TypeOfType qual_type
  | DecltypeType "stmt option" bool qual_type
  | UnaryTransformType qual_type qual_type
  | EnumType "decl option"
  | RecordType "decl option"
  | AttributedType qual_type qual_type
  | TemplateTypeParmType bool "decl option"
  | SubstTemplateTypeParmType qual_type "type_id option"
  | SubstTemplateTypeParmPackType "type_id option" template_argument
  | AutoType bool qual_type
  | DeducedTemplateSpecializationType template_name
  | TemplateSpecializationType template_name bool qual_type "template_argument list"
  | InjectedClassNameType "decl option" qual_type
  | ElaboratedType qual_type "nns_id option"
  | DependentNameType "nns_id option"
  | DependentTemplateSpecializationType "template_argument list" "nns_id option"
  | PackExpansionType qual_type
  | ObjCObjectType qual_type
  | ObjCInterfaceType qual_type "decl option"
  | ObjCObjectPointerType qual_type
  | ObjCTypeParamType "decl option"
  | AtomicType qual_type
  | PipeType qual_type
  | DependentAddressSpaceType stmt qual_type

text \<open>
  A type: its canonical type, its class, whether it is dependent, its unqualified desugared type,
  what \<open>getPointeeType\<close> and, for an array, \<open>getElementType\<close> return, whether it is some pointer, and
  whether the expression below a decltype is instantiation dependent.
\<close>

record type_node =
  CanonicalType :: type_id
  TypeClass :: type_kind
  IsDependent :: bool
  IsAnyPointer :: bool
  Desugared :: type_id
  Pointee :: qual_type
  ArrayElement :: "qual_type option"
  ExprInstantiationDependent :: bool

record nns_node =
  NnsPrefix :: "nns_id option"
  NnsRawDecl :: "decl option"
  NnsType :: "type_id option"

subsection \<open>Declarations\<close>

type_synonym template_parameters = "decl option list"

text \<open>What the classes of declarations that derive from one another share.\<close>

datatype declarator_part = Declarator tsi "nns_id option" "template_parameters list"

datatype tag_part = Tag "type_id option" "(decl \<times> bool) list"
  \<comment> \<open>its type; its members, with the lambda classes marked\<close>

datatype cxx_record_part = CXXRecord bool "tsi list"
  \<comment> \<open>whether this is the complete definition; the types of the bases\<close>

datatype specialization_part =
    OfTemplate "template_argument list" tsi "decl option"
  | OfPartial "template_argument list" tsi "decl option" "template_argument list"

datatype template_part = Template template_parameters "decl option" "stmt option"

datatype typedef_part = Typedef "type_id option" qual_type bool tsi
  \<comment> \<open>its type, the underlying type, \<open>isModed\<close>, the type as written\<close>

datatype function_part =
  Function declarator_part qual_type "qual_type option" "decl option list"
    "template_argument list option" "decl option" "decl option" "decl option" bool "stmt option"
  \<comment> \<open>its type, the return type of a function type, parameters, template arguments, described and
      primary template, the member it is instantiated from, whether it has a body, the body\<close>

datatype var_part = Var declarator_part "stmt option" "decl option"

datatype ctor_initializer = CtorInitializer tsi "decl option" "stmt option"

datatype (plugins only: size code) decl_kind =
    TranslationUnitDecl
  | NamespaceDecl
  | NamespaceAliasDecl "nns_id option" "decl option"
  | LabelDecl "stmt option"
  | StaticAssertDecl "stmt option"
  | FriendDecl tsi "decl option" "template_parameters list"
  | FunctionTemplateDecl template_part
  | ClassTemplateDecl template_part
  | VarTemplateDecl template_part
  | TypeAliasTemplateDecl template_part
  | BuiltinTemplateDecl template_part
  | TemplateTemplateParmDecl template_part "template_parameters list option"
  | TypedefDecl typedef_part
  | TypeAliasDecl typedef_part "decl option"
  | ObjCTypeParamDecl typedef_part
  | EnumDecl tag_part "decl option"
  | RecordDecl tag_part
  | CXXRecordDecl tag_part cxx_record_part
  | ClassTemplateSpecializationDecl tag_part cxx_record_part specialization_part
  | ClassTemplatePartialSpecializationDecl tag_part cxx_record_part specialization_part template_parameters
  | TemplateTypeParmDecl "type_id option" "qual_type option"
  | UnresolvedUsingTypenameDecl "type_id option" "nns_id option"
  | UsingDecl "decl option" "nns_id option"
  | UsingPackDecl "decl option" "decl option list"
  | UsingShadowDecl "decl option" "decl option"
  | ConstructorUsingShadowDecl "decl option" "decl option" "decl option" "decl option"
  | UsingDirectiveDecl "nns_id option" "decl option" "decl option"
  | BindingDecl "stmt option"
  | EnumConstantDecl "stmt option"
  | IndirectFieldDecl "decl option list"
  | UnresolvedUsingValueDecl
  | BlockDecl "stmt option" "decl option list" tsi
  | CapturedDecl "decl option list" "decl option"
  | ClassScopeFunctionSpecializationDecl "decl option"
  | FieldDecl declarator_part qual_type "stmt option"
  | ObjCIvarDecl declarator_part qual_type "stmt option"
  | ObjCAtDefsFieldDecl declarator_part qual_type "stmt option"
  | FunctionDecl function_part
  | CXXDeductionGuideDecl function_part
  | CXXMethodDecl function_part
  | CXXConstructorDecl function_part "ctor_initializer list"
  | CXXDestructorDecl function_part "decl option"
  | CXXConversionDecl function_part
  | MSPropertyDecl declarator_part
  | NonTypeTemplateParmDecl declarator_part "qual_type list option" "stmt option option"
  | VarDecl var_part
  | ImplicitParamDecl var_part
  | OMPCapturedExprDecl var_part
  | ParmVarDecl var_part qual_type
  | VarTemplateSpecializationDecl var_part "template_argument list"
  | VarTemplatePartialSpecializationDecl var_part "template_argument list"
  | DecompositionDecl var_part "decl option list"
  | OtherDecl

text \<open>
  A declaration: its class, its semantic and lexical context (null only for the translation unit),
  and what the functions about redeclarations, specialisations and contexts ask: the most recent
  and the previous declaration of its chain, the definition of a class, the described class
  template, whether it is an explicit specialisation, undeclared as a specialisation or not a
  template, what \<open>dependsOn\<close> asks of a variable; and of a context: whether it is a file context,
  its redeclaration context, its parent. \<open>VirtualMethods\<close> are the methods of the class of a
  virtual method. \<open>BodyDecl\<close> is the redeclaration of a function whose body \<^verbatim>\<open>getBody\<close> returns,
  \<open>LocFile\<close> the file where the declaration starts.
\<close>

datatype specialization_kind = TSK_Undeclared | TSK_ImplicitInstantiation | TSK_ExplicitSpecialization
  | TSK_ExplicitInstantiationDeclaration | TSK_ExplicitInstantiationDefinition

record decl_node =
  Kind :: decl_kind
  SemanticDC :: "decl option"
  LexicalDC :: "decl option"
  MostRecentDecl :: decl
  PreviousDecl :: "decl option"
  Definition :: "decl option"
  DescribedClassTemplate :: "decl option"
  SpecializationKind :: specialization_kind
  IsNonTemplate :: bool
  IsOutOfLine :: bool
  IsStaticDataMember :: bool
  IsFileContext :: bool
  RedeclContext :: decl
  ParentContext :: "decl option"
  VirtualMethods :: "decl list option"
  BodyDecl :: "decl option"
  LocFile :: "file option"

subsection \<open>The store\<close>

text \<open>A file: its name, the modification time it was read with, what \<^verbatim>\<open>status\<close> says now.\<close>

record file_node =
  FileName :: string
  ModificationTime :: int
  StatusTime :: "int option"

record store =
  Decls :: "decl_node list"
  Types :: "type_node list"
  NestedNames :: "nns_node list"
  Files :: "file_node list"

definition valid_node :: "store \<Rightarrow> node \<Rightarrow> bool" where
  "valid_node st n =
     (case n of
        DeclN d \<Rightarrow> d < length (Decls st)
      | TypeN t \<Rightarrow> t < length (Types st)
      | NnsN k \<Rightarrow> k < length (NestedNames st)
      | FileN f \<Rightarrow> f < length (Files st))"

definition all_nodes :: "store \<Rightarrow> node list" where
  "all_nodes st = map DeclN [0..<length (Decls st)] @ map TypeN [0..<length (Types st)] @
     map NnsN [0..<length (NestedNames st)] @ map FileN [0..<length (Files st)]"

lemma set_all_nodes: "set (all_nodes st) = {n. valid_node st n}"
proof (rule set_eqI)
  show "n \<in> set (all_nodes st) \<longleftrightarrow> n \<in> {n. valid_node st n}" for n
    by (cases n) (auto simp: all_nodes_def valid_node_def)
qed

lemma distinct_all_nodes: "distinct (all_nodes st)"
  by (auto simp: all_nodes_def distinct_map inj_on_def)

abbreviation decl_at :: "store \<Rightarrow> decl \<Rightarrow> decl_node" where
  "decl_at st d \<equiv> Decls st ! d"

abbreviation type_at :: "store \<Rightarrow> type_id \<Rightarrow> type_node" where
  "type_at st t \<equiv> Types st ! t"

end
