(* ===== verification/Dependees.thy ===== *)
theory Dependees
  imports Ast
begin

text \<open>
  What a node depends on: the visitors of \<^verbatim>\<open>tools/zapccs/DependencyMap.cpp\<close>. The only effect
  of the visitors is to call \<open>findIn\<close> on declarations, types, name specifiers and files, so a
  visitor is the list of the nodes it calls it on, in its order. Null pointers, the translation
  unit and built-in types are left out where the code returns before its prologue. A call of
  \<^verbatim>\<open>findInDeclContext\<close> is one on the declaration the context is.
\<close>

subsection \<open>Calls on nodes\<close>

definition in_decl :: "store \<Rightarrow> decl option \<Rightarrow> node list" where
  "in_decl st d =
     (case d of None \<Rightarrow> []
      | Some d \<Rightarrow> if Kind (decl_at st d) = TranslationUnitDecl then [] else [DeclN d])"

definition in_decls :: "store \<Rightarrow> decl option list \<Rightarrow> node list" where
  "in_decls st ds = concat (map (in_decl st) ds)"

definition in_nns :: "nns_id option \<Rightarrow> node list" where
  "in_nns k = (case k of None \<Rightarrow> [] | Some k \<Rightarrow> [NnsN k])"

text \<open>
  \<^verbatim>\<open>isBuiltinDependent\<close> follows pointers. \<open>fuel\<close> bounds the steps: types are built from other
  types, so the number of types is enough.
\<close>

fun isBuiltinDependent :: "nat \<Rightarrow> store \<Rightarrow> type_id \<Rightarrow> bool" where
  "isBuiltinDependent 0 st t = False"
| "isBuiltinDependent (Suc fuel) st t =
     (if IsAnyPointer (type_at st t)
      then (case Pointee (type_at st t) of None \<Rightarrow> False | Some p \<Rightarrow> isBuiltinDependent fuel st p)
      else TypeClass (type_at st t) = BuiltinType)"

definition in_type :: "store \<Rightarrow> type_id option \<Rightarrow> node list" where
  "in_type st t =
     (case t of None \<Rightarrow> []
      | Some t \<Rightarrow> if isBuiltinDependent (length (Types st)) st t then [] else [TypeN t])"

definition in_qual_type :: "store \<Rightarrow> qual_type \<Rightarrow> node list" where
  "in_qual_type st qt = in_type st qt"

definition in_qual_types :: "store \<Rightarrow> qual_type list \<Rightarrow> node list" where
  "in_qual_types st qts = concat (map (in_qual_type st) qts)"

definition in_tsi :: "store \<Rightarrow> tsi \<Rightarrow> node list" where
  "in_tsi st t = (case t of None \<Rightarrow> [] | Some qt \<Rightarrow> in_qual_type st qt)"

definition in_template_parameters :: "store \<Rightarrow> template_parameters \<Rightarrow> node list" where
  "in_template_parameters st tpl = in_decls st tpl"

subsection \<open>The base of a type\<close>

text \<open>
  \<^verbatim>\<open>getBaseType\<close>: desugar, then follow a pointee or an element type. \<open>fuel\<close> as above; the lemma
  \<open>getBaseType_base\<close> below shows that it is enough.
\<close>

fun getBaseType :: "nat \<Rightarrow> store \<Rightarrow> type_id \<Rightarrow> type_id" where
  "getBaseType 0 st t = t"
| "getBaseType (Suc fuel) st t =
     (let d = Desugared (type_at st t)
      in case Pointee (type_at st d) of
           Some p \<Rightarrow> getBaseType fuel st p
         | None \<Rightarrow>
             (case ArrayElement (type_at st d) of
                Some (Some e) \<Rightarrow> getBaseType fuel st e
              | _ \<Rightarrow> d))"

fun getAsTemplateDecl :: "template_name \<Rightarrow> decl option" where
  "getAsTemplateDecl (TemplateTN d) = d"
| "getAsTemplateDecl (QualifiedTemplateTN q d) = d"
| "getAsTemplateDecl (SubstTemplateTemplateParmTN d tn) = getAsTemplateDecl tn"
| "getAsTemplateDecl tn = None"

definition templatedDecl :: "decl_kind \<Rightarrow> decl option" where
  "templatedDecl k =
     (case k of
        FunctionTemplateDecl (Template tpl d c) \<Rightarrow> d
      | ClassTemplateDecl (Template tpl d c) \<Rightarrow> d
      | VarTemplateDecl (Template tpl d c) \<Rightarrow> d
      | TypeAliasTemplateDecl (Template tpl d c) \<Rightarrow> d
      | BuiltinTemplateDecl (Template tpl d c) \<Rightarrow> d
      | TemplateTemplateParmDecl (Template tpl d c) e \<Rightarrow> d
      | _ \<Rightarrow> None)"

definition isCXXRecordDecl :: "decl_kind \<Rightarrow> bool" where
  "isCXXRecordDecl k =
     (case k of CXXRecordDecl t r \<Rightarrow> True
      | ClassTemplateSpecializationDecl t r s \<Rightarrow> True
      | ClassTemplatePartialSpecializationDecl t r s p \<Rightarrow> True
      | _ \<Rightarrow> False)"

subsection \<open>Statements, expressions, template arguments and names\<close>

text \<open>
  \<^verbatim>\<open>findInQualTypeDefinition\<close>, with the nodes of the template arguments of the base type, which
  it calls back into, as an argument. A null type is undefined behaviour in the code; here it
  gives nothing.
\<close>

definition in_qual_type_definition ::
    "(template_argument list \<Rightarrow> node list) \<Rightarrow> store \<Rightarrow> qual_type \<Rightarrow> node list" where
  "in_qual_type_definition in_args st qt =
     (case qt of None \<Rightarrow> []
      | Some t \<Rightarrow>
          (let base = getBaseType (length (Types st)) st t
           in (case TypeClass (type_at st base) of
                 EnumType d \<Rightarrow> in_decl st (Option.bind d (\<lambda>d. Definition (decl_at st d)))
               | RecordType d \<Rightarrow> in_decl st (Option.bind d (\<lambda>d. Definition (decl_at st d)))
               | TemplateSpecializationType tn alias aliased args \<Rightarrow>
                   in_args args @
                   (case Option.bind (getAsTemplateDecl tn) (\<lambda>td. templatedDecl (Kind (decl_at st td))) of
                      None \<Rightarrow> []
                    | Some nd \<Rightarrow> if isCXXRecordDecl (Kind (decl_at st nd))
                                then in_decl st (Definition (decl_at st nd)) else [])
               | _ \<Rightarrow> []) @
              in_qual_type st qt))"

definition in_tsi_definition ::
    "(template_argument list \<Rightarrow> node list) \<Rightarrow> store \<Rightarrow> tsi \<Rightarrow> node list" where
  "in_tsi_definition in_args st t =
     (case t of None \<Rightarrow> [] | Some qt \<Rightarrow> in_qual_type_definition in_args st qt)"

text \<open>The part of \<^verbatim>\<open>findInExpr\<close> about casts.\<close>

definition in_cast ::
    "(template_argument list \<Rightarrow> node list) \<Rightarrow> store \<Rightarrow> cast_expr option \<Rightarrow> node list" where
  "in_cast in_args st c =
     (case c of None \<Rightarrow> []
      | Some (CastExpr explicit_type kind sub_type path) \<Rightarrow>
          (case explicit_type of None \<Rightarrow> [] | Some t \<Rightarrow> in_tsi st t) @
          (case kind of
             OtherCast \<Rightarrow> concat (map (in_tsi st) path)
           | _ \<Rightarrow> in_qual_type_definition in_args st sub_type @
                 concat (map (in_tsi_definition in_args st) path)))"

text \<open>
  The recursion over the trees. \<open>in_stmt\<close> visits the children first, as the code does; the
  switch over the expression classes is \<open>in_expr_class\<close>.
\<close>

fun in_stmt :: "(template_argument list \<Rightarrow> node list) \<Rightarrow> store \<Rightarrow> stmt \<Rightarrow> node list"
and in_stmt_opt :: "(template_argument list \<Rightarrow> node list) \<Rightarrow> store \<Rightarrow> stmt option \<Rightarrow> node list"
and in_stmts :: "(template_argument list \<Rightarrow> node list) \<Rightarrow> store \<Rightarrow> stmt option list \<Rightarrow> node list"
and in_stmt_class :: "(template_argument list \<Rightarrow> node list) \<Rightarrow> store \<Rightarrow> stmt_class \<Rightarrow> node list"
and in_expr_class :: "(template_argument list \<Rightarrow> node list) \<Rightarrow> store \<Rightarrow> expr_class \<Rightarrow> node list"
and in_template_argument ::
    "(template_argument list \<Rightarrow> node list) \<Rightarrow> store \<Rightarrow> template_argument \<Rightarrow> node list"
and in_template_arguments ::
    "(template_argument list \<Rightarrow> node list) \<Rightarrow> store \<Rightarrow> template_argument list \<Rightarrow> node list"
and in_template_name :: "(template_argument list \<Rightarrow> node list) \<Rightarrow> store \<Rightarrow> template_name \<Rightarrow> node list"
where
  "in_stmt g st (Stmt cs k) = in_stmts g st cs @ in_stmt_class g st k"
| "in_stmt_opt g st None = []"
| "in_stmt_opt g st (Some s) = in_stmt g st s"
| "in_stmts g st [] = []"
| "in_stmts g st (s # ss) = in_stmt_opt g st s @ in_stmts g st ss"
| "in_stmt_class g st (ExprStmt qt c e) =
     in_qual_type st qt @ in_cast g st c @ in_expr_class g st e"
| "in_stmt_class g st (DeclStmt ds) = in_decls st ds"
| "in_stmt_class g st (LabelStmt d) = in_decl st d"
| "in_stmt_class g st (IfStmt d) = in_decl st d"
| "in_stmt_class g st (SwitchStmt d) = in_decl st d"
| "in_stmt_class g st (WhileStmt d) = in_decl st d"
| "in_stmt_class g st (ForStmt d) = in_decl st d"
| "in_stmt_class g st (GotoStmt d) = in_decl st d"
| "in_stmt_class g st (IndirectGotoStmt d) = in_decl st d"
| "in_stmt_class g st (ReturnStmt d) = in_decl st d"
| "in_stmt_class g st (CapturedStmt d r) = in_decl st d @ in_decl st r"
| "in_stmt_class g st (CXXCatchStmt d) = in_decl st d"
| "in_stmt_class g st (CXXForRangeStmt d) = in_decl st d"
| "in_stmt_class g st (CoroutineBodyStmt d) = in_decl st d"
| "in_stmt_class g st OtherStmt = []"
| "in_expr_class g st (DeclRefExpr q d) = in_nns q @ in_decl st d"
| "in_expr_class g st (UnaryOperator incdec qt) = (if incdec then in_qual_type_definition g st qt else [])"
| "in_expr_class g st (BinaryOperator additive l r) =
     (if additive then in_qual_type_definition g st l @ in_qual_type_definition g st r else [])"
| "in_expr_class g st (CompoundAssignOperator qt) = in_qual_type_definition g st qt"
| "in_expr_class g st (OffsetOfExpr t fs) = in_tsi st t @ in_decls st fs"
| "in_expr_class g st (UnaryExprOrTypeTraitExpr t) = (case t of None \<Rightarrow> [] | Some t \<Rightarrow> in_tsi st t)"
| "in_expr_class g st (ArraySubscriptExpr qt) = in_qual_type_definition g st qt"
| "in_expr_class g st (MemberExpr d q) = in_decl st d @ in_nns q"
| "in_expr_class g st (CompoundLiteralExpr t) = in_tsi st t"
| "in_expr_class g st (AddrLabelExpr d) = in_decl st d"
| "in_expr_class g st (BlockExpr d) = in_decl st d"
| "in_expr_class g st (CXXTypeidOfType t) = in_tsi st t"
| "in_expr_class g st (CXXTypeidOfExpr s) = in_stmt_opt g st s"
| "in_expr_class g st (MSPropertyRefExpr d) = in_decl st d"
| "in_expr_class g st (CXXUuidofExpr t) = (case t of None \<Rightarrow> [] | Some t \<Rightarrow> in_tsi st t)"
| "in_expr_class g st (CXXDefaultArgExpr d) = in_decl st d"
| "in_expr_class g st (CXXDefaultInitExpr d) = in_decl st d"
| "in_expr_class g st (CXXBindTemporaryExpr d) = in_decl st d"
| "in_expr_class g st (CXXConstructExpr d t) =
     in_decl st d @ (case t of None \<Rightarrow> [] | Some t \<Rightarrow> in_tsi st t)"
| "in_expr_class g st (LambdaExpr d captures) =
     in_decl st d @ concat (map (\<lambda>(by_var, v). if by_var then in_decl st v else []) captures)"
| "in_expr_class g st (CXXScalarValueInitExpr t) = in_tsi st t"
| "in_expr_class g st (CXXNewExpr t n d) = in_tsi st t @ in_decl st n @ in_decl st d"
| "in_expr_class g st (CXXDeleteExpr d) = in_decl st d"
| "in_expr_class g st (CXXPseudoDestructorExpr q s d) = in_nns q @ in_tsi st s @ in_tsi st d"
| "in_expr_class g st (ArrayTypeTraitExpr t) = in_tsi st t"
| "in_expr_class g st (UnresolvedLookupExpr args q naming) =
     in_template_arguments g st args @ in_nns q @ in_decl st naming"
| "in_expr_class g st (UnresolvedMemberExpr args q base) =
     in_template_arguments g st args @ in_nns q @ in_qual_type st base"
| "in_expr_class g st (DependentScopeDeclRefExpr q args) = in_nns q @ in_template_arguments g st args"
| "in_expr_class g st (CXXUnresolvedConstructExpr t) = in_tsi st t"
| "in_expr_class g st (CXXDependentScopeMemberExpr implicit_access base q d) =
     (if implicit_access then [] else in_qual_type st base) @ in_nns q @ in_decl st d"
| "in_expr_class g st (SizeOfPackExpr d) = in_decl st d"
| "in_expr_class g st (SubstNonTypeTemplateParmPackExpr d) = in_decl st d"
| "in_expr_class g st (SubstNonTypeTemplateParmExpr d) = in_decl st d"
| "in_expr_class g st (FunctionParmPackExpr d ds) = in_decl st d @ in_decls st ds"
| "in_expr_class g st (MaterializeTemporaryExpr d) = in_decl st d"
| "in_expr_class g st (ObjCProtocolExpr d) = in_decl st d"
| "in_expr_class g st (ObjCIvarRefExpr d) = in_decl st d"
| "in_expr_class g st (ObjCImplicitPropertyRefExpr getter setter) = in_decl st getter @ in_decl st setter"
| "in_expr_class g st (ObjCExplicitPropertyRefExpr d) = in_decl st d"
| "in_expr_class g st (ObjCSubscriptRefExpr getter setter) = in_decl st getter @ in_decl st setter"
| "in_expr_class g st (ObjCMessageExpr d) = in_decl st d"
| "in_expr_class g st OtherExpr = []"
| "in_template_argument g st TemplateArgumentNull = []"
| "in_template_argument g st TemplateArgumentNullPtr = []"
| "in_template_argument g st TemplateArgumentIntegral = []"
| "in_template_argument g st (TemplateArgumentType qt) = in_qual_type st qt"
| "in_template_argument g st (TemplateArgumentDeclaration d qt) = in_decl st d @ in_qual_type st qt"
| "in_template_argument g st (TemplateArgumentTemplate tn) = in_template_name g st tn"
| "in_template_argument g st (TemplateArgumentTemplateExpansion tn) = in_template_name g st tn"
| "in_template_argument g st (TemplateArgumentExpression s) = in_stmt_opt g st s"
| "in_template_argument g st (TemplateArgumentPack args) = in_template_arguments g st args"
| "in_template_arguments g st [] = []"
| "in_template_arguments g st (a # as) = in_template_argument g st a @ in_template_arguments g st as"
| "in_template_name g st (TemplateTN d) = in_decl st d"
| "in_template_name g st (OverloadedTemplateTN ds) = in_decls st ds"
| "in_template_name g st (QualifiedTemplateTN q d) = in_nns q @ in_decl st d"
| "in_template_name g st (DependentTemplateTN q) = in_nns q"
| "in_template_name g st (SubstTemplateTemplateParmTN d tn) = in_decl st d @ in_template_name g st tn"
| "in_template_name g st (SubstTemplateTemplateParmPackTN d a) = in_decl st d @ in_template_argument g st a"

subsection \<open>Types\<close>

text \<open>
  The template arguments of the base type of an operand are visited on the spot, and their
  expressions can again have operands of a base type with arguments. \<open>args_fuel\<close> bounds the
  rounds; each goes to a type that the previous one is built from, so the number of types is
  enough.
\<close>

fun args_fuel :: "nat \<Rightarrow> store \<Rightarrow> template_argument list \<Rightarrow> node list" where
  "args_fuel 0 st as = []"
| "args_fuel (Suc n) st as = in_template_arguments (args_fuel n st) st as"

abbreviation base_args :: "store \<Rightarrow> template_argument list \<Rightarrow> node list" where
  "base_args st \<equiv> args_fuel (length (Types st)) st"

definition findInStmt :: "store \<Rightarrow> stmt option \<Rightarrow> node list" where
  "findInStmt st s = in_stmt_opt (base_args st) st s"

text \<open>Called on an expression itself, the visit leaves out its children.\<close>

definition findInExpr :: "store \<Rightarrow> stmt \<Rightarrow> node list" where
  "findInExpr st e = (case e of Stmt children k \<Rightarrow> in_stmt_class (base_args st) st k)"

definition findInTemplateArguments :: "store \<Rightarrow> template_argument list \<Rightarrow> node list" where
  "findInTemplateArguments st as = in_template_arguments (base_args st) st as"

definition findInTemplateName :: "store \<Rightarrow> template_name \<Rightarrow> node list" where
  "findInTemplateName st tn = in_template_name (base_args st) st tn"

text \<open>
  The switch over the type classes, in two halves: the types built from other types, then the
  types with names. Each gives nothing on the classes of the other.
\<close>

definition in_composed_type :: "store \<Rightarrow> type_kind \<Rightarrow> node list" where
  "in_composed_type st k =
     (case k of
        ComplexType e \<Rightarrow> in_qual_type st e
      | ParenType i \<Rightarrow> in_qual_type st i
      | AdjustedType orig adjusted \<Rightarrow> in_qual_type st orig @ in_qual_type st adjusted
      | DecayedType orig decayed pointee \<Rightarrow>
          in_qual_type st orig @ in_qual_type st decayed @ in_qual_type st pointee
      | PointerType p \<Rightarrow> in_qual_type st p
      | BlockPointerType p \<Rightarrow> in_qual_type st p
      | LValueReferenceType p \<Rightarrow> in_qual_type st p
      | RValueReferenceType p \<Rightarrow> in_qual_type st p
      | MemberPointerType p c \<Rightarrow> in_qual_type st p @ in_type st c
      | ConstantArrayType e \<Rightarrow> in_qual_type st e
      | IncompleteArrayType e \<Rightarrow> in_qual_type st e
      | VariableArrayType s e \<Rightarrow> findInStmt st s @ in_qual_type st e
      | DependentSizedArrayType s e \<Rightarrow> findInStmt st s @ in_qual_type st e
      | DependentSizedExtVectorType s e \<Rightarrow> findInStmt st s @ in_qual_type st e
      | VectorType e \<Rightarrow> in_qual_type st e
      | ExtVectorType e \<Rightarrow> in_qual_type st e
      | FunctionProtoType ret params exceptions spec noexcept source source_template \<Rightarrow>
          in_qual_type st ret @ in_qual_types st params @ in_qual_types st exceptions @
          in_qual_types st spec @ findInStmt st noexcept @ in_decl st source @
          in_decl st source_template
      | FunctionNoProtoType ret \<Rightarrow> in_qual_type st ret
      | _ \<Rightarrow> [])"

definition in_named_type :: "store \<Rightarrow> type_kind \<Rightarrow> node list" where
  "in_named_type st k =
     (case k of
        UnresolvedUsingType d \<Rightarrow> in_decl st d
      | TypedefType d \<Rightarrow> in_decl st d
      | TypeOfExprType s \<Rightarrow> findInStmt st s
      | TypeOfType u \<Rightarrow> in_qual_type st u
      | DecltypeType s sugared u \<Rightarrow> findInStmt st s @ (if sugared then in_qual_type st u else [])
      | UnaryTransformType u b \<Rightarrow> in_qual_type st u @ in_qual_type st b
      | EnumType d \<Rightarrow> in_decl st d
      | RecordType d \<Rightarrow> in_decl st d
      | AttributedType m e \<Rightarrow> in_qual_type st m @ in_qual_type st e
      | TemplateTypeParmType canonical d \<Rightarrow> if canonical then [] else in_decl st d
      | SubstTemplateTypeParmType r p \<Rightarrow> in_qual_type st r @ in_type st p
      | SubstTemplateTypeParmPackType p a \<Rightarrow> in_type st p @ findInTemplateArguments st [a]
      | AutoType sugared d \<Rightarrow> if sugared then in_qual_type st d else []
      | DeducedTemplateSpecializationType tn \<Rightarrow> findInTemplateName st tn
      | TemplateSpecializationType tn alias aliased args \<Rightarrow>
          findInTemplateName st tn @ (if alias then in_qual_type st aliased else []) @
          findInTemplateArguments st args
      | InjectedClassNameType d s \<Rightarrow> in_decl st d @ in_qual_type st s
      | ElaboratedType n q \<Rightarrow> in_qual_type st n @ in_nns q
      | DependentNameType q \<Rightarrow> in_nns q
      | DependentTemplateSpecializationType args q \<Rightarrow> findInTemplateArguments st args @ in_nns q
      | PackExpansionType p \<Rightarrow> in_qual_type st p
      | ObjCObjectType b \<Rightarrow> in_qual_type st b
      | ObjCInterfaceType b d \<Rightarrow> in_qual_type st b @ in_decl st d
      | ObjCObjectPointerType p \<Rightarrow> in_qual_type st p
      | ObjCTypeParamType d \<Rightarrow> in_decl st d
      | AtomicType v \<Rightarrow> in_qual_type st v
      | PipeType e \<Rightarrow> in_qual_type st e
      | DependentAddressSpaceType e p \<Rightarrow> findInExpr st e @ in_qual_type st p
      | _ \<Rightarrow> [])"

definition findInType :: "store \<Rightarrow> type_id \<Rightarrow> node list" where
  "findInType st t =
     (let T = type_at st t
      in (if CanonicalType T \<noteq> t then in_type st (Some (CanonicalType T)) else []) @
         in_composed_type st (TypeClass T) @ in_named_type st (TypeClass T))"

definition findInNestedNameSpecifier :: "store \<Rightarrow> nns_id \<Rightarrow> node list" where
  "findInNestedNameSpecifier st k =
     (let N = NestedNames st ! k
      in in_nns (NnsPrefix N) @ in_decl st (NnsRawDecl N) @ in_type st (NnsType N))"

subsection \<open>Declarations\<close>

definition VisitFriendDecl :: "store \<Rightarrow> tsi \<Rightarrow> decl option \<Rightarrow> template_parameters list \<Rightarrow> node list" where
  "VisitFriendDecl st friend_type friend_decl tpls =
     (case friend_type of Some qt \<Rightarrow> in_tsi st friend_type | None \<Rightarrow> in_decl st friend_decl) @
     concat (map (in_template_parameters st) tpls)"

definition VisitStaticAssertDecl :: "store \<Rightarrow> stmt option \<Rightarrow> node list" where
  "VisitStaticAssertDecl st assert_expr = findInStmt st assert_expr"

definition VisitLabelDecl :: "store \<Rightarrow> stmt option \<Rightarrow> node list" where
  "VisitLabelDecl st s = findInStmt st s"

definition VisitNamespaceAliasDecl :: "store \<Rightarrow> nns_id option \<Rightarrow> decl option \<Rightarrow> node list" where
  "VisitNamespaceAliasDecl st qualifier aliased = in_nns qualifier @ in_decl st aliased"

definition VisitNamespaceDecl :: "node list" where
  "VisitNamespaceDecl = []"

definition VisitTemplateDecl :: "store \<Rightarrow> template_part \<Rightarrow> node list" where
  "VisitTemplateDecl st t =
     (case t of Template tpl d constraints \<Rightarrow>
        in_template_parameters st tpl @ in_decl st d @ findInStmt st constraints)"

definition VisitRedeclarableTemplateDecl :: "store \<Rightarrow> template_part \<Rightarrow> node list" where
  "VisitRedeclarableTemplateDecl st t = VisitTemplateDecl st t"

definition VisitFunctionTemplateDecl :: "store \<Rightarrow> template_part \<Rightarrow> node list" where
  "VisitFunctionTemplateDecl st t = VisitRedeclarableTemplateDecl st t"

definition VisitTemplateTemplateParmDecl ::
    "store \<Rightarrow> template_part \<Rightarrow> template_parameters list option \<Rightarrow> node list" where
  "VisitTemplateTemplateParmDecl st t expansion =
     VisitTemplateDecl st t @
     (case expansion of None \<Rightarrow> [] | Some tpls \<Rightarrow> concat (map (in_template_parameters st) tpls))"

definition VisitTypeDecl :: "store \<Rightarrow> type_id option \<Rightarrow> node list" where
  "VisitTypeDecl st t = in_type st t"

definition VisitTagDecl :: "store \<Rightarrow> tag_part \<Rightarrow> node list" where
  "VisitTagDecl st t =
     (case t of Tag ty members \<Rightarrow>
        VisitTypeDecl st ty @
        concat (map (\<lambda>(d, is_lambda). if is_lambda then [] else in_decl st (Some d)) members))"

definition VisitEnumDecl :: "store \<Rightarrow> tag_part \<Rightarrow> decl option \<Rightarrow> node list" where
  "VisitEnumDecl st t member_enum = VisitTagDecl st t @ in_decl st member_enum"

definition VisitRecordDecl :: "store \<Rightarrow> tag_part \<Rightarrow> node list" where
  "VisitRecordDecl st t = VisitTagDecl st t"

definition VisitCXXRecordDecl :: "store \<Rightarrow> tag_part \<Rightarrow> cxx_record_part \<Rightarrow> node list" where
  "VisitCXXRecordDecl st t r =
     (case r of CXXRecord complete bases \<Rightarrow>
        VisitRecordDecl st t @
        (if complete then concat (map (in_tsi_definition (base_args st) st) bases) else []))"

definition VisitClassTemplateSpecializationDecl ::
    "store \<Rightarrow> tag_part \<Rightarrow> cxx_record_part \<Rightarrow> specialization_part \<Rightarrow> node list" where
  "VisitClassTemplateSpecializationDecl st t r s =
     VisitCXXRecordDecl st t r @
     (case s of
        OfTemplate args written template \<Rightarrow>
          findInTemplateArguments st args @ in_tsi st written @ in_decl st template
      | OfPartial args written partial instantiation_args \<Rightarrow>
          findInTemplateArguments st args @ in_tsi st written @ in_decl st partial @
          findInTemplateArguments st instantiation_args)"

definition VisitClassTemplatePartialSpecializationDecl ::
    "store \<Rightarrow> tag_part \<Rightarrow> cxx_record_part \<Rightarrow> specialization_part \<Rightarrow> template_parameters \<Rightarrow> node list" where
  "VisitClassTemplatePartialSpecializationDecl st t r s tpl =
     VisitClassTemplateSpecializationDecl st t r s @ in_template_parameters st tpl"

definition VisitTemplateTypeParmDecl :: "store \<Rightarrow> type_id option \<Rightarrow> qual_type option \<Rightarrow> node list" where
  "VisitTemplateTypeParmDecl st t default_arg =
     VisitTypeDecl st t @ (case default_arg of None \<Rightarrow> [] | Some qt \<Rightarrow> in_qual_type st qt)"

definition VisitTypedefNameDecl :: "store \<Rightarrow> typedef_part \<Rightarrow> node list" where
  "VisitTypedefNameDecl st t =
     (case t of Typedef ty underlying is_moded written \<Rightarrow>
        VisitTypeDecl st ty @ in_qual_type st underlying @ (if is_moded then in_tsi st written else []))"

definition VisitTypedefDecl :: "store \<Rightarrow> typedef_part \<Rightarrow> node list" where
  "VisitTypedefDecl st t = VisitTypedefNameDecl st t"

definition VisitTypeAliasDecl :: "store \<Rightarrow> typedef_part \<Rightarrow> decl option \<Rightarrow> node list" where
  "VisitTypeAliasDecl st t described = VisitTypedefNameDecl st t @ in_decl st described"

definition VisitUnresolvedUsingTypenameDecl :: "store \<Rightarrow> type_id option \<Rightarrow> nns_id option \<Rightarrow> node list" where
  "VisitUnresolvedUsingTypenameDecl st t qualifier = VisitTypeDecl st t @ in_nns qualifier"

definition VisitUsingDecl :: "store \<Rightarrow> decl option \<Rightarrow> nns_id option \<Rightarrow> node list" where
  "VisitUsingDecl st shadow qualifier = in_decl st shadow @ in_nns qualifier"

definition VisitUsingPackDecl :: "store \<Rightarrow> decl option \<Rightarrow> decl option list \<Rightarrow> node list" where
  "VisitUsingPackDecl st instantiated_from expansions = in_decl st instantiated_from @ in_decls st expansions"

definition VisitUsingShadowDecl :: "store \<Rightarrow> decl option \<Rightarrow> decl option \<Rightarrow> node list" where
  "VisitUsingShadowDecl st using_decl target = in_decl st using_decl @ in_decl st target"

text \<open>Nothing calls this one: the dispatch looks for \<^verbatim>\<open>VisitConstructorUsingShadowDecl\<close>.\<close>

definition VisitUsingConstructorUsingShadowDecl ::
    "store \<Rightarrow> decl option \<Rightarrow> decl option \<Rightarrow> decl option \<Rightarrow> decl option \<Rightarrow> node list" where
  "VisitUsingConstructorUsingShadowDecl st using_decl target nominated constructed =
     VisitUsingShadowDecl st using_decl target @ in_decl st nominated @ in_decl st constructed"

definition VisitUsingDirectiveDecl :: "store \<Rightarrow> nns_id option \<Rightarrow> decl option \<Rightarrow> decl option \<Rightarrow> node list" where
  "VisitUsingDirectiveDecl st qualifier nominated ancestor =
     in_nns qualifier @ in_decl st nominated @ in_decl st ancestor"

definition VisitBindingDecl :: "store \<Rightarrow> stmt option \<Rightarrow> node list" where
  "VisitBindingDecl st binding = findInStmt st binding"

definition VisitEnumConstantDecl :: "store \<Rightarrow> stmt option \<Rightarrow> node list" where
  "VisitEnumConstantDecl st init = findInStmt st init"

definition VisitIndirectFieldDecl :: "store \<Rightarrow> decl option list \<Rightarrow> node list" where
  "VisitIndirectFieldDecl st chain = in_decls st chain"

definition VisitUnresolvedUsingValueDecl :: "node list" where
  "VisitUnresolvedUsingValueDecl = []"

definition VisitBlockDecl :: "store \<Rightarrow> stmt option \<Rightarrow> decl option list \<Rightarrow> tsi \<Rightarrow> node list" where
  "VisitBlockDecl st body params signature =
     findInStmt st body @ in_decls st params @ in_tsi st signature"

definition VisitCapturedDecl :: "store \<Rightarrow> decl option list \<Rightarrow> decl option \<Rightarrow> node list" where
  "VisitCapturedDecl st params context_param = in_decls st params @ in_decl st context_param"

definition VisitClassScopeFunctionSpecializationDecl :: "store \<Rightarrow> decl option \<Rightarrow> node list" where
  "VisitClassScopeFunctionSpecializationDecl st specialization = in_decl st specialization"

definition VisitDeclaratorDecl :: "store \<Rightarrow> declarator_part \<Rightarrow> node list" where
  "VisitDeclaratorDecl st dd =
     (case dd of Declarator t qualifier tpls \<Rightarrow>
        in_tsi st t @ in_nns qualifier @ concat (map (in_template_parameters st) tpls))"

definition VisitFieldDecl :: "store \<Rightarrow> declarator_part \<Rightarrow> qual_type \<Rightarrow> stmt option \<Rightarrow> node list" where
  "VisitFieldDecl st dd qt init = VisitDeclaratorDecl st dd @ in_qual_type st qt @ findInStmt st init"

text \<open>
  The function visitor. The constructor's initializers and the destructor's operator are only
  looked at when this declaration has the body, before the body.
\<close>

definition in_initializer :: "store \<Rightarrow> ctor_initializer \<Rightarrow> node list" where
  "in_initializer st i =
     (case i of CtorInitializer t member init \<Rightarrow> in_tsi st t @ in_decl st member @ findInStmt st init)"

definition VisitFunctionDecl :: "store \<Rightarrow> function_part \<Rightarrow> node list \<Rightarrow> node list" where
  "VisitFunctionDecl st f before_body =
     (case f of Function dd qt ret params args described primary member has_body body \<Rightarrow>
        VisitDeclaratorDecl st dd @ in_qual_type st qt @
        (case ret of None \<Rightarrow> [] | Some r \<Rightarrow> in_qual_type st r) @
        in_decls st params @
        (case args of None \<Rightarrow> [] | Some as \<Rightarrow> findInTemplateArguments st as) @
        in_decl st described @ in_decl st primary @ in_decl st member @
        (if has_body then before_body @ findInStmt st body else []))"

definition VisitMSPropertyDecl :: "store \<Rightarrow> declarator_part \<Rightarrow> node list" where
  "VisitMSPropertyDecl st dd = VisitDeclaratorDecl st dd"

definition VisitNonTypeTemplateParmDecl ::
    "store \<Rightarrow> declarator_part \<Rightarrow> qual_type list option \<Rightarrow> stmt option option \<Rightarrow> node list" where
  "VisitNonTypeTemplateParmDecl st dd expansion default_arg =
     VisitDeclaratorDecl st dd @
     (case expansion of None \<Rightarrow> [] | Some qts \<Rightarrow> in_qual_types st qts) @
     (case default_arg of None \<Rightarrow> [] | Some s \<Rightarrow> findInStmt st s)"

definition VisitVarDecl :: "store \<Rightarrow> var_part \<Rightarrow> node list" where
  "VisitVarDecl st v =
     (case v of Var dd init member \<Rightarrow>
        VisitDeclaratorDecl st dd @ findInStmt st init @ in_decl st member)"

definition VisitParmVarDecl :: "store \<Rightarrow> var_part \<Rightarrow> qual_type \<Rightarrow> node list" where
  "VisitParmVarDecl st v orig = VisitVarDecl st v @ in_qual_type st orig"

definition VisitVarTemplateSpecializationDecl :: "store \<Rightarrow> var_part \<Rightarrow> template_argument list \<Rightarrow> node list" where
  "VisitVarTemplateSpecializationDecl st v args = VisitVarDecl st v @ findInTemplateArguments st args"

definition VisitDecompositionDecl :: "store \<Rightarrow> var_part \<Rightarrow> decl option list \<Rightarrow> node list" where
  "VisitDecompositionDecl st v bindings = VisitVarDecl st v @ in_decls st bindings"

text \<open>
  The dispatch of \<^verbatim>\<open>DeclVisitor\<close>: a class without a visitor of its own falls back to the visitor of
  its nearest base class that has one, and to no visitor at all when there is none.
\<close>

definition Visit :: "store \<Rightarrow> decl_kind \<Rightarrow> node list" where
  "Visit st k =
     (case k of
        TranslationUnitDecl \<Rightarrow> []
      | NamespaceDecl \<Rightarrow> VisitNamespaceDecl
      | NamespaceAliasDecl q d \<Rightarrow> VisitNamespaceAliasDecl st q d
      | LabelDecl s \<Rightarrow> VisitLabelDecl st s
      | StaticAssertDecl s \<Rightarrow> VisitStaticAssertDecl st s
      | FriendDecl t d tpls \<Rightarrow> VisitFriendDecl st t d tpls
      | FunctionTemplateDecl t \<Rightarrow> VisitFunctionTemplateDecl st t
      | ClassTemplateDecl t \<Rightarrow> VisitRedeclarableTemplateDecl st t
      | VarTemplateDecl t \<Rightarrow> VisitRedeclarableTemplateDecl st t
      | TypeAliasTemplateDecl t \<Rightarrow> VisitRedeclarableTemplateDecl st t
      | BuiltinTemplateDecl t \<Rightarrow> VisitTemplateDecl st t
      | TemplateTemplateParmDecl t e \<Rightarrow> VisitTemplateTemplateParmDecl st t e
      | TypedefDecl t \<Rightarrow> VisitTypedefDecl st t
      | TypeAliasDecl t d \<Rightarrow> VisitTypeAliasDecl st t d
      | ObjCTypeParamDecl t \<Rightarrow> VisitTypedefNameDecl st t
      | EnumDecl t d \<Rightarrow> VisitEnumDecl st t d
      | RecordDecl t \<Rightarrow> VisitRecordDecl st t
      | CXXRecordDecl t r \<Rightarrow> VisitCXXRecordDecl st t r
      | ClassTemplateSpecializationDecl t r s \<Rightarrow> VisitClassTemplateSpecializationDecl st t r s
      | ClassTemplatePartialSpecializationDecl t r s p \<Rightarrow>
          VisitClassTemplatePartialSpecializationDecl st t r s p
      | TemplateTypeParmDecl t d \<Rightarrow> VisitTemplateTypeParmDecl st t d
      | UnresolvedUsingTypenameDecl t q \<Rightarrow> VisitUnresolvedUsingTypenameDecl st t q
      | UsingDecl d q \<Rightarrow> VisitUsingDecl st d q
      | UsingPackDecl d ds \<Rightarrow> VisitUsingPackDecl st d ds
      | UsingShadowDecl u t \<Rightarrow> VisitUsingShadowDecl st u t
      | ConstructorUsingShadowDecl u t n c \<Rightarrow> VisitUsingShadowDecl st u t
      | UsingDirectiveDecl q n c \<Rightarrow> VisitUsingDirectiveDecl st q n c
      | BindingDecl s \<Rightarrow> VisitBindingDecl st s
      | EnumConstantDecl s \<Rightarrow> VisitEnumConstantDecl st s
      | IndirectFieldDecl ds \<Rightarrow> VisitIndirectFieldDecl st ds
      | UnresolvedUsingValueDecl \<Rightarrow> VisitUnresolvedUsingValueDecl
      | BlockDecl s ps t \<Rightarrow> VisitBlockDecl st s ps t
      | CapturedDecl ps c \<Rightarrow> VisitCapturedDecl st ps c
      | ClassScopeFunctionSpecializationDecl d \<Rightarrow> VisitClassScopeFunctionSpecializationDecl st d
      | FieldDecl dd qt s \<Rightarrow> VisitFieldDecl st dd qt s
      | ObjCIvarDecl dd qt s \<Rightarrow> VisitFieldDecl st dd qt s
      | ObjCAtDefsFieldDecl dd qt s \<Rightarrow> VisitFieldDecl st dd qt s
      | FunctionDecl f \<Rightarrow> VisitFunctionDecl st f []
      | CXXDeductionGuideDecl f \<Rightarrow> VisitFunctionDecl st f []
      | CXXMethodDecl f \<Rightarrow> VisitFunctionDecl st f []
      | CXXConstructorDecl f inits \<Rightarrow> VisitFunctionDecl st f (concat (map (in_initializer st) inits))
      | CXXDestructorDecl f operator_delete \<Rightarrow> VisitFunctionDecl st f (in_decl st operator_delete)
      | CXXConversionDecl f \<Rightarrow> VisitFunctionDecl st f []
      | MSPropertyDecl dd \<Rightarrow> VisitMSPropertyDecl st dd
      | NonTypeTemplateParmDecl dd e d \<Rightarrow> VisitNonTypeTemplateParmDecl st dd e d
      | VarDecl v \<Rightarrow> VisitVarDecl st v
      | ImplicitParamDecl v \<Rightarrow> VisitVarDecl st v
      | OMPCapturedExprDecl v \<Rightarrow> VisitVarDecl st v
      | ParmVarDecl v qt \<Rightarrow> VisitParmVarDecl st v qt
      | VarTemplateSpecializationDecl v as \<Rightarrow> VisitVarTemplateSpecializationDecl st v as
      | VarTemplatePartialSpecializationDecl v as \<Rightarrow> VisitVarTemplateSpecializationDecl st v as
      | DecompositionDecl v bs \<Rightarrow> VisitDecompositionDecl st v bs
      | OtherDecl \<Rightarrow> [])"

definition findInDecl :: "store \<Rightarrow> decl \<Rightarrow> node list" where
  "findInDecl st d =
     (let D = decl_at st d
      in Visit st (Kind D) @
         (if SemanticDC D \<noteq> None then in_decl st (SemanticDC D) else []) @
         (if LexicalDC D \<noteq> None \<and> LexicalDC D \<noteq> SemanticDC D then in_decl st (LexicalDC D) else []))"

subsection \<open>Files\<close>

definition dependsOnContext :: "store \<Rightarrow> decl \<Rightarrow> bool" where
  "dependsOnContext st dc =
     (if IsFileContext (decl_at st dc) then True
      else case Kind (decl_at st dc) of
             CXXRecordDecl t r \<Rightarrow>
               (case ParentContext (decl_at st dc) of None \<Rightarrow> False
                | Some p \<Rightarrow> IsFileContext (decl_at st p))
           | _ \<Rightarrow> False)"

definition isExplicitSpecialization :: "decl_node \<Rightarrow> bool" where
  "isExplicitSpecialization D = (case SpecializationKind D of TSK_ExplicitSpecialization \<Rightarrow> True | _ \<Rightarrow> False)"

definition function_part_of :: "decl_kind \<Rightarrow> function_part option" where
  "function_part_of k =
     (case k of
        FunctionDecl f \<Rightarrow> Some f
      | CXXDeductionGuideDecl f \<Rightarrow> Some f
      | CXXMethodDecl f \<Rightarrow> Some f
      | CXXConstructorDecl f i \<Rightarrow> Some f
      | CXXDestructorDecl f d \<Rightarrow> Some f
      | CXXConversionDecl f \<Rightarrow> Some f
      | _ \<Rightarrow> None)"

definition var_part_of :: "decl_kind \<Rightarrow> var_part option" where
  "var_part_of k =
     (case k of
        VarDecl v \<Rightarrow> Some v
      | ImplicitParamDecl v \<Rightarrow> Some v
      | OMPCapturedExprDecl v \<Rightarrow> Some v
      | ParmVarDecl v qt \<Rightarrow> Some v
      | VarTemplateSpecializationDecl v as \<Rightarrow> Some v
      | VarTemplatePartialSpecializationDecl v as \<Rightarrow> Some v
      | DecompositionDecl v bs \<Rightarrow> Some v
      | _ \<Rightarrow> None)"

text \<open>
  Whether a file depends on a declaration it holds. Only the translation unit has no lexical
  context, and it is in no file.
\<close>

definition dependsOn :: "store \<Rightarrow> decl \<Rightarrow> bool" where
  "dependsOn st d =
     (let D = decl_at st d in
      case LexicalDC D of None \<Rightarrow> False
      | Some dc \<Rightarrow>
         if \<not> dependsOnContext st (RedeclContext (decl_at st dc)) then False
         else (case Kind D of
             ClassTemplateSpecializationDecl t r s \<Rightarrow> isExplicitSpecialization D
           | ClassTemplatePartialSpecializationDecl t r s p \<Rightarrow> isExplicitSpecialization D
           | VarTemplateSpecializationDecl v as \<Rightarrow> isExplicitSpecialization D
           | VarTemplatePartialSpecializationDecl v as \<Rightarrow> isExplicitSpecialization D
           | FunctionTemplateDecl t \<Rightarrow> True
           | ClassTemplateDecl t \<Rightarrow> True
           | VarTemplateDecl t \<Rightarrow> True
           | TypeAliasTemplateDecl t \<Rightarrow> True
           | EnumDecl t m \<Rightarrow> True
           | RecordDecl t \<Rightarrow> True
           | CXXRecordDecl t r \<Rightarrow> True
           | TypedefDecl t \<Rightarrow> True
           | TypeAliasDecl t a \<Rightarrow> True
           | ObjCTypeParamDecl t \<Rightarrow> True
           | UsingDecl s q \<Rightarrow> True
           | UsingDirectiveDecl q n c \<Rightarrow> True
           | k \<Rightarrow>
              (case function_part_of k of
                 Some f \<Rightarrow> isExplicitSpecialization D \<or> IsNonTemplate D
               | None \<Rightarrow>
                  (case var_part_of k of
                     Some (Var dd init member) \<Rightarrow>
                       \<not> IsOutOfLine D \<or> \<not> IsStaticDataMember D \<or> member = None
                   | None \<Rightarrow> False))))"

definition findInFileEntry :: "store \<Rightarrow> (file \<Rightarrow> file list) \<Rightarrow> fd_mapping \<Rightarrow> file \<Rightarrow> node list" where
  "findInFileEntry st dependees fd fe =
     map FileN (dependees fe) @
     concat (map (\<lambda>d. if dependsOn st d then in_decl st (Some d) else []) (fd_decls fd fe))"

text \<open>The nodes that the visit of a node calls \<open>findIn\<close> on.\<close>

definition node_children :: "store \<Rightarrow> (file \<Rightarrow> file list) \<Rightarrow> fd_mapping \<Rightarrow> node \<Rightarrow> node list" where
  "node_children st dependees fd n =
     (case n of
        DeclN d \<Rightarrow> findInDecl st d
      | TypeN t \<Rightarrow> findInType st t
      | NnsN k \<Rightarrow> findInNestedNameSpecifier st k
      | FileN f \<Rightarrow> findInFileEntry st dependees fd f)"

subsection \<open>What a visit never reaches\<close>

text \<open>The prologue is only run on declarations and types that can be unloaded.\<close>

definition prologue_node :: "store \<Rightarrow> node \<Rightarrow> bool" where
  "prologue_node st n =
     (case n of
        DeclN d \<Rightarrow> Kind (decl_at st d) \<noteq> TranslationUnitDecl
      | TypeN t \<Rightarrow> \<not> isBuiltinDependent (length (Types st)) st t
      | _ \<Rightarrow> True)"

abbreviation prologue_nodes :: "store \<Rightarrow> node list \<Rightarrow> bool" where
  "prologue_nodes st ns \<equiv> list_all (prologue_node st) ns"

named_theorems prologue

lemma prologue_concat [prologue]:
  "(\<And>x. prologue_nodes st (f x)) \<Longrightarrow> prologue_nodes st (concat (map f xs))"
  by (induction xs) auto

lemma prologue_calls [prologue]:
  "prologue_nodes st (in_decl st d)" "prologue_nodes st (in_nns k)" "prologue_nodes st (in_type st t)"
  by (simp_all add: in_decl_def in_nns_def in_type_def prologue_node_def split: option.split)

lemma prologue_lists [prologue]:
  "prologue_nodes st (in_decls st ds)" "prologue_nodes st (in_qual_type st qt)"
  "prologue_nodes st (in_qual_types st qts)" "prologue_nodes st (in_tsi st ti)"
  "prologue_nodes st (in_template_parameters st tpl)"
  by (auto simp: in_decls_def in_qual_type_def in_qual_types_def in_tsi_def in_template_parameters_def prologue
      intro!: prologue_concat split: option.split)

lemma prologue_definition [prologue]:
  assumes "\<And>as. prologue_nodes st (g as)"
  shows "prologue_nodes st (in_qual_type_definition g st qt)" "prologue_nodes st (in_tsi_definition g st ti)"
    "prologue_nodes st (in_cast g st c)"
proof -
  show qt: "prologue_nodes st (in_qual_type_definition g st qt)" for qt
    by (auto simp: in_qual_type_definition_def Let_def prologue assms split: option.split type_kind.split)
  show ti: "prologue_nodes st (in_tsi_definition g st ti)" for ti
    by (simp add: in_tsi_definition_def qt split: option.split)
  show "prologue_nodes st (in_cast g st c)"
    by (auto simp: in_cast_def prologue qt ti intro!: prologue_concat
        split: option.split cast_expr.split cast_kind.split)
qed

lemma prologue_trees:
  assumes g: "\<And>as. prologue_nodes st (g as)"
  shows "prologue_nodes st (in_stmt g st s)" "prologue_nodes st (in_stmt_opt g st so)"
    "prologue_nodes st (in_stmts g st ss)" "prologue_nodes st (in_stmt_class g st k)"
    "prologue_nodes st (in_expr_class g st e)" "prologue_nodes st (in_template_argument g st a)"
    "prologue_nodes st (in_template_arguments g st as)" "prologue_nodes st (in_template_name g st tn)"
  using g
  by (induction g st s and g st so and g st ss and g st k and g st e and g st a and g st as and g st tn
      rule: in_stmt_in_stmt_opt_in_stmts_in_stmt_class_in_expr_class_in_template_argument_in_template_arguments_in_template_name.induct)
    (auto simp: prologue intro!: prologue_concat split: option.split)

lemma prologue_args [prologue]: "prologue_nodes st (args_fuel n st as)"
proof (induction n arbitrary: as)
  case (Suc n)
  then show ?case by (simp add: prologue_trees(7))
qed simp

lemma prologue_tops [prologue]:
  "prologue_nodes st (findInStmt st s)" "prologue_nodes st (findInExpr st e)"
  "prologue_nodes st (findInTemplateArguments st as)"
  "prologue_nodes st (findInTemplateName st tn)"
  "prologue_nodes st (in_tsi_definition (base_args st) st ti)"
  by (simp_all add: findInStmt_def findInExpr_def findInTemplateArguments_def findInTemplateName_def
      prologue_trees prologue_definition(2) prologue_args split: stmt.split)

lemma prologue_types [prologue]:
  "prologue_nodes st (in_composed_type st k)" "prologue_nodes st (in_named_type st k)"
  by (cases k; simp add: in_composed_type_def in_named_type_def prologue)+

lemmas visitor_part_defs = VisitDeclaratorDecl_def VisitTagDecl_def VisitTypeDecl_def VisitTemplateDecl_def
  VisitTypedefNameDecl_def in_initializer_def

lemmas visitor_defs =
  VisitFriendDecl_def VisitStaticAssertDecl_def VisitLabelDecl_def VisitNamespaceAliasDecl_def
  VisitNamespaceDecl_def VisitRedeclarableTemplateDecl_def VisitFunctionTemplateDecl_def
  VisitTemplateTemplateParmDecl_def VisitTypeDecl_def VisitEnumDecl_def VisitRecordDecl_def
  VisitClassTemplateSpecializationDecl_def VisitClassTemplatePartialSpecializationDecl_def
  VisitTemplateTypeParmDecl_def VisitTypedefDecl_def VisitTypeAliasDecl_def
  VisitUnresolvedUsingTypenameDecl_def VisitUsingDecl_def VisitUsingPackDecl_def
  VisitUsingShadowDecl_def VisitUsingDirectiveDecl_def VisitBindingDecl_def
  VisitEnumConstantDecl_def VisitIndirectFieldDecl_def VisitUnresolvedUsingValueDecl_def
  VisitBlockDecl_def VisitCapturedDecl_def VisitClassScopeFunctionSpecializationDecl_def
  VisitFieldDecl_def VisitMSPropertyDecl_def VisitNonTypeTemplateParmDecl_def VisitParmVarDecl_def
  VisitVarTemplateSpecializationDecl_def VisitDecompositionDecl_def

lemma prologue_parts [prologue]:
  "prologue_nodes st (VisitDeclaratorDecl st dd)" "prologue_nodes st (VisitTagDecl st t)"
  "prologue_nodes st (VisitTemplateDecl st tp)" "prologue_nodes st (VisitTypedefNameDecl st td)"
  "prologue_nodes st (in_initializer st i)"
  by (auto simp: visitor_part_defs prologue intro!: prologue_concat
      split: declarator_part.split tag_part.split template_part.split typedef_part.split ctor_initializer.split)

lemma prologue_wholes [prologue]:
  "prologue_nodes st (VisitCXXRecordDecl st t r)" "prologue_nodes st (VisitVarDecl st v)"
  "prologue_nodes st before \<Longrightarrow> prologue_nodes st (VisitFunctionDecl st f before)"
  by (auto simp: VisitCXXRecordDecl_def VisitRecordDecl_def VisitVarDecl_def VisitFunctionDecl_def prologue
      intro!: prologue_concat split: cxx_record_part.split var_part.split function_part.split option.split)

lemma prologue_visit: "prologue_nodes st (Visit st k)"
  by (cases k)
    (auto simp: Visit_def prologue visitor_defs
      intro!: prologue_concat prologue_wholes(3) split: option.split specialization_part.split)

lemma prologue_files: "prologue_nodes st (findInFileEntry st dependees fd f)"
proof -
  have "prologue_nodes st (map FileN fs)" for fs by (induction fs) (simp_all add: prologue_node_def)
  then show ?thesis by (auto simp: findInFileEntry_def prologue intro!: prologue_concat)
qed

lemma prologue_children: "prologue_nodes st (node_children st dependees fd n)"
  by (cases n)
    (auto simp: node_children_def findInDecl_def findInType_def findInNestedNameSpecifier_def Let_def
      prologue prologue_visit prologue_files)

subsection \<open>A small program\<close>

text \<open>
  A class and a variable of its type at file scope, in one file: what the witnesses evaluate the
  definitions on.
\<close>

definition sample_decl :: "decl_kind \<Rightarrow> decl \<Rightarrow> decl_node" where
  "sample_decl k d = \<lparr>Kind = k, SemanticDC = Some 0, LexicalDC = Some 0, MostRecentDecl = d,
     PreviousDecl = None, Definition = Some d, DescribedClassTemplate = None,
     SpecializationKind = TSK_Undeclared, IsNonTemplate = True, IsOutOfLine = False,
     IsStaticDataMember = False, IsFileContext = False, RedeclContext = d, ParentContext = Some 0,
     VirtualMethods = None, BodyDecl = None, LocFile = Some 0\<rparr>"

definition sample_unit :: decl_node where
  "sample_unit = (sample_decl TranslationUnitDecl 0)\<lparr>SemanticDC := None, LexicalDC := None,
     IsFileContext := True, ParentContext := None, LocFile := None\<rparr>"

definition sample_type :: "type_kind \<Rightarrow> type_id \<Rightarrow> type_node" where
  "sample_type k t = \<lparr>CanonicalType = t, TypeClass = k, IsDependent = False, IsAnyPointer = False,
     Desugared = t, Pointee = None, ArrayElement = None, ExprInstantiationDependent = False\<rparr>"

definition sample_var :: "type_id \<Rightarrow> decl_kind" where
  "sample_var t = VarDecl (Var (Declarator (Some (Some t)) None []) None None)"

definition sample_file :: "string \<Rightarrow> file_node" where
  "sample_file name = \<lparr>FileName = name, ModificationTime = 0, StatusTime = Some 0\<rparr>"

definition sample_store :: store where
  "sample_store = \<lparr>
     Decls = [sample_unit, sample_decl (RecordDecl (Tag (Some 0) [])) 1, sample_decl (sample_var 0) 2],
     Types = [sample_type (RecordType (Some 1)) 0], NestedNames = [], Files = [sample_file ''a.h'']\<rparr>"

lemma sample_children:
  "findInDecl sample_store 1 = [TypeN 0]" "findInDecl sample_store 2 = [TypeN 0]"
  "findInType sample_store 0 = [DeclN 1]"
  by code_simp+

text \<open>
  No visit of a node leads to the translation unit or to a built-in type, or a
  pointer to one, anywhere in the trees below it: these are never in the graph, as dependents or
  as what others depend on, and are never unloaded.
\<close>

theorem visits_skip_permanent:
  assumes "m \<in> set (node_children st dependees fd n)"
  shows "(\<forall>d. m = DeclN d \<longrightarrow> Kind (decl_at st d) \<noteq> TranslationUnitDecl) \<and>
    (\<forall>t. m = TypeN t \<longrightarrow> \<not> isBuiltinDependent (length (Types st)) st t)"
  using prologue_children[of st dependees fd n] assms
  by (auto simp: list_all_iff prologue_node_def)

theorem visits_skip_permanent_witness:
  "TypeN 0 \<in> set (node_children sample_store (\<lambda>_. []) fd_empty (DeclN 2)) \<and>
   \<not> isBuiltinDependent (length (Types sample_store)) sample_store 0"
proof -
  have "TypeN 0 \<in> set (node_children sample_store (\<lambda>_. []) fd_empty (DeclN 2))"
    by (simp add: node_children_def sample_children)
  then show ?thesis using visits_skip_permanent[of "TypeN 0"] by blast
qed

text \<open>
  The visitor written for constructors that are named by a using declaration is never
  called, because its name is not the one the dispatch looks for. Its declaration does not depend
  on the shadow declarations of the base class, which the visitor would have visited.
\<close>

theorem constructor_shadow_not_visited:
  "let st = \<lparr>Decls = replicate 4 (D\<lparr>Kind := UsingShadowDecl None None\<rparr>), Types = [], NestedNames = [],
             Files = []\<rparr>
   in DeclN 3 \<in> set (VisitUsingConstructorUsingShadowDecl st (Some 1) (Some 2) (Some 3) (Some 3)) \<and>
      DeclN 3 \<notin> set (Visit st (ConstructorUsingShadowDecl (Some 1) (Some 2) (Some 3) (Some 3)))"
  by (simp add: Let_def Visit_def VisitUsingConstructorUsingShadowDecl_def VisitUsingShadowDecl_def in_decl_def
      eval_nat_numeral)

text \<open>
  An address space that depends on a template parameter is visited without its operands:
  the visit of the type calls \<^verbatim>\<open>findInExpr\<close>, which leaves the operands to its caller
  \<^verbatim>\<open>findInStmt\<close>. A type with the address space \<open>-N\<close> does not depend on the declaration of \<open>N\<close>,
  while an array with the size \<open>-N\<close> does.
\<close>

theorem address_space_operands_not_visited:
  "let minus_n = Stmt [Some (Stmt [] (ExprStmt None None (DeclRefExpr None (Some 0))))]
                   (ExprStmt None None (UnaryOperator False None));
       st = \<lparr>Decls = [sample_decl (sample_var 0) 0], Types = [sample_type (DependentAddressSpaceType minus_n None) 0,
               sample_type (DependentSizedArrayType (Some minus_n) None) 1], NestedNames = [], Files = []\<rparr>
   in DeclN 0 \<notin> set (findInType st 0) \<and> DeclN 0 \<in> set (findInType st 1)"
  by code_simp

subsection \<open>The base type\<close>

text \<open>
  When types are built from other types, without cycles, as a measure \<open>r\<close> says, fuel above the
  measure is enough: the result is a base, neither a pointer or reference nor an array.
\<close>

lemma getBaseType_base:
  assumes "\<And>t p. Pointee (type_at st (Desugared (type_at st t))) = Some p \<Longrightarrow> r p < r t"
    "\<And>t e. Pointee (type_at st (Desugared (type_at st t))) = None \<Longrightarrow>
       ArrayElement (type_at st (Desugared (type_at st t))) = Some (Some e) \<Longrightarrow> r e < r t"
    and "r t < fuel"
  shows "\<exists>u. getBaseType fuel st t = Desugared (type_at st u) \<and>
    Pointee (type_at st (getBaseType fuel st t)) = None \<and>
    (\<forall>e. ArrayElement (type_at st (getBaseType fuel st t)) \<noteq> Some (Some e))"
  using assms(3)
proof (induction fuel arbitrary: t)
  case (Suc fuel)
  let ?d = "Desugared (type_at st t)"
  show ?case
  proof (cases "Pointee (type_at st ?d)")
    case (Some p)
    with assms(1)[OF this] Suc.prems Suc.IH[of p] show ?thesis by (simp add: Let_def)
  next
    case None
    show ?thesis
    proof (cases "\<exists>e. ArrayElement (type_at st ?d) = Some (Some e)")
      case True
      then obtain e where e: "ArrayElement (type_at st ?d) = Some (Some e)" by blast
      with assms(2)[OF None e] Suc.prems Suc.IH[of e] None show ?thesis by (simp add: Let_def)
    next
      case False
      with None show ?thesis by (auto simp: Let_def split: option.split)
    qed
  qed
qed simp

end
