(* ===== verification/DepMap.thy ===== *)
theory DepMap
  imports Dependees Config
begin

text \<open>
  The dependency map: \<^verbatim>\<open>tools/zapccs/DependencyMap.cpp\<close> and its state. The graph maps a node to
  the set of the nodes that depend on it, a list without duplicates. The \<open>findIn\<close> functions of
  the four kinds of nodes share their shape, a prologue and then calls on other nodes, so they are
  one traversal over the lists of nodes of the previous theory. The traversal is bounded by
  \<open>fuel\<close>; the lemmas of the locale \<open>dep_graph\<close> show that more fuel than unvisited nodes is enough.
\<close>

subsection \<open>State\<close>

record user_data =
  UserDecls :: "decl list"
  UserTypes :: "type_id list"
  RecanonTypes :: "type_id list"
  UserNNS :: "nns_id list"
  UserFiles :: "file list"
  MutableFileEntries :: nat

definition user_data_clear :: user_data where
  "user_data_clear = \<lparr>UserDecls = [], UserTypes = [], RecanonTypes = [], UserNNS = [],
     UserFiles = [], MutableFileEntries = 0\<rparr>"

record dep_map =
  Visited :: "node set"
  Dependents :: "node \<Rightarrow> node list"
  CurrentDependent :: "node option"
  RemoveDependencies :: bool
  FileEntryDependees :: "file \<Rightarrow> file list"
  FDMap :: fd_mapping
  UD :: user_data

definition dep_map_init :: dep_map where
  "dep_map_init = \<lparr>Visited = {}, Dependents = (\<lambda>_. []), CurrentDependent = None,
     RemoveDependencies = False, FileEntryDependees = (\<lambda>_. []), FDMap = fd_empty,
     UD = user_data_clear\<rparr>"

definition insert_dependent :: "node \<Rightarrow> node \<Rightarrow> dep_map \<Rightarrow> dep_map" where
  "insert_dependent n c dm = dm\<lparr>Dependents := (Dependents dm)(n := set_add c (Dependents dm n))\<rparr>"

definition erase_dependent :: "node \<Rightarrow> node \<Rightarrow> dep_map \<Rightarrow> dep_map" where
  "erase_dependent n c dm = dm\<lparr>Dependents := (Dependents dm)(n := removeAll c (Dependents dm n))\<rparr>"

subsection \<open>The traversal\<close>

text \<open>The prologue: whether the caller returns, and the state.\<close>

definition findProlog :: "node \<Rightarrow> dep_map \<Rightarrow> bool \<times> dep_map" where
  "findProlog n dm =
     (if RemoveDependencies dm then
        (case CurrentDependent dm of
           Some c \<Rightarrow> (True, erase_dependent n c dm)
         | None \<Rightarrow> (False, dm\<lparr>CurrentDependent := Some n\<rparr>))
      else
        (let dm' = (case CurrentDependent dm of Some c \<Rightarrow> insert_dependent n c dm | None \<Rightarrow> dm)
         in if n \<in> Visited dm' then (True, dm')
            else (False, dm'\<lparr>Visited := insert n (Visited dm'), CurrentDependent := Some n\<rparr>)))"

fun find_in :: "(node \<Rightarrow> node list) \<Rightarrow> nat \<Rightarrow> node \<Rightarrow> dep_map \<Rightarrow> dep_map option"
and find_all :: "(node \<Rightarrow> node list) \<Rightarrow> nat \<Rightarrow> node list \<Rightarrow> dep_map \<Rightarrow> dep_map option"
where
  "find_in children 0 n dm = None"
| "find_in children (Suc fuel) n dm =
     (case findProlog n dm of
        (True, dm') \<Rightarrow> Some dm'
      | (False, dm') \<Rightarrow>
          map_option (\<lambda>dm''. dm''\<lparr>CurrentDependent := CurrentDependent dm\<rparr>)
            (find_all children fuel (children n) dm'))"
| "find_all children fuel [] dm = Some dm"
| "find_all children fuel (n # ns) dm =
     Option.bind (find_in children fuel n dm) (find_all children fuel ns)"

text \<open>What a traversal that adds dependencies has done when it returns.\<close>

definition dfs_post :: "(node \<Rightarrow> node list) \<Rightarrow> node list \<Rightarrow> dep_map \<Rightarrow> dep_map \<Rightarrow> bool" where
  "dfs_post children ns dm dm' \<longleftrightarrow>
     dm' = dm\<lparr>Visited := Visited dm', Dependents := Dependents dm'\<rparr> \<and>
     Visited dm \<subseteq> Visited dm' \<and> set ns \<subseteq> Visited dm' \<and>
     (\<forall>v \<in> Visited dm' - Visited dm. set (children v) \<subseteq> Visited dm' \<and>
        (\<exists>n \<in> set ns. (n, v) \<in> {(a, b). b \<in> set (children a)}\<^sup>*)) \<and>
     (\<forall>m x. x \<in> set (Dependents dm' m) \<longleftrightarrow>
        x \<in> set (Dependents dm m) \<or> (x \<in> Visited dm' - Visited dm \<and> m \<in> set (children x)) \<or>
        (CurrentDependent dm = Some x \<and> m \<in> set ns))"

lemma dfs_post_nil: "dfs_post children [] dm dm"
  by (simp add: dfs_post_def)

lemma dfs_post_frame:
  assumes "dfs_post children ns dm dm'"
  shows "CurrentDependent dm' = CurrentDependent dm" "RemoveDependencies dm' = RemoveDependencies dm"
    "FileEntryDependees dm' = FileEntryDependees dm" "FDMap dm' = FDMap dm" "UD dm' = UD dm"
proof -
  have "dm' = dm\<lparr>Visited := Visited dm', Dependents := Dependents dm'\<rparr>"
    using assms unfolding dfs_post_def by blast
  then show "CurrentDependent dm' = CurrentDependent dm" "RemoveDependencies dm' = RemoveDependencies dm"
    "FileEntryDependees dm' = FileEntryDependees dm" "FDMap dm' = FDMap dm" "UD dm' = UD dm"
    by (metis dep_map.surjective dep_map.update_convs dep_map.select_convs)+
qed

lemma dfs_postD:
  assumes "dfs_post children ns dm dm'"
  shows "Visited dm \<subseteq> Visited dm'" "set ns \<subseteq> Visited dm'"
    "v \<in> Visited dm' \<Longrightarrow> v \<notin> Visited dm \<Longrightarrow> m \<in> set (children v) \<Longrightarrow> m \<in> Visited dm'"
    "v \<in> Visited dm' \<Longrightarrow> v \<notin> Visited dm \<Longrightarrow> \<exists>n \<in> set ns. (n, v) \<in> {(a, b). b \<in> set (children a)}\<^sup>*"
    "x \<in> set (Dependents dm' m) \<longleftrightarrow>
        x \<in> set (Dependents dm m) \<or> (x \<in> Visited dm' \<and> x \<notin> Visited dm \<and> m \<in> set (children x)) \<or>
        (CurrentDependent dm = Some x \<and> m \<in> set ns)"
  using assms unfolding dfs_post_def by blast+

lemma dfs_post_append:
  assumes a: "dfs_post children ns dm dm1" and b: "dfs_post children ms dm1 dm2"
  shows "dfs_post children (ns @ ms) dm dm2"
proof -
  note A = dfs_postD[OF a] and B = dfs_postD[OF b]
  have "dm2 = dm\<lparr>Visited := Visited dm2, Dependents := Dependents dm2\<rparr>"
    using dfs_post_frame[OF a] dfs_post_frame[OF b] by simp
  moreover have "set (children v) \<subseteq> Visited dm2 \<and>
        (\<exists>n \<in> set (ns @ ms). (n, v) \<in> {(a, b). b \<in> set (children a)}\<^sup>*)"
    if "v \<in> Visited dm2 - Visited dm" for v
    using that A(1) A(3)[of v] A(4)[of v] B(1) B(3)[of v] B(4)[of v] by (cases "v \<in> Visited dm1") auto
  moreover have "x \<in> set (Dependents dm2 m) \<longleftrightarrow> x \<in> set (Dependents dm m) \<or>
      (x \<in> Visited dm2 - Visited dm \<and> m \<in> set (children x)) \<or>
      (CurrentDependent dm = Some x \<and> m \<in> set (ns @ ms))" for m x
    using A(1) B(1) dfs_post_frame(1)[OF a] unfolding A(5) B(5) by auto
  ultimately show ?thesis unfolding dfs_post_def using A(1,2) B(1,2) by auto
qed

lemma dfs_post_visited:
  assumes "\<not> RemoveDependencies dm" "n \<in> Visited dm"
  shows "fst (findProlog n dm) \<and> dfs_post children [n] dm (snd (findProlog n dm))"
  using assms
  by (auto simp: findProlog_def dfs_post_def insert_dependent_def split: option.split)

lemma findProlog_new:
  assumes "\<not> RemoveDependencies dm" "n \<notin> Visited dm"
  shows "\<not> fst (findProlog n dm)" "Visited (snd (findProlog n dm)) = insert n (Visited dm)"
    "CurrentDependent (snd (findProlog n dm)) = Some n"
    "RemoveDependencies (snd (findProlog n dm)) = RemoveDependencies dm"
    "FileEntryDependees (snd (findProlog n dm)) = FileEntryDependees dm"
    "FDMap (snd (findProlog n dm)) = FDMap dm" "UD (snd (findProlog n dm)) = UD dm"
    "x \<in> set (Dependents (snd (findProlog n dm)) m) \<longleftrightarrow>
      x \<in> set (Dependents dm m) \<or> (CurrentDependent dm = Some x \<and> m = n)"
  using assms by (auto simp: findProlog_def insert_dependent_def split: option.split)

lemma dfs_post_enter:
  assumes "\<not> RemoveDependencies dm" "n \<notin> Visited dm"
    and p: "dfs_post children (children n) (snd (findProlog n dm)) dm2"
  shows "dfs_post children [n] dm (dm2\<lparr>CurrentDependent := CurrentDependent dm\<rparr>)"
proof -
  define dm1 where "dm1 = snd (findProlog n dm)"
  note P = dfs_postD[OF p[folded dm1_def]] and F = dfs_post_frame[OF p[folded dm1_def]]
  have one: "Visited dm1 = insert n (Visited dm)" "CurrentDependent dm1 = Some n"
    "RemoveDependencies dm1 = RemoveDependencies dm" "FileEntryDependees dm1 = FileEntryDependees dm"
    "FDMap dm1 = FDMap dm" "UD dm1 = UD dm"
    and edges: "x \<in> set (Dependents dm1 m) \<longleftrightarrow>
      x \<in> set (Dependents dm m) \<or> (CurrentDependent dm = Some x \<and> m = n)" for x m
    unfolding dm1_def using findProlog_new[OF assms(1,2)] by blast+
  have new: "set (children v) \<subseteq> Visited dm2 \<and> (n, v) \<in> {(a, b). b \<in> set (children a)}\<^sup>*"
    if "v \<in> Visited dm2 - Visited dm" for v
  proof (cases "v = n")
    case True
    then show ?thesis using P(2) by simp
  next
    case False
    with that one have "v \<notin> Visited dm1" "v \<in> Visited dm2" by auto
    with P(4) obtain c where "c \<in> set (children n)" "(c, v) \<in> {(a, b). b \<in> set (children a)}\<^sup>*" by blast
    then have "(n, v) \<in> {(a, b). b \<in> set (children a)}\<^sup>*" by (simp add: converse_rtrancl_into_rtrancl)
    with P(3) \<open>v \<notin> Visited dm1\<close> \<open>v \<in> Visited dm2\<close> show ?thesis by blast
  qed
  moreover have "x \<in> set (Dependents dm2 m) \<longleftrightarrow> x \<in> set (Dependents dm m) \<or>
      (x \<in> Visited dm2 - Visited dm \<and> m \<in> set (children x)) \<or>
      (CurrentDependent dm = Some x \<and> m \<in> {n})" for m x
    using P(1) assms(2) unfolding P(5) edges one by auto
  ultimately show ?thesis
    unfolding dfs_post_def using P(1) F one by (auto intro!: dep_map.equality)
qed

subsection \<open>Graphs without dangling pointers\<close>

text \<open>
  What the traversal relies on: the nodes of a store in a good state are finitely many and the
  visit of one only reaches others.
\<close>

locale dep_graph =
  fixes ok :: "'s \<Rightarrow> bool"
    and nodes :: "'s \<Rightarrow> node list"
    and children :: "'s \<Rightarrow> node \<Rightarrow> node list"
  assumes closed: "ok s \<Longrightarrow> n \<in> set (nodes s) \<Longrightarrow> m \<in> set (children s n) \<Longrightarrow> m \<in> set (nodes s)"
begin

definition unvisited :: "'s \<Rightarrow> dep_map \<Rightarrow> nat" where
  "unvisited s dm = card (set (nodes s) - Visited dm)"

lemma unvisited_mono: "Visited dm \<subseteq> Visited dm' \<Longrightarrow> unvisited s dm' \<le> unvisited s dm"
  unfolding unvisited_def by (rule card_mono) auto

lemma unvisited_insert:
  "n \<in> set (nodes s) \<Longrightarrow> n \<notin> Visited dm \<Longrightarrow> Visited dm' = insert n (Visited dm) \<Longrightarrow>
   Suc (unvisited s dm') = unvisited s dm"
proof -
  assume "n \<in> set (nodes s)" "n \<notin> Visited dm" "Visited dm' = insert n (Visited dm)"
  then have "set (nodes s) - Visited dm = insert n (set (nodes s) - Visited dm')" "n \<notin> set (nodes s) - Visited dm'"
    by auto
  then show ?thesis by (simp add: unvisited_def)
qed

lemma unvisited_bound: "unvisited s dm \<le> length (nodes s)"
  unfolding unvisited_def
  by (rule order_trans[OF card_mono card_length]) auto

lemma find_in_all_total:
  assumes ok: "ok s"
  shows "n \<in> set (nodes s) \<Longrightarrow> \<not> RemoveDependencies dm \<Longrightarrow> unvisited s dm < fuel \<Longrightarrow>
      \<exists>dm'. find_in (children s) fuel n dm = Some dm' \<and> dfs_post (children s) [n] dm dm'"
    and "set ns \<subseteq> set (nodes s) \<Longrightarrow> \<not> RemoveDependencies dm \<Longrightarrow> unvisited s dm < fuel \<Longrightarrow>
      \<exists>dm'. find_all (children s) fuel ns dm = Some dm' \<and> dfs_post (children s) ns dm dm'"
proof (induction "children s" fuel n dm and "children s" fuel ns dm rule: find_in_find_all.induct)
  case (1 n dm)
  then show ?case by simp
next
  case (2 fuel n dm)
  show ?case
  proof (cases "n \<in> Visited dm")
    case True
    with dfs_post_visited[OF 2(3) True] show ?thesis by (auto split: prod.split bool.split)
  next
    case new: False
    obtain dm1 where p: "findProlog n dm = (False, dm1)" and v: "Visited dm1 = insert n (Visited dm)"
      and nr: "\<not> RemoveDependencies dm1"
      using findProlog_new[OF 2(3) new] 2(3) by (cases "findProlog n dm") auto
    from unvisited_insert[OF 2(2) new v] 2(4) have f: "unvisited s dm1 < fuel" by simp
    have "set (children s n) \<subseteq> set (nodes s)" using closed[OF ok 2(2)] by blast
    then obtain dm2 where dm2: "find_all (children s) fuel (children s n) dm1 = Some dm2"
      "dfs_post (children s) (children s n) dm1 dm2"
      using 2(1)[OF p[symmetric] refl] nr f by blast
    with dfs_post_enter[OF 2(3) new] p show ?thesis by simp
  qed
next
  case (3 fuel dm)
  then show ?case by (simp add: dfs_post_nil)
next
  case (4 fuel n ns dm)
  then obtain dm1 where one: "find_in (children s) fuel n dm = Some dm1" "dfs_post (children s) [n] dm dm1"
    by auto
  have "\<not> RemoveDependencies dm1" using dfs_post_frame(2)[OF one(2)] 4(4) by simp
  moreover have "unvisited s dm1 < fuel"
    by (rule le_less_trans[OF unvisited_mono[OF dfs_postD(1)[OF one(2)]] 4(5)])
  ultimately
  obtain dm2 where
    "find_all (children s) fuel ns dm1 = Some dm2" "dfs_post (children s) ns dm1 dm2"
    using 4(2)[OF one(1)] 4(3) by auto
  with dfs_post_append[OF one(2)] one(1) show ?case by fastforce
qed

lemma find_all_total:
  assumes "ok s" "set ns \<subseteq> set (nodes s)" "\<not> RemoveDependencies dm"
  shows "\<exists>dm'. find_all (children s) (Suc (length (nodes s))) ns dm = Some dm' \<and>
    dfs_post (children s) ns dm dm'"
  using find_in_all_total(2)[OF assms] unvisited_bound[of s dm] by simp

text \<open>The traversal has visited exactly what was visited before or can be reached anew.\<close>

lemma dfs_visited:
  assumes p: "dfs_post (children s) ns dm dm'"
    and closed_before: "\<And>v m. v \<in> Visited dm \<Longrightarrow> m \<in> set (children s v) \<Longrightarrow> m \<in> Visited dm \<union> set ns"
  shows "Visited dm' = Visited dm \<union> {v. \<exists>n \<in> set ns. (n, v) \<in> {(a, b). b \<in> set (children s a)}\<^sup>*}"
    (is "_ = _ \<union> ?R")
proof
  note P = dfs_postD[OF p]
  show "Visited dm' \<subseteq> Visited dm \<union> ?R" using P(4) by blast
  have step: "m \<in> Visited dm'" if "v \<in> Visited dm'" "m \<in> set (children s v)" for v m
    using that closed_before P(1,2) P(3) by (cases "v \<in> Visited dm") blast+
  have "v \<in> Visited dm'" if "(n, v) \<in> {(a, b). b \<in> set (children s a)}\<^sup>*" "n \<in> Visited dm'" for n v
    using that(1) by (induction rule: rtrancl_induct) (use that(2) step in auto)
  then show "Visited dm \<union> ?R \<subseteq> Visited dm'" using P(1,2) by blast
qed

end

text \<open>
  The syntax trees have no dangling pointers, and files refer to known files and declarations.
\<close>

definition trees_ok :: "store \<Rightarrow> bool" where
  "trees_ok st \<longleftrightarrow>
     list_all (\<lambda>d. list_all (valid_node st) (findInDecl st d)) [0..<length (Decls st)] \<and>
     list_all (\<lambda>t. list_all (valid_node st) (findInType st t)) [0..<length (Types st)] \<and>
     list_all (\<lambda>k. list_all (valid_node st) (findInNestedNameSpecifier st k)) [0..<length (NestedNames st)]"

definition files_ok :: "store \<Rightarrow> (file \<Rightarrow> file list) \<Rightarrow> fd_mapping \<Rightarrow> bool" where
  "files_ok st dependees fd \<longleftrightarrow>
     (\<forall>f g. g \<in> set (dependees f) \<longrightarrow> g < length (Files st)) \<and>
     (\<forall>f d. d \<in> set (fd_decls fd f) \<longrightarrow> d < length (Decls st))"

lemma set_in_decl: "n \<in> set (in_decl st d) \<Longrightarrow> \<exists>e. d = Some e \<and> n = DeclN e"
  by (auto simp: in_decl_def split: option.splits if_splits)

lemma files_ok_children:
  assumes "files_ok st dependees fd" "m \<in> set (findInFileEntry st dependees fd f)"
  shows "valid_node st m"
  using assms
  by (auto simp: files_ok_def findInFileEntry_def valid_node_def split: if_splits dest!: set_in_decl)

interpretation ast: dep_graph
  "\<lambda>(st, dependees, fd). trees_ok st \<and> files_ok st dependees fd"
  "\<lambda>(st, dependees, fd). all_nodes st"
  "\<lambda>(st, dependees, fd). node_children st dependees fd"
proof (unfold_locales, goal_cases)
  case (1 s n m)
  obtain st dependees fd where s: "s = (st, dependees, fd)" by (cases s)
  have "valid_node st m"
    using 1 files_ok_children[of st dependees fd m]
    by (cases n) (auto simp: s trees_ok_def list_all_iff node_children_def set_all_nodes valid_node_def)
  then show ?case by (simp add: s set_all_nodes)
qed

subsection \<open>Updating the graph after a compilation\<close>

text \<open>
  \<open>findIn\<close> at the top level on a list of nodes. The files and the map from files to declarations
  do not change during a traversal.
\<close>

definition find_nodes :: "store \<Rightarrow> node list \<Rightarrow> dep_map \<Rightarrow> dep_map option" where
  "find_nodes st ns dm =
     find_all (node_children st (FileEntryDependees dm) (FDMap dm)) (Suc (length (all_nodes st))) ns dm"

text \<open>
  What the compilation has recorded: the files read, with the file that includes them; changed
  declarations, with what they depended on; new declarations, types and name specifiers.
\<close>

record pending =
  NewFEs :: "(file \<times> file option) list"
  ModifiedDecls :: "(decl option \<times> decl) list"
  NewDecls :: "decl list"
  NewTypes :: "type_id list"
  NewNNS :: "nns_id list"

definition insert_user_file :: "file \<Rightarrow> user_data \<Rightarrow> user_data" where
  "insert_user_file f ud =
     (if f \<in> set (UserFiles ud) then ud
      else ud\<lparr>UserFiles := UserFiles ud @ [f], MutableFileEntries := MutableFileEntries ud + 1\<rparr>)"

definition update_file ::
    "unload_selector \<Rightarrow> store \<Rightarrow> file option \<Rightarrow> file \<times> file option \<Rightarrow> dep_map \<Rightarrow> dep_map" where
  "update_file us st main p dm =
     (let includee = fst p;
          includer = snd p;
          name = FileName (Files st ! includee);
          ext = path_extension name Native;
          dm1 = dm\<lparr>Visited := Visited dm - {FileN includee}\<rparr>;
          dm2 = (if Some includee = main \<or> (includer = main \<and> sr_startswith ext ''.c'') \<or> isMutable us name
                 then dm1\<lparr>UD := insert_user_file includee (UD dm1)\<rparr> else dm1)
      in case includer of
           None \<Rightarrow> dm2
         | Some f \<Rightarrow>
             if includee \<noteq> f
             then dm2\<lparr>FileEntryDependees :=
                    (FileEntryDependees dm2)(f := set_add includee (FileEntryDependees dm2 f))\<rparr>
             else dm2)"

definition update_modified :: "decl option \<times> decl \<Rightarrow> dep_map \<Rightarrow> dep_map" where
  "update_modified p dm =
     (case p of
        (None, dependent) \<Rightarrow> dm
      | (Some dependee, dependent) \<Rightarrow>
          erase_dependent (DeclN dependent) (DeclN dependee)
            (erase_dependent (DeclN dependee) (DeclN dependent) dm))"

definition update_new_decl :: "store \<Rightarrow> decl \<Rightarrow> dep_map \<Rightarrow> dep_map" where
  "update_new_decl st d dm =
     (let dm' = (case LocFile (decl_at st d) of None \<Rightarrow> dm
                 | Some fe \<Rightarrow> dm\<lparr>FDMap := fd_insert d fe (FDMap dm)\<rparr>)
      in dm'\<lparr>Visited := Visited dm' - {DeclN d}\<rparr>)"

definition new_decls :: "pending \<Rightarrow> decl list" where
  "new_decls pd = NewDecls pd @ map snd (ModifiedDecls pd)"

text \<open>The nodes to visit: the files but the main file, then what is new, in this order.\<close>

definition pending_nodes :: "store \<Rightarrow> file option \<Rightarrow> pending \<Rightarrow> node list" where
  "pending_nodes st main pd =
     map FileN (filter (\<lambda>f. Some f \<noteq> main) (map fst (NewFEs pd))) @
     concat (map (\<lambda>d. in_decl st (Some d)) (new_decls pd)) @
     concat (map (\<lambda>t. in_type st (Some t)) (NewTypes pd)) @
     map NnsN (NewNNS pd)"

definition prepare_update ::
    "unload_selector \<Rightarrow> store \<Rightarrow> file option \<Rightarrow> pending \<Rightarrow> dep_map \<Rightarrow> dep_map" where
  "prepare_update us st main pd dm =
     fold (update_new_decl st) (new_decls pd)
       (fold update_modified (ModifiedDecls pd)
          (fold (update_file us st main) (NewFEs pd) dm))"

definition update ::
    "unload_selector \<Rightarrow> store \<Rightarrow> file option \<Rightarrow> pending \<Rightarrow> dep_map \<Rightarrow> (dep_map \<times> pending) option" where
  "update us st main pd dm =
     map_option (\<lambda>dm'. (dm', \<lparr>NewFEs = [], ModifiedDecls = [], NewDecls = [], NewTypes = [], NewNNS = []\<rparr>))
       (find_nodes st (pending_nodes st main pd) (prepare_update us st main pd dm))"

subsection \<open>What the preparation does\<close>

lemma update_file_frame [simp]:
  "Visited (update_file us st main p dm) = Visited dm - {FileN (fst p)}"
  "Dependents (update_file us st main p dm) = Dependents dm"
  "CurrentDependent (update_file us st main p dm) = CurrentDependent dm"
  "RemoveDependencies (update_file us st main p dm) = RemoveDependencies dm"
  "FDMap (update_file us st main p dm) = FDMap dm"
  by (simp_all add: update_file_def Let_def split: option.split)

lemma update_modified_frame [simp]:
  "Visited (update_modified p dm) = Visited dm"
  "CurrentDependent (update_modified p dm) = CurrentDependent dm"
  "RemoveDependencies (update_modified p dm) = RemoveDependencies dm"
  "FDMap (update_modified p dm) = FDMap dm"
  "FileEntryDependees (update_modified p dm) = FileEntryDependees dm"
  "UD (update_modified p dm) = UD dm"
  by (simp_all add: update_modified_def erase_dependent_def split: prod.split option.split)

lemma update_new_decl_frame [simp]:
  "Visited (update_new_decl st d dm) = Visited dm - {DeclN d}"
  "Dependents (update_new_decl st d dm) = Dependents dm"
  "CurrentDependent (update_new_decl st d dm) = CurrentDependent dm"
  "RemoveDependencies (update_new_decl st d dm) = RemoveDependencies dm"
  "FileEntryDependees (update_new_decl st d dm) = FileEntryDependees dm"
  "UD (update_new_decl st d dm) = UD dm"
  by (simp_all add: update_new_decl_def Let_def split: option.split)

text \<open>The edges that \<open>update_modified\<close> erases: in both directions.\<close>

definition unlinked :: "(decl option \<times> decl) list \<Rightarrow> node \<Rightarrow> node \<Rightarrow> bool" where
  "unlinked ps x m \<longleftrightarrow> (\<exists>a b. (Some a, b) \<in> set ps \<and>
     ((m = DeclN a \<and> x = DeclN b) \<or> (m = DeclN b \<and> x = DeclN a)))"

lemma update_modified_edges:
  "x \<in> set (Dependents (update_modified p dm) m) \<longleftrightarrow> x \<in> set (Dependents dm m) \<and> \<not> unlinked [p] x m"
  by (cases p; cases "fst p")
    (auto simp: update_modified_def erase_dependent_def unlinked_def)

lemma unlinked_Cons: "unlinked (p # ps) x m \<longleftrightarrow> unlinked [p] x m \<or> unlinked ps x m"
  by (auto simp: unlinked_def)

lemma fold_update_file [simp]:
  "Visited (fold (update_file us st main) ps dm) = Visited dm - FileN ` fst ` set ps"
  "Dependents (fold (update_file us st main) ps dm) = Dependents dm"
  "CurrentDependent (fold (update_file us st main) ps dm) = CurrentDependent dm"
  "RemoveDependencies (fold (update_file us st main) ps dm) = RemoveDependencies dm"
  "FDMap (fold (update_file us st main) ps dm) = FDMap dm"
  by (induction ps arbitrary: dm) auto

lemma fold_update_modified [simp]:
  "Visited (fold update_modified ps dm) = Visited dm"
  "CurrentDependent (fold update_modified ps dm) = CurrentDependent dm"
  "RemoveDependencies (fold update_modified ps dm) = RemoveDependencies dm"
  "FDMap (fold update_modified ps dm) = FDMap dm"
  "FileEntryDependees (fold update_modified ps dm) = FileEntryDependees dm"
  "UD (fold update_modified ps dm) = UD dm"
  by (induction ps arbitrary: dm) auto

lemma fold_update_modified_edges:
  "x \<in> set (Dependents (fold update_modified ps dm) m) \<longleftrightarrow> x \<in> set (Dependents dm m) \<and> \<not> unlinked ps x m"
proof (induction ps arbitrary: dm)
  case Nil
  then show ?case by (simp add: unlinked_def)
next
  case (Cons p ps)
  then show ?case by (subst unlinked_Cons) (auto simp: update_modified_edges)
qed

lemma fold_update_new_decl [simp]:
  "Visited (fold (update_new_decl st) ds dm) = Visited dm - DeclN ` set ds"
  "Dependents (fold (update_new_decl st) ds dm) = Dependents dm"
  "CurrentDependent (fold (update_new_decl st) ds dm) = CurrentDependent dm"
  "RemoveDependencies (fold (update_new_decl st) ds dm) = RemoveDependencies dm"
  "FileEntryDependees (fold (update_new_decl st) ds dm) = FileEntryDependees dm"
  "UD (fold (update_new_decl st) ds dm) = UD dm"
  by (induction ds arbitrary: dm) auto

definition revisited :: "pending \<Rightarrow> node set" where
  "revisited pd = FileN ` fst ` set (NewFEs pd) \<union> DeclN ` set (new_decls pd)"

lemma prepare_update_frame:
  "Visited (prepare_update us st main pd dm) = Visited dm - revisited pd"
  "CurrentDependent (prepare_update us st main pd dm) = CurrentDependent dm"
  "RemoveDependencies (prepare_update us st main pd dm) = RemoveDependencies dm"
  "x \<in> set (Dependents (prepare_update us st main pd dm) m) \<longleftrightarrow>
     x \<in> set (Dependents dm m) \<and> \<not> unlinked (ModifiedDecls pd) x m"
  by (auto simp: prepare_update_def revisited_def fold_update_modified_edges)

text \<open>The declarations and their files, through the contract of the two maps.\<close>

definition located :: "store \<Rightarrow> decl list \<Rightarrow> (decl \<times> file) list" where
  "located st ds = List.map_filter (\<lambda>d. map_option (Pair d) (LocFile (decl_at st d))) ds"

lemma FDMap_update_new_decls:
  "FDMap (fold (update_new_decl st) ds dm) = fold (\<lambda>(d, f). fd_insert d f) (located st ds) (FDMap dm)"
  by (induction ds arbitrary: dm)
    (auto simp: located_def update_new_decl_def Let_def map_filter_simps split: option.split)

lemma map_of_located:
  "map_of (rev (located st ds)) d = (if d \<in> set ds then LocFile (decl_at st d) else None)"
proof (induction ds)
  case (Cons e ds)
  then show ?case
    by (cases "LocFile (decl_at st e)")
      (auto simp: located_def map_filter_simps map_add_def split: option.splits)
qed (simp add: located_def map_filter_simps)

lemma prepare_update_FDMap:
  assumes "fd_ok (FDMap dm)"
  shows "fd_ok (FDMap (prepare_update us st main pd dm))"
    "fd_find_decl (FDMap (prepare_update us st main pd dm)) d =
       (case (if d \<in> set (new_decls pd) then LocFile (decl_at st d) else None) of
          Some f \<Rightarrow> Some f | None \<Rightarrow> fd_find_decl (FDMap dm) d)"
  using fdm.ok_add_all[OF assms] fdm.file_of_add_all[OF assms]
  by (simp_all add: prepare_update_def FDMap_update_new_decls map_of_located)

subsection \<open>What an update achieves\<close>

abbreviation dm_children :: "store \<Rightarrow> dep_map \<Rightarrow> node \<Rightarrow> node list" where
  "dm_children st dm \<equiv> node_children st (FileEntryDependees dm) (FDMap dm)"

definition dm_ok :: "store \<Rightarrow> dep_map \<Rightarrow> bool" where
  "dm_ok st dm \<longleftrightarrow> trees_ok st \<and> files_ok st (FileEntryDependees dm) (FDMap dm) \<and> fd_ok (FDMap dm) \<and>
     CurrentDependent dm = None \<and> \<not> RemoveDependencies dm"

definition pending_ok :: "store \<Rightarrow> pending \<Rightarrow> bool" where
  "pending_ok st pd \<longleftrightarrow> (\<forall>p \<in> set (NewFEs pd). fst p < length (Files st)) \<and>
     (\<forall>d \<in> set (new_decls pd). d < length (Decls st)) \<and>
     (\<forall>t \<in> set (NewTypes pd). t < length (Types st)) \<and>
     (\<forall>k \<in> set (NewNNS pd). k < length (NestedNames st))"

definition graph_complete :: "store \<Rightarrow> dep_map \<Rightarrow> bool" where
  "graph_complete st dm \<longleftrightarrow>
     (\<forall>v \<in> Visited dm. \<forall>m \<in> set (dm_children st dm v). v \<in> set (Dependents dm m))"

abbreviation no_pending :: pending where
  "no_pending \<equiv> \<lparr>NewFEs = [], ModifiedDecls = [], NewDecls = [], NewTypes = [], NewNNS = []\<rparr>"

lemma find_nodes_total:
  assumes "dm_ok st dm" "list_all (valid_node st) ns"
  shows "\<exists>dm'. find_nodes st ns dm = Some dm' \<and> dfs_post (dm_children st dm) ns dm dm'"
  using ast.find_all_total[of "(st, FileEntryDependees dm, FDMap dm)" ns dm] assms
  by (auto simp: find_nodes_def dm_ok_def list_all_iff set_all_nodes)

lemma dfs_post_dm_ok:
  assumes "dm_ok st dm" "dfs_post (dm_children st dm) ns dm dm'"
  shows "dm_ok st dm'" "dm_children st dm' = dm_children st dm"
  using assms(1) dfs_post_frame[OF assms(2)] by (simp_all add: dm_ok_def)

lemma valid_pending_nodes:
  "pending_ok st pd \<Longrightarrow> list_all (valid_node st) (pending_nodes st main pd)"
  by (auto simp: list_all_iff pending_nodes_def pending_ok_def valid_node_def in_decl_def in_type_def
      split: if_splits)

lemma update_file_files_ok:
  assumes "files_ok st (FileEntryDependees dm) (FDMap dm)" "fst p < length (Files st)"
  shows "files_ok st (FileEntryDependees (update_file us st main p dm)) (FDMap (update_file us st main p dm))"
  using assms by (auto simp: files_ok_def update_file_def Let_def split: option.splits if_splits)

lemma fold_update_file_files_ok:
  assumes "files_ok st (FileEntryDependees dm) (FDMap dm)" "\<forall>p \<in> set ps. fst p < length (Files st)"
  shows "files_ok st (FileEntryDependees (fold (update_file us st main) ps dm)) (FDMap dm)"
  using assms
proof (induction ps arbitrary: dm)
  case (Cons p ps)
  then show ?case
    using update_file_files_ok[of st dm p us main] Cons.IH[of "update_file us st main p dm"] by simp
qed simp

lemma dm_ok_prepare:
  assumes ok: "dm_ok st dm" and pd: "pending_ok st pd"
  shows "dm_ok st (prepare_update us st main pd dm)"
proof -
  let ?dm = "prepare_update us st main pd dm"
  have fd: "fd_ok (FDMap dm)" using ok by (simp add: dm_ok_def)
  have "d < length (Decls st)" if d: "d \<in> set (fd_decls (FDMap ?dm) f)" for f d
  proof (cases "d \<in> set (new_decls pd)")
    case True
    then show ?thesis using pd by (simp add: pending_ok_def)
  next
    case False
    from d have "fd_find_decl (FDMap ?dm) d = Some f"
      using fdm.decls_iff prepare_update_FDMap(1)[OF fd] by blast
    then have "d \<in> set (fd_decls (FDMap dm) f)"
      using prepare_update_FDMap(2)[OF fd] False fdm.decls_iff[OF fd] by simp
    then show ?thesis using ok by (auto simp: dm_ok_def files_ok_def)
  qed
  moreover have "files_ok st (FileEntryDependees ?dm) (FDMap dm)"
    using fold_update_file_files_ok[of st dm "NewFEs pd" us main] ok pd
    by (simp add: prepare_update_def dm_ok_def pending_ok_def)
  ultimately show ?thesis
    using ok prepare_update_FDMap(1)[OF fd]
    by (auto simp: dm_ok_def files_ok_def prepare_update_frame)
qed

lemma update_post:
  assumes "dm_ok st dm" "pending_ok st pd"
  shows "\<exists>dm'. update us st main pd dm = Some (dm', no_pending) \<and>
    dfs_post (dm_children st (prepare_update us st main pd dm)) (pending_nodes st main pd)
      (prepare_update us st main pd dm) dm'"
  using find_nodes_total[OF dm_ok_prepare[OF assms] valid_pending_nodes[OF assms(2)]]
  by (auto simp: update_def)

lemma update_establishes:
  assumes ok: "dm_ok st dm" and pd: "pending_ok st pd"
    and kept: "\<And>v m. v \<in> Visited dm \<Longrightarrow> v \<notin> revisited pd \<Longrightarrow>
      m \<in> set (dm_children st (prepare_update us st main pd dm) v) \<Longrightarrow>
      v \<in> set (Dependents dm m) \<and> \<not> unlinked (ModifiedDecls pd) v m"
  shows "\<exists>dm'. update us st main pd dm = Some (dm', no_pending) \<and> dm_ok st dm' \<and>
    graph_complete st dm' \<and> set (pending_nodes st main pd) \<subseteq> Visited dm' \<and>
    (\<forall>v \<in> Visited dm' - (Visited dm - revisited pd). set (dm_children st dm' v) \<subseteq> Visited dm')"
proof -
  let ?p = "prepare_update us st main pd dm"
  obtain dm' where u: "update us st main pd dm = Some (dm', no_pending)"
    and post: "dfs_post (dm_children st ?p) (pending_nodes st main pd) ?p dm'"
    using update_post[OF ok pd] by blast
  note ok' = dfs_post_dm_ok[OF dm_ok_prepare[OF ok pd] post]
  have "v \<in> set (Dependents dm' m)" if "v \<in> Visited dm'" "m \<in> set (dm_children st ?p v)" for v m
  proof (cases "v \<in> Visited ?p")
    case True
    then show ?thesis using kept[of v m] that(2) dfs_postD(5)[OF post]
      by (simp add: prepare_update_frame)
  next
    case False
    then show ?thesis using that dfs_postD(5)[OF post] by simp
  qed
  then have "graph_complete st dm'" by (simp add: graph_complete_def ok'(2))
  moreover have "set (dm_children st dm' v) \<subseteq> Visited dm'"
    if "v \<in> Visited dm'" "v \<notin> Visited dm - revisited pd" for v
    using that dfs_postD(3)[OF post, of v] by (auto simp: ok'(2) prepare_update_frame)
  ultimately show ?thesis using u ok'(1) dfs_postD(2)[OF post] by blast
qed

lemma update_result:
  assumes ok: "dm_ok st dm" and pd: "pending_ok st pd"
    and kept: "\<And>v m. v \<in> Visited dm \<Longrightarrow> v \<notin> revisited pd \<Longrightarrow>
      m \<in> set (dm_children st (prepare_update us st main pd dm) v) \<Longrightarrow>
      m \<in> Visited dm - revisited pd \<or> m \<in> set (pending_nodes st main pd)"
  shows "\<exists>dm'. update us st main pd dm = Some (dm', no_pending) \<and>
    Visited dm' = (Visited dm - revisited pd) \<union> {v. \<exists>n \<in> set (pending_nodes st main pd).
      (n, v) \<in> {(a, b). b \<in> set (dm_children st dm' a)}\<^sup>*} \<and>
    (\<forall>x m. x \<in> set (Dependents dm' m) \<longleftrightarrow>
      (x \<in> set (Dependents dm m) \<and> \<not> unlinked (ModifiedDecls pd) x m) \<or>
      (x \<in> Visited dm' - (Visited dm - revisited pd) \<and> m \<in> set (dm_children st dm' x)))"
proof -
  let ?p = "prepare_update us st main pd dm"
  obtain dm' where u: "update us st main pd dm = Some (dm', no_pending)"
    and post: "dfs_post (dm_children st ?p) (pending_nodes st main pd) ?p dm'"
    using update_post[OF ok pd] by blast
  note same = dfs_post_dm_ok(2)[OF dm_ok_prepare[OF ok pd] post]
  have "m \<in> Visited ?p \<union> set (pending_nodes st main pd)"
    if "v \<in> Visited ?p" "m \<in> set (dm_children st ?p v)" for v m
    using kept[of v m] that by (auto simp: prepare_update_frame)
  then have "Visited dm' = Visited ?p \<union> {v. \<exists>n \<in> set (pending_nodes st main pd).
      (n, v) \<in> {(a, b). b \<in> set (dm_children st ?p a)}\<^sup>*}"
    using ast.dfs_visited[of "(st, FileEntryDependees ?p, FDMap ?p)", unfolded prod.case, OF post] by blast
  moreover have "x \<in> set (Dependents dm' m) \<longleftrightarrow>
      (x \<in> set (Dependents dm m) \<and> \<not> unlinked (ModifiedDecls pd) x m) \<or>
      (x \<in> Visited dm' - (Visited dm - revisited pd) \<and> m \<in> set (dm_children st ?p x))" for x m
    using dfs_postD(5)[OF post, of x m] ok by (auto simp: prepare_update_frame dm_ok_def)
  ultimately show ?thesis using u same by (auto simp: prepare_update_frame)
qed

lemma update_maps:
  assumes ok: "dm_ok st dm" and pd: "pending_ok st pd"
  shows "\<exists>dm'. update us st main pd dm = Some (dm', no_pending) \<and> fd_ok (FDMap dm') \<and>
    (\<forall>d f. d \<in> set (fd_decls (FDMap dm') f) \<longleftrightarrow>
       (if d \<in> set (new_decls pd) \<and> LocFile (decl_at st d) \<noteq> None then LocFile (decl_at st d) = Some f
        else d \<in> set (fd_decls (FDMap dm) f)))"
proof -
  obtain dm' where u: "update us st main pd dm = Some (dm', no_pending)"
    and same: "FDMap dm' = FDMap (prepare_update us st main pd dm)"
    using update_post[OF ok pd] dfs_post_frame(4) by blast
  have fd: "fd_ok (FDMap dm)" using ok by (simp add: dm_ok_def)
  note P = prepare_update_FDMap[OF fd]
  show ?thesis
    using u fdm.decls_iff[OF fd] fdm.decls_iff[OF P(1)] P
    by (auto simp: same split: option.split)
qed

subsection \<open>The small program\<close>

definition sample_selector :: unload_selector where
  "sample_selector = \<lparr>MutableRegex = WildRegex [], DoNotZapRegex = WildRegex []\<rparr>"

text \<open>The class has been visited before; the file and the variable are new.\<close>

definition sample_map :: dep_map where
  "sample_map = dep_map_init\<lparr>Visited := {DeclN 1, TypeN 0},
     Dependents := (\<lambda>_. [])(DeclN 1 := [TypeN 0], TypeN 0 := [DeclN 1]),
     FDMap := fd_insert 1 0 fd_empty\<rparr>"

definition sample_pending :: pending where
  "sample_pending = \<lparr>NewFEs = [(0, None)], ModifiedDecls = [], NewDecls = [2], NewTypes = [], NewNNS = []\<rparr>"

lemma sample_trees_ok: "trees_ok sample_store"
  by code_simp

lemma sample_dm_ok: "dm_ok sample_store sample_map"
proof -
  have "fd_ok (fd_insert 1 0 fd_empty)" by (rule fd_ok_insert[OF fd_ok_empty])
  moreover have "FileEntryDependees sample_map = (\<lambda>_. [])" "FDMap sample_map = fd_insert 1 0 fd_empty"
    by (simp_all add: sample_map_def dep_map_init_def)
  moreover have "files_ok sample_store (\<lambda>_. []) (fd_insert 1 0 fd_empty)"
    unfolding files_ok_def fd_insert_maps(2)[OF fd_ok_empty]
    by (simp add: sample_store_def fd_empty_def fd_decls_def)
  ultimately show ?thesis
    using sample_trees_ok by (simp add: dm_ok_def sample_map_def dep_map_init_def)
qed

lemma sample_pending_ok: "pending_ok sample_store sample_pending"
  by (simp add: pending_ok_def sample_pending_def sample_store_def new_decls_def)

lemma sample_kept:
  assumes "v \<in> Visited sample_map" "m \<in> set (node_children sample_store dependees fd v)"
  shows "v = DeclN 1 \<and> m = TypeN 0 \<or> v = TypeN 0 \<and> m = DeclN 1"
  using assms sample_children by (auto simp: sample_map_def node_children_def)

subsection \<open>The properties of an update\<close>

text \<open>
  C2 (invariant): \<^bold>\<open>update\<close> terminates and leaves a complete graph: every node it or an earlier
  update has visited is a dependent of each node its visit reaches, whatever changed, provided
  that the nodes it does not visit again were complete before, for the trees as they are now, and
  were not unlinked from a modified declaration they still use. Everything pending is visited,
  with every node that is visited now (and not only by an earlier update) each of the nodes its
  visit reaches is visited, and the state is fit for the next update.
\<close>

theorem update_complete:
  assumes "dm_ok st dm" "pending_ok st pd"
    and "\<And>v m. v \<in> Visited dm \<Longrightarrow> v \<notin> revisited pd \<Longrightarrow>
      m \<in> set (dm_children st (prepare_update us st main pd dm) v) \<Longrightarrow>
      v \<in> set (Dependents dm m) \<and> \<not> unlinked (ModifiedDecls pd) v m"
  shows "\<exists>dm'. update us st main pd dm = Some (dm', no_pending) \<and> dm_ok st dm' \<and>
    graph_complete st dm' \<and> set (pending_nodes st main pd) \<subseteq> Visited dm' \<and>
    (\<forall>v \<in> Visited dm' - (Visited dm - revisited pd). set (dm_children st dm' v) \<subseteq> Visited dm')"
  by (rule update_establishes[OF assms])

theorem update_complete_witness:
  "\<exists>dm'. update sample_selector sample_store None sample_pending sample_map = Some (dm', no_pending) \<and>
     dm_ok sample_store dm' \<and> graph_complete sample_store dm' \<and>
     set (pending_nodes sample_store None sample_pending) \<subseteq> Visited dm' \<and>
     (\<forall>v \<in> Visited dm' - (Visited sample_map - revisited sample_pending).
       set (dm_children sample_store dm' v) \<subseteq> Visited dm')"
proof (rule update_complete[OF sample_dm_ok sample_pending_ok])
  show "v \<in> set (Dependents sample_map m) \<and> \<not> unlinked (ModifiedDecls sample_pending) v m"
    if "v \<in> Visited sample_map"
      "m \<in> set (dm_children sample_store
         (prepare_update sample_selector sample_store None sample_pending sample_map) v)" for v m
    using sample_kept[OF that] by (auto simp: sample_map_def sample_pending_def unlinked_def)
qed

text \<open>
  C5 (functional): The visited nodes and the edges after an \<^bold>\<open>update\<close>, exactly: the nodes that
  were visited and are not visited again, and all that can be reached from the pending nodes; an
  edge is an old one that was not unlinked, or leads from a newly visited node to one that its
  visit reaches. No other edge appears.
\<close>

theorem update_exact:
  assumes "dm_ok st dm" "pending_ok st pd"
    and "\<And>v m. v \<in> Visited dm \<Longrightarrow> v \<notin> revisited pd \<Longrightarrow>
      m \<in> set (dm_children st (prepare_update us st main pd dm) v) \<Longrightarrow>
      m \<in> Visited dm - revisited pd \<or> m \<in> set (pending_nodes st main pd)"
  shows "\<exists>dm'. update us st main pd dm = Some (dm', no_pending) \<and>
    Visited dm' = (Visited dm - revisited pd) \<union> {v. \<exists>n \<in> set (pending_nodes st main pd).
      (n, v) \<in> {(a, b). b \<in> set (dm_children st dm' a)}\<^sup>*} \<and>
    (\<forall>x m. x \<in> set (Dependents dm' m) \<longleftrightarrow>
      (x \<in> set (Dependents dm m) \<and> \<not> unlinked (ModifiedDecls pd) x m) \<or>
      (x \<in> Visited dm' - (Visited dm - revisited pd) \<and> m \<in> set (dm_children st dm' x)))"
  by (rule update_result[OF assms])

theorem update_exact_witness:
  "\<exists>dm'. update sample_selector sample_store None sample_pending sample_map = Some (dm', no_pending) \<and>
     DeclN 2 \<in> set (Dependents dm' (TypeN 0)) \<and> DeclN 2 \<notin> set (Dependents dm' (DeclN 1))"
proof -
  have sub: "{DeclN 1, TypeN 0} \<subseteq> Visited sample_map - revisited sample_pending"
    by (simp add: sample_map_def sample_pending_def revisited_def new_decls_def)
  have kept: "\<And>v m. v \<in> Visited sample_map \<Longrightarrow> v \<notin> revisited sample_pending \<Longrightarrow>
      m \<in> set (dm_children sample_store
         (prepare_update sample_selector sample_store None sample_pending sample_map) v) \<Longrightarrow>
      m \<in> Visited sample_map - revisited sample_pending \<or> m \<in> set (pending_nodes sample_store None sample_pending)"
    by (drule (1) sample_kept) (use sub in blast)
  have "\<exists>dm'. update sample_selector sample_store None sample_pending sample_map = Some (dm', no_pending) \<and>
    Visited dm' = (Visited sample_map - revisited sample_pending) \<union>
      {v. \<exists>n \<in> set (pending_nodes sample_store None sample_pending).
      (n, v) \<in> {(a, b). b \<in> set (dm_children sample_store dm' a)}\<^sup>*} \<and>
    (\<forall>x m. x \<in> set (Dependents dm' m) \<longleftrightarrow>
      (x \<in> set (Dependents sample_map m) \<and> \<not> unlinked (ModifiedDecls sample_pending) x m) \<or>
      (x \<in> Visited dm' - (Visited sample_map - revisited sample_pending) \<and>
        m \<in> set (dm_children sample_store dm' x)))"
    by (rule update_exact[OF sample_dm_ok sample_pending_ok]) (rule kept)
  then obtain dm' where
    u: "update sample_selector sample_store None sample_pending sample_map = Some (dm', no_pending)"
    and v: "Visited dm' = (Visited sample_map - revisited sample_pending) \<union>
      {v. \<exists>n \<in> set (pending_nodes sample_store None sample_pending).
      (n, v) \<in> {(a, b). b \<in> set (dm_children sample_store dm' a)}\<^sup>*}"
    and d: "\<And>x m. x \<in> set (Dependents dm' m) \<longleftrightarrow>
      (x \<in> set (Dependents sample_map m) \<and> \<not> unlinked (ModifiedDecls sample_pending) x m) \<or>
      (x \<in> Visited dm' - (Visited sample_map - revisited sample_pending) \<and>
        m \<in> set (dm_children sample_store dm' x))"
    by blast
  have "DeclN 2 \<in> set (pending_nodes sample_store None sample_pending)" by code_simp
  then have "DeclN 2 \<in> Visited dm'" unfolding v by blast
  then have "DeclN 2 \<in> set (Dependents dm' (TypeN 0))" "DeclN 2 \<notin> set (Dependents dm' (DeclN 1))"
    unfolding d using sample_children
    by (auto simp: node_children_def sample_map_def sample_pending_def)
  with u show ?thesis by blast
qed

text \<open>
  After an \<^bold>\<open>update\<close> the two maps between files and declarations are inverse to
  each other, and read as one function: a new or modified declaration with a known place belongs
  to the file of that place, every other one to the file it belonged to.
\<close>

theorem update_maps_files:
  assumes "dm_ok st dm" "pending_ok st pd"
  shows "\<exists>dm'. update us st main pd dm = Some (dm', no_pending) \<and> fd_ok (FDMap dm') \<and>
    (\<forall>d f. d \<in> set (fd_decls (FDMap dm') f) \<longleftrightarrow>
       (if d \<in> set (new_decls pd) \<and> LocFile (decl_at st d) \<noteq> None then LocFile (decl_at st d) = Some f
        else d \<in> set (fd_decls (FDMap dm) f)))"
  by (rule update_maps[OF assms])

theorem update_maps_files_witness:
  "\<exists>dm'. update sample_selector sample_store None sample_pending sample_map = Some (dm', no_pending) \<and>
     2 \<in> set (fd_decls (FDMap dm') 0)"
  using update_maps_files[OF sample_dm_ok sample_pending_ok, of sample_selector None]
  by (auto simp: new_decls_def sample_pending_def sample_store_def sample_decl_def numeral_2_eq_2)

end
