(* ===== verification/Replacer.thy ===== *)
theory Replacer
  imports Dependees
begin

text \<open>
  Rewiring a node from an unloaded declaration to its replacement:
  \<^verbatim>\<open>tools/zapccs/UserReplacer.cpp\<close> and \<^verbatim>\<open>TemplateName::setTemplateDecl\<close> of
  \<^verbatim>\<open>lib/AST/TemplateName.cpp\<close>. The member \<^verbatim>\<open>Replaced\<close> of the class is the first component of
  the results. A statement belongs to one node; the operand of a \<^verbatim>\<open>typeid\<close> is one of the
  children of the expression and is written in both places.
\<close>

subsection \<open>Expressions and statements\<close>

definition nonUser :: "decl \<Rightarrow> decl \<Rightarrow> decl option \<Rightarrow> bool \<times> decl option" where
  "nonUser dependee replacement d =
     (if d \<noteq> Some dependee \<and> d \<noteq> Some replacement then (False, d) else (True, Some replacement))"

text \<open>Two replacements in a row: one of them is enough for a replacement to be reported.\<close>

definition both :: "('a \<Rightarrow> 'b \<Rightarrow> 'c) \<Rightarrow> bool \<times> 'a \<Rightarrow> bool \<times> 'b \<Rightarrow> bool \<times> 'c" where
  "both f p q = (fst p \<or> fst q, f (snd p) (snd q))"

fun replaceStmt :: "decl \<Rightarrow> decl \<Rightarrow> stmt \<Rightarrow> bool \<times> stmt"
and replaceStmts :: "decl \<Rightarrow> decl \<Rightarrow> stmt option list \<Rightarrow> bool \<times> stmt option list"
and replaceExprOf :: "decl \<Rightarrow> decl \<Rightarrow> stmt_class \<Rightarrow> bool \<times> stmt_class"
and replaceExpr :: "decl \<Rightarrow> decl \<Rightarrow> expr_class \<Rightarrow> bool \<times> expr_class"
where
  "replaceStmt d r (Stmt children k) =
     both (\<lambda>k' children'. Stmt children' k') (replaceExprOf d r k) (replaceStmts d r children)"
| "replaceStmts d r [] = (False, [])"
| "replaceStmts d r (None # ss) = apsnd (\<lambda>ss'. None # ss') (replaceStmts d r ss)"
| "replaceStmts d r (Some s # ss) = both (\<lambda>s' ss'. Some s' # ss') (replaceStmt d r s) (replaceStmts d r ss)"
| "replaceExprOf d r (ExprStmt qt cst e) = apsnd (ExprStmt qt cst) (replaceExpr d r e)"
| "replaceExprOf d r k = (False, k)"
| "replaceExpr d r (DeclRefExpr q x) = apsnd (DeclRefExpr q) (nonUser d r x)"
| "replaceExpr d r (MemberExpr x q) = apsnd (\<lambda>x'. MemberExpr x' q) (nonUser d r x)"
| "replaceExpr d r (CXXDefaultArgExpr x) = apsnd CXXDefaultArgExpr (nonUser d r x)"
| "replaceExpr d r (CXXConstructExpr x t) = apsnd (\<lambda>x'. CXXConstructExpr x' t) (nonUser d r x)"
| "replaceExpr d r (CXXNewExpr t x y) = both (CXXNewExpr t) (nonUser d r x) (nonUser d r y)"
| "replaceExpr d r (CXXDeleteExpr x) = apsnd CXXDeleteExpr (nonUser d r x)"
| "replaceExpr d r (CXXTypeidOfExpr (Some s)) = apsnd (\<lambda>s'. CXXTypeidOfExpr (Some s')) (replaceStmt d r s)"
| "replaceExpr d r e = (False, e)"

definition replaceStmtOpt :: "decl \<Rightarrow> decl \<Rightarrow> stmt option \<Rightarrow> bool \<times> stmt option" where
  "replaceStmtOpt d r s =
     (case s of None \<Rightarrow> (False, None) | Some s \<Rightarrow> (let (b, s') = replaceStmt d r s in (b, Some s')))"

subsection \<open>Template names\<close>

text \<open>
  \<^verbatim>\<open>getReplacement\<close> returns a copy of the inner template name. Setting the template of the copy
  has an effect only when the copy is a pointer to a qualified name or to another substitution.
\<close>

fun setTemplateDecl :: "decl option \<Rightarrow> template_name \<Rightarrow> template_name" where
  "setTemplateDecl td (TemplateTN d) = TemplateTN td"
| "setTemplateDecl td (QualifiedTemplateTN q d) = QualifiedTemplateTN q td"
| "setTemplateDecl td (SubstTemplateTemplateParmTN p (TemplateTN d)) =
     SubstTemplateTemplateParmTN p (TemplateTN d)"
| "setTemplateDecl td (SubstTemplateTemplateParmTN p tn) =
     SubstTemplateTemplateParmTN p (setTemplateDecl td tn)"
| "setTemplateDecl td tn = tn"

subsection \<open>Types\<close>

definition replaceTypeKind :: "decl \<Rightarrow> decl \<Rightarrow> bool \<Rightarrow> bool \<Rightarrow> type_kind \<Rightarrow> bool \<times> type_kind" where
  "replaceTypeKind d r canonical dependent k =
     (case k of
        VariableArrayType s e \<Rightarrow>
          (let (b, s') = replaceStmtOpt d r s in (b, VariableArrayType s' e))
      | DependentSizedArrayType s e \<Rightarrow>
          if canonical then (False, k)
          else (let (b, s') = replaceStmtOpt d r s in (b, DependentSizedArrayType s' e))
      | DependentSizedExtVectorType s e \<Rightarrow>
          if canonical then (False, k)
          else (let (b, s') = replaceStmtOpt d r s in (b, DependentSizedExtVectorType s' e))
      | UnresolvedUsingType x \<Rightarrow> (let (b, x') = nonUser d r x in (b, UnresolvedUsingType x'))
      | TypedefType x \<Rightarrow> (let (b, x') = nonUser d r x in (b, TypedefType x'))
      | TypeOfExprType s \<Rightarrow>
          if canonical \<and> dependent then (False, k)
          else (let (b, s') = replaceStmtOpt d r s in (b, TypeOfExprType s'))
      | DecltypeType s sugared u \<Rightarrow>
          if canonical \<and> dependent then (False, k)
          else (let (b, s') = replaceStmtOpt d r s in (b, DecltypeType s' sugared u))
      | EnumType x \<Rightarrow> (let (b, x') = nonUser d r x in (b, EnumType x'))
      | RecordType x \<Rightarrow> (let (b, x') = nonUser d r x in (b, RecordType x'))
      | TemplateTypeParmType c x \<Rightarrow>
          if canonical then (False, k)
          else (let (b, x') = nonUser d r x in (b, TemplateTypeParmType c x'))
      | TemplateSpecializationType tn alias aliased args \<Rightarrow>
          if canonical then (False, k)
          else (case getAsTemplateDecl tn of
                  None \<Rightarrow> (False, k)
                | Some td \<Rightarrow>
                    (let (b, td') = nonUser d r (Some td)
                     in (b, TemplateSpecializationType (setTemplateDecl td' tn) alias aliased args)))
      | InjectedClassNameType x s \<Rightarrow> (let (b, x') = nonUser d r x in (b, InjectedClassNameType x' s))
      | _ \<Rightarrow> (False, k))"

definition replaceType :: "decl \<Rightarrow> decl \<Rightarrow> type_id \<Rightarrow> store \<Rightarrow> bool \<times> store" where
  "replaceType d r t st =
     (let T = type_at st t;
          (b, k') = replaceTypeKind d r (CanonicalType T = t) (IsDependent T) (TypeClass T)
      in (b, st\<lparr>Types := (Types st)[t := T\<lparr>TypeClass := k'\<rparr>]\<rparr>))"

definition replaceNestedNameSpecifier :: "decl \<Rightarrow> decl \<Rightarrow> nns_id \<Rightarrow> store \<Rightarrow> bool \<times> store" where
  "replaceNestedNameSpecifier d r k st =
     (let N = NestedNames st ! k; (b, x') = nonUser d r (NnsRawDecl N)
      in (b, st\<lparr>NestedNames := (NestedNames st)[k := N\<lparr>NnsRawDecl := x'\<rparr>]\<rparr>))"

subsection \<open>Declarations\<close>

fun setBody :: "stmt option \<Rightarrow> function_part \<Rightarrow> function_part" where
  "setBody body (Function dd qt ret params args described primary member has_body old) =
     Function dd qt ret params args described primary member has_body body"

fun storedBody :: "function_part \<Rightarrow> stmt option" where
  "storedBody (Function dd qt ret params args described primary member has_body body) = body"

definition set_function_part :: "function_part \<Rightarrow> decl_kind \<Rightarrow> decl_kind" where
  "set_function_part f k =
     (case k of
        FunctionDecl _ \<Rightarrow> FunctionDecl f
      | CXXDeductionGuideDecl _ \<Rightarrow> CXXDeductionGuideDecl f
      | CXXMethodDecl _ \<Rightarrow> CXXMethodDecl f
      | CXXConstructorDecl _ inits \<Rightarrow> CXXConstructorDecl f inits
      | CXXDestructorDecl _ d \<Rightarrow> CXXDestructorDecl f d
      | CXXConversionDecl _ \<Rightarrow> CXXConversionDecl f
      | _ \<Rightarrow> k)"

fun setInit :: "stmt option \<Rightarrow> var_part \<Rightarrow> var_part" where
  "setInit init (Var dd old member) = Var dd init member"

fun getInit :: "var_part \<Rightarrow> stmt option" where
  "getInit (Var dd init member) = init"

definition set_var_part :: "var_part \<Rightarrow> decl_kind \<Rightarrow> decl_kind" where
  "set_var_part v k =
     (case k of
        VarDecl _ \<Rightarrow> VarDecl v
      | ImplicitParamDecl _ \<Rightarrow> ImplicitParamDecl v
      | OMPCapturedExprDecl _ \<Rightarrow> OMPCapturedExprDecl v
      | ParmVarDecl _ qt \<Rightarrow> ParmVarDecl v qt
      | VarTemplateSpecializationDecl _ as \<Rightarrow> VarTemplateSpecializationDecl v as
      | VarTemplatePartialSpecializationDecl _ as \<Rightarrow> VarTemplatePartialSpecializationDecl v as
      | DecompositionDecl _ bs \<Rightarrow> DecompositionDecl v bs
      | _ \<Rightarrow> k)"

definition put_kind :: "decl \<Rightarrow> decl_kind \<Rightarrow> store \<Rightarrow> store" where
  "put_kind x k st = st\<lparr>Decls := (Decls st)[x := (decl_at st x)\<lparr>Kind := k\<rparr>]\<rparr>"

text \<open>The body of a function is replaced in the redeclaration that \<^verbatim>\<open>getBody\<close> finds it in.\<close>

definition replaceBody :: "decl \<Rightarrow> decl \<Rightarrow> decl \<Rightarrow> store \<Rightarrow> bool \<times> store" where
  "replaceBody d r x st =
     (case BodyDecl (decl_at st x) of
        None \<Rightarrow> (False, st)
      | Some b \<Rightarrow>
          (case function_part_of (Kind (decl_at st b)) of
             None \<Rightarrow> (False, st)
           | Some f \<Rightarrow>
               (let (c, body) = replaceStmtOpt d r (storedBody f)
                in (c, put_kind b (set_function_part (setBody body f) (Kind (decl_at st b))) st))))"

fun replaceInits :: "decl \<Rightarrow> decl \<Rightarrow> ctor_initializer list \<Rightarrow> bool \<times> ctor_initializer list" where
  "replaceInits d r [] = (False, [])"
| "replaceInits d r (CtorInitializer t member init # is) =
     both (\<lambda>init' is'. CtorInitializer t member init' # is') (replaceStmtOpt d r init) (replaceInits d r is)"

definition replaceFunctionOwn :: "decl \<Rightarrow> decl \<Rightarrow> decl_kind \<Rightarrow> bool \<times> decl_kind" where
  "replaceFunctionOwn d r k =
     (case k of
        CXXConstructorDecl f inits \<Rightarrow>
          (let (b, inits') = replaceInits d r inits in (b, CXXConstructorDecl f inits'))
      | CXXDestructorDecl f x \<Rightarrow> (let (b, x') = nonUser d r x in (b, CXXDestructorDecl f x'))
      | _ \<Rightarrow> (False, k))"

definition replaceOther :: "decl \<Rightarrow> decl \<Rightarrow> decl_kind \<Rightarrow> bool \<times> decl_kind" where
  "replaceOther d r k =
     (case k of
        UsingDirectiveDecl q x c \<Rightarrow> (let (b, x') = nonUser d r x in (b, UsingDirectiveDecl q x' c))
      | LabelDecl s \<Rightarrow> (let (b, s') = replaceStmtOpt d r s in (b, LabelDecl s'))
      | _ \<Rightarrow>
          (case var_part_of k of
             Some v \<Rightarrow>
               (let (b, init) = replaceStmtOpt d r (getInit v) in (b, set_var_part (setInit init v) k))
           | None \<Rightarrow> (False, k)))"

definition replaceDecl :: "decl \<Rightarrow> decl \<Rightarrow> decl \<Rightarrow> store \<Rightarrow> bool \<times> store" where
  "replaceDecl d r x st =
     (case function_part_of (Kind (decl_at st x)) of
        Some f \<Rightarrow>
          (let (b, st1) = replaceBody d r x st; (c, k') = replaceFunctionOwn d r (Kind (decl_at st1 x))
           in (b \<or> c, put_kind x k' st1))
      | None \<Rightarrow>
          (let (b, k') = replaceOther d r (Kind (decl_at st x)) in (b, put_kind x k' st)))"

text \<open>The choice by the kind of the dependent, in \<^verbatim>\<open>collectUsersOf\<close>. A file is not rewired.\<close>

definition replaceNode :: "decl \<Rightarrow> decl \<Rightarrow> node \<Rightarrow> store \<Rightarrow> bool \<times> store" where
  "replaceNode d r n st =
     (case n of
        DeclN x \<Rightarrow> replaceDecl d r x st
      | TypeN t \<Rightarrow> replaceType d r t st
      | NnsN k \<Rightarrow> replaceNestedNameSpecifier d r k st
      | FileN f \<Rightarrow> (False, st))"

subsection \<open>What rewiring does\<close>

text \<open>The declarations a statement names in the places that rewiring knows.\<close>

fun names_stmt :: "stmt \<Rightarrow> decl option set"
and names_stmts :: "stmt option list \<Rightarrow> decl option set"
and names_class :: "stmt_class \<Rightarrow> decl option set"
and names_expr :: "expr_class \<Rightarrow> decl option set"
where
  "names_stmt (Stmt children k) = names_class k \<union> names_stmts children"
| "names_stmts [] = {}"
| "names_stmts (None # ss) = names_stmts ss"
| "names_stmts (Some s # ss) = names_stmt s \<union> names_stmts ss"
| "names_class (ExprStmt qt cst e) = names_expr e"
| "names_class k = {}"
| "names_expr (DeclRefExpr q x) = {x}"
| "names_expr (MemberExpr x q) = {x}"
| "names_expr (CXXDefaultArgExpr x) = {x}"
| "names_expr (CXXConstructExpr x t) = {x}"
| "names_expr (CXXNewExpr t x y) = {x, y}"
| "names_expr (CXXDeleteExpr x) = {x}"
| "names_expr (CXXTypeidOfExpr (Some s)) = names_stmt s"
| "names_expr e = {}"

definition renamed :: "decl \<Rightarrow> decl \<Rightarrow> decl option \<Rightarrow> decl option" where
  "renamed d r x = (if x = Some d then Some r else x)"

lemma nonUser_renamed: "nonUser d r x = (x = Some d \<or> x = Some r, renamed d r x)"
  by (auto simp: nonUser_def renamed_def)

lemma replaceStmt_names:
  "fst (replaceStmt d r s) \<longleftrightarrow> Some d \<in> names_stmt s \<or> Some r \<in> names_stmt s"
  "names_stmt (snd (replaceStmt d r s)) = renamed d r ` names_stmt s"
  "fst (replaceStmts d r ss) \<longleftrightarrow> Some d \<in> names_stmts ss \<or> Some r \<in> names_stmts ss"
  "names_stmts (snd (replaceStmts d r ss)) = renamed d r ` names_stmts ss"
  "fst (replaceExprOf d r k) \<longleftrightarrow> Some d \<in> names_class k \<or> Some r \<in> names_class k"
  "names_class (snd (replaceExprOf d r k)) = renamed d r ` names_class k"
  "fst (replaceExpr d r e) \<longleftrightarrow> Some d \<in> names_expr e \<or> Some r \<in> names_expr e"
  "names_expr (snd (replaceExpr d r e)) = renamed d r ` names_expr e"
  by (induction d r s and d r ss and d r k and d r e rule: replaceStmt_replaceStmts_replaceExprOf_replaceExpr.induct)
    (auto simp: nonUser_renamed both_def image_Un)

lemma replaceStmt_same:
  "\<not> fst (replaceStmt d r s) \<Longrightarrow> snd (replaceStmt d r s) = s"
  "\<not> fst (replaceStmts d r ss) \<Longrightarrow> snd (replaceStmts d r ss) = ss"
  "\<not> fst (replaceExprOf d r k) \<Longrightarrow> snd (replaceExprOf d r k) = k"
  "\<not> fst (replaceExpr d r e) \<Longrightarrow> snd (replaceExpr d r e) = e"
  by (induction d r s and d r ss and d r k and d r e rule: replaceStmt_replaceStmts_replaceExprOf_replaceExpr.induct)
    (auto simp: nonUser_def both_def split: if_splits)

lemma replaceStmtOpt_same: "\<not> fst (replaceStmtOpt d r s) \<Longrightarrow> snd (replaceStmtOpt d r s) = s"
  by (cases s) (auto simp: replaceStmtOpt_def case_prod_beta Let_def replaceStmt_same)

lemma nonUser_same: "\<not> fst (nonUser d r x) \<Longrightarrow> snd (nonUser d r x) = x"
  by (auto simp: nonUser_def split: if_splits)

lemma setTemplateDecl_same: "getAsTemplateDecl tn = Some x \<Longrightarrow> setTemplateDecl (Some x) tn = tn"
  by (induction "Some x" tn rule: setTemplateDecl.induct) auto

lemma replaceTypeKind_same:
  "\<not> fst (replaceTypeKind d r c dep k) \<Longrightarrow> snd (replaceTypeKind d r c dep k) = k"
  by (cases k)
    (auto simp: replaceTypeKind_def case_prod_beta Let_def replaceStmtOpt_same nonUser_same nonUser_def
      setTemplateDecl_same split: option.splits if_splits)

lemma replaceInits_same: "\<not> fst (replaceInits d r is) \<Longrightarrow> snd (replaceInits d r is) = is"
  by (induction d r "is" rule: replaceInits.induct)
    (auto simp: both_def replaceStmtOpt_same)

lemma replaceFunctionOwn_same: "\<not> fst (replaceFunctionOwn d r k) \<Longrightarrow> snd (replaceFunctionOwn d r k) = k"
  by (cases k) (auto simp: replaceFunctionOwn_def case_prod_beta Let_def replaceInits_same nonUser_same)

lemma setInit_getInit [simp]: "setInit (getInit v) v = v"
  by (cases v) simp

lemma setBody_storedBody [simp]: "setBody (storedBody f) f = f"
  by (cases f) simp

lemma set_function_part_same: "function_part_of k = Some f \<Longrightarrow> set_function_part f k = k"
  by (cases k) (simp_all add: function_part_of_def set_function_part_def)

lemma set_var_part_same: "var_part_of k = Some v \<Longrightarrow> set_var_part v k = k"
  by (cases k) (simp_all add: var_part_of_def set_var_part_def)

lemma replaceOther_same: "\<not> fst (replaceOther d r k) \<Longrightarrow> snd (replaceOther d r k) = k"
proof (cases "var_part_of k")
  case None
  then show "\<not> fst (replaceOther d r k) \<Longrightarrow> snd (replaceOther d r k) = k"
    by (cases k) (auto simp: replaceOther_def case_prod_beta Let_def nonUser_same replaceStmtOpt_same)
next
  case (Some v)
  then have "replaceOther d r k =
      (fst (replaceStmtOpt d r (getInit v)), set_var_part (setInit (snd (replaceStmtOpt d r (getInit v))) v) k)"
    by (cases k) (simp_all add: replaceOther_def case_prod_beta Let_def var_part_of_def)
  then show "\<not> fst (replaceOther d r k) \<Longrightarrow> snd (replaceOther d r k) = k"
    by (simp add: replaceStmtOpt_same set_var_part_same[OF Some])
qed

lemma put_kind_same [simp]: "put_kind x (Kind (decl_at st x)) st = st"
  by (simp add: put_kind_def)

lemma replaceBody_same: "\<not> fst (replaceBody d r x st) \<Longrightarrow> snd (replaceBody d r x st) = st"
  by (auto simp: replaceBody_def case_prod_beta Let_def replaceStmtOpt_same set_function_part_same
      split: option.splits)

lemma replaceNode_same: "\<not> fst (replaceNode d r n st) \<Longrightarrow> snd (replaceNode d r n st) = st"
proof (cases n)
  case (DeclN x)
  then show "\<not> fst (replaceNode d r n st) \<Longrightarrow> snd (replaceNode d r n st) = st"
    by (auto simp: replaceNode_def replaceDecl_def case_prod_beta Let_def replaceBody_same
        replaceFunctionOwn_same replaceOther_same split: option.splits)
qed (auto simp: replaceNode_def replaceType_def replaceNestedNameSpecifier_def case_prod_beta Let_def
    replaceTypeKind_same nonUser_same)

subsection \<open>What rewiring a node does\<close>

text \<open>
  The declarations a node names in the places that rewiring knows: a statement of a type, unless the
  type is canonical and dependent; the declaration of a type or name specifier; the body of a
  function, which one of its redeclarations holds; initializers.
\<close>

definition names_opt :: "stmt option \<Rightarrow> decl option set" where
  "names_opt s = (case s of None \<Rightarrow> {} | Some s \<Rightarrow> names_stmt s)"

definition names_type_kind :: "bool \<Rightarrow> bool \<Rightarrow> type_kind \<Rightarrow> decl option set" where
  "names_type_kind canonical dependent k =
     (case k of
        VariableArrayType s e \<Rightarrow> names_opt s
      | DependentSizedArrayType s e \<Rightarrow> if canonical then {} else names_opt s
      | DependentSizedExtVectorType s e \<Rightarrow> if canonical then {} else names_opt s
      | UnresolvedUsingType x \<Rightarrow> {x}
      | TypedefType x \<Rightarrow> {x}
      | TypeOfExprType s \<Rightarrow> if canonical \<and> dependent then {} else names_opt s
      | DecltypeType s sugared u \<Rightarrow> if canonical \<and> dependent then {} else names_opt s
      | EnumType x \<Rightarrow> {x}
      | RecordType x \<Rightarrow> {x}
      | TemplateTypeParmType c x \<Rightarrow> if canonical then {} else {x}
      | TemplateSpecializationType tn alias aliased args \<Rightarrow>
          if canonical then {} else Some ` set_option (getAsTemplateDecl tn)
      | InjectedClassNameType x s \<Rightarrow> {x}
      | _ \<Rightarrow> {})"

definition names_body :: "store \<Rightarrow> decl \<Rightarrow> decl option set" where
  "names_body st x =
     (case BodyDecl (decl_at st x) of
        None \<Rightarrow> {}
      | Some b \<Rightarrow> (case function_part_of (Kind (decl_at st b)) of None \<Rightarrow> {} | Some f \<Rightarrow> names_opt (storedBody f)))"

fun names_inits :: "ctor_initializer list \<Rightarrow> decl option set" where
  "names_inits [] = {}"
| "names_inits (CtorInitializer t member init # is) = names_opt init \<union> names_inits is"

definition names_own :: "decl_kind \<Rightarrow> decl option set" where
  "names_own k =
     (case k of CXXConstructorDecl f inits \<Rightarrow> names_inits inits | CXXDestructorDecl f x \<Rightarrow> {x} | _ \<Rightarrow> {})"

definition names_other :: "decl_kind \<Rightarrow> decl option set" where
  "names_other k =
     (case k of
        UsingDirectiveDecl q x c \<Rightarrow> {x}
      | LabelDecl s \<Rightarrow> names_opt s
      | _ \<Rightarrow> (case var_part_of k of Some v \<Rightarrow> names_opt (getInit v) | None \<Rightarrow> {}))"

definition names_decl :: "store \<Rightarrow> decl \<Rightarrow> decl option set" where
  "names_decl st x =
     (case function_part_of (Kind (decl_at st x)) of
        Some f \<Rightarrow> names_body st x \<union> names_own (Kind (decl_at st x))
      | None \<Rightarrow> names_other (Kind (decl_at st x)))"

definition names_node :: "store \<Rightarrow> node \<Rightarrow> decl option set" where
  "names_node st n =
     (case n of
        DeclN x \<Rightarrow> names_decl st x
      | TypeN t \<Rightarrow> names_type_kind (CanonicalType (type_at st t) = t) (IsDependent (type_at st t)) (TypeClass (type_at st t))
      | NnsN k \<Rightarrow> {NnsRawDecl (NestedNames st ! k)}
      | FileN f \<Rightarrow> {})"

text \<open>The template is that of a copy of a substituted name, which cannot be set.\<close>

fun copied_template :: "template_name \<Rightarrow> bool" where
  "copied_template (SubstTemplateTemplateParmTN p (TemplateTN d)) = True"
| "copied_template (SubstTemplateTemplateParmTN p tn) = copied_template tn"
| "copied_template tn = False"

definition rewirable :: "store \<Rightarrow> node \<Rightarrow> bool" where
  "rewirable st n \<longleftrightarrow> valid_node st n \<and>
     (case n of
        DeclN x \<Rightarrow> (case BodyDecl (decl_at st x) of None \<Rightarrow> True | Some b \<Rightarrow> b < length (Decls st))
      | TypeN t \<Rightarrow> (case TypeClass (type_at st t) of
          TemplateSpecializationType tn alias aliased args \<Rightarrow> \<not> copied_template tn | _ \<Rightarrow> True)
      | _ \<Rightarrow> True)"

text \<open>The result of a rewiring: what is reported and what is named afterwards.\<close>

definition rename_result :: "decl \<Rightarrow> decl \<Rightarrow> decl option set \<Rightarrow> bool \<Rightarrow> decl option set \<Rightarrow> bool" where
  "rename_result d r names reported names' \<longleftrightarrow>
     (reported \<longleftrightarrow> Some d \<in> names \<or> Some r \<in> names) \<and> names' = renamed d r ` names"

lemma rename_Un:
  "rename_result d r A p A' \<Longrightarrow> rename_result d r B q B' \<Longrightarrow> rename_result d r (A \<union> B) (p \<or> q) (A' \<union> B')"
  by (auto simp: rename_result_def)

lemma rename_none [simp]: "rename_result d r {} False {}"
  by (simp add: rename_result_def)

lemma rename_nonUser: "rename_result d r {x} (fst (nonUser d r x)) {snd (nonUser d r x)}"
  by (auto simp: rename_result_def nonUser_renamed)

lemma rename_opt: "rename_result d r (names_opt s) (fst (replaceStmtOpt d r s)) (names_opt (snd (replaceStmtOpt d r s)))"
  by (cases s) (simp_all add: rename_result_def names_opt_def replaceStmtOpt_def case_prod_beta Let_def replaceStmt_names)

lemma getAsTemplateDecl_set:
  "\<not> copied_template tn \<Longrightarrow> getAsTemplateDecl tn = Some x \<Longrightarrow> getAsTemplateDecl (setTemplateDecl (Some y) tn) = Some y"
  by (induction tn rule: copied_template.induct) auto

lemma rename_type:
  assumes "case k of TemplateSpecializationType tn alias aliased args \<Rightarrow> \<not> copied_template tn | _ \<Rightarrow> True"
  shows "rename_result d r (names_type_kind c dep k) (fst (replaceTypeKind d r c dep k))
    (names_type_kind c dep (snd (replaceTypeKind d r c dep k)))"
proof (cases k)
  case (TemplateSpecializationType tn b aliased args)
  then show ?thesis
    using assms getAsTemplateDecl_set[of tn]
    by (cases "getAsTemplateDecl tn")
      (auto simp: names_type_kind_def replaceTypeKind_def nonUser_def rename_result_def renamed_def)
qed (auto simp: names_type_kind_def replaceTypeKind_def case_prod_beta Let_def intro: rename_nonUser rename_opt)

lemma rename_inits: "rename_result d r (names_inits is) (fst (replaceInits d r is)) (names_inits (snd (replaceInits d r is)))"
  by (induction "is" rule: names_inits.induct) (auto simp: both_def intro: rename_Un rename_opt)

lemma rename_own:
  "rename_result d r (names_own k) (fst (replaceFunctionOwn d r k)) (names_own (snd (replaceFunctionOwn d r k)))"
  by (cases k) (auto simp: names_own_def replaceFunctionOwn_def case_prod_beta Let_def
      intro: rename_inits rename_nonUser)

lemma getInit_setInit [simp]: "getInit (setInit i v) = i"
  by (cases v) simp

lemma storedBody_setBody [simp]: "storedBody (setBody b f) = b"
  by (cases f) simp

lemma rename_other:
  "rename_result d r (names_other k) (fst (replaceOther d r k)) (names_other (snd (replaceOther d r k)))"
  by (cases k) (auto simp: names_other_def replaceOther_def case_prod_beta Let_def var_part_of_def set_var_part_def
      intro: rename_opt rename_nonUser)

text \<open>The body of a function belongs to one redeclaration, the initializers and so on to the node.\<close>

lemma parts_set:
  assumes "function_part_of k = Some f"
  shows "function_part_of (set_function_part g k) = Some g" "names_own (set_function_part g k) = names_own k"
    "function_part_of (snd (replaceFunctionOwn d r k)) = Some f"
  using assms by (cases k; simp add: function_part_of_def set_function_part_def names_own_def replaceFunctionOwn_def
      case_prod_beta Let_def)+

lemma other_stays_other:
  "function_part_of k = None \<Longrightarrow> function_part_of (snd (replaceOther d r k)) = None"
  by (cases k) (auto simp: function_part_of_def replaceOther_def case_prod_beta Let_def var_part_of_def set_var_part_def)

lemma put_kind_fields [simp]:
  "length (Decls (put_kind x k st)) = length (Decls st)"
  "x < length (Decls st) \<Longrightarrow> Kind (decl_at (put_kind x k st) x) = k"
  "y \<noteq> x \<Longrightarrow> decl_at (put_kind x k st) y = decl_at st y"
  "x < length (Decls st) \<Longrightarrow> BodyDecl (decl_at (put_kind x k st) y) = BodyDecl (decl_at st y)"
  by (auto simp: put_kind_def nth_list_update)

lemma names_body_put_own:
  assumes "x < length (Decls st)" "function_part_of k' = function_part_of (Kind (decl_at st x))"
  shows "names_body (put_kind x k' st) x = names_body st x"
proof (cases "BodyDecl (decl_at st x)")
  case (Some b)
  then show ?thesis using assms by (cases "b = x") (simp_all add: names_body_def)
qed (use assms in \<open>simp add: names_body_def\<close>)

lemma replaceBody_rename:
  assumes f: "function_part_of (Kind (decl_at st x)) = Some f" and x: "x < length (Decls st)"
    and b: "\<And>b. BodyDecl (decl_at st x) = Some b \<Longrightarrow> b < length (Decls st)"
    and st1_def: "st1 = snd (replaceBody d r x st)"
  shows "rename_result d r (names_body st x) (fst (replaceBody d r x st)) (names_body st1 x)"
    "length (Decls st1) = length (Decls st)" "names_own (Kind (decl_at st1 x)) = names_own (Kind (decl_at st x))"
    "\<exists>g. function_part_of (Kind (decl_at st1 x)) = Some g"
proof -
  have "rename_result d r (names_body st x) (fst (replaceBody d r x st)) (names_body st1 x) \<and>
    length (Decls st1) = length (Decls st) \<and> names_own (Kind (decl_at st1 x)) = names_own (Kind (decl_at st x)) \<and>
    (\<exists>g. function_part_of (Kind (decl_at st1 x)) = Some g)"
  proof (cases "BodyDecl (decl_at st x)")
    case None
    then show ?thesis using f by (simp add: st1_def replaceBody_def names_body_def)
  next
    case (Some y)
    note y = b[OF Some]
    show ?thesis
    proof (cases "function_part_of (Kind (decl_at st y))")
      case None
      then show ?thesis using f Some by (simp add: st1_def replaceBody_def names_body_def)
    next
      case (Some g)
      let ?body = "replaceStmtOpt d r (storedBody g)"
      have st1: "st1 = put_kind y (set_function_part (setBody (snd ?body) g) (Kind (decl_at st y))) st"
        "fst (replaceBody d r x st) = fst ?body"
        using Some \<open>BodyDecl (decl_at st x) = Some y\<close>
        by (simp_all add: st1_def replaceBody_def case_prod_beta Let_def)
      have "names_body st x = names_opt (storedBody g)" "names_body st1 x = names_opt (snd ?body)"
        using Some \<open>BodyDecl (decl_at st x) = Some y\<close> y by (simp_all add: names_body_def st1(1) parts_set)
      moreover have "names_own (Kind (decl_at st1 x)) = names_own (Kind (decl_at st x))"
        "\<exists>g. function_part_of (Kind (decl_at st1 x)) = Some g"
        using f Some y by (cases "y = x"; simp add: st1(1) parts_set)+
      ultimately show ?thesis using rename_opt[of d r "storedBody g"] st1(2) by (simp add: st1(1))
    qed
  qed
  then show "rename_result d r (names_body st x) (fst (replaceBody d r x st)) (names_body st1 x)"
    "length (Decls st1) = length (Decls st)" "names_own (Kind (decl_at st1 x)) = names_own (Kind (decl_at st x))"
    "\<exists>g. function_part_of (Kind (decl_at st1 x)) = Some g" by blast+
qed

lemma rename_decl:
  assumes "x < length (Decls st)" "\<And>b. BodyDecl (decl_at st x) = Some b \<Longrightarrow> b < length (Decls st)"
  shows "rename_result d r (names_decl st x) (fst (replaceDecl d r x st)) (names_decl (snd (replaceDecl d r x st)) x)"
proof (cases "function_part_of (Kind (decl_at st x))")
  case None
  then show ?thesis
    using rename_other[of d r "Kind (decl_at st x)"] other_stays_other[OF None, of d r] assms(1)
    by (simp add: replaceDecl_def names_decl_def case_prod_beta Let_def)
next
  case (Some f)
  note B = replaceBody_rename[OF Some assms refl, of d r]
  let ?st1 = "snd (replaceBody d r x st)"
  let ?own = "replaceFunctionOwn d r (Kind (decl_at ?st1 x))"
  have x: "x < length (Decls ?st1)" using assms(1) B(2) by simp
  obtain g where g: "function_part_of (Kind (decl_at ?st1 x)) = Some g" using B(4) by blast
  have rep: "replaceDecl d r x st = (fst (replaceBody d r x st) \<or> fst ?own, put_kind x (snd ?own) ?st1)"
    using Some by (simp add: replaceDecl_def case_prod_beta Let_def)
  have "names_decl (put_kind x (snd ?own) ?st1) x = names_body ?st1 x \<union> names_own (snd ?own)"
    using x names_body_put_own[of x ?st1 "snd ?own"] by (simp add: names_decl_def parts_set(3)[OF g] g)
  moreover have "names_decl st x = names_body st x \<union> names_own (Kind (decl_at ?st1 x))"
    using Some B(3) by (simp add: names_decl_def)
  ultimately show ?thesis using rename_Un[OF B(1) rename_own] by (simp add: rep)
qed

lemma rename_node:
  assumes "rewirable st n"
  shows "rename_result d r (names_node st n) (fst (replaceNode d r n st)) (names_node (snd (replaceNode d r n st)) n)"
proof (cases n)
  case (DeclN x)
  then show ?thesis
    using assms rename_decl[of x st d r]
    by (auto simp: rewirable_def valid_node_def replaceNode_def names_node_def split: option.splits)
next
  case (TypeN t)
  then show ?thesis
    using assms rename_type[of "TypeClass (type_at st t)" d r "CanonicalType (type_at st t) = t" "IsDependent (type_at st t)"]
    by (simp add: rewirable_def valid_node_def replaceNode_def names_node_def replaceType_def case_prod_beta Let_def)
next
  case (NnsN k)
  then show ?thesis
    using assms rename_nonUser
    by (simp add: rewirable_def valid_node_def replaceNode_def names_node_def replaceNestedNameSpecifier_def
        case_prod_beta Let_def)
qed (simp add: replaceNode_def names_node_def)

text \<open>Everything but the node, and the declaration that has the body of a function, is left alone.\<close>

definition others_kept :: "store \<Rightarrow> node \<Rightarrow> store \<Rightarrow> bool" where
  "others_kept st n st' \<longleftrightarrow> Files st' = Files st \<and>
     (\<forall>t. TypeN t \<noteq> n \<longrightarrow> type_at st' t = type_at st t) \<and>
     (\<forall>k. NnsN k \<noteq> n \<longrightarrow> NestedNames st' ! k = NestedNames st ! k) \<and>
     (\<forall>y. DeclN y \<noteq> n \<longrightarrow> (\<forall>x. n = DeclN x \<longrightarrow> BodyDecl (decl_at st x) \<noteq> Some y) \<longrightarrow> decl_at st' y = decl_at st y)"

lemma others_kept_put: "y = x \<or> BodyDecl (decl_at st x) = Some y \<Longrightarrow> others_kept st (DeclN x) (put_kind y k st)"
  by (auto simp: others_kept_def put_kind_def)

lemma others_kept_refl: "others_kept st n st"
  by (simp add: others_kept_def)

lemma replaceDecl_others: "others_kept st (DeclN x) (snd (replaceDecl d r x st))"
proof -
  have body: "others_kept st (DeclN x) (snd (replaceBody d r x st))"
    by (auto simp: replaceBody_def case_prod_beta Let_def intro: others_kept_put others_kept_refl split: option.split)
  have then_own: "others_kept st (DeclN x) (put_kind x k st1)" if "others_kept st (DeclN x) st1" for k st1
    using that by (auto simp: others_kept_def put_kind_def)
  show ?thesis
    using then_own[OF body] by (auto simp: replaceDecl_def case_prod_beta Let_def intro: others_kept_put split: option.split)
qed

lemma replaceNode_others: "others_kept st n (snd (replaceNode d r n st))"
proof (cases n)
  case (DeclN x)
  then show ?thesis using replaceDecl_others by (simp add: replaceNode_def)
qed (auto simp: others_kept_def replaceNode_def replaceType_def replaceNestedNameSpecifier_def case_prod_beta Let_def)

lemma replaceNode_establishes:
  assumes "rewirable st n"
  shows "\<exists>st'. replaceNode d r n st = (Some d \<in> names_node st n \<or> Some r \<in> names_node st n, st') \<and>
    names_node st' n = (\<lambda>x. if x = Some d then Some r else x) ` names_node st n \<and>
    (Some d \<notin> names_node st n \<and> Some r \<notin> names_node st n \<longrightarrow> st' = st) \<and> others_kept st n st'"
  using rename_node[OF assms, of d r] replaceNode_same[of d r n st] replaceNode_others[of st n d r]
  by (cases "replaceNode d r n st") (auto simp: rename_result_def renamed_def[abs_def])

text \<open>
  C20 (functional): Rewiring a statement replaces the unloaded declaration by its replacement in
  every place \<^bold>\<open>replaceExpr\<close> knows, at any depth, and nothing else; it reports a replacement exactly
  when one of the two declarations is named there.
\<close>

theorem replaceStmt_renames:
  "(fst (replaceStmt d r s) \<longleftrightarrow> Some d \<in> names_stmt s \<or> Some r \<in> names_stmt s) \<and>
   names_stmt (snd (replaceStmt d r s)) = (\<lambda>x. if x = Some d then Some r else x) ` names_stmt s"
  using replaceStmt_names(1,2)[of d r s] by (simp add: renamed_def[abs_def])


text \<open>
  A function 1 whose body, in its redeclaration 2, calls the function 3 and reads the member 4 of
  what it returns; 3 is unloaded and redeclared by 5.
\<close>

definition sample_function :: "stmt option \<Rightarrow> decl_kind" where
  "sample_function body = FunctionDecl (Function (Declarator None None []) None None [] None None None None (body \<noteq> None) body)"

definition sample_calls :: store where
  "sample_calls = (let ref = Some (Stmt [] (ExprStmt None None (DeclRefExpr None (Some 3))));
       body = Stmt [Some (Stmt [ref] (ExprStmt None None (MemberExpr (Some 4) None)))] OtherStmt
     in sample_store\<lparr>Decls := [sample_unit, (sample_decl (sample_function None) 2)\<lparr>BodyDecl := Some 2\<rparr>,
       (sample_decl (sample_function (Some body)) 2)\<lparr>BodyDecl := Some 2\<rparr>,
       sample_decl (sample_function None) 5, sample_decl (sample_var 0) 4, sample_decl (sample_function None) 5]\<rparr>)"


text \<open>
  A template specialization whose template is a substituted template parameter is
  reported as rewired although it still refers to the unloaded template: \<^verbatim>\<open>getReplacement\<close> returns a
  copy, and \<^bold>\<open>setTemplateDecl\<close> changes the copy.
\<close>

theorem substituted_template_not_rewired:
  "replaceTypeKind d r False dependent
     (TemplateSpecializationType (SubstTemplateTemplateParmTN p (TemplateTN (Some d))) alias aliased args) =
   (True, TemplateSpecializationType (SubstTemplateTemplateParmTN p (TemplateTN (Some d))) alias aliased args)"
  by (simp add: replaceTypeKind_def nonUser_def)

text \<open>
  Rewiring reports a body as replaced as soon as one reference is, but there are
  references that the graph records and rewiring does not know: after it, this body, which calls a
  destructor and destroys a temporary with it, still depends on the unloaded destructor.
\<close>

theorem partly_rewired_body:
  "let s = Stmt [Some (Stmt [] (ExprStmt None None (MemberExpr (Some 1) None))),
                 Some (Stmt [] (ExprStmt None None (CXXBindTemporaryExpr (Some 1))))] OtherStmt;
       st = \<lparr>Decls = replicate 3 (D\<lparr>Kind := CXXDestructorDecl f None\<rparr>), Types = [], NestedNames = [],
             Files = []\<rparr>
   in fst (replaceStmt 1 2 s) \<and> DeclN 1 \<in> set (findInStmt st (Some (snd (replaceStmt 1 2 s)))) \<and>
      DeclN 2 \<in> set (findInStmt st (Some (snd (replaceStmt 1 2 s))))"
  by (simp add: nonUser_def both_def findInStmt_def in_decl_def in_qual_type_def in_type_def in_cast_def
      in_nns_def Let_def numeral_3_eq_3 numeral_2_eq_2)

end
