(* ===== verification/Users.thy ===== *)
theory Users
  imports DepMap Replacer
begin

text \<open>
  Collecting what has to be unloaded: \<^verbatim>\<open>findModifiedFiles\<close>, \<^verbatim>\<open>findReplacement\<close>,
  \<^verbatim>\<open>collectUsersOf\<close> and \<^verbatim>\<open>collectUsers\<close> of \<^verbatim>\<open>tools/zapccs/DependencyMap.cpp\<close>. The state is the
  trees, which rewiring changes, the dependency map, and the set \<^verbatim>\<open>VisitedUsers\<close>.
\<close>

subsection \<open>Modified files\<close>

text \<open>\<^verbatim>\<open>status\<close> may fail; then the file does not count as modified.\<close>

definition wasModified :: "store \<Rightarrow> file \<Rightarrow> bool" where
  "wasModified st fe =
     (case StatusTime (Files st ! fe) of None \<Rightarrow> False
      | Some t2 \<Rightarrow> ModificationTime (Files st ! fe) \<noteq> t2)"

text \<open>
  The files with the latest modification times, at most a hundred. \<^verbatim>\<open>std::sort\<close> leaves the order of
  equal times open; here they keep the order of the files.
\<close>

definition findModifiedFiles :: "store \<Rightarrow> dep_map \<Rightarrow> dep_map" where
  "findModifiedFiles st dm =
     (let fes = sort_key (\<lambda>fe. - ModificationTime (Files st ! fe)) [0..<length (Files st)]
      in dm\<lparr>UD := fold (\<lambda>fe ud. if wasModified st fe then ud\<lparr>UserFiles := set_add fe (UserFiles ud)\<rparr> else ud)
             (take 100 fes) (UD dm)\<rparr>)"

subsection \<open>Replacements\<close>

definition getKind :: "decl_kind \<Rightarrow> nat" where
  "getKind k =
     (case k of
        TranslationUnitDecl \<Rightarrow> 0
      | NamespaceDecl \<Rightarrow> 1
      | NamespaceAliasDecl _ _ \<Rightarrow> 2
      | LabelDecl _ \<Rightarrow> 3
      | StaticAssertDecl _ \<Rightarrow> 4
      | FriendDecl _ _ _ \<Rightarrow> 5
      | FunctionTemplateDecl _ \<Rightarrow> 6
      | ClassTemplateDecl _ \<Rightarrow> 7
      | VarTemplateDecl _ \<Rightarrow> 8
      | TypeAliasTemplateDecl _ \<Rightarrow> 9
      | BuiltinTemplateDecl _ \<Rightarrow> 10
      | TemplateTemplateParmDecl _ _ \<Rightarrow> 11
      | TypedefDecl _ \<Rightarrow> 12
      | TypeAliasDecl _ _ \<Rightarrow> 13
      | ObjCTypeParamDecl _ \<Rightarrow> 14
      | EnumDecl _ _ \<Rightarrow> 15
      | RecordDecl _ \<Rightarrow> 16
      | CXXRecordDecl _ _ \<Rightarrow> 17
      | ClassTemplateSpecializationDecl _ _ _ \<Rightarrow> 18
      | ClassTemplatePartialSpecializationDecl _ _ _ _ \<Rightarrow> 19
      | TemplateTypeParmDecl _ _ \<Rightarrow> 20
      | UnresolvedUsingTypenameDecl _ _ \<Rightarrow> 21
      | UsingDecl _ _ \<Rightarrow> 22
      | UsingPackDecl _ _ \<Rightarrow> 23
      | UsingShadowDecl _ _ \<Rightarrow> 24
      | ConstructorUsingShadowDecl _ _ _ _ \<Rightarrow> 25
      | UsingDirectiveDecl _ _ _ \<Rightarrow> 26
      | BindingDecl _ \<Rightarrow> 27
      | EnumConstantDecl _ \<Rightarrow> 28
      | IndirectFieldDecl _ \<Rightarrow> 29
      | UnresolvedUsingValueDecl \<Rightarrow> 30
      | BlockDecl _ _ _ \<Rightarrow> 31
      | CapturedDecl _ _ \<Rightarrow> 32
      | ClassScopeFunctionSpecializationDecl _ \<Rightarrow> 33
      | FieldDecl _ _ _ \<Rightarrow> 34
      | ObjCIvarDecl _ _ _ \<Rightarrow> 35
      | ObjCAtDefsFieldDecl _ _ _ \<Rightarrow> 36
      | FunctionDecl _ \<Rightarrow> 37
      | CXXDeductionGuideDecl _ \<Rightarrow> 38
      | CXXMethodDecl _ \<Rightarrow> 39
      | CXXConstructorDecl _ _ \<Rightarrow> 40
      | CXXDestructorDecl _ _ \<Rightarrow> 41
      | CXXConversionDecl _ \<Rightarrow> 42
      | MSPropertyDecl _ \<Rightarrow> 43
      | NonTypeTemplateParmDecl _ _ _ \<Rightarrow> 44
      | VarDecl _ \<Rightarrow> 45
      | ImplicitParamDecl _ \<Rightarrow> 46
      | OMPCapturedExprDecl _ \<Rightarrow> 47
      | ParmVarDecl _ _ \<Rightarrow> 48
      | VarTemplateSpecializationDecl _ _ \<Rightarrow> 49
      | VarTemplatePartialSpecializationDecl _ _ \<Rightarrow> 50
      | DecompositionDecl _ _ \<Rightarrow> 51
      | OtherDecl \<Rightarrow> 52)"

definition template_part_of :: "decl_kind \<Rightarrow> template_part option" where
  "template_part_of k =
     (case k of
        FunctionTemplateDecl t \<Rightarrow> Some t
      | ClassTemplateDecl t \<Rightarrow> Some t
      | VarTemplateDecl t \<Rightarrow> Some t
      | TypeAliasTemplateDecl t \<Rightarrow> Some t
      | BuiltinTemplateDecl t \<Rightarrow> Some t
      | TemplateTemplateParmDecl t e \<Rightarrow> Some t
      | _ \<Rightarrow> None)"

fun getTemplateParameters :: "template_part \<Rightarrow> template_parameters" where
  "getTemplateParameters (Template tpl d c) = tpl"

fun getParams :: "function_part \<Rightarrow> decl option list" where
  "getParams (Function dd qt ret params args described primary member has_body body) = params"

text \<open>The redeclarations from the most recent one backwards; there are no more than declarations.\<close>

fun redecl_chain :: "nat \<Rightarrow> store \<Rightarrow> decl option \<Rightarrow> decl list" where
  "redecl_chain 0 st r = []"
| "redecl_chain (Suc fuel) st None = []"
| "redecl_chain (Suc fuel) st (Some r) = r # redecl_chain fuel st (PreviousDecl (decl_at st r))"

definition redecls :: "store \<Rightarrow> decl \<Rightarrow> decl list" where
  "redecls st d = redecl_chain (length (Decls st)) st (Some (MostRecentDecl (decl_at st d)))"

text \<open>The loop of \<^verbatim>\<open>findReplacement\<close>: the last match is the result. The used flag it sets is not modelled.\<close>

definition findRedeclReplacement :: "store \<Rightarrow> decl list \<Rightarrow> decl \<Rightarrow> decl option" where
  "findRedeclReplacement st users dependee =
     fold (\<lambda>r replacement.
         if r \<noteq> dependee \<and> getKind (Kind (decl_at st r)) = getKind (Kind (decl_at st dependee)) \<and>
            r \<notin> set users
         then Some r else replacement)
       (redecls st dependee) None"

text \<open>The parameter of the new list at the place of the old one.\<close>

definition same_place :: "decl option list \<Rightarrow> decl option list \<Rightarrow> decl \<Rightarrow> decl option" where
  "same_place old_params new_params x = Option.bind (map_of (zip old_params new_params) (Some x)) id"

definition isTemplateTypeParm :: "decl_kind \<Rightarrow> bool" where
  "isTemplateTypeParm k = (case k of TemplateTypeParmDecl t d \<Rightarrow> True | _ \<Rightarrow> False)"

definition isParmVar :: "decl_kind \<Rightarrow> bool" where
  "isParmVar k = (case k of ParmVarDecl v qt \<Rightarrow> True | _ \<Rightarrow> False)"

text \<open>A cast to the class of the parameter; another class is undefined behaviour, here null.\<close>

definition cast_param :: "store \<Rightarrow> (decl_kind \<Rightarrow> bool) \<Rightarrow> decl option \<Rightarrow> decl option" where
  "cast_param st is_class x =
     (case x of None \<Rightarrow> None | Some y \<Rightarrow> if is_class (Kind (decl_at st y)) then Some y else None)"

definition findReplacementTemplateTypeParm :: "store \<Rightarrow> decl list \<Rightarrow> decl \<Rightarrow> decl option" where
  "findReplacementTemplateTypeParm st users x =
     (case SemanticDC (decl_at st x) of
        None \<Rightarrow> None
      | Some dc \<Rightarrow>
          if \<not> isCXXRecordDecl (Kind (decl_at st dc)) then None
          else (case DescribedClassTemplate (decl_at st dc) of
                  None \<Rightarrow> None
                | Some old_decl \<Rightarrow>
                    (case findRedeclReplacement st users old_decl of
                       None \<Rightarrow> None
                     | Some new_decl \<Rightarrow>
                         (case (template_part_of (Kind (decl_at st old_decl)),
                                template_part_of (Kind (decl_at st new_decl))) of
                            (Some t, Some u) \<Rightarrow>
                              cast_param st isTemplateTypeParm
                                (same_place (getTemplateParameters t) (getTemplateParameters u) x)
                          | _ \<Rightarrow> None))))"

definition findReplacementParmVarDecl :: "store \<Rightarrow> decl list \<Rightarrow> decl \<Rightarrow> decl option" where
  "findReplacementParmVarDecl st users x =
     (case Option.bind (var_part_of (Kind (decl_at st x))) getInit of
        None \<Rightarrow> None
      | Some init \<Rightarrow>
          (case SemanticDC (decl_at st x) of
             None \<Rightarrow> None
           | Some old_decl \<Rightarrow>
               (case function_part_of (Kind (decl_at st old_decl)) of
                  None \<Rightarrow> None
                | Some f \<Rightarrow>
                    (case findRedeclReplacement st users old_decl of
                       None \<Rightarrow> None
                     | Some new_decl \<Rightarrow>
                         (case function_part_of (Kind (decl_at st new_decl)) of
                            None \<Rightarrow> None
                          | Some g \<Rightarrow>
                              cast_param st isParmVar (same_place (getParams f) (getParams g) x))))))"

definition findReplacement :: "store \<Rightarrow> decl list \<Rightarrow> decl \<Rightarrow> decl option" where
  "findReplacement st users x =
     (case Kind (decl_at st x) of
        TemplateTypeParmDecl t d \<Rightarrow> findReplacementTemplateTypeParm st users x
      | ParmVarDecl v qt \<Rightarrow> findReplacementParmVarDecl st users x
      | _ \<Rightarrow> findRedeclReplacement st users x)"

definition shouldRecanonType :: "store \<Rightarrow> type_id \<Rightarrow> bool" where
  "shouldRecanonType st t =
     (let T = type_at st t in
      if \<not> IsDependent T then False
      else (case TypeClass T of
              DecltypeType s sugared u \<Rightarrow> ExprInstantiationDependent T
            | TemplateSpecializationType tn alias aliased args \<Rightarrow> True
            | FunctionProtoType ret ps es ss ne sd sdt \<Rightarrow> True
            | DependentNameType q \<Rightarrow> True
            | _ \<Rightarrow> False))"

subsection \<open>The users of a node\<close>

record user_state =
  Trees :: store
  Map :: dep_map
  VisitedUsers :: "node set"

definition on_user_data :: "(user_data \<Rightarrow> user_data) \<Rightarrow> user_state \<Rightarrow> user_state" where
  "on_user_data f s = s\<lparr>Map := (Map s)\<lparr>UD := f (UD (Map s))\<rparr>\<rparr>"

definition add_user :: "node \<Rightarrow> user_data \<Rightarrow> user_data" where
  "add_user n ud =
     (case n of
        DeclN d \<Rightarrow> ud\<lparr>UserDecls := set_add d (UserDecls ud)\<rparr>
      | TypeN t \<Rightarrow> ud\<lparr>UserTypes := set_add t (UserTypes ud)\<rparr>
      | NnsN k \<Rightarrow> ud\<lparr>UserNNS := set_add k (UserNNS ud)\<rparr>
      | FileN f \<Rightarrow> ud\<lparr>UserFiles := set_add f (UserFiles ud)\<rparr>)"

text \<open>The set of dependents is stolen: it is empty while they are processed.\<close>

definition steal :: "node \<Rightarrow> user_state \<Rightarrow> user_state" where
  "steal n s = s\<lparr>Map := (Map s)\<lparr>Dependents := (Dependents (Map s))(n := [])\<rparr>\<rparr>"

definition refreshReplacement :: "node \<Rightarrow> decl option \<Rightarrow> user_state \<Rightarrow> decl option" where
  "refreshReplacement n replacement s =
     (case (n, replacement) of
        (DeclN d, Some r) \<Rightarrow>
          if r \<in> set (UserDecls (UD (Map s)))
          then findReplacement (Trees s) (UserDecls (UD (Map s))) d else Some r
      | _ \<Rightarrow> None)"

text \<open>
  One turn of the loop over the dependents: the state, the replacement, and whether the users of
  the dependent are collected too.
\<close>

definition handleDependent ::
    "node \<Rightarrow> decl option \<Rightarrow> node \<Rightarrow> user_state \<Rightarrow> user_state \<times> decl option \<times> bool" where
  "handleDependent n replacement m s =
     (case (n, refreshReplacement n replacement s) of
        (DeclN d, Some r) \<Rightarrow>
          (let (replaced, st) = replaceNode d r m (Trees s); s' = s\<lparr>Trees := st\<rparr>
           in if replaced then (s'\<lparr>Map := insert_dependent (DeclN r) m (Map s')\<rparr>, Some r, False)
              else (s', Some r, True))
      | (TypeN t, _) \<Rightarrow>
          (case m of
             TypeN u \<Rightarrow>
               if t = CanonicalType (type_at (Trees s) u) \<and> u \<notin> set (UserTypes (UD (Map s))) \<and>
                  shouldRecanonType (Trees s) u
               then (on_user_data (\<lambda>ud. ud\<lparr>RecanonTypes := set_add u (RecanonTypes ud)\<rparr>) s, None, False)
               else (s, None, True)
           | _ \<Rightarrow> (s, None, True))
      | _ \<Rightarrow> (s, None, True))"

fun collectUsersOf :: "nat \<Rightarrow> node \<Rightarrow> user_state \<Rightarrow> user_state option"
and collectDependents :: "nat \<Rightarrow> node \<Rightarrow> decl option \<Rightarrow> node list \<Rightarrow> user_state \<Rightarrow> user_state option"
where
  "collectUsersOf 0 n s = None"
| "collectUsersOf (Suc fuel) n s =
     (if n \<in> VisitedUsers s then Some s
      else
        (let s1 = on_user_data (add_user n) (s\<lparr>VisitedUsers := insert n (VisitedUsers s)\<rparr>)
         in collectDependents fuel n (case n of DeclN d \<Rightarrow> Some d | _ \<Rightarrow> None)
              (Dependents (Map s1) n) (steal n s1)))"
| "collectDependents fuel n replacement [] s = Some s"
| "collectDependents fuel n replacement (m # ms) s =
     (case handleDependent n replacement m s of
        (s', replacement', descend) \<Rightarrow>
          Option.bind (if descend then collectUsersOf fuel m s' else Some s')
            (collectDependents fuel n replacement' ms))"

subsection \<open>Rewiring keeps the classes\<close>

definition is_param :: "store \<Rightarrow> decl \<Rightarrow> bool" where
  "is_param st d \<longleftrightarrow> isTemplateTypeParm (Kind (decl_at st d)) \<or> isParmVar (Kind (decl_at st d))"

lemma isParmVar_set [simp]:
  "isParmVar (set_function_part f k) = isParmVar k" "isParmVar (set_var_part v k) = isParmVar k"
  by (cases k; simp add: set_function_part_def set_var_part_def isParmVar_def)+

lemma isTemplateTypeParm_set [simp]:
  "isTemplateTypeParm (set_function_part f k) = isTemplateTypeParm k"
  "isTemplateTypeParm (set_var_part v k) = isTemplateTypeParm k"
  by (cases k; simp add: set_function_part_def set_var_part_def isTemplateTypeParm_def)+

lemma is_param_put_kind:
  assumes "isTemplateTypeParm k = isTemplateTypeParm (Kind (decl_at st x))"
    "isParmVar k = isParmVar (Kind (decl_at st x))"
  shows "is_param (put_kind x k st) d = is_param st d"
  using assms
  by (cases "x < length (Decls st)") (auto simp: is_param_def put_kind_def nth_list_update list_update_beyond)

lemma replaceFunctionOwn_class:
  "isTemplateTypeParm (snd (replaceFunctionOwn d r k)) = isTemplateTypeParm k"
  "isParmVar (snd (replaceFunctionOwn d r k)) = isParmVar k"
  by (cases k; simp add: replaceFunctionOwn_def isTemplateTypeParm_def isParmVar_def split: prod.split)+

lemma replaceOther_class:
  "isTemplateTypeParm (snd (replaceOther d r k)) = isTemplateTypeParm k"
  "isParmVar (snd (replaceOther d r k)) = isParmVar k"
  by (cases k; simp add: replaceOther_def var_part_of_def set_var_part_def isTemplateTypeParm_def isParmVar_def
      split: prod.split)+

lemma is_param_replaceBody: "is_param (snd (replaceBody d r x st)) e = is_param st e"
  by (auto simp: replaceBody_def is_param_put_kind split: option.split prod.split)

lemma is_param_replaceDecl: "is_param (snd (replaceDecl d r x st)) e = is_param st e"
proof (cases "function_part_of (Kind (decl_at st x))")
  case None
  have "is_param (put_kind x (snd (replaceOther d r (Kind (decl_at st x)))) st) e = is_param st e"
    by (rule is_param_put_kind) (simp_all add: replaceOther_class)
  with None show ?thesis by (simp add: replaceDecl_def case_prod_beta Let_def)
next
  case (Some f)
  let ?st = "snd (replaceBody d r x st)"
  have "is_param (put_kind x (snd (replaceFunctionOwn d r (Kind (decl_at ?st x)))) ?st) e = is_param ?st e"
    by (rule is_param_put_kind) (simp_all add: replaceFunctionOwn_class)
  with Some show ?thesis using is_param_replaceBody[of d r x st e]
    by (simp add: replaceDecl_def case_prod_beta Let_def)
qed

lemma is_param_same_decls: "Decls st' = Decls st \<Longrightarrow> is_param st' e = is_param st e"
  by (simp add: is_param_def)

lemma is_param_replaceNode [simp]: "is_param (snd (replaceNode d r n st)) e = is_param st e"
  by (cases n)
    (auto simp: replaceNode_def is_param_replaceDecl replaceType_def replaceNestedNameSpecifier_def Let_def
      intro!: is_param_same_decls split: prod.split)

text \<open>It keeps the nodes too, and the links between declarations.\<close>

definition same_links :: "store \<Rightarrow> store \<Rightarrow> bool" where
  "same_links st st' \<longleftrightarrow> length (Decls st') = length (Decls st) \<and>
     (\<forall>d. MostRecentDecl (decl_at st' d) = MostRecentDecl (decl_at st d) \<and>
        PreviousDecl (decl_at st' d) = PreviousDecl (decl_at st d) \<and>
        SemanticDC (decl_at st' d) = SemanticDC (decl_at st d) \<and>
        DescribedClassTemplate (decl_at st' d) = DescribedClassTemplate (decl_at st d))"

lemma same_links_put_kind: "same_links st (put_kind x k st)"
  by (cases "x < length (Decls st)")
    (auto simp: same_links_def put_kind_def nth_list_update list_update_beyond)

lemma same_links_refl: "Decls st' = Decls st \<Longrightarrow> same_links st st'"
  by (simp add: same_links_def)

lemma same_links_trans: "same_links st st1 \<Longrightarrow> same_links st1 st2 \<Longrightarrow> same_links st st2"
  by (simp add: same_links_def)

lemma same_links_replaceBody: "same_links st (snd (replaceBody d r x st))"
  by (auto simp: replaceBody_def same_links_put_kind same_links_refl split: option.split prod.split)

lemma same_links_replaceNode: "same_links st (snd (replaceNode d r n st))"
proof (cases n)
  case (DeclN x)
  show ?thesis
    using same_links_trans[OF same_links_replaceBody same_links_put_kind]
    by (auto simp: DeclN replaceNode_def replaceDecl_def case_prod_beta Let_def same_links_put_kind
        split: option.split)
qed (simp_all add: replaceNode_def replaceType_def replaceNestedNameSpecifier_def case_prod_beta Let_def
    same_links_refl)

lemma all_nodes_put_kind: "all_nodes (put_kind x k st) = all_nodes st"
  by (simp add: all_nodes_def put_kind_def)

lemma all_nodes_replaceBody: "all_nodes (snd (replaceBody d r x st)) = all_nodes st"
  by (auto simp: replaceBody_def all_nodes_put_kind split: option.split prod.split)

lemma all_nodes_replaceNode: "all_nodes (snd (replaceNode d r n st)) = all_nodes st"
  by (cases n)
    (auto simp: replaceNode_def replaceDecl_def replaceType_def replaceNestedNameSpecifier_def
      case_prod_beta Let_def all_nodes_put_kind all_nodes_replaceBody all_nodes_def[of "store.Types_update _ _"]
      all_nodes_def[of "store.NestedNames_update _ _"] all_nodes_def[of st] split: option.split)

subsection \<open>A parameter whose replacement is unloaded\<close>

text \<open>
  A function declared twice, each time with one parameter that has a default argument, and a
  variable whose initializer uses the default argument of the first.
\<close>

definition parameter_kind :: decl_kind where
  "parameter_kind = ParmVarDecl (Var (Declarator None None []) (Some (Stmt [] OtherStmt)) None) None"

definition function_kind :: "decl \<Rightarrow> decl_kind" where
  "function_kind p = FunctionDecl (Function (Declarator None None []) None None [Some p] None None None None False None)"

definition default_argument :: "decl \<Rightarrow> decl_kind" where
  "default_argument p = VarDecl (Var (Declarator None None [])
     (Some (Stmt [] (ExprStmt None None (CXXDefaultArgExpr (Some p))))) None)"

definition parameter_store :: store where
  "parameter_store = \<lparr>
     Decls = [sample_unit, (sample_decl (function_kind 3) 1)\<lparr>MostRecentDecl := 2\<rparr>,
       (sample_decl (function_kind 4) 2)\<lparr>PreviousDecl := Some 1\<rparr>,
       (sample_decl parameter_kind 3)\<lparr>SemanticDC := Some 1\<rparr>,
       (sample_decl parameter_kind 4)\<lparr>SemanticDC := Some 2\<rparr>,
       sample_decl (default_argument 3) 5],
     Types = [], NestedNames = [], Files = []\<rparr>"

definition parameter_users :: user_state where
  "parameter_users = \<lparr>Trees = parameter_store,
     Map = dep_map_init\<lparr>Dependents := (\<lambda>_. [])(DeclN 3 := [DeclN 5]),
       UD := user_data_clear\<lparr>UserDecls := [4]\<rparr>\<rparr>,
     VisitedUsers = {DeclN 4}\<rparr>"

text \<open>
  The replacement of a parameter may itself be unloaded. Here the parameter of the
  second declaration is already unloaded, its function not yet; unloading the parameter of the
  first rewires the variable to it, and the variable stays, referring to an unloaded parameter.
\<close>

theorem parameter_rewired_to_unloaded:
  "case collectUsersOf 3 (DeclN 3) parameter_users of None \<Rightarrow> False
   | Some s' \<Rightarrow> DeclN 4 \<in> VisitedUsers s' \<and> DeclN 5 \<notin> VisitedUsers s' \<and>
       Kind (decl_at (Trees s') 5) = default_argument 4 \<and> Dependents (Map s') (DeclN 4) = [DeclN 5]"
  by code_simp

text \<open>
  The files that \<open>findModifiedFiles\<close> looks at are the hundred with the latest times.
\<close>

definition newest_files :: "store \<Rightarrow> file list" where
  "newest_files st = take 100 (sort_key (\<lambda>fe. - ModificationTime (Files st ! fe)) [0..<length (Files st)])"

lemma fold_insert_modified:
  "set (UserFiles (fold (\<lambda>fe ud. if p fe then ud\<lparr>UserFiles := set_add fe (UserFiles ud)\<rparr> else ud) fes ud)) =
     set (UserFiles ud) \<union> {fe \<in> set fes. p fe}"
  by (induction fes arbitrary: ud) auto

lemma findModifiedFiles_files:
  "set (UserFiles (UD (findModifiedFiles st dm))) =
     set (UserFiles (UD dm)) \<union> {fe \<in> set (newest_files st). wasModified st fe}"
  by (simp add: findModifiedFiles_def newest_files_def fold_insert_modified Let_def)

lemma newest_files_all:
  assumes f: "f < length (Files st)"
    and few: "card {g. g < length (Files st) \<and> ModificationTime (Files st ! f) \<le> ModificationTime (Files st ! g)} \<le> 100"
  shows "f \<in> set (newest_files st)"
proof (rule ccontr)
  let ?key = "\<lambda>fe. - ModificationTime (Files st ! fe)"
  let ?fes = "sort_key ?key [0..<length (Files st)]"
  let ?G = "{g. g < length (Files st) \<and> ModificationTime (Files st ! f) \<le> ModificationTime (Files st ! g)}"
  assume out: "f \<notin> set (newest_files st)"
  have "f \<in> set (take 100 ?fes @ drop 100 ?fes)" using f by simp
  with out have d: "f \<in> set (drop 100 ?fes)" by (simp only: set_append newest_files_def) blast
  then have len: "100 < length ?fes" by (metis drop_all empty_iff list.set(1) not_le)
  have "sorted (map ?key (take 100 ?fes @ drop 100 ?fes))" by (simp only: append_take_drop_id sorted_sort_key)
  then have "\<forall>g \<in> set (take 100 ?fes). ?key g \<le> ?key f"
    using d by (simp only: map_append sorted_append) auto
  moreover have "set (take 100 ?fes) \<subseteq> {0..<length (Files st)}" using set_take_subset[of 100 ?fes] by auto
  ultimately have "insert f (set (take 100 ?fes)) \<subseteq> ?G"
    using f by auto
  then have "card (insert f (set (take 100 ?fes))) \<le> card ?G" by (rule card_mono[rotated]) simp
  with few have "card (insert f (set (take 100 ?fes))) \<le> 100" by simp
  moreover have "f \<notin> set (take 100 ?fes)" using out by (simp add: newest_files_def)
  moreover have "card (set (take 100 ?fes)) = 100"
    using len by (simp add: distinct_card[OF distinct_take] min_absorb2)
  ultimately show False by simp
qed

text \<open>
  \<^bold>\<open>findModifiedFiles\<close> marks only files whose time has changed, and marks such a file
  whenever at most a hundred files, itself included, have a time at least as late. With more, a
  modified file can be missed.
\<close>

theorem findModifiedFiles_hundred:
  assumes "f < length (Files st)" "wasModified st f"
    "card {g. g < length (Files st) \<and> ModificationTime (Files st ! f) \<le> ModificationTime (Files st ! g)} \<le> 100"
  shows "f \<in> set (UserFiles (UD (findModifiedFiles st dm))) \<and>
    (\<forall>g \<in> set (UserFiles (UD (findModifiedFiles st dm))). g \<in> set (UserFiles (UD dm)) \<or> wasModified st g)"
  using newest_files_all[OF assms(1,3)] assms(2) by (auto simp: findModifiedFiles_files)

theorem findModifiedFiles_hundred_witness:
  "0 \<in> set (UserFiles (UD (findModifiedFiles
     (sample_store\<lparr>Files := [(sample_file ''a.h'')\<lparr>StatusTime := Some 7\<rparr>]\<rparr>) dep_map_init)))"
proof -
  let ?st = "sample_store\<lparr>Files := [(sample_file ''a.h'')\<lparr>StatusTime := Some 7\<rparr>]\<rparr>"
  let ?G = "{g. g < length (Files ?st) \<and> ModificationTime (Files ?st ! 0) \<le> ModificationTime (Files ?st ! g)}"
  have "?G \<subseteq> {0}" by auto
  then have "card ?G \<le> card {0 :: nat}" by (rule card_mono[rotated]) simp
  then have few: "card ?G \<le> 100" by simp
  have "0 < length (Files ?st)" "wasModified ?st 0" by (simp_all add: wasModified_def sample_file_def)
  from findModifiedFiles_hundred[OF this few] show ?thesis by blast
qed

end
