(* ===== verification/Collect.thy ===== *)
theory Collect
  imports Users
begin

text \<open>
  What \<^verbatim>\<open>collectUsersOf\<close> and \<^verbatim>\<open>collectUsers\<close> of \<^verbatim>\<open>tools/zapccs/DependencyMap.cpp\<close> achieve: the
  recursion over the users of a node ends, collects only dependents and forgets none; then the
  loop over the files, and the removal of the users from the graph.
\<close>

subsection \<open>No user is forgotten\<close>

text \<open>
  Which declaration may take the place of another: a redeclaration, and for a parameter a
  parameter, when its function, or the template of its class, has a redeclaration.
\<close>

definition owner :: "store \<Rightarrow> decl \<Rightarrow> decl \<Rightarrow> bool" where
  "owner st d p \<longleftrightarrow> (\<exists>dc. SemanticDC (decl_at st d) = Some dc \<and>
     (p = dc \<or> DescribedClassTemplate (decl_at st dc) = Some p))"

definition may_replace :: "store \<Rightarrow> decl \<Rightarrow> decl \<Rightarrow> bool" where
  "may_replace st d r \<longleftrightarrow> (r \<in> set (redecls st d) \<and> r \<noteq> d) \<or>
     (is_param st d \<and> is_param st r \<and> (\<exists>p q. owner st d p \<and> q \<in> set (redecls st p) \<and> q \<noteq> p))"

definition rewires :: "store \<Rightarrow> (decl \<times> decl) set" where
  "rewires st = {(d, r). may_replace st d r}"

text \<open>
  What becomes of a dependent \<open>x\<close> of a node \<open>v\<close>: it is still a dependent of \<open>v\<close>, which is not
  unloaded; or it is unloaded; or \<open>v\<close> is a type and the canonical type of \<open>x\<close> is built anew; or \<open>x\<close>
  is now a dependent of a declaration that takes the place of \<open>v\<close>. That one is not unloaded,
  unless it is a parameter: for these \<^verbatim>\<open>findReplacement\<close> does not look whether the replacement is
  itself unloaded.
\<close>

definition rewired :: "user_state \<Rightarrow> decl \<Rightarrow> node \<Rightarrow> bool" where
  "rewired s d x \<longleftrightarrow> (\<exists>r. (d, r) \<in> (rewires (Trees s))\<^sup>+ \<and> x \<in> set (Dependents (Map s) (DeclN r)) \<and>
     (DeclN r \<notin> VisitedUsers s \<or> is_param (Trees s) r))"

definition recanonicalized :: "user_state \<Rightarrow> node \<Rightarrow> bool" where
  "recanonicalized s x \<longleftrightarrow> (\<exists>t. x = TypeN t \<and> t \<in> set (RecanonTypes (UD (Map s))))"

definition accounted :: "user_state \<Rightarrow> node \<Rightarrow> node \<Rightarrow> bool" where
  "accounted s v x \<longleftrightarrow> (v \<notin> VisitedUsers s \<and> x \<in> set (Dependents (Map s) v)) \<or>
     x \<in> VisitedUsers s \<or> ((\<exists>t. v = TypeN t) \<and> recanonicalized s x) \<or>
     (\<exists>d. v = DeclN d \<and> rewired s d x)"

lemmas accounted_defs = accounted_def rewired_def recanonicalized_def

fun in_user_data :: "user_data \<Rightarrow> node \<Rightarrow> bool" where
  "in_user_data ud (DeclN d) = (d \<in> set (UserDecls ud))"
| "in_user_data ud (TypeN t) = (t \<in> set (UserTypes ud))"
| "in_user_data ud (NnsN k) = (k \<in> set (UserNNS ud))"
| "in_user_data ud (FileN f) = (f \<in> set (UserFiles ud))"

definition distinct_users :: "user_data \<Rightarrow> bool" where
  "distinct_users ud \<longleftrightarrow> distinct (UserDecls ud) \<and> distinct (UserTypes ud) \<and>
     distinct (UserNNS ud) \<and> distinct (UserFiles ud)"

text \<open>
  The invariant of the recursion, over a set \<open>U\<close> of nodes: it is closed under dependents, and the
  user data are the visited users, apart from files that are still to be visited.
\<close>

definition users_ok :: "node set \<Rightarrow> user_state \<Rightarrow> bool" where
  "users_ok U s \<longleftrightarrow> (\<forall>k \<in> U. set (Dependents (Map s) k) \<subseteq> U) \<and>
     (\<forall>n. n \<in> VisitedUsers s \<longrightarrow> in_user_data (UD (Map s)) n) \<and>
     (\<forall>n. in_user_data (UD (Map s)) n \<longrightarrow> n \<in> VisitedUsers s \<or> (\<exists>f. n = FileN f)) \<and>
     (\<forall>f \<in> set (UserFiles (UD (Map s))). FileN f \<in> U) \<and> distinct_users (UD (Map s))"

definition dependent_type :: "store \<Rightarrow> type_id \<Rightarrow> bool" where
  "dependent_type st t \<longleftrightarrow> IsDependent (type_at st t)"

lemma dependent_type_replaceNode: "dependent_type (snd (replaceNode d r n st)) = dependent_type st"
proof -
  have put: "Types (put_kind x k st') = Types st'" for x k st' by (simp add: put_kind_def)
  then have "Types (snd (replaceBody d r x st)) = Types st" for x
    by (auto simp: replaceBody_def split: option.split prod.split)
  then have "Types (snd (replaceDecl d r x st)) = Types st" for x
    using put by (auto simp: replaceDecl_def case_prod_beta Let_def split: option.split)
  moreover have "IsDependent ((Types st)[t := (type_at st t)\<lparr>TypeClass := k\<rparr>] ! u) = IsDependent (type_at st u)" for t u k
    by (cases "t < length (Types st)") (auto simp: nth_list_update list_update_beyond)
  ultimately show ?thesis
    by (cases n)
      (auto simp: dependent_type_def[abs_def] replaceNode_def replaceType_def replaceNestedNameSpecifier_def
        case_prod_beta Let_def)
qed

text \<open>What a step leaves alone, but for the user data; the files only grow at the end.\<close>

definition users_frame :: "user_state \<Rightarrow> user_state \<Rightarrow> bool" where
  "users_frame s s' \<longleftrightarrow> FDMap (Map s') = FDMap (Map s) \<and>
     FileEntryDependees (Map s') = FileEntryDependees (Map s) \<and>
     CurrentDependent (Map s') = CurrentDependent (Map s) \<and>
     RemoveDependencies (Map s') = RemoveDependencies (Map s) \<and>
     Visited (Map s') = Visited (Map s) \<and> all_nodes (Trees s') = all_nodes (Trees s) \<and>
     is_param (Trees s') = is_param (Trees s) \<and> rewires (Trees s') = rewires (Trees s) \<and>
     dependent_type (Trees s') = dependent_type (Trees s) \<and>
     (\<forall>t \<in> set (RecanonTypes (UD (Map s'))). t \<in> set (RecanonTypes (UD (Map s))) \<or> dependent_type (Trees s) t) \<and>
     prefix (UserFiles (UD (Map s))) (UserFiles (UD (Map s')))"

lemma users_frame_refl: "users_frame s s"
  by (simp add: users_frame_def)

lemma users_frame_trans: "users_frame s s1 \<Longrightarrow> users_frame s1 s2 \<Longrightarrow> users_frame s s2"
  by (auto simp: users_frame_def)

lemma UserFiles_add_user:
  "UserFiles (add_user n ud) = (case n of FileN f \<Rightarrow> set_add f (UserFiles ud) | _ \<Rightarrow> UserFiles ud)"
  by (cases n) (simp_all add: add_user_def)

lemma set_add_prefix [simp]: "prefix xs (set_add x xs)"
  by (simp add: set_add_def)

definition users_step :: "node set \<Rightarrow> user_state \<Rightarrow> user_state \<Rightarrow> bool" where
  "users_step U s s' \<longleftrightarrow> VisitedUsers s \<subseteq> VisitedUsers s' \<and> VisitedUsers s' \<subseteq> VisitedUsers s \<union> U \<and>
     users_ok U s' \<and> users_frame s s' \<and> (\<forall>v x. accounted s v x \<longrightarrow> accounted s' v x)"

lemma users_step_refl: "users_ok U s \<Longrightarrow> users_step U s s"
  by (simp add: users_step_def users_frame_refl)

lemma users_step_trans: "users_step U s s1 \<Longrightarrow> users_step U s1 s2 \<Longrightarrow> users_step U s s2"
  using users_frame_trans by (auto simp: users_step_def)

lemma in_user_data_add [simp]: "in_user_data (add_user n ud) m \<longleftrightarrow> m = n \<or> in_user_data ud m"
  by (cases n; cases m) (auto simp: add_user_def)

lemma on_user_data_frame [simp]:
  "Trees (on_user_data f s) = Trees s" "VisitedUsers (on_user_data f s) = VisitedUsers s"
  "Dependents (Map (on_user_data f s)) = Dependents (Map s)"
  "UD (Map (on_user_data f s)) = f (UD (Map s))"
  "FDMap (Map (on_user_data f s)) = FDMap (Map s)"
  "FileEntryDependees (Map (on_user_data f s)) = FileEntryDependees (Map s)"
  "CurrentDependent (Map (on_user_data f s)) = CurrentDependent (Map s)"
  "RemoveDependencies (Map (on_user_data f s)) = RemoveDependencies (Map s)"
  "Visited (Map (on_user_data f s)) = Visited (Map s)"
  by (simp_all add: on_user_data_def)

lemma RecanonTypes_add_user [simp]: "RecanonTypes (add_user n ud) = RecanonTypes ud"
  by (cases n) (simp_all add: add_user_def)

text \<open>A replacement is not unloaded, but for a parameter.\<close>

lemma findRedeclReplacement_fresh:
  "findRedeclReplacement st users d = Some r \<Longrightarrow> r \<notin> set users"
proof -
  have "fold (\<lambda>r replacement. if r \<noteq> d \<and> getKind (Kind (decl_at st r)) = getKind (Kind (decl_at st d)) \<and>
      r \<notin> set users then Some r else replacement) rs acc = Some r \<Longrightarrow>
    (\<And>a. acc = Some a \<Longrightarrow> a \<notin> set users) \<Longrightarrow> r \<notin> set users" for rs acc
    by (induction rs arbitrary: acc) (auto split: if_splits)
  then show "findRedeclReplacement st users d = Some r \<Longrightarrow> r \<notin> set users"
    unfolding findRedeclReplacement_def by blast
qed

lemma cast_param_Some: "cast_param st p x = Some r \<Longrightarrow> x = Some r \<and> p (Kind (decl_at st r))"
  by (auto simp: cast_param_def split: option.splits if_splits)

lemma findReplacement_fresh:
  assumes "findReplacement st users d = Some r"
  shows "r \<notin> set users \<or> is_param st r"
proof (cases "isTemplateTypeParm (Kind (decl_at st d)) \<or> isParmVar (Kind (decl_at st d))")
  case True
  with assms have "is_param st r"
    by (cases "Kind (decl_at st d)")
      (auto simp: findReplacement_def findReplacementTemplateTypeParm_def findReplacementParmVarDecl_def
        isTemplateTypeParm_def isParmVar_def is_param_def split: option.splits if_splits
        dest!: cast_param_Some)
  then show ?thesis by simp
next
  case False
  with assms have "findRedeclReplacement st users d = Some r"
    by (cases "Kind (decl_at st d)") (simp_all add: findReplacement_def isTemplateTypeParm_def isParmVar_def)
  then show ?thesis using findRedeclReplacement_fresh by blast
qed

lemma findRedeclReplacement_redecl:
  "findRedeclReplacement st users d = Some r \<Longrightarrow> r \<in> set (redecls st d) \<and> r \<noteq> d"
proof -
  have "fold (\<lambda>r replacement. if r \<noteq> d \<and> getKind (Kind (decl_at st r)) = getKind (Kind (decl_at st d)) \<and>
      r \<notin> set users then Some r else replacement) rs acc = Some r \<Longrightarrow>
    acc = Some r \<or> (r \<in> set rs \<and> r \<noteq> d)" for rs acc
    by (induction rs arbitrary: acc) (auto split: if_splits)
  then show "findRedeclReplacement st users d = Some r \<Longrightarrow> r \<in> set (redecls st d) \<and> r \<noteq> d"
    unfolding findRedeclReplacement_def by blast
qed

lemma findReplacement_may_replace:
  assumes "findReplacement st users d = Some r"
  shows "may_replace st d r"
proof (cases "isTemplateTypeParm (Kind (decl_at st d)) \<or> isParmVar (Kind (decl_at st d))")
  case True
  with assms have "is_param st d \<and> is_param st r \<and> (\<exists>p q. owner st d p \<and> q \<in> set (redecls st p) \<and> q \<noteq> p)"
    by (cases "Kind (decl_at st d)")
      (auto simp: findReplacement_def findReplacementTemplateTypeParm_def findReplacementParmVarDecl_def
        isTemplateTypeParm_def isParmVar_def is_param_def owner_def split: option.splits if_splits
        dest!: cast_param_Some findRedeclReplacement_redecl)
  then show ?thesis by (simp add: may_replace_def)
next
  case False
  with assms have "findRedeclReplacement st users d = Some r"
    by (cases "Kind (decl_at st d)") (simp_all add: findReplacement_def isTemplateTypeParm_def isParmVar_def)
  then show ?thesis using findRedeclReplacement_redecl by (simp add: may_replace_def)
qed

lemma refreshReplacement_fresh:
  "refreshReplacement n replacement s = Some r \<Longrightarrow>
   r \<notin> set (UserDecls (UD (Map s))) \<or> is_param (Trees s) r"
  by (cases n) (auto simp: refreshReplacement_def split: option.splits if_splits dest: findReplacement_fresh)

text \<open>Rewiring a node keeps which declarations may take the place of which.\<close>

lemma redecl_chain_links: "same_links st st' \<Longrightarrow> redecl_chain fuel st' r = redecl_chain fuel st r"
  by (induction fuel st' r rule: redecl_chain.induct) (simp_all add: same_links_def)

lemma redecls_links: "same_links st st' \<Longrightarrow> redecls st' d = redecls st d"
  unfolding redecls_def using redecl_chain_links[of st st'] by (simp add: same_links_def)

lemma rewires_replaceNode: "rewires (snd (replaceNode d r n st)) = rewires st"
proof -
  note l = same_links_replaceNode[of st d r n]
  have "owner (snd (replaceNode d r n st)) x y = owner st x y" for x y
    using l by (simp add: owner_def same_links_def)
  then show ?thesis
    by (simp add: rewires_def may_replace_def redecls_links[OF l] is_param_def[symmetric])
qed

text \<open>One that is still the same as before is no longer a user; the others are replacements.\<close>

lemma refreshReplacement_rewires:
  assumes ok: "users_ok U s" and n: "DeclN d \<in> VisitedUsers s"
    and rep: "\<And>r0. replacement = Some r0 \<Longrightarrow> r0 = d \<or> (d, r0) \<in> rewires (Trees s)"
    and r: "refreshReplacement (DeclN d) replacement s = Some r"
  shows "(d, r) \<in> rewires (Trees s)"
proof -
  have "d \<in> set (UserDecls (UD (Map s)))" using ok n unfolding users_ok_def by (metis in_user_data.simps(1))
  with r show ?thesis using rep
    by (auto simp: refreshReplacement_def rewires_def dest: findReplacement_may_replace split: option.splits if_splits)
qed

lemma step_trees:
  assumes "users_ok U s" "is_param st = is_param (Trees s)" "all_nodes st = all_nodes (Trees s)"
    "rewires st = rewires (Trees s)" "dependent_type st = dependent_type (Trees s)"
  shows "users_step U s (s\<lparr>Trees := st\<rparr>)"
  using assms by (simp add: users_step_def users_ok_def accounted_defs users_frame_def)

lemma step_insert:
  assumes "users_ok U s" "m \<in> U"
  shows "users_step U s (s\<lparr>Map := insert_dependent k m (Map s)\<rparr>)"
proof -
  let ?s = "s\<lparr>Map := insert_dependent k m (Map s)\<rparr>"
  have sub: "set (Dependents (Map s) j) \<subseteq> set (Dependents (Map ?s) j)"
    "set (Dependents (Map ?s) j) \<subseteq> insert m (set (Dependents (Map s) j))" for j
    by (auto simp: insert_dependent_def)
  have ud: "UD (Map ?s) = UD (Map s)" by (simp add: insert_dependent_def)
  have "users_ok U ?s"
    using assms sub(2) unfolding users_ok_def ud by simp blast
  moreover have "accounted ?s v x" if "accounted s v x" for v x
    using that sub(1) unfolding accounted_defs ud by (simp (no_asm_use)) blast
  moreover have "users_frame s ?s" by (simp add: users_frame_def insert_dependent_def)
  ultimately show ?thesis unfolding users_step_def by simp
qed

lemma step_recanon:
  assumes "users_ok U s" "shouldRecanonType (Trees s) t"
  shows "users_step U s (on_user_data (\<lambda>ud. ud\<lparr>RecanonTypes := set_add t (RecanonTypes ud)\<rparr>) s)"
proof -
  have "in_user_data (ud\<lparr>RecanonTypes := rs\<rparr>) n = in_user_data ud n" for ud rs n by (cases n) simp_all
  moreover have "distinct_users (ud\<lparr>RecanonTypes := rs\<rparr>) = distinct_users ud" for ud rs
    by (simp add: distinct_users_def)
  moreover have "dependent_type (Trees s) t"
    using assms(2) by (simp add: shouldRecanonType_def dependent_type_def Let_def split: if_splits)
  ultimately show ?thesis using assms(1)
    by (auto simp: users_step_def users_ok_def accounted_defs users_frame_def)
qed

lemma replaced_accounted:
  assumes ok: "users_ok U s" and r: "refreshReplacement n replacement s = Some r"
    and rw: "(d, r) \<in> rewires (Trees s)"
    and same: "is_param st = is_param (Trees s)" "rewires st = rewires (Trees s)"
  shows "accounted (s\<lparr>Trees := st, Map := insert_dependent (DeclN r) m (Map s)\<rparr>) (DeclN d) m"
proof -
  have "DeclN r \<notin> VisitedUsers s \<or> is_param st r"
    using ok refreshReplacement_fresh[OF r] same(1) unfolding users_ok_def by (metis in_user_data.simps(1))
  moreover have "m \<in> set (Dependents (insert_dependent (DeclN r) m (Map s)) (DeclN r))"
    by (simp add: insert_dependent_def)
  ultimately have "rewired (s\<lparr>Trees := st, Map := insert_dependent (DeclN r) m (Map s)\<rparr>) d m"
    unfolding rewired_def by (intro exI[of _ r]) (simp add: same(2) rw r_into_trancl')
  then show ?thesis by (simp add: accounted_def)
qed

definition replacement_ok :: "node \<Rightarrow> decl option \<Rightarrow> store \<Rightarrow> bool" where
  "replacement_ok n replacement st \<longleftrightarrow>
     (\<forall>r. replacement = Some r \<longrightarrow> (\<exists>d. n = DeclN d \<and> (r = d \<or> (d, r) \<in> rewires st)))"

definition handled :: "node set \<Rightarrow> node \<Rightarrow> node \<Rightarrow> user_state \<Rightarrow> user_state \<times> decl option \<times> bool \<Rightarrow> bool" where
  "handled U n m s r = (case r of (s', replacement', descend) \<Rightarrow>
     users_step U s s' \<and> VisitedUsers s' = VisitedUsers s \<and> replacement_ok n replacement' (Trees s') \<and>
     (\<not> descend \<longrightarrow> accounted s' n m))"

lemma handle_decl:
  assumes ok: "users_ok U s" and m: "m \<in> U" and n: "DeclN d \<in> VisitedUsers s"
    and rep: "replacement_ok (DeclN d) replacement (Trees s)"
    and r: "refreshReplacement (DeclN d) replacement s = Some r"
  shows "handled U (DeclN d) m s (handleDependent (DeclN d) replacement m s)"
proof -
  obtain b st where rp: "replaceNode d r m (Trees s) = (b, st)" by (cases "replaceNode d r m (Trees s)")
  have p: "is_param st = is_param (Trees s)" and a: "all_nodes st = all_nodes (Trees s)"
    and w: "rewires st = rewires (Trees s)"
    using rp is_param_replaceNode[of d r m "Trees s"] all_nodes_replaceNode[of d r m "Trees s"]
      rewires_replaceNode[of d r m "Trees s"] by auto
  have rw: "(d, r) \<in> rewires (Trees s)"
    by (rule refreshReplacement_rewires[OF ok n _ r]) (use rep in \<open>simp add: replacement_ok_def\<close>)
  have "dependent_type st = dependent_type (Trees s)"
    using rp dependent_type_replaceNode[of d r m "Trees s"] by simp
  note t = step_trees[OF ok p a w this]
  show ?thesis
  proof (cases b)
    case True
    let ?s = "s\<lparr>Trees := st\<rparr>"
    have "users_step U ?s (?s\<lparr>Map := insert_dependent (DeclN r) m (Map ?s)\<rparr>)"
      by (rule step_insert) (use t m in \<open>auto simp: users_step_def\<close>)
    with t have "users_step U s (?s\<lparr>Map := insert_dependent (DeclN r) m (Map ?s)\<rparr>)" by (rule users_step_trans)
    then show ?thesis using replaced_accounted[OF ok r rw p w, of m] r rp True rw w
      by (simp add: handleDependent_def handled_def replacement_ok_def)
  next
    case False
    then show ?thesis using r rp t rw w
      by (simp add: handleDependent_def handled_def replacement_ok_def)
  qed
qed

lemma handle_other:
  assumes ok: "users_ok U s" and "\<not> (\<exists>d r. n = DeclN d \<and> refreshReplacement n replacement s = Some r)"
  shows "handled U n m s (handleDependent n replacement m s)"
  using assms(2) step_recanon[OF ok] users_step_refl[OF ok]
  by (cases n)
    (auto simp: handleDependent_def handled_def replacement_ok_def accounted_def recanonicalized_def
      split: option.splits node.splits)

lemma handle_step:
  assumes "users_ok U s" "m \<in> U" "n \<in> VisitedUsers s" "replacement_ok n replacement (Trees s)"
    and h: "handleDependent n replacement m s = (s', replacement', descend)"
  shows "users_step U s s'" "VisitedUsers s' = VisitedUsers s" "replacement_ok n replacement' (Trees s')"
    "\<not> descend \<Longrightarrow> accounted s' n m"
proof -
  have "handled U n m s (handleDependent n replacement m s)"
  proof (cases "\<exists>d r. n = DeclN d \<and> refreshReplacement n replacement s = Some r")
    case True
    then show ?thesis using handle_decl[OF assms(1,2)] assms(3,4) by auto
  next
    case False
    then show ?thesis by (rule handle_other[OF assms(1)])
  qed
  then show "users_step U s s'" "VisitedUsers s' = VisitedUsers s" "replacement_ok n replacement' (Trees s')"
    "\<not> descend \<Longrightarrow> accounted s' n m" by (auto simp: h handled_def)
qed

text \<open>Marking a node and stealing its dependents: only these are no longer accounted for.\<close>

definition leads_to :: "store \<Rightarrow> node \<Rightarrow> node \<Rightarrow> bool" where
  "leads_to st v n \<longleftrightarrow> v = n \<or> (\<exists>d r. v = DeclN d \<and> n = DeclN r \<and> (d, r) \<in> (rewires st)\<^sup>+)"

lemma mark_step:
  assumes ok: "users_ok U s" and n: "n \<in> U" "n \<notin> VisitedUsers s"
    and s1: "s1 = steal n (on_user_data (add_user n) (s\<lparr>VisitedUsers := insert n (VisitedUsers s)\<rparr>))"
  shows "users_ok U s1" "VisitedUsers s1 = insert n (VisitedUsers s)" "users_frame s s1"
    "accounted s v x \<Longrightarrow> accounted s1 v x \<or> (x \<in> set (Dependents (Map s) n) \<and> leads_to (Trees s) v n)"
proof -
  have frame: "Dependents (Map s1) = (Dependents (Map s))(n := [])" "UD (Map s1) = add_user n (UD (Map s))"
    "Trees s1 = Trees s" and v: "VisitedUsers s1 = insert n (VisitedUsers s)"
    by (simp_all add: s1 steal_def on_user_data_def)
  show "VisitedUsers s1 = insert n (VisitedUsers s)" by (rule v)
  show "users_frame s s1"
    by (cases n) (auto simp: users_frame_def s1 steal_def on_user_data_def UserFiles_add_user)
  have "(\<forall>f \<in> set (UserFiles (add_user n (UD (Map s)))). FileN f \<in> U) \<and> distinct_users (add_user n (UD (Map s)))"
    using ok n by (cases n) (auto simp: users_ok_def distinct_users_def add_user_def)
  then show "users_ok U s1" using ok by (auto simp: users_ok_def frame v)
  assume "accounted s v x"
  then consider (edge) "v \<notin> VisitedUsers s" "x \<in> set (Dependents (Map s) v)"
    | (visited) "x \<in> VisitedUsers s"
    | (recanon) "\<exists>t. v = TypeN t" "recanonicalized s x"
    | (rewired) d r where "v = DeclN d" "(d, r) \<in> (rewires (Trees s))\<^sup>+"
        "x \<in> set (Dependents (Map s) (DeclN r))" "DeclN r \<notin> VisitedUsers s \<or> is_param (Trees s) r"
    unfolding accounted_def rewired_def by blast
  then show "accounted s1 v x \<or> (x \<in> set (Dependents (Map s) n) \<and> leads_to (Trees s) v n)"
  proof cases
    case edge
    then show ?thesis by (cases "v = n") (auto simp: accounted_def leads_to_def frame v)
  next
    case visited
    then show ?thesis by (simp add: accounted_def v)
  next
    case recanon
    then show ?thesis by (simp add: accounted_def recanonicalized_def frame)
  next
    case rewired
    then show ?thesis
      by (cases "DeclN r = n") (auto simp: accounted_def rewired_def leads_to_def frame v)
  qed
qed

lemma accounted_leads_to:
  assumes "accounted s n x" "n \<in> VisitedUsers s" "leads_to (Trees s) v n"
  shows "accounted s v x"
  using assms unfolding accounted_def leads_to_def rewired_def by (blast intro: trancl_trans)

text \<open>The nodes that are not visited yet bound the depth.\<close>

lemma card_insert_visited:
  "finite U \<Longrightarrow> n \<in> U \<Longrightarrow> n \<notin> V \<Longrightarrow> Suc (card (U - insert n V)) = card (U - V)"
  using card_Suc_Diff1[of "U - V" n] Diff_insert[of U n V] by simp

lemma card_visited_mono: "finite U \<Longrightarrow> V \<subseteq> V' \<Longrightarrow> card (U - V') \<le> card (U - V)"
  by (rule card_mono) auto

lemma mark_then_step:
  assumes ok: "users_ok U s" and n: "n \<in> U" "n \<notin> VisitedUsers s"
    and s1: "s1 = steal n (on_user_data (add_user n) (s\<lparr>VisitedUsers := insert n (VisitedUsers s)\<rparr>))"
    and step: "users_step U s1 s2" and acc: "\<forall>m \<in> set (Dependents (Map s) n). accounted s2 n m"
  shows "users_step U s s2" "n \<in> VisitedUsers s2"
proof -
  note mark = mark_step[OF ok n s1]
  have v: "n \<in> VisitedUsers s2" "VisitedUsers s \<subseteq> VisitedUsers s2" "VisitedUsers s2 \<subseteq> VisitedUsers s \<union> U"
    "users_ok U s2" "users_frame s1 s2"
    using step mark(2) n(1) unfolding users_step_def by auto
  have frame: "users_frame s s2" by (rule users_frame_trans[OF mark(3) v(5)])
  then have rw: "rewires (Trees s2) = rewires (Trees s)" by (simp add: users_frame_def)
  have "accounted s2 w x" if "accounted s w x" for w x
    using mark(4)[OF that]
  proof
    assume "accounted s1 w x"
    then show ?thesis using step by (simp add: users_step_def)
  next
    assume x: "x \<in> set (Dependents (Map s) n) \<and> leads_to (Trees s) w n"
    then have "leads_to (Trees s2) w n" by (simp add: leads_to_def rw)
    with x acc accounted_leads_to[of s2 n x w] v(1) show ?thesis by blast
  qed
  with v frame show "users_step U s s2" "n \<in> VisitedUsers s2" by (simp_all add: users_step_def)
qed

lemma collect_total:
  assumes fin: "finite U"
  shows "n \<in> U \<Longrightarrow> users_ok U s \<Longrightarrow> card (U - VisitedUsers s) < fuel \<Longrightarrow>
      \<exists>s'. collectUsersOf fuel n s = Some s' \<and> users_step U s s' \<and> n \<in> VisitedUsers s'"
    and "set ms \<subseteq> U \<Longrightarrow> users_ok U s \<Longrightarrow> ms = [] \<or> card (U - VisitedUsers s) < fuel \<Longrightarrow>
      n \<in> VisitedUsers s \<Longrightarrow> replacement_ok n replacement (Trees s) \<Longrightarrow>
      \<exists>s'. collectDependents fuel n replacement ms s = Some s' \<and> users_step U s s' \<and>
        (\<forall>m \<in> set ms. accounted s' n m)"
proof (induction fuel n s and fuel n replacement ms s rule: collectUsersOf_collectDependents.induct)
  case (1 n s)
  then show ?case by simp
next
  case (2 fuel n s)
  show ?case
  proof (cases "n \<in> VisitedUsers s")
    case True
    then show ?thesis using users_step_refl[OF 2(3)] by simp
  next
    case new: False
    let ?s0 = "on_user_data (add_user n) (s\<lparr>VisitedUsers := insert n (VisitedUsers s)\<rparr>)"
    let ?s1 = "steal n ?s0"
    let ?rep = "case n of DeclN d \<Rightarrow> Some d | _ \<Rightarrow> None"
    note mark = mark_step[OF 2(3,2) new refl]
    have deps: "Dependents (Map ?s0) n = Dependents (Map s) n" by simp
    have sub: "set (Dependents (Map s) n) \<subseteq> U" using 2(2,3) by (simp add: users_ok_def)
    have rep: "replacement_ok n ?rep (Trees ?s1)" by (cases n) (simp_all add: replacement_ok_def)
    have "card (U - VisitedUsers ?s1) < fuel \<or> Dependents (Map s) n = []"
      using card_insert_visited[OF fin 2(2) new] 2(4) mark(2) by simp
    moreover have "n \<in> VisitedUsers ?s1" using mark(2) by simp
    ultimately obtain s2 where s2: "collectDependents fuel n ?rep (Dependents (Map s) n) ?s1 = Some s2"
      and step: "users_step U ?s1 s2" and acc: "\<forall>m \<in> set (Dependents (Map s) n). accounted s2 n m"
      using 2(1)[OF new refl] sub mark(1) rep unfolding deps by blast
    moreover have "collectUsersOf (Suc fuel) n s = Some s2"
      using new s2 by (simp add: Let_def)
    ultimately show ?thesis using mark_then_step[OF 2(3,2) new refl step acc] by blast
  qed
next
  case (3 fuel n replacement s)
  then show ?case using users_step_refl by simp
next
  case (4 fuel n replacement m ms s)
  obtain s1 rep1 descend where h: "handleDependent n replacement m s = (s1, rep1, descend)"
    by (cases "handleDependent n replacement m s")
  have m: "m \<in> U" and ms: "set ms \<subseteq> U" and fuel: "card (U - VisitedUsers s) < fuel" using 4(3,5) by auto
  note step1 = handle_step[OF 4(4) m 4(6,7) h]
  have ok1: "users_ok U s1" using step1(1) by (simp add: users_step_def)
  obtain s2 where s2: "(if descend then collectUsersOf fuel m s1 else Some s1) = Some s2"
    and step2: "users_step U s1 s2" and am: "accounted s2 n m"
  proof (cases descend)
    case True
    with 4(1)[OF h[symmetric] refl] m ok1 fuel step1(2) obtain s2 where
      "collectUsersOf fuel m s1 = Some s2" "users_step U s1 s2" "m \<in> VisitedUsers s2" by auto
    with that[of s2] True show ?thesis by (simp add: accounted_def)
  next
    case False
    with that[of s1] users_step_refl[OF ok1] step1(4) show ?thesis by simp
  qed
  have ok2: "users_ok U s2" and v2: "VisitedUsers s1 \<subseteq> VisitedUsers s2"
    and rw2: "rewires (Trees s2) = rewires (Trees s1)"
    using step2 by (simp_all add: users_step_def users_frame_def)
  have "card (U - VisitedUsers s2) < fuel"
    using card_visited_mono[OF fin v2] fuel step1(2) by simp
  moreover have "n \<in> VisitedUsers s2" "replacement_ok n rep1 (Trees s2)"
    using v2 step1(2,3) 4(6) rw2 by (auto simp: replacement_ok_def)
  ultimately obtain s3 where s3: "collectDependents fuel n rep1 ms s2 = Some s3"
    and step3: "users_step U s2 s3" and ams: "\<forall>m \<in> set ms. accounted s3 n m"
    using 4(2)[OF h[symmetric] refl s2 ms ok2] by blast
  have "accounted s3 n m" using am step3 by (simp add: users_step_def)
  moreover have "users_step U s s3"
    by (rule users_step_trans[OF users_step_trans[OF step1(1) step2] step3])
  moreover have "collectDependents fuel n replacement (m # ms) s = Some s3"
    by (simp add: h s2 s3)
  ultimately show ?case using ams by simp
qed

subsection \<open>The loop over the files\<close>

fun fold_option :: "('a \<Rightarrow> 's \<Rightarrow> 's option) \<Rightarrow> 'a list \<Rightarrow> 's \<Rightarrow> 's option" where
  "fold_option f [] s = Some s"
| "fold_option f (x # xs) s = Option.bind (f x s) (fold_option f xs)"

text \<open>
  The list of files grows while it is walked. Each file is in it once, so one turn for each file
  of the program, and one to stop, are enough.
\<close>

fun collectFiles :: "nat \<Rightarrow> nat \<Rightarrow> nat \<Rightarrow> user_state \<Rightarrow> user_state option" where
  "collectFiles 0 fuel i s = None"
| "collectFiles (Suc turns) fuel i s =
     (if i < length (UserFiles (UD (Map s)))
      then (let fe = UserFiles (UD (Map s)) ! i
            in Option.bind (fold_option (collectUsersOf fuel) (FileN fe # map DeclN (fd_decls (FDMap (Map s)) fe)) s)
                 (collectFiles turns fuel (Suc i)))
      else Some s)"

lemma fold_collect:
  assumes fin: "finite U"
  shows "set ns \<subseteq> U \<Longrightarrow> users_ok U s \<Longrightarrow> card U < fuel \<Longrightarrow>
    \<exists>s'. fold_option (collectUsersOf fuel) ns s = Some s' \<and> users_step U s s' \<and> set ns \<subseteq> VisitedUsers s'"
proof (induction ns arbitrary: s)
  case Nil
  then show ?case using users_step_refl by simp
next
  case (Cons n ns)
  have "card (U - VisitedUsers s) < fuel"
    using card_visited_mono[OF fin empty_subsetI, of "VisitedUsers s"] Cons.prems(3) by simp
  with collect_total(1)[OF fin, of n s fuel] Cons.prems obtain s1 where
    s1: "collectUsersOf fuel n s = Some s1" "users_step U s s1" "n \<in> VisitedUsers s1" by auto
  with Cons.IH[of s1] Cons.prems obtain s2 where
    s2: "fold_option (collectUsersOf fuel) ns s1 = Some s2" "users_step U s1 s2" "set ns \<subseteq> VisitedUsers s2"
    by (auto simp: users_step_def)
  then show ?case using s1 users_step_trans[OF s1(2) s2(2)] by (auto simp: users_step_def)
qed

definition file_collected :: "user_state \<Rightarrow> file \<Rightarrow> bool" where
  "file_collected s f \<longleftrightarrow> FileN f \<in> VisitedUsers s \<and>
     (\<forall>d \<in> set (fd_decls (FDMap (Map s)) f). DeclN d \<in> VisitedUsers s)"

lemma file_collected_step: "users_step U s s' \<Longrightarrow> file_collected s f \<Longrightarrow> file_collected s' f"
  by (auto simp: file_collected_def users_step_def users_frame_def)

lemma UserFiles_bound:
  assumes "finite U" "users_ok U s"
  shows "length (UserFiles (UD (Map s))) \<le> card U"
proof -
  have "inj_on FileN A" for A by (simp add: inj_on_def)
  then have "card (FileN ` set (UserFiles (UD (Map s)))) = length (UserFiles (UD (Map s)))"
    using assms(2) by (simp add: card_image users_ok_def distinct_users_def distinct_card)
  moreover have "card (FileN ` set (UserFiles (UD (Map s)))) \<le> card U"
    using assms by (intro card_mono) (auto simp: users_ok_def)
  ultimately show ?thesis by simp
qed

lemma collectFiles_total:
  assumes fin: "finite U" and fuel: "card U < fuel"
  shows "users_ok U s \<Longrightarrow> (\<forall>f. FileN f \<in> U \<longrightarrow> DeclN ` set (fd_decls (FDMap (Map s)) f) \<subseteq> U) \<Longrightarrow>
    card U + 1 \<le> turns + i \<Longrightarrow> i \<le> length (UserFiles (UD (Map s))) \<Longrightarrow>
    (\<forall>j < i. file_collected s (UserFiles (UD (Map s)) ! j)) \<Longrightarrow>
    \<exists>s'. collectFiles turns fuel i s = Some s' \<and> users_step U s s' \<and>
      (\<forall>f \<in> set (UserFiles (UD (Map s'))). file_collected s' f)"
proof (induction turns arbitrary: i s)
  case 0
  then show ?case using UserFiles_bound[OF fin 0(1)] by simp
next
  case (Suc turns)
  let ?fs = "UserFiles (UD (Map s))"
  show ?case
  proof (cases "i < length ?fs")
    case False
    then have "\<forall>f \<in> set ?fs. file_collected s f" using Suc.prems(5) by (auto simp: in_set_conv_nth)
    with False show ?thesis using users_step_refl[OF Suc.prems(1)] by auto
  next
    case True
    let ?fe = "?fs ! i"
    let ?ns = "FileN ?fe # map DeclN (fd_decls (FDMap (Map s)) ?fe)"
    have "FileN ?fe \<in> U" using Suc.prems(1) True by (auto simp: users_ok_def)
    then have "set ?ns \<subseteq> U" using Suc.prems(2) by auto
    then obtain s1 where s1: "fold_option (collectUsersOf fuel) ?ns s = Some s1" "users_step U s s1"
      "set ?ns \<subseteq> VisitedUsers s1"
      using fold_collect[OF fin _ Suc.prems(1) fuel] by blast
    have frame: "users_frame s s1" and ok1: "users_ok U s1" using s1(2) by (simp_all add: users_step_def)
    then have fd: "FDMap (Map s1) = FDMap (Map s)" and pre: "prefix ?fs (UserFiles (UD (Map s1)))"
      by (simp_all add: users_frame_def)
    then obtain zs where zs: "UserFiles (UD (Map s1)) = ?fs @ zs" by (auto simp: prefix_def)
    have "file_collected s1 (UserFiles (UD (Map s1)) ! j)" if "j < Suc i" for j
    proof (cases "j = i")
      case True
      then show ?thesis using \<open>i < length ?fs\<close> s1(3) by (auto simp: zs nth_append file_collected_def fd)
    next
      case False
      then have "j < i" using that by simp
      then show ?thesis using file_collected_step[OF s1(2)] Suc.prems(5) \<open>i < length ?fs\<close>
        by (simp add: zs nth_append)
    qed
    then obtain s2 where s2: "collectFiles turns fuel (Suc i) s1 = Some s2" "users_step U s1 s2"
      "\<forall>f \<in> set (UserFiles (UD (Map s2))). file_collected s2 f"
      using Suc.IH[OF ok1, of "Suc i"] Suc.prems(2,3) True by (auto simp: fd zs)
    show ?thesis
      using True s1(1) s2 users_step_trans[OF s1(2) s2(2)] by (auto simp: Let_def simp del: fold_option.simps)
  qed
qed

subsection \<open>Removing the users from the graph\<close>

text \<open>One \<^verbatim>\<open>findIn\<close> call in removal mode, and what follows it for each kind of node.\<close>

definition removeDecl :: "store \<Rightarrow> decl \<Rightarrow> dep_map \<Rightarrow> dep_map option" where
  "removeDecl st d dm =
     map_option (\<lambda>dm. dm\<lparr>Visited := Visited dm - {DeclN d}\<rparr>) (find_nodes st (in_decl st (Some d)) dm)"

definition removeType :: "store \<Rightarrow> type_id \<Rightarrow> dep_map \<Rightarrow> dep_map option" where
  "removeType st t dm =
     map_option (\<lambda>dm. dm\<lparr>Visited := Visited dm - {TypeN t},
         UD := (UD dm)\<lparr>RecanonTypes := removeAll t (RecanonTypes (UD dm))\<rparr>\<rparr>)
       (find_nodes st (in_type st (Some t)) dm)"

definition removeNNS :: "store \<Rightarrow> nns_id \<Rightarrow> dep_map \<Rightarrow> dep_map option" where
  "removeNNS st k dm =
     map_option (\<lambda>dm. dm\<lparr>Visited := Visited dm - {NnsN k}\<rparr>) (find_nodes st [NnsN k] dm)"

definition removeFile :: "store \<Rightarrow> file \<Rightarrow> dep_map \<Rightarrow> dep_map option" where
  "removeFile st f dm =
     map_option (\<lambda>dm. dm\<lparr>Visited := Visited dm - {FileN f},
         FileEntryDependees := (FileEntryDependees dm)(f := [])\<rparr>)
       (find_nodes st [FileN f] dm)"

definition removeUsers :: "store \<Rightarrow> dep_map \<Rightarrow> dep_map option" where
  "removeUsers st dm =
     Option.bind (fold_option (removeDecl st) (UserDecls (UD dm)) (dm\<lparr>RemoveDependencies := True\<rparr>)) (\<lambda>dm.
     Option.bind (fold_option (removeType st) (UserTypes (UD dm)) dm) (\<lambda>dm.
     Option.bind (fold_option (removeNNS st) (UserNNS (UD dm)) dm) (\<lambda>dm.
     map_option (\<lambda>dm. dm\<lparr>RemoveDependencies := False\<rparr>)
       (fold_option (removeFile st) (UserFiles (UD dm)) dm))))"

definition collectUsers :: "user_state \<Rightarrow> user_state option" where
  "collectUsers s =
     (let n = length (all_nodes (Trees s)) in
      Option.bind (collectFiles (Suc n) (Suc n) 0 (s\<lparr>VisitedUsers := {}\<rparr>)) (\<lambda>s.
      map_option (\<lambda>dm. s\<lparr>Map := dm\<rparr>) (removeUsers (Trees s) (Map s))))"

text \<open>What removing a node does to the edges.\<close>

definition cut :: "(node \<Rightarrow> node list) \<Rightarrow> node \<Rightarrow> (node \<Rightarrow> node list) \<Rightarrow> node \<Rightarrow> node list" where
  "cut children n deps m = (if m \<in> set (children n) then removeAll n (deps m) else deps m)"

lemma find_all_removing:
  assumes "RemoveDependencies dm" "CurrentDependent dm = Some n"
  shows "find_all children (Suc fuel) ms dm =
    Some (dm\<lparr>Dependents := (\<lambda>m. if m \<in> set ms then removeAll n (Dependents dm m) else Dependents dm m)\<rparr>)"
  using assms
proof (induction ms arbitrary: dm)
  case Nil
  have "(\<lambda>m. Dependents dm m) = Dependents dm" by simp
  then show ?case by simp
next
  case (Cons m ms)
  have "findProlog m dm = (True, erase_dependent m n dm)"
    using Cons.prems by (simp add: findProlog_def)
  moreover have "RemoveDependencies (erase_dependent m n dm)" "CurrentDependent (erase_dependent m n dm) = Some n"
    using Cons.prems by (simp_all add: erase_dependent_def)
  ultimately show ?case
    by (simp add: Cons.IH) (auto simp: erase_dependent_def fun_eq_iff)
qed

lemma find_nodes_removing:
  assumes "RemoveDependencies dm" "CurrentDependent dm = None" "valid_node st n"
  shows "find_nodes st [n] dm =
    Some (dm\<lparr>Dependents := cut (dm_children st dm) n (Dependents dm)\<rparr>)"
proof -
  obtain k where k: "length (all_nodes st) = Suc k"
    using assms(3) set_all_nodes[of st] by (cases "all_nodes st") auto
  have "findProlog n dm = (False, dm\<lparr>CurrentDependent := Some n\<rparr>)"
    using assms by (simp add: findProlog_def)
  then show ?thesis
    using assms by (cases dm) (simp add: find_nodes_def k find_all_removing cut_def[abs_def] cong: if_cong)
qed

definition visitable :: "store \<Rightarrow> node \<Rightarrow> bool" where
  "visitable st n =
     (case n of
        DeclN d \<Rightarrow> in_decl st (Some d) \<noteq> []
      | TypeN t \<Rightarrow> in_type st (Some t) \<noteq> []
      | _ \<Rightarrow> True)"

definition removing :: "dep_map \<Rightarrow> bool" where
  "removing dm \<longleftrightarrow> RemoveDependencies dm \<and> CurrentDependent dm = None"

text \<open>The user data of both states have the same users, the recanonicalised types apart.\<close>

definition same_users :: "user_data \<Rightarrow> user_data \<Rightarrow> bool" where
  "same_users ud ud' \<longleftrightarrow> UserDecls ud' = UserDecls ud \<and> UserTypes ud' = UserTypes ud \<and>
     UserNNS ud' = UserNNS ud \<and> UserFiles ud' = UserFiles ud"

definition removed :: "store \<Rightarrow> node \<Rightarrow> dep_map \<Rightarrow> dep_map \<Rightarrow> bool" where
  "removed st n dm dm' \<longleftrightarrow> removing dm' \<and>
     Dependents dm' = (if visitable st n then cut (dm_children st dm) n (Dependents dm) else Dependents dm) \<and>
     Visited dm' = Visited dm - {n} \<and> FDMap dm' = FDMap dm \<and>
     (\<forall>f. FileN f \<noteq> n \<longrightarrow> FileEntryDependees dm' f = FileEntryDependees dm f) \<and>
     (\<forall>t. t \<in> set (RecanonTypes (UD dm')) \<longleftrightarrow> t \<in> set (RecanonTypes (UD dm)) \<and> TypeN t \<noteq> n) \<and>
     same_users (UD dm) (UD dm')"

lemma find_nodes_nil: "find_nodes st [] dm = Some dm"
  by (simp add: find_nodes_def)

lemma removeDecl_removed:
  assumes "removing dm" "valid_node st (DeclN d)"
  shows "\<exists>dm'. removeDecl st d dm = Some dm' \<and> removed st (DeclN d) dm dm'"
proof (cases "Kind (decl_at st d) = TranslationUnitDecl")
  case True
  then show ?thesis using assms
    by (simp add: removeDecl_def in_decl_def find_nodes_nil removed_def removing_def visitable_def same_users_def)
next
  case False
  then show ?thesis using assms find_nodes_removing[of dm st "DeclN d"]
    by (simp add: removeDecl_def in_decl_def removed_def removing_def visitable_def same_users_def)
qed

lemma removeType_removed:
  assumes "removing dm" "valid_node st (TypeN t)"
  shows "\<exists>dm'. removeType st t dm = Some dm' \<and> removed st (TypeN t) dm dm'"
proof (cases "isBuiltinDependent (length (Types st)) st t")
  case True
  then show ?thesis using assms
    by (simp add: removeType_def in_type_def find_nodes_nil removed_def removing_def visitable_def same_users_def)
next
  case False
  then show ?thesis using assms find_nodes_removing[of dm st "TypeN t"]
    by (simp add: removeType_def in_type_def removed_def removing_def visitable_def same_users_def)
qed

lemma removeNNS_removed:
  assumes "removing dm" "valid_node st (NnsN k)"
  shows "\<exists>dm'. removeNNS st k dm = Some dm' \<and> removed st (NnsN k) dm dm'"
  using assms find_nodes_removing[of dm st "NnsN k"]
  by (simp add: removeNNS_def removed_def removing_def visitable_def same_users_def)

lemma removeFile_removed:
  assumes "removing dm" "valid_node st (FileN f)"
  shows "\<exists>dm'. removeFile st f dm = Some dm' \<and> removed st (FileN f) dm dm'"
  using assms find_nodes_removing[of dm st "FileN f"]
  by (simp add: removeFile_def removed_def removing_def visitable_def same_users_def)

text \<open>The visit of a node other than a file does not depend on the files included.\<close>

lemma node_children_files:
  "(\<And>f. n = FileN f \<Longrightarrow> g f = h f) \<Longrightarrow> node_children st g fd n = node_children st h fd n"
  by (cases n) (simp_all add: node_children_def findInFileEntry_def)

definition all_removed :: "store \<Rightarrow> node list \<Rightarrow> dep_map \<Rightarrow> dep_map \<Rightarrow> bool" where
  "all_removed st ns dm dm' \<longleftrightarrow> removing dm' \<and>
     (\<forall>m x. x \<in> set (Dependents dm' m) \<longleftrightarrow> x \<in> set (Dependents dm m) \<and>
        \<not> (x \<in> set ns \<and> visitable st x \<and> m \<in> set (dm_children st dm x))) \<and>
     Visited dm' = Visited dm - set ns \<and> FDMap dm' = FDMap dm \<and>
     (\<forall>f. FileN f \<notin> set ns \<longrightarrow> FileEntryDependees dm' f = FileEntryDependees dm f) \<and>
     (\<forall>t. t \<in> set (RecanonTypes (UD dm')) \<longleftrightarrow> t \<in> set (RecanonTypes (UD dm)) \<and> TypeN t \<notin> set ns) \<and>
     same_users (UD dm) (UD dm')"

lemma all_removed_nil: "removing dm \<Longrightarrow> all_removed st [] dm dm"
  by (simp add: all_removed_def same_users_def)

lemma all_removed_append:
  assumes a: "all_removed st ns dm dm1" and b: "all_removed st ms dm1 dm2" and d: "set ns \<inter> set ms = {}"
  shows "all_removed st (ns @ ms) dm dm2"
proof -
  have same: "dm_children st dm1 x = dm_children st dm x" if "x \<in> set ms" for x
  proof -
    have "FileEntryDependees dm1 f = FileEntryDependees dm f" if "x = FileN f" for f
      using a d that \<open>x \<in> set ms\<close> unfolding all_removed_def by blast
    then show ?thesis using a node_children_files[of x "FileEntryDependees dm1" "FileEntryDependees dm"]
      unfolding all_removed_def by simp
  qed
  have edges: "x \<in> set (Dependents dm2 m) \<longleftrightarrow> x \<in> set (Dependents dm m) \<and>
      \<not> (x \<in> set (ns @ ms) \<and> visitable st x \<and> m \<in> set (dm_children st dm x))" for x m
    using a b same[of x] unfolding all_removed_def by auto
  moreover have "removing dm2" "Visited dm2 = Visited dm - set (ns @ ms)" "FDMap dm2 = FDMap dm"
    "same_users (UD dm) (UD dm2)"
    using a b unfolding all_removed_def same_users_def by auto
  moreover have "FileEntryDependees dm2 f = FileEntryDependees dm f" if "FileN f \<notin> set (ns @ ms)" for f
    using a b that unfolding all_removed_def by simp
  moreover have "t \<in> set (RecanonTypes (UD dm2)) \<longleftrightarrow> t \<in> set (RecanonTypes (UD dm)) \<and> TypeN t \<notin> set (ns @ ms)" for t
    using a b unfolding all_removed_def by auto
  ultimately show ?thesis unfolding all_removed_def by blast
qed

lemma removed_all: "removed st n dm dm' \<Longrightarrow> all_removed st [n] dm dm'"
  by (auto simp: removed_def all_removed_def cut_def)

lemma fold_removed:
  assumes one: "\<And>a dm. a \<in> set xs \<Longrightarrow> removing dm \<Longrightarrow> \<exists>dm'. f a dm = Some dm' \<and> removed st (node_of a) dm dm'"
    and d: "distinct (map node_of xs)" and r: "removing dm"
  shows "\<exists>dm'. fold_option f xs dm = Some dm' \<and> all_removed st (map node_of xs) dm dm'"
  using one d r
proof (induction xs arbitrary: dm)
  case Nil
  then show ?case by (simp add: all_removed_nil)
next
  case (Cons a xs)
  obtain dm1 where dm1: "f a dm = Some dm1" "removed st (node_of a) dm dm1"
    using Cons.prems(1)[of a dm] Cons.prems(3) by auto
  then have "removing dm1" by (simp add: removed_def)
  then obtain dm2 where dm2: "fold_option f xs dm1 = Some dm2" "all_removed st (map node_of xs) dm1 dm2"
    using Cons.IH[of dm1] Cons.prems(1,2) by auto
  have "all_removed st ([node_of a] @ map node_of xs) dm dm2"
    by (rule all_removed_append[OF removed_all[OF dm1(2)] dm2(2)]) (use Cons.prems(2) in simp)
  then show ?case using dm1(1) dm2(1) by simp
qed

definition user_nodes :: "user_data \<Rightarrow> node list" where
  "user_nodes ud = map DeclN (UserDecls ud) @ map TypeN (UserTypes ud) @ map NnsN (UserNNS ud) @
     map FileN (UserFiles ud)"

lemma set_user_nodes: "n \<in> set (user_nodes ud) \<longleftrightarrow> in_user_data ud n"
  by (cases n) (auto simp: user_nodes_def)

lemma removeUsers_all:
  assumes r: "\<not> RemoveDependencies dm" "CurrentDependent dm = None"
    and d: "distinct_users (UD dm)" and v: "list_all (valid_node st) (user_nodes (UD dm))"
  shows "\<exists>dm'. removeUsers st dm = Some dm' \<and> \<not> RemoveDependencies dm' \<and> CurrentDependent dm' = None \<and>
    (\<forall>m x. x \<in> set (Dependents dm' m) \<longleftrightarrow> x \<in> set (Dependents dm m) \<and>
       \<not> (in_user_data (UD dm) x \<and> visitable st x \<and> m \<in> set (dm_children st dm x))) \<and>
    Visited dm' = Visited dm - {n. in_user_data (UD dm) n} \<and> FDMap dm' = FDMap dm \<and>
    (\<forall>t. t \<in> set (RecanonTypes (UD dm')) \<longleftrightarrow> t \<in> set (RecanonTypes (UD dm)) \<and> \<not> in_user_data (UD dm) (TypeN t)) \<and>
    same_users (UD dm) (UD dm')"
proof -
  let ?ud = "UD dm"
  have inj: "distinct (map DeclN (UserDecls ?ud))" "distinct (map TypeN (UserTypes ?ud))"
    "distinct (map NnsN (UserNNS ?ud))" "distinct (map FileN (UserFiles ?ud))"
    using d by (simp_all add: distinct_users_def distinct_map inj_on_def)
  have valid: "\<And>a. a \<in> set (UserDecls ?ud) \<Longrightarrow> valid_node st (DeclN a)"
    "\<And>a. a \<in> set (UserTypes ?ud) \<Longrightarrow> valid_node st (TypeN a)"
    "\<And>a. a \<in> set (UserNNS ?ud) \<Longrightarrow> valid_node st (NnsN a)"
    "\<And>a. a \<in> set (UserFiles ?ud) \<Longrightarrow> valid_node st (FileN a)"
    using v by (auto simp: user_nodes_def list_all_iff)
  define dm0 where "dm0 = dm\<lparr>RemoveDependencies := True\<rparr>"
  have "removing dm0" using r by (simp add: removing_def dm0_def)
  then obtain dm1 where 1: "fold_option (removeDecl st) (UserDecls ?ud) dm0 = Some dm1"
    "all_removed st (map DeclN (UserDecls ?ud)) dm0 dm1"
    using fold_removed[of "UserDecls ?ud" "removeDecl st" st DeclN dm0] inj(1) valid(1) removeDecl_removed by blast
  have u1: "same_users ?ud (UD dm1)" and r1: "removing dm1"
    using 1(2) by (simp_all add: all_removed_def dm0_def)
  obtain dm2 where 2: "fold_option (removeType st) (UserTypes ?ud) dm1 = Some dm2"
    "all_removed st (map TypeN (UserTypes ?ud)) dm1 dm2"
    using fold_removed[of "UserTypes ?ud" "removeType st" st TypeN dm1] inj(2) valid(2) removeType_removed r1
    by blast
  have u2: "same_users ?ud (UD dm2)" and r2: "removing dm2"
    using 2(2) u1 by (simp_all add: all_removed_def same_users_def)
  obtain dm3 where 3: "fold_option (removeNNS st) (UserNNS ?ud) dm2 = Some dm3"
    "all_removed st (map NnsN (UserNNS ?ud)) dm2 dm3"
    using fold_removed[of "UserNNS ?ud" "removeNNS st" st NnsN dm2] inj(3) valid(3) removeNNS_removed r2
    by blast
  have u3: "same_users ?ud (UD dm3)" and r3: "removing dm3"
    using 3(2) u2 by (simp_all add: all_removed_def same_users_def)
  obtain dm4 where 4: "fold_option (removeFile st) (UserFiles ?ud) dm3 = Some dm4"
    "all_removed st (map FileN (UserFiles ?ud)) dm3 dm4"
    using fold_removed[of "UserFiles ?ud" "removeFile st" st FileN dm3] inj(4) valid(4) removeFile_removed r3
    by blast
  have "all_removed st (map DeclN (UserDecls ?ud) @ map TypeN (UserTypes ?ud)) dm0 dm2"
    by (rule all_removed_append[OF 1(2) 2(2)]) auto
  from all_removed_append[OF this 3(2)]
  have "all_removed st ((map DeclN (UserDecls ?ud) @ map TypeN (UserTypes ?ud)) @ map NnsN (UserNNS ?ud)) dm0 dm3"
    by auto
  from all_removed_append[OF this 4(2)]
  have all: "all_removed st (user_nodes ?ud) dm0 dm4" by (auto simp: user_nodes_def)
  have "removeUsers st dm = Some (dm4\<lparr>RemoveDependencies := False\<rparr>)"
    using 1(1) 2(1) 3(1) 4(1) u1 u2 u3 by (simp add: removeUsers_def dm0_def same_users_def)
  moreover have "{n. in_user_data ?ud n} = set (user_nodes ?ud)" by (auto simp: set_user_nodes)
  ultimately show ?thesis
    using all by (auto simp: all_removed_def removing_def set_user_nodes dm0_def)
qed

subsection \<open>Collecting the users\<close>

text \<open>A state ready for \<open>collectUsers\<close>: only files are known to be unloaded.\<close>

definition collect_ready :: "user_state \<Rightarrow> bool" where
  "collect_ready s \<longleftrightarrow> \<not> RemoveDependencies (Map s) \<and> CurrentDependent (Map s) = None \<and>
     (\<forall>k. list_all (valid_node (Trees s)) (Dependents (Map s) k)) \<and>
     (\<forall>f. list_all (\<lambda>d. valid_node (Trees s) (DeclN d)) (fd_decls (FDMap (Map s)) f)) \<and>
     list_all (\<lambda>f. valid_node (Trees s) (FileN f)) (UserFiles (UD (Map s))) \<and>
     distinct (UserFiles (UD (Map s))) \<and>
     UserDecls (UD (Map s)) = [] \<and> UserTypes (UD (Map s)) = [] \<and> UserNNS (UD (Map s)) = []"

lemma valid_all_nodes: "valid_node st n \<longleftrightarrow> n \<in> set (all_nodes st)"
  by (simp add: set_all_nodes)

text \<open>
  The dependents of the nodes, and the declarations of the files; what is unloaded is looked for
  from the files that are known to be.
\<close>

definition user_graph :: "user_state \<Rightarrow> (node \<times> node) set" where
  "user_graph s = {(a, b). b \<in> set (Dependents (Map s) a) \<or>
     (\<exists>f. a = FileN f \<and> b \<in> DeclN ` set (fd_decls (FDMap (Map s)) f))}"

definition transitive_users :: "user_state \<Rightarrow> node set" where
  "transitive_users s = (user_graph s)\<^sup>* `` (FileN ` set (UserFiles (UD (Map s))))"

lemma transitive_users_closed:
  "a \<in> transitive_users s \<Longrightarrow> (a, b) \<in> user_graph s \<Longrightarrow> b \<in> transitive_users s"
  unfolding transitive_users_def by (auto intro: rtrancl_into_rtrancl)

lemma transitive_users_valid:
  assumes "collect_ready s"
  shows "transitive_users s \<subseteq> set (all_nodes (Trees s))"
proof -
  have edge: "b \<in> set (all_nodes (Trees s))" if "(a, b) \<in> user_graph s" for a b
    using that assms by (auto simp: user_graph_def collect_ready_def list_all_iff valid_all_nodes)
  have "b \<in> set (all_nodes (Trees s))"
    if "(a, b) \<in> (user_graph s)\<^sup>*" "a \<in> set (all_nodes (Trees s))" for a b
    using that(1) by (induction rule: rtrancl_induct) (use that(2) edge in auto)
  then show ?thesis
    using assms by (auto simp: transitive_users_def collect_ready_def list_all_iff valid_all_nodes)
qed

lemma collect_ready_ok:
  assumes "collect_ready s"
  shows "users_ok (transitive_users s) (s\<lparr>VisitedUsers := {}\<rparr>)"
proof -
  have "in_user_data (UD (Map s)) n \<Longrightarrow> \<exists>f. n = FileN f" for n
    using assms by (cases n) (simp_all add: collect_ready_def)
  moreover have "set (Dependents (Map s) k) \<subseteq> transitive_users s" if "k \<in> transitive_users s" for k
    using transitive_users_closed[OF that] by (auto simp: user_graph_def)
  moreover have "FileN ` set (UserFiles (UD (Map s))) \<subseteq> transitive_users s"
    by (auto simp: transitive_users_def)
  ultimately show ?thesis using assms
    by (auto simp: collect_ready_def users_ok_def distinct_users_def)
qed

lemma collectUsers_phases:
  assumes ready: "collect_ready s"
  shows "\<exists>s1 dm'. collectUsers s = Some (s1\<lparr>Map := dm'\<rparr>) \<and>
    users_step (transitive_users s) (s\<lparr>VisitedUsers := {}\<rparr>) s1 \<and>
    (\<forall>n. in_user_data (UD (Map s1)) n \<longleftrightarrow> n \<in> VisitedUsers s1) \<and>
    (\<forall>f. FileN f \<in> VisitedUsers s1 \<longrightarrow> file_collected s1 f) \<and>
    removeUsers (Trees s1) (Map s1) = Some dm' \<and> list_all (valid_node (Trees s1)) (user_nodes (UD (Map s1)))"
proof -
  let ?U = "transitive_users s" and ?s0 = "s\<lparr>VisitedUsers := {}\<rparr>"
  let ?n = "length (all_nodes (Trees s))"
  note valid_U = transitive_users_valid[OF ready]
  have fin: "finite ?U" by (rule finite_subset[OF valid_U]) simp
  have "card ?U < Suc ?n"
    using card_mono[OF _ valid_U] card_length[of "all_nodes (Trees s)"] by simp
  moreover have "DeclN ` set (fd_decls (FDMap (Map ?s0)) f) \<subseteq> ?U" if "FileN f \<in> ?U" for f
    using transitive_users_closed[OF that] by (auto simp: user_graph_def)
  ultimately obtain s1 where s1: "collectFiles (Suc ?n) (Suc ?n) 0 ?s0 = Some s1"
    and step: "users_step ?U ?s0 s1"
    and files: "\<forall>f \<in> set (UserFiles (UD (Map s1))). file_collected s1 f"
    using collectFiles_total[OF fin _ collect_ready_ok[OF ready], of "Suc ?n" "Suc ?n" 0] by auto
  have ok: "users_ok ?U s1" and nodes: "all_nodes (Trees s1) = all_nodes (Trees s)"
    and frame: "RemoveDependencies (Map s1) = RemoveDependencies (Map s)"
      "CurrentDependent (Map s1) = CurrentDependent (Map s)"
    using step by (simp_all add: users_step_def users_frame_def)
  have in_V: "in_user_data (UD (Map s1)) n \<longleftrightarrow> n \<in> VisitedUsers s1" for n
    using ok files unfolding users_ok_def file_collected_def by (metis in_user_data.simps(4))
  have "VisitedUsers s1 \<subseteq> set (all_nodes (Trees s))" using step valid_U by (auto simp: users_step_def)
  then have valid: "list_all (valid_node (Trees s1)) (user_nodes (UD (Map s1)))"
    using in_V by (auto simp: list_all_iff set_user_nodes valid_all_nodes nodes)
  have d: "distinct_users (UD (Map s1))" using ok by (simp add: users_ok_def)
  from removeUsers_all[OF _ _ d valid] ready frame obtain dm' where
    dm': "removeUsers (Trees s1) (Map s1) = Some dm'" by (auto simp: collect_ready_def)
  have "collectUsers s = Some (s1\<lparr>Map := dm'\<rparr>)"
    using s1 dm' by (simp add: collectUsers_def Let_def del: collectFiles.simps)
  with step in_V files dm' valid show ?thesis
    by (metis in_user_data.simps(4))
qed

lemma collectUsers_result:
  assumes ready: "collect_ready s"
  shows "\<exists>s'. collectUsers s = Some s' \<and>
    (\<forall>n. in_user_data (UD (Map s')) n \<longleftrightarrow> n \<in> VisitedUsers s') \<and>
    (\<forall>f \<in> set (UserFiles (UD (Map s))). FileN f \<in> VisitedUsers s') \<and>
    (\<forall>f d. FileN f \<in> VisitedUsers s' \<longrightarrow> d \<in> set (fd_decls (FDMap (Map s)) f) \<longrightarrow> DeclN d \<in> VisitedUsers s') \<and>
    VisitedUsers s' \<subseteq> transitive_users s \<and>
    rewires (Trees s') = rewires (Trees s) \<and>
    (\<forall>t \<in> set (RecanonTypes (UD (Map s'))). t \<in> set (RecanonTypes (UD (Map s))) \<or> dependent_type (Trees s) t) \<and>
    (\<forall>v x. v \<in> VisitedUsers s' \<longrightarrow> x \<in> set (Dependents (Map s) v) \<longrightarrow> accounted s' v x)"
proof -
  let ?s0 = "s\<lparr>VisitedUsers := {}\<rparr>"
  obtain s1 dm' where c: "collectUsers s = Some (s1\<lparr>Map := dm'\<rparr>)"
    and step: "users_step (transitive_users s) ?s0 s1"
    and in_V: "\<forall>n. in_user_data (UD (Map s1)) n \<longleftrightarrow> n \<in> VisitedUsers s1"
    and files: "\<forall>f. FileN f \<in> VisitedUsers s1 \<longrightarrow> file_collected s1 f"
    and dm': "removeUsers (Trees s1) (Map s1) = Some dm'"
    and valid: "list_all (valid_node (Trees s1)) (user_nodes (UD (Map s1)))"
    using collectUsers_phases[OF ready] by blast
  have frame: "users_frame ?s0 s1" and ok: "users_ok (transitive_users s) s1"
    using step by (simp_all add: users_step_def)
  then have d: "distinct_users (UD (Map s1))" "\<not> RemoveDependencies (Map s1)" "CurrentDependent (Map s1) = None"
    using ready by (simp_all add: users_frame_def users_ok_def collect_ready_def)
  from removeUsers_all[OF d(2,3) d(1) valid] dm' have
    edges: "x \<in> set (Dependents dm' m) \<longleftrightarrow> x \<in> set (Dependents (Map s1) m) \<and>
       \<not> (in_user_data (UD (Map s1)) x \<and> visitable (Trees s1) x \<and> m \<in> set (dm_children (Trees s1) (Map s1) x))"
    and recanon: "t \<in> set (RecanonTypes (UD dm')) \<longleftrightarrow>
       t \<in> set (RecanonTypes (UD (Map s1))) \<and> \<not> in_user_data (UD (Map s1)) (TypeN t)"
    and same: "same_users (UD (Map s1)) (UD dm')" for x m t by simp_all
  have "in_user_data (UD dm') n = in_user_data (UD (Map s1)) n" for n
    using same by (cases n) (simp_all add: same_users_def)
  moreover have "FileN f \<in> VisitedUsers s1" if "f \<in> set (UserFiles (UD (Map s)))" for f
    using that frame in_V[rule_format, of "FileN f"] by (auto simp: users_frame_def dest: set_mono_prefix)
  moreover have "DeclN d \<in> VisitedUsers s1"
    if "FileN f \<in> VisitedUsers s1" "d \<in> set (fd_decls (FDMap (Map s)) f)" for f d
    using files that frame by (auto simp: file_collected_def users_frame_def)
  moreover have "VisitedUsers s1 \<subseteq> transitive_users s" "rewires (Trees s1) = rewires (Trees s)"
    using step frame by (auto simp: users_step_def users_frame_def)
  moreover have "t \<in> set (RecanonTypes (UD (Map s))) \<or> dependent_type (Trees s) t"
    if "t \<in> set (RecanonTypes (UD dm'))" for t
    using that recanon frame by (auto simp: users_frame_def)
  moreover have "accounted (s1\<lparr>Map := dm'\<rparr>) v x" if "x \<in> set (Dependents (Map s) v)" for v x
  proof -
    have "accounted ?s0 v x" using that by (auto simp: accounted_def)
    then have "accounted s1 v x" using step by (simp add: users_step_def)
    then show ?thesis
      using in_V edges recanon by (fastforce simp: accounted_defs)
  qed
  ultimately show ?thesis using c in_V by (intro exI[of _ "s1\<lparr>Map := dm'\<rparr>"]) auto
qed

subsection \<open>The properties of the collection\<close>

text \<open>The small program: its file is to be unloaded, and the variable depends on the class.\<close>

definition sample_users :: user_state where
  "sample_users = \<lparr>Trees = sample_store,
     Map = dep_map_init\<lparr>Visited := {DeclN 1, TypeN 0, DeclN 2},
       Dependents := (\<lambda>_. [])(DeclN 1 := [TypeN 0], TypeN 0 := [DeclN 1, DeclN 2]),
       FDMap := fd_insert 1 0 fd_empty, UD := user_data_clear\<lparr>UserFiles := [0]\<rparr>\<rparr>,
     VisitedUsers = {}\<rparr>"

lemma sample_fd_decls: "fd_decls (fd_insert (Suc 0) 0 fd_empty) f = (if f = 0 then [Suc 0] else [])"
  unfolding fd_insert_maps(2)[OF fd_ok_empty] by (simp add: fd_empty_def fd_decls_def set_add_def)

lemma sample_ready: "collect_ready sample_users"
proof -
  have "FDMap (Map sample_users) = fd_insert (Suc 0) 0 fd_empty" by (simp add: sample_users_def)
  then have "\<forall>f. list_all (\<lambda>d. valid_node (Trees sample_users) (DeclN d)) (fd_decls (FDMap (Map sample_users)) f)"
    by (simp add: sample_fd_decls valid_node_def sample_users_def sample_store_def)
  then show ?thesis
    by (simp add: collect_ready_def sample_users_def dep_map_init_def user_data_clear_def valid_node_def
        sample_store_def)
qed

lemma sample_redecls: "set (redecls sample_store d) \<subseteq> {d}" if "d < 3"
proof -
  have "d = 0 \<or> d = 1 \<or> d = 2" using that by auto
  then show ?thesis
    by (auto simp: redecls_def sample_store_def sample_unit_def sample_decl_def numeral_2_eq_2 numeral_3_eq_3)
qed

lemma sample_transitive: "transitive_users sample_users \<subseteq> {FileN 0, DeclN 1, TypeN 0, DeclN 2}"
proof -
  have fd: "FDMap (Map sample_users) = fd_insert (Suc 0) 0 fd_empty" by (simp add: sample_users_def)
  have step: "b \<in> {FileN 0, DeclN 1, TypeN 0, DeclN 2}" if "(a, b) \<in> user_graph sample_users" for a b
    using that by (auto simp: user_graph_def fd sample_fd_decls split: if_splits)
      (auto simp: sample_users_def dep_map_init_def split: if_splits)
  have "UserFiles (UD (Map sample_users)) = [0]" by (simp add: sample_users_def)
  moreover have "b \<in> {FileN 0, DeclN 1, TypeN 0, DeclN 2}" if "(FileN 0, b) \<in> (user_graph sample_users)\<^sup>*" for b
    using that by (cases rule: rtranclE) (use step in blast)+
  ultimately show ?thesis by (auto simp: transitive_users_def)
qed

text \<open>
  C1 (safety): \<^bold>\<open>collectUsers\<close> terminates and forgets no user. The user data are what it visited:
  the files it was given and those it found, their declarations, and nothing that does not depend
  on them, directly or not. Everything that depended on an unloaded node is itself unloaded, or,
  when that node is a type, is a type whose canonical type is built anew, or it was rewired: it is
  now a dependent of a declaration that may take the place of the unloaded one, and that is not
  unloaded, unless it is a parameter.
\<close>

theorem collectUsers_forgets_none:
  assumes "collect_ready s"
  shows "\<exists>s'. collectUsers s = Some s' \<and>
    (\<forall>n. in_user_data (UD (Map s')) n \<longleftrightarrow> n \<in> VisitedUsers s') \<and>
    FileN ` set (UserFiles (UD (Map s))) \<subseteq> VisitedUsers s' \<and>
    (\<forall>f. FileN f \<in> VisitedUsers s' \<longrightarrow> DeclN ` set (fd_decls (FDMap (Map s)) f) \<subseteq> VisitedUsers s') \<and>
    VisitedUsers s' \<subseteq> transitive_users s \<and>
    (\<forall>v x. v \<in> VisitedUsers s' \<longrightarrow> x \<in> set (Dependents (Map s) v) \<longrightarrow>
       x \<in> VisitedUsers s' \<or> ((\<exists>t. v = TypeN t) \<and> recanonicalized s' x) \<or>
       (\<exists>d r. v = DeclN d \<and> (d, r) \<in> (rewires (Trees s))\<^sup>+ \<and> x \<in> set (Dependents (Map s') (DeclN r)) \<and>
          (DeclN r \<notin> VisitedUsers s' \<or> is_param (Trees s') r)))"
  using collectUsers_result[OF assms] by (fastforce simp: accounted_def rewired_def)

theorem collectUsers_forgets_none_witness:
  "\<exists>s'. collectUsers sample_users = Some s' \<and> {FileN 0, DeclN 1} \<subseteq> VisitedUsers s' \<and>
     DeclN 0 \<notin> VisitedUsers s'"
proof -
  have fd: "FDMap (Map sample_users) = fd_insert (Suc 0) 0 fd_empty" by (simp add: sample_users_def)
  obtain s' where s': "collectUsers sample_users = Some s'"
    and files: "FileN ` set (UserFiles (UD (Map sample_users))) \<subseteq> VisitedUsers s'"
    and decls: "\<forall>f. FileN f \<in> VisitedUsers s' \<longrightarrow>
      DeclN ` set (fd_decls (FDMap (Map sample_users)) f) \<subseteq> VisitedUsers s'"
    and sub: "VisitedUsers s' \<subseteq> transitive_users sample_users"
    using collectUsers_forgets_none[OF sample_ready] by blast
  have "FileN 0 \<in> VisitedUsers s'" using files by (simp add: sample_users_def)
  moreover from this have "DeclN 1 \<in> VisitedUsers s'" using decls by (auto simp: fd sample_fd_decls)
  moreover have "DeclN 0 \<notin> transitive_users sample_users" using sample_transitive by auto
  ultimately show ?thesis using s' sub by blast
qed

text \<open>
  C3 (equivalence): When no declaration has a redeclaration and no type is dependent,
  \<^bold>\<open>collectUsers\<close> computes the transitive closure: exactly the nodes that can be reached from the
  given files over the dependents of nodes and the declarations of files.
\<close>

theorem collectUsers_closure:
  assumes "collect_ready s" "RecanonTypes (UD (Map s)) = []"
    "\<And>d r. DeclN d \<in> transitive_users s \<Longrightarrow> \<not> may_replace (Trees s) d r"
    "\<And>t. TypeN t \<in> transitive_users s \<Longrightarrow> \<not> dependent_type (Trees s) t"
  shows "\<exists>s'. collectUsers s = Some s' \<and> VisitedUsers s' = transitive_users s"
proof -
  obtain s' where s': "collectUsers s = Some s'"
    and files: "\<forall>f \<in> set (UserFiles (UD (Map s))). FileN f \<in> VisitedUsers s'"
    and decls: "\<forall>f d. FileN f \<in> VisitedUsers s' \<longrightarrow> d \<in> set (fd_decls (FDMap (Map s)) f) \<longrightarrow>
      DeclN d \<in> VisitedUsers s'"
    and sub: "VisitedUsers s' \<subseteq> transitive_users s"
    and rw: "rewires (Trees s') = rewires (Trees s)"
    and rc: "\<forall>t \<in> set (RecanonTypes (UD (Map s'))). t \<in> set (RecanonTypes (UD (Map s))) \<or> dependent_type (Trees s) t"
    and acc: "\<forall>v x. v \<in> VisitedUsers s' \<longrightarrow> x \<in> set (Dependents (Map s) v) \<longrightarrow> accounted s' v x"
    using collectUsers_result[OF assms(1)] by blast
  have step: "b \<in> VisitedUsers s'" if a: "a \<in> VisitedUsers s'" and ab: "(a, b) \<in> user_graph s" for a b
  proof -
    have b: "b \<in> transitive_users s" using transitive_users_closed[OF _ ab] a sub by blast
    then have "\<not> recanonicalized s' b" using rc assms(2,4) by (auto simp: recanonicalized_def)
    moreover have "\<not> rewired s' d x" if "a = DeclN d" for d x
    proof -
      have "\<not> may_replace (Trees s) d r" for r using assms(3)[of d r] a sub that by blast
      then have "(d, r) \<notin> (rewires (Trees s))\<^sup>+" for r by (auto simp: rewires_def dest: tranclD)
      then show ?thesis by (simp add: rewired_def rw)
    qed
    ultimately have "accounted s' a b \<Longrightarrow> ?thesis" using a by (auto simp: accounted_def)
    then show ?thesis using a ab decls acc unfolding user_graph_def by blast
  qed
  have "b \<in> VisitedUsers s'" if "(a, b) \<in> (user_graph s)\<^sup>*" "a \<in> VisitedUsers s'" for a b
    using that(1) by (induction rule: rtrancl_induct) (use that(2) step in auto)
  then have "transitive_users s \<subseteq> VisitedUsers s'" using files by (auto simp: transitive_users_def)
  with s' sub show ?thesis by blast
qed

theorem collectUsers_closure_witness:
  "\<exists>s'. collectUsers sample_users = Some s' \<and> VisitedUsers s' = transitive_users sample_users"
proof (rule collectUsers_closure[OF sample_ready])
  have st: "Trees sample_users = sample_store" by (simp add: sample_users_def)
  show "RecanonTypes (UD (Map sample_users)) = []" by (simp add: sample_users_def user_data_clear_def)
  show "\<not> may_replace (Trees sample_users) d r" if "DeclN d \<in> transitive_users sample_users" for d r
  proof -
    have d: "d = 1 \<or> d = 2" using that sample_transitive by auto
    then have "\<not> is_param sample_store d"
      by (auto simp: is_param_def isTemplateTypeParm_def isParmVar_def sample_store_def sample_decl_def
          sample_var_def)
    then show ?thesis using sample_redecls[of d] d by (auto simp: may_replace_def st)
  qed
  show "\<not> dependent_type (Trees sample_users) t" if "TypeN t \<in> transitive_users sample_users" for t
    using that sample_transitive by (auto simp: st dependent_type_def sample_store_def sample_type_def)
qed

text \<open>
  C4 (invariant): After the removal pass of \<^bold>\<open>collectUsers\<close> no unloaded node is left in the graph as
  a dependent, or as visited, and the dependents that stay loaded are untouched, provided that
  before it every edge of an unloaded node went to one that its visit still reaches. This is what
  the disabled assertion at the end of \<^verbatim>\<open>collectUsers\<close> says.
\<close>

theorem removeUsers_clears:
  assumes "\<not> RemoveDependencies dm" "CurrentDependent dm = None" "distinct_users (UD dm)"
    "list_all (valid_node st) (user_nodes (UD dm))"
    "\<And>x m. in_user_data (UD dm) x \<Longrightarrow> x \<in> set (Dependents dm m) \<Longrightarrow>
       visitable st x \<and> m \<in> set (dm_children st dm x)"
  shows "\<exists>dm'. removeUsers st dm = Some dm' \<and> \<not> RemoveDependencies dm' \<and>
    (\<forall>x m. x \<in> set (Dependents dm' m) \<longleftrightarrow> x \<in> set (Dependents dm m) \<and> \<not> in_user_data (UD dm) x) \<and>
    Visited dm' = Visited dm - {n. in_user_data (UD dm) n}"
  using removeUsers_all[OF assms(1-4)] assms(5) by blast

theorem removeUsers_clears_witness:
  "\<exists>dm'. removeUsers sample_store
      (dep_map_init\<lparr>Dependents := (\<lambda>_. [])(TypeN 0 := [DeclN 1, DeclN 2]),
         UD := user_data_clear\<lparr>UserDecls := [2]\<rparr>\<rparr>) = Some dm' \<and>
    DeclN 1 \<in> set (Dependents dm' (TypeN 0)) \<and> DeclN 2 \<notin> set (Dependents dm' (TypeN 0))"
proof -
  let ?dm = "dep_map_init\<lparr>Dependents := (\<lambda>_. [])(TypeN 0 := [DeclN 1, DeclN 2]),
         UD := user_data_clear\<lparr>UserDecls := [2]\<rparr>\<rparr>"
  have users: "in_user_data (UD ?dm) x \<longleftrightarrow> x = DeclN 2" for x
    by (cases x) (auto simp: user_data_clear_def)
  have vis: "visitable sample_store (DeclN 2)"
    by (simp add: visitable_def in_decl_def sample_store_def sample_decl_def sample_var_def)
  have len: "length (Decls sample_store) = 3" by (simp add: sample_store_def)
  have "\<exists>dm'. removeUsers sample_store ?dm = Some dm' \<and> \<not> RemoveDependencies dm' \<and>
    (\<forall>x m. x \<in> set (Dependents dm' m) \<longleftrightarrow> x \<in> set (Dependents ?dm m) \<and> \<not> in_user_data (UD ?dm) x) \<and>
    Visited dm' = Visited ?dm - {n. in_user_data (UD ?dm) n}"
    by (intro removeUsers_clears)
      (auto simp: users distinct_users_def user_nodes_def dep_map_init_def user_data_clear_def valid_node_def
        vis len node_children_def sample_children split: if_splits)
  then show ?thesis unfolding users by auto
qed

end
