(* ===== verification/Demangler.thy ===== *)
theory Demangler
  imports Prelude
begin

text \<open>
  The demangler for C++ names: \<^verbatim>\<open>tools/zapccs/DemangleGoogle.cpp\<close>, a recursive descent parser with
  backtracking. A parsing function takes the state and returns whether it succeeded and the new
  state. The parser writes to a buffer through a pointer and reads names back from it; an access
  outside the buffer, and a cursor outside the mangled name, is a fault. The functions that call
  each other are definitions over the call of a nonterminal, and \<open>parse\<close> ties the knot with fuel,
  the depth of the recursion. The loops over a parsing function are nonterminals of their own.
\<close>

subsection \<open>Tables\<close>

definition kOperatorList :: "(string \<times> string) list" where
  "kOperatorList =
     [(''nw'', ''new''), (''na'', ''new[]''), (''dl'', ''delete''), (''da'', ''delete[]''),
      (''ps'', ''+''), (''ng'', ''-''), (''ad'', ''&''), (''de'', ''*''),
      (''co'', ''~''), (''pl'', ''+''), (''mi'', ''-''), (''ml'', ''*''),
      (''dv'', ''/''), (''rm'', ''%''), (''an'', ''&''), (''or'', ''|''),
      (''eo'', ''^''), (''aS'', ''=''), (''pL'', ''+=''), (''mI'', ''-=''),
      (''mL'', ''*=''), (''dV'', ''/=''), (''rM'', ''%=''), (''aN'', ''&=''),
      (''oR'', ''|=''), (''eO'', ''^=''), (''ls'', ''<<''), (''rs'', ''>>''),
      (''lS'', ''<<=''), (''rS'', ''>>=''), (''eq'', ''==''), (''ne'', ''!=''),
      (''lt'', ''<''), (''gt'', ''>''), (''le'', ''<=''), (''ge'', ''>=''),
      (''nt'', ''!''), (''aa'', ''&&''), (''oo'', ''||''), (''pp'', ''++''),
      (''mm'', ''--''), (''cm'', '',''), (''pm'', ''->*''), (''pt'', ''->''),
      (''cl'', ''()''), (''ix'', ''[]''), (''qu'', ''?''), (''st'', ''sizeof''),
      (''sz'', ''sizeof'')]"

definition kBuiltinTypeList :: "(char \<times> string) list" where
  "kBuiltinTypeList =
     [(CHR ''v'', ''void''), (CHR ''w'', ''wchar_t''), (CHR ''b'', ''bool''), (CHR ''c'', ''char''),
      (CHR ''a'', ''signed char''), (CHR ''h'', ''unsigned char''), (CHR ''s'', ''short''),
      (CHR ''t'', ''unsigned short''), (CHR ''i'', ''int''), (CHR ''j'', ''unsigned int''),
      (CHR ''l'', ''long''), (CHR ''m'', ''unsigned long''), (CHR ''x'', ''long long''),
      (CHR ''y'', ''unsigned long long''), (CHR ''n'', ''__int128''), (CHR ''o'', ''unsigned __int128''),
      (CHR ''f'', ''float''), (CHR ''d'', ''double''), (CHR ''e'', ''long double''),
      (CHR ''g'', ''__float128''), (CHR ''z'', ''ellipsis'')]"

definition kSubstitutionList :: "(char \<times> string) list" where
  "kSubstitutionList =
     [(CHR ''t'', ''''), (CHR ''a'', ''allocator''), (CHR ''b'', ''basic_string''),
      (CHR ''s'', ''string''), (CHR ''i'', ''istream''), (CHR ''o'', ''ostream''),
      (CHR ''d'', ''iostream'')]"

subsection \<open>The state\<close>

text \<open>
  The mangled name without its terminating null character and the output buffer, with the
  positions of the two cursors; \<open>prev_name\<close> is a position in the buffer.
\<close>

record demangle_state =
  mangled :: string
  mangled_cur :: nat
  out :: string
  out_cur :: nat
  prev_name :: "nat option"
  prev_name_length :: int
  nest_level :: "16 word"
  appending :: bool
  overflowed :: bool

datatype fault = InputMissed | WriteOutside | ReadOutside

datatype 'a outcome = Ran 'a | Fault fault | NoFuel

fun then_run :: "'a outcome \<Rightarrow> ('a \<Rightarrow> 'b outcome) \<Rightarrow> 'b outcome" where
  "then_run (Ran x) f = f x"
| "then_run (Fault e) f = Fault e"
| "then_run NoFuel f = NoFuel"

type_synonym parser = "demangle_state \<Rightarrow> (bool \<times> demangle_state) outcome"

definition InitState :: "string \<Rightarrow> string \<Rightarrow> demangle_state" where
  "InitState m buf = \<lparr>mangled = m, mangled_cur = 0, out = buf, out_cur = 0, prev_name = None,
     prev_name_length = - 1, nest_level = - 1, appending = True, overflowed = False\<rparr>"

text \<open>The character at an offset from the cursor; behind the name is its null character.\<close>

definition peek :: "demangle_state \<Rightarrow> nat \<Rightarrow> char" where
  "peek s i = (let j = mangled_cur s + i in if j < length (mangled s) then mangled s ! j else CHR 0x00)"

text \<open>The rest of the name, up to a null character.\<close>

definition rest :: "demangle_state \<Rightarrow> string" where
  "rest s = takeWhile (\<lambda>c. c \<noteq> CHR 0x00) (drop (mangled_cur s) (mangled s))"

definition advance :: "nat \<Rightarrow> demangle_state \<Rightarrow> demangle_state" where
  "advance n s = s\<lparr>mangled_cur := mangled_cur s + n\<rparr>"

text \<open>Assigning a saved state leaves the buffer, which is not part of the struct, as it is.\<close>

definition restore :: "demangle_state \<Rightarrow> demangle_state \<Rightarrow> demangle_state" where
  "restore copy s = copy\<lparr>out := out s\<rparr>"

subsection \<open>Sequence and choice\<close>

text \<open>
  \<open>p && q\<close>; \<open>p || q\<close>; and the form in which a failed alternative assigns the saved state before
  the next one is tried.
\<close>

definition and_then :: "parser \<Rightarrow> parser \<Rightarrow> parser" where
  "and_then p q s = then_run (p s) (\<lambda>(b, s'). if b then q s' else Ran (False, s'))"

definition or_else :: "parser \<Rightarrow> parser \<Rightarrow> parser" where
  "or_else p q s = then_run (p s) (\<lambda>(b, s'). if b then Ran (True, s') else q s')"

definition or_restore :: "demangle_state \<Rightarrow> parser \<Rightarrow> parser \<Rightarrow> parser" where
  "or_restore copy p q s =
     then_run (p s) (\<lambda>(b, s'). if b then Ran (True, s') else q (restore copy s'))"

definition failing :: parser where
  "failing s = Ran (False, s)"

definition effect :: "(demangle_state \<Rightarrow> demangle_state outcome) \<Rightarrow> parser" where
  "effect f s = then_run (f s) (\<lambda>s'. Ran (True, s'))"

definition Optional :: "parser \<Rightarrow> parser" where
  "Optional p s = then_run (p s) (\<lambda>(b, s'). Ran (True, s'))"

text \<open>The loops: \<open>again\<close> is the call of the nonterminal that stands for the rest of the loop.\<close>

definition ZeroOrMore :: "parser \<Rightarrow> parser \<Rightarrow> parser" where
  "ZeroOrMore p again s = then_run (p s) (\<lambda>(b, s'). if b then again s' else Ran (True, s'))"

definition OneOrMore :: "parser \<Rightarrow> parser \<Rightarrow> parser" where
  "OneOrMore p again = and_then p again"

subsection \<open>Tokens\<close>

definition ParseOneCharToken :: "char \<Rightarrow> parser" where
  "ParseOneCharToken c s = Ran (if peek s 0 = c then (True, advance 1 s) else (False, s))"

definition ParseTwoCharToken :: "string \<Rightarrow> parser" where
  "ParseTwoCharToken t s =
     Ran (if peek s 0 = t ! 0 \<and> peek s 1 = t ! 1 then (True, advance 2 s) else (False, s))"

definition ParseCharClass :: "string \<Rightarrow> parser" where
  "ParseCharClass cs s = Ran (if peek s 0 \<in> set cs then (True, advance 1 s) else (False, s))"

definition AtLeastNumCharsRemaining :: "demangle_state \<Rightarrow> int \<Rightarrow> bool" where
  "AtLeastNumCharsRemaining s n \<longleftrightarrow> n \<le> int (length (rest s))"

definition IsLower :: "char \<Rightarrow> bool" where
  "IsLower c \<longleftrightarrow> c \<ge> CHR ''a'' \<and> c \<le> CHR ''z''"

definition IsAlpha :: "char \<Rightarrow> bool" where
  "IsAlpha c \<longleftrightarrow> (c \<ge> CHR ''a'' \<and> c \<le> CHR ''z'') \<or> (c \<ge> CHR ''A'' \<and> c \<le> CHR ''Z'')"

definition IsDigit :: "char \<Rightarrow> bool" where
  "IsDigit c \<longleftrightarrow> c \<ge> CHR ''0'' \<and> c \<le> CHR ''9''"

text \<open>
  A clone suffix: any number of \<open>.<alpha>+.<digit>+\<close>.
\<close>

function IsFunctionCloneSuffix :: "string \<Rightarrow> bool" where
  "IsFunctionCloneSuffix str =
     (case str of
        [] \<Rightarrow> True
      | [c] \<Rightarrow> False
      | c # d # str1 \<Rightarrow>
          if c \<noteq> CHR ''.'' \<or> \<not> IsAlpha d then False
          else (case dropWhile IsAlpha str1 of
                  c # d # str2 \<Rightarrow>
                    if c \<noteq> CHR ''.'' \<or> \<not> IsDigit d then False
                    else IsFunctionCloneSuffix (dropWhile IsDigit str2)
                | _ \<Rightarrow> False))"
  by pat_completeness auto

termination
proof (relation "measure length", goal_cases)
  case (2 str c str0 d str1 c' str0' d' str2)
  have "length (dropWhile IsAlpha str1) \<le> length str1" "length (dropWhile IsDigit str2) \<le> length str2"
    by (rule length_dropWhile_le)+
  with 2 show ?case by simp
qed simp

declare IsFunctionCloneSuffix.simps [simp del]

subsection \<open>Output\<close>

text \<open>What is appended: a text, or characters of the buffer itself.\<close>

datatype source = Text string | OutAt nat

definition src_char :: "source \<Rightarrow> nat \<Rightarrow> demangle_state \<Rightarrow> char outcome" where
  "src_char src i s =
     (case src of
        Text t \<Rightarrow> if i < length t then Ran (t ! i) else Fault ReadOutside
      | OutAt p \<Rightarrow> if p + i < length (out s) then Ran (out s ! (p + i)) else Fault ReadOutside)"

definition write_out :: "nat \<Rightarrow> char \<Rightarrow> demangle_state \<Rightarrow> demangle_state outcome" where
  "write_out i c s = (if i < length (out s) then Ran (s\<lparr>out := (out s)[i := c]\<rparr>) else Fault WriteOutside)"

fun append_loop :: "nat \<Rightarrow> nat \<Rightarrow> source \<Rightarrow> demangle_state \<Rightarrow> demangle_state outcome" where
  "append_loop 0 i src s = Ran s"
| "append_loop (Suc k) i src s =
     (if out_cur s + 1 < length (out s) then
        then_run (src_char src i s) (\<lambda>c.
        then_run (write_out (out_cur s) c s) (\<lambda>s'.
          append_loop k (Suc i) src (s'\<lparr>out_cur := out_cur s' + 1\<rparr>)))
      else Ran (s\<lparr>overflowed := True\<rparr>))"

definition Append :: "source \<Rightarrow> int \<Rightarrow> demangle_state \<Rightarrow> demangle_state outcome" where
  "Append src n s =
     then_run (append_loop (nat n) 0 src s) (\<lambda>s'.
       if overflowed s' then Ran s' else write_out (out_cur s') (CHR 0x00) s')"

definition separate_lt :: "source \<Rightarrow> demangle_state \<Rightarrow> demangle_state outcome" where
  "separate_lt src s =
     then_run (src_char src 0 s) (\<lambda>c.
       if c = CHR ''<'' \<and> 0 < out_cur s
       then then_run (src_char (OutAt (out_cur s - 1)) 0 s) (\<lambda>d.
              if d = CHR ''<'' then Append (Text '' '') 1 s else Ran s)
       else Ran s)"

definition remember_name :: "source \<Rightarrow> int \<Rightarrow> demangle_state \<Rightarrow> demangle_state outcome" where
  "remember_name src n s =
     then_run (src_char src 0 s) (\<lambda>c.
       Ran (if IsAlpha c \<or> c = CHR ''_'' then s\<lparr>prev_name := Some (out_cur s), prev_name_length := n\<rparr>
            else s))"

definition MaybeAppendWithLength :: "source \<Rightarrow> int \<Rightarrow> demangle_state \<Rightarrow> demangle_state outcome" where
  "MaybeAppendWithLength src n s =
     (if appending s \<and> n > 0
      then then_run (separate_lt src s) (\<lambda>s. then_run (remember_name src n s) (Append src n))
      else Ran s)"

definition MaybeAppend :: "string \<Rightarrow> demangle_state \<Rightarrow> demangle_state outcome" where
  "MaybeAppend str s =
     (if appending s then MaybeAppendWithLength (Text str) (int (length str)) s else Ran s)"

definition EnterNestedName :: "demangle_state \<Rightarrow> demangle_state outcome" where
  "EnterNestedName s = Ran (s\<lparr>nest_level := 0\<rparr>)"

definition LeaveNestedName :: "16 word \<Rightarrow> demangle_state \<Rightarrow> demangle_state outcome" where
  "LeaveNestedName prev s = Ran (s\<lparr>nest_level := prev\<rparr>)"

definition DisableAppend :: "demangle_state \<Rightarrow> demangle_state outcome" where
  "DisableAppend s = Ran (s\<lparr>appending := False\<rparr>)"

definition RestoreAppend :: "bool \<Rightarrow> demangle_state \<Rightarrow> demangle_state outcome" where
  "RestoreAppend prev s = Ran (s\<lparr>appending := prev\<rparr>)"

definition MaybeIncreaseNestLevel :: "demangle_state \<Rightarrow> demangle_state" where
  "MaybeIncreaseNestLevel s = (if sint (nest_level s) > - 1 then s\<lparr>nest_level := nest_level s + 1\<rparr> else s)"

definition MaybeAppendSeparator :: "demangle_state \<Rightarrow> demangle_state outcome" where
  "MaybeAppendSeparator s = (if sint (nest_level s) \<ge> 1 then MaybeAppend ''::'' s else Ran s)"

definition MaybeCancelLastSeparator :: "demangle_state \<Rightarrow> demangle_state outcome" where
  "MaybeCancelLastSeparator s =
     (if sint (nest_level s) \<ge> 1 \<and> appending s \<and> 2 \<le> out_cur s
      then write_out (out_cur s - 2) (CHR 0x00) (s\<lparr>out_cur := out_cur s - 2\<rparr>) else Ran s)"

definition IdentifierIsAnonymousNamespace :: "demangle_state \<Rightarrow> int \<Rightarrow> bool" where
  "IdentifierIsAnonymousNamespace s n \<longleftrightarrow> n > 11 \<and> prefix ''_GLOBAL__N_'' (rest s)"

subsection \<open>Parsing functions that call no other nonterminal\<close>

text \<open>
  A number in a signed 32-bit integer; its overflow is undefined behaviour in the code, and wraps
  here. A minus sign is consumed even when no digit follows.
\<close>

definition number_value :: "string \<Rightarrow> 32 word" where
  "number_value ds = foldl (\<lambda>n c. n * 10 + word_of_nat (of_char c - of_char (CHR ''0''))) 0 ds"

definition scan_number :: "demangle_state \<Rightarrow> int option \<times> demangle_state" where
  "scan_number s =
     (let negative = (peek s 0 = CHR ''n'');
          s1 = (if negative then advance 1 s else s);
          ds = takeWhile IsDigit (rest s1);
          number = number_value ds
      in if ds = [] then (None, s1)
         else (Some (sint (if negative then - number else number)), advance (length ds) s1))"

definition ParseNumber :: parser where
  "ParseNumber s = (case scan_number s of (n, s') \<Rightarrow> Ran (n \<noteq> None, s'))"

definition ParseWhile :: "(char \<Rightarrow> bool) \<Rightarrow> parser" where
  "ParseWhile ok s =
     (let n = length (takeWhile ok (rest s)) in Ran (if n \<noteq> 0 then (True, advance n s) else (False, s)))"

definition ParseFloatNumber :: parser where
  "ParseFloatNumber = ParseWhile (\<lambda>c. IsDigit c \<or> CHR ''a'' \<le> c \<and> c \<le> CHR ''f'')"

definition ParseSeqId :: parser where
  "ParseSeqId = ParseWhile (\<lambda>c. IsDigit c \<or> CHR ''A'' \<le> c \<and> c \<le> CHR ''Z'')"

text \<open>The length may be negative, and then the cursor moves back.\<close>

definition move_cur :: "int \<Rightarrow> parser" where
  "move_cur n s =
     (let c = int (mangled_cur s) + n
      in if 0 \<le> c \<and> c \<le> int (length (mangled s)) then Ran (True, s\<lparr>mangled_cur := nat c\<rparr>)
         else Fault InputMissed)"

definition ParseIdentifier :: "int \<Rightarrow> parser" where
  "ParseIdentifier n s =
     (if n = - 1 \<or> \<not> AtLeastNumCharsRemaining s n then Ran (False, s)
      else then_run
             (if IdentifierIsAnonymousNamespace s n then MaybeAppend ''(anonymous namespace)'' s
              else MaybeAppendWithLength (Text (rest s)) n s)
             (move_cur n))"

definition ParseSourceName :: parser where
  "ParseSourceName s =
     or_restore s
       (\<lambda>s. case scan_number s of
              (None, s') \<Rightarrow> Ran (False, s')
            | (Some n, s') \<Rightarrow> ParseIdentifier n s')
       failing s"

definition ParseDiscriminator :: parser where
  "ParseDiscriminator s =
     or_restore s (and_then (ParseOneCharToken (CHR ''_'')) ParseNumber) failing s"

definition ParseLocalSourceName :: parser where
  "ParseLocalSourceName s =
     or_restore s
       (and_then (ParseOneCharToken (CHR ''L'')) (and_then ParseSourceName (Optional ParseDiscriminator)))
       failing s"

definition ParseNVOffset :: parser where
  "ParseNVOffset = ParseNumber"

definition ParseVOffset :: parser where
  "ParseVOffset s =
     or_restore s
       (and_then ParseNumber (and_then (ParseOneCharToken (CHR ''_'')) ParseNumber))
       failing s"

definition ParseCallOffset :: parser where
  "ParseCallOffset s =
     or_restore s
       (and_then (ParseOneCharToken (CHR ''h'')) (and_then ParseNVOffset (ParseOneCharToken (CHR ''_''))))
       (or_restore s
         (and_then (ParseOneCharToken (CHR ''v'')) (and_then ParseVOffset (ParseOneCharToken (CHR ''_''))))
         failing) s"

text \<open>The name read back is the one that was appended last; there may be none, with the length -1.\<close>

definition append_prev_name :: "demangle_state \<Rightarrow> demangle_state outcome" where
  "append_prev_name s =
     MaybeAppendWithLength (case prev_name s of None \<Rightarrow> Text '''' | Some p \<Rightarrow> OutAt p) (prev_name_length s) s"

text \<open>The name to append after a tilde is read from the state before it.\<close>

definition append_destructor :: "demangle_state \<Rightarrow> demangle_state outcome" where
  "append_destructor s =
     then_run (MaybeAppend ''~'' s) (\<lambda>s'.
       MaybeAppendWithLength (case prev_name s of None \<Rightarrow> Text '''' | Some p \<Rightarrow> OutAt p)
         (prev_name_length s) s')"

definition ParseCtorDtorName :: parser where
  "ParseCtorDtorName s =
     or_restore s
       (and_then (and_then (ParseOneCharToken (CHR ''C'')) (ParseCharClass ''123'')) (effect append_prev_name))
       (or_restore s
         (and_then (and_then (ParseOneCharToken (CHR ''D'')) (ParseCharClass ''012'')) (effect append_destructor))
         failing) s"

definition ParseCVQualifiers :: parser where
  "ParseCVQualifiers s =
     then_run (ParseOneCharToken (CHR ''r'') s) (\<lambda>(r, s).
     then_run (ParseOneCharToken (CHR ''V'') s) (\<lambda>(v, s).
     then_run (ParseOneCharToken (CHR ''K'') s) (\<lambda>(k, s).
       Ran (r \<or> v \<or> k, s))))"

definition builtin_name :: parser where
  "builtin_name s =
     (case map_of kBuiltinTypeList (peek s 0) of
        None \<Rightarrow> Ran (False, s)
      | Some real_name \<Rightarrow> then_run (MaybeAppend real_name s) (\<lambda>s. Ran (True, advance 1 s)))"

definition ParseBuiltinType :: parser where
  "ParseBuiltinType s =
     or_else builtin_name
       (\<lambda>s. or_restore s (and_then (ParseOneCharToken (CHR ''u'')) ParseSourceName) failing s) s"

definition ParseTemplateParam :: parser where
  "ParseTemplateParam s =
     or_else (and_then (ParseTwoCharToken ''T_'') (effect (MaybeAppend ''?'')))
       (or_restore s
         (and_then (ParseOneCharToken (CHR ''T''))
           (and_then ParseNumber
             (and_then (ParseOneCharToken (CHR ''_'')) (effect (MaybeAppend ''?'')))))
         failing) s"

definition abbreviated_name :: parser where
  "abbreviated_name s =
     (case map_of kSubstitutionList (peek s 0) of
        None \<Rightarrow> Ran (False, s)
      | Some real_name \<Rightarrow>
          then_run (MaybeAppend ''std'' s) (\<lambda>s.
          then_run (if real_name \<noteq> '''' then then_run (MaybeAppend ''::'' s) (MaybeAppend real_name) else Ran s)
            (\<lambda>s. Ran (True, advance 1 s))))"

definition ParseSubstitution :: parser where
  "ParseSubstitution s =
     or_else (and_then (ParseTwoCharToken ''S_'') (effect (MaybeAppend ''?'')))
       (or_restore s
         (and_then (ParseOneCharToken (CHR ''S''))
           (and_then ParseSeqId
             (and_then (ParseOneCharToken (CHR ''_'')) (effect (MaybeAppend ''?'')))))
         (or_restore s (and_then (ParseOneCharToken (CHR ''S'')) abbreviated_name) failing)) s"

definition ParseTemplateTemplateParam :: parser where
  "ParseTemplateTemplateParam = or_else ParseTemplateParam ParseSubstitution"

definition listed_operator :: parser where
  "listed_operator s =
     (if \<not> (IsLower (peek s 0) \<and> IsAlpha (peek s 1)) then Ran (False, s)
      else (case map_of kOperatorList [peek s 0, peek s 1] of
              None \<Rightarrow> Ran (False, s)
            | Some real_name \<Rightarrow>
                then_run (MaybeAppend ''operator'' s) (\<lambda>s.
                then_run (if IsLower (hd real_name) then MaybeAppend '' '' s else Ran s) (\<lambda>s.
                then_run (MaybeAppend real_name s) (\<lambda>s. Ran (True, advance 2 s))))))"

subsection \<open>The nonterminals\<close>

text \<open>
  \<open>Prefix h\<close> is the loop of \<^verbatim>\<open>ParsePrefix\<close> with the flag \<^verbatim>\<open>has_something\<close>; \<open>MoreTypes\<close> and
  \<open>MoreTemplateArgs\<close> are the loops over types and template arguments.
\<close>

datatype nonterm =
    MangledName | Encoding | Name | UnscopedName | UnscopedTemplateName | NestedName | Prefix bool
  | UnqualifiedName | OperatorName | SpecialName | Typ | FunctionType | BareFunctionType
  | ClassEnumType | ArrayType | PointerToMemberType | TemplateArgs | TemplateArg | Expression
  | ExprPrimary | LocalName | MoreTypes | MoreTemplateArgs

definition ParseMangledName :: "(nonterm \<Rightarrow> parser) \<Rightarrow> parser" where
  "ParseMangledName call = and_then (ParseTwoCharToken ''_Z'') (call Encoding)"

definition ParseEncoding :: "(nonterm \<Rightarrow> parser) \<Rightarrow> parser" where
  "ParseEncoding call s =
     or_restore s (and_then (call Name) (call BareFunctionType)) (or_else (call Name) (call SpecialName)) s"

definition ParseName :: "(nonterm \<Rightarrow> parser) \<Rightarrow> parser" where
  "ParseName call =
     or_else (or_else (call NestedName) (call LocalName))
       (\<lambda>s. or_restore s (and_then (call UnscopedTemplateName) (call TemplateArgs)) (call UnscopedName) s)"

definition ParseUnscopedName :: "(nonterm \<Rightarrow> parser) \<Rightarrow> parser" where
  "ParseUnscopedName call =
     or_else (call UnqualifiedName)
       (\<lambda>s. or_restore s
          (and_then (ParseTwoCharToken ''St'') (and_then (effect (MaybeAppend ''std::'')) (call UnqualifiedName)))
          failing s)"

definition ParseUnscopedTemplateName :: "(nonterm \<Rightarrow> parser) \<Rightarrow> parser" where
  "ParseUnscopedTemplateName call = or_else (call UnscopedName) ParseSubstitution"

definition ParseNestedName :: "(nonterm \<Rightarrow> parser) \<Rightarrow> parser" where
  "ParseNestedName call s =
     or_restore s
       (and_then (ParseOneCharToken (CHR ''N''))
         (and_then (effect EnterNestedName)
           (and_then (Optional ParseCVQualifiers)
             (and_then (call (Prefix False))
               (and_then (effect (LeaveNestedName (nest_level s))) (ParseOneCharToken (CHR ''E'')))))))
       failing s"

definition ParsePrefix :: "(nonterm \<Rightarrow> parser) \<Rightarrow> bool \<Rightarrow> parser" where
  "ParsePrefix call has_something s =
     then_run (MaybeAppendSeparator s) (\<lambda>s.
     then_run (or_else (or_else ParseTemplateParam ParseSubstitution) (call UnscopedName) s) (\<lambda>(b, s).
       if b then call (Prefix True) (MaybeIncreaseNestLevel s)
       else then_run (MaybeCancelLastSeparator s) (\<lambda>s.
              if has_something
              then then_run (call TemplateArgs s) (\<lambda>(b, s).
                     if b then call (Prefix False) s else Ran (True, s))
              else Ran (True, s))))"

definition ParseUnqualifiedName :: "(nonterm \<Rightarrow> parser) \<Rightarrow> parser" where
  "ParseUnqualifiedName call =
     or_else (or_else (or_else (call OperatorName) ParseCtorDtorName) ParseSourceName) ParseLocalSourceName"

definition ParseOperatorName :: "(nonterm \<Rightarrow> parser) \<Rightarrow> parser" where
  "ParseOperatorName call s =
     (if \<not> AtLeastNumCharsRemaining s 2 then Ran (False, s)
      else or_restore s
        (and_then (ParseTwoCharToken ''cv'')
          (and_then (effect (MaybeAppend ''operator ''))
            (and_then (effect EnterNestedName)
              (and_then (call Typ) (effect (LeaveNestedName (nest_level s)))))))
        (or_restore s
          (and_then (ParseOneCharToken (CHR ''v'')) (and_then (ParseCharClass ''0123456789'') ParseSourceName))
          listed_operator) s)"

definition ParseSpecialName :: "(nonterm \<Rightarrow> parser) \<Rightarrow> parser" where
  "ParseSpecialName call s =
     or_restore s
       (and_then (ParseOneCharToken (CHR ''T'')) (and_then (ParseCharClass ''VTIS'') (call Typ)))
    (or_restore s
       (and_then (ParseTwoCharToken ''Tc'') (and_then ParseCallOffset (and_then ParseCallOffset (call Encoding))))
    (or_restore s
       (and_then (ParseTwoCharToken ''GV'') (call Name))
    (or_restore s
       (and_then (ParseOneCharToken (CHR ''T'')) (and_then ParseCallOffset (call Encoding)))
    (or_restore s
       (and_then (ParseTwoCharToken ''TC'') (and_then (call Typ) (and_then ParseNumber
         (and_then (ParseOneCharToken (CHR ''_'')) (and_then (effect DisableAppend)
           (and_then (call Typ) (effect (RestoreAppend (appending s)))))))))
    (or_restore s
       (and_then (ParseOneCharToken (CHR ''T'')) (and_then (ParseCharClass ''FJ'') (call Typ)))
    (or_restore s
       (and_then (ParseTwoCharToken ''GR'') (call Name))
    (or_restore s
       (and_then (ParseTwoCharToken ''GA'') (call Encoding))
    (or_restore s
       (and_then (ParseOneCharToken (CHR ''T'')) (and_then (ParseCharClass ''hv'')
         (and_then ParseCallOffset (call Encoding))))
     failing)))))))) s"

definition ParseType :: "(nonterm \<Rightarrow> parser) \<Rightarrow> parser" where
  "ParseType call s =
     or_restore s (and_then ParseCVQualifiers (call Typ))
    (or_restore s (and_then (ParseCharClass ''OPRCG'') (call Typ))
    (or_restore s (and_then (ParseTwoCharToken ''Dp'') (call Typ))
    (or_restore s
       (and_then (ParseOneCharToken (CHR ''D'')) (and_then (ParseCharClass ''tT'')
         (and_then (call Expression) (ParseOneCharToken (CHR ''E'')))))
    (or_restore s
       (and_then (ParseOneCharToken (CHR ''U'')) (and_then ParseSourceName (call Typ)))
    (or_else (or_else (or_else (or_else (or_else (or_else
         ParseBuiltinType (call FunctionType)) (call ClassEnumType)) (call ArrayType))
         (call PointerToMemberType)) ParseSubstitution)
    (or_restore s (and_then ParseTemplateTemplateParam (call TemplateArgs))
     ParseTemplateParam)))))) s"

definition ParseFunctionType :: "(nonterm \<Rightarrow> parser) \<Rightarrow> parser" where
  "ParseFunctionType call s =
     or_restore s
       (and_then (ParseOneCharToken (CHR ''F'')) (and_then (Optional (ParseOneCharToken (CHR ''Y'')))
         (and_then (call BareFunctionType) (ParseOneCharToken (CHR ''E'')))))
       failing s"

definition ParseBareFunctionType :: "(nonterm \<Rightarrow> parser) \<Rightarrow> parser" where
  "ParseBareFunctionType call s =
     or_restore s
       (and_then (effect DisableAppend) (and_then (OneOrMore (call Typ) (call MoreTypes))
         (and_then (effect (RestoreAppend (appending s))) (effect (MaybeAppend ''()'')))))
       failing s"

definition ParseClassEnumType :: "(nonterm \<Rightarrow> parser) \<Rightarrow> parser" where
  "ParseClassEnumType call = call Name"

definition ParseArrayType :: "(nonterm \<Rightarrow> parser) \<Rightarrow> parser" where
  "ParseArrayType call s =
     or_restore s
       (and_then (ParseOneCharToken (CHR ''A'')) (and_then ParseNumber
         (and_then (ParseOneCharToken (CHR ''_'')) (call Typ))))
    (or_restore s
       (and_then (ParseOneCharToken (CHR ''A'')) (and_then (Optional (call Expression))
         (and_then (ParseOneCharToken (CHR ''_'')) (call Typ))))
     failing) s"

definition ParsePointerToMemberType :: "(nonterm \<Rightarrow> parser) \<Rightarrow> parser" where
  "ParsePointerToMemberType call s =
     or_restore s (and_then (ParseOneCharToken (CHR ''M'')) (and_then (call Typ) (call Typ))) failing s"

definition ParseTemplateArgs :: "(nonterm \<Rightarrow> parser) \<Rightarrow> parser" where
  "ParseTemplateArgs call s =
     or_restore s
       (and_then (effect DisableAppend) (and_then (ParseOneCharToken (CHR ''I''))
         (and_then (OneOrMore (call TemplateArg) (call MoreTemplateArgs)) (and_then (ParseOneCharToken (CHR ''E''))
           (and_then (effect (RestoreAppend (appending s))) (effect (MaybeAppend ''<>'')))))))
       failing s"

definition ParseTemplateArg :: "(nonterm \<Rightarrow> parser) \<Rightarrow> parser" where
  "ParseTemplateArg call s =
     or_restore s
       (and_then (ParseOneCharToken (CHR ''I'')) (and_then (call MoreTemplateArgs) (ParseOneCharToken (CHR ''E''))))
    (or_restore s (or_else (call Typ) (call ExprPrimary))
    (or_restore s
       (and_then (ParseOneCharToken (CHR ''X'')) (and_then (call Expression) (ParseOneCharToken (CHR ''E''))))
     failing)) s"

definition ParseExpression :: "(nonterm \<Rightarrow> parser) \<Rightarrow> parser" where
  "ParseExpression call =
     or_else (or_else ParseTemplateParam (call ExprPrimary))
      (\<lambda>s. or_restore s
         (and_then (call OperatorName) (and_then (call Expression) (and_then (call Expression) (call Expression))))
      (or_restore s (and_then (call OperatorName) (and_then (call Expression) (call Expression)))
      (or_restore s (and_then (call OperatorName) (call Expression))
      (or_restore s (and_then (ParseTwoCharToken ''st'') (call Typ))
      (or_restore s
         (and_then (ParseTwoCharToken ''sr'') (and_then (call Typ)
           (and_then (call UnqualifiedName) (call TemplateArgs))))
      (or_restore s (and_then (ParseTwoCharToken ''sr'') (and_then (call Typ) (call UnqualifiedName)))
       failing))))) s)"

definition ParseExprPrimary :: "(nonterm \<Rightarrow> parser) \<Rightarrow> parser" where
  "ParseExprPrimary call s =
     or_restore s
       (and_then (ParseOneCharToken (CHR ''L'')) (and_then (call Typ) (and_then ParseNumber
         (ParseOneCharToken (CHR ''E'')))))
    (or_restore s
       (and_then (ParseOneCharToken (CHR ''L'')) (and_then (call Typ) (and_then ParseFloatNumber
         (ParseOneCharToken (CHR ''E'')))))
    (or_restore s
       (and_then (ParseOneCharToken (CHR ''L'')) (and_then (call MangledName) (ParseOneCharToken (CHR ''E''))))
    (or_restore s
       (and_then (ParseTwoCharToken ''LZ'') (and_then (call Encoding) (ParseOneCharToken (CHR ''E''))))
     failing))) s"

definition ParseLocalName :: "(nonterm \<Rightarrow> parser) \<Rightarrow> parser" where
  "ParseLocalName call s =
     or_restore s
       (and_then (ParseOneCharToken (CHR ''Z'')) (and_then (call Encoding)
         (and_then (ParseOneCharToken (CHR ''E'')) (and_then (effect (MaybeAppend ''::''))
           (and_then (call Name) (Optional ParseDiscriminator))))))
    (or_restore s
       (and_then (ParseOneCharToken (CHR ''Z'')) (and_then (call Encoding)
         (and_then (ParseTwoCharToken ''Es'') (Optional ParseDiscriminator))))
     failing) s"

subsection \<open>Tying the knot\<close>

definition parse_body :: "(nonterm \<Rightarrow> parser) \<Rightarrow> nonterm \<Rightarrow> parser" where
  "parse_body call nt =
     (case nt of
        MangledName \<Rightarrow> ParseMangledName call
      | Encoding \<Rightarrow> ParseEncoding call
      | Name \<Rightarrow> ParseName call
      | UnscopedName \<Rightarrow> ParseUnscopedName call
      | UnscopedTemplateName \<Rightarrow> ParseUnscopedTemplateName call
      | NestedName \<Rightarrow> ParseNestedName call
      | Prefix h \<Rightarrow> ParsePrefix call h
      | UnqualifiedName \<Rightarrow> ParseUnqualifiedName call
      | OperatorName \<Rightarrow> ParseOperatorName call
      | SpecialName \<Rightarrow> ParseSpecialName call
      | Typ \<Rightarrow> ParseType call
      | FunctionType \<Rightarrow> ParseFunctionType call
      | BareFunctionType \<Rightarrow> ParseBareFunctionType call
      | ClassEnumType \<Rightarrow> ParseClassEnumType call
      | ArrayType \<Rightarrow> ParseArrayType call
      | PointerToMemberType \<Rightarrow> ParsePointerToMemberType call
      | TemplateArgs \<Rightarrow> ParseTemplateArgs call
      | TemplateArg \<Rightarrow> ParseTemplateArg call
      | Expression \<Rightarrow> ParseExpression call
      | ExprPrimary \<Rightarrow> ParseExprPrimary call
      | LocalName \<Rightarrow> ParseLocalName call
      | MoreTypes \<Rightarrow> ZeroOrMore (call Typ) (call MoreTypes)
      | MoreTemplateArgs \<Rightarrow> ZeroOrMore (call TemplateArg) (call MoreTemplateArgs))"

fun parse :: "nat \<Rightarrow> nonterm \<Rightarrow> parser" where
  "parse 0 nt s = NoFuel"
| "parse (Suc n) nt s = parse_body (parse n) nt s"

definition ParseTopLevelMangledName :: "(nonterm \<Rightarrow> parser) \<Rightarrow> parser" where
  "ParseTopLevelMangledName call s =
     then_run (call MangledName s) (\<lambda>(b, s).
       if \<not> b then Ran (False, s)
       else if peek s 0 = CHR 0x00 then Ran (True, s)
       else if IsFunctionCloneSuffix (rest s) then Ran (True, s)
       else if peek s 0 = CHR ''@'' then effect (MaybeAppend (rest s)) s
       else Ran (False, s))"

text \<open>
  The result and the buffer, with a bound for the depth of the recursion; and with a bound in the
  length of the name, enough for every name without a negative number.
\<close>

definition demangle_within :: "nat \<Rightarrow> string \<Rightarrow> string \<Rightarrow> (bool \<times> string) outcome" where
  "demangle_within n m buf =
     then_run (ParseTopLevelMangledName (parse n) (InitState m buf)) (\<lambda>(b, s).
       Ran (b \<and> \<not> overflowed s, out s))"

definition demangle_fuel :: "string \<Rightarrow> nat" where
  "demangle_fuel m = 10 * length m + 1"

definition Demangle :: "string \<Rightarrow> string \<Rightarrow> (bool \<times> string) outcome" where
  "Demangle m buf = demangle_within (demangle_fuel m) m buf"

end
