(* ===== verification/DemanglerSafe.thy ===== *)
theory DemanglerSafe
  imports Demangler
begin

text \<open>
  What the demangler never does: for names in which no number is negative or too big, it ends,
  keeps the cursor inside the name and never writes outside the buffer; only a name with a
  constructor or destructor can make it read outside the buffer. The names that are left out are
  those that the theory \<open>DemanglerFaults\<close> is about.
\<close>

subsection \<open>Names and states\<close>

text \<open>
  No minus sign before a digit, and no ten digits in a row. A constructor or destructor is the only
  thing that is read back from the buffer.
\<close>

definition plain_numbers :: "string \<Rightarrow> bool" where
  "plain_numbers m \<longleftrightarrow>
     list_all (\<lambda>i. (m ! i = CHR ''n'' \<longrightarrow> \<not> (Suc i < length m \<and> IsDigit (m ! Suc i))) \<and>
        length (takeWhile IsDigit (drop i m)) < 10) [0..<length m]"

lemma plain_numbersD:
  assumes "plain_numbers m" "i < length m"
  shows "m ! i = CHR ''n'' \<Longrightarrow> Suc i < length m \<Longrightarrow> \<not> IsDigit (m ! Suc i)"
    "length (takeWhile IsDigit (drop i m)) < 10"
  using assms by (simp_all add: plain_numbers_def list_all_iff)

definition names_ctor :: "string \<Rightarrow> bool" where
  "names_ctor m \<longleftrightarrow>
     list_ex (\<lambda>i. m ! i \<in> {CHR ''C'', CHR ''D''} \<and> Suc i < length m \<and> IsDigit (m ! Suc i)) [0..<length m]"

text \<open>
  The invariant: the name and the size of the buffer are as they were, and both cursors are inside.
\<close>

definition good :: "string \<Rightarrow> nat \<Rightarrow> demangle_state \<Rightarrow> bool" where
  "good m len s \<longleftrightarrow> mangled s = m \<and> length (out s) = len \<and> mangled_cur s \<le> length m \<and>
     (out_cur s < len \<or> out_cur s = 0 \<and> len = 0) \<and> (prev_name s = None \<longrightarrow> prev_name_length s \<le> 0)"

text \<open>
  Results. \<open>runs_to m len c d r\<close>: the run \<open>r\<close> ends in a good state with the cursor at \<open>c\<close> or later, and
  at \<open>d\<close> or later when it succeeds; or it faults by reading outside the buffer, which takes a
  constructor. \<open>eff m len c r\<close> is the same for an effect, which leaves the cursor where it is.
\<close>

definition runs_to :: "string \<Rightarrow> nat \<Rightarrow> nat \<Rightarrow> nat \<Rightarrow> (bool \<times> demangle_state) outcome \<Rightarrow> bool" where
  "runs_to m len c d r \<longleftrightarrow>
     (case r of
        Ran (b, s) \<Rightarrow> good m len s \<and> c \<le> mangled_cur s \<and> (b \<longrightarrow> d \<le> mangled_cur s)
      | Fault f \<Rightarrow> f = ReadOutside \<and> names_ctor m
      | NoFuel \<Rightarrow> False)"

definition eff :: "string \<Rightarrow> nat \<Rightarrow> nat \<Rightarrow> demangle_state outcome \<Rightarrow> bool" where
  "eff m len c r \<longleftrightarrow>
     (case r of
        Ran s \<Rightarrow> good m len s \<and> mangled_cur s = c
      | Fault f \<Rightarrow> f = ReadOutside \<and> names_ctor m
      | NoFuel \<Rightarrow> False)"

lemma runs_to_simps [simp]:
  "runs_to m len c d (Ran (b, s)) \<longleftrightarrow> good m len s \<and> c \<le> mangled_cur s \<and> (b \<longrightarrow> d \<le> mangled_cur s)"
  "runs_to m len c d (Fault f) \<longleftrightarrow> f = ReadOutside \<and> names_ctor m"
  "\<not> runs_to m len c d NoFuel"
  by (simp_all add: runs_to_def)

lemma eff_simps [simp]:
  "eff m len c (Ran s) \<longleftrightarrow> good m len s \<and> mangled_cur s = c"
  "eff m len c (Fault f) \<longleftrightarrow> f = ReadOutside \<and> names_ctor m"
  "\<not> eff m len c NoFuel"
  by (simp_all add: eff_def)

lemma then_run_assoc: "then_run (then_run r f) g = then_run r (\<lambda>x. then_run (f x) g)"
  by (cases r) auto

lemma eff_then_eff:
  assumes "eff m len c r" "\<And>s. good m len s \<Longrightarrow> mangled_cur s = c \<Longrightarrow> eff m len c (f s)"
  shows "eff m len c (then_run r f)"
  using assms by (cases r) auto

lemma eff_then_ran:
  assumes "eff m len k r" "\<And>s. good m len s \<Longrightarrow> mangled_cur s = k \<Longrightarrow> runs_to m len c d (f s)"
  shows "runs_to m len c d (then_run r f)"
  using assms by (cases r) auto

lemma ran_then_ran:
  assumes "runs_to m len k l r"
    "\<And>b s. good m len s \<Longrightarrow> k \<le> mangled_cur s \<Longrightarrow> (b \<Longrightarrow> l \<le> mangled_cur s) \<Longrightarrow> runs_to m len c d (f (b, s))"
  shows "runs_to m len c d (then_run r f)"
  using assms by (cases r) auto

lemma runs_to_mono: "runs_to m len c d r \<Longrightarrow> c' \<le> c \<Longrightarrow> d' \<le> d \<Longrightarrow> runs_to m len c' d' r"
  by (cases r) auto

subsection \<open>Output\<close>

text \<open>A source of at least \<open>n\<close> characters, or one that is read back.\<close>

definition source_ok :: "string \<Rightarrow> source \<Rightarrow> nat \<Rightarrow> bool" where
  "source_ok m src n \<longleftrightarrow> (case src of Text t \<Rightarrow> n \<le> length t | OutAt p \<Rightarrow> names_ctor m)"

lemma src_char_ok:
  assumes "source_ok m src n" "i < n"
  shows "(\<exists>c. src_char src i s = Ran c) \<or> src_char src i s = Fault ReadOutside \<and> names_ctor m"
  using assms by (auto simp: source_ok_def src_char_def split: source.splits)

lemma append_loop_ok:
  assumes "source_ok m src n"
  shows "i + k \<le> n \<Longrightarrow> good m len s \<Longrightarrow> eff m len (mangled_cur s) (append_loop k i src s)"
proof (induction k arbitrary: i s)
  case (Suc k)
  show ?case
  proof (cases "out_cur s + 1 < length (out s)")
    case True
    consider c where "src_char src i s = Ran c" | "src_char src i s = Fault ReadOutside" "names_ctor m"
      using src_char_ok[OF assms, of i s] Suc.prems(1) by auto
    then show ?thesis
    proof cases
      case 1
      let ?s = "s\<lparr>out := (out s)[out_cur s := c], out_cur := out_cur s + 1\<rparr>"
      have "good m len ?s" using Suc.prems(2) True by (auto simp: good_def)
      then show ?thesis using Suc.IH[of "Suc i" ?s] Suc.prems(1) 1 True by (simp add: write_out_def)
    qed (use True in simp)
  qed (use Suc.prems(2) in \<open>simp add: good_def\<close>)
qed simp

lemma Append_ok:
  assumes "source_ok m src (nat n)" "good m len s" "n > 0"
  shows "eff m len (mangled_cur s) (Append src n s)"
proof (cases "len = 0")
  case True
  then obtain k where "nat n = Suc k" using assms(3) by (cases "nat n") auto
  with True assms(2) show ?thesis by (simp add: Append_def good_def)
next
  case False
  show ?thesis
    unfolding Append_def
    by (rule eff_then_eff[OF append_loop_ok[OF assms(1) _ assms(2)]])
      (use False in \<open>auto simp: write_out_def good_def\<close>)
qed

lemma eff_step:
  assumes "eff m len (mangled_cur s) r"
    "\<And>s'. good m len s' \<Longrightarrow> mangled_cur s' = mangled_cur s \<Longrightarrow> eff m len (mangled_cur s') (f s')"
  shows "eff m len (mangled_cur s) (then_run r f)"
  using assms by (cases r) auto

lemma separate_lt_ok:
  assumes "source_ok m src n" "0 < n" "good m len s"
  shows "eff m len (mangled_cur s) (separate_lt src s)"
proof -
  have "out_cur s - 1 < length (out s)" if "0 < out_cur s" using that assms(3) by (auto simp: good_def)
  moreover have "eff m len (mangled_cur s) (Append (Text '' '') 1 s)"
    using assms(3) by (intro Append_ok) (simp_all add: source_ok_def)
  ultimately show ?thesis
    using src_char_ok[OF assms(1,2), of s] assms(3)
    by (auto simp: separate_lt_def src_char_def[of "OutAt _"])
qed

lemma remember_name_ok:
  assumes "source_ok m src n" "0 < n" "good m len s"
  shows "eff m len (mangled_cur s) (remember_name src k s)"
  using src_char_ok[OF assms(1,2), of s] assms(3) by (auto simp: remember_name_def good_def)

lemma MaybeAppendWithLength_ok:
  assumes "0 < n \<Longrightarrow> source_ok m src (nat n)" "good m len s"
  shows "eff m len (mangled_cur s) (MaybeAppendWithLength src n s)"
proof (cases "appending s \<and> 0 < n")
  case True
  then have src: "source_ok m src (nat n)" and n: "0 < nat n" using assms(1) by auto
  have "eff m len (mangled_cur s) (then_run (separate_lt src s) (\<lambda>s. then_run (remember_name src n s) (Append src n)))"
    using True by (intro eff_step separate_lt_ok[OF src n assms(2)] remember_name_ok[OF src n] Append_ok[OF src]) auto
  then show ?thesis by (simp add: MaybeAppendWithLength_def True)
qed (use assms(2) in \<open>auto simp: MaybeAppendWithLength_def\<close>)

lemma MaybeAppend_ok: "good m len s \<Longrightarrow> eff m len (mangled_cur s) (MaybeAppend t s)"
  by (auto simp: MaybeAppend_def source_ok_def intro!: MaybeAppendWithLength_ok)

lemma prev_name_ok:
  assumes "good m len s" "good m len s'" "names_ctor m"
  shows "eff m len (mangled_cur s')
    (MaybeAppendWithLength (case prev_name s of None \<Rightarrow> Text '''' | Some p \<Rightarrow> OutAt p) (prev_name_length s) s')"
  using assms by (intro MaybeAppendWithLength_ok) (auto simp: source_ok_def good_def split: option.split)

lemma nested_ok:
  assumes "good m len s"
  shows "eff m len (mangled_cur s) (EnterNestedName s)" "eff m len (mangled_cur s) (LeaveNestedName v s)"
    "eff m len (mangled_cur s) (DisableAppend s)" "eff m len (mangled_cur s) (RestoreAppend b s)"
    "eff m len (mangled_cur s) (MaybeAppendSeparator s)" "eff m len (mangled_cur s) (MaybeCancelLastSeparator s)"
    "good m len (MaybeIncreaseNestLevel s)" "mangled_cur (MaybeIncreaseNestLevel s) = mangled_cur s"
  using assms MaybeAppend_ok[OF assms]
  by (auto simp: EnterNestedName_def LeaveNestedName_def DisableAppend_def RestoreAppend_def
      MaybeAppendSeparator_def MaybeCancelLastSeparator_def MaybeIncreaseNestLevel_def write_out_def good_def)

lemma append_prev_ok:
  assumes "good m len s" "names_ctor m"
  shows "eff m len (mangled_cur s) (append_prev_name s)" "eff m len (mangled_cur s) (append_destructor s)"
  using assms unfolding append_prev_name_def append_destructor_def
  by (auto intro!: eff_step MaybeAppend_ok prev_name_ok)

subsection \<open>Tokens\<close>

lemma peek_in: "peek s i \<noteq> CHR 0x00 \<Longrightarrow> mangled_cur s + i < length (mangled s)"
  by (simp add: peek_def Let_def split: if_splits)

lemma rest_bound: "mangled_cur s \<le> length (mangled s) \<Longrightarrow> mangled_cur s + length (rest s) \<le> length (mangled s)"
  using length_takeWhile_le[of "\<lambda>c. c \<noteq> CHR 0x00" "drop (mangled_cur s) (mangled s)"] by (simp add: rest_def)

lemma good_advance: "good m len s \<Longrightarrow> mangled_cur s + n \<le> length m \<Longrightarrow> good m len (advance n s)"
  by (simp add: good_def advance_def)

lemma advance_cur [simp]: "mangled_cur (advance n s) = mangled_cur s + n"
  by (simp add: advance_def)

named_theorems par

text \<open>Every leaf consumes something when it succeeds, and never moves back.\<close>

lemma one_char_ok [par]:
  assumes "good m len s" "c \<le> mangled_cur s" "d \<le> Suc (mangled_cur s)" "t \<noteq> CHR 0x00"
  shows "runs_to m len c d (ParseOneCharToken t s)"
  using assms peek_in[of s 0] by (auto simp: ParseOneCharToken_def good_def advance_def)

lemma two_char_ok [par]:
  assumes "good m len s" "c \<le> mangled_cur s" "d \<le> Suc (mangled_cur s)" "t ! 1 \<noteq> CHR 0x00"
  shows "runs_to m len c d (ParseTwoCharToken t s)"
  using assms peek_in[of s 1] by (auto simp: ParseTwoCharToken_def good_def advance_def)

lemma char_class_ok [par]:
  assumes "good m len s" "c \<le> mangled_cur s" "d \<le> Suc (mangled_cur s)" "CHR 0x00 \<notin> set cs"
  shows "runs_to m len c d (ParseCharClass cs s)"
proof -
  have "peek s 0 \<noteq> CHR 0x00" if "peek s 0 \<in> set cs" using that assms(4) by metis
  then show ?thesis using assms peek_in[of s 0] by (auto simp: ParseCharClass_def good_def advance_def)
qed

lemma while_ok [par]:
  assumes "good m len s" "c \<le> mangled_cur s" "d \<le> Suc (mangled_cur s)"
  shows "runs_to m len c d (ParseWhile ok s)" "runs_to m len c d (ParseFloatNumber s)" "runs_to m len c d (ParseSeqId s)"
proof -
  show "runs_to m len c d (ParseWhile ok s)" for ok
  proof (cases "takeWhile ok (rest s)")
    case Nil
    then show ?thesis using assms by (simp add: ParseWhile_def)
  next
    case (Cons x xs)
    then show ?thesis
      using assms rest_bound[of s] length_takeWhile_le[of ok "rest s"]
      by (simp add: ParseWhile_def Let_def good_advance good_def advance_def)
  qed
  then show "runs_to m len c d (ParseFloatNumber s)" "runs_to m len c d (ParseSeqId s)"
    by (simp_all add: ParseFloatNumber_def ParseSeqId_def)
qed

lemma failing_ok [par]: "good m len s \<Longrightarrow> c \<le> mangled_cur s \<Longrightarrow> runs_to m len c d (failing s)"
  by (simp add: failing_def)

subsection \<open>Combinators\<close>

text \<open>
  In a sequence the first part that consumes something takes the cursor behind the start; what
  follows may then be any nonterminal.
\<close>

lemma and_then_consume:
  assumes "runs_to m len c (Suc (mangled_cur s)) (p s)"
    "\<And>s'. good m len s' \<Longrightarrow> Suc (mangled_cur s) \<le> mangled_cur s' \<Longrightarrow> c \<le> mangled_cur s' \<Longrightarrow> runs_to m len c d (q s')"
  shows "runs_to m len c d (and_then p q s)"
  unfolding and_then_def by (rule ran_then_ran[OF assms(1)]) (use assms(2) in \<open>auto split: if_split\<close>)

lemma and_then_eff:
  assumes "good m len s" "eff m len (mangled_cur s) (f s)"
    "\<And>s'. good m len s' \<Longrightarrow> mangled_cur s' = mangled_cur s \<Longrightarrow> runs_to m len c d (q s')"
  shows "runs_to m len c d (and_then (effect f) q s)"
  using assms(2,3) by (cases "f s") (auto simp: and_then_def effect_def)

lemma and_then_optional:
  assumes "good m len s" "runs_to m len (mangled_cur s) (mangled_cur s) (p s)"
    "\<And>s'. good m len s' \<Longrightarrow> mangled_cur s \<le> mangled_cur s' \<Longrightarrow> runs_to m len c d (q s')"
  shows "runs_to m len c d (and_then (Optional p) q s)"
  using assms(2,3) by (cases "p s") (auto simp: and_then_def Optional_def)

lemma effect_ok [par]:
  assumes "good m len s" "eff m len (mangled_cur s) (f s)" "c \<le> mangled_cur s" "d \<le> mangled_cur s"
  shows "runs_to m len c d (effect f s)"
  using assms by (cases "f s") (auto simp: effect_def)

lemma Optional_ok [par]:
  assumes "good m len s" "c \<le> mangled_cur s" "d \<le> mangled_cur s" "runs_to m len (mangled_cur s) (mangled_cur s) (p s)"
  shows "runs_to m len c d (Optional p s)"
  using assms(2-4) by (cases "p s") (auto simp: Optional_def)

lemma or_else_ok:
  assumes "runs_to m len (mangled_cur s) d (p s)" "c \<le> mangled_cur s"
    "\<And>s'. good m len s' \<Longrightarrow> mangled_cur s \<le> mangled_cur s' \<Longrightarrow> runs_to m len c d (q s')"
  shows "runs_to m len c d (or_else p q s)"
  unfolding or_else_def by (rule ran_then_ran[OF assms(1)]) (use assms(2,3) in \<open>auto split: if_split\<close>)

lemma good_restore:
  "good m len copy \<Longrightarrow> good m len s \<Longrightarrow> good m len (restore copy s)" "mangled_cur (restore copy s) = mangled_cur copy"
  by (simp_all add: good_def restore_def)

lemma or_restore_ok:
  assumes "good m len copy" "runs_to m len c d (p s)"
    "\<And>s'. good m len s' \<Longrightarrow> mangled_cur s' = mangled_cur copy \<Longrightarrow> runs_to m len c d (q s')"
  shows "runs_to m len c d (or_restore copy p q s)"
  unfolding or_restore_def
  by (rule ran_then_ran[OF assms(2)]) (use assms(1,3) good_restore in \<open>auto split: if_split\<close>)

subsection \<open>Numbers and identifiers\<close>

definition dec_value :: "string \<Rightarrow> nat" where
  "dec_value ds = foldl (\<lambda>n c. n * 10 + (of_char c - of_char (CHR ''0''))) 0 ds"

lemma dec_value_snoc: "dec_value (ds @ [c]) = dec_value ds * 10 + (of_char c - of_char (CHR ''0''))"
  by (simp add: dec_value_def)

lemma number_value_dec: "number_value ds = word_of_nat (dec_value ds)"
  by (induction ds rule: rev_induct) (simp_all add: number_value_def dec_value_def)

lemma IsDigit_value: "IsDigit c \<Longrightarrow> (of_char c :: nat) - of_char (CHR ''0'') < 10"
  by (auto simp: IsDigit_def less_eq_char_def)

lemma dec_value_bound: "list_all IsDigit ds \<Longrightarrow> dec_value ds < 10 ^ length ds"
proof (induction ds rule: rev_induct)
  case (snoc c ds)
  then show ?case using IsDigit_value[of c] by (simp add: dec_value_snoc)
qed (simp add: dec_value_def)

lemma number_value_sint:
  assumes "list_all IsDigit ds" "length ds < 10"
  shows "sint (number_value ds) = int (dec_value ds)"
proof -
  have "(10::nat) ^ length ds \<le> 10 ^ 9" using assms(2) by (intro power_increasing) simp_all
  then have "dec_value ds < 10 ^ 9" using dec_value_bound[OF assms(1)] by linarith
  then show ?thesis
    by (simp add: number_value_dec signed_of_nat signed_take_bit_int_eq_self)
qed

lemma takeWhile_rest: "length (takeWhile ok (rest s)) \<le> length (takeWhile ok (drop (mangled_cur s) (mangled s)))"
proof -
  have "length (takeWhile p (takeWhile q xs)) \<le> length (takeWhile p xs)" for p q :: "char \<Rightarrow> bool" and xs
    by (induction xs) auto
  then show ?thesis by (simp add: rest_def)
qed

lemma scan_number_cur:
  assumes "good m len s" "scan_number s = (n, s')"
  shows "good m len s'" "mangled_cur s \<le> mangled_cur s'" "n \<noteq> None \<Longrightarrow> Suc (mangled_cur s) \<le> mangled_cur s'"
proof -
  define s1 where "s1 = (if peek s 0 = CHR ''n'' then advance 1 s else s)"
  let ?ds = "takeWhile IsDigit (rest s1)"
  have s1: "good m len s1" "mangled_cur s \<le> mangled_cur s1"
    using assms(1) peek_in[of s 0] by (auto simp: s1_def good_def advance_def)
  then have "mangled_cur s1 + length ?ds \<le> length m"
    using rest_bound[of s1] length_takeWhile_le[of IsDigit "rest s1"] by (simp add: good_def)
  moreover have "s' = advance (length ?ds) s1" "n \<noteq> None \<longleftrightarrow> ?ds \<noteq> []"
    using assms(2) by (auto simp: scan_number_def Let_def s1_def advance_def split: if_splits)
  ultimately show "good m len s'" "mangled_cur s \<le> mangled_cur s'" "n \<noteq> None \<Longrightarrow> Suc (mangled_cur s) \<le> mangled_cur s'"
    using s1 good_advance[OF s1(1)] by (auto simp: Suc_le_eq intro: le_less_trans[OF s1(2)])
qed

lemma rest_Cons:
  assumes "rest s = c # cs"
  shows "peek s 0 = c" "mangled_cur s < length (mangled s)" "mangled s ! mangled_cur s = c"
proof -
  obtain xs where "drop (mangled_cur s) (mangled s) = c # xs"
    using assms by (cases "drop (mangled_cur s) (mangled s)") (auto simp: rest_def split: if_splits)
  then show lt: "mangled_cur s < length (mangled s)" and nth: "mangled s ! mangled_cur s = c"
    by (metis drop_eq_Nil2 linorder_not_le list.distinct(1))
      (metis \<open>drop (mangled_cur s) (mangled s) = c # xs\<close> hd_drop_conv_nth drop_eq_Nil2 linorder_not_le list.distinct(1) list.sel(1))
  show "peek s 0 = c" using lt nth by (simp add: peek_def)
qed

lemma scan_number_value:
  assumes "plain_numbers m" "good m len s" "scan_number s = (Some n, s')"
  shows "0 \<le> n"
proof -
  have m: "mangled s = m" using assms(2) by (simp add: good_def)
  have "peek s 0 \<noteq> CHR ''n''"
  proof
    assume n: "peek s 0 = CHR ''n''"
    then have "takeWhile IsDigit (rest (advance 1 s)) \<noteq> []"
      using assms(3) by (auto simp: scan_number_def Let_def split: if_splits)
    then obtain c cs where c: "rest (advance 1 s) = c # cs" "IsDigit c"
      by (cases "rest (advance 1 s)") (auto split: if_splits)
    then have "Suc (mangled_cur s) < length m" "m ! Suc (mangled_cur s) = c"
      using rest_Cons[OF c(1)] m by (simp_all add: advance_def)
    moreover have "m ! mangled_cur s = CHR ''n''" using n peek_in[of s 0] m by (simp add: peek_def)
    ultimately show False using plain_numbersD(1)[OF assms(1), of "mangled_cur s"] c(2) by simp
  qed
  then have n: "n = sint (number_value (takeWhile IsDigit (rest s)))"
    and ds: "takeWhile IsDigit (rest s) \<noteq> []"
    using assms(3) by (auto simp: scan_number_def Let_def split: if_splits)
  then have "mangled_cur s < length m" using rest_bound[of s] assms(2) by (cases "rest s") (auto simp: good_def)
  then have "length (takeWhile IsDigit (rest s)) < 10"
    using plain_numbersD(2)[OF assms(1), of "mangled_cur s"] takeWhile_rest[of IsDigit s] m by simp
  moreover have "list_all IsDigit (takeWhile IsDigit (rest s))"
    by (auto simp: list_all_iff dest: set_takeWhileD)
  ultimately show ?thesis using n number_value_sint by simp
qed

lemma ParseNumber_ok [par]:
  assumes "good m len s" "c \<le> mangled_cur s" "d \<le> Suc (mangled_cur s)"
  shows "runs_to m len c d (ParseNumber s)" "runs_to m len c d (ParseNVOffset s)"
proof -
  show "runs_to m len c d (ParseNumber s)"
    using scan_number_cur[OF assms(1)] assms(2,3)
    by (cases "scan_number s") (force simp: ParseNumber_def)
  then show "runs_to m len c d (ParseNVOffset s)" by (simp add: ParseNVOffset_def)
qed

lemma ParseIdentifier_ok:
  assumes "good m len s" "0 \<le> n" "c \<le> mangled_cur s" "d \<le> mangled_cur s"
  shows "runs_to m len c d (ParseIdentifier n s)"
proof (cases "n = - 1 \<or> \<not> AtLeastNumCharsRemaining s n")
  case False
  then have n: "nat n \<le> length (rest s)" using assms(2) by (simp add: AtLeastNumCharsRemaining_def)
  have "eff m len (mangled_cur s) (MaybeAppendWithLength (Text (rest s)) n s)"
    using n by (intro MaybeAppendWithLength_ok) (simp_all add: source_ok_def assms(1))
  moreover have "runs_to m len c d (move_cur n s')" if "good m len s'" "mangled_cur s' = mangled_cur s" for s'
    using that n assms rest_bound[of s] by (auto simp: move_cur_def Let_def good_def nat_le_iff)
  ultimately show ?thesis
    using False MaybeAppend_ok[OF assms(1)] by (auto simp: ParseIdentifier_def intro!: eff_then_ran)
qed (use assms in \<open>auto simp: ParseIdentifier_def\<close>)

lemma ParseSourceName_ok [par]:
  assumes "plain_numbers m" "good m len s" "c \<le> mangled_cur s" "d \<le> Suc (mangled_cur s)"
  shows "runs_to m len c d (ParseSourceName s)"
  unfolding ParseSourceName_def
proof (rule or_restore_ok[OF assms(2)])
  obtain n s' where n: "scan_number s = (n, s')" by (cases "scan_number s")
  then show "runs_to m len c d (case scan_number s of (None, s') \<Rightarrow> Ran (False, s') | (Some n, s') \<Rightarrow> ParseIdentifier n s')"
    using scan_number_cur[OF assms(2) n] scan_number_value[OF assms(1,2)] assms(3,4)
    by (cases n) (auto intro!: ParseIdentifier_ok)
qed (simp add: failing_def assms)

subsection \<open>The other leaves\<close>

lemmas seq_ok = and_then_eff and_then_optional

lemmas alt_ok = and_then_consume or_restore_ok or_else_ok

lemmas eff_ok = MaybeAppend_ok nested_ok

lemma ParseDiscriminator_ok [par]:
  assumes "good m len s" "c \<le> mangled_cur s" "d \<le> Suc (mangled_cur s)"
  shows "runs_to m len c d (ParseDiscriminator s)"
  unfolding ParseDiscriminator_def
  by (rule alt_ok par assms | use assms in simp; fail)+

lemma ParseLocalSourceName_ok [par]:
  assumes "plain_numbers m" "good m len s" "c \<le> mangled_cur s" "d \<le> Suc (mangled_cur s)"
  shows "runs_to m len c d (ParseLocalSourceName s)"
  unfolding ParseLocalSourceName_def
  by (rule alt_ok par assms | use assms in simp; fail)+

lemma ParseCallOffset_ok [par]:
  assumes "good m len s" "c \<le> mangled_cur s" "d \<le> Suc (mangled_cur s)"
  shows "runs_to m len c d (ParseVOffset s)" "runs_to m len c d (ParseCallOffset s)"
proof -
  have V: "runs_to m len c d (ParseVOffset s)"
    if "good m len s" "c \<le> mangled_cur s" "d \<le> Suc (mangled_cur s)" for c d s
    unfolding ParseVOffset_def by (rule alt_ok par that | use that in simp; fail)+
  show "runs_to m len c d (ParseVOffset s)" by (rule V[OF assms])
  show "runs_to m len c d (ParseCallOffset s)"
    unfolding ParseCallOffset_def by (rule alt_ok par V assms | use assms in simp; fail)+
qed

lemma ctor_seen:
  assumes "peek s 0 \<in> {CHR ''C'', CHR ''D''}" "IsDigit (peek (advance 1 s) 0)"
  shows "names_ctor (mangled s)"
proof -
  have "IsDigit c \<Longrightarrow> c \<noteq> CHR 0x00" for c by (auto simp: IsDigit_def less_eq_char_def)
  then have "mangled_cur s < length (mangled s)" "Suc (mangled_cur s) < length (mangled s)"
    using assms peek_in[of s 0] peek_in[of "advance 1 s" 0] by (auto simp: advance_def)
  then show ?thesis using assms unfolding names_ctor_def list_ex_iff
    by (intro bexI[of _ "mangled_cur s"]) (simp_all add: peek_def advance_def)
qed

lemma ctor_ok:
  assumes "good m len s" "c \<le> mangled_cur s" "d \<le> Suc (mangled_cur s)" "t \<in> {CHR ''C'', CHR ''D''}"
    "list_all IsDigit cs" "f \<in> {append_prev_name, append_destructor}"
  shows "runs_to m len c d (and_then (and_then (ParseOneCharToken t) (ParseCharClass cs)) (effect f) s)"
proof (cases "peek s 0 = t \<and> peek (advance 1 s) 0 \<in> set cs")
  case True
  let ?s = "advance 1 (advance 1 s)"
  have "IsDigit (peek (advance 1 s) 0)" using True assms(5) by (auto simp: list_all_iff)
  then have "names_ctor m" and dig: "peek (advance 1 s) 0 \<noteq> CHR 0x00"
    using ctor_seen[of s] True assms(1,4) by (auto simp: good_def IsDigit_def less_eq_char_def)
  moreover have "good m len ?s"
    using assms(1) peek_in[OF dig] by (auto simp: good_def advance_def)
  ultimately have "eff m len (mangled_cur ?s) (f ?s)" using assms(6) append_prev_ok[of m len ?s] by auto
  then show ?thesis using True assms(2,3)
    by (cases "f ?s") (auto simp: and_then_def effect_def ParseOneCharToken_def ParseCharClass_def)
next
  case False
  have "runs_to m len c d (and_then (ParseOneCharToken t) (ParseCharClass cs) s)"
    by (rule alt_ok par | use assms in \<open>auto simp: list_all_iff IsDigit_def less_eq_char_def\<close>; fail)+
  then show ?thesis using False
    by (auto simp: and_then_def ParseOneCharToken_def ParseCharClass_def split: if_splits)
qed

lemma ParseCtorDtorName_ok [par]:
  assumes "good m len s" "c \<le> mangled_cur s" "d \<le> Suc (mangled_cur s)"
  shows "runs_to m len c d (ParseCtorDtorName s)"
  unfolding ParseCtorDtorName_def
  by (rule or_restore_ok ctor_ok par assms | use assms in \<open>simp add: IsDigit_def less_eq_char_def\<close>; fail)+

lemma ParseCVQualifiers_ok [par]:
  assumes "good m len s" "c \<le> mangled_cur s" "d \<le> Suc (mangled_cur s)"
  shows "runs_to m len c d (ParseCVQualifiers s)"
proof -
  have tok: "\<exists>b s'. ParseOneCharToken t s = Ran (b, s') \<and> good m len s' \<and>
      mangled_cur s' = mangled_cur s + (if b then 1 else 0)"
    if "good m len s" "t \<noteq> CHR 0x00" for t s
  proof (cases "peek s 0 = t")
    case True
    then have "good m len (advance 1 s)" using that peek_in[of s 0] by (simp add: good_def advance_def)
    with True show ?thesis
      by (intro exI[of _ True] exI[of _ "advance 1 s"]) (simp add: ParseOneCharToken_def)
  next
    case False
    with that(1) show ?thesis
      by (intro exI[of _ False] exI[of _ s]) (simp add: ParseOneCharToken_def)
  qed
  obtain b1 s1 where 1: "ParseOneCharToken (CHR ''r'') s = Ran (b1, s1)" "good m len s1"
    "mangled_cur s1 = mangled_cur s + (if b1 then 1 else 0)" using tok[OF assms(1), of "CHR ''r''"] by auto
  obtain b2 s2 where 2: "ParseOneCharToken (CHR ''V'') s1 = Ran (b2, s2)" "good m len s2"
    "mangled_cur s2 = mangled_cur s1 + (if b2 then 1 else 0)" using tok[OF 1(2), of "CHR ''V''"] by auto
  obtain b3 s3 where 3: "ParseOneCharToken (CHR ''K'') s2 = Ran (b3, s3)" "good m len s3"
    "mangled_cur s3 = mangled_cur s2 + (if b3 then 1 else 0)" using tok[OF 2(2), of "CHR ''K''"] by auto
  show ?thesis
    using 2(3) 3(3) assms(2,3)
    by (cases b1; cases b2; cases b3) (simp_all add: ParseCVQualifiers_def 1 2(1) 3(1,2))
qed

lemma advance_ok:
  assumes "good m len s" "eff m len (mangled_cur s) r" "mangled_cur s + n \<le> length m" "c \<le> mangled_cur s"
    "d \<le> mangled_cur s + n"
  shows "runs_to m len c d (then_run r (\<lambda>s. Ran (True, advance n s)))"
  using assms(2-5) by (cases r) (auto intro!: good_advance)

lemma builtin_ok:
  assumes "good m len s" "c \<le> mangled_cur s" "d \<le> Suc (mangled_cur s)"
  shows "runs_to m len c d (builtin_name s)" "runs_to m len c d (abbreviated_name s)"
proof -
  have in_name: "mangled_cur s + 1 \<le> length m" if "map_of T (peek s 0) = Some x" "map_of T (CHR 0x00) = None" for T x
    using that peek_in[of s 0] assms(1) by (cases "peek s 0 = CHR 0x00") (auto simp: good_def)
  show "runs_to m len c d (builtin_name s)"
    unfolding builtin_name_def
    using assms in_name[of kBuiltinTypeList] MaybeAppend_ok[OF assms(1)]
    by (auto split: option.split intro!: advance_ok simp: kBuiltinTypeList_def)
  have eff: "eff m len (mangled_cur s) (then_run (MaybeAppend ''std'' s) (\<lambda>s.
      if t \<noteq> '''' then then_run (MaybeAppend ''::'' s) (MaybeAppend t) else Ran s))" for t
  proof (intro eff_step MaybeAppend_ok[OF assms(1)])
    fix s' assume s': "good m len s'"
    then have "eff m len (mangled_cur s') (then_run (MaybeAppend ''::'' s') (MaybeAppend t))"
      by (intro eff_step MaybeAppend_ok) auto
    with s' show "eff m len (mangled_cur s')
        (if t \<noteq> '''' then then_run (MaybeAppend ''::'' s') (MaybeAppend t) else Ran s')" by simp
  qed
  show "runs_to m len c d (abbreviated_name s)"
  proof (cases "map_of kSubstitutionList (peek s 0)")
    case (Some t)
    then have "mangled_cur s + 1 \<le> length m" using in_name[OF Some] by (simp add: kSubstitutionList_def)
    then show ?thesis using advance_ok[OF assms(1) eff, of 1 c d t] assms(2,3)
      by (simp only: abbreviated_name_def Some option.case then_run_assoc)
  qed (use assms in \<open>simp add: abbreviated_name_def\<close>)
qed

lemma ParseBuiltinType_ok [par]:
  assumes "plain_numbers m" "good m len s" "c \<le> mangled_cur s" "d \<le> Suc (mangled_cur s)"
  shows "runs_to m len c d (ParseBuiltinType s)"
  unfolding ParseBuiltinType_def
  by (rule or_else_ok builtin_ok or_restore_ok and_then_consume par assms | use assms in simp; fail)+

lemma ParseTemplateParam_ok [par]:
  assumes "good m len s" "c \<le> mangled_cur s" "d \<le> Suc (mangled_cur s)"
  shows "runs_to m len c d (ParseTemplateParam s)" "runs_to m len c d (ParseSubstitution s)"
    "runs_to m len c d (ParseTemplateTemplateParam s)"
proof -
  have T: "runs_to m len c d (ParseTemplateParam s)" and S: "runs_to m len c d (ParseSubstitution s)"
    if "good m len s" "c \<le> mangled_cur s" "d \<le> Suc (mangled_cur s)" for c d s
    unfolding ParseTemplateParam_def ParseSubstitution_def
    by (rule seq_ok alt_ok builtin_ok par eff_ok that | use that in simp; fail)+
  show "runs_to m len c d (ParseTemplateParam s)" by (rule T[OF assms])
  show "runs_to m len c d (ParseSubstitution s)" by (rule S[OF assms])
  show "runs_to m len c d (ParseTemplateTemplateParam s)"
    unfolding ParseTemplateTemplateParam_def by (rule or_else_ok T S assms | use assms in simp; fail)+
qed

lemma listed_operator_ok [par]:
  assumes "good m len s" "c \<le> mangled_cur s" "d \<le> Suc (mangled_cur s)"
  shows "runs_to m len c d (listed_operator s)"
proof (cases "IsLower (peek s 0) \<and> IsAlpha (peek s 1)")
  case True
  then have "peek s 1 \<noteq> CHR 0x00" by (auto simp: IsAlpha_def less_eq_char_def)
  then have in_name: "mangled_cur s + 2 \<le> length m" using peek_in[of s 1] assms(1) by (simp add: good_def)
  have opt: "eff m len (mangled_cur s) (if b then MaybeAppend t s else Ran s)" if "good m len s" for b t s
    using that MaybeAppend_ok by simp
  have eff: "eff m len (mangled_cur s) (then_run (MaybeAppend ''operator'' s) (\<lambda>s.
      then_run (if b then MaybeAppend '' '' s else Ran s) (MaybeAppend t)))" for b t
    by (intro eff_step MaybeAppend_ok opt assms(1))
  show ?thesis
  proof (cases "map_of kOperatorList [peek s 0, peek s 1]")
    case (Some t)
    then show ?thesis
      using True advance_ok[OF assms(1) eff in_name assms(2), of d "IsLower (hd t)" t] assms(3)
      by (simp add: listed_operator_def then_run_assoc)
  qed (use True assms in \<open>simp add: listed_operator_def\<close>)
qed (use assms in \<open>auto simp: listed_operator_def\<close>)

subsection \<open>One nonterminal\<close>

text \<open>
  The order of the nonterminals that can be called without consuming anything: each calls only
  smaller ones at its own position. The loops may succeed without consuming anything.
\<close>

fun rank :: "nonterm \<Rightarrow> nat" where
  "rank UnqualifiedName = 1"
| "rank Expression = 1"
| "rank UnscopedName = 2"
| "rank UnscopedTemplateName = 3"
| "rank (Prefix h) = 3"
| "rank Name = 4"
| "rank ClassEnumType = 5"
| "rank Typ = 6"
| "rank TemplateArg = 7"
| "rank MoreTypes = 7"
| "rank BareFunctionType = 8"
| "rank MoreTemplateArgs = 8"
| "rank Encoding = 9"
| "rank nt = 0"

fun consumes :: "nonterm \<Rightarrow> nat" where
  "consumes (Prefix h) = 0"
| "consumes MoreTypes = 0"
| "consumes MoreTemplateArgs = 0"
| "consumes nt = 1"

text \<open>\<open>calls_ok m len r k call\<close>: a call behind \<open>k\<close>, or at \<open>k\<close> of a nonterminal below rank \<open>r\<close>, is fine.\<close>

definition calls_ok :: "string \<Rightarrow> nat \<Rightarrow> nat \<Rightarrow> nat \<Rightarrow> (nonterm \<Rightarrow> parser) \<Rightarrow> bool" where
  "calls_ok m len r k call \<longleftrightarrow>
     (\<forall>nt s. good m len s \<longrightarrow> k < mangled_cur s \<or> k \<le> mangled_cur s \<and> rank nt < r \<longrightarrow>
        runs_to m len (mangled_cur s) (mangled_cur s + consumes nt) (call nt s))"

lemma call_ok:
  assumes "calls_ok m len r k call" "good m len s" "k < mangled_cur s \<or> k \<le> mangled_cur s \<and> rank nt < r"
    "c \<le> mangled_cur s" "d \<le> mangled_cur s + consumes nt"
  shows "runs_to m len c d (call nt s)"
  using assms runs_to_mono unfolding calls_ok_def by blast

lemma and_then_keep:
  assumes "runs_to m len (mangled_cur s) (mangled_cur s) (p s)" "c \<le> mangled_cur s"
    "\<And>s'. good m len s' \<Longrightarrow> mangled_cur s \<le> mangled_cur s' \<Longrightarrow> runs_to m len c d (q s')"
  shows "runs_to m len c d (and_then p q s)"
  unfolding and_then_def by (rule ran_then_ran[OF assms(1)]) (use assms(2,3) in \<open>auto split: if_split\<close>)

lemma names_body:
  assumes m: "plain_numbers m" and s: "good m len s" and calls: "calls_ok m len r (mangled_cur s) call"
  shows "r = rank MangledName \<Longrightarrow> runs_to m len (mangled_cur s) (Suc (mangled_cur s)) (ParseMangledName call s)"
    "r = rank Encoding \<Longrightarrow> runs_to m len (mangled_cur s) (Suc (mangled_cur s)) (ParseEncoding call s)"
    "r = rank Name \<Longrightarrow> runs_to m len (mangled_cur s) (Suc (mangled_cur s)) (ParseName call s)"
    "r = rank UnscopedName \<Longrightarrow> runs_to m len (mangled_cur s) (Suc (mangled_cur s)) (ParseUnscopedName call s)"
    "r = rank UnscopedTemplateName \<Longrightarrow>
       runs_to m len (mangled_cur s) (Suc (mangled_cur s)) (ParseUnscopedTemplateName call s)"
    "r = rank UnqualifiedName \<Longrightarrow> runs_to m len (mangled_cur s) (Suc (mangled_cur s)) (ParseUnqualifiedName call s)"
    "r = rank LocalName \<Longrightarrow> runs_to m len (mangled_cur s) (Suc (mangled_cur s)) (ParseLocalName call s)"
    "r = rank SpecialName \<Longrightarrow> runs_to m len (mangled_cur s) (Suc (mangled_cur s)) (ParseSpecialName call s)"
  unfolding ParseMangledName_def ParseEncoding_def ParseName_def ParseUnscopedName_def
    ParseUnscopedTemplateName_def ParseUnqualifiedName_def ParseLocalName_def ParseSpecialName_def
  by (rule seq_ok alt_ok par eff_ok call_ok[OF calls] m s | simp; fail)+

lemma ParseOperatorName_ok:
  assumes m: "plain_numbers m" and s: "good m len s" and calls: "calls_ok m len r (mangled_cur s) call"
  shows "runs_to m len (mangled_cur s) (Suc (mangled_cur s)) (ParseOperatorName call s)"
proof -
  have "runs_to m len (mangled_cur s) (Suc (mangled_cur s)) (if b then Ran (False, s) else r)"
    if "runs_to m len (mangled_cur s) (Suc (mangled_cur s)) r" for b r
    using that s by simp
  then show ?thesis
    unfolding ParseOperatorName_def
    by this (rule seq_ok alt_ok par eff_ok call_ok[OF calls] m s | simp; fail)+
qed

lemma types_body:
  assumes m: "plain_numbers m" and s: "good m len s" and calls: "calls_ok m len r (mangled_cur s) call"
  shows "r = rank FunctionType \<Longrightarrow> runs_to m len (mangled_cur s) (Suc (mangled_cur s)) (ParseFunctionType call s)"
    "r = rank BareFunctionType \<Longrightarrow> runs_to m len (mangled_cur s) (Suc (mangled_cur s)) (ParseBareFunctionType call s)"
    "r = rank ClassEnumType \<Longrightarrow> runs_to m len (mangled_cur s) (Suc (mangled_cur s)) (ParseClassEnumType call s)"
    "r = rank ArrayType \<Longrightarrow> runs_to m len (mangled_cur s) (Suc (mangled_cur s)) (ParseArrayType call s)"
    "r = rank PointerToMemberType \<Longrightarrow>
       runs_to m len (mangled_cur s) (Suc (mangled_cur s)) (ParsePointerToMemberType call s)"
    "r = rank Typ \<Longrightarrow> runs_to m len (mangled_cur s) (Suc (mangled_cur s)) (ParseType call s)"
  unfolding ParseFunctionType_def ParseBareFunctionType_def ParseClassEnumType_def ParseArrayType_def
    ParsePointerToMemberType_def ParseType_def OneOrMore_def
  by (rule seq_ok alt_ok par eff_ok call_ok[OF calls] m s | simp; fail)+

lemma templates_body:
  assumes m: "plain_numbers m" and s: "good m len s" and calls: "calls_ok m len r (mangled_cur s) call"
  shows "r = rank TemplateArgs \<Longrightarrow> runs_to m len (mangled_cur s) (Suc (mangled_cur s)) (ParseTemplateArgs call s)"
    "r = rank TemplateArg \<Longrightarrow> runs_to m len (mangled_cur s) (Suc (mangled_cur s)) (ParseTemplateArg call s)"
    "r = rank Expression \<Longrightarrow> runs_to m len (mangled_cur s) (Suc (mangled_cur s)) (ParseExpression call s)"
    "r = rank ExprPrimary \<Longrightarrow> runs_to m len (mangled_cur s) (Suc (mangled_cur s)) (ParseExprPrimary call s)"
    "r = rank NestedName \<Longrightarrow> runs_to m len (mangled_cur s) (Suc (mangled_cur s)) (ParseNestedName call s)"
  unfolding ParseTemplateArgs_def ParseTemplateArg_def ParseExpression_def ParseExprPrimary_def
    ParseNestedName_def OneOrMore_def
  by (rule seq_ok alt_ok and_then_keep par eff_ok call_ok[OF calls] m s | simp; fail)+

lemma ParsePrefix_ok:
  assumes m: "plain_numbers m" and s: "good m len s" and calls: "calls_ok m len (rank (Prefix h)) (mangled_cur s) call"
  shows "runs_to m len (mangled_cur s) (mangled_cur s) (ParsePrefix call h s)"
  unfolding ParsePrefix_def
proof (rule eff_then_ran[OF nested_ok(5)[OF s]])
  fix s1 assume s1: "good m len s1" "mangled_cur s1 = mangled_cur s"
  have "runs_to m len (mangled_cur s) (Suc (mangled_cur s))
      (or_else (or_else ParseTemplateParam ParseSubstitution) (call UnscopedName) s1)"
    by (rule or_else_ok par call_ok[OF calls] s1 | use s1 in simp; fail)+
  then show "runs_to m len (mangled_cur s) (mangled_cur s)
      (then_run (or_else (or_else ParseTemplateParam ParseSubstitution) (call UnscopedName) s1) (\<lambda>(b, s).
         if b then call (Prefix True) (MaybeIncreaseNestLevel s)
         else then_run (MaybeCancelLastSeparator s) (\<lambda>s.
                if h
                then then_run (call TemplateArgs s) (\<lambda>(b, s).
                       if b then call (Prefix False) s else Ran (True, s))
                else Ran (True, s))))"
  proof (rule ran_then_ran)
    fix b s2
    assume s2: "good m len s2" "mangled_cur s \<le> mangled_cur s2" "b \<Longrightarrow> Suc (mangled_cur s) \<le> mangled_cur s2"
    have args: "runs_to m len (mangled_cur s) (mangled_cur s)
        (then_run (call TemplateArgs s3) (\<lambda>(b, s). if b then call (Prefix False) s else Ran (True, s)))"
      if s3: "good m len s3" "mangled_cur s3 = mangled_cur s2" for s3
    proof (rule ran_then_ran[where l = "Suc (mangled_cur s)"])
      show "runs_to m len (mangled_cur s) (Suc (mangled_cur s)) (call TemplateArgs s3)"
        by (rule call_ok[OF calls s3(1)]) (use s2(2) s3(2) in simp_all)
    qed (use s2(2) in \<open>auto intro!: call_ok[OF calls]\<close>)
    show "runs_to m len (mangled_cur s) (mangled_cur s)
        (case (b, s2) of (b, s) \<Rightarrow>
           if b then call (Prefix True) (MaybeIncreaseNestLevel s)
           else then_run (MaybeCancelLastSeparator s) (\<lambda>s.
                  if h
                  then then_run (call TemplateArgs s) (\<lambda>(b, s).
                         if b then call (Prefix False) s else Ran (True, s))
                  else Ran (True, s)))"
    proof (cases b)
      case True
      then show ?thesis using s2 nested_ok(7,8)[OF s2(1)] by (auto intro!: call_ok[OF calls])
    next
      case False
      have "runs_to m len (mangled_cur s) (mangled_cur s)
          (then_run (MaybeCancelLastSeparator s2) (\<lambda>s.
             if h then then_run (call TemplateArgs s) (\<lambda>(b, s). if b then call (Prefix False) s else Ran (True, s))
             else Ran (True, s)))"
        by (rule eff_then_ran[OF nested_ok(6)[OF s2(1)]]) (use args s2(2) in auto)
      then show ?thesis using False by simp
    qed
  qed
qed

lemma ZeroOrMore_ok:
  assumes "runs_to m len (mangled_cur s) (Suc (mangled_cur s)) (p s)"
    "\<And>s'. good m len s' \<Longrightarrow> mangled_cur s < mangled_cur s' \<Longrightarrow> runs_to m len (mangled_cur s') (mangled_cur s') (again s')"
  shows "runs_to m len (mangled_cur s) (mangled_cur s) (ZeroOrMore p again s)"
  unfolding ZeroOrMore_def
  by (rule ran_then_ran[OF assms(1)]) (auto intro: runs_to_mono[OF assms(2)])

lemma body_ok:
  assumes "plain_numbers m" "good m len s" "calls_ok m len (rank nt) (mangled_cur s) call"
  shows "runs_to m len (mangled_cur s) (mangled_cur s + consumes nt) (parse_body call nt s)"
proof -
  have again: "runs_to m len (mangled_cur s') (mangled_cur s') (call nt' s')"
    if "good m len s'" "mangled_cur s < mangled_cur s'" for nt' s'
    using that by (auto intro!: call_ok[OF assms(3)])
  have loop: "runs_to m len (mangled_cur s) (mangled_cur s) (ZeroOrMore (call nt1) (call nt2) s)"
    if "rank nt1 < rank nt" "consumes nt1 = 1" for nt1 nt2
    using that by (intro ZeroOrMore_ok call_ok[OF assms(3,2)] again) simp_all
  show ?thesis
    using names_body[OF assms] types_body[OF assms] templates_body[OF assms] ParseOperatorName_ok[OF assms]
      ParsePrefix_ok[OF assms(1,2)] loop assms(3)
    by (cases nt) (simp_all add: parse_body_def)
qed

lemma parse_ok:
  assumes "plain_numbers m" "good m len s" "10 * (length m - mangled_cur s) + rank nt < n"
  shows "runs_to m len (mangled_cur s) (mangled_cur s + consumes nt) (parse n nt s)"
  using assms(2,3)
proof (induction n arbitrary: nt s)
  case (Suc n)
  have "rank nt' < 10" for nt' by (cases nt') simp_all
  moreover have "mangled_cur s' \<le> length m" if "good m len s'" for s' using that by (simp add: good_def)
  ultimately have "calls_ok m len (rank nt) (mangled_cur s) (parse n)"
    unfolding calls_ok_def
  proof (intro allI impI Suc.IH)
    fix nt' s'
    assume "good m len s'" "mangled_cur s < mangled_cur s' \<or> mangled_cur s \<le> mangled_cur s' \<and> rank nt' < rank nt"
    then show "10 * (length m - mangled_cur s') + rank nt' < n"
      using Suc.prems \<open>\<And>nt'. rank nt' < 10\<close>[of nt'] \<open>\<And>s'. good m len s' \<Longrightarrow> mangled_cur s' \<le> length m\<close>[of s'] by auto
  qed
  then show ?case using body_ok[OF assms(1) Suc.prems(1)] by simp
qed simp

subsection \<open>The demangler\<close>

lemma good_init: "good m (length buf) (InitState m buf)"
  by (auto simp: good_def InitState_def)

text \<open>
  C31 (termination): The demangler returns, with the fuel of the model and any buffer, on every name
  in which no number is negative or has ten digits or more. It never moves the cursor out of the
  name and never writes outside the buffer. The only fault left is that it reads outside the buffer,
  and only when it reads back the name of a constructor or destructor.
\<close>

theorem Demangle_returns:
  assumes "plain_numbers m"
  shows "(\<exists>b buf'. Demangle m buf = Ran (b, buf') \<and> length buf' = length buf) \<or>
    Demangle m buf = Fault ReadOutside \<and> names_ctor m"
proof -
  let ?call = "parse (demangle_fuel m)"
  have "runs_to m (length buf) 0 0 (?call MangledName (InitState m buf))"
    by (rule runs_to_mono[OF parse_ok[OF assms good_init]]) (simp_all add: demangle_fuel_def)
  then have "runs_to m (length buf) 0 0 (ParseTopLevelMangledName ?call (InitState m buf))"
    unfolding ParseTopLevelMangledName_def
    by (rule ran_then_ran) (auto intro!: effect_ok MaybeAppend_ok)
  then show ?thesis
    by (cases "ParseTopLevelMangledName ?call (InitState m buf)")
      (auto simp: Demangle_def demangle_within_def good_def)
qed

theorem Demangle_returns_witness:
  "\<exists>b buf'. Demangle ''_ZN3Foo3BarEv'' (replicate 4 CHR ''#'') = Ran (b, buf') \<and> length buf' = 4"
proof -
  have "plain_numbers ''_ZN3Foo3BarEv''" "\<not> names_ctor ''_ZN3Foo3BarEv''" by code_simp+
  then show ?thesis using Demangle_returns[of "''_ZN3Foo3BarEv''" "replicate 4 CHR ''#''"] by simp
qed

subsection \<open>Unfolding\<close>

lemma restore_same [simp]: "restore s s = s"
  by (simp add: restore_def)

lemmas combinator_defs = and_then_def or_else_def or_restore_def failing_def effect_def

lemmas token_defs = ParseOneCharToken_def ParseTwoCharToken_def ParseCharClass_def

end
