(* ===== verification/DemanglerFaults.thy ===== *)
theory DemanglerFaults
  imports DemanglerSafe
begin

text \<open>
  Names on which the demangler goes wrong: it may not return, may return a buffer it has not
  written to, and may read behind the buffer.
\<close>

subsection \<open>A name on which it does not return\<close>

abbreviation going_back :: string where
  "going_back \<equiv> ''_ZNn2E''"

definition at_minus :: "nat \<Rightarrow> demangle_state \<Rightarrow> bool" where
  "at_minus len s \<longleftrightarrow> good going_back len s \<and> mangled_cur s = 3"

lemma at_minus_peek:
  assumes "at_minus len s"
  shows "peek s 0 = CHR ''n''" "peek s (Suc 0) = CHR ''2''" "rest s = ''n2E''" "rest (advance (Suc 0) s) = ''2E''"
    "length (mangled s) = 6" "mangled_cur s = 3"
  using assms by (simp_all add: at_minus_def good_def peek_def rest_def advance_def)

lemma at_minus_number:
  assumes "at_minus len s"
  shows "scan_number s = (Some (- 2), advance 2 s)" "ParseIdentifier (- 2) (advance 2 s) = Ran (True, s)"
proof -
  have "number_value ''2'' = 2" "IsDigit (CHR ''2'')" "\<not> IsDigit (CHR ''E'')" by code_simp+
  then show "scan_number s = (Some (- 2), advance 2 s)"
    using at_minus_peek[OF assms] by (simp add: scan_number_def advance_def)
  have "rest (advance 2 s) = ''E''"
    using assms by (simp add: at_minus_def good_def rest_def advance_def)
  then show "ParseIdentifier (- 2) (advance 2 s) = Ran (True, s)"
    using at_minus_peek[OF assms]
    by (simp add: ParseIdentifier_def AtLeastNumCharsRemaining_def IdentifierIsAnonymousNamespace_def
        MaybeAppendWithLength_def move_cur_def advance_def)
qed

lemma at_minus_leaves:
  assumes "at_minus len s"
  shows "ParseTemplateParam s = Ran (False, s)" "ParseSubstitution s = Ran (False, s)"
    "ParseCtorDtorName s = Ran (False, s)" "ParseSourceName s = Ran (True, s)"
  using at_minus_peek[OF assms] at_minus_number[OF assms]
  by (simp_all add: ParseTemplateParam_def ParseSubstitution_def ParseCtorDtorName_def ParseSourceName_def
      combinator_defs token_defs)

lemma at_minus_names:
  assumes "at_minus len s"
  shows "parse n OperatorName s \<in> {NoFuel, Ran (False, s)}" "parse n UnqualifiedName s \<in> {NoFuel, Ran (True, s)}"
    "parse n UnscopedName s \<in> {NoFuel, Ran (True, s)}"
proof -
  have "IsLower (CHR ''n'')" "\<not> IsAlpha (CHR ''2'')" by code_simp+
  then show op: "parse n OperatorName s \<in> {NoFuel, Ran (False, s)}" for n
    using at_minus_peek[OF assms]
    by (cases n) (simp_all add: parse_body_def ParseOperatorName_def AtLeastNumCharsRemaining_def combinator_defs
        token_defs listed_operator_def)
  show un: "parse n UnqualifiedName s \<in> {NoFuel, Ran (True, s)}" for n
    using op[of "n - 1"] at_minus_leaves[OF assms]
    by (cases n) (auto simp: parse_body_def ParseUnqualifiedName_def combinator_defs)
  show "parse n UnscopedName s \<in> {NoFuel, Ran (True, s)}"
    using un[of "n - 1"] by (cases n) (auto simp: parse_body_def ParseUnscopedName_def combinator_defs)
qed

lemma at_minus_loops: "at_minus len s \<Longrightarrow> parse n (Prefix h) s = NoFuel"
proof (induction n arbitrary: s h)
  case (Suc n)
  have "\<not> names_ctor going_back" by code_simp
  moreover have "good going_back len s" and cur: "mangled_cur s = 3" using Suc.prems by (simp_all add: at_minus_def)
  ultimately obtain s1 where s1: "MaybeAppendSeparator s = Ran s1" "at_minus len s1"
    using nested_ok(5)[of going_back len s] by (cases "MaybeAppendSeparator s") (auto simp: at_minus_def)
  let ?s2 = "MaybeIncreaseNestLevel s1"
  have "at_minus len ?s2" using s1(2) nested_ok(7,8)[of going_back len s1] by (simp add: at_minus_def)
  then have "parse n (Prefix True) ?s2 = NoFuel" by (rule Suc.IH)
  then show ?case
    using s1(1) at_minus_leaves(1,2)[OF s1(2)] at_minus_names(3)[OF s1(2), of n]
    by (auto simp: parse_body_def ParsePrefix_def combinator_defs)
qed simp

text \<open>
  C40 (error): On \<^verbatim>\<open>_ZNn2E\<close> the demangler does not return, whatever the buffer and however deep the
  recursion: in this nested name the number \<^verbatim>\<open>n2\<close> is read as the length -2 of an identifier, which
  moves the cursor back to the number, where the loop over the prefixes reads it again. The code only
  excludes the length -1.
\<close>

theorem Demangle_does_not_return: "demangle_within n going_back buf = NoFuel"
proof -
  let ?s = "InitState going_back buf"
  have enc: "parse n NestedName (advance 2 ?s) = NoFuel" for n
  proof (cases n)
    case (Suc k)
    let ?s3 = "(advance 3 ?s)\<lparr>nest_level := 0\<rparr>"
    have "at_minus (length buf) ?s3"
      by (auto simp: at_minus_def good_def InitState_def advance_def)
    moreover have "ParseCVQualifiers ?s3 = Ran (False, ?s3)"
      by (simp add: ParseCVQualifiers_def ParseOneCharToken_def peek_def InitState_def advance_def)
    moreover have "ParseOneCharToken (CHR ''N'') (advance 2 ?s) = Ran (True, advance 3 ?s)"
      by (simp add: ParseOneCharToken_def peek_def InitState_def advance_def)
    ultimately show ?thesis
      using at_minus_loops[of "length buf" ?s3 k False] Suc
      by (simp add: parse_body_def ParseNestedName_def combinator_defs Optional_def EnterNestedName_def)
  qed simp
  have name: "parse n Name (advance 2 ?s) = NoFuel" for n
    using enc[of "n - 1"] by (cases n) (simp_all add: parse_body_def ParseName_def combinator_defs)
  have "parse n Encoding (advance 2 ?s) = NoFuel" for n
    using name[of "n - 1"] by (cases n) (simp_all add: parse_body_def ParseEncoding_def combinator_defs)
  then have "parse n MangledName ?s = NoFuel"
    by (cases n) (simp_all add: parse_body_def ParseMangledName_def combinator_defs token_defs peek_def
        InitState_def advance_def)
  then show ?thesis by (simp add: demangle_within_def ParseTopLevelMangledName_def)
qed

subsection \<open>A buffer that was never written\<close>

text \<open>
  On \<^verbatim>\<open>_ZNE\<close> and on \<^verbatim>\<open>_Z0\<close> the demangler reports success without having written
  anything: the caller, whose buffer is not initialised, returns what happens to be in it.
\<close>

theorem Demangle_leaves_buffer:
  "Demangle ''_ZNE'' buf = Ran (True, buf) \<and> Demangle ''_Z0'' buf = Ran (True, buf)"
  by (intro conjI; code_simp)

subsection \<open>Reading behind the buffer\<close>

text \<open>
  When a component does not fit into the buffer its name is remembered at its full
  length, and cancelling the separator that did not fit either makes room again. A constructor then
  reads back the name beyond the end of the buffer.
\<close>

theorem Demangle_reads_outside:
  "Demangle ''_ZTVDtsrN3foo2abEC1E'' ''####'' = Fault ReadOutside"
  by code_simp

end
