(* ===== verification/DemanglerNames.thy ===== *)
theory DemanglerNames
  imports DemanglerSafe
begin

text \<open>
  The functions that the demangler is used for: the mangled name of a function in nested scopes
  gives back its qualified name.
\<close>

subsection \<open>Mangled names\<close>

fun decimal :: "nat \<Rightarrow> string" where
  "decimal n = (if n < 10 then [char_of (48 + n)] else decimal (n div 10) @ [char_of (48 + n mod 10)])"

declare decimal.simps [simp del]

definition mangle_component :: "string \<Rightarrow> string" where
  "mangle_component name = decimal (length name) @ name"

definition mangle_function :: "string list \<Rightarrow> string" where
  "mangle_function names = ''_ZN'' @ concat (map mangle_component names) @ ''Ev''"

text \<open>The components with \<open>::\<close> between them.\<close>

fun scoped_name :: "string list \<Rightarrow> string" where
  "scoped_name [] = ''''"
| "scoped_name [name] = name"
| "scoped_name (name # names) = name @ ''::'' @ scoped_name names"

definition source_identifier :: "string \<Rightarrow> bool" where
  "source_identifier name \<longleftrightarrow> name \<noteq> '''' \<and> (IsAlpha (hd name) \<or> hd name = CHR ''_'') \<and>
     CHR 0x00 \<notin> set name \<and> \<not> prefix ''_GLOBAL__N_'' name \<and> length name < 2 ^ 31"

lemma digit_char:
  fixes d :: nat
  assumes "d < 10"
  shows "of_char (char_of (48 + d) :: char) = 48 + d" "IsDigit (char_of (48 + d))"
proof -
  show *: "of_char (char_of (48 + d) :: char) = 48 + d" using assms by simp
  show "IsDigit (char_of (48 + d))" using assms unfolding IsDigit_def less_eq_char_def * by simp
qed

lemma decimal_digits: "list_all IsDigit (decimal n)" "decimal n \<noteq> []" "dec_value (decimal n) = n"
proof (induction n rule: decimal.induct)
  case (1 n)
  {
    case 1
    then show ?case using "1.IH"(1) by (simp add: decimal.simps[of n] digit_char)
  next
    case 2
    then show ?case by (simp add: decimal.simps[of n])
  next
    case 3
    have snoc: "dec_value (ds @ [char_of (48 + d)]) = dec_value ds * 10 + d" if "d < 10" for ds and d :: nat
      using digit_char(1)[OF that] by (simp add: dec_value_snoc)
    show ?case
    proof (cases "n < 10")
      case True
      then show ?thesis using snoc[of n "[]"] by (simp add: decimal.simps[of n] dec_value_def[of "[]"])
    next
      case False
      then show ?thesis
        using snoc[of "n mod 10" "decimal (n div 10)"] "1.IH"(3) by (simp add: decimal.simps[of n])
    qed
  }
qed

subsection \<open>Writing\<close>

text \<open>
  \<open>wrote t s\<close>: the text \<open>t\<close> is in front of the output cursor, nothing overflowed. Appending a text
  that fits appends it, and ends it with a null character.
\<close>

definition wrote :: "string \<Rightarrow> demangle_state \<Rightarrow> bool" where
  "wrote t s \<longleftrightarrow> appending s \<and> \<not> overflowed s \<and> out_cur s = length t \<and> length t < length (out s) \<and>
     take (length t) (out s) = t"

lemma append_loop_text:
  assumes "i + k \<le> length u"
  shows "wrote t s \<Longrightarrow> length t + k < length (out s) \<Longrightarrow>
    \<exists>buf. append_loop k i (Text u) s = Ran (s\<lparr>out := buf, out_cur := length t + k\<rparr>) \<and>
      length buf = length (out s) \<and> take (length t + k) buf = t @ take k (drop i u)"
  using assms
proof (induction k arbitrary: i s t)
  case 0
  then show ?case by (intro exI[of _ "out s"]) (simp add: wrote_def)
next
  case (Suc k)
  let ?s = "s\<lparr>out := (out s)[out_cur s := u ! i], out_cur := out_cur s + 1\<rparr>"
  have "take (Suc (length t)) ((out s)[length t := u ! i]) = t @ [u ! i]"
    using Suc.prems by (simp add: take_Suc_conv_app_nth wrote_def)
  then have "wrote (t @ [u ! i]) ?s" using Suc.prems by (simp add: wrote_def)
  from Suc.IH[OF this, of "Suc i"] Suc.prems obtain buf where
    "append_loop k (Suc i) (Text u) ?s = Ran (?s\<lparr>out := buf, out_cur := length t + 1 + k\<rparr>)"
    "length buf = length (out s)" "take (length t + 1 + k) buf = t @ [u ! i] @ take k (drop (Suc i) u)"
    by auto
  moreover have "take (Suc k) (drop i u) = u ! i # take k (drop (Suc i) u)"
    using Suc.prems by (simp flip: Cons_nth_drop_Suc)
  ultimately show ?case
    using Suc.prems by (intro exI[of _ buf]) (auto simp: src_char_def write_out_def wrote_def)
qed

lemma MaybeAppendWithLength_text:
  assumes "wrote t s" "0 < n" "n \<le> length u" "length t + n < length (out s)" "hd u \<noteq> CHR ''<''"
  shows "\<exists>buf p k. MaybeAppendWithLength (Text u) (int n) s =
      Ran (s\<lparr>out := buf, out_cur := length t + n, prev_name := p, prev_name_length := k\<rparr>) \<and>
    length buf = length (out s) \<and> take (length t + n) buf = t @ take n u \<and> buf ! (length t + n) = CHR 0x00"
proof -
  have u0: "u ! 0 = hd u" "0 < length u" using assms(2,3) by (cases u; simp)+
  obtain p k where r: "remember_name (Text u) (int n) s = Ran (s\<lparr>prev_name := p, prev_name_length := k\<rparr>)"
  proof (cases "IsAlpha (u ! 0) \<or> u ! 0 = CHR ''_''")
    case True
    then show ?thesis using u0 by (intro that) (simp add: remember_name_def src_char_def)
  next
    case False
    then show ?thesis
      using u0 by (intro that[where p = "prev_name s" and k = "prev_name_length s"]) (simp add: remember_name_def src_char_def)
  qed
  let ?s = "s\<lparr>prev_name := p, prev_name_length := k\<rparr>"
  have "wrote t ?s" using assms(1) by (simp add: wrote_def)
  from append_loop_text[OF _ this, of 0 n u] assms(3,4) obtain buf where buf:
    "append_loop n 0 (Text u) ?s = Ran (?s\<lparr>out := buf, out_cur := length t + n\<rparr>)"
    "length buf = length (out s)" "take (length t + n) buf = t @ take n u" by auto
  let ?buf = "buf[length t + n := CHR 0x00]"
  have "MaybeAppendWithLength (Text u) (int n) s =
      Ran (s\<lparr>out := ?buf, out_cur := length t + n, prev_name := p, prev_name_length := k\<rparr>)"
    using assms u0 r buf
    by (simp add: MaybeAppendWithLength_def separate_lt_def src_char_def[of "Text _"] Append_def write_out_def
        wrote_def)
  with buf assms(4) show ?thesis
    by (intro exI[of _ ?buf] exI[of _ p] exI[of _ k]) (simp add: nth_list_update)
qed

subsection \<open>Where the cursor is\<close>

definition at_text :: "string \<Rightarrow> string \<Rightarrow> demangle_state \<Rightarrow> bool" where
  "at_text m r s \<longleftrightarrow> mangled s = m \<and> CHR 0x00 \<notin> set m \<and> (\<exists>p. m = p @ r \<and> mangled_cur s = length p)"

lemma at_text_rest: "at_text m r s \<Longrightarrow> rest s = r"
  by (auto simp: at_text_def rest_def takeWhile_eq_all_conv)

lemma at_text_peek: "at_text m r s \<Longrightarrow> peek s i = (if i < length r then r ! i else CHR 0x00)"
  by (auto simp: at_text_def peek_def Let_def nth_append)

lemma at_text_advance: "at_text m (u @ r) s \<Longrightarrow> n = length u \<Longrightarrow> at_text m r (advance n s)"
  unfolding at_text_def advance_def by (metis append.assoc demangle_state.ext_inject demangle_state.surjective
      demangle_state.update_convs(2) length_append)

lemma at_text_cong: "at_text m r s \<Longrightarrow> mangled s' = mangled s \<Longrightarrow> mangled_cur s' = mangled_cur s \<Longrightarrow> at_text m r s'"
  by (simp add: at_text_def)

text \<open>What fails on a character without changing the state.\<close>

lemma leaves_fail:
  shows "peek s 0 \<noteq> CHR ''T'' \<Longrightarrow> ParseTemplateParam s = Ran (False, s)"
    "peek s 0 \<noteq> CHR ''S'' \<Longrightarrow> ParseSubstitution s = Ran (False, s)"
    "peek s 0 \<notin> {CHR ''C'', CHR ''D''} \<Longrightarrow> ParseCtorDtorName s = Ran (False, s)"
    "peek s 0 \<notin> {CHR ''r'', CHR ''V'', CHR ''K''} \<Longrightarrow> ParseCVQualifiers s = Ran (False, s)"
    "peek s 0 \<noteq> CHR ''L'' \<Longrightarrow> ParseLocalSourceName s = Ran (False, s)"
    "\<not> IsLower (peek s 0) \<Longrightarrow> n > 0 \<Longrightarrow> parse n OperatorName s = Ran (False, s)"
proof -
  have lower: "IsLower (CHR ''c'')" "IsLower (CHR ''v'')" by (simp_all add: IsLower_def less_eq_char_def)
  then show "\<not> IsLower (peek s 0) \<Longrightarrow> n > 0 \<Longrightarrow> parse n OperatorName s = Ran (False, s)"
    by (cases n) (auto simp: parse_body_def ParseOperatorName_def combinator_defs token_defs listed_operator_def)
qed (auto simp: ParseTemplateParam_def ParseSubstitution_def ParseCtorDtorName_def ParseCVQualifiers_def
    ParseLocalSourceName_def combinator_defs token_defs)

lemma no_number:
  assumes "peek s 0 \<noteq> CHR ''n''" "\<not> IsDigit (peek s 0)"
  shows "ParseSourceName s = Ran (False, s)"
proof -
  have "takeWhile IsDigit (rest s) = []" using assms(2) rest_Cons(1)[of s] by (cases "rest s") auto
  then have "scan_number s = (None, s)" using assms(1) by (simp add: scan_number_def)
  then show ?thesis by (simp add: ParseSourceName_def combinator_defs)
qed

lemma more_than_two:
  fixes n :: nat
  assumes "2 < n"
  obtains k where "n = Suc (Suc k)" "k > 0"
  using assms by (intro that[of "n - 2"]) simp_all

lemma no_name:
  assumes "peek s 0 \<in> {CHR ''E'', CHR 0x00}" "2 < n"
  shows "parse n UnscopedName s = Ran (False, s)"
proof -
  obtain k where k: "n = Suc (Suc k)" "k > 0" using more_than_two[OF assms(2)] .
  have "\<not> IsLower (peek s 0)" "\<not> IsDigit (peek s 0)"
    using assms(1) by (auto simp: IsLower_def IsDigit_def less_eq_char_def)
  with assms(1) k(2) show ?thesis
    by (auto simp: k(1) parse_body_def ParseUnscopedName_def ParseUnqualifiedName_def combinator_defs
        leaves_fail no_number token_defs)
qed

subsection \<open>One component\<close>

text \<open>The cursor before \<open>r\<close>, the text \<open>t\<close> written, the nest level and the size of the buffer.\<close>

definition before :: "string \<Rightarrow> string \<Rightarrow> string \<Rightarrow> 16 word \<Rightarrow> nat \<Rightarrow> demangle_state \<Rightarrow> bool" where
  "before m r t lvl len s \<longleftrightarrow> at_text m r s \<and> wrote t s \<and> nest_level s = lvl \<and> length (out s) = len"

lemma append_before:
  assumes "before m r t lvl len s" "0 < n" "n \<le> length u" "length t + n < len" "hd u \<noteq> CHR ''<''"
  shows "\<exists>s'. MaybeAppendWithLength (Text u) (int n) s = Ran s' \<and> before m r (t @ take n u) lvl len s' \<and>
    out s' ! (length t + n) = CHR 0x00 \<and> mangled_cur s' = mangled_cur s"
proof -
  have "wrote t s" "length (out s) = len" using assms(1) by (simp_all add: before_def)
  with MaybeAppendWithLength_text[of t s n u] assms(2-5) obtain buf p k where
    "MaybeAppendWithLength (Text u) (int n) s =
       Ran (s\<lparr>out := buf, out_cur := length t + n, prev_name := p, prev_name_length := k\<rparr>)"
    "length buf = len" "take (length t + n) buf = t @ take n u" "buf ! (length t + n) = CHR 0x00" by auto
  with assms show ?thesis by (auto simp: before_def wrote_def at_text_def)
qed

lemma append_literal:
  assumes "before m r t lvl len s" "u \<noteq> ''''" "length t + length u < len" "hd u \<noteq> CHR ''<''"
  shows "\<exists>s'. MaybeAppend u s = Ran s' \<and> before m r (t @ u) lvl len s' \<and>
    out s' ! (length t + length u) = CHR 0x00"
proof -
  have "appending s" using assms(1) by (simp add: before_def wrote_def)
  then show ?thesis
    using append_before[OF assms(1), of "length u" u] assms(2-4) by (auto simp: MaybeAppend_def)
qed

lemma identifier_first:
  assumes "source_identifier name"
  shows "0 < length name" "hd name \<noteq> CHR ''<''" "\<not> IsDigit (hd name)"
  using assms by (auto simp: source_identifier_def IsAlpha_def IsDigit_def less_eq_char_def)

lemma scan_component:
  assumes "at_text m (mangle_component name @ r) s" "source_identifier name"
  shows "scan_number s = (Some (int (length name)), advance (length (decimal (length name))) s)"
    "IsDigit (peek s 0)"
proof -
  let ?ds = "decimal (length name)"
  note digits = decimal_digits[of "length name"]
  have r: "rest s = ?ds @ name @ r" using at_text_rest[OF assms(1)] by (simp add: mangle_component_def)
  then show first: "IsDigit (peek s 0)"
    using digits(1,2) rest_Cons(1)[of s "hd ?ds" "tl ?ds @ name @ r"] by (cases ?ds) (auto simp: list_all_iff)
  then have "peek s 0 \<noteq> CHR ''n''" by (auto simp: IsDigit_def less_eq_char_def)
  moreover have "takeWhile IsDigit (?ds @ name @ r) = ?ds"
    using digits(1) identifier_first[OF assms(2)] by (cases name) (auto simp: takeWhile_append list_all_iff)
  moreover have "sint (word_of_nat (length name) :: 32 word) = int (length name)"
    using assms(2) by (simp add: source_identifier_def signed_of_nat signed_take_bit_int_eq_self)
  ultimately show "scan_number s = (Some (int (length name)), advance (length ?ds) s)"
    using r digits(2,3) by (simp add: scan_number_def number_value_dec)
qed

lemma not_anonymous:
  assumes "source_identifier name"
  shows "\<not> (11 < int (length name) \<and> prefix ''_GLOBAL__N_'' (name @ r))"
proof
  assume long: "11 < int (length name) \<and> prefix ''_GLOBAL__N_'' (name @ r)"
  then have "length ''_GLOBAL__N_'' \<le> length name" by simp
  with long have "prefix ''_GLOBAL__N_'' name" using prefix_length_prefix prefixI by blast
  then show False using assms by (simp add: source_identifier_def)
qed

lemma component_name:
  assumes "before m (mangle_component name @ r) t lvl len s" "source_identifier name"
    "length t + length name < len"
  shows "\<exists>s'. ParseSourceName s = Ran (True, s') \<and> before m r (t @ name) lvl len s'"
proof -
  let ?s = "advance (length (decimal (length name))) s"
  have at: "at_text m (mangle_component name @ r) s" using assms(1) by (simp add: before_def)
  then have at': "at_text m (name @ r) ?s"
    using at_text_advance[of m "decimal (length name)" "name @ r" s] by (simp add: mangle_component_def)
  then have "before m (name @ r) t lvl len ?s" using assms(1) by (simp add: before_def wrote_def advance_def)
  from append_before[OF this, of "length name" "name @ r"] identifier_first[OF assms(2)] assms(3) obtain s1 where
    s1: "MaybeAppendWithLength (Text (name @ r)) (int (length name)) ?s = Ran s1"
      "before m (name @ r) (t @ name) lvl len s1" "mangled_cur s1 = mangled_cur ?s" by auto
  have "\<not> IdentifierIsAnonymousNamespace ?s (int (length name))"
    using not_anonymous[OF assms(2), of r] at_text_rest[OF at'] by (simp only: IdentifierIsAnonymousNamespace_def) simp
  then have "ParseIdentifier (int (length name)) ?s = move_cur (int (length name)) s1"
    using s1(1) at_text_rest[OF at'] by (simp add: ParseIdentifier_def AtLeastNumCharsRemaining_def)
  moreover have "move_cur (int (length name)) s1 = Ran (True, advance (length name) s1)"
    using s1(2) by (auto simp: before_def at_text_def move_cur_def advance_def nat_add_distrib)
  moreover have "before m r (t @ name) lvl len (advance (length name) s1)"
    using s1(2) at_text_advance[of m name r s1] by (simp add: before_def wrote_def advance_def)
  ultimately show ?thesis using scan_component(1)[OF at assms(2)] by (simp add: ParseSourceName_def combinator_defs)
qed

lemma component_unscoped:
  assumes "before m (mangle_component name @ r) t lvl len s" "source_identifier name"
    "length t + length name < len" "2 < n"
  shows "\<exists>s'. parse n UnscopedName s = Ran (True, s') \<and> before m r (t @ name) lvl len s'"
proof -
  obtain k where k: "n = Suc (Suc k)" "k > 0" using more_than_two[OF assms(4)] .
  have "IsDigit (peek s 0)" using scan_component(2)[of m name r s] assms(1,2) by (simp add: before_def)
  then have "\<not> IsLower (peek s 0)" "peek s 0 \<noteq> CHR ''C''" "peek s 0 \<noteq> CHR ''D''"
    by (auto simp: IsDigit_def IsLower_def less_eq_char_def)
  with component_name[OF assms(1-3)] k(2) show ?thesis
    by (auto simp: k(1) parse_body_def ParseUnscopedName_def ParseUnqualifiedName_def combinator_defs leaves_fail)
qed

subsection \<open>The loop over the components\<close>

lemma nest_level_nat:
  assumes "k < 2 ^ 15"
  shows "sint (of_nat k :: 16 word) = int k"
  using assms by (simp add: signed_of_nat signed_take_bit_int_eq_self)

text \<open>A separator is appended before every component but the first, and cancelled after the last.\<close>

definition separated :: "nat \<Rightarrow> string list \<Rightarrow> string" where
  "separated k names = (if k = 0 then scoped_name names else concat (map ((@) ''::'') names))"

lemma scoped_separated: "scoped_name (name # names) = name @ concat (map ((@) ''::'') names)"
  by (induction names arbitrary: name) auto

lemma separated_Cons:
  "separated k (name # names) = (if k = 0 then '''' else ''::'') @ name @ separated (Suc k) names"
  by (simp add: separated_def scoped_separated del: scoped_name.simps)

lemma append_separator:
  assumes "before m r t (of_nat k) len s" "k < 2 ^ 15" "length t + 2 < len"
  shows "\<exists>s'. MaybeAppendSeparator s = Ran s' \<and> before m r (t @ (if k = 0 then '''' else ''::'')) (of_nat k) len s'"
proof -
  have "nest_level s = of_nat k" using assms(1) by (simp add: before_def)
  then show ?thesis
    using append_literal[OF assms(1), of "''::''"] assms nest_level_nat[OF assms(2)]
    by (auto simp: MaybeAppendSeparator_def)
qed

lemma cancel_separator:
  assumes "before m r (t @ (if k = 0 then '''' else ''::'')) (of_nat k) len s" "k < 2 ^ 15"
  shows "\<exists>s'. MaybeCancelLastSeparator s = Ran s' \<and> before m r t (of_nat k) len s'"
proof (cases "k = 0")
  case True
  then show ?thesis using assms(1) by (simp add: MaybeCancelLastSeparator_def before_def)
next
  case False
  let ?s = "s\<lparr>out_cur := length t, out := (out s)[length t := CHR 0x00]\<rparr>"
  have *: "nest_level s = of_nat k" "out_cur s = length t + 2" "appending s" "length t + 2 < length (out s)"
    "take (length t + 2) (out s) = t @ ''::''"
    using assms(1) False by (simp_all add: before_def wrote_def)
  have "take (length t) (out s) = t" using arg_cong[OF *(5), of "take (length t)"] by simp
  then have "before m r t (of_nat k) len ?s"
    using assms(1) False by (simp add: before_def wrote_def at_text_def)
  then show ?thesis
    using * nest_level_nat[OF assms(2)] False
    by (intro exI[of _ ?s]) (simp add: MaybeCancelLastSeparator_def write_out_def)
qed

lemma peek_appending: "peek (s\<lparr>appending := b\<rparr>) i = peek s i"
  by (simp add: peek_def Let_def cong: if_cong)

lemma no_template_args:
  assumes "peek s 0 \<noteq> CHR ''I''" "0 < n"
  shows "parse n TemplateArgs s = Ran (False, s)"
  using assms
  by (cases n) (auto simp: parse_body_def ParseTemplateArgs_def combinator_defs token_defs DisableAppend_def
      restore_def peek_appending)

lemma prefix_loop:
  assumes "before m (concat (map mangle_component names) @ ''E'' @ r) t (of_nat k) len s"
    "\<forall>name \<in> set names. source_identifier name" "k + length names < 2 ^ 15"
    "length t + length (separated k names) + 2 < len" "length names + 3 < n"
  shows "\<exists>s'. parse n (Prefix h) s = Ran (True, s') \<and>
    before m (''E'' @ r) (t @ separated k names) (of_nat (k + length names)) len s'"
  using assms
proof (induction names arbitrary: t k s n h)
  case Nil
  obtain n' where n: "n = Suc n'" "2 < n'" using Nil.prems(5) by (cases n) auto
  let ?t = "t @ (if k = 0 then '''' else ''::'')"
  obtain s1 where s1: "MaybeAppendSeparator s = Ran s1" "before m (''E'' @ r) ?t (of_nat k) len s1"
    using append_separator[OF Nil.prems(1)] Nil.prems(3,4) by auto
  then obtain s2 where s2: "MaybeCancelLastSeparator s1 = Ran s2" "before m (''E'' @ r) t (of_nat k) len s2"
    using cancel_separator Nil.prems(3) by fastforce
  have E: "peek s1 0 = CHR ''E''" "peek s2 0 = CHR ''E''"
    using at_text_peek[of m "''E'' @ r"] s1(2) s2(2) by (simp_all add: before_def)
  then show ?case
    using s1 s2 n no_name[of s1 n'] no_template_args[of s2 n']
    by (auto simp: parse_body_def ParsePrefix_def or_else_def leaves_fail separated_def)
next
  case (Cons name names)
  obtain n' where n: "n = Suc n'" "length names + 3 < n'" using Cons.prems(5) by (cases n) auto
  let ?sep = "if k = 0 then '''' else ''::''"
  let ?r = "concat (map mangle_component names) @ ''E'' @ r"
  obtain s1 where s1: "MaybeAppendSeparator s = Ran s1" "before m (mangle_component name @ ?r) (t @ ?sep) (of_nat k) len s1"
    using append_separator[OF Cons.prems(1)] Cons.prems(3,4) by (auto simp: separated_Cons)
  from component_unscoped[OF s1(2), of n'] Cons.prems(2,4) n(2) obtain s2 where
    s2: "parse n' UnscopedName s1 = Ran (True, s2)" "before m ?r (t @ ?sep @ name) (of_nat k) len s2"
    by (auto simp: separated_Cons)
  have "IsDigit (peek s1 0)"
    using scan_component(2)[of m name ?r s1] s1(2) Cons.prems(2) by (simp add: before_def)
  then have leave: "ParseTemplateParam s1 = Ran (False, s1)" "ParseSubstitution s1 = Ran (False, s1)"
    by (auto intro!: leaves_fail simp: IsDigit_def less_eq_char_def)
  have "before m ?r (t @ ?sep @ name) (of_nat (Suc k)) len (MaybeIncreaseNestLevel s2)"
    using s2(2) nest_level_nat[of k] Cons.prems(3)
    by (simp add: MaybeIncreaseNestLevel_def before_def wrote_def at_text_def add.commute)
  from Cons.IH[OF this, of n' True] Cons.prems(2-4) n(2) obtain s3 where
    "parse n' (Prefix True) (MaybeIncreaseNestLevel s2) = Ran (True, s3)"
    "before m (''E'' @ r) (t @ separated k (name # names)) (of_nat (k + length (name # names))) len s3"
    by (auto simp: separated_Cons)
  then show ?case
    using s1(1) s2(1) leave n(1) by (auto simp: parse_body_def ParsePrefix_def or_else_def)
qed


subsection \<open>The arguments, and the end of the name\<close>

lemma no_type:
  assumes "peek s 0 = CHR 0x00" "7 < n"
  shows "parse n Typ s = Ran (False, s)"
proof -
  have map: "map_of kBuiltinTypeList (CHR 0x00) = None" by code_simp
  have leave: "ParseSourceName s = Ran (False, s)" "ParseTemplateParam s = Ran (False, s)"
    "ParseSubstitution s = Ran (False, s)" "ParseCVQualifiers s = Ran (False, s)"
    using assms(1) by (auto simp: leaves_fail no_number IsDigit_def less_eq_char_def)
  note body = parse_body_def combinator_defs token_defs
  have template: "parse k UnscopedTemplateName s = Ran (False, s)" if "3 < k" for k
    using that no_name[of s "k - 1"] assms(1) leave by (cases k) (auto simp: body ParseUnscopedTemplateName_def)
  have nested: "parse k NestedName s = Ran (False, s)" "parse k LocalName s = Ran (False, s)"
    "parse k FunctionType s = Ran (False, s)" "parse k ArrayType s = Ran (False, s)"
    "parse k PointerToMemberType s = Ran (False, s)" if "0 < k" for k
    using that assms(1)
    by (cases k; simp add: body ParseNestedName_def ParseLocalName_def ParseFunctionType_def ParseArrayType_def
        ParsePointerToMemberType_def)+
  have name: "parse k Name s = Ran (False, s)" if "4 < k" for k
    using that nested[of "k - 1"] template[of "k - 1"] no_name[of s "k - 1"] assms(1)
    by (cases k) (auto simp: body ParseName_def)
  have enum: "parse k ClassEnumType s = Ran (False, s)" if "5 < k" for k
    using that name[of "k - 1"] by (cases k) (auto simp: parse_body_def ParseClassEnumType_def)
  obtain k where "n = Suc k" "6 < k" using assms(2) by (cases n) auto
  then show ?thesis
    using nested[of k] enum[of k] leave assms(1) map
    by (simp add: body ParseType_def ParseBuiltinType_def builtin_name_def ParseTemplateTemplateParam_def)
qed

lemma void_arguments:
  assumes "before m ''v'' t lvl len s" "length t + 2 < len" "10 < n"
  shows "\<exists>s'. parse n BareFunctionType s = Ran (True, s') \<and> before m '''' (t @ ''()'') lvl len s' \<and>
    out s' ! (length t + 2) = CHR 0x00"
proof -
  obtain k where k: "n = Suc (Suc (Suc k))" "7 < k" using assms(3) by (intro that[of "n - 3"]) auto
  have at: "at_text m ''v'' s" "appending s" using assms(1) by (simp_all add: before_def wrote_def)
  let ?q = "s\<lparr>appending := False\<rparr>"
  have v: "peek ?q 0 = CHR ''v''" using at_text_peek[OF at(1)] by (simp add: peek_appending)
  have at': "at_text m '''' (advance 1 s)" using at_text_advance[of m "''v''" "''''" s] at(1) by simp
  then have "at_text m '''' (advance 1 ?q)" by (simp add: at_text_def advance_def)
  then have "peek (advance 1 ?q) 0 = CHR 0x00" using at_text_peek[of m "''''"] by simp
  then have again: "parse (Suc (Suc k)) MoreTypes (advance 1 ?q) = Ran (True, advance 1 ?q)"
    using no_type[of "advance 1 ?q" "Suc k"] k(2) by (simp add: parse_body_def ZeroOrMore_def del: One_nat_def)
  have "map_of kBuiltinTypeList (CHR ''v'') = Some ''void''" by code_simp
  then have "parse (Suc (Suc k)) Typ ?q = Ran (True, advance 1 ?q)"
    using v by (simp add: parse_body_def ParseType_def ParseBuiltinType_def builtin_name_def combinator_defs token_defs
        leaves_fail MaybeAppend_def)
  with again have types: "OneOrMore (parse (Suc (Suc k)) Typ) (parse (Suc (Suc k)) MoreTypes) ?q = Ran (True, advance 1 ?q)"
    by (simp add: OneOrMore_def and_then_def del: parse.simps)
  have "before m '''' t lvl len (advance 1 s)" using at' assms(1) by (simp add: before_def wrote_def advance_def)
  from append_literal[OF this, of "''()''"] assms(2) obtain s' where
    "MaybeAppend ''()'' (advance 1 s) = Ran s'" "before m '''' (t @ ''()'') lvl len s'" "out s' ! (length t + 2) = CHR 0x00"
    by auto
  moreover have "(advance 1 ?q)\<lparr>appending := True\<rparr> = advance 1 s" using at(2) by (simp add: advance_def)
  ultimately show ?thesis
    using types at(2)
    by (simp add: k(1) parse_body_def ParseBareFunctionType_def combinator_defs DisableAppend_def RestoreAppend_def)
qed

lemma takeWhile_end:
  assumes "take n buf = t" "length t = n" "buf ! n = CHR 0x00" "n < length buf" "CHR 0x00 \<notin> set t"
  shows "takeWhile (\<lambda>c. c \<noteq> CHR 0x00) buf = t"
proof -
  have "buf = t @ CHR 0x00 # drop (Suc n) buf" using id_take_nth_drop[OF assms(4)] assms(1,3) by simp
  then have "takeWhile (\<lambda>c. c \<noteq> CHR 0x00) buf = takeWhile (\<lambda>c. c \<noteq> CHR 0x00) (t @ CHR 0x00 # drop (Suc n) buf)"
    by (rule arg_cong)
  then show ?thesis using assms(5) by (auto simp: takeWhile_append)
qed


lemma no_null: "\<forall>name \<in> set names. source_identifier name \<Longrightarrow> CHR 0x00 \<notin> set (scoped_name names)"
  by (induction names rule: scoped_name.induct) (auto simp: source_identifier_def)

lemma mangled_length: "length names \<le> length (concat (map mangle_component names))"
proof (induction names)
  case (Cons name names)
  have "1 \<le> length (decimal (length name))" using decimal_digits(2)[of "length name"] by (simp add: Suc_le_eq)
  with Cons show ?case by (simp add: mangle_component_def)
qed simp

lemma no_null_mangled: "\<forall>name \<in> set names. source_identifier name \<Longrightarrow> CHR 0x00 \<notin> set (mangle_function names)"
proof -
  have "CHR 0x00 \<notin> set (decimal n)" for n
    using decimal_digits(1)[of n] by (auto simp: list_all_iff IsDigit_def less_eq_char_def)
  then show "\<forall>name \<in> set names. source_identifier name \<Longrightarrow> CHR 0x00 \<notin> set (mangle_function names)"
    by (auto simp: source_identifier_def mangle_function_def mangle_component_def)
qed

lemma before_advance: "before m (u @ r) t lvl len s \<Longrightarrow> n = length u \<Longrightarrow> before m r t lvl len (advance n s)"
  using at_text_advance[of m u r s n] by (simp add: before_def wrote_def advance_def)

lemma before_level: "before m r t lvl len s \<Longrightarrow> before m r t l len (s\<lparr>nest_level := l\<rparr>)"
  by (simp add: before_def wrote_def at_text_def)

lemma before_peek: "before m r t lvl len s \<Longrightarrow> peek s i = (if i < length r then r ! i else CHR 0x00)"
  unfolding before_def using at_text_peek by blast

lemma nested_name:
  assumes "before m (''N'' @ concat (map mangle_component names) @ ''E'' @ r) '''' lvl len s" "names \<noteq> []"
    "\<forall>name \<in> set names. source_identifier name" "length names < 2 ^ 15" "length (scoped_name names) + 2 < len"
    "length names + 4 < n"
  shows "\<exists>s'. parse n NestedName s = Ran (True, s') \<and> before m r (scoped_name names) lvl len s'"
proof -
  obtain n' where n: "n = Suc n'" "length names + 3 < n'" using assms(6) by (cases n) auto
  let ?s = "(advance 1 s)\<lparr>nest_level := 0\<rparr>"
  have s: "before m (concat (map mangle_component names) @ ''E'' @ r) '''' (of_nat 0) len ?s"
    using before_level[OF before_advance[OF assms(1)]] by simp
  from prefix_loop[OF this assms(3), of n' False] assms(4,5) n(2) obtain s1 where
    s1: "parse n' (Prefix False) ?s = Ran (True, s1)" "before m (''E'' @ r) (scoped_name names) (of_nat (length names)) len s1"
    by (auto simp: separated_def)
  have "before m r (scoped_name names) lvl len (advance 1 (s1\<lparr>nest_level := lvl\<rparr>))"
    using before_advance[OF before_level[OF s1(2)]] by simp
  moreover have "IsDigit (peek ?s 0)"
    using s assms(2,3) scan_component(2)[of m "hd names" "concat (map mangle_component (tl names)) @ ''E'' @ r" ?s]
    by (cases names) (simp_all add: before_def)
  then have "ParseCVQualifiers ?s = Ran (False, ?s)" by (intro leaves_fail) (auto simp: IsDigit_def less_eq_char_def)
  moreover have "peek s 0 = CHR ''N''" "peek (s1\<lparr>nest_level := lvl\<rparr>) 0 = CHR ''E''" "nest_level s = lvl"
    using before_peek[OF assms(1)] before_peek[OF before_level[OF s1(2)]] assms(1) by (simp_all add: before_def)
  ultimately show ?thesis
    using s1(1) by (simp add: n(1) parse_body_def ParseNestedName_def combinator_defs token_defs EnterNestedName_def
        Optional_def LeaveNestedName_def)
qed

lemma scoped_function:
  assumes "names \<noteq> []" "\<forall>name \<in> set names. source_identifier name" "length names < 2 ^ 15"
    "length (scoped_name names) + 2 < length buf"
  shows "\<exists>buf'. Demangle (mangle_function names) buf = Ran (True, buf') \<and> length buf' = length buf \<and>
    takeWhile (\<lambda>c. c \<noteq> CHR 0x00) buf' = scoped_name names @ ''()''"
proof -
  let ?m = "mangle_function names" and ?len = "length buf" and ?t = "scoped_name names"
  let ?r = "''N'' @ concat (map mangle_component names) @ ''E'' @ ''v''"
  let ?s = "InitState ?m buf"
  have "length names + 40 < demangle_fuel ?m"
    using mangled_length[of names] by (simp add: demangle_fuel_def mangle_function_def)
  then obtain n where n: "demangle_fuel ?m = Suc (Suc (Suc n))" "length names + 30 < n"
    by (intro that[of "demangle_fuel ?m - 3"]) auto
  have init: "before ?m (''_Z'' @ ?r) '''' (- 1) ?len ?s"
    using no_null_mangled[OF assms(2)] assms(4)
    by (cases buf) (simp_all add: before_def at_text_def wrote_def InitState_def mangle_function_def)
  from nested_name[OF before_advance[OF this, of 2] assms(1-4), of n] n(2) obtain s1 where
    s1: "parse n NestedName (advance 2 ?s) = Ran (True, s1)" "before ?m ''v'' ?t (- 1) ?len s1" by auto
  from void_arguments[OF this(2) assms(4), of "Suc n"] n(2) obtain s2 where
    s2: "parse (Suc n) BareFunctionType s1 = Ran (True, s2)" "before ?m '''' (?t @ ''()'') (- 1) ?len s2"
      "out s2 ! (length ?t + 2) = CHR 0x00" by (auto simp del: parse.simps)
  have "parse (Suc n) Name (advance 2 ?s) = Ran (True, s1)"
    using s1(1) by (simp add: parse_body_def ParseName_def or_else_def)
  with s2(1) have "parse (Suc (Suc n)) Encoding (advance 2 ?s) = Ran (True, s2)"
    by (simp add: parse_body_def ParseEncoding_def and_then_def or_restore_def del: parse.simps(2)[of n])
  then have "parse (Suc (Suc (Suc n))) MangledName ?s = Ran (True, s2)"
    using before_peek[OF init] by (simp add: parse_body_def ParseMangledName_def and_then_def token_defs)
  then have "ParseTopLevelMangledName (parse (demangle_fuel ?m)) ?s = Ran (True, s2)"
    using before_peek[OF s2(2)] by (simp add: n(1) ParseTopLevelMangledName_def del: parse.simps)
  moreover have "\<not> overflowed s2" using s2(2) by (simp add: before_def wrote_def)
  moreover have "takeWhile (\<lambda>c. c \<noteq> CHR 0x00) (out s2) = ?t @ ''()''"
    using s2(2,3) no_null[OF assms(2)] by (intro takeWhile_end) (auto simp: before_def wrote_def)
  moreover have "length (out s2) = length buf" using s2(2) by (simp add: before_def)
  ultimately show ?thesis by (simp add: Demangle_def demangle_within_def)
qed

text \<open>
  C33 (roundtrip): The demangler turns the mangled name of a function without arguments in nested
  scopes back into its qualified name, followed by parentheses, when the buffer has room for the
  name, a separator and the null character.
\<close>

theorem Demangle_function_name:
  assumes "names \<noteq> []" "\<forall>name \<in> set names. source_identifier name" "length names < 2 ^ 15"
    "length (scoped_name names) + 2 < length buf"
  shows "\<exists>buf'. Demangle (mangle_function names) buf = Ran (True, buf') \<and>
    takeWhile (\<lambda>c. c \<noteq> CHR 0x00) buf' = scoped_name names @ ''()''"
  using scoped_function[OF assms] by blast

theorem Demangle_function_name_witness:
  "\<exists>buf'. Demangle ''_ZN2ns3FooEv'' (replicate 16 CHR ''#'') = Ran (True, buf') \<and>
    takeWhile (\<lambda>c. c \<noteq> CHR 0x00) buf' = ''ns::Foo()''"
proof -
  have "mangle_function [''ns'', ''Foo''] = ''_ZN2ns3FooEv''" by code_simp
  moreover have "source_identifier ''ns''" "source_identifier ''Foo''"
    by (simp_all add: source_identifier_def IsAlpha_def less_eq_char_def)
  ultimately show ?thesis using Demangle_function_name[of "[''ns'', ''Foo'']" "replicate 16 CHR ''#''"] by simp
qed

end
