(* ===== verification/DemangleSymbols.thy ===== *)
theory DemangleSymbols
  imports DemanglerNames StringRefs
begin

text \<open>
  What the program calls to demangle a symbol: \<^verbatim>\<open>tools/zapccs/Demangle.cpp\<close>. The prefixes and the
  version of the symbol are removed, the demangler is called on a buffer of its own, and where it
  fails the name of the function is cut out of the symbol.
\<close>

definition demangleFunctionName :: "string \<Rightarrow> string" where
  "demangleFunctionName m =
     (let digit = (\<lambda>c. of_char c - of_char (CHR ''0'') :: nat)
      in if length m < 4 \<or> m ! 0 \<noteq> CHR ''_'' \<or> m ! 1 \<noteq> CHR ''Z'' \<or> \<not> IsDigit (m ! 2) then m
         else if IsDigit (m ! 3) then sr_substr m 4 (Some (10 * digit (m ! 2) + digit (m ! 3)))
         else sr_substr m 3 (Some (digit (m ! 2))))"

text \<open>The symbol without what is not part of the mangled name.\<close>

definition stripped :: "string \<Rightarrow> string" where
  "stripped symbol =
     (let s1 = (if sr_startswith symbol [CHR 0x01] then drop 1 symbol else symbol);
          s2 = (if sr_startswith s1 ''__'' then drop 1 s1 else s1)
      in case sr_find_last_of s2 ''@'' None of None \<Rightarrow> s2 | Some lastAt \<Rightarrow> take lastAt s2)"

text \<open>The buffer is an uninitialised array of 1024 characters; the result is read up to its null character.\<close>

definition demangle :: "string \<Rightarrow> string \<Rightarrow> string outcome" where
  "demangle symbol buf =
     then_run (Demangle (stripped symbol) buf) (\<lambda>(b, buf').
       if \<not> b then Ran (demangleFunctionName (stripped symbol))
       else if CHR 0x00 \<in> set buf' then Ran (takeWhile (\<lambda>c. c \<noteq> CHR 0x00) buf')
       else Fault ReadOutside)"

lemma no_at: "CHR ''@'' \<notin> set s \<Longrightarrow> sr_find_last_of s ''@'' None = None"
  by (auto simp: sr_find_last_of_def rscan_None_iff in_set_conv_nth)

lemma last_at:
  assumes "CHR ''@'' \<notin> set v"
  shows "sr_find_last_of (s @ CHR ''@'' # v) ''@'' None = Some (length s)"
proof -
  have "v ! i \<noteq> CHR ''@''" if "i < length v" for i using assms nth_mem[OF that] by metis
  then have "(s @ CHR ''@'' # v) ! k \<noteq> CHR ''@''" if "length s < k" "k < length s + Suc (length v)" for k
    using that by (simp add: nth_append nth_Cons')
  then show ?thesis by (simp add: sr_find_last_of_def rscan_Some_iff del: rscan.simps)
qed


lemma at_not_in_mangled:
  assumes "\<forall>name \<in> set names. CHR ''@'' \<notin> set name"
  shows "CHR ''@'' \<notin> set (mangle_function names)"
proof -
  have "CHR ''@'' \<notin> set (decimal n)" for n
    using decimal_digits(1)[of n] by (auto simp: list_all_iff IsDigit_def less_eq_char_def)
  with assms show ?thesis by (auto simp: mangle_function_def mangle_component_def)
qed

text \<open>What is in front of and behind a mangled name in a symbol table.\<close>

definition decorated :: "string \<Rightarrow> string \<Rightarrow> bool" where
  "decorated pre suf \<longleftrightarrow> pre \<in> {'''', [CHR 0x01], ''_'', [CHR 0x01, CHR ''_'']} \<and>
     (suf = '''' \<or> hd suf = CHR ''@'' \<and> CHR ''@'' \<notin> set (tl suf))"

lemma stripped_decorated:
  assumes "decorated pre suf" "CHR ''@'' \<notin> set (CHR ''Z'' # m)"
  shows "stripped (pre @ CHR ''_'' # CHR ''Z'' # m @ suf) = CHR ''_'' # CHR ''Z'' # m"
proof -
  let ?m = "CHR ''_'' # CHR ''Z'' # m"
  have "CHR ''@'' \<notin> set ?m" using assms(2) by simp
  note at = no_at[OF this] last_at[of "tl suf" ?m]
  have "sr_find_last_of (?m @ suf) ''@'' None = None \<and> suf = '''' \<or>
      sr_find_last_of (?m @ suf) ''@'' None = Some (length ?m)"
    using assms(1) at
    by (cases suf) (auto simp: decorated_def)
  then show ?thesis using assms(1) by (auto simp: decorated_def stripped_def)
qed

lemma names_length: "\<forall>name \<in> set names. source_identifier name \<Longrightarrow> length names \<le> length (scoped_name names)"
proof (induction names rule: scoped_name.induct)
  case (3 name name' names)
  then show ?case by (simp del: length_greater_0_conv)
qed (auto simp: source_identifier_def Suc_le_eq)

text \<open>
  A symbol that is the mangled name of a function without arguments in nested
  scopes, with the marker character, the additional underscore or the version that platforms add,
  is shown as its qualified name followed by parentheses, if that is shorter than the buffer.
\<close>

theorem demangle_symbol:
  assumes "names \<noteq> []" "\<forall>name \<in> set names. source_identifier name \<and> CHR ''@'' \<notin> set name"
    "decorated pre suf" "length (scoped_name names) + 2 < 1024" "length buf = 1024"
  shows "demangle (pre @ mangle_function names @ suf) buf = Ran (scoped_name names @ ''()'')"
proof -
  have idents: "\<forall>name \<in> set names. source_identifier name" using assms(2) by simp
  have "CHR ''@'' \<notin> set (mangle_function names)" using assms(2) by (simp add: at_not_in_mangled)
  moreover obtain m where m: "mangle_function names = CHR ''_'' # CHR ''Z'' # m" by (simp add: mangle_function_def)
  ultimately have "stripped (pre @ mangle_function names @ suf) = mangle_function names"
    using stripped_decorated[OF assms(3), of m] by simp
  moreover obtain buf' where buf': "Demangle (mangle_function names) buf = Ran (True, buf')"
    "takeWhile (\<lambda>c. c \<noteq> CHR 0x00) buf' = scoped_name names @ ''()''" "length buf' = length buf"
    using scoped_function[OF assms(1) idents, of buf] names_length[OF idents] assms(4,5) by auto
  moreover have "CHR 0x00 \<in> set buf'"
  proof (rule ccontr)
    assume "CHR 0x00 \<notin> set buf'"
    then have "takeWhile (\<lambda>c. c \<noteq> CHR 0x00) buf' = buf'" by (auto simp: takeWhile_eq_all_conv)
    with buf'(2) have "buf' = scoped_name names @ ''()''" by simp
    then have "length buf' = length (scoped_name names) + 2" by simp
    with buf'(3) show False using assms(4,5) by simp
  qed
  ultimately show ?thesis by (simp add: demangle_def)
qed

theorem demangle_symbol_witness:
  "demangle (CHR 0x01 # ''__ZN2ns3FooEv@V1'') (replicate 1024 (CHR ''#'')) = Ran ''ns::Foo()''"
proof -
  have "mangle_function [''ns'', ''Foo''] = ''_ZN2ns3FooEv''" by code_simp
  moreover have "source_identifier ''ns''" "source_identifier ''Foo''"
    by (simp_all add: source_identifier_def IsAlpha_def less_eq_char_def)
  ultimately show ?thesis
    using demangle_symbol[of "[''ns'', ''Foo'']" "[CHR 0x01, CHR ''_'']" "''@V1''" "replicate 1024 (CHR ''#'')"]
    by (simp add: decorated_def)
qed

text \<open>
  A name that is not mangled is shown as it is, except that one of two leading underscores is
  removed.
\<close>

lemma not_mangled:
  assumes "\<not> prefix ''_Z'' m"
  shows "Demangle m buf = Ran (False, buf) \<and> demangleFunctionName m = m"
proof -
  have "\<not> (1 < length m \<and> m ! 0 = CHR ''_'' \<and> m ! 1 = CHR ''Z'')"
    using assms by (cases m rule: remdups_adj.cases) auto
  moreover from this have "\<not> (peek (InitState m buf) 0 = CHR ''_'' \<and> peek (InitState m buf) 1 = CHR ''Z'')"
    by (auto simp: peek_def InitState_def Let_def split: if_splits)
  then have "parse (demangle_fuel m) MangledName (InitState m buf) = Ran (False, InitState m buf)"
    by (auto simp: demangle_fuel_def parse_body_def ParseMangledName_def and_then_def ParseTwoCharToken_def)
  ultimately show ?thesis
    by (auto simp: Demangle_def demangle_within_def ParseTopLevelMangledName_def InitState_def
        demangleFunctionName_def Let_def)
qed

lemma demangle_c_name:
  assumes "\<not> prefix ''_Z'' name" "\<not> prefix ''__Z'' name" "hd name \<noteq> CHR 0x01" "CHR ''@'' \<notin> set name"
  shows "demangle name buf = Ran (if prefix ''__'' name then tl name else name)"
proof -
  let ?m = "if prefix ''__'' name then tl name else name"
  have "CHR ''@'' \<notin> set ?m" using assms(4) by (cases name) auto
  moreover have "\<not> prefix [CHR 0x01] name" using assms(3) by (cases name) auto
  ultimately have "stripped name = ?m"
    using no_at[of ?m] by (auto simp: stripped_def drop_Suc)
  moreover have "\<not> prefix ''_Z'' ?m" using assms(1,2) by (auto simp: prefix_def)
  ultimately show ?thesis using not_mangled[of ?m buf] by (simp add: demangle_def)
qed

text \<open>Where the demangler fails, the name of a function outside of every scope is cut out of the symbol.\<close>

lemma demangleFunctionName_source:
  assumes "source_identifier name" "length name < 100"
  shows "demangleFunctionName (''_Z'' @ mangle_component name @ r) = name"
proof -
  let ?n = "length name"
  have n: "0 < ?n" "\<not> IsDigit (name ! 0)" using identifier_first[OF assms(1)] by (simp_all add: hd_conv_nth)
  have digit: "of_char (char_of (48 + d) :: char) - of_char (CHR ''0'') = d" "IsDigit (char_of (48 + d))"
    if "d < 10" for d :: nat
    using digit_char[OF that] by simp_all
  show ?thesis
  proof (cases "?n < 10")
    case True
    then have m: "mangle_component name = char_of (48 + ?n) # name"
      by (simp add: mangle_component_def decimal.simps[of ?n])
    obtain c cs where "name = c # cs" using n(1) by (cases name) auto
    then show ?thesis using n(2) digit[OF True] unfolding m by (simp add: demangleFunctionName_def)
  next
    case False
    then have "?n div 10 < 10" "?n mod 10 < 10" using assms(2) by auto
    note d = digit[OF this(1)] digit[OF this(2)]
    have "mangle_component name = char_of (48 + ?n div 10) # char_of (48 + ?n mod 10) # name"
      using False assms(2) by (simp add: mangle_component_def decimal.simps[of ?n] decimal.simps[of "?n div 10"])
    then show ?thesis using d by (simp add: demangleFunctionName_def)
  qed
qed

end
