(* ===== verification/RedeclChains.thy ===== *)
theory RedeclChains
  imports FDMapping
begin

text \<open>
  Chains of redeclarations: \<^verbatim>\<open>Redeclarable\<close> of \<^verbatim>\<open>clang/AST/Redeclarable.h\<close> with the pointers of
  every declaration as a store, and the removal of a declaration from its chain when it is unloaded,
  the first half of \<^verbatim>\<open>VisitRedeclarable\<close> in \<^verbatim>\<open>tools/zapccs/UnloaderIR.cpp\<close>.
\<close>

type_synonym context_id = decl

subsection \<open>Links\<close>

text \<open>
  The link of a declaration: to the previous one, or, in the first declaration, to the latest one.
  A first declaration whose latest one was never set holds the context of the AST instead.
\<close>

datatype decl_link = UninitializedLatest | KnownLatest decl | Previous decl

record chains =
  RedeclLink :: "decl \<Rightarrow> decl_link"
  First :: "decl \<Rightarrow> decl"

fun NextIsPrevious :: "decl_link \<Rightarrow> bool" where
  "NextIsPrevious (Previous p) = True"
| "NextIsPrevious _ = False"

definition NextIsLatest :: "decl_link \<Rightarrow> bool" where
  "NextIsLatest l \<longleftrightarrow> \<not> NextIsPrevious l"

fun getNext :: "decl_link \<Rightarrow> decl \<Rightarrow> decl" where
  "getNext (Previous p) d = p"
| "getNext UninitializedLatest d = d"
| "getNext (KnownLatest l) d = l"

definition new_redeclarable :: "decl \<Rightarrow> chains \<Rightarrow> chains" where
  "new_redeclarable d s = s\<lparr>RedeclLink := (RedeclLink s)(d := UninitializedLatest), First := (First s)(d := d)\<rparr>"

definition getNextRedeclaration :: "chains \<Rightarrow> decl \<Rightarrow> decl" where
  "getNextRedeclaration s d = getNext (RedeclLink s d) d"

definition getPreviousDecl :: "chains \<Rightarrow> decl \<Rightarrow> decl option" where
  "getPreviousDecl s d = (if NextIsPrevious (RedeclLink s d) then Some (getNextRedeclaration s d) else None)"

definition getFirstDecl :: "chains \<Rightarrow> decl \<Rightarrow> decl" where
  "getFirstDecl s d = First s d"

definition setFirstDecl :: "decl \<Rightarrow> decl \<Rightarrow> chains \<Rightarrow> chains" where
  "setFirstDecl d f s = s\<lparr>First := (First s)(d := f)\<rparr>"

definition isFirstDecl :: "chains \<Rightarrow> decl \<Rightarrow> bool" where
  "isFirstDecl s d \<longleftrightarrow> NextIsLatest (RedeclLink s d)"

definition getMostRecentDecl :: "chains \<Rightarrow> decl \<Rightarrow> decl" where
  "getMostRecentDecl s d = getNextRedeclaration s (getFirstDecl s d)"

definition setPrevious :: "decl \<Rightarrow> decl \<Rightarrow> chains \<Rightarrow> chains" where
  "setPrevious d p s = s\<lparr>RedeclLink := (RedeclLink s)(d := Previous p)\<rparr>"

definition setMostRecent :: "decl \<Rightarrow> decl \<Rightarrow> chains \<Rightarrow> chains" where
  "setMostRecent d l s = s\<lparr>RedeclLink := (RedeclLink s)(d := KnownLatest l)\<rparr>"

text \<open>A new declaration joins the chain of a previous one, behind the most recent one.\<close>

definition setPreviousDecl :: "decl \<Rightarrow> decl option \<Rightarrow> chains \<Rightarrow> chains" where
  "setPreviousDecl d prev s =
     (case prev of
        Some p \<Rightarrow>
          (let f = getFirstDecl s p;
               s' = setFirstDecl d f s
           in setMostRecent f d (setPrevious d (getNextRedeclaration s' f) s'))
      | None \<Rightarrow> setMostRecent d d (setFirstDecl d d s))"

subsection \<open>Removing a declaration\<close>

text \<open>
  The two loops follow the links to the previous declaration; where such a loop would dereference
  a null pointer, or not end, its value is \<open>None\<close>.
\<close>

partial_function (option) find_successor :: "chains \<Rightarrow> decl \<Rightarrow> decl \<Rightarrow> decl option" where
  "find_successor s r d =
     (case getPreviousDecl s d of
        None \<Rightarrow> None
      | Some p \<Rightarrow> if p = r then Some d else find_successor s r p)"

declare find_successor.simps [code]

partial_function (option) set_firsts :: "decl \<Rightarrow> decl \<Rightarrow> chains \<Rightarrow> chains option" where
  "set_firsts f d s =
     (let s' = setFirstDecl d f s
      in case getPreviousDecl s' d of None \<Rightarrow> Some s' | Some p \<Rightarrow> set_firsts f p s')"

declare set_firsts.simps [code]

text \<open>
  The new state, and the most recent declaration that is left, which is the declaration itself when
  it was the only one. The last assignments take the declaration out of the chain for good.
\<close>

definition disconnect :: "decl \<Rightarrow> chains \<Rightarrow> chains" where
  "disconnect r s = setFirstDecl r r (setMostRecent r r s)"

definition unchain :: "decl \<Rightarrow> chains \<Rightarrow> (chains \<times> decl) option" where
  "unchain r s =
     (let f = getFirstDecl s r;
          recent = getMostRecentDecl s f
      in if f = recent then Some (disconnect r s, recent)
         else if r = recent then
           (case getPreviousDecl s recent of
              None \<Rightarrow> None
            | Some p \<Rightarrow> Some (disconnect r (setMostRecent f p s), p))
         else
           (case find_successor s r recent of
              None \<Rightarrow> None
            | Some d \<Rightarrow>
                if r = f then
                  map_option (\<lambda>s'. (disconnect r s', recent)) (set_firsts d recent (setMostRecent d recent s))
                else
                  (case getPreviousDecl s r of
                     None \<Rightarrow> None
                   | Some p \<Rightarrow> Some (disconnect r (setPrevious d p s), recent))))"

subsection \<open>What a chain is\<close>

text \<open>
  \<open>linked s p ds\<close>: every declaration of \<open>ds\<close> points to the one before it, the first one to \<open>p\<close>.
  \<open>chain s ds\<close>: the declarations \<open>ds\<close>, the oldest one first, form a chain.
\<close>

fun linked :: "chains \<Rightarrow> decl \<Rightarrow> decl list \<Rightarrow> bool" where
  "linked s p [] = True"
| "linked s p (d # ds) = (RedeclLink s d = Previous p \<and> linked s d ds)"

fun chain :: "chains \<Rightarrow> decl list \<Rightarrow> bool" where
  "chain s [] = False"
| "chain s (f # ds) \<longleftrightarrow> distinct (f # ds) \<and> (\<forall>d \<in> set (f # ds). First s d = f) \<and>
     \<not> NextIsPrevious (RedeclLink s f) \<and> getNextRedeclaration s f = last (f # ds) \<and> linked s f ds"

lemma linked_append: "linked s p (xs @ ys) \<longleftrightarrow> linked s p xs \<and> linked s (last (p # xs)) ys"
  by (induction xs arbitrary: p) auto

lemma linked_cong:
  "(\<And>d. d \<in> set ds \<Longrightarrow> RedeclLink s' d = RedeclLink s d) \<Longrightarrow> linked s p ds \<Longrightarrow> linked s' p ds"
  by (induction ds arbitrary: p) auto

lemma linked_First [simp]: "linked (s\<lparr>First := g\<rparr>) p ds = linked s p ds"
  by (induction ds arbitrary: p) auto

lemma getters_First [simp]:
  "getPreviousDecl (s\<lparr>First := g\<rparr>) d = getPreviousDecl s d"
  "getNextRedeclaration (s\<lparr>First := g\<rparr>) d = getNextRedeclaration s d"
  by (simp_all add: getPreviousDecl_def getNextRedeclaration_def)

lemma linked_fun_upd [simp]:
  "d \<notin> set ds \<Longrightarrow> linked (s\<lparr>RedeclLink := (RedeclLink s)(d := l)\<rparr>) p ds = linked s p ds"
  by (induction ds arbitrary: p) auto

lemma chain_distinct: "chain s ds \<Longrightarrow> distinct ds"
  by (cases ds) auto

text \<open>What \<open>unchain\<close> reads at the two ends of a chain.\<close>

lemma chain_ends:
  assumes "chain s (f # ds)" "d \<in> set (f # ds)"
  shows "getFirstDecl s d = f" "getMostRecentDecl s f = last (f # ds)" "getMostRecentDecl s d = last (f # ds)"
  using assms by (auto simp: getFirstDecl_def getMostRecentDecl_def)

lemma linked_previous:
  assumes "linked s p (xs @ [d])"
  shows "getPreviousDecl s d = Some (last (p # xs))"
  using assms by (simp add: linked_append getPreviousDecl_def getNextRedeclaration_def)

lemma linked_is_previous:
  assumes "linked s p ds" "distinct (p # ds)" "d \<in> set ds"
  shows "\<exists>q \<in> set (p # ds). q \<noteq> d \<and> RedeclLink s d = Previous q"
  using assms by (induction ds arbitrary: p) auto

lemma chain_isFirstDecl:
  assumes "chain s (f # ds)" "d \<in> set (f # ds)"
  shows "isFirstDecl s d \<longleftrightarrow> d = f"
  using assms linked_is_previous[of s f ds d] by (auto simp: isFirstDecl_def NextIsLatest_def)

lemma chain_getPreviousDecl:
  assumes "chain s (f # ds)" "d \<in> set ds"
  shows "\<exists>q \<in> set (f # ds). q \<noteq> d \<and> getPreviousDecl s d = Some q"
  using assms linked_is_previous[of s f ds d] by (auto simp: getPreviousDecl_def getNextRedeclaration_def)

lemmas link_defs = setFirstDecl_def setMostRecent_def setPrevious_def getPreviousDecl_def
  getNextRedeclaration_def getFirstDecl_def getMostRecentDecl_def disconnect_def

lemma find_successor_linked:
  assumes "linked s r (d # ds)" "distinct (r # d # ds)"
  shows "find_successor s r (last (d # ds)) = Some d"
  using assms
proof (induction ds rule: rev_induct)
  case Nil
  then show ?case
    by (subst find_successor.simps) (simp add: getPreviousDecl_def getNextRedeclaration_def)
next
  case (snoc x xs)
  have prev: "getPreviousDecl s x = Some (last (r # d # xs))"
    using linked_previous[of s r "d # xs" x] snoc.prems(1) by simp
  have "last (d # xs) \<noteq> r" using snoc.prems(2) last_in_set[of "d # xs"] by auto
  moreover have "find_successor s r (last (d # xs)) = Some d"
    using snoc.IH snoc.prems by (auto simp: linked_append)
  ultimately show ?case using prev by (subst find_successor.simps) simp
qed

lemma set_firsts_linked:
  assumes "linked s d ds" "\<not> NextIsPrevious (RedeclLink s d)" "distinct (d # ds)"
  shows "set_firsts f (last (d # ds)) s =
    Some (s\<lparr>First := (\<lambda>x. if x \<in> set (d # ds) then f else First s x)\<rparr>)"
  using assms
proof (induction ds arbitrary: s rule: rev_induct)
  case Nil
  then show ?case
    by (subst set_firsts.simps) (auto simp: Let_def link_defs fun_eq_iff intro!: chains.equality)
next
  case (snoc x xs)
  let ?s = "setFirstDecl x f s"
  have prev: "getPreviousDecl ?s x = Some (last (d # xs))"
    using linked_previous[OF snoc.prems(1)] by (simp add: setFirstDecl_def)
  have "linked ?s d xs" using snoc.prems(1) by (simp add: linked_append setFirstDecl_def)
  then have "set_firsts f (last (d # xs)) ?s =
      Some (?s\<lparr>First := (\<lambda>y. if y \<in> set (d # xs) then f else First ?s y)\<rparr>)"
    using snoc.IH[of ?s] snoc.prems by (simp add: setFirstDecl_def)
  then show ?case
    using prev by (subst set_firsts.simps) (auto simp: Let_def setFirstDecl_def fun_eq_iff intro!: chains.equality)
qed

subsection \<open>Removing a declaration takes it out of its chain\<close>

lemma unchain_only:
  assumes "chain s [r]"
  shows "unchain r s = Some (disconnect r s, r)"
  using assms by (simp add: unchain_def link_defs)

lemma unchain_recent:
  assumes "chain s (f # ds @ [r])"
  shows "unchain r s = Some (disconnect r (setMostRecent f (last (f # ds)) s), last (f # ds))"
  using assms linked_previous[of s f ds r] chain_ends(1,2)[OF assms, of r] by (simp add: unchain_def Let_def)

lemma unchain_first:
  assumes "chain s (r # d # ds)"
  shows "unchain r s = Some (disconnect r ((setMostRecent d (last (d # ds)) s)\<lparr>First :=
    (\<lambda>x. if x \<in> set (d # ds) then d else First s x)\<rparr>), last (d # ds))"
proof -
  let ?s = "setMostRecent d (last (d # ds)) s"
  have "linked ?s d ds" using assms by (simp add: setMostRecent_def)
  then have "set_firsts d (last (d # ds)) ?s = Some (?s\<lparr>First := (\<lambda>x. if x \<in> set (d # ds) then d else First s x)\<rparr>)"
    using set_firsts_linked[of ?s d ds d] chain_distinct[OF assms] by (simp add: setMostRecent_def cong: if_cong)
  moreover have "find_successor s r (last (d # ds)) = Some d"
    using assms by (intro find_successor_linked) auto
  moreover have "last (d # ds) \<noteq> r" using chain_distinct[OF assms] last_in_set[of "d # ds"] by auto
  ultimately show ?thesis
    using chain_ends(1,2)[OF assms, of r] by (simp add: unchain_def Let_def setMostRecent_def last_ConsR[of "d # ds"] del: last.simps)
qed

lemma unchain_middle:
  assumes "chain s (f # ps @ r # d # ds)"
  shows "unchain r s = Some (disconnect r (setPrevious d (last (f # ps)) s), last (d # ds))"
proof -
  have "linked s r (d # ds)" "distinct (r # d # ds)" using assms by (simp_all add: linked_append)
  then have "find_successor s r (last (d # ds)) = Some d" by (rule find_successor_linked)
  moreover have "getPreviousDecl s r = Some (last (f # ps))"
    using assms linked_previous[of s f ps r] by (simp add: linked_append)
  moreover have "last (d # ds) \<noteq> r" "last (d # ds) \<noteq> f" "r \<noteq> f"
    using chain_distinct[OF assms] last_in_set[of "d # ds"] by auto
  ultimately show ?thesis
    using chain_ends(1,2)[OF assms, of r] last_appendR[of "r # d # ds" "f # ps"]
    by (simp add: unchain_def Let_def last_ConsR[of "d # ds"] del: last.simps)
qed


lemma chain_disconnect:
  assumes "r \<notin> set ds" "chain s ds"
  shows "chain (disconnect r s) ds"
proof (cases ds)
  case (Cons f fs)
  then show ?thesis using assms by (auto simp: link_defs)
qed (use assms in simp)

lemma chain_disconnected: "chain (disconnect r s) [r]"
  by (simp add: link_defs)

lemma chain_drop_last:
  assumes "chain s (f # ds @ [r])"
  shows "chain (setMostRecent f (last (f # ds)) s) (f # ds)"
  using assms by (auto simp: link_defs linked_append)

lemma chain_drop_first:
  assumes "chain s (r # d # ds)"
  shows "chain ((setMostRecent d (last (d # ds)) s)\<lparr>First := (\<lambda>x. if x \<in> set (d # ds) then d else First s x)\<rparr>) (d # ds)"
  using assms by (auto simp: link_defs)

lemma chain_drop_middle:
  assumes "chain s (f # ps @ r # d # ds)"
  shows "chain (setPrevious d (last (f # ps)) s) (f # ps @ d # ds)"
  using assms by (auto simp: link_defs linked_append)

lemma unchain_removes_chain:
  assumes "chain s ds" "r \<in> set ds"
  shows "\<exists>s' recent. unchain r s = Some (s', recent) \<and> chain s' [r] \<and>
    (if ds = [r] then recent = r else chain s' (remove1 r ds) \<and> recent = last (remove1 r ds)) \<and>
    (\<forall>d. d \<notin> set ds \<longrightarrow> RedeclLink s' d = RedeclLink s d \<and> First s' d = First s d)"
proof -
  obtain ps qs where ds: "ds = ps @ r # qs" "r \<notin> set ps" "r \<notin> set qs"
    using assms chain_distinct[OF assms(1)] by (metis split_list distinct_append distinct.simps(2) disjoint_insert(1) list.simps(15))
  then have remove: "remove1 r ds = ps @ qs" by (simp add: remove1_append)
  show ?thesis
  proof (cases "ps = []")
    case True
    show ?thesis
    proof (cases qs)
      case Nil
      then show ?thesis using assms ds True unchain_only[of s r] chain_disconnected[of r s]
        by (auto simp: link_defs)
    next
      case (Cons d qs')
      let ?s = "(setMostRecent d (last (d # qs')) s)\<lparr>First := (\<lambda>x. if x \<in> set (d # qs') then d else First s x)\<rparr>"
      have c: "chain s (r # d # qs')" using assms ds True Cons by simp
      have "chain (disconnect r ?s) (d # qs')" using ds Cons chain_disconnect[OF _ chain_drop_first[OF c], of r] by (simp del: chain.simps)
      then show ?thesis
        using unchain_first[OF c] chain_disconnected[of r ?s] ds True Cons remove
        by (auto simp: setMostRecent_def disconnect_def setFirstDecl_def)
    qed
  next
    case False
    then obtain f ps' where ps: "ps = f # ps'" by (cases ps) auto
    show ?thesis
    proof (cases qs)
      case Nil
      let ?s = "setMostRecent f (last (f # ps')) s"
      have c: "chain s (f # ps' @ [r])" using assms ds ps Nil by simp
      have "chain (disconnect r ?s) (f # ps')" using ds ps chain_disconnect[OF _ chain_drop_last[OF c], of r] by (simp del: chain.simps)
      then show ?thesis
        using unchain_recent[OF c] chain_disconnected[of r ?s] ds ps Nil remove
        by (auto simp: setMostRecent_def disconnect_def setFirstDecl_def)
    next
      case (Cons d qs')
      let ?s = "setPrevious d (last (f # ps')) s"
      have c: "chain s (f # ps' @ r # d # qs')" using assms ds ps Cons by simp
      have "chain (disconnect r ?s) (f # ps' @ d # qs')"
        using ds ps Cons chain_disconnect[OF _ chain_drop_middle[OF c], of r] by (simp del: chain.simps)
      then show ?thesis
        using unchain_middle[OF c] chain_disconnected[of r ?s] ds ps Cons remove
        by (auto simp: setPrevious_def setMostRecent_def disconnect_def setFirstDecl_def)
    qed
  qed
qed

text \<open>
  C26 (refinement): Unloading a declaration takes it out of its chain: the others form the chain
  they formed without it, with its first and most recent declaration up to date in all of them,
  wherever it was in the chain, the removed one is a chain of its own, and no other declaration is
  touched. The loops end and never follow a null pointer.
\<close>

theorem unchain_removes:
  assumes "chain s ds" "r \<in> set ds"
  shows "\<exists>s' recent. unchain r s = Some (s', recent) \<and> chain s' [r] \<and>
    (if ds = [r] then recent = r else chain s' (remove1 r ds) \<and> recent = last (remove1 r ds)) \<and>
    (\<forall>d. d \<notin> set ds \<longrightarrow> RedeclLink s' d = RedeclLink s d \<and> First s' d = First s d)"
  by (rule unchain_removes_chain[OF assms])


theorem unchain_removes_witness:
  "\<exists>s' recent. unchain 1 (setPreviousDecl 3 (Some 1) (setPreviousDecl 2 (Some 1)
      \<lparr>RedeclLink = \<lambda>_. UninitializedLatest, First = \<lambda>d. d\<rparr>)) = Some (s', recent) \<and> recent = 3 \<and>
    chain s' [2, 3] \<and> chain s' [1]"
proof -
  let ?s = "setPreviousDecl 3 (Some 1) (setPreviousDecl 2 (Some 1)
      \<lparr>RedeclLink = \<lambda>_. UninitializedLatest, First = \<lambda>d. d\<rparr>)"
  have "chain ?s [1, 2, 3]" by (simp add: setPreviousDecl_def link_defs)
  then show ?thesis using unchain_removes[of ?s "[1, 2, 3]" 1] by (auto simp del: chain.simps)
qed

subsection \<open>The redeclaration that stays\<close>

text \<open>
  \<^verbatim>\<open>nonUser\<close> of \<^verbatim>\<open>tools/zapccs/Unloader.h\<close>: from the most recent declaration of the chain back to the
  first one, the last declaration that is neither the given one nor unloaded.
\<close>

partial_function (option) nonUser_from :: "decl \<Rightarrow> decl \<Rightarrow> decl option \<Rightarrow> decl list \<Rightarrow> chains \<Rightarrow> decl option option" where
  "nonUser_from d r best unloaded s =
     (let best' = (if r \<noteq> d \<and> r \<notin> set unloaded then Some r else best)
      in case getPreviousDecl s r of None \<Rightarrow> Some best' | Some p \<Rightarrow> nonUser_from d p best' unloaded s)"

declare nonUser_from.simps [code]

definition nonUserDecl :: "decl \<Rightarrow> decl list \<Rightarrow> chains \<Rightarrow> decl option option" where
  "nonUserDecl d unloaded s = nonUser_from d (getMostRecentDecl s d) None unloaded s"

lemma nonUser_from_linked:
  assumes "linked s f ds" "\<not> NextIsPrevious (RedeclLink s f)"
  shows "nonUser_from d (last (f # ds)) best unloaded s =
    Some (case List.find (\<lambda>r. r \<noteq> d \<and> r \<notin> set unloaded) (f # ds) of None \<Rightarrow> best | Some r \<Rightarrow> Some r)"
  using assms
proof (induction ds arbitrary: best rule: rev_induct)
  case Nil
  then show ?case by (subst nonUser_from.simps) (auto simp: getPreviousDecl_def Let_def)
next
  case (snoc x xs)
  have find: "List.find P (xs @ [x]) = (case List.find P xs of None \<Rightarrow> if P x then Some x else None | Some y \<Rightarrow> Some y)" for P
    by (induction xs) auto
  have "getPreviousDecl s x = Some (last (f # xs))" using linked_previous[OF snoc.prems(1)] .
  moreover have "linked s f xs" using snoc.prems(1) by (simp add: linked_append)
  ultimately show ?case
    using snoc.IH snoc.prems(2) by (subst nonUser_from.simps) (auto simp: Let_def find split: option.split)
qed

text \<open>The replacement is the oldest redeclaration that stays.\<close>

lemma nonUserDecl_oldest:
  assumes "chain s ds" "d \<in> set ds"
  shows "nonUserDecl d unloaded s = Some (List.find (\<lambda>r. r \<noteq> d \<and> r \<notin> set unloaded) ds)"
proof -
  obtain f fs where ds: "ds = f # fs" using assms(2) by (cases ds) auto
  have "getMostRecentDecl s d = last (f # fs)" using chain_ends(3) assms ds by simp
  moreover have "linked s f fs" "\<not> NextIsPrevious (RedeclLink s f)" using assms(1) ds by auto
  ultimately show ?thesis
    using nonUser_from_linked[of s f fs d None unloaded] ds
    by (simp add: nonUserDecl_def del: last.simps List.find.simps split: option.split)
qed

lemma find_survivor: "List.find P xs = Some r \<Longrightarrow> r \<in> set xs \<and> P r"
  by (induction xs) (auto split: if_splits)

subsection \<open>Building a chain, and removing all unloaded declarations\<close>

lemma chain_new: "chain (new_redeclarable d s) [d]"
  by (simp add: new_redeclarable_def getNextRedeclaration_def)

lemma chain_setPreviousDecl:
  assumes "chain s ds" "p \<in> set ds" "d \<notin> set ds"
  shows "chain (setPreviousDecl d (Some p) s) (ds @ [d])"
proof -
  obtain f ds' where ds: "ds = f # ds'" using assms(2) by (cases ds) auto
  have "getFirstDecl s p = f" using chain_ends(1)[of s f ds' p] assms(1,2) ds by simp
  moreover have "getNextRedeclaration s f = last (f # ds')" using assms(1) ds by simp
  ultimately have new: "setPreviousDecl d (Some p) s = setMostRecent f d (setPrevious d (last (f # ds')) (setFirstDecl d f s))"
    by (simp add: setPreviousDecl_def setFirstDecl_def del: last.simps)
  have "d \<noteq> f" "d \<notin> set ds'" using assms(3) ds by auto
  then show ?thesis
    using assms(1) unfolding new ds
    by (auto simp: setFirstDecl_def setPrevious_def setMostRecent_def getNextRedeclaration_def linked_append
        intro!: linked_cong[where s = s and ds = ds'])
qed

interpretation chain_members: member_removal chain "\<lambda>r s. map_option fst (unchain r s)" 1
proof unfold_locales
  fix s ds r
  assume *: "chain s ds" "r \<in> set ds" "1 < length ds"
  then have "ds \<noteq> [r]" by auto
  then show "\<exists>s'. map_option fst (unchain r s) = Some s' \<and> chain s' (remove1 r ds)"
    using unchain_removes_chain[OF *(1,2)] by (auto simp del: chain.simps)
qed (rule chain_distinct)

text \<open>As long as one declaration of a chain stays, any others can be unloaded, in any order.\<close>

lemma unchain_all_keeps:
  assumes "chain s ds" "distinct rs" "set rs \<subset> set ds"
  shows "\<exists>s'. remove_all (\<lambda>r s. map_option fst (unchain r s)) rs s = Some s' \<and>
    chain s' (filter (\<lambda>d. d \<notin> set rs) ds)"
proof (rule chain_members.remove_all_keeps[OF assms(1,2)])
  have "card (set rs) < card (set ds)" using assms(3) by (intro psubset_card_mono) auto
  then show "1 + length rs \<le> length ds" using assms(2) chain_distinct[OF assms(1)] by (simp add: distinct_card)
qed (use assms(3) in blast)

end
