(* ===== verification/DeclLists.thy ===== *)
theory DeclLists
  imports RedeclChains
begin

text \<open>
  The lists of declarations of a context: the linked lists of \<^verbatim>\<open>clang/lib/AST/DeclBase.cpp\<close> in a
  store of pointers, and \<^verbatim>\<open>unloadDeclContexts\<close> of \<^verbatim>\<open>tools/zapccs/Unloader.cpp\<close>, which removes all
  unloaded declarations in one pass over every context.
\<close>

text \<open>
  The next declaration of a context, the lexical context of a declaration, the first and the last
  declaration of a context, and the bit of a declaration that the removal uses as a mark.
\<close>

record decl_lists =
  NextInContext :: "decl \<Rightarrow> decl option"
  LexicalContext :: "decl \<Rightarrow> context_id option"
  FirstDecl :: "context_id \<Rightarrow> decl option"
  LastDecl :: "context_id \<Rightarrow> decl option"
  TopLevelInObjC :: "decl \<Rightarrow> bool"

definition setNextDeclInContext :: "decl \<Rightarrow> decl option \<Rightarrow> decl_lists \<Rightarrow> decl_lists" where
  "setNextDeclInContext d n s = s\<lparr>NextInContext := (NextInContext s)(d := n)\<rparr>"

text \<open>Adding a declaration at the end. An empty context has no first declaration.\<close>

definition addHiddenDecl :: "decl \<Rightarrow> context_id \<Rightarrow> decl_lists \<Rightarrow> decl_lists option" where
  "addHiddenDecl d c s =
     (case FirstDecl s c of
        Some f \<Rightarrow>
          (case LastDecl s c of
             None \<Rightarrow> None
           | Some l \<Rightarrow> Some ((setNextDeclInContext l (Some d) s)\<lparr>LastDecl := (LastDecl s)(c := Some d)\<rparr>))
      | None \<Rightarrow> Some (s\<lparr>FirstDecl := (FirstDecl s)(c := Some d), LastDecl := (LastDecl s)(c := Some d)\<rparr>))"

text \<open>
  The removal of one declaration in clang: the predecessor is searched from the first declaration.
\<close>

partial_function (option) find_predecessor :: "decl_lists \<Rightarrow> decl \<Rightarrow> decl \<Rightarrow> decl option" where
  "find_predecessor s d i =
     (if NextInContext s i = Some d then Some i
      else case NextInContext s i of None \<Rightarrow> None | Some n \<Rightarrow> find_predecessor s d n)"

declare find_predecessor.simps [code]

definition removeDecl :: "decl \<Rightarrow> context_id \<Rightarrow> decl_lists \<Rightarrow> decl_lists option" where
  "removeDecl d c s =
     map_option (setNextDeclInContext d None)
       (if FirstDecl s c = Some d then
          Some (if LastDecl s c = Some d
                then s\<lparr>FirstDecl := (FirstDecl s)(c := None), LastDecl := (LastDecl s)(c := None)\<rparr>
                else s\<lparr>FirstDecl := (FirstDecl s)(c := NextInContext s d)\<rparr>)
        else
          (case FirstDecl s c of
             None \<Rightarrow> None
           | Some f \<Rightarrow>
               (case find_predecessor s d f of
                  None \<Rightarrow> None
                | Some i \<Rightarrow>
                    (let s' = setNextDeclInContext i (NextInContext s d) s
                     in Some (if LastDecl s c = Some d then s'\<lparr>LastDecl := (LastDecl s)(c := Some i)\<rparr> else s')))))"

subsection \<open>Removing all unloaded declarations\<close>

text \<open>
  The loop over the list of a context: the state, the first declaration, the previous one that is
  kept, the current node. Following the null pointer \<^verbatim>\<open>Prev\<close> is the \<open>None\<close> of the inner case.
\<close>

partial_function (option) sweep ::
  "decl option \<Rightarrow> decl option \<Rightarrow> decl option \<Rightarrow> decl_lists \<Rightarrow> (decl_lists \<times> decl option \<times> decl option) option"
where
  "sweep first prev node s =
     (case node of
        None \<Rightarrow> Some (s, first, prev)
      | Some n \<Rightarrow>
          (let nx = NextInContext s n
           in if TopLevelInObjC s n then
                (if node = first then sweep nx prev nx (setNextDeclInContext n None s)
                 else (case prev of
                         None \<Rightarrow> None
                       | Some p \<Rightarrow>
                           sweep first prev nx (setNextDeclInContext n None (setNextDeclInContext p nx s))))
              else sweep first node nx s))"

declare sweep.simps [code]

definition sweep_context :: "context_id \<Rightarrow> decl_lists \<Rightarrow> decl_lists option" where
  "sweep_context c s =
     (case sweep (FirstDecl s c) None (FirstDecl s c) s of
        None \<Rightarrow> None
      | Some (s', f, p) \<Rightarrow> Some (s'\<lparr>FirstDecl := (FirstDecl s')(c := f), LastDecl := (LastDecl s')(c := p)\<rparr>))"

definition collect_contexts :: "context_id \<Rightarrow> decl list \<Rightarrow> decl_lists \<Rightarrow> context_id list" where
  "collect_contexts ext visited s =
     fold (\<lambda>d dcs. case LexicalContext s d of None \<Rightarrow> dcs | Some c \<Rightarrow> set_add c dcs) visited [ext]"

definition mark_unloaded :: "decl list \<Rightarrow> decl_lists \<Rightarrow> decl_lists" where
  "mark_unloaded visited s = s\<lparr>TopLevelInObjC := (\<lambda>d. d \<in> set visited \<or> TopLevelInObjC s d)\<rparr>"

fun sweep_contexts :: "context_id list \<Rightarrow> decl_lists \<Rightarrow> decl_lists option" where
  "sweep_contexts [] s = Some s"
| "sweep_contexts (c # cs) s = (case sweep_context c s of None \<Rightarrow> None | Some s' \<Rightarrow> sweep_contexts cs s')"

definition unloadDeclContexts :: "context_id \<Rightarrow> decl list \<Rightarrow> decl_lists \<Rightarrow> decl_lists option" where
  "unloadDeclContexts ext visited s =
     sweep_contexts (collect_contexts ext visited s) (mark_unloaded visited s)"

subsection \<open>What the list of a context is\<close>

definition last_of :: "decl list \<Rightarrow> decl option" where
  "last_of ds = (if ds = [] then None else Some (last ds))"

definition decl_list :: "decl_lists \<Rightarrow> context_id \<Rightarrow> decl list \<Rightarrow> bool" where
  "decl_list s c ds \<longleftrightarrow> list_path (NextInContext s) (FirstDecl s c) ds None \<and> LastDecl s c = last_of ds \<and> distinct ds"

lemma last_of_simps [simp]: "last_of [] = None" "last_of (xs @ [d]) = Some d"
  by (simp_all add: last_of_def)


subsection \<open>One context\<close>

text \<open>
  The loop with the kept declarations \<open>ks\<close> behind it and \<open>rs\<close> before it. It changes nothing but the
  links of these.
\<close>

abbreviation kept :: "decl_lists \<Rightarrow> decl list \<Rightarrow> decl list" where
  "kept s ds \<equiv> filter (\<lambda>d. \<not> TopLevelInObjC s d) ds"

definition swept :: "decl_lists \<Rightarrow> decl_lists \<Rightarrow> decl list \<Rightarrow> bool" where
  "swept s s' ds \<longleftrightarrow> s' = s\<lparr>NextInContext := NextInContext s'\<rparr> \<and>
     (\<forall>d. d \<notin> set ds \<longrightarrow> NextInContext s' d = NextInContext s d)"

lemma swept_trans:
  assumes "swept s s1 ds" "swept s1 s2 ds'" "set ds' \<subseteq> set ds"
  shows "swept s s2 ds"
proof -
  have "s2 = s1\<lparr>NextInContext := NextInContext s2\<rparr>" "s1 = s\<lparr>NextInContext := NextInContext s1\<rparr>"
    using assms(1,2) by (simp_all add: swept_def)
  then have "s2 = s\<lparr>NextInContext := NextInContext s2\<rparr>" by (metis decl_lists.surjective decl_lists.update_convs(1))
  then show ?thesis using assms by (auto simp: swept_def)
qed

lemma swept_fields:
  "swept s s' ds \<Longrightarrow> TopLevelInObjC s' = TopLevelInObjC s \<and> FirstDecl s' = FirstDecl s \<and>
    LastDecl s' = LastDecl s \<and> LexicalContext s' = LexicalContext s"
  unfolding swept_def by (metis decl_lists.select_convs(2-5) decl_lists.surjective decl_lists.update_convs(1))

text \<open>The step over a marked declaration.\<close>

lemma sweep_marked:
  assumes "\<exists>s' f. r = Some (s', f, last_of (ks @ kept s1 rs)) \<and> list_path (NextInContext s') f (ks @ kept s1 rs) None \<and>
      swept s1 s' (ks @ rs) \<and> (\<forall>d \<in> set rs. TopLevelInObjC s1 d \<longrightarrow> NextInContext s' d = None)"
    "swept s s1 (ks @ n # rs)" "NextInContext s1 n = None" "n \<notin> set (ks @ rs)" "TopLevelInObjC s n"
  shows "\<exists>s' f. r = Some (s', f, last_of (ks @ kept s (n # rs))) \<and>
    list_path (NextInContext s') f (ks @ kept s (n # rs)) None \<and> swept s s' (ks @ n # rs) \<and>
    (\<forall>d \<in> set (n # rs). TopLevelInObjC s d \<longrightarrow> NextInContext s' d = None)"
proof -
  have "TopLevelInObjC s1 = TopLevelInObjC s" using swept_fields[OF assms(2)] by simp
  with assms(1) obtain s' f where s': "r = Some (s', f, last_of (ks @ kept s rs))"
    "list_path (NextInContext s') f (ks @ kept s rs) None" "swept s1 s' (ks @ rs)"
    "\<forall>d \<in> set rs. TopLevelInObjC s d \<longrightarrow> NextInContext s' d = None" by auto
  moreover have "swept s s' (ks @ n # rs)" by (rule swept_trans[OF assms(2) s'(3)]) auto
  moreover have "NextInContext s' n = None" using s'(3) assms(3,4) by (simp add: swept_def)
  ultimately show ?thesis using assms(5) by auto
qed

lemma sweep_list:
  assumes "list_path (NextInContext s) first ks node" "list_path (NextInContext s) node rs None"
    "distinct (ks @ rs)" "\<forall>k \<in> set ks. \<not> TopLevelInObjC s k"
  shows "\<exists>s' f. sweep first (last_of ks) node s = Some (s', f, last_of (ks @ kept s rs)) \<and>
    list_path (NextInContext s') f (ks @ kept s rs) None \<and> swept s s' (ks @ rs) \<and>
    (\<forall>d \<in> set rs. TopLevelInObjC s d \<longrightarrow> NextInContext s' d = None)"
  using assms
proof (induction rs arbitrary: ks first node s)
  case Nil
  then have "sweep first (last_of ks) node s = Some (s, first, last_of ks)" by (subst sweep.simps) simp
  then show ?case using Nil.prems by (auto simp: swept_def)
next
  case (Cons n rs)
  let ?nx = "NextInContext s n"
  have node: "node = Some n" "list_path (NextInContext s) ?nx rs None" using Cons.prems(2) by auto
  show ?case
  proof (cases "TopLevelInObjC s n")
    case False
    have "sweep first (last_of ks) node s = sweep first (last_of (ks @ [n])) ?nx s"
      using node(1) False by (subst sweep.simps) simp
    moreover have "list_path (NextInContext s) first (ks @ [n]) ?nx" using Cons.prems(1) node(1) by (simp add: path_snoc)
    ultimately show ?thesis
      using Cons.IH[of s first "ks @ [n]" ?nx] Cons.prems(3,4) node(2) False by auto
  next
    case marked: True
    show ?thesis
    proof (cases ks rule: rev_cases)
      case Nil
      define s1 where "s1 = setNextDeclInContext n None s"
      have "sweep first (last_of ks) node s = sweep ?nx (last_of []) ?nx s1"
        using Cons.prems(1) node(1) marked Nil by (subst sweep.simps) (simp add: Let_def s1_def)
      moreover have s1: "list_path (NextInContext s1) ?nx rs None" "swept s s1 ([] @ n # rs)" "NextInContext s1 n = None"
        using node(2) Cons.prems(3) by (simp_all add: swept_def setNextDeclInContext_def s1_def)
      moreover have "list_path (NextInContext s1) ?nx [] ?nx" by simp
      note sweep_marked[OF Cons.IH[OF this s1(1)] s1(2,3) _ marked]
      ultimately show ?thesis using Cons.prems(3) Nil by simp
    next
      case (snoc ks' p)
      define s1 where "s1 = setNextDeclInContext n None (setNextDeclInContext p ?nx s)"
      have "first \<noteq> node" using Cons.prems(1,3) node(1) snoc by (cases ks') auto
      then have "sweep first (last_of ks) node s = sweep first (last_of ks) ?nx s1"
        using node(1) marked snoc by (subst sweep.simps) (simp add: Let_def s1_def)
      moreover have s1: "list_path (NextInContext s1) first ks ?nx" "list_path (NextInContext s1) ?nx rs None"
          "swept s s1 (ks @ n # rs)" "NextInContext s1 n = None"
        using node(2) Cons.prems(1,3) snoc by (auto simp: setNextDeclInContext_def path_snoc swept_def s1_def)
      moreover have "\<forall>k \<in> set ks. \<not> TopLevelInObjC s1 k" using Cons.prems(4) swept_fields[OF s1(3)] by simp
      note sweep_marked[OF Cons.IH[OF s1(1,2) _ this] s1(3,4) _ marked]
      ultimately show ?thesis using Cons.prems(3) by simp
    qed
  qed
qed


subsection \<open>All contexts\<close>

text \<open>
  The lists of all contexts: every declaration of a list has the context as its lexical context, so
  the lists are disjoint.
\<close>

definition lists_ok :: "decl_lists \<Rightarrow> (context_id \<Rightarrow> decl list) \<Rightarrow> bool" where
  "lists_ok s members \<longleftrightarrow>
     (\<forall>c. decl_list s c (members c) \<and> (\<forall>d \<in> set (members c). LexicalContext s d = Some c))"

text \<open>
  \<open>removed s s' ds\<close>: of the links only those of the declarations \<open>ds\<close> have changed, and among these
  the marked ones point to nothing; the marks and the lexical contexts are as they were.
\<close>

definition removed :: "decl_lists \<Rightarrow> decl_lists \<Rightarrow> decl set \<Rightarrow> bool" where
  "removed s s' ds \<longleftrightarrow> TopLevelInObjC s' = TopLevelInObjC s \<and> LexicalContext s' = LexicalContext s \<and>
     (\<forall>d. d \<notin> ds \<longrightarrow> NextInContext s' d = NextInContext s d) \<and>
     (\<forall>d \<in> ds. TopLevelInObjC s d \<longrightarrow> NextInContext s' d = None)"

lemma sweep_context_ok:
  assumes "lists_ok s members"
  shows "\<exists>s'. sweep_context c s = Some s' \<and> lists_ok s' (members(c := kept s (members c))) \<and>
    removed s s' (set (members c))"
proof -
  have "decl_list s c (members c)" using assms by (simp add: lists_ok_def)
  then obtain s1 f where s1: "sweep (FirstDecl s c) None (FirstDecl s c) s = Some (s1, f, last_of (kept s (members c)))"
    "list_path (NextInContext s1) f (kept s (members c)) None" "swept s s1 (members c)"
    "\<forall>d \<in> set (members c). TopLevelInObjC s d \<longrightarrow> NextInContext s1 d = None"
    using sweep_list[of s "FirstDecl s c" "[]" "FirstDecl s c" "members c"] by (auto simp: decl_list_def)
  note same = swept_fields[OF s1(3)]
  have "decl_list s1 c' (members c')" if "c' \<noteq> c" for c'
  proof -
    have "NextInContext s1 d = NextInContext s d" if "d \<in> set (members c')" for d
      using assms s1(3) that \<open>c' \<noteq> c\<close> by (metis lists_ok_def option.inject swept_def)
    then show ?thesis
      using assms same path_cong[of "members c'" "NextInContext s1"] by (auto simp: lists_ok_def decl_list_def)
  qed
  then show ?thesis
    using assms s1 same by (auto simp: sweep_context_def lists_ok_def decl_list_def removed_def swept_def)
qed

lemma sweep_contexts_ok:
  assumes "lists_ok s members" "distinct cs"
  shows "\<exists>s'. sweep_contexts cs s = Some s' \<and>
    lists_ok s' (\<lambda>c. if c \<in> set cs then kept s (members c) else members c) \<and>
    removed s s' (\<Union>c \<in> set cs. set (members c))"
  using assms
proof (induction cs arbitrary: s members)
  case Nil
  then show ?case by (simp add: removed_def)
next
  case (Cons c cs)
  obtain s1 where s1: "sweep_context c s = Some s1" "lists_ok s1 (members(c := kept s (members c)))"
    "removed s s1 (set (members c))"
    using sweep_context_ok[OF Cons.prems(1)] by auto
  let ?m = "members(c := kept s (members c))"
  obtain s2 where s2: "sweep_contexts cs s1 = Some s2"
    "lists_ok s2 (\<lambda>c. if c \<in> set cs then kept s1 (?m c) else ?m c)" "removed s1 s2 (\<Union>c \<in> set cs. set (?m c))"
    using Cons.IH[OF s1(2)] Cons.prems(2) by auto
  have lists: "(if c' \<in> set cs then kept s1 (?m c') else ?m c') =
      (if c' \<in> set (c # cs) then kept s (members c') else members c')" for c'
    using s1(3) Cons.prems(2) by (auto simp: removed_def)
  have others: "(\<Union>c \<in> set cs. set (?m c)) = (\<Union>c \<in> set cs. set (members c))"
    by (intro SUP_cong refl) (use Cons.prems(2) in auto)
  have disjoint: "d \<notin> set (members c')" if "d \<in> set (members c)" "c' \<in> set cs" for d c'
    using that Cons.prems by (auto simp: lists_ok_def) (metis option.inject)
  have "removed s s2 (\<Union>c \<in> set (c # cs). set (members c))"
    using s1(3) s2(3) disjoint unfolding others removed_def by fastforce
  then show ?case using s1(1) s2(1,2) unfolding lists by auto
qed

lemma collect_contexts_set:
  "set (collect_contexts ext visited s) = insert ext {c. \<exists>d \<in> set visited. LexicalContext s d = Some c} \<and>
    distinct (collect_contexts ext visited s)"
proof -
  have "set (fold (\<lambda>d dcs. case LexicalContext s d of None \<Rightarrow> dcs | Some c \<Rightarrow> set_add c dcs) visited dcs) =
      set dcs \<union> {c. \<exists>d \<in> set visited. LexicalContext s d = Some c} \<and>
      (distinct dcs \<longrightarrow> distinct (fold (\<lambda>d dcs. case LexicalContext s d of None \<Rightarrow> dcs | Some c \<Rightarrow> set_add c dcs) visited dcs))"
    for dcs
  proof (induction visited arbitrary: dcs)
    case (Cons d ds)
    then show ?case by (cases "LexicalContext s d") (auto simp: Cons.IH)
  qed simp
  then show ?thesis by (auto simp: collect_contexts_def)
qed

lemma unloadDeclContexts_ok:
  assumes "lists_ok s members" "\<forall>c. \<forall>d \<in> set (members c). \<not> TopLevelInObjC s d"
  shows "\<exists>s'. unloadDeclContexts ext visited s = Some s' \<and>
    lists_ok s' (\<lambda>c. filter (\<lambda>d. d \<notin> set visited) (members c)) \<and>
    (\<forall>d. d \<notin> (\<Union>c. set (members c)) \<longrightarrow> NextInContext s' d = NextInContext s d) \<and>
    (\<forall>c. \<forall>d \<in> set (members c) \<inter> set visited. NextInContext s' d = None) \<and> LexicalContext s' = LexicalContext s"
proof -
  let ?s = "mark_unloaded visited s" and ?cs = "collect_contexts ext visited s"
  have "lists_ok ?s members" using assms(1) by (simp add: lists_ok_def decl_list_def mark_unloaded_def)
  moreover have "distinct ?cs" using collect_contexts_set[of ext visited s] by simp
  ultimately obtain s' where s': "sweep_contexts ?cs ?s = Some s'"
    "lists_ok s' (\<lambda>c. if c \<in> set ?cs then kept ?s (members c) else members c)"
    "removed ?s s' (\<Union>c \<in> set ?cs. set (members c))"
    using sweep_contexts_ok[of ?s members ?cs] by blast
  have visited: "c \<in> set ?cs" if "d \<in> set (members c)" "d \<in> set visited" for c d
    using that assms(1) collect_contexts_set[of ext visited s] by (auto simp: lists_ok_def)
  have "(if c \<in> set ?cs then kept ?s (members c) else members c) = filter (\<lambda>d. d \<notin> set visited) (members c)" for c
  proof (cases "c \<in> set ?cs")
    case True
    have "kept ?s (members c) = filter (\<lambda>d. d \<notin> set visited) (members c)"
      using assms(2) by (intro filter_cong) (auto simp: mark_unloaded_def)
    with True show ?thesis by simp
  next
    case False
    then have "filter (\<lambda>d. d \<notin> set visited) (members c) = members c" using visited by (intro filter_True) blast
    with False show ?thesis by simp
  qed
  then have lists: "lists_ok s' (\<lambda>c. filter (\<lambda>d. d \<notin> set visited) (members c))" using s'(2) by simp
  have rest: "NextInContext s' d = NextInContext s d" if "d \<notin> (\<Union>c. set (members c))" for d
    using s'(3) that by (auto simp: removed_def mark_unloaded_def)
  have "NextInContext s' d = None" if "d \<in> set (members c)" "d \<in> set visited" for c d
    using s'(3) that visited[OF that] by (auto simp: removed_def mark_unloaded_def)
  moreover have "LexicalContext s' = LexicalContext s" using s'(3) by (simp add: removed_def mark_unloaded_def)
  ultimately show ?thesis using s'(1) lists rest by (auto simp: unloadDeclContexts_def)
qed


subsection \<open>The removal of clang, one declaration after the other\<close>

definition containsDecl :: "decl_lists \<Rightarrow> context_id \<Rightarrow> decl \<Rightarrow> bool" where
  "containsDecl s c d \<longleftrightarrow> LexicalContext s d = Some c \<and> (NextInContext s d \<noteq> None \<or> LastDecl s c = Some d)"

fun remove_each :: "decl list \<Rightarrow> decl_lists \<Rightarrow> decl_lists option" where
  "remove_each [] s = Some s"
| "remove_each (d # ds) s =
     (case LexicalContext s d of
        None \<Rightarrow> remove_each ds s
      | Some c \<Rightarrow>
          if containsDecl s c d
          then (case removeDecl d c s of None \<Rightarrow> None | Some s' \<Rightarrow> remove_each ds s')
          else remove_each ds s)"

lemma find_predecessor_path:
  assumes "list_path (NextInContext s) (Some f) (ps @ [i]) (Some d)" "d \<notin> set (ps @ [i])"
  shows "find_predecessor s d f = Some i"
  using assms
proof (induction ps arbitrary: f)
  case Nil
  then show ?case by (subst find_predecessor.simps) auto
next
  case (Cons p ps)
  have "f = p" using Cons.prems(1) by simp
  obtain n where n: "NextInContext s p = Some n" "n = hd (ps @ [i])" using Cons.prems(1) by (cases ps) auto
  moreover have "n \<noteq> d" using Cons.prems(2) n(2) by (cases ps) auto
  ultimately show ?case
    using Cons.IH[of n] Cons.prems \<open>f = p\<close> by (subst find_predecessor.simps) auto
qed

lemma decl_list_remove:
  assumes "decl_list s c ds" "d \<in> set ds"
  shows "\<exists>s'. removeDecl d c s = Some s' \<and> decl_list s' c (remove1 d ds) \<and> NextInContext s' d = None \<and>
    (\<forall>x. x \<notin> set ds \<longrightarrow> NextInContext s' x = NextInContext s x) \<and> TopLevelInObjC s' = TopLevelInObjC s \<and>
    LexicalContext s' = LexicalContext s \<and> (\<forall>c'. c' \<noteq> c \<longrightarrow> FirstDecl s' c' = FirstDecl s c' \<and> LastDecl s' c' = LastDecl s c')"
proof -
  obtain ps qs where "ds = ps @ d # qs" using split_list[OF assms(2)] by blast
  moreover have "distinct ds" using assms(1) by (simp add: decl_list_def)
  ultimately have ds: "ds = ps @ d # qs" "d \<notin> set ps" "d \<notin> set qs" by auto
  then have remove: "remove1 d ds = ps @ qs" by (simp add: remove1_append)
  have p: "list_path (NextInContext s) (FirstDecl s c) ps (Some d)" "list_path (NextInContext s) (NextInContext s d) qs None"
    using assms(1) ds(1) by (auto simp: decl_list_def path_append)
  have last: "LastDecl s c = (if qs = [] then Some d else last_of qs)" "distinct (ps @ qs)"
    using assms(1) ds(1) by (auto simp: decl_list_def last_of_def)
  then have last': "LastDecl s c = Some d \<longleftrightarrow> qs = []" using ds(3) last_in_set[of qs] by (auto simp: last_of_def)
  show ?thesis
  proof (cases ps rule: rev_cases)
    case Nil
    then have "FirstDecl s c = Some d" using p(1) by simp
    then show ?thesis
      using Nil p(2) last last' ds remove
      by (auto simp: removeDecl_def setNextDeclInContext_def decl_list_def last_of_def)
  next
    case (snoc ps' i)
    then obtain f where f: "FirstDecl s c = Some f" "f \<noteq> d" using p(1) ds(2) by (cases ps') auto
    have "find_predecessor s d f = Some i"
      using p(1) snoc f(1) ds(2) by (intro find_predecessor_path[where ps = ps']) simp_all
    moreover have "list_path ((NextInContext s)(i := NextInContext s d)) (Some f) (ps' @ [i]) (NextInContext s d)"
      using p(1) snoc f(1) last(2) by (intro path_relink[where q = "Some d"]) auto
    moreover have "list_path ((NextInContext s)(i := NextInContext s d)) (NextInContext s d) qs None"
      using p(2) last(2) snoc by simp
    ultimately have "list_path ((NextInContext s)(i := NextInContext s d, d := None)) (Some f) (ps @ qs) None"
      using ds snoc by (auto simp: path_append)
    with \<open>find_predecessor s d f = Some i\<close> show ?thesis
      using f last last' ds remove snoc
      by (auto simp: removeDecl_def setNextDeclInContext_def decl_list_def last_of_def Let_def)
  qed
qed


interpretation list_members: member_removal "\<lambda>s. decl_list s c" "\<lambda>d. removeDecl d c" 0 for c
proof
  show "distinct xs" if "decl_list s c xs" for s xs using that by (simp add: decl_list_def)
  show "\<exists>s'. removeDecl d c s = Some s' \<and> decl_list s' c (remove1 d xs)"
    if "decl_list s c xs" "d \<in> set xs" "0 < length xs" for s xs d
    using decl_list_remove[OF that(1,2)] by blast
qed

lemma removeDecl_ok:
  assumes "lists_ok s members" "d \<in> set (members c)"
  shows "\<exists>s'. removeDecl d c s = Some s' \<and> lists_ok s' (members(c := remove1 d (members c))) \<and>
    NextInContext s' d = None \<and> (\<forall>x. x \<notin> set (members c) \<longrightarrow> NextInContext s' x = NextInContext s x) \<and>
    TopLevelInObjC s' = TopLevelInObjC s \<and> LexicalContext s' = LexicalContext s"
proof -
  have c: "decl_list s c (members c)" using assms(1) by (simp add: lists_ok_def)
  obtain s' where s': "removeDecl d c s = Some s'" "decl_list s' c (remove1 d (members c))" "NextInContext s' d = None"
    "\<forall>x. x \<notin> set (members c) \<longrightarrow> NextInContext s' x = NextInContext s x" "TopLevelInObjC s' = TopLevelInObjC s"
    "LexicalContext s' = LexicalContext s"
    "\<forall>c'. c' \<noteq> c \<longrightarrow> FirstDecl s' c' = FirstDecl s c' \<and> LastDecl s' c' = LastDecl s c'"
    using decl_list_remove[OF c assms(2)] by blast
  have "decl_list s' c' (members c')" if "c' \<noteq> c" for c'
  proof -
    have "x \<notin> set (members c)" if "x \<in> set (members c')" for x
      using assms(1) that \<open>c' \<noteq> c\<close> unfolding lists_ok_def by (metis option.inject)
    then have "NextInContext s' x = NextInContext s x" if "x \<in> set (members c')" for x using s'(4) that by blast
    then show ?thesis
      using assms(1) s'(7) \<open>c' \<noteq> c\<close> path_cong[of "members c'" "NextInContext s'"] by (simp add: lists_ok_def decl_list_def)
  qed
  moreover have "\<forall>x \<in> set (remove1 d (members c)). LexicalContext s x = Some c"
    using assms(1) notin_set_remove1 by (fastforce simp: lists_ok_def)
  ultimately have "lists_ok s' (members(c := remove1 d (members c)))"
    using assms(1) s'(2,6) by (simp add: lists_ok_def)
  with s' show ?thesis by blast
qed

text \<open>A declaration that is in no list points to no other one.\<close>

definition loose_unlinked :: "decl_lists \<Rightarrow> (context_id \<Rightarrow> decl list) \<Rightarrow> bool" where
  "loose_unlinked s members \<longleftrightarrow> (\<forall>d. (\<forall>c. d \<notin> set (members c)) \<longrightarrow> NextInContext s d = None)"

lemma containsDecl_member:
  assumes "lists_ok s members" "loose_unlinked s members" "LexicalContext s d = Some c"
  shows "containsDecl s c d \<longleftrightarrow> d \<in> set (members c)"
proof
  have c: "list_path (NextInContext s) (FirstDecl s c) (members c) None" "LastDecl s c = last_of (members c)"
    using assms(1) by (simp_all add: lists_ok_def decl_list_def)
  show "d \<in> set (members c)" if "containsDecl s c d"
  proof (rule ccontr)
    assume no: "d \<notin> set (members c)"
    then have "d \<notin> set (members c')" for c' using assms(1,3) unfolding lists_ok_def by (metis option.inject)
    then have "NextInContext s d = None" using assms(2) by (simp add: loose_unlinked_def)
    then have "LastDecl s c = Some d" using that by (simp add: containsDecl_def)
    then show False using c(2) no by (auto simp: last_of_def split: if_splits)
  qed
  show "containsDecl s c d" if member: "d \<in> set (members c)"
  proof -
    obtain ps qs where ds: "members c = ps @ d # qs" using split_list[OF member] by blast
    then have "list_path (NextInContext s) (NextInContext s d) qs None" using c(1) by (auto simp: path_append)
    then have "NextInContext s d \<noteq> None \<or> qs = []" by (cases qs) auto
    then show ?thesis using c(2) ds assms(3) by (auto simp: containsDecl_def last_of_def)
  qed
qed

lemma remove_each_ok:
  assumes "lists_ok s members" "loose_unlinked s members"
  shows "\<exists>s'. remove_each visited s = Some s' \<and> lists_ok s' (\<lambda>c. filter (\<lambda>d. d \<notin> set visited) (members c)) \<and>
    loose_unlinked s' (\<lambda>c. filter (\<lambda>d. d \<notin> set visited) (members c)) \<and>
    TopLevelInObjC s' = TopLevelInObjC s \<and> LexicalContext s' = LexicalContext s"
  using assms
proof (induction visited arbitrary: s members)
  case Nil
  then show ?case by simp
next
  case (Cons d ds)
  show ?case
  proof (cases "\<exists>c. d \<in> set (members c)")
    case True
    then obtain c where c: "d \<in> set (members c)" "LexicalContext s d = Some c"
      using Cons.prems(1) by (auto simp: lists_ok_def)
    let ?m = "members(c := remove1 d (members c))"
    obtain s1 where s1: "removeDecl d c s = Some s1" "lists_ok s1 ?m" "NextInContext s1 d = None"
      "\<forall>x. x \<notin> set (members c) \<longrightarrow> NextInContext s1 x = NextInContext s x"
      "TopLevelInObjC s1 = TopLevelInObjC s" "LexicalContext s1 = LexicalContext s"
      using removeDecl_ok[OF Cons.prems(1) c(1)] by blast
    have "distinct (members c)" using Cons.prems(1) by (simp add: lists_ok_def decl_list_def)
    then have remove: "filter (\<lambda>x. x \<notin> set ds) (?m c') = filter (\<lambda>x. x \<notin> set (d # ds)) (members c')" for c'
      using Cons.prems(1) c(2)
      by (auto simp: distinct_remove1_removeAll removeAll_filter_not_eq lists_ok_def intro!: filter_cong)
    have loose: "loose_unlinked s1 ?m"
      unfolding loose_unlinked_def
    proof (intro allI impI)
      fix x assume "\<forall>c'. x \<notin> set (?m c')"
      then have "x = d \<or> (\<forall>c'. x \<notin> set (members c'))" by (metis fun_upd_apply in_set_remove1)
      then show "NextInContext s1 x = None" using s1(3,4) Cons.prems(2) by (auto simp: loose_unlinked_def)
    qed
    then show ?thesis
      using Cons.IH[OF s1(2) loose] s1(1,5,6) c(2) containsDecl_member[OF Cons.prems c(2)] c(1) unfolding remove by simp
  next
    case False
    then have same: "filter (\<lambda>x. x \<notin> set ds) (members c') = filter (\<lambda>x. x \<notin> set (d # ds)) (members c')" for c'
      by (intro filter_cong) auto
    have "\<not> containsDecl s c d" if "LexicalContext s d = Some c" for c
      using False containsDecl_member[OF Cons.prems that] by blast
    then have "remove_each (d # ds) s = remove_each ds s" by (simp split: option.split)
    then show ?thesis using Cons.IH[OF Cons.prems] unfolding same by simp
  qed
qed


text \<open>What clang adds goes to the end of the list.\<close>

lemma addHiddenDecl_ok:
  assumes "lists_ok s members" "\<forall>c. d \<notin> set (members c)" "loose_unlinked s members" "LexicalContext s d = Some c"
  shows "\<exists>s'. addHiddenDecl d c s = Some s' \<and> lists_ok s' (members(c := members c @ [d]))"
proof -
  have c: "list_path (NextInContext s) (FirstDecl s c) (members c) None" "LastDecl s c = last_of (members c)" "distinct (members c)"
    using assms(1) by (simp_all add: lists_ok_def decl_list_def)
  have d: "NextInContext s d = None" using assms(2,3) by (simp add: loose_unlinked_def)
  show ?thesis
  proof (cases "members c" rule: rev_cases)
    case Nil
    then have "FirstDecl s c = None" using c(1) by simp
    then show ?thesis
      using assms(1,4) d Nil by (auto simp: addHiddenDecl_def lists_ok_def decl_list_def last_of_def)
  next
    case (snoc ds l)
    obtain f where f: "FirstDecl s c = Some f" using c(1) snoc by (cases ds) auto
    have "d \<notin> set (members c)" using assms(2) by blast
    then have dl: "d \<noteq> l" "l \<noteq> d" "d \<notin> set ds" using snoc by auto
    let ?s = "(setNextDeclInContext l (Some d) s)\<lparr>LastDecl := (LastDecl s)(c := Some d)\<rparr>"
    have "list_path (NextInContext ?s) (FirstDecl ?s c) (members c @ [d]) None"
      using path_relink[of "NextInContext s" "FirstDecl s c" ds l None "Some d"] c snoc d \<open>d \<notin> set (members c)\<close>
      by (auto simp: setNextDeclInContext_def path_append)
    moreover have "l \<notin> set (members c')" if "c' \<noteq> c" for c'
      using assms(1) snoc that unfolding lists_ok_def by (metis in_set_conv_decomp option.inject)
    ultimately show ?thesis
      using assms c snoc f dl
      by (auto simp: addHiddenDecl_def lists_ok_def decl_list_def setNextDeclInContext_def last_of_def)
  qed
qed

lemma lists_determined:
  assumes "lists_ok s members" "lists_ok s' members" "loose_unlinked s members" "loose_unlinked s' members"
    "TopLevelInObjC s' = TopLevelInObjC s" "LexicalContext s' = LexicalContext s"
  shows "s' = s"
proof (rule decl_lists.equality)
  have lists: "list_path (NextInContext s) (FirstDecl s c) (members c) None" "list_path (NextInContext s') (FirstDecl s' c) (members c) None"
    "LastDecl s c = last_of (members c)" "LastDecl s' c = last_of (members c)" for c
    using assms(1,2) by (simp_all add: lists_ok_def decl_list_def)
  note determined = path_determined[OF lists(2,1)]
  show "FirstDecl s' = FirstDecl s" "LastDecl s' = LastDecl s" using determined lists(3,4) by auto
  show "NextInContext s' = NextInContext s"
  proof
    fix d show "NextInContext s' d = NextInContext s d"
      using determined assms(3,4) by (cases "\<exists>c. d \<in> set (members c)") (auto simp: loose_unlinked_def)
  qed
qed (use assms in simp_all)

text \<open>
  C30 (equivalence): The removal in one pass per context does not fail and leaves the same lists as
  removing the declarations one after the other with the function of clang would: every context
  keeps its other declarations in their order, its first and last declaration are right, and the
  removed ones point to nothing. Only the marks of the removed declarations differ.
\<close>

theorem unloadDeclContexts_removes:
  assumes "lists_ok s members" "loose_unlinked s members" "\<forall>c. \<forall>d \<in> set (members c). \<not> TopLevelInObjC s d"
  shows "\<exists>s'. unloadDeclContexts ext visited s = Some s' \<and>
    remove_each visited s = Some (s'\<lparr>TopLevelInObjC := TopLevelInObjC s\<rparr>) \<and>
    (\<forall>c. decl_list s' c (filter (\<lambda>d. d \<notin> set visited) (members c)))"
proof -
  let ?m = "\<lambda>c. filter (\<lambda>d. d \<notin> set visited) (members c)"
  obtain s1 where s1: "unloadDeclContexts ext visited s = Some s1" "lists_ok s1 ?m"
    "\<forall>d. d \<notin> (\<Union>c. set (members c)) \<longrightarrow> NextInContext s1 d = NextInContext s d"
    "\<forall>c. \<forall>d \<in> set (members c) \<inter> set visited. NextInContext s1 d = None" "LexicalContext s1 = LexicalContext s"
    using unloadDeclContexts_ok[OF assms(1,3)] by blast
  obtain s2 where s2: "remove_each visited s = Some s2" "lists_ok s2 ?m" "loose_unlinked s2 ?m"
    "TopLevelInObjC s2 = TopLevelInObjC s" "LexicalContext s2 = LexicalContext s"
    using remove_each_ok[OF assms(1,2)] by blast
  let ?s1 = "s1\<lparr>TopLevelInObjC := TopLevelInObjC s\<rparr>"
  have "loose_unlinked ?s1 ?m"
    unfolding loose_unlinked_def
  proof (intro allI impI)
    fix d assume no: "\<forall>c. d \<notin> set (?m c)"
    show "NextInContext ?s1 d = None"
    proof (cases "\<exists>c. d \<in> set (members c)")
      case True
      then show ?thesis using no s1(4) by auto
    next
      case False
      then show ?thesis using assms(2) s1(3) by (auto simp: loose_unlinked_def)
    qed
  qed
  moreover have "lists_ok ?s1 ?m" using s1(2) by (simp add: lists_ok_def decl_list_def)
  ultimately have "s2 = ?s1" using s2 s1(5) by (intro lists_determined[of ?s1 ?m]) simp_all
  with s1(1,2) s2(1) show ?thesis by (auto simp: lists_ok_def)
qed

theorem unloadDeclContexts_removes_witness:
  "\<exists>s'. unloadDeclContexts 9 [1, 3]
      \<lparr>NextInContext = [1 \<mapsto> 2, 2 \<mapsto> 3], LexicalContext = [1 \<mapsto> 7, 2 \<mapsto> 7, 3 \<mapsto> 7], FirstDecl = [7 \<mapsto> 1],
       LastDecl = [7 \<mapsto> 3], TopLevelInObjC = \<lambda>_. False\<rparr> = Some s' \<and> decl_list s' 7 [2]"
proof -
  let ?s = "\<lparr>NextInContext = [1 \<mapsto> 2, 2 \<mapsto> 3], LexicalContext = [1 \<mapsto> 7, 2 \<mapsto> 7, 3 \<mapsto> 7], FirstDecl = [7 \<mapsto> 1],
       LastDecl = [7 \<mapsto> 3], TopLevelInObjC = \<lambda>_. False\<rparr> :: decl_lists"
  let ?m = "\<lambda>c. if c = 7 then [1, 2, 3] else []"
  have "lists_ok ?s ?m" "loose_unlinked ?s ?m"
    by (auto simp: lists_ok_def decl_list_def last_of_def loose_unlinked_def)
  moreover have "\<forall>c. \<forall>d \<in> set (?m c). \<not> TopLevelInObjC ?s d" by simp
  ultimately obtain s' where s': "unloadDeclContexts 9 [1, 3] ?s = Some s'"
    "\<forall>c. decl_list s' c (filter (\<lambda>d. d \<notin> set [1, 3]) (?m c))"
    using unloadDeclContexts_removes[of ?s ?m 9 "[1, 3]"] by blast
  from spec[OF s'(2), of 7] have "decl_list s' 7 [2]" by simp
  with s'(1) show ?thesis by blast
qed

end
