(* ===== verification/LookupTables.thy ===== *)
theory LookupTables
  imports RedeclChains
begin

text \<open>
  The lookup tables of contexts, and taking an unloaded declaration out of them:
  \<^verbatim>\<open>clang/AST/DeclContextInternals.h\<close>, what \<^verbatim>\<open>clang/lib/AST/DeclBase.cpp\<close> says of contexts,
  \<^verbatim>\<open>tools/zapccs/ReplaceDeclInMap.cpp\<close>, \<^verbatim>\<open>ReplaceDeclInMap\<close> of \<^verbatim>\<open>tools/zapccs/Unloader.cpp\<close>, and
  \<^verbatim>\<open>VisitRedeclarable\<close> and the namespaces of \<^verbatim>\<open>tools/zapccs/UnloaderIR.cpp\<close>.
\<close>

subsection \<open>The declarations with one name\<close>

text \<open>Null, a single declaration, or a vector with the flag that says whether there are external ones.\<close>

datatype stored_decls = NoDecl | OneDecl decl | DeclVector "decl list" bool

definition isNull :: "stored_decls \<Rightarrow> bool" where
  "isNull l \<longleftrightarrow> l = NoDecl"

fun getAsDecl :: "stored_decls \<Rightarrow> decl option" where
  "getAsDecl (OneDecl d) = Some d"
| "getAsDecl _ = None"

fun getAsVector :: "stored_decls \<Rightarrow> decl list option" where
  "getAsVector (DeclVector ds _) = Some ds"
| "getAsVector _ = None"

fun getLookupResult :: "stored_decls \<Rightarrow> decl list" where
  "getLookupResult NoDecl = []"
| "getLookupResult (OneDecl d) = [d]"
| "getLookupResult (DeclVector ds _) = ds"

text \<open>
  What clang stores: a redeclaration replaces the declaration that \<open>replaces\<close> says it does; other
  declarations with the name are added, \<open>using\<close> declarations in front and tags at the end, which
  the two functions tell apart.
\<close>

fun HandleRedeclaration :: "(decl \<Rightarrow> decl \<Rightarrow> bool) \<Rightarrow> decl \<Rightarrow> stored_decls \<Rightarrow> stored_decls option" where
  "HandleRedeclaration replaces d NoDecl = None"
| "HandleRedeclaration replaces d (OneDecl old) = (if replaces d old then Some (OneDecl d) else None)"
| "HandleRedeclaration replaces d (DeclVector ds e) =
     (case dropWhile (\<lambda>old. \<not> replaces d old) ds of
        [] \<Rightarrow> None
      | _ # rest \<Rightarrow> Some (DeclVector (takeWhile (\<lambda>old. \<not> replaces d old) ds @ d # rest) e))"

datatype identifier_namespace = IDNS_Tag | IDNS_Using | IDNS_UsingOrdinary | IDNS_Other

definition add_to_vector :: "(decl \<Rightarrow> identifier_namespace) \<Rightarrow> decl \<Rightarrow> decl list \<Rightarrow> decl list" where
  "add_to_vector idns d ds =
     (case idns d of
        IDNS_Tag \<Rightarrow> ds @ [d]
      | IDNS_Using \<Rightarrow> d # ds
      | IDNS_UsingOrdinary \<Rightarrow> takeWhile (\<lambda>x. idns x = IDNS_Using) ds @ d # dropWhile (\<lambda>x. idns x = IDNS_Using) ds
      | IDNS_Other \<Rightarrow>
          if ds \<noteq> [] \<and> idns (last ds) = IDNS_Tag then butlast ds @ [d, last ds] else ds @ [d])"

fun AddSubsequentDecl :: "(decl \<Rightarrow> identifier_namespace) \<Rightarrow> decl \<Rightarrow> stored_decls \<Rightarrow> stored_decls" where
  "AddSubsequentDecl idns d NoDecl = NoDecl"
| "AddSubsequentDecl idns d (OneDecl old) = DeclVector (add_to_vector idns d [old]) False"
| "AddSubsequentDecl idns d (DeclVector ds e) = DeclVector (add_to_vector idns d ds) e"

definition add_visible ::
  "(decl \<Rightarrow> decl \<Rightarrow> bool) \<Rightarrow> (decl \<Rightarrow> identifier_namespace) \<Rightarrow> decl \<Rightarrow> stored_decls \<Rightarrow> stored_decls"
where
  "add_visible replaces idns d l =
     (if isNull l then OneDecl d
      else case HandleRedeclaration replaces d l of Some l' \<Rightarrow> l' | None \<Rightarrow> AddSubsequentDecl idns d l)"

text \<open>
  The replacement, or removal, of an unloaded declaration. The flag is whether it was there. A
  replacement that is there already is not stored twice.
\<close>

fun replace_first :: "decl \<Rightarrow> decl \<Rightarrow> decl list \<Rightarrow> decl list" where
  "replace_first d r [] = []"
| "replace_first d r (x # xs) = (if x = d then r # xs else x # replace_first d r xs)"

definition replace_stored :: "decl \<Rightarrow> decl option \<Rightarrow> stored_decls \<Rightarrow> bool \<times> stored_decls" where
  "replace_stored orig replacement l =
     (case l of
        NoDecl \<Rightarrow> (False, l)
      | OneDecl d \<Rightarrow>
          if d \<noteq> orig then (False, l)
          else (True, case replacement of Some r \<Rightarrow> OneDecl r | None \<Rightarrow> NoDecl)
      | DeclVector ds e \<Rightarrow>
          if orig \<notin> set ds then (False, l)
          else (let replacement = (case replacement of None \<Rightarrow> None | Some r \<Rightarrow> if r \<in> set ds then None else Some r)
                in (True, case replacement of Some r \<Rightarrow> DeclVector (replace_first orig r ds) e
                                            | None \<Rightarrow> DeclVector (remove1 orig ds) e)))"

subsection \<open>Contexts\<close>

type_synonym decl_name = nat

text \<open>
  The kinds of a context that the code distinguishes, with the flags that it asks for: an inline
  namespace; the definition of an interface or protocol; the scope flag, the definition and the
  definition in progress of an enumeration or record.
\<close>

datatype dc_kind =
    TranslationUnitDC | ExternCContextDC | LinkageSpecDC | ExportDC | BlockDC | CapturedDC
  | OMPDeclareReductionDC | NamespaceDC bool | ObjCMethodDC | ObjCInterfaceDC "context_id option"
  | ObjCProtocolDC "context_id option" | ObjCCategoryDC | ObjCImplementationDC | ObjCCategoryImplDC
  | EnumDC bool "context_id option" "context_id option" | RecordDC "context_id option" "context_id option"
  | FunctionDC

text \<open>
  The state: the chains of redeclarations; the kind and the parent of a context; the pointer of a
  namespace, which is its anonymous namespace in the first declaration and the first declaration in
  the others; the lookup table; whether declarations were left out of it; the name and the semantic
  context of a declaration; the anonymous namespace of the translation unit; what Sema remembers of
  namespaces.
\<close>

record scopes =
  Chains :: chains
  DCKind :: "context_id \<Rightarrow> dc_kind"
  DCParent :: "context_id \<Rightarrow> context_id option"
  RawNamespace :: "decl \<Rightarrow> decl option"
  LookupPtr :: "context_id \<Rightarrow> (decl_name \<Rightarrow> stored_decls option) option"
  HasLazyLookups :: "context_id \<Rightarrow> bool"
  DeclName :: "decl \<Rightarrow> decl_name option"
  DeclDC :: "decl \<Rightarrow> context_id"
  TUAnonymous :: "decl option"
  StdNamespace :: "decl option"
  StdExperimental :: "decl option"
  KnownNamespaces :: "decl list"

definition isNamespace :: "scopes \<Rightarrow> context_id \<Rightarrow> bool" where
  "isNamespace s c = (case DCKind s c of NamespaceDC _ \<Rightarrow> True | _ \<Rightarrow> False)"

definition isInlineNamespace :: "scopes \<Rightarrow> context_id \<Rightarrow> bool" where
  "isInlineNamespace s c \<longleftrightarrow> DCKind s c = NamespaceDC True"

definition isTransparentContext :: "scopes \<Rightarrow> context_id \<Rightarrow> bool" where
  "isTransparentContext s c =
     (case DCKind s c of
        EnumDC scoped _ _ \<Rightarrow> \<not> scoped
      | LinkageSpecDC \<Rightarrow> True
      | ExportDC \<Rightarrow> True
      | _ \<Rightarrow> False)"

text \<open>A namespace that is not the first one and points to nothing is excluded by the assertions of clang.\<close>

definition getOriginalNamespace :: "scopes \<Rightarrow> decl \<Rightarrow> decl" where
  "getOriginalNamespace s d =
     (if isFirstDecl (Chains s) d then d else case RawNamespace s d of Some f \<Rightarrow> f | None \<Rightarrow> d)"

definition getAnonymousNamespace :: "scopes \<Rightarrow> decl \<Rightarrow> decl option" where
  "getAnonymousNamespace s d = RawNamespace s (getOriginalNamespace s d)"

definition setRawNamespace :: "decl \<Rightarrow> decl option \<Rightarrow> scopes \<Rightarrow> scopes" where
  "setRawNamespace d p s = s\<lparr>RawNamespace := (RawNamespace s)(d := p)\<rparr>"

definition setAnonymousNamespace :: "decl \<Rightarrow> decl option \<Rightarrow> scopes \<Rightarrow> scopes" where
  "setAnonymousNamespace d p s = setRawNamespace (getOriginalNamespace s d) p s"

definition tag_context :: "context_id \<Rightarrow> context_id option \<Rightarrow> context_id option \<Rightarrow> context_id" where
  "tag_context c definition being_defined =
     (case definition of Some d \<Rightarrow> d | None \<Rightarrow> (case being_defined of Some d \<Rightarrow> d | None \<Rightarrow> c))"

definition getPrimaryContext :: "scopes \<Rightarrow> context_id \<Rightarrow> context_id" where
  "getPrimaryContext s c =
     (case DCKind s c of
        NamespaceDC _ \<Rightarrow> getOriginalNamespace s c
      | ObjCInterfaceDC d \<Rightarrow> (case d of Some d \<Rightarrow> d | None \<Rightarrow> c)
      | ObjCProtocolDC d \<Rightarrow> (case d of Some d \<Rightarrow> d | None \<Rightarrow> c)
      | EnumDC _ d p \<Rightarrow> tag_context c d p
      | RecordDC d p \<Rightarrow> tag_context c d p
      | _ \<Rightarrow> c)"

partial_function (option) getRedeclContext :: "scopes \<Rightarrow> context_id \<Rightarrow> context_id option" where
  "getRedeclContext s c =
     (if isTransparentContext s c
      then (case DCParent s c of None \<Rightarrow> None | Some p \<Rightarrow> getRedeclContext s p) else Some c)"

declare getRedeclContext.simps [code]

subsection \<open>Replacing in the tables\<close>

definition ReplaceDeclInMapImpl :: "decl \<Rightarrow> decl option \<Rightarrow> context_id \<Rightarrow> scopes \<Rightarrow> bool \<times> scopes" where
  "ReplaceDeclInMapImpl orig replacement c s =
     (case DeclName s orig of
        None \<Rightarrow> (False, s)
      | Some name \<Rightarrow>
          (case LookupPtr s c of
             None \<Rightarrow> (False, s)
           | Some m \<Rightarrow>
               (case m name of
                  None \<Rightarrow> (False, s)
                | Some l \<Rightarrow>
                    (case replace_stored orig replacement l of
                       (b, l') \<Rightarrow> (b, s\<lparr>LookupPtr := (LookupPtr s)(c \<mapsto> m(name \<mapsto> l'))\<rparr>)))))"

partial_function (option) replace_upwards ::
  "decl \<Rightarrow> decl option \<Rightarrow> context_id \<Rightarrow> scopes \<Rightarrow> scopes option"
where
  "replace_upwards orig replacement dc s =
     (let c = getPrimaryContext s dc;
          s' = snd (ReplaceDeclInMapImpl orig replacement c s)
      in if isTransparentContext s c \<or> isNamespace s c
         then (case DCParent s c of None \<Rightarrow> Some s' | Some p \<Rightarrow> replace_upwards orig replacement p s')
         else Some s')"

declare replace_upwards.simps [code]

definition ReplaceDeclInMap :: "decl \<Rightarrow> decl option \<Rightarrow> context_id option \<Rightarrow> scopes \<Rightarrow> scopes option" where
  "ReplaceDeclInMap orig replacement dc s =
     (if Some orig = replacement then Some s
      else replace_upwards orig replacement (case dc of Some c \<Rightarrow> c | None \<Rightarrow> DeclDC s orig) s)"


subsection \<open>Redeclarations\<close>

text \<open>
  The second half of \<^verbatim>\<open>VisitRedeclarable\<close>: the most recent declaration that is left takes the place
  in the tables, if the context of the removed one is the context of the other or around it.
\<close>

partial_function (option) skip_linkage :: "scopes \<Rightarrow> context_id \<Rightarrow> context_id option" where
  "skip_linkage s c =
     (if DCKind s c = LinkageSpecDC
      then (case DCParent s c of None \<Rightarrow> None | Some p \<Rightarrow> skip_linkage s p) else Some c)"

declare skip_linkage.simps [code]

definition getBaseContext :: "scopes \<Rightarrow> decl \<Rightarrow> context_id option" where
  "getBaseContext s d = map_option (getPrimaryContext s) (skip_linkage s (DeclDC s d))"

partial_function (option) context_contains :: "scopes \<Rightarrow> context_id \<Rightarrow> context_id \<Rightarrow> bool option" where
  "context_contains s erased dc =
     (let c = getPrimaryContext s dc
      in if erased = c then Some True
         else (case DCParent s c of None \<Rightarrow> Some False | Some p \<Rightarrow> context_contains s erased p))"

declare context_contains.simps [code]

definition VisitRedeclarable :: "decl \<Rightarrow> scopes \<Rightarrow> scopes option" where
  "VisitRedeclarable r s =
     (let f = getFirstDecl (Chains s) r;
          last_one = (f = getMostRecentDecl (Chains s) f)
      in case unchain r (Chains s) of
           None \<Rightarrow> None
         | Some (cs, recent) \<Rightarrow>
             (let s1 = s\<lparr>Chains := cs\<rparr>
              in if last_one then ReplaceDeclInMap r None None s1
                 else
                   (case getBaseContext s1 r of
                      None \<Rightarrow> None
                    | Some erased_dc \<Rightarrow>
                        (case getBaseContext s1 recent of
                           None \<Rightarrow> None
                         | Some replacement_dc \<Rightarrow>
                             (case context_contains s1 erased_dc replacement_dc of
                                None \<Rightarrow> None
                              | Some b \<Rightarrow> ReplaceDeclInMap r (if b then Some recent else None) None s1)))))"

subsection \<open>Namespaces\<close>

text \<open>An anonymous namespace is known to its parent, which now gets the previous one.\<close>

definition forget_anonymous :: "decl \<Rightarrow> scopes \<Rightarrow> scopes option" where
  "forget_anonymous n s =
     (case getRedeclContext s (DeclDC s n) of
        None \<Rightarrow> None
      | Some parent \<Rightarrow>
          (let prev = getPreviousDecl (Chains s) n
           in Some
             (if DCKind s parent = TranslationUnitDC then
                (if TUAnonymous s = Some n then s\<lparr>TUAnonymous := prev\<rparr> else s)
              else if isNamespace s parent then
                (if getAnonymousNamespace s parent = Some n then setAnonymousNamespace parent prev s else s)
              else s)))"

partial_function (option) retarget :: "decl \<Rightarrow> decl \<Rightarrow> scopes \<Rightarrow> scopes option" where
  "retarget second latest s =
     (if latest = second then Some s
      else (let s' = setRawNamespace latest (Some second) s
            in case getPreviousDecl (Chains s') latest of None \<Rightarrow> None | Some p \<Rightarrow> retarget second p s'))"

declare retarget.simps [code]

text \<open>
  The first declaration of a namespace holds the anonymous namespace and the lookup table of all of
  them, and the others point to it: all this moves to the second one.
\<close>

definition move_namespace :: "decl \<Rightarrow> scopes \<Rightarrow> scopes option" where
  "move_namespace n s =
     (let is_std = (StdNamespace s = Some n)
      in if isFirstDecl (Chains s) n then
           (let latest = getMostRecentDecl (Chains s) n
            in if n \<noteq> latest then
                 (case find_successor (Chains s) n latest of
                    None \<Rightarrow> None
                  | Some second \<Rightarrow>
                      (let s1 = (if is_std then s\<lparr>StdNamespace := Some second\<rparr> else s);
                           s2 = setRawNamespace second (getAnonymousNamespace s1 n) s1
                       in map_option
                            (\<lambda>s3.
                               (let s4 = (case LookupPtr s3 n of
                                            None \<Rightarrow> s3
                                          | Some m \<Rightarrow> s3\<lparr>LookupPtr := (LookupPtr s3)(second \<mapsto> m)\<rparr>);
                                    s5 = (if HasLazyLookups s4 n
                                          then s4\<lparr>HasLazyLookups := (HasLazyLookups s4)(second := True)\<rparr> else s4)
                                in s5\<lparr>LookupPtr := (LookupPtr s5)(n := None)\<rparr>))
                            (retarget second latest s2)))
               else Some (if is_std then s\<lparr>StdNamespace := None\<rparr> else s))
         else Some (if is_std then s\<lparr>StdNamespace := getPreviousDecl (Chains s) n\<rparr> else s))"

text \<open>
  The whole handler; \<open>inner\<close> stands for the visits of the members and of the namespace as a named
  declaration in between.
\<close>

definition VisitNamespaceDecl :: "(scopes \<Rightarrow> scopes option) \<Rightarrow> decl \<Rightarrow> scopes \<Rightarrow> scopes option" where
  "VisitNamespaceDecl inner n s =
     (let s1 = s\<lparr>KnownNamespaces := removeAll n (KnownNamespaces s),
                 StdExperimental := (if StdExperimental s = Some n then None else StdExperimental s)\<rparr>
      in case forget_anonymous n s1 of
           None \<Rightarrow> None
         | Some s2 \<Rightarrow>
             (case inner s2 of
                None \<Rightarrow> None
              | Some s3 \<Rightarrow>
                  (case move_namespace n s3 of None \<Rightarrow> None | Some s4 \<Rightarrow> VisitRedeclarable n s4)))"

subsection \<open>What a table contains\<close>

definition lookup_in :: "scopes \<Rightarrow> context_id \<Rightarrow> decl_name \<Rightarrow> decl list" where
  "lookup_in s c name =
     (case LookupPtr s c of
        None \<Rightarrow> []
      | Some m \<Rightarrow> (case m name of None \<Rightarrow> [] | Some l \<Rightarrow> getLookupResult l))"

definition replace_in :: "decl \<Rightarrow> decl option \<Rightarrow> decl list \<Rightarrow> decl list" where
  "replace_in orig replacement ds =
     (case replacement of
        Some r \<Rightarrow> if orig \<in> set ds \<and> r \<notin> set ds then replace_first orig r ds else remove1 orig ds
      | None \<Rightarrow> remove1 orig ds)"

lemma replace_first_absent [simp]: "d \<notin> set ds \<Longrightarrow> replace_first d r ds = ds"
  by (induction ds) auto

lemma set_replace_first:
  "distinct ds \<Longrightarrow> d \<in> set ds \<Longrightarrow> set (replace_first d r ds) = insert r (set ds - {d})"
  by (induction ds) auto

lemma distinct_replace_first:
  "distinct ds \<Longrightarrow> r \<notin> set ds \<Longrightarrow> distinct (replace_first d r ds)"
proof (induction ds)
  case (Cons x xs)
  then show ?case using set_replace_first[of xs d r] by (cases "d \<in> set xs") auto
qed simp

lemma replace_stored_result:
  "Some orig \<noteq> replacement \<Longrightarrow>
    getLookupResult (snd (replace_stored orig replacement l)) = replace_in orig replacement (getLookupResult l)"
  by (cases l; cases replacement) (auto simp: replace_stored_def replace_in_def remove1_idem)

lemma replace_in_Nil [simp]: "replace_in orig replacement [] = []"
  by (simp add: replace_in_def split: option.split)

lemma ReplaceDeclInMapImpl_lookup:
  assumes "Some orig \<noteq> replacement"
  shows "lookup_in (snd (ReplaceDeclInMapImpl orig replacement c s)) c' name =
    (if c' = c \<and> DeclName s orig = Some name then replace_in orig replacement (lookup_in s c' name)
     else lookup_in s c' name)"
proof -
  have "getLookupResult l' = replace_in orig replacement (getLookupResult l)"
    if "replace_stored orig replacement l = (b, l')" for l b l'
    using replace_stored_result[OF assms, of l] that by simp
  then show ?thesis
    by (auto simp: ReplaceDeclInMapImpl_def lookup_in_def split: option.splits prod.splits)
qed

lemma ReplaceDeclInMapImpl_rest:
  "snd (ReplaceDeclInMapImpl orig replacement c s) =
    s\<lparr>LookupPtr := LookupPtr (snd (ReplaceDeclInMapImpl orig replacement c s))\<rparr>"
  by (auto simp: ReplaceDeclInMapImpl_def split: option.splits prod.splits)


subsection \<open>Which tables are reached\<close>

text \<open>
  \<open>up\<close>: from a primary context to the primary context of its parent, in the loop that replaces.
  \<open>visible_in s d c\<close>: clang makes the declaration visible in \<open>c\<close>, the primary context of its context
  or one around it that is reached through transparent contexts and inline namespaces. \<open>nested\<close>:
  contexts are nested in finite depth.
\<close>

inductive up :: "scopes \<Rightarrow> context_id \<Rightarrow> context_id \<Rightarrow> bool" for s where
  "isTransparentContext s c \<or> isNamespace s c \<Longrightarrow> DCParent s c = Some p \<Longrightarrow> up s c (getPrimaryContext s p)"

inductive visible_in :: "scopes \<Rightarrow> decl \<Rightarrow> context_id \<Rightarrow> bool" for s d where
  visible_own: "visible_in s d (getPrimaryContext s (DeclDC s d))"
| visible_around: "visible_in s d c \<Longrightarrow> isTransparentContext s c \<or> isInlineNamespace s c \<Longrightarrow>
    DCParent s c = Some p \<Longrightarrow> visible_in s d (getPrimaryContext s p)"

inductive_simps up_iff: "up s c c'"

definition nested :: "scopes \<Rightarrow> (context_id \<Rightarrow> nat) \<Rightarrow> bool" where
  "nested s rank \<longleftrightarrow> (\<forall>c p. DCParent s c = Some p \<longrightarrow> rank (getPrimaryContext s p) < rank c)"

lemma visible_up: "visible_in s d c \<Longrightarrow> (up s)\<^sup>*\<^sup>* (getPrimaryContext s (DeclDC s d)) c"
proof (induction rule: visible_in.induct)
  case (visible_around c p)
  then have "up s c (getPrimaryContext s p)" by (intro up.intros) (auto simp: isInlineNamespace_def isNamespace_def)
  with visible_around.IH show ?case by simp
qed simp

text \<open>Another table leaves all contexts as they are.\<close>

definition same_contexts :: "scopes \<Rightarrow> scopes \<Rightarrow> bool" where
  "same_contexts s s' \<longleftrightarrow> s' = s\<lparr>LookupPtr := LookupPtr s'\<rparr>"

lemma context_fields:
  "same_contexts s s' \<Longrightarrow> DCKind s' = DCKind s \<and> DCParent s' = DCParent s \<and> DeclName s' = DeclName s \<and>
    DeclDC s' = DeclDC s \<and> Chains s' = Chains s \<and> RawNamespace s' = RawNamespace s"
  unfolding same_contexts_def by (metis scopes.ext_inject scopes.surjective scopes.update_convs(5))

lemma same_contexts_getters:
  assumes "same_contexts s s'"
  shows "getPrimaryContext s' = getPrimaryContext s" "isTransparentContext s' = isTransparentContext s"
    "isNamespace s' = isNamespace s" "up s' = up s" "nested s' = nested s"
proof -
  note f = context_fields[OF assms]
  show primary: "getPrimaryContext s' = getPrimaryContext s"
    by (auto simp: getPrimaryContext_def getOriginalNamespace_def f fun_eq_iff split: dc_kind.split)
  show transparent: "isTransparentContext s' = isTransparentContext s" and namespace: "isNamespace s' = isNamespace s"
    by (auto simp: isTransparentContext_def isNamespace_def f fun_eq_iff)
  show "up s' = up s" unfolding up_iff fun_eq_iff by (simp add: f primary transparent namespace)
  show "nested s' = nested s" by (simp add: nested_def f primary fun_eq_iff)
qed

lemma rank_up:
  assumes "nested s rank" "(up s)\<^sup>*\<^sup>* c c'"
  shows "rank c' \<le> rank c"
  using assms(2)
proof induction
  case (step c1 c2)
  then have "rank c2 < rank c1" using assms(1) by (auto simp: up_iff nested_def)
  with step show ?case by simp
qed simp


lemma same_contexts_refl [simp]: "same_contexts s s"
  by (simp add: same_contexts_def)

lemma same_contexts_trans: "same_contexts s s1 \<Longrightarrow> same_contexts s1 s2 \<Longrightarrow> same_contexts s s2"
  unfolding same_contexts_def by (metis scopes.surjective scopes.update_convs(5))

text \<open>The loop ends, and has replaced the declaration in every table it can reach.\<close>

lemma replace_upwards_lookup:
  assumes "nested s rank" "Some orig \<noteq> replacement"
  shows "\<exists>s'. replace_upwards orig replacement dc s = Some s' \<and> same_contexts s s' \<and>
    (\<forall>c name. lookup_in s' c name =
      (if (up s)\<^sup>*\<^sup>* (getPrimaryContext s dc) c \<and> DeclName s orig = Some name
       then replace_in orig replacement (lookup_in s c name) else lookup_in s c name))"
  using assms(1)
proof (induction "rank (getPrimaryContext s dc)" arbitrary: dc s rule: less_induct)
  case less
  let ?c = "getPrimaryContext s dc"
  let ?s = "snd (ReplaceDeclInMapImpl orig replacement ?c s)"
  have same: "same_contexts s ?s" using ReplaceDeclInMapImpl_rest[of orig replacement ?c s] by (simp add: same_contexts_def)
  note getters = same_contexts_getters[OF same] and fields = context_fields[OF same]
  note here = ReplaceDeclInMapImpl_lookup[OF assms(2), of ?c s]
  show ?case
  proof (cases "(isTransparentContext s ?c \<or> isNamespace s ?c) \<and> DCParent s ?c \<noteq> None")
    case False
    then have "\<not> up s ?c c" for c by (auto simp: up_iff)
    then have "(up s)\<^sup>*\<^sup>* ?c c \<longleftrightarrow> c = ?c" for c by (metis converse_rtranclpE rtranclp.rtrancl_refl)
    moreover have "replace_upwards orig replacement dc s = Some ?s"
      using False by (subst replace_upwards.simps) (auto simp: Let_def getters fields split: option.split)
    ultimately show ?thesis using same here by (intro exI[of _ ?s]) simp
  next
    case True
    then obtain p where p: "DCParent s ?c = Some p" by auto
    let ?p = "getPrimaryContext s p"
    have up: "up s ?c c \<longleftrightarrow> c = ?p" for c using True p by (auto simp: up_iff)
    have rank: "rank ?p < rank ?c" using less.prems p by (auto simp: nested_def)
    have not_again: "\<not> (up s)\<^sup>*\<^sup>* ?p ?c"
      using rank rank_up[OF less.prems, of ?p ?c] by auto
    obtain s' where s': "replace_upwards orig replacement p ?s = Some s'" "same_contexts ?s s'"
      "\<forall>c name. lookup_in s' c name = (if (up s)\<^sup>*\<^sup>* ?p c \<and> DeclName s orig = Some name
         then replace_in orig replacement (lookup_in ?s c name) else lookup_in ?s c name)"
      using less.hyps[of ?s p] rank less.prems by (auto simp: getters fields)
    have "replace_upwards orig replacement dc s = Some s'"
      using True p s'(1) by (subst replace_upwards.simps) (simp add: Let_def getters fields)
    moreover have "(up s)\<^sup>*\<^sup>* ?c c \<longleftrightarrow> c = ?c \<or> (up s)\<^sup>*\<^sup>* ?p c" for c
      using up by (metis converse_rtranclpE converse_rtranclp_into_rtranclp rtranclp.rtrancl_refl)
    ultimately show ?thesis
      using s'(3) here not_again same_contexts_trans[OF same s'(2)] by (intro exI[of _ s']) auto
  qed
qed


text \<open>Every declaration is stored under its name, once in a table.\<close>

definition tables_ok :: "scopes \<Rightarrow> bool" where
  "tables_ok s \<longleftrightarrow> (\<forall>c name. distinct (lookup_in s c name) \<and>
     (\<forall>d \<in> set (lookup_in s c name). DeclName s d = Some name))"

lemma replace_in_tables:
  assumes "distinct ds"
  shows "distinct (replace_in orig replacement ds)"
    "set (replace_in orig replacement ds) \<subseteq> set ds - {orig} \<union> set_option replacement"
  using assms set_replace_first[of ds orig]
  by (auto simp: replace_in_def distinct_replace_first split: option.splits if_splits)

text \<open>
  Taking a declaration out of the tables ends, and no lookup finds it any more, neither
  in its own context nor in any context around it in which clang had made it visible. All other
  declarations are found as before, and the tables stay well formed.
\<close>

theorem ReplaceDeclInMap_forgets:
  assumes "tables_ok s" "nested s rank"
  shows "\<exists>s'. ReplaceDeclInMap d None None s = Some s' \<and> tables_ok s' \<and>
    (\<forall>c name. visible_in s d c \<longrightarrow> d \<notin> set (lookup_in s' c name)) \<and>
    (\<forall>c name x. x \<noteq> d \<longrightarrow> (x \<in> set (lookup_in s' c name)) = (x \<in> set (lookup_in s c name)))"
proof -
  obtain s' where s': "replace_upwards d None (DeclDC s d) s = Some s'" "same_contexts s s'"
    "\<forall>c name. lookup_in s' c name = (if (up s)\<^sup>*\<^sup>* (getPrimaryContext s (DeclDC s d)) c \<and> DeclName s d = Some name
       then remove1 d (lookup_in s c name) else lookup_in s c name)"
    using replace_upwards_lookup[OF assms(2), of d None "DeclDC s d"] by (auto simp: replace_in_def)
  have once: "distinct (lookup_in s c name)" and name: "x \<in> set (lookup_in s c name) \<Longrightarrow> DeclName s x = Some name"
    for c name x using assms(1) by (simp_all add: tables_ok_def)
  have "tables_ok s'"
    using s'(3) once name context_fields[OF s'(2)] notin_set_remove1
    by (auto simp: tables_ok_def split: if_splits)
  moreover have "d \<notin> set (lookup_in s' c name)" if "visible_in s d c" for c name
    using s'(3) once name[of d c name] visible_up[OF that] by (cases "DeclName s d = Some name") auto
  moreover have "(x \<in> set (lookup_in s' c name)) = (x \<in> set (lookup_in s c name))" if "x \<noteq> d" for c name x
    using s'(3) that by simp
  ultimately show ?thesis using s'(1) by (auto simp: ReplaceDeclInMap_def)
qed


text \<open>
  A namespace 3, in the translation unit 0, with an inline namespace 2 that declares 5 under the
  name 7: all three tables have it.
\<close>

abbreviation inline_example :: scopes where
  "inline_example \<equiv>
     \<lparr>Chains = \<lparr>RedeclLink = \<lambda>_. UninitializedLatest, First = \<lambda>d. d\<rparr>,
      DCKind = (\<lambda>c. if c = 3 then NamespaceDC True else if c = 2 then NamespaceDC True else TranslationUnitDC),
      DCParent = [3 \<mapsto> 0, 2 \<mapsto> 3], RawNamespace = \<lambda>_. None,
      LookupPtr = [0 \<mapsto> [7 \<mapsto> DeclVector [4, 5] False], 3 \<mapsto> [7 \<mapsto> OneDecl 5], 2 \<mapsto> [7 \<mapsto> OneDecl 5]],
      HasLazyLookups = \<lambda>_. False, DeclName = [4 \<mapsto> 7, 5 \<mapsto> 7], DeclDC = (\<lambda>d. if d = 5 then 2 else 0),
      TUAnonymous = None, StdNamespace = None, StdExperimental = None, KnownNamespaces = []\<rparr>"

theorem ReplaceDeclInMap_forgets_witness:
  "\<exists>s'. ReplaceDeclInMap 5 None None inline_example = Some s' \<and> 5 \<notin> set (lookup_in s' 0 7) \<and> 4 \<in> set (lookup_in s' 0 7)"
proof -
  let ?s = inline_example
  have primary: "getPrimaryContext ?s c = c" for c
    by (auto simp: getPrimaryContext_def getOriginalNamespace_def isFirstDecl_def NextIsLatest_def)
  have "tables_ok ?s" by (auto simp: tables_ok_def lookup_in_def)
  moreover have "nested ?s (\<lambda>c. if c = 2 then 2 else if c = 3 then 1 else 0)" by (auto simp: nested_def primary split: if_splits)
  ultimately obtain s' where s': "ReplaceDeclInMap 5 None None ?s = Some s'"
    "\<forall>c name. visible_in ?s 5 c \<longrightarrow> 5 \<notin> set (lookup_in s' c name)"
    "\<forall>c name x. x \<noteq> 5 \<longrightarrow> (x \<in> set (lookup_in s' c name)) = (x \<in> set (lookup_in ?s c name))"
    using ReplaceDeclInMap_forgets[of ?s _ 5] by blast
  have "visible_in ?s 5 2" using visible_own[of ?s 5] by (simp add: primary)
  then have "visible_in ?s 5 3" using visible_around[of ?s 5 2 3] by (simp add: primary isInlineNamespace_def)
  then have "visible_in ?s 5 0" using visible_around[of ?s 5 3 0] by (simp add: primary isInlineNamespace_def)
  moreover have "4 \<in> set (lookup_in ?s 0 7)" by (simp add: lookup_in_def)
  ultimately show ?thesis using s' by fastforce
qed

subsection \<open>A replacement that cannot be removed\<close>

text \<open>
  A function 10 of the translation unit 0 is declared again, as 11, in the template of a function,
  the context 3, which is neither transparent nor a namespace.
\<close>

abbreviation local_example :: scopes where
  "local_example \<equiv>
     \<lparr>Chains = \<lparr>RedeclLink = (\<lambda>d. if d = 10 then KnownLatest 11 else if d = 11 then Previous 10 else UninitializedLatest),
                First = (\<lambda>d. if d = 11 then 10 else d)\<rparr>,
      DCKind = (\<lambda>c. if c = 3 then FunctionDC else TranslationUnitDC), DCParent = [3 \<mapsto> 0], RawNamespace = \<lambda>_. None,
      LookupPtr = [0 \<mapsto> [7 \<mapsto> OneDecl 10]], HasLazyLookups = \<lambda>_. False, DeclName = [10 \<mapsto> 7, 11 \<mapsto> 7],
      DeclDC = (\<lambda>d. if d = 11 then 3 else 0), TUAnonymous = None, StdNamespace = None, StdExperimental = None,
      KnownNamespaces = []\<rparr>"

text \<open>
  When a function that is declared again inside a function template is unloaded, the
  local declaration takes its place in the table of the translation unit. When that one is unloaded
  too, the search for it starts in the template and stops there: the table keeps a declaration that
  does not exist any more. The test before the replacement accepts every context around the other
  one, and not only those that the removal reaches.
\<close>

theorem local_redeclaration_stays:
  "(case VisitRedeclarable 10 local_example of
      None \<Rightarrow> None
    | Some s1 \<Rightarrow> map_option (\<lambda>s2. lookup_in s2 0 7) (VisitRedeclarable 11 s1)) = Some [11]"
  by code_simp


subsection \<open>A namespace survives its first declaration\<close>

lemma retarget_linked:
  assumes "linked (Chains s) second ms" "distinct (second # ms)"
  shows "retarget second (last (second # ms)) s =
    Some (s\<lparr>RawNamespace := (\<lambda>m. if m \<in> set ms then Some second else RawNamespace s m)\<rparr>)"
  using assms
proof (induction ms arbitrary: s rule: rev_induct)
  case Nil
  then show ?case by (subst retarget.simps) simp
next
  case (snoc m ms)
  let ?s = "setRawNamespace m (Some second) s"
  have "getPreviousDecl (Chains ?s) m = Some (last (second # ms))"
    using linked_previous[OF snoc.prems(1)] by (simp add: setRawNamespace_def)
  moreover have "linked (Chains ?s) second ms" using snoc.prems(1) by (simp add: linked_append setRawNamespace_def)
  then have "retarget second (last (second # ms)) ?s =
      Some (?s\<lparr>RawNamespace := (\<lambda>x. if x \<in> set ms then Some second else RawNamespace ?s x)\<rparr>)"
    using snoc.IH[of ?s] snoc.prems(2) by simp
  moreover have "m \<noteq> second" using snoc.prems(2) by auto
  ultimately show ?case
    by (subst retarget.simps) (auto simp: Let_def setRawNamespace_def fun_eq_iff intro!: scopes.equality)
qed

lemma move_first:
  assumes "chain (Chains s) (n # second # ms)"
  shows "\<exists>s'. move_namespace n s = Some s' \<and> Chains s' = Chains s \<and>
    RawNamespace s' = (\<lambda>m. if m = second then RawNamespace s n else if m \<in> set ms then Some second else RawNamespace s m) \<and>
    (LookupPtr s n \<noteq> None \<or> LookupPtr s second = None \<longrightarrow> LookupPtr s' second = LookupPtr s n) \<and>
    StdNamespace s' = (if StdNamespace s = Some n then Some second else StdNamespace s)"
proof -
  have distinct: "distinct (n # second # ms)" by (rule chain_distinct[OF assms])
  have linked: "linked (Chains s) second ms" "linked (Chains s) n (second # ms)" using assms by simp_all
  have first: "isFirstDecl (Chains s) n" using assms by (simp add: isFirstDecl_def NextIsLatest_def)
  let ?latest = "last (second # ms)"
  have latest: "getMostRecentDecl (Chains s) n = ?latest" "n \<noteq> ?latest"
    using chain_ends(2)[OF assms, of n] distinct last_in_set[of "second # ms"] by (auto simp: last_ConsR)
  have find: "find_successor (Chains s) n ?latest = Some second"
    by (rule find_successor_linked[OF linked(2) distinct])
  let ?s1 = "if StdNamespace s = Some n then s\<lparr>StdNamespace := Some second\<rparr> else s"
  let ?s2 = "setRawNamespace second (RawNamespace s n) ?s1"
  have anonymous: "getAnonymousNamespace ?s1 n = RawNamespace s n"
    using first by (simp add: getAnonymousNamespace_def getOriginalNamespace_def)
  have "retarget second ?latest ?s2 =
      Some (?s2\<lparr>RawNamespace := (\<lambda>m. if m \<in> set ms then Some second else RawNamespace ?s2 m)\<rparr>)"
    using linked(1) distinct by (intro retarget_linked) (auto simp: setRawNamespace_def)
  then show ?thesis
    using first latest find anonymous distinct
    by (auto simp: move_namespace_def Let_def setRawNamespace_def split: option.split)
qed

lemma move_other:
  assumes "chain (Chains s) (f # fs)" "n \<in> set fs"
  obtains q where "q \<in> set (f # fs)" "q \<noteq> n" "\<not> isFirstDecl (Chains s) n"
    "move_namespace n s = Some (if StdNamespace s = Some n then s\<lparr>StdNamespace := Some q\<rparr> else s)"
proof -
  have "n \<noteq> f" using chain_distinct[OF assms(1)] assms(2) by auto
  then have first: "\<not> isFirstDecl (Chains s) n" using chain_isFirstDecl[of "Chains s" f fs n] assms by simp
  obtain q where "q \<in> set (f # fs)" "q \<noteq> n" "getPreviousDecl (Chains s) n = Some q"
    using chain_getPreviousDecl[of "Chains s" f fs n] assms by blast
  then show thesis using first by (intro that[of q]) (simp_all add: move_namespace_def)
qed

text \<open>
  When a declaration of a namespace is unloaded, the namespace survives in the other
  ones: they all have the same first declaration again, which holds the lookup table and the
  anonymous namespace that it held before, also when it was the first declaration that was unloaded;
  and if the namespace is the one that Sema knows as \<^verbatim>\<open>std\<close>, Sema knows one of the others now.
\<close>

theorem namespace_survives:
  assumes "chain (Chains s) ds" "n \<in> set ds" "ds \<noteq> [n]"
    "\<forall>m \<in> set (tl ds). RawNamespace s m = Some (hd ds) \<and> LookupPtr s m = None"
  shows "\<exists>s1 cs recent. move_namespace n s = Some s1 \<and> unchain n (Chains s1) = Some (cs, recent) \<and>
    (let s' = s1\<lparr>Chains := cs\<rparr>; others = remove1 n ds
     in chain (Chains s') others \<and> LookupPtr s' (hd others) = LookupPtr s (hd ds) \<and>
        (\<forall>m \<in> set others. getOriginalNamespace s' m = hd others \<and>
           getAnonymousNamespace s' m = getAnonymousNamespace s n) \<and>
        (StdNamespace s \<in> Some ` set ds \<longrightarrow> StdNamespace s' \<in> Some ` set others))"
proof -
  obtain cs recent where cs: "unchain n (Chains s) = Some (cs, recent)" "chain cs (remove1 n ds)"
    using unchain_removes_chain[OF assms(1,2)] assms(3) by auto
  obtain first rest where others: "remove1 n ds = first # rest" using cs(2) by (cases "remove1 n ds") auto
  have original: "getOriginalNamespace (s1\<lparr>Chains := cs\<rparr>) m = first \<and>
      getAnonymousNamespace (s1\<lparr>Chains := cs\<rparr>) m = RawNamespace s1 first"
    if "\<forall>x \<in> set rest. RawNamespace s1 x = Some first" "m \<in> set (first # rest)" for s1 m
    using that chain_isFirstDecl[of cs first rest] cs(2) others
    by (auto simp: getOriginalNamespace_def getAnonymousNamespace_def simp del: chain.simps)
  obtain f fs where ds: "ds = f # fs" using assms(2) by (cases ds) auto
  have distinct: "distinct (f # fs)" using chain_distinct[OF assms(1)] ds by simp
  show ?thesis
  proof (cases "n = f")
    case True
    then have fs: "fs = first # rest" using others ds by simp
    have "isFirstDecl (Chains s) n" using chain_isFirstDecl[of "Chains s" f fs n] assms(1) ds True by simp
    then have anonymous: "getAnonymousNamespace s n = RawNamespace s n"
      by (simp add: getAnonymousNamespace_def getOriginalNamespace_def)
    have c: "chain (Chains s) (n # first # rest)" using assms(1) unfolding ds fs True .
    have "LookupPtr s first = None" using assms(4) ds fs by simp
    moreover obtain s1 where "move_namespace n s = Some s1" "Chains s1 = Chains s"
      "RawNamespace s1 = (\<lambda>m. if m = first then RawNamespace s n else if m \<in> set rest then Some first else RawNamespace s m)"
      "LookupPtr s n \<noteq> None \<or> LookupPtr s first = None \<longrightarrow> LookupPtr s1 first = LookupPtr s n"
      "StdNamespace s1 = (if StdNamespace s = Some n then Some first else StdNamespace s)"
      using move_first[OF c] by (elim exE conjE) (rule that)
    ultimately show ?thesis
      using original[of s1] cs distinct others anonymous ds fs True
      by (intro exI[of _ s1] exI[of _ cs] exI[of _ recent]) (auto simp: Let_def simp del: chain.simps)
  next
    case False
    then have fs: "n \<in> set fs" "first = f" "rest = remove1 n fs" using assms(2) others ds by auto
    obtain q where q: "q \<in> set (f # fs)" "q \<noteq> n" and not_first: "\<not> isFirstDecl (Chains s) n"
      and "move_namespace n s = Some (if StdNamespace s = Some n then s\<lparr>StdNamespace := Some q\<rparr> else s)" (is "_ = Some ?s1")
      using move_other[OF assms(1)[unfolded ds] fs(1)] by metis
    moreover have "\<forall>x \<in> set rest. RawNamespace ?s1 x = Some first" using assms(4) ds fs(2,3) notin_set_remove1 by auto
    moreover have "getAnonymousNamespace s n = RawNamespace s f"
      using not_first assms(4) ds fs(1) by (simp add: getAnonymousNamespace_def getOriginalNamespace_def)
    ultimately show ?thesis
      using original[of ?s1] cs others ds fs(2) q distinct
      by (intro exI[of _ ?s1] exI[of _ cs] exI[of _ recent]) (auto simp: Let_def simp del: chain.simps)
  qed
qed


text \<open>Three declarations of the namespace \<^verbatim>\<open>std\<close>, the first of which is unloaded.\<close>

abbreviation std_example :: scopes where
  "std_example \<equiv>
     \<lparr>Chains = setPreviousDecl 4 (Some 2) (setPreviousDecl 3 (Some 2) \<lparr>RedeclLink = \<lambda>_. UninitializedLatest, First = \<lambda>d. d\<rparr>),
      DCKind = (\<lambda>c. if c = 0 then TranslationUnitDC else NamespaceDC False), DCParent = [2 \<mapsto> 0, 3 \<mapsto> 0, 4 \<mapsto> 0],
      RawNamespace = [2 \<mapsto> 9, 3 \<mapsto> 2, 4 \<mapsto> 2], LookupPtr = [2 \<mapsto> [7 \<mapsto> OneDecl 5]],
      HasLazyLookups = \<lambda>_. False, DeclName = [5 \<mapsto> 7], DeclDC = \<lambda>_. 0,
      TUAnonymous = None, StdNamespace = Some 2, StdExperimental = None, KnownNamespaces = []\<rparr>"

theorem namespace_survives_witness:
  "\<exists>s1 cs recent. move_namespace 2 std_example = Some s1 \<and> unchain 2 (Chains s1) = Some (cs, recent) \<and>
    lookup_in (s1\<lparr>Chains := cs\<rparr>) (getOriginalNamespace (s1\<lparr>Chains := cs\<rparr>) 4) 7 = [5]"
proof -
  let ?s = std_example
  have c: "chain (Chains ?s) [2, 3, 4]" by (simp add: setPreviousDecl_def link_defs)
  obtain s1 cs recent where "move_namespace 2 ?s = Some s1" "unchain 2 (Chains s1) = Some (cs, recent)"
    "LookupPtr (s1\<lparr>Chains := cs\<rparr>) 3 = LookupPtr ?s 2" "getOriginalNamespace (s1\<lparr>Chains := cs\<rparr>) 4 = 3"
    using namespace_survives[OF c, of 2] by (simp add: Let_def del: chain.simps) blast
  then show ?thesis by (simp add: lookup_in_def)
qed

end
