(* ===== verification/Redeclarations.thy ===== *)
theory Redeclarations
  imports LookupTables
begin

text \<open>
  The chains of redeclarations and the lookup tables together: \<^verbatim>\<open>VisitRedeclarable\<close> of
  \<^verbatim>\<open>tools/zapccs/UnloaderIR.cpp\<close> for all unloaded declarations of an entity, one after the other.
\<close>

subsection \<open>Contexts do not depend on the chain\<close>

lemma chains_contexts:
  assumes "\<And>d. isNamespace s d \<Longrightarrow> RedeclLink cs d = RedeclLink (Chains s) d"
  shows "getPrimaryContext (s\<lparr>Chains := cs\<rparr>) = getPrimaryContext s" "up (s\<lparr>Chains := cs\<rparr>) = up s"
    "nested (s\<lparr>Chains := cs\<rparr>) = nested s"
proof -
  have original: "getOriginalNamespace (s\<lparr>Chains := cs\<rparr>) c = getOriginalNamespace s c" if "isNamespace s c" for c
    using assms[OF that] by (simp add: getOriginalNamespace_def isFirstDecl_def)
  show primary: "getPrimaryContext (s\<lparr>Chains := cs\<rparr>) = getPrimaryContext s"
    using original by (auto simp: getPrimaryContext_def isNamespace_def fun_eq_iff split: dc_kind.split)
  have kinds: "isTransparentContext (s\<lparr>Chains := cs\<rparr>) = isTransparentContext s" "isNamespace (s\<lparr>Chains := cs\<rparr>) = isNamespace s"
    by (auto simp: isTransparentContext_def isNamespace_def fun_eq_iff)
  show "up (s\<lparr>Chains := cs\<rparr>) = up s" by (auto simp: up_iff primary kinds fun_eq_iff)
  show "nested (s\<lparr>Chains := cs\<rparr>) = nested s" by (simp add: nested_def primary fun_eq_iff)
qed

lemma skip_linkage_chains:
  assumes "skip_linkage s c = Some b" "DCKind s' = DCKind s" "DCParent s' = DCParent s"
  shows "skip_linkage s' c = Some b"
  using assms
proof (induction s c b rule: skip_linkage.raw_induct[rotated, consumes 1, case_names step])
  case (step skip s c b)
  then show ?case by (subst skip_linkage.simps) (auto split: if_splits option.splits)
qed

subsection \<open>One declaration of an entity\<close>

text \<open>
  \<open>entity_ok s name b ds\<close>: the declarations \<open>ds\<close> are the chain of an entity that is no namespace;
  they have the same name and, linkage specifications aside, the same context \<open>b\<close>; and where a table
  has one of them, the search for each of them comes along.
\<close>

definition entity_ok :: "scopes \<Rightarrow> decl_name \<Rightarrow> context_id \<Rightarrow> decl list \<Rightarrow> bool" where
  "entity_ok s name b ds \<longleftrightarrow> tables_ok s \<and> chain (Chains s) ds \<and> getPrimaryContext s b = b \<and>
     (\<forall>d \<in> set ds. \<not> isNamespace s d \<and> DeclName s d = Some name \<and> getBaseContext s d = Some b \<and>
        (\<forall>c. set (lookup_in s c name) \<inter> set ds \<noteq> {} \<longrightarrow> (up s)\<^sup>*\<^sup>* (getPrimaryContext s (DeclDC s d)) c))"

lemma getBaseContext_cong:
  assumes "getBaseContext s d = Some b" "DCKind s' = DCKind s" "DCParent s' = DCParent s" "DeclDC s' = DeclDC s"
    "getPrimaryContext s' = getPrimaryContext s"
  shows "getBaseContext s' d = Some b"
proof -
  obtain c where c: "skip_linkage s (DeclDC s d) = Some c" "b = getPrimaryContext s c"
    using assms(1) by (auto simp: getBaseContext_def)
  then have "skip_linkage s' (DeclDC s d) = Some c" using assms(2,3) by (rule_tac skip_linkage_chains)
  then show ?thesis using c(2) assms(4,5) by (simp add: getBaseContext_def)
qed

lemma lookup_in_Chains [simp]: "lookup_in (s\<lparr>Chains := cs\<rparr>) = lookup_in s"
  by (simp add: lookup_in_def fun_eq_iff)

lemma context_contains_itself: "getPrimaryContext s c = b \<Longrightarrow> context_contains s b c = Some True"
  by (subst context_contains.simps) (simp add: Let_def)

text \<open>The handler is the removal from the chain and the replacement in the tables.\<close>

lemma VisitRedeclarable_entity:
  assumes "entity_ok s name b ds" "r \<in> set ds"
  obtains cs R where "VisitRedeclarable r s = ReplaceDeclInMap r R None (s\<lparr>Chains := cs\<rparr>)"
    "\<And>d. d \<notin> set ds \<Longrightarrow> RedeclLink cs d = RedeclLink (Chains s) d"
    "if ds = [r] then R = None else chain cs (remove1 r ds) \<and> (\<exists>x \<in> set (remove1 r ds). R = Some x)"
proof -
  have c: "chain (Chains s) ds" using assms(1) by (simp add: entity_ok_def)
  obtain f fs where ds: "ds = f # fs" using assms(2) by (cases ds) auto
  obtain cs recent where cs: "unchain r (Chains s) = Some (cs, recent)"
    "if ds = [r] then recent = r else chain cs (remove1 r ds) \<and> recent = last (remove1 r ds)"
    "\<forall>d. d \<notin> set ds \<longrightarrow> RedeclLink cs d = RedeclLink (Chains s) d \<and> First cs d = First (Chains s) d"
    using unchain_removes_chain[OF c assms(2)] by blast
  let ?s = "s\<lparr>Chains := cs\<rparr>"
  have first: "getFirstDecl (Chains s) r = f" "getMostRecentDecl (Chains s) f = last (f # fs)"
    using chain_ends[of "Chains s" f fs] c assms(2) ds by auto
  have one: "f = last (f # fs) \<longleftrightarrow> ds = [r]"
    using chain_distinct[OF c] ds assms(2) last_in_set[of fs] by (cases fs) auto
  show ?thesis
  proof (cases "ds = [r]")
    case True
    then have "VisitRedeclarable r s = ReplaceDeclInMap r None None ?s"
      using first one cs(1) by (simp add: VisitRedeclarable_def Let_def)
    then show ?thesis using that[of None cs] cs(3) True by simp
  next
    case False
    then have chain: "chain cs (remove1 r ds)" "recent = last (remove1 r ds)" using cs(2) by simp_all
    then have recent: "recent \<in> set (remove1 r ds)" by (cases "remove1 r ds") auto
    have in_set: "recent \<in> set ds" using recent notin_set_remove1[of recent ds r] by blast
    have primary: "getPrimaryContext ?s = getPrimaryContext s"
      using cs(3) assms(1) by (intro chains_contexts) (auto simp: entity_ok_def)
    have base: "getBaseContext ?s d = Some b" if "d \<in> set ds" for d
      by (rule getBaseContext_cong[OF _ _ _ _ primary]) (use assms(1) that in \<open>simp_all add: entity_ok_def\<close>)
    have "getPrimaryContext s b = b" using assms(1) by (simp add: entity_ok_def)
    then have "context_contains ?s b b = Some True" by (intro context_contains_itself) (simp add: primary)
    then have "VisitRedeclarable r s = ReplaceDeclInMap r (Some recent) None ?s"
      using first one cs(1) False base[OF assms(2)] base[OF in_set] by (simp add: VisitRedeclarable_def Let_def)
    then show ?thesis using that[of "Some recent" cs] cs(3) False chain recent by auto
  qed
qed

lemma mem_replace_in:
  assumes "x \<noteq> r" "R \<noteq> Some x"
  shows "x \<in> set (replace_in r R l) \<longleftrightarrow> x \<in> set l"
proof -
  have "x \<in> set (replace_first r y l) \<longleftrightarrow> x \<in> set l" if "x \<noteq> y" for y
    using assms(1) that by (induction l) auto
  then show ?thesis using assms by (auto simp: replace_in_def split: option.split)
qed

lemma replace_in_keeps:
  assumes "x \<in> set l" "distinct l" "R = Some y"
  shows "x \<noteq> r \<longrightarrow> x \<in> set (replace_in r R l)" "r \<in> set l \<longrightarrow> y \<noteq> r \<longrightarrow> y \<in> set (replace_in r R l)"
  using assms set_replace_first[of l r y] by (auto simp: replace_in_def)

lemma VisitRedeclarable_step:
  assumes "entity_ok s name b ds" "nested s rank" "r \<in> set ds"
  shows "\<exists>s'. VisitRedeclarable r s = Some s' \<and> nested s' rank \<and> (\<forall>c n. r \<notin> set (lookup_in s' c n)) \<and>
    (\<forall>c n x. x \<notin> set ds \<longrightarrow> (x \<in> set (lookup_in s' c n)) = (x \<in> set (lookup_in s c n))) \<and>
    (ds \<noteq> [r] \<longrightarrow> entity_ok s' name b (remove1 r ds) \<and>
       (\<forall>c. set (lookup_in s c name) \<inter> set ds \<noteq> {} \<longrightarrow> set (lookup_in s' c name) \<inter> set (remove1 r ds) \<noteq> {}))"
proof -
  obtain cs R where visit: "VisitRedeclarable r s = ReplaceDeclInMap r R None (s\<lparr>Chains := cs\<rparr>)"
    and links: "\<And>d. d \<notin> set ds \<Longrightarrow> RedeclLink cs d = RedeclLink (Chains s) d"
    and R: "if ds = [r] then R = None else chain cs (remove1 r ds) \<and> (\<exists>x \<in> set (remove1 r ds). R = Some x)"
    using VisitRedeclarable_entity[OF assms(1,3)] by blast
  let ?s = "s\<lparr>Chains := cs\<rparr>"
  have ds: "distinct ds" "\<forall>d \<in> set ds. \<not> isNamespace s d \<and> DeclName s d = Some name \<and> getBaseContext s d = Some b"
    and reach: "\<And>c d x. \<lbrakk>x \<in> set ds; x \<in> set (lookup_in s c name); d \<in> set ds\<rbrakk> \<Longrightarrow> (up s)\<^sup>*\<^sup>* (getPrimaryContext s (DeclDC s d)) c"
    and tables: "tables_ok s" and b: "getPrimaryContext s b = b"
    using assms(1) chain_distinct[of "Chains s" ds] by (auto simp: entity_ok_def)
  have contexts: "getPrimaryContext ?s = getPrimaryContext s" "up ?s = up s" "nested ?s = nested s"
    using links ds(2) by (intro chains_contexts; blast)+
  have notr: "Some r \<noteq> R" using R ds(1) by (auto split: if_splits)
  obtain s' where s': "replace_upwards r R (DeclDC s r) ?s = Some s'" "same_contexts ?s s'"
    and after: "\<And>c n. lookup_in s' c n = (if (up s)\<^sup>*\<^sup>* (getPrimaryContext s (DeclDC s r)) c \<and> n = name
       then replace_in r R (lookup_in s c n) else lookup_in s c n)"
    using replace_upwards_lookup[of ?s rank r R "DeclDC s r"] contexts assms(2,3) notr ds(2) by auto
  note fields = context_fields[OF s'(2)] and getters = same_contexts_getters[OF s'(2), unfolded contexts]
  have once: "distinct (lookup_in s c n)" and own: "x \<in> set (lookup_in s c n) \<Longrightarrow> DeclName s x = Some n"
    for c n x using tables by (simp_all add: tables_ok_def)
  note new = replace_in_tables[OF once, of r R]
  have Rin: "y \<in> set ds" "y \<noteq> r" "y \<in> set (remove1 r ds)" if "R = Some y" for y
    using R that ds(1) notin_set_remove1[of y ds r] by (auto split: if_splits)
  have gone: "r \<notin> set (lookup_in s' c n)" for c n
    using own[of r c n] reach[of r c r] new(2)[of c n] R ds assms(3) notr unfolding after by (auto split: if_splits)
  have others: "(x \<in> set (lookup_in s' c n)) = (x \<in> set (lookup_in s c n))" if "x \<notin> set ds" for c n x
    using mem_replace_in[of x r R] that assms(3) Rin(1) unfolding after by auto
  have rest: "entity_ok s' name b (remove1 r ds)" if more: "ds \<noteq> [r]"
  proof -
    obtain y where y: "R = Some y" "y \<in> set ds" "y \<noteq> r" "chain cs (remove1 r ds)"
      using R Rin more by auto
    have "distinct (lookup_in s' c n)" for c n using new(1) once unfolding after by simp
    moreover have "DeclName s' x = Some n" if x: "x \<in> set (lookup_in s' c n)" for c n x
    proof -
      have "x \<in> set (lookup_in s c n) \<or> (x = y \<and> n = name)"
        using x new(2)[of c n] y(1) unfolding after by (auto split: if_splits)
      then show ?thesis using own ds(2) y(2) fields by auto
    qed
    ultimately have "tables_ok s'" by (simp add: tables_ok_def)
    moreover have "getBaseContext s' d = Some b" if "d \<in> set ds" for d
      by (rule getBaseContext_cong[of s d b]) (use ds(2) that fields getters(1) in simp_all)
    moreover have "(up s)\<^sup>*\<^sup>* (getPrimaryContext s (DeclDC s d)) c"
      if "x \<in> set (lookup_in s' c name)" "x \<in> set ds" "d \<in> set ds" for c x d
    proof (cases "r \<in> set (lookup_in s c name)")
      case True
      then show ?thesis using reach assms(3) that(3) by blast
    next
      case False
      then have "x \<in> set (lookup_in s c name)" using that(1) y(1) unfolding after by (auto simp: replace_in_def remove1_idem split: if_splits)
      then show ?thesis using reach that(2,3) by blast
    qed
    moreover have "isNamespace s' = isNamespace s" using fields by (simp add: isNamespace_def fun_eq_iff)
    moreover have "d \<in> set ds" if "d \<in> set (remove1 r ds)" for d using that notin_set_remove1[of d ds r] by blast
    ultimately show ?thesis
      using y(4) fields getters(1,4) ds(2) b unfolding entity_ok_def by (simp del: chain.simps) blast
  qed
  have found: "set (lookup_in s' c name) \<inter> set (remove1 r ds) \<noteq> {}"
    if more: "ds \<noteq> [r]" and x: "x \<in> set (lookup_in s c name)" "x \<in> set ds" for c x
  proof -
    obtain y where y: "R = Some y" "y \<in> set (remove1 r ds)" "y \<noteq> r" using R Rin more by auto
    have "(up s)\<^sup>*\<^sup>* (getPrimaryContext s (DeclDC s r)) c" using reach x assms(3) by blast
    then show ?thesis
      using replace_in_keeps[OF x(1) once y(1), of r] y(2,3) x ds(1)
      unfolding after by (cases "x = r") auto
  qed
  have "VisitRedeclarable r s = Some s'" using visit s'(1) notr by (simp add: ReplaceDeclInMap_def)
  moreover have "nested s' rank" using getters(5) assms(2) by simp
  ultimately show ?thesis using gone others rest found by (intro exI[of _ s']) auto
qed

subsection \<open>All unloaded declarations of an entity\<close>

text \<open>
  What is left of an entity after some of its declarations \<open>ds0\<close> in the state \<open>s0\<close> were unloaded:
  the others are an entity again, the unloaded ones are in no table, a table that had one of them
  has one of the others, and other declarations are where they were.
\<close>

definition entity_left ::
  "scopes \<Rightarrow> decl_name \<Rightarrow> context_id \<Rightarrow> (context_id \<Rightarrow> nat) \<Rightarrow> decl list \<Rightarrow> scopes \<Rightarrow> decl list \<Rightarrow> bool"
where
  "entity_left s0 name b rank ds0 s ds \<longleftrightarrow> entity_ok s name b ds \<and> nested s rank \<and> set ds \<subseteq> set ds0 \<and>
     (\<forall>c n. set (lookup_in s c n) \<inter> (set ds0 - set ds) = {}) \<and>
     (\<forall>c n x. x \<notin> set ds0 \<longrightarrow> (x \<in> set (lookup_in s c n)) = (x \<in> set (lookup_in s0 c n))) \<and>
     (\<forall>c. set (lookup_in s0 c name) \<inter> set ds0 \<noteq> {} \<longrightarrow> set (lookup_in s c name) \<inter> set ds \<noteq> {})"

lemma entity_left_step:
  assumes "entity_left s0 name b rank ds0 s ds" "r \<in> set ds" "1 < length ds"
  shows "\<exists>s'. VisitRedeclarable r s = Some s' \<and> entity_left s0 name b rank ds0 s' (remove1 r ds)"
proof -
  have more: "ds \<noteq> [r]" using assms(3) by auto
  have ok: "entity_ok s name b ds" "nested s rank" "set ds \<subseteq> set ds0"
    and out: "\<And>c n x. \<lbrakk>x \<in> set ds0; x \<notin> set ds\<rbrakk> \<Longrightarrow> x \<notin> set (lookup_in s c n)"
    and same: "\<And>c n x. x \<notin> set ds0 \<Longrightarrow> (x \<in> set (lookup_in s c n)) = (x \<in> set (lookup_in s0 c n))"
    and had: "\<And>c. set (lookup_in s0 c name) \<inter> set ds0 \<noteq> {} \<Longrightarrow> set (lookup_in s c name) \<inter> set ds \<noteq> {}"
    using assms(1) unfolding entity_left_def by blast+
  have "distinct ds" using ok(1) chain_distinct by (auto simp: entity_ok_def simp del: chain.simps)
  then have members: "set (remove1 r ds) = set ds - {r}" by simp
  obtain s' where s': "VisitRedeclarable r s = Some s'" "nested s' rank" "\<And>c n. r \<notin> set (lookup_in s' c n)"
    "\<And>c n x. x \<notin> set ds \<Longrightarrow> (x \<in> set (lookup_in s' c n)) = (x \<in> set (lookup_in s c n))"
    "entity_ok s' name b (remove1 r ds)"
    "\<And>c. set (lookup_in s c name) \<inter> set ds \<noteq> {} \<Longrightarrow> set (lookup_in s' c name) \<inter> set (remove1 r ds) \<noteq> {}"
    using VisitRedeclarable_step[OF ok(1,2) assms(2)] more by blast
  have "x \<notin> set (lookup_in s' c n)" if "x \<in> set ds0" "x \<notin> set ds - {r}" for c n x
    using s'(3,4) out that by (cases "x = r") auto
  then have gone: "set (lookup_in s' c n) \<inter> (set ds0 - set (remove1 r ds)) = {}" for c n unfolding members by auto
  have others: "(x \<in> set (lookup_in s' c n)) = (x \<in> set (lookup_in s0 c n))" if "x \<notin> set ds0" for c n x
    using s'(4) same that ok(3) by blast
  have "set (remove1 r ds) \<subseteq> set ds0" using ok(3) unfolding members by auto
  then have "entity_left s0 name b rank ds0 s' (remove1 r ds)"
    unfolding entity_left_def using s'(2,5) gone others s'(6)[OF had] by simp
  then show ?thesis using s'(1) by simp
qed

interpretation entity_members: member_removal "entity_left s0 name b rank ds0" VisitRedeclarable 1
  for s0 name b rank ds0
proof
  show "distinct ds" if "entity_left s0 name b rank ds0 s ds" for s ds
    using that chain_distinct by (auto simp: entity_left_def entity_ok_def simp del: chain.simps)
qed (rule entity_left_step)

text \<open>
  C25 (safety): An entity all of whose declarations have the same base context, linkage
  specifications aside. Whichever of them are unloaded, and in whichever order, as long as one stays:
  no lookup finds an unloaded one any more, not even one that had taken the place of another in the
  meantime; every lookup that found the entity still finds one of its other declarations, which are
  its chain now; and nothing else changes in the tables. Without the condition this is false: a local
  redeclaration in a function has another base context.
\<close>

theorem unloaded_redeclarations_forgotten:
  assumes "entity_ok s name b ds" "nested s rank" "distinct rs" "set rs \<subset> set ds"
  shows "\<exists>s'. remove_all VisitRedeclarable rs s = Some s' \<and>
    chain (Chains s') (filter (\<lambda>d. d \<notin> set rs) ds) \<and>
    (\<forall>c n. set (lookup_in s' c n) \<inter> set rs = {}) \<and>
    (\<forall>c. set (lookup_in s c name) \<inter> set ds \<noteq> {} \<longrightarrow> set (lookup_in s' c name) \<inter> (set ds - set rs) \<noteq> {}) \<and>
    (\<forall>c n x. x \<notin> set ds \<longrightarrow> (x \<in> set (lookup_in s' c n)) = (x \<in> set (lookup_in s c n)))"
proof -
  have start: "entity_left s name b rank ds s ds" using assms(1,2) by (simp add: entity_left_def)
  have "distinct ds" using assms(1) chain_distinct by (auto simp: entity_ok_def simp del: chain.simps)
  then have "1 + length rs \<le> length ds"
    using psubset_card_mono[OF finite_set assms(4)] assms(3) by (simp add: distinct_card)
  then obtain s' where s': "remove_all VisitRedeclarable rs s = Some s'"
    "entity_left s name b rank ds s' (filter (\<lambda>d. d \<notin> set rs) ds)"
    using entity_members.remove_all_keeps[OF start assms(3)] assms(4) by blast
  have members: "set (filter (\<lambda>d. d \<notin> set rs) ds) = set ds - set rs" by auto
  have "set ds - (set ds - set rs) = set rs" using assms(4) by blast
  then show ?thesis
    using s' unfolding entity_left_def members entity_ok_def by (intro exI[of _ s']) (simp del: chain.simps)
qed

text \<open>
  A function that is declared three times in the translation unit: the table has the most recent
  declaration 6, then 5, and at last 5 stays.
\<close>

definition redeclared_scopes :: scopes where
  "redeclared_scopes =
     \<lparr>Chains = setPreviousDecl 6 (Some 4) (setPreviousDecl 5 (Some 4) \<lparr>RedeclLink = \<lambda>_. UninitializedLatest, First = \<lambda>d. d\<rparr>),
      DCKind = \<lambda>c. if c = 0 then TranslationUnitDC else FunctionDC, DCParent = \<lambda>_. None, RawNamespace = \<lambda>_. None,
      LookupPtr = [0 \<mapsto> [7 \<mapsto> DeclVector [3, 6] False]], HasLazyLookups = \<lambda>_. False,
      DeclName = [3 \<mapsto> 7, 4 \<mapsto> 7, 5 \<mapsto> 7, 6 \<mapsto> 7], DeclDC = \<lambda>_. 0,
      TUAnonymous = None, StdNamespace = None, StdExperimental = None, KnownNamespaces = []\<rparr>"

lemma redeclared_scopes_ok: "entity_ok redeclared_scopes 7 0 [4, 5, 6]"
proof -
  let ?s = redeclared_scopes
  have chained: "chain (Chains ?s) [4, 5, 6]" by (simp add: redeclared_scopes_def setPreviousDecl_def link_defs)
  have primary: "getPrimaryContext ?s c = c" for c by (simp add: redeclared_scopes_def getPrimaryContext_def)
  have base: "getBaseContext ?s d = Some 0" for d
    unfolding getBaseContext_def by (subst skip_linkage.simps) (simp add: redeclared_scopes_def getPrimaryContext_def)
  have tables: "tables_ok ?s" by (auto simp: tables_ok_def lookup_in_def redeclared_scopes_def)
  have only: "c = 0" if "set (lookup_in ?s c 7) \<inter> A \<noteq> {}" for c A
    using that by (auto simp: lookup_in_def redeclared_scopes_def split: if_splits)
  have decl: "\<not> isNamespace ?s d" "DeclName ?s d = Some 7" if "d \<in> set [4, 5, 6]" for d
    using that by (auto simp: isNamespace_def redeclared_scopes_def)
  have "DeclDC ?s d = 0" for d by (simp add: redeclared_scopes_def)
  then have "(up ?s)\<^sup>*\<^sup>* (getPrimaryContext ?s (DeclDC ?s d)) c" if "set (lookup_in ?s c 7) \<inter> A \<noteq> {}" for c d A
    using only[OF that] by (simp add: primary)
  then show ?thesis unfolding entity_ok_def
    by (intro conjI ballI allI impI tables chained primary base decl)
qed

theorem unloaded_redeclarations_forgotten_witness:
  "\<exists>s'. remove_all VisitRedeclarable [6, 4] redeclared_scopes = Some s' \<and> 5 \<in> set (lookup_in s' 0 7) \<and>
    6 \<notin> set (lookup_in s' 0 7)"
proof -
  have "nested redeclared_scopes (\<lambda>_. 0)" by (simp add: nested_def redeclared_scopes_def)
  moreover have "set [6, 4] \<subseteq> set [4, 5, 6 :: decl]" "5 \<in> set [4, 5, 6 :: decl]" "5 \<notin> set [6, 4 :: decl]"
    "distinct [6, 4 :: decl]" by auto
  ultimately obtain s' where s': "remove_all VisitRedeclarable [6, 4] redeclared_scopes = Some s'"
    "\<And>c n. set (lookup_in s' c n) \<inter> set [6, 4] = {}"
    "\<And>c. set (lookup_in redeclared_scopes c 7) \<inter> set [4, 5, 6] \<noteq> {} \<Longrightarrow> set (lookup_in s' c 7) \<inter> (set [4, 5, 6] - set [6, 4]) \<noteq> {}"
    using unloaded_redeclarations_forgotten[OF redeclared_scopes_ok] by blast
  have "6 \<in> set (lookup_in redeclared_scopes 0 7)" by (simp add: lookup_in_def redeclared_scopes_def)
  then have "set (lookup_in s' 0 7) \<inter> (set [4, 5, 6] - set [6, 4]) \<noteq> {}" by (intro s'(3)) auto
  then have "5 \<in> set (lookup_in s' 0 7)" by auto
  moreover have "6 \<notin> set (lookup_in s' 0 7)" using s'(2)[of 0 7] by auto
  ultimately show ?thesis using s'(1) by blast
qed

end
