(* ===== verification/Macros.thy ===== *)
theory Macros
  imports FDMapping Wildcard Options
begin

text \<open>
  The macros that the preprocessor of clang keeps between compilations: the history of the
  directives of each name, the records zapcc keeps to find the directives of a file again, and their
  removal when the file is unloaded; \<^verbatim>\<open>clang/lib/Lex/Preprocessor.cpp\<close>,
  \<^verbatim>\<open>clang/lib/Lex/PPMacroExpansion.cpp\<close>, \<^verbatim>\<open>clang/lib/Lex/MacroInfo.cpp\<close> and \<^verbatim>\<open>eraseMacros\<close>
  of \<^verbatim>\<open>tools/zapccs/Unloader.cpp\<close>. A result \<open>None\<close> is a failed assertion, a null pointer that is
  followed, or a loop that does not end.
\<close>

subsection \<open>Directives\<close>

text \<open>
  An identifier is its name: the table of identifiers has one entry for each. Of a location, the
  source manager is asked for the file and for the presumed file name.
\<close>

type_synonym ident = string
type_synonym directive = nat
type_synonym macro_id = nat

datatype directive_kind = MD_Define macro_id | MD_Undefine | MD_Visibility bool

record macro_info =
  NumTokens :: nat
  TokenBuffer :: "nat option"
  TokenOffset :: nat
  DefinitionLength :: nat
  UsedForHeaderGuard :: bool

record pp_lexer =
  LexFileID :: nat
  LexFileEntry :: "file option"
  IsPragmaLexer :: bool

record preprocessor =
  CachingMode :: bool
  DirectiveKind :: "directive \<Rightarrow> directive_kind"
  Previous :: "directive \<Rightarrow> directive option"
  DirectiveFile :: "directive \<Rightarrow> file option"
  PresumedName :: "directive \<Rightarrow> string option"
  LatestDirective :: "ident \<Rightarrow> directive option"
  HasMacro :: "ident \<Rightarrow> bool"
  HadMacro :: "ident \<Rightarrow> bool"
  MacroInfos :: "macro_id \<Rightarrow> macro_info"
  AllowRedefinitions :: "macro_id \<Rightarrow> bool"
  BufferData :: "nat \<Rightarrow> string option"
  SystemDir :: "file \<Rightarrow> bool"
  CurPPLexer :: "pp_lexer option"
  IncludeMacroStack :: "pp_lexer option list"
  PredefinesFileID :: nat
  VisibleFEs :: "file list"
  GeneratedMacros :: "file \<Rightarrow> (ident \<times> directive) list option"
  NeedMacros :: "(ident \<times> directive) list"
  GeneratedMacrosCommandLine :: "(ident \<times> directive) list"
  CommandLineMainIdentifiers :: "ident \<Rightarrow> string option"
  FilesIdentifiersValues :: "file \<Rightarrow> (ident \<times> string) list option"
  PragmaPushMacroInfo :: "ident \<Rightarrow> macro_id option list option"
  IncludeGuards :: "ident \<Rightarrow> file option"
  IncludeesMap :: "file \<Rightarrow> file list option"
  Includes :: "file list"
  InsertedVisibleFEs :: bool
  LocForStartOfFile :: "file \<Rightarrow> nat option"
  HasCallbacks :: bool
  EnteredFiles :: "nat list"
  IncludedCalls :: "file list"
  ChangedMacros :: "(file \<times> ident \<times> string \<times> string) list"

text \<open>A directive is allocated without a previous one.\<close>

definition new_directive :: "directive \<Rightarrow> directive_kind \<Rightarrow> file option \<Rightarrow> string option \<Rightarrow> preprocessor \<Rightarrow> preprocessor" where
  "new_directive d k fe presumed s =
     s\<lparr>DirectiveKind := (DirectiveKind s)(d := k), Previous := (Previous s)(d := None),
       DirectiveFile := (DirectiveFile s)(d := fe), PresumedName := (PresumedName s)(d := presumed)\<rparr>"

text \<open>
  \<open>getDefinition\<close>: the definition that a directive refers to, whether it was undefined since, and
  whether it is public.
\<close>

partial_function (option) get_definition_loop ::
  "directive option \<Rightarrow> bool \<Rightarrow> bool option \<Rightarrow> preprocessor \<Rightarrow> (macro_id option \<times> bool \<times> bool) option"
where
  "get_definition_loop md undef public s =
     (case md of
        None \<Rightarrow> Some (None, undef, public \<noteq> Some False)
      | Some d \<Rightarrow>
          (case DirectiveKind s d of
             MD_Define m \<Rightarrow> Some (Some m, undef, public \<noteq> Some False)
           | MD_Undefine \<Rightarrow> get_definition_loop (Previous s d) True public s
           | MD_Visibility v \<Rightarrow> get_definition_loop (Previous s d) undef (if public = None then Some v else public) s))"

declare get_definition_loop.simps [code]

definition getDefinition :: "directive \<Rightarrow> preprocessor \<Rightarrow> (macro_id option \<times> bool \<times> bool) option" where
  "getDefinition d s = get_definition_loop (Some d) False None s"

definition isDefined :: "directive \<Rightarrow> preprocessor \<Rightarrow> bool option" where
  "isDefined d s = map_option (\<lambda>(m, undef, _). m \<noteq> None \<and> \<not> undef) (getDefinition d s)"

definition getMacroInfo :: "directive \<Rightarrow> preprocessor \<Rightarrow> macro_id option option" where
  "getMacroInfo d s = map_option fst (getDefinition d s)"

definition setHasMacroDefinition :: "ident \<Rightarrow> bool \<Rightarrow> preprocessor \<Rightarrow> preprocessor" where
  "setHasMacroDefinition i v s =
     (if HasMacro s i = v then s
      else s\<lparr>HasMacro := (HasMacro s)(i := v), HadMacro := (HadMacro s)(i := HadMacro s i \<or> v)\<rparr>)"

subsection \<open>The text of a macro and the records of a file\<close>

definition getMacroText :: "(nat \<Rightarrow> string option) \<Rightarrow> macro_info \<Rightarrow> string" where
  "getMacroText buffers m =
     (if NumTokens m = 0 then ''(defined)''
      else (case TokenBuffer m of
              None \<Rightarrow> ''''
            | Some b \<Rightarrow> (case buffers b of
                None \<Rightarrow> ''''
              | Some text \<Rightarrow> sr_substr text (TokenOffset m) (Some (DefinitionLength m)))))"

definition sr_endswith_lower :: "string \<Rightarrow> string \<Rightarrow> bool" where
  "sr_endswith_lower s p \<longleftrightarrow> length p \<le> length s \<and>
     map to_lower (drop (length s - length p) s) = map to_lower p"

definition record_macro :: "ident \<Rightarrow> directive \<Rightarrow> pp_lexer \<Rightarrow> preprocessor \<Rightarrow> preprocessor" where
  "record_macro i d l s =
     (if LexFileID l = PredefinesFileID s then
        (if PresumedName s d = Some ''<command line>''
         then s\<lparr>GeneratedMacrosCommandLine := GeneratedMacrosCommandLine s @ [(i, d)]\<rparr> else s)
      else
        (case LexFileEntry l of
           None \<Rightarrow> s
         | Some fe \<Rightarrow>
             (let s1 = (if sr_startswith i ''_'' \<and> sr_endswith_lower i ''_defined'' \<and> SystemDir s fe
                        then s\<lparr>VisibleFEs := set_add fe (VisibleFEs s)\<rparr> else s)
              in if sr_startswith i ''__need_'' then s1\<lparr>NeedMacros := NeedMacros s1 @ [(i, d)]\<rparr>
                 else s1\<lparr>GeneratedMacros := (GeneratedMacros s1)(fe \<mapsto>
                        (case GeneratedMacros s1 fe of None \<Rightarrow> [] | Some ms \<Rightarrow> ms) @ [(i, d)])\<rparr>)))"

definition macroDefined :: "ident \<Rightarrow> directive \<Rightarrow> preprocessor \<Rightarrow> preprocessor option" where
  "macroDefined i d s =
     (case CurPPLexer s of
        None \<Rightarrow> Some s
      | Some l \<Rightarrow>
          (let s1 = record_macro i d l s
           in case getMacroInfo d s1 of
                None \<Rightarrow> None
              | Some None \<Rightarrow> Some s1
              | Some (Some m) \<Rightarrow>
                  (let s2 = s1\<lparr>AllowRedefinitions := (AllowRedefinitions s1)(m := True)\<rparr>
                   in Some (case CommandLineMainIdentifiers s2 i of
                        None \<Rightarrow> s2
                      | Some _ \<Rightarrow> s2\<lparr>CommandLineMainIdentifiers := (CommandLineMainIdentifiers s2)
                           (i \<mapsto> getMacroText (BufferData s2) (MacroInfos s2 m))\<rparr>))))"

definition isFileLexer :: "pp_lexer option \<Rightarrow> bool" where
  "isFileLexer l = (case l of None \<Rightarrow> False | Some l \<Rightarrow> \<not> IsPragmaLexer l)"

definition getCurrentFileLexer :: "preprocessor \<Rightarrow> pp_lexer option" where
  "getCurrentFileLexer s =
     (if isFileLexer (CurPPLexer s) then CurPPLexer s
      else (case List.find isFileLexer (rev (IncludeMacroStack s)) of None \<Rightarrow> None | Some l \<Rightarrow> l))"

text \<open>The entry of a key in a dense map, which is walked in an order of its own.\<close>

fun update_entry :: "'a \<Rightarrow> 'b \<Rightarrow> ('a \<times> 'b) list \<Rightarrow> ('a \<times> 'b) list" where
  "update_entry k v [] = [(k, v)]"
| "update_entry k v (e # es) = (if fst e = k then (k, v) # es else e # update_entry k v es)"

definition macroIdentifierUsed :: "ident \<Rightarrow> preprocessor \<Rightarrow> preprocessor" where
  "macroIdentifierUsed i s =
     (if \<not> CachingMode s then s
      else (case getCurrentFileLexer s of
              None \<Rightarrow> s
            | Some l \<Rightarrow>
                (case CommandLineMainIdentifiers s i of
                   None \<Rightarrow> s
                 | Some v \<Rightarrow>
                     (case LexFileEntry l of
                        None \<Rightarrow> s
                      | Some fe \<Rightarrow> s\<lparr>FilesIdentifiersValues := (FilesIdentifiersValues s)(fe \<mapsto>
                          update_entry i v (case FilesIdentifiersValues s fe of None \<Rightarrow> [] | Some vs \<Rightarrow> vs))\<rparr>))))"

subsection \<open>Adding and removing directives\<close>

definition appendMacroDirective :: "ident \<Rightarrow> directive \<Rightarrow> preprocessor \<Rightarrow> preprocessor option" where
  "appendMacroDirective i d s =
     (if Previous s d \<noteq> None then None
      else
        (let s1 = s\<lparr>Previous := (Previous s)(d := LatestDirective s i),
                    LatestDirective := (LatestDirective s)(i \<mapsto> d)\<rparr>;
             s2 = setHasMacroDefinition i True s1
         in case isDefined d s2 of
              None \<Rightarrow> None
            | Some b \<Rightarrow>
                (let s3 = (if b then s2 else setHasMacroDefinition i False s2)
                 in if CachingMode s3 then macroDefined i d s3 else Some s3)))"

partial_function (option) find_pointing :: "directive \<Rightarrow> directive option \<Rightarrow> preprocessor \<Rightarrow> directive option" where
  "find_pointing d next_one s =
     (case next_one of
        None \<Rightarrow> None
      | Some n \<Rightarrow> if Previous s n = Some d then Some n else find_pointing d (Previous s n) s)"

declare find_pointing.simps [code]

definition removeMacro :: "ident \<times> directive \<Rightarrow> preprocessor \<Rightarrow> preprocessor option" where
  "removeMacro e s =
     (case e of (i, d) \<Rightarrow>
        if \<not> CachingMode s then None
        else if LatestDirective s i = Some d then
          (let s1 = s\<lparr>LatestDirective := (LatestDirective s)(i := Previous s d)\<rparr>
           in case Previous s d of
                None \<Rightarrow> Some (setHasMacroDefinition i False s1)
              | Some p \<Rightarrow> (case isDefined p s1 of None \<Rightarrow> None | Some b \<Rightarrow> Some (setHasMacroDefinition i b s1)))
        else
          (case find_pointing d (LatestDirective s i) s of
             None \<Rightarrow> None
           | Some n \<Rightarrow> Some (s\<lparr>Previous := (Previous s)(n := Previous s d)\<rparr>)))"

definition removeMacrosVector :: "(ident \<times> directive) list \<Rightarrow> preprocessor \<Rightarrow> preprocessor option" where
  "removeMacrosVector ms s = remove_all removeMacro (rev ms) s"

fun erase_generated :: "file list \<Rightarrow> preprocessor \<Rightarrow> preprocessor option" where
  "erase_generated [] s = Some s"
| "erase_generated (fe # fes) s =
     (case removeMacrosVector (case GeneratedMacros s fe of None \<Rightarrow> [] | Some ms \<Rightarrow> ms) s of
        None \<Rightarrow> None
      | Some s1 \<Rightarrow> erase_generated fes (s1\<lparr>GeneratedMacros := (GeneratedMacros s1)(fe := None)\<rparr>))"

definition eraseMacros :: "file list \<Rightarrow> preprocessor \<Rightarrow> preprocessor option" where
  "eraseMacros fes s =
     (case erase_generated fes s of
        None \<Rightarrow> None
      | Some s1 \<Rightarrow>
          (case removeMacrosVector (NeedMacros s1) s1 of
             None \<Rightarrow> None
           | Some s2 \<Rightarrow>
               (let s3 = s2\<lparr>NeedMacros := []\<rparr>
                in case removeMacrosVector (GeneratedMacrosCommandLine s3) s3 of
                     None \<Rightarrow> None
                   | Some s4 \<Rightarrow> Some (s4\<lparr>GeneratedMacrosCommandLine := [],
                       CommandLineMainIdentifiers := (\<lambda>i. map_option (\<lambda>_. macroUndefined) (CommandLineMainIdentifiers s4 i))\<rparr>))))"

subsection \<open>The definition that is in force\<close>

definition wasIncluded :: "preprocessor \<Rightarrow> directive \<Rightarrow> bool" where
  "wasIncluded s d \<longleftrightarrow> \<not> CachingMode s \<or> (case DirectiveFile s d of None \<Rightarrow> True | Some fe \<Rightarrow> fe \<in> set (Includes s))"

partial_function (option) skip_directives ::
  "(directive \<Rightarrow> bool) \<Rightarrow> directive option \<Rightarrow> preprocessor \<Rightarrow> directive option option"
where
  "skip_directives skipped md s =
     (case md of
        None \<Rightarrow> Some None
      | Some d \<Rightarrow> if skipped d then skip_directives skipped (Previous s d) s else Some (Some d))"

declare skip_directives.simps [code]

definition isVisibility :: "preprocessor \<Rightarrow> directive \<Rightarrow> bool" where
  "isVisibility s d \<longleftrightarrow> (case DirectiveKind s d of MD_Visibility _ \<Rightarrow> True | _ \<Rightarrow> False)"

definition getMacroDefinition :: "ident \<Rightarrow> preprocessor \<Rightarrow> macro_id option option" where
  "getMacroDefinition i s =
     (if \<not> HasMacro s i then Some None
      else
        (case skip_directives (isVisibility s) (LatestDirective s i) s of
           None \<Rightarrow> None
         | Some md \<Rightarrow>
             (case skip_directives (\<lambda>d. \<not> wasIncluded s d) md s of
                None \<Rightarrow> None
              | Some None \<Rightarrow> Some None
              | Some (Some d) \<Rightarrow> Some (case DirectiveKind s d of MD_Define m \<Rightarrow> Some m | _ \<Rightarrow> None))))"

text \<open>
  The directives of a source text: \<^verbatim>\<open>#define\<close>, once its macro is read, and \<^verbatim>\<open>#undef\<close>, with the
  new directive, its file and presumed file name.
\<close>

definition appendDefMacroDirective ::
  "ident \<Rightarrow> macro_id \<Rightarrow> directive \<Rightarrow> file option \<Rightarrow> string option \<Rightarrow> preprocessor \<Rightarrow> preprocessor option"
where
  "appendDefMacroDirective i m d fe presumed s =
     appendMacroDirective i d (new_directive d (MD_Define m) fe presumed s)"

definition HandleUndefDirective ::
  "ident \<Rightarrow> directive \<Rightarrow> file option \<Rightarrow> string option \<Rightarrow> preprocessor \<Rightarrow> preprocessor option"
where
  "HandleUndefDirective i d fe presumed s =
     (case getMacroDefinition i s of
        None \<Rightarrow> None
      | Some None \<Rightarrow> Some s
      | Some (Some m) \<Rightarrow> appendMacroDirective i d (new_directive d MD_Undefine fe presumed s))"

text \<open>
  \<^verbatim>\<open>#pragma push_macro\<close> and \<^verbatim>\<open>#pragma pop_macro\<close> with the directives they allocate; popping reads
  the last element of a vector, which is never empty.
\<close>

definition HandlePragmaPushMacro :: "ident \<Rightarrow> preprocessor \<Rightarrow> preprocessor option" where
  "HandlePragmaPushMacro i s =
     (case getMacroDefinition i s of
        None \<Rightarrow> None
      | Some m \<Rightarrow>
          Some (s\<lparr>AllowRedefinitions := (case m of None \<Rightarrow> AllowRedefinitions s | Some m \<Rightarrow> (AllowRedefinitions s)(m := True)),
                 PragmaPushMacroInfo := (PragmaPushMacroInfo s)(i \<mapsto>
                   (case PragmaPushMacroInfo s i of None \<Rightarrow> [] | Some ms \<Rightarrow> ms) @ [m])\<rparr>))"

definition HandlePragmaPopMacro ::
  "ident \<Rightarrow> directive \<Rightarrow> directive \<Rightarrow> file option \<Rightarrow> string option \<Rightarrow> preprocessor \<Rightarrow> preprocessor option"
where
  "HandlePragmaPopMacro i undef_d def_d fe presumed s =
     (case PragmaPushMacroInfo s i of
        None \<Rightarrow> Some s
      | Some [] \<Rightarrow> None
      | Some ms \<Rightarrow>
          (case getMacroDefinition i s of
             None \<Rightarrow> None
           | Some m \<Rightarrow>
               (case (case m of None \<Rightarrow> Some s
                        | Some _ \<Rightarrow> appendMacroDirective i undef_d (new_directive undef_d MD_Undefine fe presumed s)) of
                  None \<Rightarrow> None
                | Some s1 \<Rightarrow>
                    (case (case last ms of None \<Rightarrow> Some s1
                             | Some old \<Rightarrow> appendDefMacroDirective i old def_d fe presumed s1) of
                       None \<Rightarrow> None
                     | Some s2 \<Rightarrow> Some (s2\<lparr>PragmaPushMacroInfo := (PragmaPushMacroInfo s2)
                         (i := (if butlast ms = [] then None else Some (butlast ms)))\<rparr>)))))"

end
