(* ===== verification/MacroErasure.thy ===== *)
theory MacroErasure
  imports Macros
begin

text \<open>
  What the records of macros achieve: the directives of a file are found again and removed from the
  histories of their names, so that unloading a file undoes what reading it did to the macros.
\<close>

subsection \<open>The log of directives\<close>

text \<open>
  The abstract state is a log: all directives in force with their names, the latest one first. The
  history of a name is the part of the log about it. Visibility directives, which only modules use,
  are left out.
\<close>

definition history :: "(ident \<times> directive) list \<Rightarrow> ident \<Rightarrow> directive list" where
  "history L i = map snd (filter (\<lambda>e. fst e = i) L)"

definition is_define :: "preprocessor \<Rightarrow> directive \<Rightarrow> bool" where
  "is_define s d \<longleftrightarrow> (\<exists>m. DirectiveKind s d = MD_Define m)"

definition logged :: "preprocessor \<Rightarrow> (ident \<times> directive) list \<Rightarrow> bool" where
  "logged s L \<longleftrightarrow> CachingMode s \<and> distinct (map snd L) \<and> (\<forall>e \<in> set L. \<not> isVisibility s (snd e)) \<and>
     (\<forall>i. list_path (Previous s) (LatestDirective s i) (history L i) None \<and>
          (HasMacro s i \<longleftrightarrow> (case history L i of [] \<Rightarrow> False | d # _ \<Rightarrow> is_define s d)))"

lemma history_simps [simp]:
  "history [] i = []"
  "history (e # L) i = (if fst e = i then snd e # history L i else history L i)"
  by (simp_all add: history_def)

lemma history_append: "history (xs @ ys) i = history xs i @ history ys i"
  by (simp add: history_def)

lemma set_history: "d \<in> set (history L i) \<longleftrightarrow> (i, d) \<in> set L"
  by (force simp: history_def)

lemma distinct_history: "distinct (map snd L) \<Longrightarrow> distinct (history L i)"
  unfolding history_def by (induction L) auto

lemma history_filter: "history (filter (\<lambda>e. P (snd e)) L) i = filter P (history L i)"
  by (induction L) auto

lemma loggedD:
  assumes "logged s L"
  shows "CachingMode s" "distinct (map snd L)" "e \<in> set L \<Longrightarrow> \<not> isVisibility s (snd e)"
    "list_path (Previous s) (LatestDirective s i) (history L i) None"
    "HasMacro s i \<longleftrightarrow> (case history L i of [] \<Rightarrow> False | d # _ \<Rightarrow> is_define s d)"
  using assms by (simp_all add: logged_def)

subsection \<open>Following a history\<close>

lemma get_definition_ends:
  assumes "list_path (Previous s) p ds None"
  shows "\<exists>m u' v. get_definition_loop p u public s = Some (m, u', v) \<and> (u \<longrightarrow> u')"
  using assms
proof (induction ds arbitrary: p u public)
  case Nil
  then show ?case by (subst get_definition_loop.simps) auto
next
  case (Cons d ds)
  then have p: "p = Some d" "list_path (Previous s) (Previous s d) ds None" by simp_all
  show ?case
  proof (cases "DirectiveKind s d")
    case (MD_Define m)
    then show ?thesis using p(1) by (subst get_definition_loop.simps) simp
  next
    case MD_Undefine
    then show ?thesis using p(1) Cons.IH[OF p(2), of True public] by (subst get_definition_loop.simps) auto
  next
    case (MD_Visibility v)
    then show ?thesis using p(1) Cons.IH[OF p(2), of u "if public = None then Some v else public"]
      by (subst get_definition_loop.simps) auto
  qed
qed

lemma isDefined_history:
  assumes "list_path (Previous s) (Some d) ds None" "\<not> isVisibility s d"
  shows "isDefined d s = Some (is_define s d)"
proof (cases "DirectiveKind s d")
  case (MD_Define m)
  then show ?thesis
    by (simp add: isDefined_def getDefinition_def is_define_def get_definition_loop.simps[of "Some d"])
next
  case MD_Undefine
  obtain ds' where ds': "list_path (Previous s) (Previous s d) ds' None" using assms(1) by (cases ds) auto
  obtain m v where "get_definition_loop (Previous s d) True None s = Some (m, True, v)"
    using get_definition_ends[OF ds', of True None] by auto
  then show ?thesis using MD_Undefine
    by (simp add: isDefined_def getDefinition_def is_define_def get_definition_loop.simps[of "Some d"])
next
  case (MD_Visibility v)
  then show ?thesis using assms(2) by (simp add: isVisibility_def)
qed

lemma getMacroInfo_history:
  assumes "list_path (Previous s) (Some d) ds None"
  shows "\<exists>m. getMacroInfo d s = Some m"
  using get_definition_ends[OF assms, of False None] by (auto simp: getMacroInfo_def getDefinition_def)

lemma find_pointing_path:
  assumes "list_path (Previous s) p (xs @ n # d # ys) None" "distinct (xs @ n # d # ys)"
  shows "find_pointing d p s = Some n"
  using assms
proof (induction xs arbitrary: p)
  case Nil
  then show ?case by (subst find_pointing.simps) auto
next
  case (Cons x xs)
  have "Previous s x \<noteq> Some d" using Cons.prems by (cases xs) auto
  then show ?case using Cons by (subst find_pointing.simps) auto
qed

lemma list_path_unlink:
  assumes "list_path nx p (xs @ n # d # ys) q" "distinct (xs @ n # d # ys)"
  shows "list_path (nx(n := nx d)) p (xs @ n # ys) q"
  using assms by (auto simp: path_append)

lemma skip_directives_path:
  assumes "list_path (Previous s) p ds None"
  shows "\<exists>md. skip_directives f p s = Some md \<and> md = List.find (\<lambda>d. \<not> f d) ds \<and>
    (\<forall>d. md = Some d \<longrightarrow> list_path (Previous s) md (dropWhile f ds) None)"
  using assms
proof (induction ds arbitrary: p)
  case Nil
  then show ?case by (subst skip_directives.simps) simp
next
  case (Cons d ds)
  then show ?case by (subst skip_directives.simps) auto
qed

subsection \<open>Removing directives\<close>

definition macro_frame :: "preprocessor \<Rightarrow> preprocessor \<Rightarrow> bool" where
  "macro_frame s s' \<longleftrightarrow> s' = s\<lparr>Previous := Previous s', LatestDirective := LatestDirective s',
     HasMacro := HasMacro s', HadMacro := HadMacro s'\<rparr>"

lemma macro_frame_refl [simp]: "macro_frame s s"
  by (simp add: macro_frame_def)

lemma macro_frame_fields:
  assumes "macro_frame s s'"
  shows "CachingMode s' = CachingMode s" "DirectiveKind s' = DirectiveKind s" "DirectiveFile s' = DirectiveFile s"
    "GeneratedMacros s' = GeneratedMacros s" "NeedMacros s' = NeedMacros s"
    "GeneratedMacrosCommandLine s' = GeneratedMacrosCommandLine s" "Includes s' = Includes s"
    "CommandLineMainIdentifiers s' = CommandLineMainIdentifiers s" "isVisibility s' = isVisibility s"
    "is_define s' = is_define s"
  by (subst assms[unfolded macro_frame_def]; simp add: isVisibility_def[abs_def] is_define_def[abs_def])+

lemma macro_frame_wasIncluded: "macro_frame s s' \<Longrightarrow> wasIncluded s' = wasIncluded s"
  by (rule ext) (simp add: wasIncluded_def macro_frame_fields split: option.split)

lemma macro_frame_trans:
  assumes "macro_frame s s1" "macro_frame s1 s2"
  shows "macro_frame s s2"
proof -
  have "s1\<lparr>Previous := a, LatestDirective := b, HasMacro := c, HadMacro := d\<rparr> =
      s\<lparr>Previous := a, LatestDirective := b, HasMacro := c, HadMacro := d\<rparr>" for a b c d
    by (subst assms(1)[unfolded macro_frame_def]) simp
  then show ?thesis using assms(2) by (simp add: macro_frame_def)
qed

lemma setHasMacroDefinition_fields [simp]:
  "macro_frame s (setHasMacroDefinition i v s)" "HasMacro (setHasMacroDefinition i v s) = (HasMacro s)(i := v)"
  "Previous (setHasMacroDefinition i v s) = Previous s"
  "LatestDirective (setHasMacroDefinition i v s) = LatestDirective s"
  by (auto simp: setHasMacroDefinition_def macro_frame_def fun_eq_iff)

lemma history_remove1:
  assumes "distinct (map snd L)" "(i, d) \<in> set L"
  shows "history (remove1 (i, d) L) j = (if j = i then remove1 d (history L i) else history L j)"
  using assms by (induction L) (auto simp: set_history remove1_idem)

text \<open>Removing the latest directive of a name makes the one before it the latest.\<close>

lemma removeMacro_latest:
  assumes L: "logged s L" and h: "history L i = d # ds"
  shows "\<exists>s'. removeMacro (i, d) s = Some s' \<and> logged s' (remove1 (i, d) L) \<and> macro_frame s s'"
proof -
  note old = loggedD[OF L]
  have d: "(i, d) \<in> set L" using h set_history[of d L i] by simp
  have path: "LatestDirective s i = Some d" "list_path (Previous s) (Previous s d) ds None"
    using old(4)[of i] h by simp_all
  let ?s1 = "s\<lparr>LatestDirective := (LatestDirective s)(i := Previous s d)\<rparr>"
  define s' where "s' = setHasMacroDefinition i (case ds of [] \<Rightarrow> False | p # _ \<Rightarrow> is_define s p) ?s1"
  have "removeMacro (i, d) s = Some s'"
  proof (cases ds)
    case Nil
    then show ?thesis using path old(1) by (simp add: removeMacro_def s'_def)
  next
    case (Cons p ps)
    then have p: "Previous s d = Some p" "list_path (Previous ?s1) (Some p) ds None" using path(2) by simp_all
    have "p \<in> set (history L i)" using h Cons by simp
    then have "\<not> isVisibility ?s1 p" using old(3)[of "(i, p)"] by (simp add: set_history isVisibility_def)
    then have "isDefined p ?s1 = Some (is_define s p)" using isDefined_history[OF p(2)] by (simp add: is_define_def)
    then show ?thesis using path(1) p(1) old(1) Cons by (simp add: removeMacro_def s'_def)
  qed
  moreover have frame: "macro_frame s s'"
    unfolding s'_def by (rule macro_frame_trans[of s ?s1, OF _ setHasMacroDefinition_fields(1)]) (simp add: macro_frame_def)
  moreover have "logged s' (remove1 (i, d) L)"
  proof -
    have "list_path (Previous s') (LatestDirective s' j) (history (remove1 (i, d) L) j) None \<and>
        HasMacro s' j = (case history (remove1 (i, d) L) j of [] \<Rightarrow> False | p # _ \<Rightarrow> is_define s' p)" for j
      using old(4,5)[of j] path(2) h
      unfolding history_remove1[OF old(2) d] macro_frame_fields(10)[OF frame] by (simp add: s'_def)
    moreover have "distinct (map snd (remove1 (i, d) L))"
      using old(2) d by (metis distinct_remove1 distinct_map inj_on_subset set_remove1_subset)
    ultimately show ?thesis
      using old(1,3) macro_frame_fields[OF frame] set_remove1_subset[of "(i, d)" L] by (auto simp: logged_def)
  qed
  ultimately show ?thesis by blast
qed

text \<open>Another one is unlinked from the one after it.\<close>

lemma removeMacro_earlier:
  assumes L: "logged s L" and h: "history L i = xs @ n # d # ys"
  shows "\<exists>s'. removeMacro (i, d) s = Some s' \<and> logged s' (remove1 (i, d) L) \<and> macro_frame s s'"
proof -
  note old = loggedD[OF L]
  have in_h: "d \<in> set (history L i)" "n \<in> set (history L i)" using h by simp_all
  have d: "(i, d) \<in> set L" using in_h(1) by (simp add: set_history)
  have distinct: "distinct (xs @ n # d # ys)" using distinct_history[OF old(2), of i] h by simp
  have path: "list_path (Previous s) (LatestDirective s i) (xs @ n # d # ys) None" using old(4)[of i] h by simp
  let ?s' = "s\<lparr>Previous := (Previous s)(n := Previous s d)\<rparr>"
  have "LatestDirective s i \<noteq> Some d" using path distinct by (cases xs) auto
  then have "removeMacro (i, d) s = Some ?s'"
    using find_pointing_path[OF path distinct] old(1) by (simp add: removeMacro_def)
  moreover have frame: "macro_frame s ?s'" by (simp add: macro_frame_def)
  moreover have "logged ?s' (remove1 (i, d) L)"
  proof -
    have removed: "remove1 d (history L i) = xs @ n # ys" using h distinct by (simp add: remove1_append)
    have "n \<notin> set (history L j)" if "j \<noteq> i" for j
      using that in_h(2) old(2) inj_onD[of snd "set L" "(i, n)" "(j, n)"] by (auto simp: set_history distinct_map)
    then have "list_path (Previous ?s') (LatestDirective ?s' j) (history (remove1 (i, d) L) j) None" for j
      using old(4)[of j] list_path_unlink[OF path distinct] unfolding history_remove1[OF old(2) d] removed by simp
    moreover have "HasMacro ?s' j = (case history (remove1 (i, d) L) j of [] \<Rightarrow> False | p # _ \<Rightarrow> is_define ?s' p)" for j
      using old(5)[of j] h unfolding history_remove1[OF old(2) d] removed macro_frame_fields(10)[OF frame]
      by (cases xs) simp_all
    moreover have "distinct (map snd (remove1 (i, d) L))"
      using old(2) by (metis distinct_remove1 distinct_map inj_on_subset set_remove1_subset)
    ultimately show ?thesis
      using old(1,3) macro_frame_fields[OF frame] set_remove1_subset[of "(i, d)" L] by (auto simp: logged_def)
  qed
  ultimately show ?thesis by blast
qed

lemma removeMacro_logged:
  assumes "logged s L" "e \<in> set L"
  shows "\<exists>s'. removeMacro e s = Some s' \<and> logged s' (remove1 e L) \<and> macro_frame s s'"
proof -
  obtain i d where e: "e = (i, d)" by (cases e)
  then have "d \<in> set (history L i)" using assms(2) by (simp add: set_history)
  then obtain xs ys where h: "history L i = xs @ d # ys" by (auto dest: split_list)
  show ?thesis
  proof (cases xs rule: rev_cases)
    case Nil
    then show ?thesis using removeMacro_latest[OF assms(1), of i d ys] h e by simp
  next
    case (snoc zs n)
    then show ?thesis using removeMacro_earlier[OF assms(1), of i zs n d ys] h e by simp
  qed
qed

definition log_left :: "preprocessor \<Rightarrow> preprocessor \<Rightarrow> (ident \<times> directive) list \<Rightarrow> bool" where
  "log_left s0 s L \<longleftrightarrow> logged s L \<and> macro_frame s0 s"

interpretation log_members: member_removal "log_left s0" removeMacro 0 for s0
proof
  show "distinct L" if "log_left s0 s L" for s L using that loggedD(2) by (auto simp: log_left_def distinct_map)
next
  show "\<exists>s'. removeMacro e s = Some s' \<and> log_left s0 s' (remove1 e L)" if "log_left s0 s L" "e \<in> set L" for s e L
    using removeMacro_logged[of s L e] that macro_frame_trans[of s0 s] by (auto simp: log_left_def)
qed

subsection \<open>The records\<close>

datatype record_list = OfFile "file" | Needed | CommandLine

fun recorded :: "preprocessor \<Rightarrow> record_list \<Rightarrow> (ident \<times> directive) list" where
  "recorded s (OfFile fe) = (case GeneratedMacros s fe of None \<Rightarrow> [] | Some ms \<Rightarrow> ms)"
| "recorded s Needed = NeedMacros s"
| "recorded s CommandLine = GeneratedMacrosCommandLine s"

lemma recorded_updates [simp]:
  "recorded (s\<lparr>Previous := a\<rparr>) = recorded s" "recorded (s\<lparr>LatestDirective := b\<rparr>) = recorded s"
  "recorded (s\<lparr>HasMacro := c\<rparr>) = recorded s" "recorded (s\<lparr>HadMacro := c\<rparr>) = recorded s"
  "recorded (s\<lparr>AllowRedefinitions := f\<rparr>) = recorded s" "recorded (s\<lparr>CommandLineMainIdentifiers := g\<rparr>) = recorded s"
  "recorded (s\<lparr>CurPPLexer := l\<rparr>) = recorded s" "recorded (s\<lparr>DirectiveKind := k\<rparr>) = recorded s"
  "recorded (s\<lparr>DirectiveFile := h\<rparr>) = recorded s" "recorded (s\<lparr>PresumedName := n\<rparr>) = recorded s"
  by (intro ext; case_tac x; simp)+

text \<open>Every recorded directive is in the log, and in one record only.\<close>

definition macros_ok :: "preprocessor \<Rightarrow> (ident \<times> directive) list \<Rightarrow> bool" where
  "macros_ok s L \<longleftrightarrow> logged s L \<and>
     (\<forall>k. distinct (recorded s k) \<and> set (recorded s k) \<subseteq> set L) \<and>
     (\<forall>k k' e. e \<in> set (recorded s k) \<longrightarrow> e \<in> set (recorded s k') \<longrightarrow> k = k')"

text \<open>Removing the directives of a record and forgetting the record.\<close>

lemma erase_record:
  assumes "macros_ok s L"
  shows "\<exists>s1. removeMacrosVector (recorded s k) s = Some s1 \<and> macro_frame s s1 \<and>
    logged s1 (filter (\<lambda>e. e \<notin> set (recorded s k)) L)"
proof -
  have ok: "log_left s s L" "distinct (rev (recorded s k))" "set (rev (recorded s k)) \<subseteq> set L"
    using assms by (simp_all add: macros_ok_def log_left_def)
  have "distinct L" using ok(1) by (rule log_members.holds_distinct)
  then have "length (rev (recorded s k)) \<le> length L"
    using card_mono[OF finite_set ok(3)] ok(2) distinct_card by (metis distinct_card)
  then show ?thesis
    using log_members.remove_all_keeps[OF ok] by (auto simp: removeMacrosVector_def log_left_def)
qed

lemma macros_ok_forget:
  assumes "macros_ok s L" "logged s1 (filter (\<lambda>e. e \<notin> set (recorded s k)) L)"
    "logged s2 M \<longleftrightarrow> logged s1 M" "recorded s2 = (recorded s)(k := [])"
    "M = filter (\<lambda>e. e \<notin> set (recorded s k)) L"
  shows "macros_ok s2 M"
  using assms(1-3) unfolding macros_ok_def assms(4,5) by (auto split: if_splits)

subsection \<open>Unloading the macros of files\<close>

text \<open>What erasing does not touch, as far as the search for a definition depends on it.\<close>

definition erase_keeps :: "preprocessor \<Rightarrow> preprocessor \<Rightarrow> bool" where
  "erase_keeps s s' \<longleftrightarrow> DirectiveKind s' = DirectiveKind s \<and> DirectiveFile s' = DirectiveFile s \<and>
     CachingMode s' = CachingMode s \<and> Includes s' = Includes s \<and>
     CommandLineMainIdentifiers s' = CommandLineMainIdentifiers s"

lemma macro_frame_keeps: "macro_frame s s' \<Longrightarrow> erase_keeps s s'"
  by (simp add: erase_keeps_def macro_frame_fields)

lemma logged_cong:
  assumes "CachingMode s' = CachingMode s" "DirectiveKind s' = DirectiveKind s" "Previous s' = Previous s"
    "LatestDirective s' = LatestDirective s" "HasMacro s' = HasMacro s"
  shows "logged s' L = logged s L"
proof -
  have "isVisibility s' = isVisibility s" "is_define s' = is_define s"
    using assms(2) by (simp_all add: isVisibility_def is_define_def fun_eq_iff)
  then show ?thesis unfolding logged_def assms by (simp only:)
qed

lemma erase_generated_ok:
  assumes "macros_ok s L"
  shows "\<exists>s'. erase_generated fes s = Some s' \<and>
    macros_ok s' (filter (\<lambda>e. \<forall>fe \<in> set fes. e \<notin> set (recorded s (OfFile fe))) L) \<and>
    recorded s' = (\<lambda>k. if k \<in> OfFile ` set fes then [] else recorded s k) \<and> erase_keeps s s'"
  using assms
proof (induction fes arbitrary: s L)
  case Nil
  then show ?case by (simp add: erase_keeps_def)
next
  case (Cons fe fes)
  let ?L = "filter (\<lambda>e. e \<notin> set (recorded s (OfFile fe))) L"
  obtain s1 where s1: "removeMacrosVector (recorded s (OfFile fe)) s = Some s1" "macro_frame s s1" "logged s1 ?L"
    using erase_record[OF Cons.prems, of "OfFile fe"] by blast
  let ?s2 = "s1\<lparr>GeneratedMacros := (GeneratedMacros s1)(fe := None)\<rparr>"
  have recorded: "recorded ?s2 = (recorded s)(OfFile fe := [])"
    using macro_frame_fields[OF s1(2)] by (intro ext) (case_tac x; simp)
  have "macros_ok ?s2 ?L"
    by (rule macros_ok_forget[OF Cons.prems s1(3) logged_cong recorded]) simp_all
  then obtain s' where s': "erase_generated fes ?s2 = Some s'" "erase_keeps ?s2 s'"
    "recorded s' = (\<lambda>k. if k \<in> OfFile ` set fes then [] else recorded ?s2 k)"
    "macros_ok s' (filter (\<lambda>e. \<forall>fe \<in> set fes. e \<notin> set (recorded ?s2 (OfFile fe))) ?L)"
    using Cons.IH by blast
  have "filter (\<lambda>e. \<forall>fe \<in> set fes. e \<notin> set (recorded ?s2 (OfFile fe))) ?L =
      filter (\<lambda>e. \<forall>f \<in> set (fe # fes). e \<notin> set (recorded s (OfFile f))) L"
    unfolding recorded by (auto intro!: filter_cong)
  then have "macros_ok s' (filter (\<lambda>e. \<forall>f \<in> set (fe # fes). e \<notin> set (recorded s (OfFile f))) L)" using s'(4) by simp
  moreover have "erase_generated (fe # fes) s = Some s'" using s1(1) s'(1) by simp
  moreover have "erase_keeps s s'" using macro_frame_keeps[OF s1(2)] s'(2) by (simp add: erase_keeps_def)
  moreover have "recorded s' = (\<lambda>k. if k \<in> OfFile ` set (fe # fes) then [] else recorded s k)"
    unfolding s'(3) recorded by auto
  ultimately show ?case by blast
qed

text \<open>The records that unloading the files empties, and the log without them.\<close>

definition erased_records :: "file list \<Rightarrow> record_list set" where
  "erased_records fes = OfFile ` set fes \<union> {Needed, CommandLine}"

definition log_without :: "preprocessor \<Rightarrow> file list \<Rightarrow> (ident \<times> directive) list \<Rightarrow> (ident \<times> directive) list" where
  "log_without s fes L = filter (\<lambda>e. \<forall>k \<in> erased_records fes. e \<notin> set (recorded s k)) L"

lemma eraseMacros_ok:
  assumes "macros_ok s L"
  shows "\<exists>s'. eraseMacros fes s = Some s' \<and> macros_ok s' (log_without s fes L) \<and>
    recorded s' = (\<lambda>k. if k \<in> erased_records fes then [] else recorded s k) \<and>
    erase_keeps s (s'\<lparr>CommandLineMainIdentifiers := CommandLineMainIdentifiers s\<rparr>) \<and>
    CommandLineMainIdentifiers s' = (\<lambda>i. map_option (\<lambda>_. macroUndefined) (CommandLineMainIdentifiers s i))"
proof -
  let ?L1 = "filter (\<lambda>e. \<forall>fe \<in> set fes. e \<notin> set (recorded s (OfFile fe))) L"
  obtain s1 where s1: "erase_generated fes s = Some s1" "macros_ok s1 ?L1" "erase_keeps s s1"
    "recorded s1 = (\<lambda>k. if k \<in> OfFile ` set fes then [] else recorded s k)"
    using erase_generated_ok[OF assms] by blast
  let ?L2 = "filter (\<lambda>e. e \<notin> set (recorded s1 Needed)) ?L1"
  obtain s2 where s2: "removeMacrosVector (recorded s1 Needed) s1 = Some s2" "macro_frame s1 s2" "logged s2 ?L2"
    using erase_record[OF s1(2), of Needed] by blast
  let ?s3 = "s2\<lparr>NeedMacros := []\<rparr>"
  have r3: "recorded ?s3 = (recorded s1)(Needed := [])"
    using macro_frame_fields[OF s2(2)] by (intro ext) (case_tac x; simp)
  have ok3: "macros_ok ?s3 ?L2" by (rule macros_ok_forget[OF s1(2) s2(3) logged_cong r3]) simp_all
  let ?L4 = "filter (\<lambda>e. e \<notin> set (recorded ?s3 CommandLine)) ?L2"
  obtain s4 where s4: "removeMacrosVector (recorded ?s3 CommandLine) ?s3 = Some s4" "macro_frame ?s3 s4" "logged s4 ?L4"
    using erase_record[OF ok3, of CommandLine] by blast
  let ?s5 = "s4\<lparr>GeneratedMacrosCommandLine := [],
    CommandLineMainIdentifiers := (\<lambda>i. map_option (\<lambda>_. macroUndefined) (CommandLineMainIdentifiers s4 i))\<rparr>"
  have r5: "recorded ?s5 = (recorded ?s3)(CommandLine := [])"
    using macro_frame_fields[OF s4(2)] by (intro ext) (case_tac x; simp)
  have ok5: "macros_ok ?s5 ?L4" by (rule macros_ok_forget[OF ok3 s4(3) logged_cong r5]) simp_all
  have "?L4 = log_without s fes L"
    unfolding log_without_def erased_records_def r3 s1(4) by (auto intro!: filter_cong)
  moreover have "eraseMacros fes s = Some ?s5"
    using s1(1) s2(1) s4(1) by (simp add: eraseMacros_def)
  moreover have "recorded ?s5 = (\<lambda>k. if k \<in> erased_records fes then [] else recorded s k)"
    unfolding r5 r3 s1(4) erased_records_def by auto
  moreover have "erase_keeps s s4"
    using s1(3) macro_frame_keeps[OF s2(2)] macro_frame_keeps[OF s4(2)] by (simp add: erase_keeps_def)
  ultimately show ?thesis using ok5 by (intro exI[of _ ?s5]) (simp add: erase_keeps_def)
qed

end
