(* ===== verification/MacroUnload.thy ===== *)
theory MacroUnload
  imports MacroErasure
begin

text \<open>
  Reading and unloading files together: the definition of a name that is in force, what reading the
  directives of files adds to the log, and that unloading the files takes it back.
\<close>

subsection \<open>The definition in force\<close>

definition macro_of :: "directive_kind \<Rightarrow> macro_id option" where
  "macro_of k = (case k of MD_Define m \<Rightarrow> Some m | _ \<Rightarrow> None)"

text \<open>The latest directive about the name in the files of this compilation.\<close>

definition macro_in_force :: "preprocessor \<Rightarrow> directive list \<Rightarrow> macro_id option" where
  "macro_in_force s ds =
     (case List.find (wasIncluded s) ds of None \<Rightarrow> None | Some d \<Rightarrow> macro_of (DirectiveKind s d))"

lemma getMacroDefinition_logged:
  assumes "logged s L"
  shows "getMacroDefinition i s = Some (if HasMacro s i then macro_in_force s (history L i) else None)"
proof (cases "HasMacro s i")
  case True
  note old = loggedD[OF assms]
  have visible: "skip_directives (isVisibility s) (LatestDirective s i) s = Some (LatestDirective s i)"
  proof (cases "history L i")
    case Nil
    then show ?thesis using old(4)[of i] by (subst skip_directives.simps) simp
  next
    case (Cons d ds)
    then have "\<not> isVisibility s d" using old(3)[of "(i, d)"] set_history[of d L i] by simp
    then show ?thesis using old(4)[of i] Cons by (subst skip_directives.simps) simp
  qed
  show ?thesis
    using skip_directives_path[OF old(4)[of i], of "\<lambda>d. \<not> wasIncluded s d"] visible True
    by (auto simp: getMacroDefinition_def macro_in_force_def macro_of_def split: option.split)
qed (simp add: getMacroDefinition_def)

subsection \<open>Reading a directive\<close>

text \<open>The record in which a new directive is noted.\<close>

definition record_key :: "preprocessor \<Rightarrow> pp_lexer \<Rightarrow> ident \<Rightarrow> directive \<Rightarrow> record_list option" where
  "record_key s l i d =
     (if LexFileID l = PredefinesFileID s then (if PresumedName s d = Some ''<command line>'' then Some CommandLine else None)
      else map_option (\<lambda>fe. if sr_startswith i ''__need_'' then Needed else OfFile fe) (LexFileEntry l))"

definition note_in :: "record_list option \<Rightarrow> 'a \<Rightarrow> (record_list \<Rightarrow> 'a list) \<Rightarrow> record_list \<Rightarrow> 'a list" where
  "note_in k e r = (case k of None \<Rightarrow> r | Some k \<Rightarrow> r(k := r k @ [e]))"

lemma record_macro_recorded:
  "recorded (record_macro i d l s) = note_in (record_key s l i d) (i, d) (recorded s)"
proof (intro ext)
  show "recorded (record_macro i d l s) k = note_in (record_key s l i d) (i, d) (recorded s) k" for k
    by (cases k) (auto simp: record_macro_def record_key_def note_in_def Let_def split: option.split)
qed

definition read_keeps :: "preprocessor \<Rightarrow> preprocessor \<Rightarrow> bool" where
  "read_keeps s s' \<longleftrightarrow> DirectiveKind s' = DirectiveKind s \<and> DirectiveFile s' = DirectiveFile s \<and>
     CachingMode s' = CachingMode s \<and> Includes s' = Includes s \<and> PredefinesFileID s' = PredefinesFileID s"

lemma record_macro_fields:
  "read_keeps s (record_macro i d l s)" "Previous (record_macro i d l s) = Previous s"
  "LatestDirective (record_macro i d l s) = LatestDirective s" "HasMacro (record_macro i d l s) = HasMacro s"
  by (auto simp: record_macro_def read_keeps_def Let_def split: option.split)

lemma macroDefined_ok:
  assumes path: "list_path (Previous s) (Some d) ds None" and l: "CurPPLexer s = Some l"
  shows "\<exists>s'. macroDefined i d s = Some s' \<and> recorded s' = note_in (record_key s l i d) (i, d) (recorded s) \<and>
    read_keeps s s' \<and> Previous s' = Previous s \<and> LatestDirective s' = LatestDirective s \<and> HasMacro s' = HasMacro s"
proof -
  note fields = record_macro_fields[where s = s and i = i and d = d and l = l]
  obtain m where m: "getMacroInfo d (record_macro i d l s) = Some m"
    using getMacroInfo_history[of "record_macro i d l s" d ds] path fields(2) by auto
  show ?thesis
    using m fields record_macro_recorded[of i d l s] l
    by (auto simp: macroDefined_def Let_def read_keeps_def split: option.split)
qed

lemma macros_ok_add:
  assumes ok: "macros_ok s L" and fresh: "d \<notin> snd ` set L" and plain: "\<not> isVisibility s d"
    and s': "read_keeps s s'" "recorded s' = note_in k (i, d) (recorded s)"
      "Previous s' = (Previous s)(d := LatestDirective s i)" "LatestDirective s' = (LatestDirective s)(i \<mapsto> d)"
      "HasMacro s' = (HasMacro s)(i := is_define s d)"
  shows "macros_ok s' ((i, d) # L)"
proof -
  note old = loggedD[OF ok[unfolded macros_ok_def, THEN conjunct1]]
  have kinds: "isVisibility s' = isVisibility s" "is_define s' = is_define s"
    using s'(1) by (simp_all add: read_keeps_def isVisibility_def is_define_def fun_eq_iff)
  have unused: "d \<notin> set (history L j)" for j using fresh by (force simp: set_history)
  have "list_path (Previous s') (LatestDirective s' j) (history ((i, d) # L) j) None" for j
    using old(4)[of j] unused[of j] by (simp add: s'(3,4))
  moreover have "HasMacro s' j = (case history ((i, d) # L) j of [] \<Rightarrow> False | p # _ \<Rightarrow> is_define s p)" for j
    using old(5)[of j] by (simp add: s'(5))
  ultimately have "logged s' ((i, d) # L)"
    using old(1-3) fresh plain s'(1) unfolding logged_def kinds by (auto simp: read_keeps_def)
  moreover have "(i, d) \<notin> set (recorded s k)" for k using ok fresh by (force simp: macros_ok_def)
  then have "(\<forall>k. distinct (recorded s' k) \<and> set (recorded s' k) \<subseteq> set ((i, d) # L)) \<and>
      (\<forall>k k' e. e \<in> set (recorded s' k) \<longrightarrow> e \<in> set (recorded s' k') \<longrightarrow> k = k')"
    using ok unfolding macros_ok_def s'(2) note_in_def by (auto split: option.splits if_splits)
  ultimately show ?thesis by (simp add: macros_ok_def)
qed

lemma appendMacroDirective_ok:
  assumes ok: "macros_ok s L" and fresh: "d \<notin> snd ` set L" and new: "Previous s d = None" "\<not> isVisibility s d"
    and l: "CurPPLexer s = Some l"
  shows "\<exists>s'. appendMacroDirective i d s = Some s' \<and> macros_ok s' ((i, d) # L) \<and> read_keeps s s' \<and>
    recorded s' = note_in (record_key s l i d) (i, d) (recorded s)"
proof -
  note old = loggedD[OF ok[unfolded macros_ok_def, THEN conjunct1]]
  define s2 where "s2 = setHasMacroDefinition i True
    (s\<lparr>Previous := (Previous s)(d := LatestDirective s i), LatestDirective := (LatestDirective s)(i \<mapsto> d)\<rparr>)"
  define s3 where "s3 = (if is_define s d then s2 else setHasMacroDefinition i False s2)"
  have s3: "read_keeps s s3" "recorded s3 = recorded s" "Previous s3 = (Previous s)(d := LatestDirective s i)"
    "LatestDirective s3 = (LatestDirective s)(i \<mapsto> d)" "CurPPLexer s3 = Some l" "PresumedName s3 = PresumedName s"
    using l by (auto simp: s3_def s2_def setHasMacroDefinition_def read_keeps_def)
  have has: "HasMacro s3 = (HasMacro s)(i := is_define s d)" by (auto simp: s3_def s2_def)
  have "d \<notin> set (history L i)" using fresh by (force simp: set_history)
  then have path: "list_path (Previous s3) (Some d) (d # history L i) None" using old(4)[of i] by (simp add: s3(3))
  have same: "Previous s2 = Previous s3" "DirectiveKind s2 = DirectiveKind s"
    by (auto simp: s3_def s2_def setHasMacroDefinition_def)
  then have "isDefined d s2 = Some (is_define s d)"
    using isDefined_history[of s2 d "d # history L i"] path new(2) by (simp add: isVisibility_def is_define_def)
  moreover obtain s' where s': "macroDefined i d s3 = Some s'"
    "recorded s' = note_in (record_key s3 l i d) (i, d) (recorded s3)" "read_keeps s3 s'" "Previous s' = Previous s3"
    "LatestDirective s' = LatestDirective s3" "HasMacro s' = HasMacro s3"
    using macroDefined_ok[OF path s3(5)] by blast
  moreover have "CachingMode s3" using s3(1) old(1) by (simp add: read_keeps_def)
  ultimately have "appendMacroDirective i d s = Some s'"
    using new(1) by (cases "is_define s d") (simp_all add: appendMacroDirective_def Let_def s2_def[symmetric] s3_def)
  moreover have "record_key s3 l i d = record_key s l i d"
    using s3(1,6) by (simp add: record_key_def read_keeps_def)
  then have recorded: "recorded s' = note_in (record_key s l i d) (i, d) (recorded s)" using s'(2) s3(2) by simp
  moreover have keeps: "read_keeps s s'" using s3(1) s'(3) by (simp add: read_keeps_def)
  moreover have "macros_ok s' ((i, d) # L)"
    by (rule macros_ok_add[OF ok fresh new(2) keeps recorded]) (simp_all add: s'(4-6) s3(3,4) has)
  ultimately show ?thesis by blast
qed

subsection \<open>Reading and unloading files\<close>

text \<open>
  A directive of a text: the lexer that is current, the name, the macro or none for \<^verbatim>\<open>#undef\<close>, the
  new directive and the presumed name of its file.
\<close>

type_synonym text_directive = "pp_lexer \<times> ident \<times> macro_id option \<times> directive \<times> string option"

fun read_directive :: "text_directive \<Rightarrow> preprocessor \<Rightarrow> preprocessor option" where
  "read_directive (l, i, m, d, presumed) s =
     (let s1 = s\<lparr>CurPPLexer := Some l\<rparr>
      in case m of
           Some m \<Rightarrow> appendDefMacroDirective i m d (LexFileEntry l) presumed s1
         | None \<Rightarrow> HandleUndefDirective i d (LexFileEntry l) presumed s1)"

fun read_directives :: "text_directive list \<Rightarrow> preprocessor \<Rightarrow> preprocessor option" where
  "read_directives [] s = Some s"
| "read_directives (t # ts) s = (case read_directive t s of None \<Rightarrow> None | Some s1 \<Rightarrow> read_directives ts s1)"

definition text_entry :: "text_directive \<Rightarrow> ident \<times> directive" where
  "text_entry t = (case t of (l, i, m, d, presumed) \<Rightarrow> (i, d))"

text \<open>The records in which a directive of the text is noted.\<close>

definition text_records :: "preprocessor \<Rightarrow> text_directive \<Rightarrow> record_list set" where
  "text_records s t = (case t of (l, i, m, d, presumed) \<Rightarrow>
     if LexFileID l = PredefinesFileID s then (if presumed = Some ''<command line>'' then {CommandLine} else {})
     else (case LexFileEntry l of None \<Rightarrow> {} | Some fe \<Rightarrow> {if sr_startswith i ''__need_'' then Needed else OfFile fe}))"

definition read_ok :: "record_list set \<Rightarrow> preprocessor \<Rightarrow> preprocessor \<Rightarrow> (ident \<times> directive) list \<Rightarrow> (ident \<times> directive) list \<Rightarrow> bool" where
  "read_ok K s s' L N \<longleftrightarrow> macros_ok s' (N @ L) \<and> (\<forall>e \<in> set N. \<exists>k \<in> K. e \<in> set (recorded s' k)) \<and>
     (\<forall>k. k \<notin> K \<longrightarrow> recorded s' k = recorded s k) \<and> (\<forall>k. set (recorded s k) \<subseteq> set (recorded s' k)) \<and> (\<forall>k \<in> K. set (recorded s' k) \<subseteq> set N \<union> set (recorded s k)) \<and>
     CachingMode s' = CachingMode s \<and> Includes s' = Includes s \<and> PredefinesFileID s' = PredefinesFileID s \<and>
     (\<forall>d. d \<notin> snd ` set N \<longrightarrow> DirectiveKind s' d = DirectiveKind s d \<and> DirectiveFile s' d = DirectiveFile s d)"

lemma macros_ok_new_directive:
  assumes "macros_ok s L" "d \<notin> snd ` set L"
  shows "macros_ok (new_directive d k fe presumed s) L"
proof -
  let ?s = "new_directive d k fe presumed s"
  have "recorded ?s = recorded s" by (simp add: new_directive_def)
  moreover have other: "x \<noteq> d" if "(i, x) \<in> set L" for i x using assms(2) that by force
  have "list_path (Previous ?s) (LatestDirective ?s i) (history L i) None =
      list_path (Previous s) (LatestDirective s i) (history L i) None" for i
  proof -
    have "d \<notin> set (history L i)" using other[of i d] by (auto simp: set_history)
    then show ?thesis by (simp add: new_directive_def)
  qed
  moreover have "(case history L i of [] \<Rightarrow> False | x # _ \<Rightarrow> is_define ?s x) = (case history L i of [] \<Rightarrow> False | x # _ \<Rightarrow> is_define s x)" for i
    using other[of i] set_history[of _ L i] by (cases "history L i") (auto simp: new_directive_def is_define_def)
  moreover have "\<not> isVisibility ?s (snd e)" if "e \<in> set L" for e
    using assms(1) that other[of "fst e" "snd e"] by (auto simp: macros_ok_def logged_def new_directive_def isVisibility_def)
  ultimately show ?thesis using assms(1) by (simp add: macros_ok_def logged_def) (simp add: new_directive_def)
qed

lemma append_new_directive:
  assumes "macros_ok s L" "d \<notin> snd ` set L" "\<And>v. k \<noteq> MD_Visibility v" "CurPPLexer s = Some l"
    "text_records s (l, i, m, d, presumed) = {key}"
  shows "\<exists>s'. appendMacroDirective i d (new_directive d k fe presumed s) = Some s' \<and> read_ok {key} s s' L [(i, d)]"
proof -
  let ?s = "new_directive d k fe presumed s"
  have "recorded ?s = recorded s" "record_key ?s l i d = Some key"
    using assms(5) by (auto simp: new_directive_def record_key_def text_records_def split: if_splits option.splits)
  moreover have "Previous ?s d = None" "\<not> isVisibility ?s d" "CurPPLexer ?s = Some l"
    using assms(3,4) by (auto simp: new_directive_def isVisibility_def split: directive_kind.split)
  then obtain s' where "appendMacroDirective i d ?s = Some s'" "macros_ok s' ((i, d) # L)" "read_keeps ?s s'"
    "recorded s' = note_in (record_key ?s l i d) (i, d) (recorded ?s)"
    using appendMacroDirective_ok[OF macros_ok_new_directive[OF assms(1,2)] assms(2)] by blast
  ultimately show ?thesis
    by (intro exI[of _ s']) (auto simp: read_ok_def note_in_def read_keeps_def new_directive_def)
qed

lemma read_directive_ok:
  assumes "macros_ok s L" "snd (text_entry t) \<notin> snd ` set L" "text_records s t = {key}"
  shows "\<exists>s' N. read_directive t s = Some s' \<and> read_ok {key} s s' L N \<and> set N \<subseteq> {text_entry t}"
proof -
  obtain l i m d presumed where t: "t = (l, i, m, d, presumed)" by (cases t)
  let ?s = "s\<lparr>CurPPLexer := Some l\<rparr>"
  have "logged ?s L = logged s L" by (rule logged_cong) simp_all
  then have ok: "macros_ok ?s L" using assms(1) by (simp add: macros_ok_def)
  have d: "d \<notin> snd ` set L" "text_records ?s (l, i, m, d, presumed) = {key}"
    using assms(2,3) by (simp_all add: t text_entry_def text_records_def)
  have same: "read_ok {key} ?s s' L N = read_ok {key} s s' L N" for s' N by (simp add: read_ok_def)
  have unchanged: "read_ok {key} s ?s L []" using ok by (auto simp: read_ok_def)
  have append: "\<exists>s' N. appendMacroDirective i d (new_directive d k (LexFileEntry l) presumed ?s) = Some s' \<and>
      read_ok {key} s s' L N \<and> set N \<subseteq> {(i, d)}" if "\<And>v. k \<noteq> MD_Visibility v" for k
    using append_new_directive[OF ok d(1) that _ d(2), where fe = "LexFileEntry l"] unfolding same
    by (auto intro!: exI[of _ "[(i, d)]"])
  obtain m' where "getMacroDefinition i ?s = Some m'"
    using getMacroDefinition_logged[of ?s L i] ok by (simp add: macros_ok_def)
  then show ?thesis
    using append[of MD_Undefine] append[of "MD_Define (the m)"] unchanged
    by (cases m; cases m') (auto simp: t text_entry_def Let_def appendDefMacroDirective_def HandleUndefDirective_def)
qed

lemma disjoint_extended: "A \<subseteq> {a} \<Longrightarrow> a \<notin> T \<Longrightarrow> T \<inter> S = {} \<Longrightarrow> T \<inter> (A \<union> S) = {}"
  by blast

lemma disjoint_part: "A \<subseteq> T \<Longrightarrow> T \<inter> S = {} \<Longrightarrow> A \<inter> S = {}" "insert a T \<inter> S = {} \<Longrightarrow> T \<inter> S = {}"
  by blast+

lemma read_ok_trans:
  assumes "read_ok K s s1 L N1" "read_ok K' s1 s' (N1 @ L) N" "K \<subseteq> K'"
  shows "read_ok K' s s' L (N @ N1)"
proof -
  note a = assms(1)[unfolded read_ok_def] and b = assms(2)[unfolded read_ok_def]
  have "macros_ok s' ((N @ N1) @ L)" using b by simp
  moreover have "\<exists>k \<in> K'. e \<in> set (recorded s' k)" if e: "e \<in> set (N @ N1)" for e
  proof (cases "e \<in> set N")
    case True
    then show ?thesis using b by blast
  next
    case False
    then obtain k where "k \<in> K" "e \<in> set (recorded s1 k)" using e a by auto
    then show ?thesis using b assms(3) by blast
  qed
  moreover have "recorded s' k = recorded s k" if "k \<notin> K'" for k
  proof -
    have "k \<notin> K" using that assms(3) by blast
    then show ?thesis using that a b by simp
  qed
  moreover have "set (recorded s k) \<subseteq> set (recorded s' k)" for k using a b by blast
  moreover have "set (recorded s' k) \<subseteq> set (N @ N1) \<union> set (recorded s k)" if "k \<in> K'" for k
  proof (cases "k \<in> K")
    case True
    then show ?thesis using that a b by fastforce
  next
    case False
    then have "recorded s1 k = recorded s k" using a by blast
    then show ?thesis using that b by fastforce
  qed
  moreover have "DirectiveKind s' d = DirectiveKind s d \<and> DirectiveFile s' d = DirectiveFile s d"
    if "d \<notin> snd ` set (N @ N1)" for d using that a b by (auto simp: image_Un)
  moreover have "CachingMode s' = CachingMode s" "Includes s' = Includes s" "PredefinesFileID s' = PredefinesFileID s"
    using a b by simp_all
  ultimately show ?thesis unfolding read_ok_def by blast
qed

lemma read_directives_ok:
  assumes "macros_ok s L" "distinct (map (snd \<circ> text_entry) ts)" "(snd \<circ> text_entry) ` set ts \<inter> snd ` set L = {}"
    "\<And>t. t \<in> set ts \<Longrightarrow> \<exists>k \<in> K. text_records s t = {k}"
  shows "\<exists>s' N. read_directives ts s = Some s' \<and> read_ok K s s' L N \<and> set N \<subseteq> text_entry ` set ts"
  using assms
proof (induction ts arbitrary: s L)
  case Nil
  then show ?case by (auto simp: read_ok_def intro: exI[of _ "[]"])
next
  case (Cons t ts)
  obtain k where k: "k \<in> K" "text_records s t = {k}" using Cons.prems(4)[of t] by auto
  obtain s1 N1 where s1: "read_directive t s = Some s1" "read_ok {k} s s1 L N1" "set N1 \<subseteq> {text_entry t}"
    using read_directive_ok[OF Cons.prems(1) _ k(2)] Cons.prems(3) by auto
  have ok: "macros_ok s1 (N1 @ L)" and "PredefinesFileID s1 = PredefinesFileID s" using s1(2) by (simp_all add: read_ok_def)
  then have "text_records s1 = text_records s" by (simp add: text_records_def fun_eq_iff)
  then have records: "\<exists>k \<in> K. text_records s1 t' = {k}" if "t' \<in> set ts" for t' using Cons.prems(4)[of t'] that by simp
  have distinct: "distinct (map (snd \<circ> text_entry) ts)" using Cons.prems(2) by (simp only: list.map distinct.simps)
  have "(snd \<circ> text_entry) ` set ts \<inter> snd ` set (N1 @ L) = {}"
    unfolding set_append image_Un
  proof (rule disjoint_extended)
    show "snd ` set N1 \<subseteq> {snd (text_entry t)}" using s1(3) by auto
    show "snd (text_entry t) \<notin> (snd \<circ> text_entry) ` set ts" using Cons.prems(2) by simp
    show "(snd \<circ> text_entry) ` set ts \<inter> snd ` set L = {}"
      by (rule disjoint_part(2)[OF Cons.prems(3)[unfolded list.set image_insert]])
  qed
  from Cons.IH[OF ok distinct this records]
  obtain s' N where s': "read_directives ts s1 = Some s'" "read_ok K s1 s' (N1 @ L) N" "set N \<subseteq> text_entry ` set ts"
    by blast
  have "read_ok K s s' L (N @ N1)"
    by (rule read_ok_trans[OF s1(2) s'(2)]) (use k(1) in simp)
  moreover have "set (N @ N1) \<subseteq> text_entry ` set (t # ts)" using s1(3) s'(3) by (simp only: set_append list.set image_insert) blast
  moreover have "read_directives (t # ts) s = Some s'" using s1(1) s'(1) by simp
  ultimately show ?case by blast
qed

lemma list_path_first: "list_path nx p ds None \<Longrightarrow> p = (case ds of [] \<Rightarrow> None | d # _ \<Rightarrow> Some d)"
  by (cases ds) auto

text \<open>Two states with the same log and the same directives in it give every name the same meaning.\<close>

lemma logged_same:
  assumes "logged s L" "logged s' L" "\<And>d. d \<in> snd ` set L \<Longrightarrow> DirectiveKind s' d = DirectiveKind s d \<and> DirectiveFile s' d = DirectiveFile s d"
    "CachingMode s' = CachingMode s" "Includes s' = Includes s"
  shows "LatestDirective s' i = LatestDirective s i" "HasMacro s' i = HasMacro s i"
    "getMacroDefinition i s' = getMacroDefinition i s"
proof -
  have kinds: "DirectiveKind s' d = DirectiveKind s d" "DirectiveFile s' d = DirectiveFile s d" if "d \<in> set (history L i)" for d
    using that assms(3)[of d] by (force simp: set_history)+
  show "LatestDirective s' i = LatestDirective s i"
    using loggedD(4)[OF assms(1), of i] loggedD(4)[OF assms(2), of i] by (metis list_path_first)
  show has: "HasMacro s' i = HasMacro s i"
    using loggedD(5)[OF assms(1), of i] loggedD(5)[OF assms(2), of i] kinds
    by (cases "history L i") (simp_all add: is_define_def)
  have "wasIncluded s' d = wasIncluded s d" if "d \<in> set (history L i)" for d
    using kinds[OF that] assms(4,5) by (simp add: wasIncluded_def split: option.split)
  then have "List.find (wasIncluded s') (history L i) = List.find (wasIncluded s) (history L i)"
    by (intro find_cong) simp_all
  moreover have "d \<in> set (history L i)" if "List.find (wasIncluded s) (history L i) = Some d" for d
    using that by (auto simp: find_Some_iff)
  ultimately have "macro_in_force s' (history L i) = macro_in_force s (history L i)"
    using kinds(1) by (simp add: macro_in_force_def split: option.split)
  then show "getMacroDefinition i s' = getMacroDefinition i s"
    using getMacroDefinition_logged[OF assms(1)] getMacroDefinition_logged[OF assms(2)] has by simp
qed

text \<open>
  C6 (roundtrip): Whatever directives are read, in whichever files and with whichever nesting, as
  long as each is noted in a record: unloading these files succeeds and takes all of it back. Every
  name has the history, the flag and the definition it had before, and so have the records.
\<close>

theorem unloaded_files_leave_no_macros:
  assumes "macros_ok s L" "\<forall>k \<in> erased_records fes. recorded s k = []"
    "distinct (map (snd \<circ> text_entry) ts)" "(snd \<circ> text_entry) ` set ts \<inter> snd ` set L = {}"
    "\<forall>t \<in> set ts. \<exists>k \<in> erased_records fes. text_records s t = {k}"
  shows "\<exists>s1 s2. read_directives ts s = Some s1 \<and> eraseMacros fes s1 = Some s2 \<and> macros_ok s2 L \<and>
    recorded s2 = recorded s \<and>
    (\<forall>i. LatestDirective s2 i = LatestDirective s i \<and> HasMacro s2 i = HasMacro s i \<and>
         getMacroDefinition i s2 = getMacroDefinition i s)"
proof -
  let ?K = "erased_records fes"
  obtain s1 N where s1: "read_directives ts s = Some s1" "read_ok ?K s s1 L N" "set N \<subseteq> text_entry ` set ts"
    using read_directives_ok[OF assms(1,3,4)] assms(5) by blast
  have ok: "macros_ok s1 (N @ L)" using s1(2) by (simp add: read_ok_def)
  obtain s2 where s2: "eraseMacros fes s1 = Some s2" "macros_ok s2 (log_without s1 fes (N @ L))"
    "recorded s2 = (\<lambda>k. if k \<in> ?K then [] else recorded s1 k)"
    "erase_keeps s1 (s2\<lparr>CommandLineMainIdentifiers := CommandLineMainIdentifiers s1\<rparr>)"
    using eraseMacros_ok[OF ok] by blast
  have "snd ` set N \<subseteq> (snd \<circ> text_entry) ` set ts" using image_mono[OF s1(3), of snd] unfolding image_comp .
  then have new: "snd ` set N \<inter> snd ` set L = {}" by (rule disjoint_part(1)[OF _ assms(4)])
  have "log_without s1 fes (N @ L) = L"
  proof -
    have "filter (\<lambda>e. \<forall>k \<in> ?K. e \<notin> set (recorded s1 k)) N = []"
      using s1(2) by (auto simp: filter_empty_conv read_ok_def)
    moreover have "e \<notin> set (recorded s1 k)" if "e \<in> set L" "k \<in> ?K" for e k
      using s1(2) that new assms(2) unfolding read_ok_def by fastforce
    ultimately show ?thesis by (auto simp: log_without_def filter_id_conv)
  qed
  then have ok2: "macros_ok s2 L" using s2(2) by simp
  have records: "recorded s2 = recorded s"
    using s1(2) assms(2) by (auto simp: s2(3) read_ok_def fun_eq_iff)
  have kinds: "DirectiveKind s2 d = DirectiveKind s d \<and> DirectiveFile s2 d = DirectiveFile s d" if "d \<in> snd ` set L" for d
  proof -
    have "d \<notin> snd ` set N" using that new by blast
    then show ?thesis using s1(2) s2(4) by (simp add: read_ok_def erase_keeps_def)
  qed
  have rest: "CachingMode s2 = CachingMode s" "Includes s2 = Includes s"
    using s1(2) s2(4) by (simp_all add: read_ok_def erase_keeps_def)
  have logs: "logged s L" "logged s2 L" using assms(1) ok2 by (simp_all add: macros_ok_def)
  show ?thesis
    using s1(1) s2(1) ok2 records logged_same[OF logs kinds rest] by (intro exI[of _ s1] exI[of _ s2]) simp
qed

end
