(* ===== verification/Traversal.thy ===== *)
theory Traversal
  imports Prelude
begin

text \<open>
  A depth-first walk that marks the nodes it enters, as the contract of the recursive functions of
  the code: entering a node marks it and changes no edge. The walk enters each node it reaches once,
  so its result is the entering of a list of nodes, one after the other.
\<close>

locale graph_walk =
  fixes marked :: "'s \<Rightarrow> 'n set"
    and enter :: "'n \<Rightarrow> 's \<Rightarrow> 's"
    and succs :: "'s \<Rightarrow> 'n \<Rightarrow> 'n list"
    and visit :: "nat \<Rightarrow> 'n \<Rightarrow> 's \<Rightarrow> 's option"
    and visit_all :: "nat \<Rightarrow> 'n list \<Rightarrow> 's \<Rightarrow> 's option"
  assumes marked_enter: "marked (enter n s) = insert n (marked s)"
    and succs_enter: "succs (enter n s) = succs s"
    and visit_Suc: "visit (Suc fuel) n s =
      (if n \<in> marked s then Some s else visit_all fuel (succs (enter n s) n) (enter n s))"
    and visit_all_Nil: "visit_all fuel [] s = Some s"
    and visit_all_Cons: "visit_all fuel (n # ns) s =
      (case visit fuel n s of None \<Rightarrow> None | Some s1 \<Rightarrow> visit_all fuel ns s1)"
begin

definition edges :: "'s \<Rightarrow> ('n \<times> 'n) set" where
  "edges s = {(n, m). m \<in> set (succs s n)}"

text \<open>The nodes \<open>N\<close> are the ones that a walk from \<open>ns\<close> enters.\<close>

definition walked :: "'s \<Rightarrow> 'n list \<Rightarrow> 'n list \<Rightarrow> bool" where
  "walked s ns N \<longleftrightarrow> distinct N \<and> set N \<inter> marked s = {} \<and> set ns \<subseteq> marked s \<union> set N \<and>
     (\<forall>v \<in> set N. edges s `` {v} \<subseteq> marked s \<union> set N \<and> (\<exists>n \<in> set ns. (n, v) \<in> (edges s)\<^sup>*))"

lemma entered: "marked (fold enter N s) = marked s \<union> set N" "succs (fold enter N s) = succs s"
  "edges (fold enter N s) = edges s"
proof -
  show "succs (fold enter N s) = succs s" by (induction N arbitrary: s) (simp_all add: succs_enter)
  then show "edges (fold enter N s) = edges s" by (simp add: edges_def)
  show "marked (fold enter N s) = marked s \<union> set N" by (induction N arbitrary: s) (auto simp: marked_enter)
qed

lemma walked_append:
  assumes a: "walked s [n] N" and b: "walked (fold enter N s) ns M"
  shows "walked s (n # ns) (N @ M)"
proof -
  note A = a[unfolded walked_def] and B = b[unfolded walked_def entered]
  have "edges s `` {v} \<subseteq> marked s \<union> set (N @ M) \<and> (\<exists>m \<in> set (n # ns). (m, v) \<in> (edges s)\<^sup>*)"
    if "v \<in> set (N @ M)" for v
  proof (cases "v \<in> set N")
    case True
    then show ?thesis using A by auto
  next
    case False
    then have "v \<in> set M" using that by simp
    then show ?thesis using B by auto
  qed
  then show ?thesis unfolding walked_def using A B by auto
qed

lemma walked_enter:
  assumes new: "n \<notin> marked s" and w: "walked (enter n s) (succs s n) M"
  shows "walked s [n] (n # M)"
proof -
  have same: "edges (enter n s) = edges s" by (simp add: edges_def succs_enter)
  note W = w[unfolded walked_def same marked_enter]
  have "edges s `` {v} \<subseteq> marked s \<union> set (n # M) \<and> (n, v) \<in> (edges s)\<^sup>*" if "v \<in> set (n # M)" for v
  proof (cases "v = n")
    case True
    then show ?thesis using W by (auto simp: edges_def)
  next
    case False
    then obtain m where "m \<in> set (succs s n)" "(m, v) \<in> (edges s)\<^sup>*" using W \<open>v \<in> set (n # M)\<close> by auto
    then have "(n, v) \<in> (edges s)\<^sup>*" by (intro converse_rtrancl_into_rtrancl[of n m]) (simp_all add: edges_def)
    then show ?thesis using W False \<open>v \<in> set (n # M)\<close> by auto
  qed
  then show ?thesis unfolding walked_def using W new by auto
qed

lemma visit_total:
  assumes "finite F" "\<And>n. n \<in> F \<Longrightarrow> set (succs s n) \<subseteq> F" "card (F - marked s) < fuel"
  shows "n \<in> F \<Longrightarrow> \<exists>N. visit fuel n s = Some (fold enter N s) \<and> walked s [n] N"
    and "set ns \<subseteq> F \<Longrightarrow> \<exists>N. visit_all fuel ns s = Some (fold enter N s) \<and> walked s ns N"
  using assms(2,3)
proof (induction fuel arbitrary: n ns s)
  case 0
  {
    case 1
    then show ?case by simp
  next
    case 2
    then show ?case by simp
  }
next
  case (Suc fuel)
  have one: "\<exists>N. visit (Suc fuel) n s = Some (fold enter N s) \<and> walked s [n] N"
    if n: "n \<in> F" and F: "\<And>n. n \<in> F \<Longrightarrow> set (succs s n) \<subseteq> F" "card (F - marked s) < Suc fuel" for n s
  proof (cases "n \<in> marked s")
    case True
    then have "visit (Suc fuel) n s = Some (fold enter [] s)" by (simp add: visit_Suc)
    moreover have "walked s [n] []" using True by (simp add: walked_def)
    ultimately show ?thesis by blast
  next
    case new: False
    have "F - marked s = insert n (F - marked (enter n s))" using n new by (auto simp: marked_enter)
    moreover have "n \<notin> F - marked (enter n s)" by (simp add: marked_enter)
    ultimately have "card (F - marked (enter n s)) < fuel" using F(2) assms(1) by simp
    then obtain M where "visit_all fuel (succs s n) (enter n s) = Some (fold enter M (enter n s))"
      "walked (enter n s) (succs s n) M"
      using Suc.IH(2)[of "succs s n" "enter n s"] F(1) n assms(1) by (auto simp: succs_enter)
    then have "visit (Suc fuel) n s = Some (fold enter (n # M) s)" "walked s [n] (n # M)"
      using new walked_enter[OF new] by (simp_all add: visit_Suc succs_enter)
    then show ?thesis by blast
  qed
  have all: "\<exists>N. visit_all (Suc fuel) ns s = Some (fold enter N s) \<and> walked s ns N"
    if "set ns \<subseteq> F" "\<And>n. n \<in> F \<Longrightarrow> set (succs s n) \<subseteq> F" "card (F - marked s) < Suc fuel" for ns s
    using that
  proof (induction ns arbitrary: s)
    case Nil
    have "visit_all (Suc fuel) [] s = Some (fold enter [] s)" "walked s [] []"
      by (simp_all add: visit_all_Nil walked_def)
    then show ?case by blast
  next
    case (Cons n ns)
    obtain N where N: "visit (Suc fuel) n s = Some (fold enter N s)" "walked s [n] N"
      using one[of n s] Cons.prems by auto
    have "card (F - marked (fold enter N s)) \<le> card (F - marked s)"
      using assms(1) by (intro card_mono) (auto simp: entered)
    then obtain M where "visit_all (Suc fuel) ns (fold enter N s) = Some (fold enter M (fold enter N s))"
      "walked (fold enter N s) ns M"
      using Cons.IH[of "fold enter N s"] Cons.prems by (auto simp: entered)
    then have "visit_all (Suc fuel) (n # ns) s = Some (fold enter (N @ M) s)" "walked s (n # ns) (N @ M)"
      using N walked_append[OF N(2)] by (simp_all add: visit_all_Cons)
    then show ?case by blast
  qed
  {
    case 1
    then show ?case using one by blast
  next
    case 2
    then show ?case using all by blast
  }
qed

text \<open>
  Where the edges of the marked nodes lead to marked nodes or to the ones the walk starts from, the
  walk marks what can be reached.
\<close>

lemma walked_reachable:
  assumes "walked s ns N" "edges s `` marked s \<subseteq> marked s \<union> set ns"
  shows "marked s \<union> set N = marked s \<union> (edges s)\<^sup>* `` set ns" "edges s `` (marked s \<union> set N) \<subseteq> marked s \<union> set N"
proof -
  note W = assms(1)[unfolded walked_def]
  show closed: "edges s `` (marked s \<union> set N) \<subseteq> marked s \<union> set N" using W assms(2) by blast
  have "v \<in> marked s \<union> set N" if "(n, v) \<in> (edges s)\<^sup>*" "n \<in> marked s \<union> set N" for n v
    using that by induction (use closed in auto)
  then show "marked s \<union> set N = marked s \<union> (edges s)\<^sup>* `` set ns" using W by blast
qed

end

end
