(* ===== verification/IncludeCache.thy ===== *)
theory IncludeCache
  imports MacroUnload Traversal
begin

text \<open>
  Which files belong to a compilation, also when they are not read again: the graph of inclusions
  that \<^verbatim>\<open>CachingIncludeManager\<close> of \<^verbatim>\<open>clang/lib/Lex/Preprocessor.cpp\<close> keeps, its traversal, and the
  check that a cached file was read under the same values of the watched macros.
\<close>

subsection \<open>The check of the watched macros\<close>

text \<open>The first difference is reported; looking up a name that is not watched enters an empty value.\<close>

fun check_values :: "file \<Rightarrow> (ident \<times> string) list \<Rightarrow> preprocessor \<Rightarrow> preprocessor" where
  "check_values fe [] s = s"
| "check_values fe ((i, old) # vs) s =
     (let current = (case CommandLineMainIdentifiers s i of None \<Rightarrow> [] | Some v \<Rightarrow> v);
          s1 = s\<lparr>CommandLineMainIdentifiers := (CommandLineMainIdentifiers s)(i \<mapsto> current)\<rparr>
      in if old \<noteq> current then s1\<lparr>ChangedMacros := ChangedMacros s1 @ [(fe, i, old, current)]\<rparr>
         else check_values fe vs s1)"

definition macroCheckChanged :: "file \<Rightarrow> preprocessor \<Rightarrow> preprocessor" where
  "macroCheckChanged fe s =
     (case FilesIdentifiersValues s fe of None \<Rightarrow> s | Some vs \<Rightarrow> check_values fe vs s)"

subsection \<open>Including a file\<close>

text \<open>The callbacks are told that the file is entered and left, at the location where it starts.\<close>

definition doCallbacks :: "file \<Rightarrow> preprocessor \<Rightarrow> preprocessor" where
  "doCallbacks fe s =
     (case LocForStartOfFile s fe of None \<Rightarrow> s | Some l \<Rightarrow> s\<lparr>EnteredFiles := EnteredFiles s @ [l]\<rparr>)"

text \<open>
  \<open>IncludedCallBack\<close> is recorded as a call. The recursion over the files included by a file needs
  \<open>fuel\<close>; more than there are files is enough.
\<close>

definition enter_include :: "file \<Rightarrow> preprocessor \<Rightarrow> preprocessor" where
  "enter_include fe s =
     (let s1 = s\<lparr>Includes := Includes s @ [fe]\<rparr>;
          s2 = (if InsertedVisibleFEs s1
                then macroCheckChanged fe (if HasCallbacks s1 then doCallbacks fe s1 else s1) else s1)
      in s2\<lparr>IncludedCalls := IncludedCalls s2 @ [fe]\<rparr>)"

definition included_by :: "preprocessor \<Rightarrow> file \<Rightarrow> file list" where
  "included_by s fe = (case IncludeesMap s fe of None \<Rightarrow> [] | Some fes \<Rightarrow> fes)"

fun include_file :: "nat \<Rightarrow> file \<Rightarrow> preprocessor \<Rightarrow> preprocessor option"
and include_files :: "nat \<Rightarrow> file list \<Rightarrow> preprocessor \<Rightarrow> preprocessor option"
where
  "include_file 0 fe s = None"
| "include_file (Suc fuel) fe s =
     (if fe \<in> set (Includes s) then Some s
      else (let s1 = enter_include fe s in include_files fuel (included_by s1 fe) s1))"
| "include_files fuel [] s = Some s"
| "include_files fuel (fe # fes) s =
     (case include_file fuel fe s of None \<Rightarrow> None | Some s1 \<Rightarrow> include_files fuel fes s1)"

definition include_edge :: "nat \<Rightarrow> file \<Rightarrow> file \<Rightarrow> preprocessor \<Rightarrow> preprocessor option" where
  "include_edge fuel includee includer s =
     (case (if InsertedVisibleFEs s then Some s
            else map_option (\<lambda>s1. s1\<lparr>InsertedVisibleFEs := True\<rparr>) (include_files fuel (VisibleFEs s) s)) of
        None \<Rightarrow> None
      | Some s1 \<Rightarrow> Some (s1\<lparr>IncludeesMap := (IncludeesMap s1)(includer \<mapsto> included_by s1 includer @ [includee])\<rparr>))"

definition erase_includes :: "file \<Rightarrow> preprocessor \<Rightarrow> preprocessor" where
  "erase_includes fe s =
     s\<lparr>IncludeesMap := (IncludeesMap s)(fe := None), LocForStartOfFile := (LocForStartOfFile s)(fe := None)\<rparr>"

text \<open>An \<^verbatim>\<open>#include\<close> of a file, whether or not it is entered.\<close>

definition caching_include :: "nat \<Rightarrow> file \<Rightarrow> file option \<Rightarrow> preprocessor \<Rightarrow> preprocessor option" where
  "caching_include fuel includee includer s =
     (case (case includer of None \<Rightarrow> Some s | Some fe \<Rightarrow> include_edge fuel includee fe s) of
        None \<Rightarrow> None
      | Some s1 \<Rightarrow> include_file fuel includee s1)"

text \<open>The part of \<open>reset\<close> that is about inclusions and lexers.\<close>

definition reset_includes :: "preprocessor \<Rightarrow> preprocessor" where
  "reset_includes s =
     s\<lparr>CurPPLexer := None, IncludeMacroStack := [], HasCallbacks := False, Includes := [], InsertedVisibleFEs := False\<rparr>"

text \<open>
  \<^verbatim>\<open>#ifdef\<close> and \<^verbatim>\<open>#ifndef\<close>: whether the text that follows is read. A header guard that is tested
  outside its file makes the current file include the guarded one. \<open>depth\<close> is the number of open
  conditionals; where there is none, the bookkeeping for header guards of clang is left out.
\<close>

definition guarded_include :: "nat \<Rightarrow> bool \<Rightarrow> nat \<Rightarrow> ident \<Rightarrow> macro_id option \<Rightarrow> preprocessor \<Rightarrow> preprocessor option" where
  "guarded_include fuel isIfndef depth i m s =
     (case m of
        None \<Rightarrow> Some s
      | Some m \<Rightarrow>
          if depth \<noteq> 0 \<and> CachingMode s \<and> isIfndef \<and> UsedForHeaderGuard (MacroInfos s m) then
            (case IncludeGuards s i of
               None \<Rightarrow> None
             | Some includee \<Rightarrow>
                 (case Option.bind (CurPPLexer s) LexFileEntry of
                    None \<Rightarrow> None
                  | Some fe \<Rightarrow> include_edge fuel includee fe s))
          else Some s)"

definition HandleIfdefDirective ::
  "nat \<Rightarrow> bool \<Rightarrow> nat \<Rightarrow> bool \<Rightarrow> ident \<Rightarrow> preprocessor \<Rightarrow> (bool \<times> preprocessor) option"
where
  "HandleIfdefDirective fuel isIfndef depth SingleFileParseMode i s =
     (case getMacroDefinition i s of
        None \<Rightarrow> None
      | Some m \<Rightarrow>
          (case guarded_include fuel isIfndef depth i m s of
             None \<Rightarrow> None
           | Some s1 \<Rightarrow>
               Some ((SingleFileParseMode \<and> m = None) \<or> (m = None) = isIfndef, macroIdentifierUsed i s1)))"

subsection \<open>What a walk over the inclusions does\<close>

definition watched_value :: "preprocessor \<Rightarrow> ident \<Rightarrow> string" where
  "watched_value s i = (case CommandLineMainIdentifiers s i of None \<Rightarrow> [] | Some v \<Rightarrow> v)"

text \<open>The difference that is reported for a file, if there is one.\<close>

definition change_report :: "preprocessor \<Rightarrow> file \<Rightarrow> (file \<times> ident \<times> string \<times> string) list" where
  "change_report s fe =
     (case FilesIdentifiersValues s fe of
        None \<Rightarrow> []
      | Some vs \<Rightarrow>
          (case List.find (\<lambda>(i, old). old \<noteq> watched_value s i) vs of
             None \<Rightarrow> []
           | Some (i, old) \<Rightarrow> [(fe, i, old, watched_value s i)]))"

text \<open>What entering files does not change.\<close>

definition walk_keeps :: "preprocessor \<Rightarrow> preprocessor \<Rightarrow> bool" where
  "walk_keeps s s' \<longleftrightarrow> IncludeesMap s' = IncludeesMap s \<and> FilesIdentifiersValues s' = FilesIdentifiersValues s \<and>
     watched_value s' = watched_value s \<and> InsertedVisibleFEs s' = InsertedVisibleFEs s \<and> VisibleFEs s' = VisibleFEs s \<and>
     LocForStartOfFile s' = LocForStartOfFile s \<and> HasCallbacks s' = HasCallbacks s"

lemma walk_keeps_refl [simp]: "walk_keeps s s"
  by (simp add: walk_keeps_def)

lemma walk_keeps_trans: "walk_keeps s s1 \<Longrightarrow> walk_keeps s1 s2 \<Longrightarrow> walk_keeps s s2"
  by (simp add: walk_keeps_def)

lemma change_report_cong: "walk_keeps s s' \<Longrightarrow> change_report s' = change_report s"
proof (rule ext)
  assume "walk_keeps s s'"
  then have eqs: "watched_value s' = watched_value s" "FilesIdentifiersValues s' = FilesIdentifiersValues s"
    by (simp_all add: walk_keeps_def)
  show "change_report s' fe = change_report s fe" for fe unfolding change_report_def eqs ..
qed

lemma check_values_result:
  "walk_keeps s (check_values fe vs s) \<and> Includes (check_values fe vs s) = Includes s \<and>
   IncludedCalls (check_values fe vs s) = IncludedCalls s \<and> EnteredFiles (check_values fe vs s) = EnteredFiles s \<and>
   ChangedMacros (check_values fe vs s) = ChangedMacros s @
     (case List.find (\<lambda>(i, old). old \<noteq> watched_value s i) vs of None \<Rightarrow> [] | Some (i, old) \<Rightarrow> [(fe, i, old, watched_value s i)])"
proof (induction vs arbitrary: s)
  case Nil
  then show ?case by simp
next
  case (Cons e vs)
  obtain i old where e: "e = (i, old)" by (cases e)
  let ?s1 = "s\<lparr>CommandLineMainIdentifiers := (CommandLineMainIdentifiers s)(i \<mapsto> watched_value s i)\<rparr>"
  have same: "watched_value ?s1 = watched_value s" by (auto simp: watched_value_def fun_eq_iff)
  then have keeps: "walk_keeps s ?s1" by (simp add: walk_keeps_def)
  show ?case
  proof (cases "old = watched_value s i")
    case True
    then have eq: "check_values fe (e # vs) s = check_values fe vs ?s1"
      by (simp add: e Let_def watched_value_def)
    have "walk_keeps s (check_values fe vs ?s1)" using Cons.IH[of ?s1] by (intro walk_keeps_trans[OF keeps]) blast
    then show ?thesis using Cons.IH[of ?s1] True unfolding eq same by (simp add: e)
  next
    case False
    then have eq: "check_values fe (e # vs) s = ?s1\<lparr>ChangedMacros := ChangedMacros ?s1 @ [(fe, i, old, watched_value s i)]\<rparr>"
      by (simp add: e Let_def watched_value_def)
    have "walk_keeps ?s1 (?s1\<lparr>ChangedMacros := c\<rparr>)" for c by (simp add: walk_keeps_def watched_value_def[abs_def])
    then show ?thesis unfolding eq using False walk_keeps_trans[OF keeps] by (simp add: e)
  qed
qed

lemma enter_include_result:
  "walk_keeps s (enter_include fe s)" "Includes (enter_include fe s) = Includes s @ [fe]"
  "IncludedCalls (enter_include fe s) = IncludedCalls s @ [fe]"
  "ChangedMacros (enter_include fe s) = ChangedMacros s @ (if InsertedVisibleFEs s then change_report s fe else [])"
proof -
  define s1 where "s1 = (let s1 = s\<lparr>Includes := Includes s @ [fe]\<rparr> in if HasCallbacks s1 then doCallbacks fe s1 else s1)"
  have s1: "walk_keeps s s1" and s1_fields: "Includes s1 = Includes s @ [fe]" "IncludedCalls s1 = IncludedCalls s"
    "ChangedMacros s1 = ChangedMacros s"
    by (auto simp: s1_def doCallbacks_def walk_keeps_def watched_value_def[abs_def] Let_def split: option.split)
  have checked: "walk_keeps s (macroCheckChanged fe s1)" "Includes (macroCheckChanged fe s1) = Includes s @ [fe]"
    "IncludedCalls (macroCheckChanged fe s1) = IncludedCalls s"
    "ChangedMacros (macroCheckChanged fe s1) = ChangedMacros s @ change_report s fe"
    using s1_fields check_values_result[of s1 fe] walk_keeps_trans[OF s1, of "check_values fe _ s1"] s1
    unfolding change_report_cong[OF s1, symmetric] macroCheckChanged_def change_report_def
    by (cases "FilesIdentifiersValues s1 fe"; simp)+
  show "walk_keeps s (enter_include fe s)" "Includes (enter_include fe s) = Includes s @ [fe]"
    "IncludedCalls (enter_include fe s) = IncludedCalls s @ [fe]"
    "ChangedMacros (enter_include fe s) = ChangedMacros s @ (if InsertedVisibleFEs s then change_report s fe else [])"
    using checked by (auto simp: enter_include_def Let_def s1_def walk_keeps_def watched_value_def[abs_def])
qed

interpretation include_walk: graph_walk "\<lambda>s. set (Includes s)" enter_include included_by include_file include_files
proof
  show "included_by (enter_include n s) = included_by s" for n s
    using enter_include_result(1)[of s n] by (simp add: included_by_def walk_keeps_def fun_eq_iff)
qed (auto simp: enter_include_result(2) Let_def split: option.split)

lemma entered_includes:
  "walk_keeps s (fold enter_include N s)" "Includes (fold enter_include N s) = Includes s @ N"
  "IncludedCalls (fold enter_include N s) = IncludedCalls s @ N"
  "ChangedMacros (fold enter_include N s) =
    ChangedMacros s @ (if InsertedVisibleFEs s then concat (map (change_report s) N) else [])"
proof (induction N arbitrary: s)
  case (Cons fe N)
  {
    case 1
    then show ?case using walk_keeps_trans[OF enter_include_result(1) Cons.IH(1)] by simp
  next
    case 2
    then show ?case using Cons.IH(2) enter_include_result(2) by simp
  next
    case 3
    then show ?case using Cons.IH(3) enter_include_result(3) by simp
  next
    case 4
    note one = enter_include_result[where s = s and fe = fe]
    have "InsertedVisibleFEs (enter_include fe s) = InsertedVisibleFEs s" using one(1) by (simp add: walk_keeps_def)
    then show ?case using Cons.IH(4)[of "enter_include fe s"] one(4) change_report_cong[OF one(1)] by simp
  }
qed simp_all

text \<open>
  The files of a compilation are complete when they contain what their files include. The edges
  stay within the known files, so more fuel than known files is enough.
\<close>

definition include_edges :: "preprocessor \<Rightarrow> (file \<times> file) set" where
  "include_edges s = {(f, g). g \<in> set (included_by s f)}"

definition includes_complete :: "file list \<Rightarrow> preprocessor \<Rightarrow> bool" where
  "includes_complete known s \<longleftrightarrow> distinct (Includes s) \<and> include_edges s `` set (Includes s) \<subseteq> set (Includes s) \<and>
     (\<forall>f \<in> set known. set (included_by s f) \<subseteq> set known)"

lemma include_walk_edges: "include_walk.edges = include_edges"
  by (simp add: fun_eq_iff include_walk.edges_def include_edges_def)

text \<open>Walking from the files \<open>fs\<close>, when the files so far are complete but for edges to \<open>fs\<close>.\<close>

lemma include_files_complete:
  assumes "distinct (Includes s)" "include_edges s `` set (Includes s) \<subseteq> set (Includes s) \<union> set fs"
    "\<forall>f \<in> set known. set (included_by s f) \<subseteq> set known" "set fs \<subseteq> set known" "length known < fuel"
  shows "\<exists>N. include_files fuel fs s = Some (fold enter_include N s) \<and>
    includes_complete known (fold enter_include N s) \<and>
    set (Includes s @ N) = set (Includes s) \<union> (include_edges s)\<^sup>* `` set fs"
proof -
  have "card (set known - set (Includes s)) < fuel"
    using card_mono[of "set known" "set known - set (Includes s)"] card_length[of known] assms(5) by auto
  then obtain N where N: "include_files fuel fs s = Some (fold enter_include N s)" "include_walk.walked s fs N"
    using include_walk.visit_total(2)[of "set known" s fuel fs] assms(3,4) by auto
  have same: "included_by (fold enter_include N s) = included_by s"
    using entered_includes(1)[of s N] by (simp add: walk_keeps_def included_by_def fun_eq_iff)
  then have edges: "include_edges (fold enter_include N s) = include_edges s" by (simp add: include_edges_def)
  have "distinct (Includes s @ N)" using assms(1) N(2) by (auto simp: include_walk.walked_def)
  then have "includes_complete known (fold enter_include N s)"
    using include_walk.walked_reachable(2)[OF N(2)] assms(2,3)
    unfolding includes_complete_def entered_includes(2) edges same include_walk_edges set_append by simp
  then show ?thesis
    using N(1) include_walk.walked_reachable(1)[OF N(2)] assms(2) unfolding include_walk_edges by auto
qed

lemma include_file_single: "include_file fuel fe s = include_files fuel [fe] s"
  by (simp split: option.split)

lemma include_edge_complete:
  assumes "includes_complete known s" "includer \<in> set (Includes s)" "includee \<in> set known"
    "set (VisibleFEs s) \<subseteq> set known" "length known < fuel"
  shows "\<exists>s1 V. include_edge fuel includee includer s = Some s1 \<and> InsertedVisibleFEs s1 \<and>
    Includes s1 = Includes s @ V \<and> IncludedCalls s1 = IncludedCalls s @ V \<and> distinct (Includes s1) \<and>
    include_edges s1 = insert (includer, includee) (include_edges s) \<and>
    include_edges s1 `` set (Includes s1) \<subseteq> set (Includes s1) \<union> {includee} \<and>
    (\<forall>f \<in> set known. set (included_by s1 f) \<subseteq> set known) \<and>
    set (Includes s1) = set (Includes s) \<union>
      (include_edges s)\<^sup>* `` (if InsertedVisibleFEs s then {} else set (VisibleFEs s))"
proof -
  define V0 where "V0 = (if InsertedVisibleFEs s then [] else VisibleFEs s)"
  have "set V0 \<subseteq> set known" using assms(4) by (simp add: V0_def)
  then obtain V where V: "include_files fuel V0 s = Some (fold enter_include V s)"
    "includes_complete known (fold enter_include V s)"
    "set (Includes s @ V) = set (Includes s) \<union> (include_edges s)\<^sup>* `` set V0"
    using include_files_complete[of s V0 known fuel] assms(1,5) unfolding includes_complete_def by blast
  define s0 where "s0 = fold enter_include V s"
  note keeps = entered_includes(1,2,3)[where s = s and N = V, folded s0_def]
  define s1 where "s1 = s0\<lparr>InsertedVisibleFEs := True,
    IncludeesMap := (IncludeesMap s0)(includer \<mapsto> included_by s0 includer @ [includee])\<rparr>"
  have edge: "include_edge fuel includee includer s = Some s1"
  proof (cases "InsertedVisibleFEs s")
    case True
    then have "s0 = s" "s\<lparr>InsertedVisibleFEs := True\<rparr> = s" using V(1) by (simp_all add: s0_def V0_def)
    then have "s1 = s\<lparr>IncludeesMap := (IncludeesMap s)(includer \<mapsto> included_by s includer @ [includee])\<rparr>"
      unfolding s1_def by metis
    then show ?thesis using True by (simp add: include_edge_def)
  next
    case False
    then show ?thesis using V(1) by (simp add: include_edge_def s1_def s0_def included_by_def V0_def)
  qed
  have same: "included_by s0 = included_by s" using keeps(1) by (simp add: walk_keeps_def included_by_def fun_eq_iff)
  have edges: "include_edges s1 = insert (includer, includee) (include_edges s)"
    unfolding include_edges_def same[symmetric] by (auto simp: s1_def included_by_def split: if_splits)
  have incl: "Includes s1 = Includes s @ V" "IncludedCalls s1 = IncludedCalls s @ V" "InsertedVisibleFEs s1"
    using keeps by (simp_all add: s1_def)
  have rest: "distinct (Includes s1)" "include_edges s `` set (Includes s1) \<subseteq> set (Includes s1)"
    "\<forall>f \<in> set known. set (included_by s f) \<subseteq> set known"
    using V(2) keeps(2) unfolding s0_def[symmetric] includes_complete_def include_edges_def same incl by simp_all
  have "included_by s1 = (included_by s)(includer := included_by s includer @ [includee])"
    unfolding same[symmetric] by (auto simp: s1_def included_by_def)
  then have "\<forall>f \<in> set known. set (included_by s1 f) \<subseteq> set known" using rest(3) assms(3) by auto
  moreover have "include_edges s1 `` set (Includes s1) \<subseteq> set (Includes s1) \<union> {includee}"
    using rest(2) unfolding edges by auto
  moreover have "set (Includes s1) = set (Includes s) \<union>
      (include_edges s)\<^sup>* `` (if InsertedVisibleFEs s then {} else set (VisibleFEs s))"
    using V(3) unfolding incl V0_def by auto
  ultimately show ?thesis using edge edges incl rest(1) by blast
qed

text \<open>
  C7 (liveness): An \<^verbatim>\<open>#include\<close> in a file of the compilation brings in everything: afterwards the
  files of the compilation are those from before, the files that are always visible, and whatever
  the included file includes, directly or not, also if none of them is read again; and the compiler
  is told of each new file once.
\<close>

theorem include_brings_everything:
  assumes "includes_complete known s" "includer \<in> set (Includes s)" "includee \<in> set known"
    "set (VisibleFEs s) \<subseteq> set known" "length known < fuel"
  shows "\<exists>s' N. caching_include fuel includee (Some includer) s = Some s' \<and> includes_complete known s' \<and>
    Includes s' = Includes s @ N \<and> IncludedCalls s' = IncludedCalls s @ N \<and>
    include_edges s' = insert (includer, includee) (include_edges s) \<and>
    set (Includes s') = set (Includes s) \<union> (include_edges s')\<^sup>* `` {includee} \<union>
      (include_edges s)\<^sup>* `` (if InsertedVisibleFEs s then {} else set (VisibleFEs s))"
proof -
  obtain s1 V where s1: "include_edge fuel includee includer s = Some s1"
    "Includes s1 = Includes s @ V" "IncludedCalls s1 = IncludedCalls s @ V" "distinct (Includes s1)"
    "include_edges s1 = insert (includer, includee) (include_edges s)"
    "include_edges s1 `` set (Includes s1) \<subseteq> set (Includes s1) \<union> set [includee]"
    "\<forall>f \<in> set known. set (included_by s1 f) \<subseteq> set known"
    "set (Includes s1) = set (Includes s) \<union>
      (include_edges s)\<^sup>* `` (if InsertedVisibleFEs s then {} else set (VisibleFEs s))"
    using include_edge_complete[OF assms] by auto
  obtain N where N: "include_files fuel [includee] s1 = Some (fold enter_include N s1)"
    "includes_complete known (fold enter_include N s1)"
    "set (Includes s1 @ N) = set (Includes s1) \<union> (include_edges s1)\<^sup>* `` {includee}"
    using include_files_complete[OF s1(4,6,7) _ assms(5)] assms(3) by auto
  let ?s' = "fold enter_include N s1"
  have edges: "include_edges ?s' = include_edges s1"
    using entered_includes(1)[of s1 N] by (simp add: walk_keeps_def include_edges_def included_by_def)
  have "caching_include fuel includee (Some includer) s = Some ?s'"
    using s1(1) N(1) by (simp add: caching_include_def include_file_single del: include_files.simps)
  moreover have "set (Includes ?s') = set (Includes s) \<union> (include_edges ?s')\<^sup>* `` {includee} \<union>
      (include_edges s)\<^sup>* `` (if InsertedVisibleFEs s then {} else set (VisibleFEs s))"
    unfolding entered_includes(2) edges N(3) s1(8) by auto
  ultimately show ?thesis
    using N(2) s1(2,3,5) edges by (intro exI[of _ ?s'] exI[of _ "V @ N"]) (simp add: entered_includes(2,3))
qed

subsection \<open>No cached file with other values goes unnoticed\<close>

definition recorded_values :: "preprocessor \<Rightarrow> file \<Rightarrow> (ident \<times> string) list" where
  "recorded_values s fe = (case FilesIdentifiersValues s fe of None \<Rightarrow> [] | Some vs \<Rightarrow> vs)"

lemma change_report_Nil_iff:
  "change_report s fe = [] \<longleftrightarrow> (\<forall>(i, old) \<in> set (recorded_values s fe). old = watched_value s i)"
proof (cases "List.find (\<lambda>(i, old). old \<noteq> watched_value s i) (recorded_values s fe)")
  case None
  then have "\<forall>(i, old) \<in> set (recorded_values s fe). old = watched_value s i" by (auto simp: find_None_iff)
  moreover have "change_report s fe = []"
    using None by (auto simp: change_report_def recorded_values_def split: option.splits)
  ultimately show ?thesis by simp
next
  case (Some e)
  obtain i old where e: "e = (i, old)" by (cases e)
  then have "(i, old) \<in> set (recorded_values s fe)" "old \<noteq> watched_value s i"
    using Some nth_mem by (fastforce simp: find_Some_iff)+
  moreover have "change_report s fe \<noteq> []"
    using Some e by (auto simp: change_report_def recorded_values_def split: option.splits)
  ultimately show ?thesis by auto
qed

text \<open>
  C8 (safety): After the first \<^verbatim>\<open>#include\<close>, an \<^verbatim>\<open>#include\<close> that reports no changed macro has only
  brought in files, read again or not, whose recorded values of the watched macros are the present
  ones; and if one of them has another value, a change is reported.
\<close>

theorem cached_values_checked:
  assumes "includes_complete known s" "InsertedVisibleFEs s" "includer \<in> set (Includes s)" "includee \<in> set known"
    "length known < fuel"
  shows "\<exists>s' N. caching_include fuel includee (Some includer) s = Some s' \<and> Includes s' = Includes s @ N \<and>
    watched_value s' = watched_value s \<and>
    (ChangedMacros s' = ChangedMacros s \<longleftrightarrow>
      (\<forall>fe \<in> set N. \<forall>(i, old) \<in> set (recorded_values s fe). old = watched_value s i))"
proof -
  define s1 where "s1 = s\<lparr>IncludeesMap := (IncludeesMap s)(includer \<mapsto> included_by s includer @ [includee])\<rparr>"
  have edge: "include_edge fuel includee includer s = Some s1"
    using assms(2) by (simp add: include_edge_def s1_def)
  have links: "included_by s1 = (included_by s)(includer := included_by s includer @ [includee])"
    by (auto simp: s1_def included_by_def)
  then have known: "\<forall>f \<in> set known. set (included_by s1 f) \<subseteq> set known"
    using assms(1,4) by (simp add: includes_complete_def)
  from links have "include_edges s1 `` set (Includes s1) \<subseteq> set (Includes s1) \<union> set [includee]"
    using assms(1) by (auto simp: includes_complete_def include_edges_def s1_def split: if_splits)
  moreover have "distinct (Includes s1)" using assms(1) by (simp add: includes_complete_def s1_def)
  ultimately obtain N where N: "include_files fuel [includee] s1 = Some (fold enter_include N s1)"
    using include_files_complete[of s1 "[includee]" known fuel] known assms(4,5) by auto
  have watched: "watched_value s1 = watched_value s" by (simp add: s1_def watched_value_def[abs_def])
  have "change_report s1 = change_report s" unfolding change_report_def[abs_def] watched by (simp add: s1_def)
  then have same: "watched_value s1 = watched_value s" "change_report s1 = change_report s" "Includes s1 = Includes s"
    "ChangedMacros s1 = ChangedMacros s" "InsertedVisibleFEs s1"
    using assms(2) watched by (simp_all add: s1_def)
  note walk = entered_includes[where s = s1 and N = N]
  have "caching_include fuel includee (Some includer) s = Some (fold enter_include N s1)"
    using edge N by (simp add: caching_include_def include_file_single del: include_files.simps)
  moreover have "watched_value (fold enter_include N s1) = watched_value s"
    using walk(1) same(1) by (simp add: walk_keeps_def)
  moreover have "ChangedMacros (fold enter_include N s1) = ChangedMacros s \<longleftrightarrow> (\<forall>fe \<in> set N. change_report s fe = [])"
    using walk(4) same by simp
  ultimately show ?thesis using walk(2) same(3) by (auto simp: change_report_Nil_iff intro!: exI[of _ N])
qed

subsection \<open>A first and a second compilation\<close>

text \<open>The preprocessor as it is created, with the macros to be watched.\<close>

definition PreprocessorCreatedCallBack :: "ident list \<Rightarrow> preprocessor \<Rightarrow> preprocessor" where
  "PreprocessorCreatedCallBack WatchMacro s =
     fold (\<lambda>i s. s\<lparr>CommandLineMainIdentifiers := (CommandLineMainIdentifiers s)(i \<mapsto> macroUndefined)\<rparr>) WatchMacro s"

definition empty_preprocessor :: "(macro_id \<Rightarrow> macro_info) \<Rightarrow> preprocessor" where
  "empty_preprocessor infos =
     \<lparr>CachingMode = True, DirectiveKind = \<lambda>_. MD_Undefine, Previous = \<lambda>_. None, DirectiveFile = \<lambda>_. None,
      PresumedName = \<lambda>_. None, LatestDirective = \<lambda>_. None, HasMacro = \<lambda>_. False, HadMacro = \<lambda>_. False,
      MacroInfos = infos, AllowRedefinitions = \<lambda>_. False, BufferData = \<lambda>_. None, SystemDir = \<lambda>_. False,
      CurPPLexer = None, IncludeMacroStack = [], PredefinesFileID = 0, VisibleFEs = [], GeneratedMacros = \<lambda>_. None,
      NeedMacros = [], GeneratedMacrosCommandLine = [], CommandLineMainIdentifiers = \<lambda>_. None,
      FilesIdentifiersValues = \<lambda>_. None, PragmaPushMacroInfo = \<lambda>_. None, IncludeGuards = \<lambda>_. None,
      IncludeesMap = \<lambda>_. None, Includes = [], InsertedVisibleFEs = False, LocForStartOfFile = \<lambda>_. None,
      HasCallbacks = False, EnteredFiles = [], IncludedCalls = [], ChangedMacros = []\<rparr>"

definition plain_macro :: macro_info where
  "plain_macro = \<lparr>NumTokens = 0, TokenBuffer = None, TokenOffset = 0, DefinitionLength = 0, UsedForHeaderGuard = False\<rparr>"

definition reading :: "nat \<Rightarrow> pp_lexer" where
  "reading fe = \<lparr>LexFileID = fe, LexFileEntry = Some fe, IsPragmaLexer = False\<rparr>"

text \<open>
  The first compilation of a main file 5 that includes a header 6: the main file defines and
  undefines \<^verbatim>\<open>X\<close>, the header tests it.
\<close>

definition first_compilation :: "preprocessor option" where
  "first_compilation =
     Option.bind (include_file 9 5 (PreprocessorCreatedCallBack [''X''] (empty_preprocessor (\<lambda>_. plain_macro)))) (\<lambda>s0.
     Option.bind (read_directives [(reading 5, ''X'', Some 1, 10, None), (reading 5, ''X'', None, 11, None)] s0) (\<lambda>s1.
     Option.bind (caching_include 9 6 (Some 5) s1) (\<lambda>s2.
     map_option snd (HandleIfdefDirective 9 False 0 False ''X'' (s2\<lparr>CurPPLexer := Some (reading 6)\<rparr>)))))"

text \<open>Its main file is unloaded; a second main file 7 defines \<^verbatim>\<open>X\<close> and includes the header from the cache.\<close>

definition second_compilation :: "preprocessor option" where
  "second_compilation =
     Option.bind first_compilation (\<lambda>s0.
     Option.bind (eraseMacros [5] s0) (\<lambda>s1.
     Option.bind (include_file 9 7 (reset_includes (erase_includes 5 s1))) (\<lambda>s2.
     Option.bind (read_directives [(reading 7, ''X'', Some 2, 12, None)] s2) (\<lambda>s3.
     caching_include 9 6 (Some 7) s3))))"

text \<open>
  For an \<^verbatim>\<open>#undef\<close> of a watched macro, the text of the definition that it ends is stored
  as the macro's value. So a header that was read while the macro was not defined is taken from the
  cache without any report by a compilation in which it is defined.
\<close>

theorem undef_keeps_watched_value:
  "map_option (\<lambda>s. (getMacroDefinition ''X'' s, recorded_values s 6)) first_compilation =
     Some (Some None, [(''X'', ''(defined)'')]) \<and>
   map_option (\<lambda>s. (getMacroDefinition ''X'' s, 6 \<in> set (Includes s), ChangedMacros s)) second_compilation =
     Some (Some (Some 2), True, [])"
  by code_simp

text \<open>
  A header 5 defines \<^verbatim>\<open>X\<close>, another one, 6, undefines it. A later compilation that
  includes only the first one does not see the macro: the flag of the identifier is the one of the
  latest directive, although that belongs to a file that is not included.
\<close>

theorem undef_elsewhere_hides_macro:
  "map_option (\<lambda>s. getMacroDefinition ''X'' (s\<lparr>Includes := [5]\<rparr>))
     (read_directives [(reading 5, ''X'', Some 1, 10, None), (reading 6, ''X'', None, 11, None)]
        (empty_preprocessor (\<lambda>_. plain_macro)\<lparr>Includes := [5, 6]\<rparr>)) = Some (Some None) \<and>
   map_option (getMacroDefinition ''X'')
     (read_directives [(reading 5, ''X'', Some 1, 10, None)] (empty_preprocessor (\<lambda>_. plain_macro)\<lparr>Includes := [5]\<rparr>)) =
     Some (Some (Some 1))"
  by code_simp

subsection \<open>Witnesses\<close>

text \<open>The main file 5 is being read; the header 6 included 7 when it was read before.\<close>

definition cached_headers :: preprocessor where
  "cached_headers = empty_preprocessor (\<lambda>_. plain_macro)
     \<lparr>Includes := [5], InsertedVisibleFEs := True, IncludeesMap := [6 \<mapsto> [7]], FilesIdentifiersValues := [7 \<mapsto> [(''X'', ''1'')]]\<rparr>"

lemma cached_headers_complete: "includes_complete [5, 6, 7] cached_headers"
  by (auto simp: includes_complete_def cached_headers_def empty_preprocessor_def included_by_def include_edges_def)

theorem include_brings_everything_witness:
  "\<exists>s'. caching_include 4 6 (Some 5) cached_headers = Some s' \<and> {6, 7} \<subseteq> set (Includes s')"
proof -
  have fields: "Includes cached_headers = [5]" "VisibleFEs cached_headers = []" "InsertedVisibleFEs cached_headers"
    by (simp_all add: cached_headers_def empty_preprocessor_def)
  have "5 \<in> set (Includes cached_headers)" "6 \<in> set [5, 6, 7 :: file]" "length [5, 6, 7 :: file] < 4"
    "set (VisibleFEs cached_headers) \<subseteq> set [5, 6, 7]" using fields by simp_all
  then obtain s' where s': "caching_include 4 6 (Some 5) cached_headers = Some s'"
    "include_edges s' = insert (5, 6) (include_edges cached_headers)"
    "(include_edges s')\<^sup>* `` {6} \<subseteq> set (Includes s')"
    using include_brings_everything[OF cached_headers_complete, of 5 6 4] by blast
  have "(6, 7) \<in> include_edges cached_headers"
    by (simp add: include_edges_def included_by_def cached_headers_def)
  then have "(6, 7) \<in> (include_edges s')\<^sup>*" using s'(2) by auto
  then have "{6, 7} \<subseteq> (include_edges s')\<^sup>* `` {6}" by auto
  then show ?thesis using s'(1,3) by blast
qed

theorem cached_values_checked_witness:
  "\<exists>s'. caching_include 4 6 (Some 5) cached_headers = Some s' \<and> (7 \<in> set (Includes s') \<longrightarrow> ChangedMacros s' \<noteq> [])"
proof -
  have fields: "Includes cached_headers = [5]" "ChangedMacros cached_headers = []" "InsertedVisibleFEs cached_headers"
    "recorded_values cached_headers 7 = [(''X'', ''1'')]" "watched_value cached_headers ''X'' = []"
    by (simp_all add: cached_headers_def empty_preprocessor_def recorded_values_def watched_value_def)
  have "5 \<in> set (Includes cached_headers)" "6 \<in> set [5, 6, 7 :: file]" "length [5, 6, 7 :: file] < 4"
    using fields by simp_all
  then obtain s' N where s': "caching_include 4 6 (Some 5) cached_headers = Some s'" "Includes s' = Includes cached_headers @ N"
    "ChangedMacros s' = ChangedMacros cached_headers \<longleftrightarrow> (\<forall>fe \<in> set N.
      \<forall>(i, old) \<in> set (recorded_values cached_headers fe). old = watched_value cached_headers i)"
    using cached_values_checked[OF cached_headers_complete fields(3), of 5 6 4] by blast
  have "ChangedMacros s' \<noteq> []" if "7 \<in> set (Includes s')"
  proof
    assume "ChangedMacros s' = []"
    moreover have "7 \<in> set N" using that s'(2) fields(1) by simp
    ultimately have "\<forall>(i, old) \<in> set (recorded_values cached_headers 7). old = watched_value cached_headers i"
      using s'(3) fields(2) by simp
    then show False using fields(4,5) by simp
  qed
  then show ?thesis using s'(1) by blast
qed

theorem unloaded_files_leave_no_macros_witness:
  "\<exists>s1 s2. read_directives [(reading 5, ''X'', Some 1, 10, None), (reading 6, ''X'', None, 11, None)]
      (empty_preprocessor (\<lambda>_. plain_macro)) = Some s1 \<and>
    eraseMacros [5, 6] s1 = Some s2 \<and> getMacroDefinition ''X'' s2 = Some None"
proof -
  let ?s = "empty_preprocessor (\<lambda>_. plain_macro)"
  let ?ts = "[(reading 5, ''X'', Some 1, 10, None), (reading 6, ''X'', None, 11, None)] :: text_directive list"
  have none: "recorded ?s k = []" for k by (cases k) (simp_all add: empty_preprocessor_def)
  then have ok: "macros_ok ?s []" by (simp add: macros_ok_def logged_def) (simp add: empty_preprocessor_def)
  have "text_records ?s (reading 5, ''X'', Some 1, 10, None) = {OfFile 5}"
    "text_records ?s (reading 6, ''X'', None, 11, None) = {OfFile 6}"
    by (simp_all add: text_records_def reading_def empty_preprocessor_def)
  then have records: "\<forall>t \<in> set ?ts. \<exists>k \<in> erased_records [5, 6]. text_records ?s t = {k}"
    by (simp add: erased_records_def)
  have "getMacroDefinition ''X'' ?s = Some None" by (simp add: getMacroDefinition_def empty_preprocessor_def)
  then show ?thesis
    using unloaded_files_leave_no_macros[OF ok _ _ _ records] none by (auto simp: text_entry_def)
qed

subsection \<open>The macros that a compilation sees\<close>

lemma find_filter: "List.find P xs = (case filter P xs of [] \<Rightarrow> None | x # _ \<Rightarrow> Some x)"
  by (induction xs) auto

text \<open>
  C9 (equivalence): What the cache knows about files that are not included does not matter: a
  compilation sees the definition that it would see if only the directives of its own files had been
  read, in the same order, unless a file that is not included has the latest directive and ends the
  definition, so that the identifier lost its flag.
\<close>

theorem cached_macro_as_fresh:
  assumes "logged s L" "logged t (filter (\<lambda>e. wasIncluded s (snd e)) L)"
    "\<forall>d. DirectiveKind t d = DirectiveKind s d \<and> (wasIncluded s d \<longrightarrow> wasIncluded t d)" "HasMacro t i \<longrightarrow> HasMacro s i"
  shows "getMacroDefinition i s = getMacroDefinition i t"
proof -
  have history: "history (filter (\<lambda>e. wasIncluded s (snd e)) L) i = filter (wasIncluded s) (history L i)"
    by (rule history_filter)
  let ?fresh = "filter (wasIncluded s) (history L i)"
  have first: "macro_in_force s (history L i) = (case ?fresh of [] \<Rightarrow> None | d # _ \<Rightarrow> macro_of (DirectiveKind s d))"
    unfolding macro_in_force_def find_filter by (cases ?fresh) simp_all
  have included: "wasIncluded t d" if "?fresh = d # ds" for d ds
  proof -
    have "d \<in> set ?fresh" using that by simp
    then show ?thesis using assms(3) by simp
  qed
  then have fresh: "macro_in_force t ?fresh = macro_in_force s (history L i)"
    unfolding first macro_in_force_def[of t] using assms(3) by (cases ?fresh) simp_all
  have flag: "HasMacro t i \<longleftrightarrow> macro_in_force s (history L i) \<noteq> None"
    using loggedD(5)[OF assms(2), of i] assms(3) unfolding history first
    by (cases ?fresh) (auto simp: is_define_def macro_of_def split: directive_kind.split)
  show ?thesis
    unfolding getMacroDefinition_logged[OF assms(1)] getMacroDefinition_logged[OF assms(2)] history fresh
    using flag assms(4) by auto
qed

text \<open>The header 5 defines \<^verbatim>\<open>X\<close>; in the cache, the header 6 has defined it again.\<close>

definition redefined :: preprocessor where
  "redefined = empty_preprocessor (\<lambda>_. plain_macro)
     \<lparr>DirectiveKind := \<lambda>d. MD_Define d, DirectiveFile := [10 \<mapsto> 5, 11 \<mapsto> 6], Previous := [11 \<mapsto> 10],
      LatestDirective := [''X'' \<mapsto> 11], HasMacro := \<lambda>i. i = ''X'', Includes := [5]\<rparr>"

theorem cached_macro_as_fresh_witness: "getMacroDefinition ''X'' redefined = Some (Some 10)"
proof -
  let ?L = "[(''X'', 11), (''X'', 10)]"
  let ?t = "redefined\<lparr>Previous := \<lambda>_. None, LatestDirective := [''X'' \<mapsto> 10]\<rparr>"
  have fields: "DirectiveKind redefined = MD_Define" "CachingMode redefined" "Previous redefined = [11 \<mapsto> 10]"
    "LatestDirective redefined = [''X'' \<mapsto> 11]" "HasMacro redefined = (\<lambda>i. i = ''X'')"
    by (simp_all add: redefined_def empty_preprocessor_def)
  have "logged redefined ?L" by (auto simp: logged_def fields isVisibility_def is_define_def)
  moreover have seen: "\<not> wasIncluded redefined 11" "wasIncluded redefined 10"
    by (simp_all add: wasIncluded_def redefined_def empty_preprocessor_def)
  then have "filter (\<lambda>e. wasIncluded redefined (snd e)) ?L = [(''X'', 10)]" by simp
  then have "logged ?t (filter (\<lambda>e. wasIncluded redefined (snd e)) ?L)"
    by (simp only:) (auto simp: logged_def fields isVisibility_def is_define_def)
  moreover have "\<forall>d. DirectiveKind ?t d = DirectiveKind redefined d \<and> (wasIncluded redefined d \<longrightarrow> wasIncluded ?t d)"
    by (auto simp: wasIncluded_def split: option.split)
  moreover have "HasMacro ?t ''X'' \<longrightarrow> HasMacro redefined ''X''" by simp
  ultimately have "getMacroDefinition ''X'' redefined = getMacroDefinition ''X'' ?t" by (rule cached_macro_as_fresh)
  also have "\<dots> = Some (Some 10)" by code_simp
  finally show ?thesis .
qed

end
