(* ===== verification/FoldingSets.thy ===== *)
theory FoldingSets
  imports Prelude
begin

unbundle bit_operations_syntax

text \<open>
  The hash tables of LLVM in which equal nodes are found again (\<^verbatim>\<open>lib/Support/FoldingSet.cpp\<close>): the bits
  of a node's identity; a table of buckets, each a list through the nodes that ends with a marked
  pointer back to the bucket, so that a node is removed without knowing its hash; growth, and
  iteration. clang keeps its types, and with them what the server unloads, in such tables.
\<close>

subsection \<open>The identity of a node\<close>

text \<open>\<^verbatim>\<open>FoldingSetNodeID\<close> is a vector of 32-bit numbers; a pointer or a long integer is two of them.\<close>

type_synonym node_id = "32 word list"

definition AddInteger :: "32 word \<Rightarrow> node_id \<Rightarrow> node_id" where
  "AddInteger i bits = bits @ [i]"

definition AddLong :: "64 word \<Rightarrow> node_id \<Rightarrow> node_id" where
  "AddLong i bits = AddInteger (ucast (drop_bit 32 i)) (AddInteger (ucast i) bits)"

definition AddPointer :: "64 word \<Rightarrow> node_id \<Rightarrow> node_id" where
  "AddPointer p = AddLong p"

definition AddBoolean :: "bool \<Rightarrow> node_id \<Rightarrow> node_id" where
  "AddBoolean b = AddInteger (if b then 1 else 0)"

definition AddNodeID :: "node_id \<Rightarrow> node_id \<Rightarrow> node_id" where
  "AddNodeID i bits = bits @ i"

text \<open>
  A string is its size and its bytes, four in a number, on a little-endian host; the bytes that are
  left over are put together the other way round. An aligned string is copied, with the same result.
\<close>

definition byte_at :: "string \<Rightarrow> nat \<Rightarrow> 32 word" where
  "byte_at s i = of_nat (of_char (s ! i))"

definition unit_at :: "string \<Rightarrow> nat \<Rightarrow> 32 word" where
  "unit_at s pos = push_bit 24 (byte_at s (pos - 1)) OR push_bit 16 (byte_at s (pos - 2)) OR
     push_bit 8 (byte_at s (pos - 3)) OR byte_at s (pos - 4)"

function add_units :: "string \<Rightarrow> nat \<Rightarrow> node_id \<Rightarrow> nat \<times> node_id" where
  "add_units s pos bits =
     (if pos \<le> length s then add_units s (pos + 4) (bits @ [unit_at s pos]) else (pos, bits))"
  by auto
termination by (relation "measure (\<lambda>(s, pos, bits). Suc (length s) - pos)") auto

definition AddString :: "string \<Rightarrow> node_id \<Rightarrow> node_id" where
  "AddString s bits =
     (let n = length s; bits = bits @ [of_nat n]
      in if n = 0 then bits
         else (let (pos, bits) = add_units s 4 bits;
                   v1 = (\<lambda>v. push_bit 8 v OR byte_at s (n - 1));
                   v2 = (\<lambda>v. v1 (push_bit 8 v OR byte_at s (n - 2)));
                   v3 = (\<lambda>v. v2 (push_bit 8 v OR byte_at s (n - 3)))
               in if pos - n = 1 then bits @ [v3 0]
                  else if pos - n = 2 then bits @ [v2 0]
                  else if pos - n = 3 then bits @ [v1 0]
                  else bits))"


subsection \<open>The table\<close>

text \<open>
  What a bucket or the link of a node points to: a node; or, with the lowest bit set, a bucket. The
  last bucket has the value -1. A null pointer is \<open>None\<close>. A bucket is known by its index.
\<close>

type_synonym fs_node = nat

datatype link = NodeLink fs_node | BucketLink nat | EndMark

record folding_set =
  Buckets :: "link option list"
  NumBuckets :: nat
  NumNodes :: nat
  NextInBucket :: "fs_node \<Rightarrow> link option"

definition GetNextPtr :: "link option \<Rightarrow> fs_node option" where
  "GetNextPtr l = (case l of Some (NodeLink n) \<Rightarrow> Some n | _ \<Rightarrow> None)"

definition GetBucketPtr :: "link option \<Rightarrow> nat option" where
  "GetBucketPtr l = (case l of Some (BucketLink i) \<Rightarrow> Some i | _ \<Rightarrow> None)"

definition SetNextInBucket :: "fs_node \<Rightarrow> link option \<Rightarrow> folding_set \<Rightarrow> folding_set" where
  "SetNextInBucket n l s = s\<lparr>NextInBucket := (NextInBucket s)(n := l)\<rparr>"

definition set_bucket :: "nat \<Rightarrow> link option \<Rightarrow> folding_set \<Rightarrow> folding_set" where
  "set_bucket b l s = s\<lparr>Buckets := (Buckets s)[b := l]\<rparr>"

definition GetBucketFor :: "32 word \<Rightarrow> nat \<Rightarrow> nat" where
  "GetBucketFor hash n = unat (hash AND (of_nat n - 1))"

definition AllocateBuckets :: "nat \<Rightarrow> link option list" where
  "AllocateBuckets n = replicate n None @ [Some EndMark]"

text \<open>The number of buckets is a 32-bit number. A failed assertion is \<open>None\<close>.\<close>

definition FoldingSetBase :: "nat \<Rightarrow> (fs_node \<Rightarrow> link option) \<Rightarrow> folding_set option" where
  "FoldingSetBase log2 links =
     (if 5 < log2 \<and> log2 < 32
      then Some \<lparr>Buckets = AllocateBuckets (2 ^ log2), NumBuckets = 2 ^ log2, NumNodes = 0, NextInBucket = links\<rparr>
      else None)"

definition clear_set :: "folding_set \<Rightarrow> folding_set" where
  "clear_set s = s\<lparr>Buckets := replicate (NumBuckets s) None @ [Some EndMark], NumNodes := 0\<rparr>"

definition capacity :: "folding_set \<Rightarrow> nat" where
  "capacity s = NumBuckets s * 2 mod 2 ^ 32"

definition isPowerOf2_32 :: "nat \<Rightarrow> bool" where
  "isPowerOf2_32 n \<longleftrightarrow> (of_nat n :: 32 word) \<noteq> 0 \<and> (of_nat n :: 32 word) AND (of_nat n - 1) = 0"

text \<open>
  How a node gets its identity and how an identity is hashed are up to the user of the table:
  \<open>prof\<close> and \<open>hash\<close>. A search returns the node or the bucket to insert one in.
\<close>

partial_function (option) find_probe ::
  "(fs_node \<Rightarrow> node_id) \<Rightarrow> node_id \<Rightarrow> folding_set \<Rightarrow> link option \<Rightarrow> fs_node option option"
where
  "find_probe prof i s probe =
     (case GetNextPtr probe of
        None \<Rightarrow> Some None
      | Some n \<Rightarrow> if prof n = i then Some (Some n) else find_probe prof i s (NextInBucket s n))"

declare find_probe.simps [code]

definition FindNodeOrInsertPos ::
  "(node_id \<Rightarrow> 32 word) \<Rightarrow> (fs_node \<Rightarrow> node_id) \<Rightarrow> node_id \<Rightarrow> folding_set \<Rightarrow> (fs_node option \<times> nat option) option"
where
  "FindNodeOrInsertPos hash prof i s =
     (let b = GetBucketFor (hash i) (NumBuckets s)
      in map_option (\<lambda>found. case found of Some n \<Rightarrow> (Some n, None) | None \<Rightarrow> (None, Some b))
           (find_probe prof i s (Buckets s ! b)))"

text \<open>
  Insertion may grow the table, and that inserts the nodes again. The links of the old buckets are
  followed before they are overwritten. \<open>fuel\<close> bounds how deep insertion and growth are nested.
\<close>

partial_function (option) rehash_chain ::
  "(fs_node \<Rightarrow> folding_set \<Rightarrow> folding_set option) \<Rightarrow> link option \<Rightarrow> folding_set \<Rightarrow> folding_set option"
where
  "rehash_chain enter probe s =
     (case GetNextPtr probe of
        None \<Rightarrow> Some s
      | Some n \<Rightarrow>
          (let probe = NextInBucket s n; s1 = SetNextInBucket n None s
           in Option.bind (enter n s1) (rehash_chain enter probe)))"

declare rehash_chain.simps [code]

fun rehash ::
  "(fs_node \<Rightarrow> folding_set \<Rightarrow> folding_set option) \<Rightarrow> link option list \<Rightarrow> folding_set \<Rightarrow> folding_set option"
where
  "rehash enter [] s = Some s"
| "rehash enter (probe # probes) s =
     (case probe of
        None \<Rightarrow> rehash enter probes s
      | Some _ \<Rightarrow> Option.bind (rehash_chain enter probe s) (rehash enter probes))"

definition GrowBucketCount ::
  "(fs_node \<Rightarrow> folding_set \<Rightarrow> folding_set option) \<Rightarrow> nat \<Rightarrow> folding_set \<Rightarrow> folding_set option"
where
  "GrowBucketCount enter count s =
     (if NumBuckets s < count \<and> isPowerOf2_32 count
      then rehash enter (take (NumBuckets s) (Buckets s))
             (s\<lparr>Buckets := AllocateBuckets count, NumBuckets := count, NumNodes := 0\<rparr>)
      else None)"

definition GrowHashTable ::
  "(fs_node \<Rightarrow> folding_set \<Rightarrow> folding_set option) \<Rightarrow> folding_set \<Rightarrow> folding_set option"
where
  "GrowHashTable enter s = GrowBucketCount enter (NumBuckets s * 2 mod 2 ^ 32) s"

definition link_node :: "fs_node \<Rightarrow> nat \<Rightarrow> folding_set \<Rightarrow> folding_set" where
  "link_node n b s =
     (let s1 = s\<lparr>NumNodes := (NumNodes s + 1) mod 2 ^ 32\<rparr>;
          rest = (case Buckets s1 ! b of None \<Rightarrow> Some (BucketLink b) | l \<Rightarrow> l)
      in set_bucket b (Some (NodeLink n)) (SetNextInBucket n rest s1))"

fun fs_InsertNode ::
  "nat \<Rightarrow> (node_id \<Rightarrow> 32 word) \<Rightarrow> (fs_node \<Rightarrow> node_id) \<Rightarrow> fs_node \<Rightarrow> nat \<Rightarrow> folding_set \<Rightarrow> folding_set option"
where
  "fs_InsertNode 0 hash prof n b s = None"
| "fs_InsertNode (Suc fuel) hash prof n b s =
     (if NextInBucket s n \<noteq> None then None
      else if (NumNodes s + 1) mod 2 ^ 32 > capacity s
      then Option.bind
             (GrowHashTable
               (\<lambda>m t. fs_InsertNode fuel hash prof m (GetBucketFor (hash (prof m)) (NumBuckets t)) t) s)
             (\<lambda>s. Some (link_node n (GetBucketFor (hash (prof n)) (NumBuckets s)) s))
      else Some (link_node n b s))"

declare fs_InsertNode.simps [simp del]

abbreviation enter_again ::
  "nat \<Rightarrow> (node_id \<Rightarrow> 32 word) \<Rightarrow> (fs_node \<Rightarrow> node_id) \<Rightarrow> fs_node \<Rightarrow> folding_set \<Rightarrow> folding_set option"
where
  "enter_again fuel hash prof n s \<equiv> fs_InsertNode fuel hash prof n (GetBucketFor (hash (prof n)) (NumBuckets s)) s"

text \<open>
  Removal: around the list until what points to the node is found. A node without a link is in no
  table.
\<close>

partial_function (option) chase ::
  "fs_node \<Rightarrow> link option \<Rightarrow> link option \<Rightarrow> folding_set \<Rightarrow> folding_set option"
where
  "chase n next ptr s =
     (case GetNextPtr ptr of
        Some m \<Rightarrow>
          (let ptr = NextInBucket s m
           in if ptr = Some (NodeLink n) then Some (SetNextInBucket m next s) else chase n next ptr s)
      | None \<Rightarrow>
          (case GetBucketPtr ptr of
             None \<Rightarrow> None
           | Some b \<Rightarrow>
               (let ptr = Buckets s ! b
                in if ptr = Some (NodeLink n) then Some (set_bucket b next s) else chase n next ptr s)))"

declare chase.simps [code]

definition fs_RemoveNode :: "fs_node \<Rightarrow> folding_set \<Rightarrow> (bool \<times> folding_set) option" where
  "fs_RemoveNode n s =
     (case NextInBucket s n of
        None \<Rightarrow> Some (False, s)
      | Some l \<Rightarrow>
          map_option (Pair True)
            (chase n (Some l) (Some l)
              (SetNextInBucket n None (s\<lparr>NumNodes := (NumNodes s + 2 ^ 32 - 1) mod 2 ^ 32\<rparr>))))"

definition GetOrInsertNode ::
  "nat \<Rightarrow> (node_id \<Rightarrow> 32 word) \<Rightarrow> (fs_node \<Rightarrow> node_id) \<Rightarrow> fs_node \<Rightarrow> folding_set \<Rightarrow> (fs_node \<times> folding_set) option"
where
  "GetOrInsertNode fuel hash prof n s =
     Option.bind (FindNodeOrInsertPos hash prof (prof n) s)
       (\<lambda>r. case r of
          (Some e, _) \<Rightarrow> Some (e, s)
        | (None, Some b) \<Rightarrow> map_option (Pair n) (fs_InsertNode fuel hash prof n b s)
        | (None, None) \<Rightarrow> None)"

text \<open>Making room for a number of nodes.\<close>

fun power_of_2_floor :: "nat \<Rightarrow> nat" where
  "power_of_2_floor n = (if n \<le> 1 then n else 2 * power_of_2_floor (n div 2))"

declare power_of_2_floor.simps [simp del]

definition fs_reserve ::
  "nat \<Rightarrow> (node_id \<Rightarrow> 32 word) \<Rightarrow> (fs_node \<Rightarrow> node_id) \<Rightarrow> nat \<Rightarrow> folding_set \<Rightarrow> folding_set option"
where
  "fs_reserve fuel hash prof count s =
     (if count < capacity s then Some s
      else GrowBucketCount
             (enter_again fuel hash prof)
             (power_of_2_floor count) s)"


subsection \<open>Iteration\<close>

text \<open>
  An iterator stands on a node or at the end, where the last bucket has the value -1. Reading
  beyond the last bucket is \<open>None\<close>.
\<close>

partial_function (option) skip_buckets :: "folding_set \<Rightarrow> nat \<Rightarrow> link option" where
  "skip_buckets s b =
     (if length (Buckets s) \<le> b then None
      else if Buckets s ! b = Some EndMark then Some EndMark
      else (case GetNextPtr (Buckets s ! b) of None \<Rightarrow> skip_buckets s (Suc b) | Some n \<Rightarrow> Some (NodeLink n)))"

declare skip_buckets.simps [code]

definition iterator_begin :: "folding_set \<Rightarrow> link option" where
  "iterator_begin s = skip_buckets s 0"

definition iterator_advance :: "folding_set \<Rightarrow> fs_node \<Rightarrow> link option" where
  "iterator_advance s n =
     (case GetNextPtr (NextInBucket s n) of
        Some m \<Rightarrow> Some (NodeLink m)
      | None \<Rightarrow> Option.bind (GetBucketPtr (NextInBucket s n)) (\<lambda>b. skip_buckets s (Suc b)))"

text \<open>A loop from \<^verbatim>\<open>begin()\<close> to \<^verbatim>\<open>end()\<close>, with the nodes it visits.\<close>

partial_function (option) iterate_from :: "folding_set \<Rightarrow> link \<Rightarrow> fs_node list option" where
  "iterate_from s l =
     (case l of
        NodeLink n \<Rightarrow> Option.bind (Option.bind (iterator_advance s n) (iterate_from s)) (\<lambda>ns. Some (n # ns))
      | _ \<Rightarrow> Some [])"

declare iterate_from.simps [code]

definition iterate :: "folding_set \<Rightarrow> fs_node list option" where
  "iterate s = Option.bind (iterator_begin s) (iterate_from s)"

end
