(* ===== verification/FoldingSetOps.thy ===== *)
theory FoldingSetOps
  imports FoldingSets "HOL-Library.Multiset"
begin

text \<open>
  A folding set is a list of its nodes: looking for an identity finds the node that has it, in
  whatever bucket it is, insertion adds a node and removal takes one out, also when the table grows;
  and iteration visits all nodes once.
\<close>

subsection \<open>Buckets\<close>

text \<open>\<open>chain nx l ns e\<close>: from the link \<open>l\<close> one meets the nodes \<open>ns\<close> and arrives at the link \<open>e\<close>.\<close>

fun chain :: "(fs_node \<Rightarrow> link option) \<Rightarrow> link option \<Rightarrow> fs_node list \<Rightarrow> link option \<Rightarrow> bool" where
  "chain nx l [] e \<longleftrightarrow> l = e"
| "chain nx l (n # ns) e \<longleftrightarrow> l = Some (NodeLink n) \<and> chain nx (nx n) ns e"

lemma chain_append: "chain nx l (xs @ ys) e \<longleftrightarrow> (\<exists>m. chain nx l xs m \<and> chain nx m ys e)"
  by (induction xs arbitrary: l) auto

lemma chain_upd [simp]: "n \<notin> set ns \<Longrightarrow> chain (nx(n := x)) l ns e = chain nx l ns e"
  by (induction ns arbitrary: l) auto

lemma chain_cong: "(\<And>n. n \<in> set ns \<Longrightarrow> nx' n = nx n) \<Longrightarrow> chain nx' l ns e = chain nx l ns e"
  by (induction ns arbitrary: l) auto

lemma chain_linked: "chain nx l ns (Some e) \<Longrightarrow> n \<in> set ns \<Longrightarrow> nx n \<noteq> None"
proof (induction ns arbitrary: l)
  case (Cons m ns)
  then show ?case by (cases ns) auto
qed simp

lemma chain_null [simp]: "\<not> chain nx None ns (Some e)"
  by (cases ns) simp_all

definition bucket_holds :: "(fs_node \<Rightarrow> link option) \<Rightarrow> link option \<Rightarrow> nat \<Rightarrow> fs_node list \<Rightarrow> bool" where
  "bucket_holds nx l b ns \<longleftrightarrow> l = None \<and> ns = [] \<or> chain nx l ns (Some (BucketLink b))"

text \<open>\<open>cs\<close> are the nodes of the buckets; only the nodes of the table have a link.\<close>

definition filed :: "(node_id \<Rightarrow> 32 word) \<Rightarrow> (fs_node \<Rightarrow> node_id) \<Rightarrow> folding_set \<Rightarrow> fs_node list list \<Rightarrow> bool" where
  "filed hash prof s cs \<longleftrightarrow> (\<exists>k < 32. NumBuckets s = 2 ^ k) \<and> length cs = NumBuckets s \<and>
     length (Buckets s) = Suc (NumBuckets s) \<and> Buckets s ! NumBuckets s = Some EndMark \<and>
     NumNodes s = length (concat cs) \<and> length (concat cs) \<le> capacity s \<and>
     (\<forall>b < NumBuckets s. bucket_holds (NextInBucket s) (Buckets s ! b) b (cs ! b) \<and> distinct (cs ! b) \<and>
       (\<forall>n \<in> set (cs ! b). GetBucketFor (hash (prof n)) (NumBuckets s) = b))"

definition holds_nodes :: "(node_id \<Rightarrow> 32 word) \<Rightarrow> (fs_node \<Rightarrow> node_id) \<Rightarrow> folding_set \<Rightarrow> fs_node list list \<Rightarrow> bool" where
  "holds_nodes hash prof s cs \<longleftrightarrow> filed hash prof s cs \<and> (\<forall>n. n \<notin> set (concat cs) \<longrightarrow> NextInBucket s n = None)"

lemma GetBucketFor_less: "0 < n \<Longrightarrow> n < 2 ^ 32 \<Longrightarrow> GetBucketFor h n < n"
proof -
  assume n: "0 < n" "n < 2 ^ 32"
  have "h AND (of_nat n - 1) \<le> of_nat n - (1 :: 32 word)" by (rule word_and_le1)
  then have le: "GetBucketFor h n \<le> unat (of_nat n - (1 :: 32 word))" by (simp add: GetBucketFor_def word_le_nat_alt)
  have "of_nat n - (1 :: 32 word) = of_nat (n - 1)" using n by simp
  moreover have "unat (of_nat m :: 32 word) = m" if "m < 2 ^ 32" for m
    using that by (simp add: unat_of_nat take_bit_nat_eq_self)
  ultimately have "unat (of_nat n - (1 :: 32 word)) = n - 1" using n by (metis less_imp_diff_less)
  with le show ?thesis using n by simp
qed

lemma filedD:
  assumes "filed hash prof s cs"
  shows "0 < NumBuckets s" "NumBuckets s < 2 ^ 32" "GetBucketFor h (NumBuckets s) < NumBuckets s"
    "length cs = NumBuckets s" "length (Buckets s) = Suc (NumBuckets s)"
    "b < NumBuckets s \<Longrightarrow> bucket_holds (NextInBucket s) (Buckets s ! b) b (cs ! b)"
    "b < NumBuckets s \<Longrightarrow> distinct (cs ! b)"
    "b < NumBuckets s \<Longrightarrow> n \<in> set (cs ! b) \<Longrightarrow> GetBucketFor (hash (prof n)) (NumBuckets s) = b"
proof -
  obtain k where "k < 32" "NumBuckets s = 2 ^ k" using assms by (auto simp: filed_def)
  then show "0 < NumBuckets s" "NumBuckets s < 2 ^ 32" using power_strict_increasing[of k 32 "2 :: nat"] by simp_all
  then show "GetBucketFor h (NumBuckets s) < NumBuckets s" by (rule GetBucketFor_less)
qed (use assms in \<open>simp_all add: filed_def\<close>)

lemma in_concat_bucket:
  assumes "filed hash prof s cs"
  shows "n \<in> set (concat cs) \<longleftrightarrow> n \<in> set (cs ! GetBucketFor (hash (prof n)) (NumBuckets s))"
proof
  assume "n \<in> set (concat cs)"
  then obtain c where c: "c \<in> set cs" "n \<in> set c" by auto
  then obtain b where "b < length cs" "n \<in> set (cs ! b)" by (metis in_set_conv_nth)
  then show "n \<in> set (cs ! GetBucketFor (hash (prof n)) (NumBuckets s))"
    using filedD(4,8)[OF assms] by metis
next
  assume "n \<in> set (cs ! GetBucketFor (hash (prof n)) (NumBuckets s))"
  then show "n \<in> set (concat cs)" using filedD(3,4)[OF assms] by (metis UN_I nth_mem set_concat)
qed

lemma mset_concat_update:
  "b < length cs \<Longrightarrow> mset (concat (cs[b := xs])) + mset (cs ! b) = mset (concat cs) + mset xs"
proof (induction cs arbitrary: b)
  case (Cons c cs)
  then show ?case by (cases b) (auto simp: ac_simps)
qed simp

subsection \<open>Looking for a node\<close>

lemma find_probe_holds:
  assumes "bucket_holds (NextInBucket s) l b ns"
  shows "find_probe prof i s l = Some (List.find (\<lambda>n. prof n = i) ns)"
proof (cases "l = None \<and> ns = []")
  case True
  then show ?thesis by (subst find_probe.simps) (simp add: GetNextPtr_def)
next
  case False
  then have "chain (NextInBucket s) l ns (Some (BucketLink b))" using assms unfolding bucket_holds_def by blast
  then show ?thesis
  proof (induction ns arbitrary: l)
    case Nil
    then show ?case by (subst find_probe.simps) (simp add: GetNextPtr_def)
  next
    case (Cons n ns)
    then show ?case by (subst find_probe.simps) (simp add: GetNextPtr_def)
  qed
qed

lemma find_concat:
  assumes "b < length cs" "\<And>c. c < length cs \<Longrightarrow> c \<noteq> b \<Longrightarrow> \<forall>n \<in> set (cs ! c). \<not> p n"
  shows "List.find p (concat cs) = List.find p (cs ! b)"
  using assms
proof (induction cs arbitrary: b)
  case (Cons c cs)
  have skip: "List.find p (xs @ ys) = List.find p ys" if "\<forall>n \<in> set xs. \<not> p n" for xs ys
    using that by (induction xs) auto
  have first: "List.find p (xs @ ys) = List.find p xs" if "\<forall>n \<in> set ys. \<not> p n" for xs ys
    using that by (induction xs) (auto simp: find_None_iff)
  show ?case
  proof (cases b)
    case 0
    have "\<forall>n \<in> set d. \<not> p n" if "d \<in> set cs" for d
      using that Cons.prems(2)[of "Suc _"] 0 by (metis Suc_less_eq Zero_neq_Suc in_set_conv_nth length_Cons nth_Cons_Suc)
    then show ?thesis using 0 first by simp
  next
    case (Suc d)
    have "\<forall>n \<in> set c. \<not> p n" using Cons.prems(2)[of 0] Suc by simp
    moreover have "List.find p (concat cs) = List.find p (cs ! d)"
      using Cons.IH[of d] Cons.prems(1) Cons.prems(2)[of "Suc _"] Suc by simp
    ultimately show ?thesis using Suc skip by simp
  qed
qed simp

lemma FindNodeOrInsertPos_holds:
  assumes "filed hash prof s cs"
  shows "FindNodeOrInsertPos hash prof i s =
    Some (case List.find (\<lambda>n. prof n = i) (concat cs) of
            Some n \<Rightarrow> (Some n, None)
          | None \<Rightarrow> (None, Some (GetBucketFor (hash i) (NumBuckets s))))"
proof -
  let ?b = "GetBucketFor (hash i) (NumBuckets s)"
  note filed = filedD[OF assms]
  have "List.find (\<lambda>n. prof n = i) (concat cs) = List.find (\<lambda>n. prof n = i) (cs ! ?b)"
    using filed(3,4,8) by (intro find_concat) auto
  then show ?thesis
    using find_probe_holds[OF filed(6)[OF filed(3)]] by (simp add: FindNodeOrInsertPos_def Let_def split: option.split)
qed


subsection \<open>Adding a node\<close>

lemma link_node_fields [simp]:
  "NumBuckets (link_node n b s) = NumBuckets s" "length (Buckets (link_node n b s)) = length (Buckets s)"
  "m \<noteq> n \<Longrightarrow> NextInBucket (link_node n b s) m = NextInBucket s m" "capacity (link_node n b s) = capacity s"
  "NumNodes (link_node n b s) = (NumNodes s + 1) mod 2 ^ 32"
  by (simp_all add: link_node_def set_bucket_def SetNextInBucket_def capacity_def Let_def)

lemma bucket_holds_other:
  "bucket_holds nx l b ns \<Longrightarrow> n \<notin> set ns \<Longrightarrow> bucket_holds (nx(n := x)) l b ns"
  by (auto simp: bucket_holds_def)

lemma capacity_less: "capacity s < 2 ^ 32"
  by (simp add: capacity_def)

lemma contents_update:
  assumes "b < length cs"
  shows "mset (concat (cs[b := n # cs ! b])) = add_mset n (mset (concat cs))"
    "set (concat (cs[b := n # cs ! b])) = insert n (set (concat cs))"
    "length (concat (cs[b := n # cs ! b])) = Suc (length (concat cs))"
proof -
  show contents: "mset (concat (cs[b := n # cs ! b])) = add_mset n (mset (concat cs))"
    using mset_concat_update[OF assms, of "n # cs ! b"] by simp
  from arg_cong[OF contents, of set_mset] show "set (concat (cs[b := n # cs ! b])) = insert n (set (concat cs))"
    unfolding set_mset_mset set_mset_add_mset_insert .
  from arg_cong[OF contents, of size] show "length (concat (cs[b := n # cs ! b])) = Suc (length (concat cs))"
    unfolding size_mset size_add_mset .
qed

lemma link_node_filed:
  assumes filed: "filed hash prof s cs" and "b = GetBucketFor (hash (prof n)) (NumBuckets s)"
    and new: "n \<notin> set (concat cs)" and room: "length (concat cs) < capacity s"
  shows "filed hash prof (link_node n b s) (cs[b := n # cs ! b])"
proof -
  let ?s = "link_node n b s"
  let ?rest = "case Buckets s ! b of None \<Rightarrow> Some (BucketLink b) | l \<Rightarrow> l"
  note D = filedD[OF filed]
  have b: "b < NumBuckets s" using D(3) assms(2) by simp
  have links: "NextInBucket ?s = (NextInBucket s)(n := ?rest)" "Buckets ?s = (Buckets s)[b := Some (NodeLink n)]"
    by (simp_all add: link_node_def set_bucket_def SetNextInBucket_def Let_def)
  have len: "length (concat (cs[b := n # cs ! b])) = Suc (length (concat cs))"
    using contents_update(3)[of b cs n] b D(4) by simp
  have new': "n \<notin> set (cs ! c)" if "c < NumBuckets s" for c using new D(4) that nth_mem[of c cs] by auto
  have "bucket_holds (NextInBucket ?s) (Buckets ?s ! c) c (cs[b := n # cs ! b] ! c) \<and> distinct (cs[b := n # cs ! b] ! c) \<and>
      (\<forall>m \<in> set (cs[b := n # cs ! b] ! c). GetBucketFor (hash (prof m)) (NumBuckets s) = c)" if c: "c < NumBuckets s" for c
  proof (cases "c = b")
    case False
    then show ?thesis using D(6-8)[OF c] bucket_holds_other[OF D(6)[OF c] new'[OF c]] by (simp add: links)
  next
    case True
    have "chain (NextInBucket s) ?rest (cs ! b) (Some (BucketLink b))"
      using D(6)[OF b] by (auto simp: bucket_holds_def split: option.split)
    then have "bucket_holds (NextInBucket ?s) (Buckets ?s ! b) b (n # cs ! b)"
      using b D(5) new'[OF b] by (simp add: links bucket_holds_def)
    then show ?thesis using True b D(4,7,8) new'[OF b] assms(2) by auto
  qed
  then show ?thesis
    using filed len room capacity_less[of s] b by (simp add: filed_def links)
qed

lemma fs_InsertNode_room:
  assumes "NextInBucket s n = None" "NumNodes s < capacity s"
  shows "fs_InsertNode (Suc fuel) hash prof n b s = Some (link_node n b s)"
  using assms capacity_less[of s] by (simp add: fs_InsertNode.simps not_less)

text \<open>Growth: the nodes of the old buckets are entered again.\<close>

lemma rehash_chain_filed:
  assumes "bucket_holds (NextInBucket s) l b ns" "filed hash prof s cs" "distinct ns" "set ns \<inter> set (concat cs) = {}"
    "length (concat cs) + length ns \<le> capacity s"
  shows "\<exists>s' cs'. rehash_chain (enter_again (Suc fuel) hash prof) l s = Some s' \<and>
    filed hash prof s' cs' \<and> mset (concat cs') = mset (concat cs) + mset ns \<and> NumBuckets s' = NumBuckets s \<and>
    (\<forall>m. m \<notin> set ns \<longrightarrow> NextInBucket s' m = NextInBucket s m)"
proof (cases "l = None \<and> ns = []")
  case True
  then show ?thesis using assms(2) by (subst rehash_chain.simps) (auto simp: GetNextPtr_def)
next
  case False
  then have "chain (NextInBucket s) l ns (Some (BucketLink b))" using assms(1) unfolding bucket_holds_def by blast
  then show ?thesis
    using assms(2-)
  proof (induction ns arbitrary: l s cs)
    case Nil
    then show ?case by (subst rehash_chain.simps) (auto simp: GetNextPtr_def)
  next
    case (Cons n ns)
    let ?s1 = "SetNextInBucket n None s"
    let ?b = "GetBucketFor (hash (prof n)) (NumBuckets s)"
    let ?s2 = "link_node n ?b ?s1"
    have n: "n \<notin> set (concat cs)" "n \<notin> set ns" using Cons.prems(3,4) by auto
    have s1: "filed hash prof ?s1 cs"
    proof -
      have "bucket_holds (NextInBucket ?s1) (Buckets s ! c) c (cs ! c)" if "c < NumBuckets s" for c
        using bucket_holds_other[OF filedD(6)[OF Cons.prems(2) that], of n] n(1) filedD(4)[OF Cons.prems(2)] that
        by (auto simp: SetNextInBucket_def)
      then show ?thesis using Cons.prems(2) by (simp add: filed_def SetNextInBucket_def capacity_def)
    qed
    have same: "NumBuckets ?s1 = NumBuckets s" "capacity ?s1 = capacity s" "NextInBucket ?s1 n = None"
      by (simp_all add: SetNextInBucket_def capacity_def)
    have s2: "filed hash prof ?s2 (cs[?b := n # cs ! ?b])"
      using link_node_filed[OF s1, of ?b n] n(1) Cons.prems(5) same by simp
    have room: "NumNodes ?s1 < capacity ?s1" using s1 Cons.prems(5) same by (simp add: filed_def)
    have "?b < length cs" using filedD(3,4)[OF Cons.prems(2)] by simp
    note contents = contents_update[OF this, of n]
    have "NextInBucket ?s2 m = NextInBucket s m" if "m \<in> set ns" for m
      using that n(2) by (cases "m = n") (simp_all add: SetNextInBucket_def)
    then have "chain (NextInBucket ?s2) l' ns e = chain (NextInBucket s) l' ns e" for l' e by (rule chain_cong)
    then have "chain (NextInBucket ?s2) (NextInBucket s n) ns (Some (BucketLink b))"
      using Cons.prems(1) by simp
    moreover have "distinct ns" "set ns \<inter> set (concat (cs[?b := n # cs ! ?b])) = {}"
      "length (concat (cs[?b := n # cs ! ?b])) + length ns \<le> capacity ?s2"
      using Cons.prems(3,4,5) n(2) unfolding contents by (simp_all add: same)
    ultimately obtain s' cs' where s': "rehash_chain (enter_again (Suc fuel) hash prof) (NextInBucket s n) ?s2 = Some s'"
      "filed hash prof s' cs'" "mset (concat cs') = add_mset n (mset (concat cs)) + mset ns" "NumBuckets s' = NumBuckets s"
      "\<forall>m. m \<notin> set ns \<longrightarrow> NextInBucket s' m = NextInBucket ?s2 m"
      using Cons.IH[OF _ s2] unfolding contents link_node_fields same by blast
    have "rehash_chain (enter_again (Suc fuel) hash prof) l s = Some s'"
      using Cons.prems(1) s'(1) fs_InsertNode_room[OF same(3) room] same(1)
      by (subst rehash_chain.simps) (simp add: GetNextPtr_def Let_def)
    moreover have "\<forall>m. m \<notin> set (n # ns) \<longrightarrow> NextInBucket s' m = NextInBucket s m"
      using s'(5) by (simp add: SetNextInBucket_def)
    ultimately show ?case using s'(2-4) by (intro exI[of _ s'] exI[of _ cs']) simp
  qed
qed


lemma bucket_holds_cong: "\<forall>n \<in> set ns. nx' n = nx n \<Longrightarrow> bucket_holds nx' l b ns = bucket_holds nx l b ns"
  using chain_cong[of ns nx' nx l "Some (BucketLink b)"] by (simp add: bucket_holds_def)

lemma rehash_filed:
  assumes "list_all2 (\<lambda>l ns. \<exists>b. bucket_holds (NextInBucket s) l b ns) ls ds" "filed hash prof s cs" "distinct (concat ds)"
    "set (concat ds) \<inter> set (concat cs) = {}" "length (concat cs) + length (concat ds) \<le> capacity s"
  shows "\<exists>s' cs'. rehash (enter_again (Suc fuel) hash prof) ls s = Some s' \<and> filed hash prof s' cs' \<and>
    mset (concat cs') = mset (concat cs) + mset (concat ds) \<and> NumBuckets s' = NumBuckets s \<and>
    (\<forall>m. m \<notin> set (concat ds) \<longrightarrow> NextInBucket s' m = NextInBucket s m)"
  using assms
proof (induction ls arbitrary: ds s cs)
  case Nil
  then show ?case by auto
next
  case (Cons l ls)
  obtain ns ds' b where ds: "ds = ns # ds'" "bucket_holds (NextInBucket s) l b ns"
    "list_all2 (\<lambda>l ns. \<exists>b. bucket_holds (NextInBucket s) l b ns) ls ds'"
    using Cons.prems(1) by (auto simp: list_all2_Cons1)
  have parts: "distinct ns" "set ns \<inter> set (concat cs) = {}" "length (concat cs) + length ns \<le> capacity s"
    "distinct (concat ds')" "set ns \<inter> set (concat ds') = {}" "set (concat ds') \<inter> set (concat cs) = {}"
    using Cons.prems(3-5) by (auto simp: ds(1))
  obtain s1 cs1 where s1: "rehash_chain (enter_again (Suc fuel) hash prof) l s = Some s1" "filed hash prof s1 cs1"
    "mset (concat cs1) = mset (concat cs) + mset ns" "NumBuckets s1 = NumBuckets s"
    "\<forall>m. m \<notin> set ns \<longrightarrow> NextInBucket s1 m = NextInBucket s m"
    using rehash_chain_filed[OF ds(2) Cons.prems(2) parts(1-3)] by blast
  have "rehash_chain (enter_again (Suc fuel) hash prof) None s = Some s"
    by (subst rehash_chain.simps) (simp add: GetNextPtr_def)
  then have step: "rehash (enter_again (Suc fuel) hash prof) (l # ls) s = rehash (enter_again (Suc fuel) hash prof) ls s1"
    using s1(1) by (cases l) simp_all
  have keep: "\<exists>b. bucket_holds (NextInBucket s1) l' b ns'"
    if member: "ns' \<in> set ds'" and "\<exists>b. bucket_holds (NextInBucket s) l' b ns'" for l' ns'
  proof -
    have "NextInBucket s1 m = NextInBucket s m" if "m \<in> set ns'" for m
    proof -
      have "m \<in> set (concat ds')" using that member by auto
      then have "m \<notin> set ns" using parts(5) by blast
      then show ?thesis using s1(5) by blast
    qed
    then have "bucket_holds (NextInBucket s1) l' b ns' = bucket_holds (NextInBucket s) l' b ns'" for b
      by (intro bucket_holds_cong) blast
    then show ?thesis using that(2) by blast
  qed
  have rest: "list_all2 (\<lambda>l ns. \<exists>b. bucket_holds (NextInBucket s1) l b ns) ls ds'"
    by (rule list.rel_mono_strong[OF ds(3)], rule keep, assumption+)
  have size: "length (concat cs1) = length (concat cs) + length ns" using arg_cong[OF s1(3), of size] by simp
  have "set (concat cs1) = set (concat cs) \<union> set ns"
    using arg_cong[OF s1(3), of set_mset] unfolding set_mset_union set_mset_mset .
  then have disjoint: "set (concat ds') \<inter> set (concat cs1) = {}" using parts(5,6) by auto
  have room: "length (concat cs1) + length (concat ds') \<le> capacity s1"
    using Cons.prems(5) size s1(4) by (simp add: ds(1) capacity_def)
  obtain s' cs' where "rehash (enter_again (Suc fuel) hash prof) ls s1 = Some s'" "filed hash prof s' cs'"
    "mset (concat cs') = mset (concat cs1) + mset (concat ds')" "NumBuckets s' = NumBuckets s1"
    "\<forall>m. m \<notin> set (concat ds') \<longrightarrow> NextInBucket s' m = NextInBucket s1 m"
    using Cons.IH[OF rest s1(2) parts(4) disjoint room] by blast
  then show ?case
    using step s1(3-5) by (intro exI[of _ s'] exI[of _ cs']) (auto simp: ds(1))
qed

text \<open>An empty table, of any size that the code allows.\<close>

lemma empty_filed:
  assumes "k < 32" "Buckets s = AllocateBuckets (2 ^ k)" "NumBuckets s = 2 ^ k" "NumNodes s = 0"
  shows "filed hash prof s (replicate (2 ^ k) [])"
  using assms by (auto simp: filed_def AllocateBuckets_def bucket_holds_def nth_append)

lemma isPowerOf2_32_power: "k < 32 \<Longrightarrow> isPowerOf2_32 (2 ^ k)"
proof -
  assume k: "k < 32"
  have "(2 ^ k :: 32 word) AND (2 ^ k - 1) = take_bit k (2 ^ k)"
    by (simp add: take_bit_eq_mask mask_eq_exp_minus_1)
  then show ?thesis using k by (simp add: isPowerOf2_32_def take_bit_eq_mod)
qed

lemma labelled_distinct:
  "\<forall>b < length cs. distinct (cs ! b) \<and> (\<forall>n \<in> set (cs ! b). f n = k + b) \<Longrightarrow>
    distinct (concat cs) \<and> (\<forall>n \<in> set (concat cs). k \<le> f n)"
proof (induction cs arbitrary: k)
  case (Cons c cs)
  have c: "distinct c" "\<forall>n \<in> set c. f n = k" using Cons.prems by force+
  have "\<forall>b < length cs. distinct (cs ! b) \<and> (\<forall>n \<in> set (cs ! b). f n = Suc k + b)" using Cons.prems by force
  from Cons.IH[OF this] have "distinct (concat cs)" "\<forall>n \<in> set (concat cs). Suc k \<le> f n" by blast+
  then show ?case using c by fastforce
qed simp

lemma filed_distinct: "filed hash prof s cs \<Longrightarrow> distinct (concat cs)"
  using labelled_distinct[of cs "\<lambda>n. GetBucketFor (hash (prof n)) (NumBuckets s)" 0] filedD(4,7,8)[of hash prof s cs] by auto

lemma GrowBucketCount_filed:
  assumes filed: "filed hash prof s cs" and "NumBuckets s < 2 ^ k" "k < 31"
  shows "\<exists>s' cs'. GrowBucketCount (enter_again (Suc fuel) hash prof) (2 ^ k) s = Some s' \<and> filed hash prof s' cs' \<and>
    mset (concat cs') = mset (concat cs) \<and> NumBuckets s' = 2 ^ k \<and>
    (\<forall>m. m \<notin> set (concat cs) \<longrightarrow> NextInBucket s' m = NextInBucket s m)"
proof -
  let ?s = "s\<lparr>Buckets := AllocateBuckets (2 ^ k), NumBuckets := 2 ^ k, NumNodes := 0\<rparr>"
  let ?ls = "take (NumBuckets s) (Buckets s)"
  note D = filedD[OF filed]
  have "list_all2 (\<lambda>l ns. \<exists>b. bucket_holds (NextInBucket ?s) l b ns) ?ls cs"
    using D(4-6) by (auto simp: list_all2_conv_all_nth)
  moreover have "filed hash prof ?s (replicate (2 ^ k) [])" using assms(3) by (intro empty_filed) simp_all
  moreover have "distinct (concat cs)" using filed_distinct[OF filed] .
  moreover have "set (concat cs) \<inter> set (concat (replicate (2 ^ k) [])) = {}" by simp
  moreover have "length (concat (replicate (2 ^ k) [])) + length (concat cs) \<le> capacity ?s"
  proof -
    have "2 ^ k * 2 < (2 ^ 32 :: nat)" using assms(3) power_strict_increasing[of "Suc k" 32 "2 :: nat"] by simp
    then have "capacity ?s = 2 ^ k * 2" by (simp add: capacity_def)
    moreover have "length (concat cs) \<le> NumBuckets s * 2"
      using filed mod_less_eq_dividend[of "NumBuckets s * 2" "2 ^ 32"] unfolding filed_def capacity_def by linarith
    ultimately show ?thesis using assms(2) by simp
  qed
  ultimately show ?thesis
    using rehash_filed[of ?s ?ls cs hash prof "replicate (2 ^ k) []" fuel] assms(2,3) isPowerOf2_32_power[of k]
    by (auto simp: GrowBucketCount_def)
qed


lemma link_node_holds:
  assumes filed: "filed hash prof s cs" and "n \<notin> set (concat cs)" "length (concat cs) < capacity s"
    and "\<forall>m. m \<notin> set (concat cs) \<longrightarrow> NextInBucket s m = None"
  shows "\<exists>cs'. holds_nodes hash prof (link_node n (GetBucketFor (hash (prof n)) (NumBuckets s)) s) cs' \<and>
    mset (concat cs') = add_mset n (mset (concat cs))"
proof -
  let ?b = "GetBucketFor (hash (prof n)) (NumBuckets s)"
  have "?b < length cs" using filedD(3,4)[OF filed] by simp
  note contents = contents_update[OF this, of n]
  have "NextInBucket (link_node n ?b s) m = None" if "m \<notin> insert n (set (concat cs))" for m
    using that assms(4) by simp
  then have "holds_nodes hash prof (link_node n ?b s) (cs[?b := n # cs ! ?b])"
    using link_node_filed[OF filed refl assms(2,3)] unfolding holds_nodes_def contents by blast
  then show ?thesis using contents(1) by blast
qed

text \<open>With the fuel for one growth, insertion ends and adds the node, as long as there is room to grow.\<close>

lemma fs_InsertNode_holds:
  assumes holds: "holds_nodes hash prof s cs" and new: "n \<notin> set (concat cs)"
    and b: "b = GetBucketFor (hash (prof n)) (NumBuckets s)" and small: "NumBuckets s < 2 ^ 30"
  shows "\<exists>s' cs'. fs_InsertNode (Suc (Suc fuel)) hash prof n b s = Some s' \<and> holds_nodes hash prof s' cs' \<and>
    mset (concat cs') = add_mset n (mset (concat cs)) \<and> NumBuckets s' \<le> max (NumBuckets s) (NumNodes s)"
proof -
  have filed: "filed hash prof s cs" and null: "NextInBucket s n = None"
    and others: "\<forall>m. m \<notin> set (concat cs) \<longrightarrow> NextInBucket s m = None"
    using holds new by (auto simp: holds_nodes_def)
  have nodes: "NumNodes s = length (concat cs)" "length (concat cs) \<le> capacity s" using filed by (simp_all add: filed_def)
  show ?thesis
  proof (cases "NumNodes s < capacity s")
    case True
    then show ?thesis
      using link_node_holds[OF filed new _ others] fs_InsertNode_room[OF null True] b nodes(1) by auto
  next
    case False
    then have full: "NumNodes s = capacity s" using nodes by simp
    obtain k where k: "NumBuckets s = 2 ^ k" using filed by (auto simp: filed_def)
    then have "(2 :: nat) ^ k < 2 ^ 30" using small by simp
    then have "k < 30" by (rule power_less_imp_less_exp[rotated]) simp
    then have grow: "NumBuckets s < 2 ^ Suc k" "Suc k < 31" using k by simp_all
    obtain s1 cs1 where s1: "GrowBucketCount (enter_again (Suc fuel) hash prof) (2 ^ Suc k) s = Some s1"
      "filed hash prof s1 cs1" "mset (concat cs1) = mset (concat cs)" "NumBuckets s1 = 2 ^ Suc k"
      "\<forall>m. m \<notin> set (concat cs) \<longrightarrow> NextInBucket s1 m = NextInBucket s m"
      using GrowBucketCount_filed[OF filed grow, of fuel] by blast
    have limit: "(2 :: nat) ^ Suc (Suc k) < 2 ^ 32" using grow(2) by (intro power_strict_increasing) simp_all
    then have sizes: "NumBuckets s * 2 mod 2 ^ 32 = 2 ^ Suc k" "capacity s1 = 2 ^ Suc (Suc k)" "capacity s = 2 ^ Suc k"
      using k s1(4) by (simp_all add: capacity_def)
    have "length (concat cs1) = NumNodes s" using arg_cong[OF s1(3), of size] nodes(1) by simp
    then have room: "length (concat cs1) < capacity s1" unfolding full sizes(2,3) by simp
    have same: "set (concat cs1) = set (concat cs)" using arg_cong[OF s1(3), of set_mset] unfolding set_mset_mset .
    obtain cs' where cs': "holds_nodes hash prof (link_node n (GetBucketFor (hash (prof n)) (NumBuckets s1)) s1) cs'"
      "mset (concat cs') = add_mset n (mset (concat cs))"
      using link_node_holds[OF s1(2) _ room, of n] new others s1(3,5) unfolding same by auto
    have "GrowHashTable (enter_again (Suc fuel) hash prof) s = Some s1" using s1(1) by (simp only: GrowHashTable_def sizes(1))
    moreover have "(NumNodes s + 1) mod 2 ^ 32 > capacity s" using full sizes(3) limit by simp
    ultimately have "fs_InsertNode (Suc (Suc fuel)) hash prof n b s =
        Some (link_node n (GetBucketFor (hash (prof n)) (NumBuckets s1)) s1)"
      using null by (simp add: fs_InsertNode.simps(2)[of "Suc fuel"])
    moreover have "NumBuckets s1 \<le> NumNodes s" using s1(4) full sizes(3) by simp
    ultimately show ?thesis using cs' by (intro exI[of _ "link_node n (GetBucketFor (hash (prof n)) (NumBuckets s1)) s1"]) auto
  qed
qed


subsection \<open>Removing a node\<close>

lemma chase_nodes:
  "chain (NextInBucket s) l ys (Some (BucketLink b)) \<Longrightarrow> n \<notin> set ys \<Longrightarrow> chase n next' l s = chase n next' (Some (BucketLink b)) s"
proof (induction ys arbitrary: l)
  case (Cons y ys)
  have "NextInBucket s y \<noteq> Some (NodeLink n)" using Cons.prems by (cases ys) auto
  then have "chase n next' (Some (NodeLink y)) s = chase n next' (NextInBucket s y) s"
    by (subst chase.simps) (simp add: GetNextPtr_def)
  then show ?case using Cons.IH[of "NextInBucket s y"] Cons.prems by simp
qed simp

lemma chase_found:
  "chain (NextInBucket s) l (x # xs) (Some (NodeLink n)) \<Longrightarrow> n \<notin> set (x # xs) \<Longrightarrow>
    chase n next' l s = Some (SetNextInBucket (last (x # xs)) next' s)"
proof (induction xs arbitrary: x l)
  case Nil
  then show ?case by (subst chase.simps) (simp add: GetNextPtr_def)
next
  case (Cons y ys)
  have "NextInBucket s x = Some (NodeLink y)" "y \<noteq> n" "l = Some (NodeLink x)" using Cons.prems by auto
  moreover from this have "chase n next' l s = chase n next' (NextInBucket s x) s"
    by (subst chase.simps) (simp add: GetNextPtr_def)
  ultimately show ?case using Cons.IH[of "NextInBucket s x" y] Cons.prems by simp
qed

lemma chase_bucket:
  assumes "chain (NextInBucket s) (Buckets s ! b) xs (Some (NodeLink n))" "n \<notin> set xs"
  shows "chase n next' (Some (BucketLink b)) s =
    Some (if xs = [] then set_bucket b next' s else SetNextInBucket (last xs) next' s)"
proof (cases xs)
  case Nil
  then show ?thesis using assms(1) by (subst chase.simps) (simp add: GetNextPtr_def GetBucketPtr_def)
next
  case (Cons x ys)
  then have "Buckets s ! b \<noteq> Some (NodeLink n)" using assms by auto
  then have "chase n next' (Some (BucketLink b)) s = chase n next' (Buckets s ! b) s"
    by (subst chase.simps) (simp add: GetNextPtr_def GetBucketPtr_def)
  then show ?thesis using chase_found[of s "Buckets s ! b" x ys n next'] assms Cons by simp
qed

lemma chain_relink:
  assumes "chain nx l xs m" "xs \<noteq> []" "distinct xs"
  shows "chain (nx(last xs := e)) l xs e"
proof -
  obtain ys x where xs: "xs = ys @ [x]" using assms(2) by (metis append_butlast_last_id)
  then have "x \<notin> set ys" using assms(3) by simp
  then show ?thesis using assms(1) by (auto simp: xs chain_append)
qed

lemma concat_remove1:
  assumes "b < length cs" "n \<in> set (cs ! b)" "\<And>c. c < b \<Longrightarrow> n \<notin> set (cs ! c)"
  shows "concat (cs[b := remove1 n (cs ! b)]) = remove1 n (concat cs)"
  using assms
proof (induction cs arbitrary: b)
  case (Cons c cs)
  show ?case
  proof (cases b)
    case 0
    then show ?thesis using Cons.prems(2) by (simp add: remove1_append)
  next
    case (Suc d)
    have "n \<notin> set c" using Cons.prems(3)[of 0] Suc by simp
    then show ?thesis using Cons.IH[of d] Cons.prems(1,2) Cons.prems(3)[of "Suc _"] Suc by (simp add: remove1_append)
  qed
qed simp

lemma unlink_result:
  assumes holds: "holds_nodes hash prof s cs" and b: "b < NumBuckets s" and split: "cs ! b = xs @ n # ys"
  shows "\<exists>s'. fs_RemoveNode n s = Some (True, s') \<and> NumNodes s' = (NumNodes s + 2 ^ 32 - 1) mod 2 ^ 32 \<and>
    NumBuckets s' = NumBuckets s \<and> length (Buckets s') = length (Buckets s) \<and>
    (\<forall>c \<noteq> b. Buckets s' ! c = Buckets s ! c) \<and> chain (NextInBucket s') (Buckets s' ! b) (xs @ ys) (Some (BucketLink b)) \<and>
    NextInBucket s' n = None \<and> (\<forall>m. m \<noteq> n \<longrightarrow> m \<notin> set xs \<longrightarrow> NextInBucket s' m = NextInBucket s m)"
proof -
  have filed: "filed hash prof s cs" using holds by (simp add: holds_nodes_def)
  note D = filedD[OF filed]
  have dist: "distinct (xs @ n # ys)" using D(7)[OF b] by (simp add: split)
  have "chain (NextInBucket s) (Buckets s ! b) (xs @ n # ys) (Some (BucketLink b))"
    using D(6)[OF b] by (auto simp: split bucket_holds_def)
  then have chains: "chain (NextInBucket s) (Buckets s ! b) xs (Some (NodeLink n))"
    "chain (NextInBucket s) (NextInBucket s n) ys (Some (BucketLink b))"
    by (auto simp: chain_append)
  obtain l where l: "NextInBucket s n = Some l" using chains(2) by (cases "NextInBucket s n") auto
  obtain u where u: "u = SetNextInBucket n None (s\<lparr>NumNodes := (NumNodes s + 2 ^ 32 - 1) mod 2 ^ 32\<rparr>)" by blast
  have s: "NextInBucket u = (NextInBucket s)(n := None)" "Buckets u = Buckets s" "NumBuckets u = NumBuckets s"
    "NumNodes u = (NumNodes s + 2 ^ 32 - 1) mod 2 ^ 32"
    by (simp_all add: u SetNextInBucket_def)
  have kept: "chain (NextInBucket u) (Buckets s ! b) xs (Some (NodeLink n))" "chain (NextInBucket u) (Some l) ys (Some (BucketLink b))"
    using chains dist l by (simp_all add: s)
  let ?s' = "if xs = [] then set_bucket b (Some l) u else SetNextInBucket (last xs) (Some l) u"
  have "chase n (Some l) (Some l) u = Some ?s'"
    using chase_nodes[OF kept(2), of n] chase_bucket[of u b xs n "Some l"] kept(1) dist by (simp add: s)
  then have "fs_RemoveNode n s = Some (True, ?s')" unfolding fs_RemoveNode_def l option.case u[symmetric] by simp
  moreover have "chain (NextInBucket ?s') (Buckets ?s' ! b) (xs @ ys) (Some (BucketLink b))"
  proof (cases "xs = []")
    case True
    then show ?thesis using kept(2) b D(5) by (simp add: set_bucket_def s)
  next
    case False
    then have last: "last xs \<notin> set ys" using dist by (auto dest: last_in_set)
    have "chain (NextInBucket ?s') (Buckets s ! b) xs (Some l)"
      using chain_relink[OF kept(1) False] dist False by (simp add: SetNextInBucket_def)
    moreover have "chain (NextInBucket ?s') (Some l) ys (Some (BucketLink b))"
      using kept(2) last False by (simp add: SetNextInBucket_def)
    ultimately show ?thesis using False by (auto simp: chain_append s SetNextInBucket_def)
  qed
  moreover have "NextInBucket ?s' n = None" using dist s by (auto simp: SetNextInBucket_def set_bucket_def dest: last_in_set)
  moreover have "NextInBucket ?s' m = NextInBucket s m" if "m \<noteq> n" "m \<notin> set xs" for m
    using that s(1) by (auto simp: SetNextInBucket_def set_bucket_def)
  ultimately show ?thesis by (intro exI[of _ ?s']) (simp add: s SetNextInBucket_def set_bucket_def)
qed


lemma fs_RemoveNode_holds:
  assumes holds: "holds_nodes hash prof s cs" and member: "n \<in> set (concat cs)"
  shows "\<exists>s' cs'. fs_RemoveNode n s = Some (True, s') \<and> holds_nodes hash prof s' cs' \<and>
    concat cs' = remove1 n (concat cs) \<and> NumBuckets s' = NumBuckets s"
proof -
  have filed: "filed hash prof s cs" using holds by (simp add: holds_nodes_def)
  note D = filedD[OF filed]
  let ?b = "GetBucketFor (hash (prof n)) (NumBuckets s)"
  have b: "?b < NumBuckets s" using D(3) .
  have "n \<in> set (cs ! ?b)" using in_concat_bucket[OF filed] member by blast
  then obtain xs ys where split: "cs ! ?b = xs @ n # ys" by (meson split_list)
  then have dist: "n \<notin> set xs" "n \<notin> set ys" "distinct (xs @ ys)" using D(7)[OF b] by auto
  then have left: "remove1 n (cs ! ?b) = xs @ ys" by (simp add: split remove1_append)
  obtain s' where s': "fs_RemoveNode n s = Some (True, s')" "NumNodes s' = (NumNodes s + 2 ^ 32 - 1) mod 2 ^ 32"
    "NumBuckets s' = NumBuckets s" "length (Buckets s') = length (Buckets s)"
    "\<forall>c \<noteq> ?b. Buckets s' ! c = Buckets s ! c" "chain (NextInBucket s') (Buckets s' ! ?b) (xs @ ys) (Some (BucketLink ?b))"
    "NextInBucket s' n = None" "\<forall>m. m \<noteq> n \<longrightarrow> m \<notin> set xs \<longrightarrow> NextInBucket s' m = NextInBucket s m"
    using unlink_result[OF holds b split] by blast
  let ?cs = "cs[?b := remove1 n (cs ! ?b)]"
  have elsewhere: "n \<notin> set (cs ! c)" if "c < NumBuckets s" "c \<noteq> ?b" for c using D(8)[OF that(1)] that(2) by blast
  have contents: "concat ?cs = remove1 n (concat cs)"
    using concat_remove1[of ?b cs n] b D(4) \<open>n \<in> set (cs ! ?b)\<close> elsewhere by simp
  have size: "length (concat cs) = Suc (length (remove1 n (concat cs)))"
    using length_pos_if_in_set[OF member] member by (simp add: length_remove1 del: length_concat)
  have numbers: "NumNodes s = length (concat cs)" "length (concat cs) \<le> capacity s" "capacity s' = capacity s"
    using filed s'(3) by (simp_all add: filed_def capacity_def)
  have bucket: "bucket_holds (NextInBucket s') (Buckets s' ! c) c (?cs ! c) \<and> distinct (?cs ! c) \<and>
      (\<forall>m \<in> set (?cs ! c). GetBucketFor (hash (prof m)) (NumBuckets s) = c)" if c: "c < NumBuckets s" for c
  proof (cases "c = ?b")
    case True
    have "set (xs @ ys) \<subseteq> set (cs ! ?b)" by (auto simp: split)
    then have "\<forall>m \<in> set (xs @ ys). GetBucketFor (hash (prof m)) (NumBuckets s) = ?b" using D(8)[OF b] by blast
    moreover have "?cs ! c = xs @ ys" using True b D(4) left by simp
    moreover have "bucket_holds (NextInBucket s') (Buckets s' ! ?b) ?b (xs @ ys)"
      using s'(6) unfolding bucket_holds_def by blast
    ultimately show ?thesis using dist(3) True by (elim ssubst) simp
  next
    case False
    have "NextInBucket s' m = NextInBucket s m" if m: "m \<in> set (cs ! c)" for m
    proof -
      have "m \<notin> set xs" using D(8)[OF c m] D(8)[OF b, of m] False by (auto simp: split)
      moreover have "m \<noteq> n" using elsewhere[OF c False] m by blast
      ultimately show ?thesis using s'(8) by blast
    qed
    then have "bucket_holds (NextInBucket s') (Buckets s ! c) c (cs ! c)"
      using D(6)[OF c] bucket_holds_cong[of "cs ! c" "NextInBucket s'" "NextInBucket s"] by blast
    then show ?thesis using D(7,8)[OF c] s'(5) False by simp
  qed
  have "filed hash prof s' ?cs"
  proof -
    have "NumNodes s' = length (concat ?cs)"
      using numbers size capacity_less[of s] unfolding s'(2) contents by (simp del: length_concat)
    moreover have "length (concat ?cs) \<le> capacity s'" using numbers size unfolding contents by (simp del: length_concat)
    moreover have "Buckets s' ! NumBuckets s = Some EndMark" using filed s'(5) b by (simp add: filed_def)
    moreover have "\<exists>k < 32. NumBuckets s = 2 ^ k" "length (Buckets s) = Suc (NumBuckets s)" "length ?cs = NumBuckets s"
      using filed by (simp_all add: filed_def)
    ultimately show ?thesis using bucket unfolding filed_def s'(3,4) by blast
  qed
  moreover have "NextInBucket s' m = None" if "m \<notin> set (concat ?cs)" for m
  proof (cases "m = n")
    case False
    then have "m \<notin> set (concat cs)" using that unfolding contents by (simp add: in_set_remove1)
    then have "NextInBucket s m = None" "m \<notin> set xs"
      using holds in_concat_bucket[OF filed] b D(4) nth_mem[of ?b cs] by (auto simp: holds_nodes_def split)
    then show ?thesis using s'(8) False by simp
  qed (use s'(7) in simp)
  ultimately have "holds_nodes hash prof s' ?cs" by (simp add: holds_nodes_def)
  then show ?thesis using s'(1,3) contents by blast
qed

subsection \<open>Visiting all nodes\<close>

lemma iterate_chain:
  "chain (NextInBucket s) (Some (NodeLink n)) (n # ns) (Some (BucketLink b)) \<Longrightarrow>
    iterate_from s (NodeLink n) = map_option (\<lambda>r. n # ns @ r) (Option.bind (skip_buckets s (Suc b)) (iterate_from s))"
proof (induction ns arbitrary: n)
  case Nil
  then show ?case
    by (subst iterate_from.simps)
      (simp add: iterator_advance_def GetNextPtr_def GetBucketPtr_def map_conv_bind_option comp_def)
next
  case (Cons m ms)
  then have link: "NextInBucket s n = Some (NodeLink m)" by simp
  have "iterate_from s (NodeLink n) = map_option (\<lambda>r. n # r) (iterate_from s (NodeLink m))"
    by (subst iterate_from.simps) (simp add: iterator_advance_def GetNextPtr_def link map_conv_bind_option comp_def)
  then show ?case using Cons.IH[of m] Cons.prems link by (simp add: option.map_comp comp_def)
qed

lemma iterate_buckets:
  assumes "filed hash prof s cs" "b \<le> NumBuckets s"
  shows "Option.bind (skip_buckets s b) (iterate_from s) = Some (concat (drop b cs))"
  using assms(2)
proof (induction "NumBuckets s - b" arbitrary: b)
  case 0
  then show ?case
    using assms(1) by (subst skip_buckets.simps) (simp add: filed_def iterate_from.simps)
next
  case (Suc k)
  note D = filedD[OF assms(1)]
  have b: "b < NumBuckets s" using Suc.hyps(2) by simp
  have rest: "Option.bind (skip_buckets s (Suc b)) (iterate_from s) = Some (concat (drop (Suc b) cs))"
    using Suc.hyps b by simp
  have drop: "drop b cs = cs ! b # drop (Suc b) cs" using b D(4) by (simp add: Cons_nth_drop_Suc)
  show ?case
  proof (cases "cs ! b")
    case Nil
    then have "GetNextPtr (Buckets s ! b) = None" "Buckets s ! b \<noteq> Some EndMark"
      using D(6)[OF b] by (auto simp: bucket_holds_def GetNextPtr_def)
    then show ?thesis using rest b D(5) by (subst skip_buckets.simps) (simp add: drop Nil)
  next
    case (Cons n ns)
    then have "chain (NextInBucket s) (Buckets s ! b) (n # ns) (Some (BucketLink b))"
      using D(6)[OF b] by (auto simp: bucket_holds_def)
    moreover from this have "Buckets s ! b = Some (NodeLink n)" by simp
    ultimately show ?thesis
      using iterate_chain[of s n ns b] rest b D(5) by (subst skip_buckets.simps) (simp add: GetNextPtr_def drop Cons)
  qed
qed

lemma iterate_holds: "filed hash prof s cs \<Longrightarrow> iterate s = Some (concat cs)"
  using iterate_buckets[of hash prof s cs 0] by (simp add: iterate_def iterator_begin_def)

end
