(* ===== verification/FoldingSetMaps.thy ===== *)
theory FoldingSetMaps
  imports FoldingSetOps
begin

text \<open>
  What the users of a folding set rely on: for any sequence of operations it is a map from
  identities to nodes. Then the limits of its size, and that the bits of an identity tell the
  strings in it apart.
\<close>

subsection \<open>A map from identities to nodes\<close>

text \<open>The operations with their answers.\<close>

datatype fs_op = Find node_id | Enter fs_node | Remove fs_node | Reserve nat

datatype fs_answer = Found "fs_node option" | Entered fs_node | Removed bool | Reserved

fun perform ::
  "nat \<Rightarrow> (node_id \<Rightarrow> 32 word) \<Rightarrow> (fs_node \<Rightarrow> node_id) \<Rightarrow> fs_op \<Rightarrow> folding_set \<Rightarrow> (fs_answer \<times> folding_set) option"
where
  "perform fuel hash prof (Find i) s = map_option (\<lambda>r. (Found (fst r), s)) (FindNodeOrInsertPos hash prof i s)"
| "perform fuel hash prof (Enter n) s = map_option (\<lambda>(m, s'). (Entered m, s')) (GetOrInsertNode fuel hash prof n s)"
| "perform fuel hash prof (Remove n) s = map_option (\<lambda>(b, s'). (Removed b, s')) (fs_RemoveNode n s)"
| "perform fuel hash prof (Reserve c) s = map_option (Pair Reserved) (fs_reserve fuel hash prof c s)"

fun perform_all ::
  "nat \<Rightarrow> (node_id \<Rightarrow> 32 word) \<Rightarrow> (fs_node \<Rightarrow> node_id) \<Rightarrow> fs_op list \<Rightarrow> folding_set \<Rightarrow> (fs_answer list \<times> folding_set) option"
where
  "perform_all fuel hash prof [] s = Some ([], s)"
| "perform_all fuel hash prof (p # ps) s =
     Option.bind (perform fuel hash prof p s)
       (\<lambda>(a, s'). map_option (\<lambda>(as, s''). (a # as, s'')) (perform_all fuel hash prof ps s'))"

text \<open>The abstract state has a node for an identity, and it is a node with that identity.\<close>

fun map_step :: "(fs_node \<Rightarrow> node_id) \<Rightarrow> fs_op \<Rightarrow> (node_id \<rightharpoonup> fs_node) \<Rightarrow> fs_answer \<times> (node_id \<rightharpoonup> fs_node)" where
  "map_step prof (Find i) M = (Found (M i), M)"
| "map_step prof (Enter n) M =
     (case M (prof n) of Some e \<Rightarrow> (Entered e, M) | None \<Rightarrow> (Entered n, M(prof n \<mapsto> n)))"
| "map_step prof (Remove n) M =
     (if M (prof n) = Some n then (Removed True, M(prof n := None)) else (Removed False, M))"
| "map_step prof (Reserve c) M = (Reserved, M)"

fun map_steps :: "(fs_node \<Rightarrow> node_id) \<Rightarrow> fs_op list \<Rightarrow> (node_id \<rightharpoonup> fs_node) \<Rightarrow> fs_answer list \<times> (node_id \<rightharpoonup> fs_node)" where
  "map_steps prof [] M = ([], M)"
| "map_steps prof (p # ps) M =
     (let (a, M1) = map_step prof p M; (as, M2) = map_steps prof ps M1 in (a # as, M2))"

definition represents ::
  "(node_id \<Rightarrow> 32 word) \<Rightarrow> (fs_node \<Rightarrow> node_id) \<Rightarrow> folding_set \<Rightarrow> (node_id \<rightharpoonup> fs_node) \<Rightarrow> bool"
where
  "represents hash prof s M \<longleftrightarrow>
     (\<exists>cs. holds_nodes hash prof s cs \<and> (\<forall>i n. M i = Some n \<longleftrightarrow> n \<in> set (concat cs) \<and> prof n = i))"

lemma represents_find:
  assumes "holds_nodes hash prof s cs" "\<forall>i n. M i = Some n \<longleftrightarrow> n \<in> set (concat cs) \<and> prof n = i"
  shows "FindNodeOrInsertPos hash prof i s =
    Some (case M i of Some n \<Rightarrow> (Some n, None) | None \<Rightarrow> (None, Some (GetBucketFor (hash i) (NumBuckets s))))"
proof -
  have filed: "filed hash prof s cs" using assms(1) by (simp add: holds_nodes_def)
  have "List.find (\<lambda>n. prof n = i) (concat cs) = M i"
  proof (cases "List.find (\<lambda>n. prof n = i) (concat cs)")
    case None
    then have "M i \<noteq> Some n" for n using assms(2) unfolding find_None_iff by blast
    then show ?thesis using None by (metis option.exhaust)
  next
    case (Some n)
    then obtain k where "k < length (concat cs)" "prof (concat cs ! k) = i" "n = concat cs ! k"
      unfolding find_Some_iff by blast
    then have "n \<in> set (concat cs)" "prof n = i" using nth_mem by blast+
    then have "M i = Some n" using assms(2) by blast
    then show ?thesis using Some by simp
  qed
  then show ?thesis using FindNodeOrInsertPos_holds[OF filed] by simp
qed

lemma power_of_2_floor_bounds: "0 < n \<Longrightarrow> \<exists>k. power_of_2_floor n = 2 ^ k \<and> 2 ^ k \<le> n \<and> n < 2 * 2 ^ k"
proof (induction n rule: power_of_2_floor.induct)
  case (1 n)
  show ?case
  proof (cases "n \<le> 1")
    case True
    then show ?thesis using "1.prems" by (intro exI[of _ 0]) (simp add: power_of_2_floor.simps)
  next
    case False
    then obtain k where "power_of_2_floor (n div 2) = 2 ^ k" "2 ^ k \<le> n div 2" "n div 2 < 2 * 2 ^ k"
      using "1.IH" by auto
    moreover have "2 * (n div 2) \<le> n" "n < 2 * (n div 2) + 2" by simp_all
    ultimately have "2 * 2 ^ k \<le> n" "n < 2 * (2 * 2 ^ k)" by linarith+
    then show ?thesis using False \<open>power_of_2_floor (n div 2) = 2 ^ k\<close>
      by (intro exI[of _ "Suc k"]) (simp add: power_of_2_floor.simps[of n])
  qed
qed

lemma fs_reserve_holds:
  assumes holds: "holds_nodes hash prof s cs" and small: "NumBuckets s < 2 ^ 30" "c < 2 ^ 30"
  shows "\<exists>s' cs'. fs_reserve (Suc fuel) hash prof c s = Some s' \<and> holds_nodes hash prof s' cs' \<and>
    mset (concat cs') = mset (concat cs) \<and> NumBuckets s' < 2 ^ 30"
proof (cases "c < capacity s")
  case True
  then show ?thesis using holds small(1) by (auto simp: fs_reserve_def)
next
  case False
  have filed: "filed hash prof s cs" using holds by (simp add: holds_nodes_def)
  have large: "NumBuckets s * 2 \<le> c" using False small(1) by (simp add: capacity_def)
  then have "0 < c" using filedD(1)[OF filed] by linarith
  then obtain k where k: "power_of_2_floor c = 2 ^ k" "2 ^ k \<le> c" "c < 2 * 2 ^ k" using power_of_2_floor_bounds by blast
  then have "(2 :: nat) ^ k < 2 ^ 30" using small(2) by linarith
  then have "k < 30" by (rule power_less_imp_less_exp[rotated]) simp
  then obtain s' cs' where s': "GrowBucketCount (enter_again (Suc fuel) hash prof) (2 ^ k) s = Some s'" "filed hash prof s' cs'"
    "mset (concat cs') = mset (concat cs)" "NumBuckets s' = 2 ^ k" "\<forall>m. m \<notin> set (concat cs) \<longrightarrow> NextInBucket s' m = NextInBucket s m"
    using GrowBucketCount_filed[OF filed, of k fuel] large k(3) by auto
  have "set (concat cs') = set (concat cs)" using arg_cong[OF s'(3), of set_mset] unfolding set_mset_mset .
  then have "holds_nodes hash prof s' cs'" using s'(2,5) holds unfolding holds_nodes_def by metis
  then show ?thesis using s'(1,3,4) False k(1) \<open>(2 :: nat) ^ k < 2 ^ 30\<close> by (auto simp: fs_reserve_def)
qed

lemma perform_represents:
  assumes "represents hash prof s M" "NumBuckets s < 2 ^ 30" "NumNodes s < 2 ^ 30" "\<forall>c. p = Reserve c \<longrightarrow> c < 2 ^ 30"
  shows "\<exists>s'. perform (Suc (Suc fuel)) hash prof p s = Some (fst (map_step prof p M), s') \<and>
    represents hash prof s' (snd (map_step prof p M)) \<and> NumBuckets s' < 2 ^ 30 \<and> NumNodes s' \<le> Suc (NumNodes s)"
proof -
  obtain cs where cs: "holds_nodes hash prof s cs" and M: "\<forall>i n. M i = Some n \<longleftrightarrow> n \<in> set (concat cs) \<and> prof n = i"
    using assms(1) by (auto simp: represents_def)
  note find = represents_find[OF cs M]
  have nodes: "holds_nodes hash prof t ds \<Longrightarrow> NumNodes t = size (mset (concat ds))" for t ds
    by (simp add: holds_nodes_def filed_def)
  show ?thesis
  proof (cases p)
    case (Find i)
    then show ?thesis using find[of i] assms(1,2) by (auto split: option.split)
  next
    case (Enter n)
    show ?thesis
    proof (cases "M (prof n)")
      case (Some e)
      then show ?thesis using find[of "prof n"] assms(1,2) Enter by (simp add: GetOrInsertNode_def)
    next
      case None
      then have new: "n \<notin> set (concat cs)" using M by (metis option.distinct(1))
      obtain s' cs' where s': "fs_InsertNode (Suc (Suc fuel)) hash prof n (GetBucketFor (hash (prof n)) (NumBuckets s)) s = Some s'"
        "holds_nodes hash prof s' cs'" "mset (concat cs') = add_mset n (mset (concat cs))"
        "NumBuckets s' \<le> max (NumBuckets s) (NumNodes s)"
        using fs_InsertNode_holds[OF cs new refl assms(2), of fuel] by blast
      have "set (concat cs') = insert n (set (concat cs))"
        using arg_cong[OF s'(3), of set_mset] unfolding set_mset_mset set_mset_add_mset_insert .
      moreover have "prof m \<noteq> prof n" if "m \<in> set (concat cs)" for m using that M None by (metis option.distinct(1))
      ultimately have "\<forall>i m. (M(prof n \<mapsto> n)) i = Some m \<longleftrightarrow> m \<in> set (concat cs') \<and> prof m = i" using M by auto
      then have "represents hash prof s' (M(prof n \<mapsto> n))"
        using s'(2) unfolding represents_def by blast
      moreover have "NumNodes s' = Suc (NumNodes s)" using nodes[OF cs] nodes[OF s'(2)] s'(3) by simp
      ultimately show ?thesis
        using find[of "prof n"] s'(1,4) assms(2,3) None Enter by (simp add: GetOrInsertNode_def)
    qed
  next
    case (Remove n)
    show ?thesis
    proof (cases "M (prof n) = Some n")
      case True
      then have member: "n \<in> set (concat cs)" using M by blast
      obtain s' cs' where s': "fs_RemoveNode n s = Some (True, s')" "holds_nodes hash prof s' cs'"
        "concat cs' = remove1 n (concat cs)" "NumBuckets s' = NumBuckets s"
        using fs_RemoveNode_holds[OF cs member] by blast
      have "distinct (concat cs)" using cs filed_distinct unfolding holds_nodes_def by blast
      then have set: "set (concat cs') = set (concat cs) - {n}" unfolding s'(3) by (rule set_remove1_eq)
      have "m = n" if "m \<in> set (concat cs)" "prof m = prof n" for m using M that True by (metis option.inject)
      then have "represents hash prof s' (M(prof n := None))"
        unfolding represents_def set using s'(2) M set by (intro exI[of _ cs']) (auto simp del: set_concat)
      moreover have "NumNodes s' \<le> NumNodes s"
        using nodes[OF cs] nodes[OF s'(2)] unfolding s'(3) size_mset by (simp add: length_remove1 del: length_concat)
      ultimately show ?thesis using s'(1,4) assms(2) True Remove by simp
    next
      case False
      then have "n \<notin> set (concat cs)" using M by blast
      then have "fs_RemoveNode n s = Some (False, s)" using cs by (simp add: holds_nodes_def fs_RemoveNode_def)
      then show ?thesis using False Remove assms(1,2) by simp
    qed
  next
    case (Reserve c)
    then have "c < 2 ^ 30" using assms(4) by blast
    then obtain s' cs' where s': "fs_reserve (Suc (Suc fuel)) hash prof c s = Some s'" "holds_nodes hash prof s' cs'"
      "mset (concat cs') = mset (concat cs)" "NumBuckets s' < 2 ^ 30"
      using fs_reserve_holds[OF cs assms(2), of c "Suc fuel"] by blast
    have "set (concat cs') = set (concat cs)" using arg_cong[OF s'(3), of set_mset] unfolding set_mset_mset .
    then have "represents hash prof s' M" unfolding represents_def using s'(2) M by metis
    moreover have "NumNodes s' = NumNodes s" using nodes[OF cs] nodes[OF s'(2)] s'(3) by simp
    ultimately show ?thesis using s'(1,4) Reserve by simp
  qed
qed

lemma represents_iterate:
  assumes "represents hash prof s M"
  shows "\<exists>ns. iterate s = Some ns \<and> distinct ns \<and> set ns = ran M"
proof -
  obtain cs where cs: "holds_nodes hash prof s cs" and M: "\<forall>i n. M i = Some n \<longleftrightarrow> n \<in> set (concat cs) \<and> prof n = i"
    using assms by (auto simp: represents_def)
  have filed: "filed hash prof s cs" using cs by (simp add: holds_nodes_def)
  have "set (concat cs) = ran M" using M unfolding ran_def by blast
  then show ?thesis using iterate_holds[OF filed] filed_distinct[OF filed] by blast
qed

text \<open>
  C27 (refinement): Whatever is looked up, entered, removed and reserved, in whatever order, a folding set
  gives the answers of a map from identities to nodes, and iteration visits the nodes of that map, each
  once; no search, growth, removal or iteration fails to end, up to the size where the number of
  buckets does not fit.
\<close>

theorem folding_set_is_map:
  assumes "represents hash prof s M" "NumBuckets s < 2 ^ 30" "NumNodes s + length ps < 2 ^ 30"
    "\<forall>c. Reserve c \<in> set ps \<longrightarrow> c < 2 ^ 30"
  shows "\<exists>s' ns. perform_all (Suc (Suc fuel)) hash prof ps s = Some (fst (map_steps prof ps M), s') \<and>
    represents hash prof s' (snd (map_steps prof ps M)) \<and>
    iterate s' = Some ns \<and> distinct ns \<and> set ns = ran (snd (map_steps prof ps M))"
  using assms
proof (induction ps arbitrary: s M)
  case Nil
  then show ?case using represents_iterate by simp
next
  case (Cons p ps)
  have "NumNodes s < 2 ^ 30" "\<forall>c. p = Reserve c \<longrightarrow> c < 2 ^ 30" using Cons.prems(3,4) by auto
  then obtain s1 where s1: "perform (Suc (Suc fuel)) hash prof p s = Some (fst (map_step prof p M), s1)"
    "represents hash prof s1 (snd (map_step prof p M))" "NumBuckets s1 < 2 ^ 30" "NumNodes s1 \<le> Suc (NumNodes s)"
    using perform_represents[OF Cons.prems(1,2)] by blast
  have "NumNodes s1 + length ps < 2 ^ 30" "\<forall>c. Reserve c \<in> set ps \<longrightarrow> c < 2 ^ 30"
    using s1(4) Cons.prems(3,4) by simp_all
  from Cons.IH[OF s1(2,3) this] show ?case using s1(1) by (auto simp: split_beta)
qed

subsection \<open>The largest tables\<close>

lemma FoldingSetBase_represents:
  assumes "FoldingSetBase k links = Some s" "\<forall>n. links n = None"
  shows "represents hash prof s Map.empty" "NumNodes s = 0" "NumBuckets s = 2 ^ k"
proof -
  have s: "s = \<lparr>Buckets = AllocateBuckets (2 ^ k), NumBuckets = 2 ^ k, NumNodes = 0, NextInBucket = links\<rparr>" "k < 32"
    using assms(1) by (simp_all add: FoldingSetBase_def split: if_splits)
  then have "filed hash prof s (replicate (2 ^ k) [])" by (intro empty_filed) simp_all
  then have "holds_nodes hash prof s (replicate (2 ^ k) [])" using s(1) assms(2) by (simp add: holds_nodes_def)
  moreover have "set (concat (replicate (2 ^ k) [])) = ({} :: fs_node set)" by simp
  ultimately show "represents hash prof s Map.empty" unfolding represents_def by (metis empty_iff option.distinct(1))
  show "NumNodes s = 0" "NumBuckets s = 2 ^ k" using s(1) by simp_all
qed

text \<open>
  C32 (bounds): A table of the largest size that the constructor accepts cannot take a single node: its
  capacity, twice the number of buckets, is 0 in 32 bits, and so is the size that it would grow to.
\<close>

theorem largest_set_takes_no_node:
  "\<exists>s. FoldingSetBase 31 links = Some s \<and> (\<forall>fuel hash prof n b. fs_InsertNode fuel hash prof n b s = None)"
proof -
  obtain s where s: "FoldingSetBase 31 links = Some s" "NumBuckets s = 2 ^ 31" "NumNodes s = 0"
    by (simp add: FoldingSetBase_def)
  then have "capacity s = 0" "NumBuckets s * 2 mod 2 ^ 32 = 0" by (simp_all add: capacity_def)
  then have "GrowHashTable enter s = None" for enter by (simp add: GrowHashTable_def GrowBucketCount_def)
  then have "fs_InsertNode fuel hash prof n b s = None" for fuel hash prof n b
    using s(3) \<open>capacity s = 0\<close> by (cases fuel) (simp_all add: fs_InsertNode.simps)
  then show ?thesis using s(1) by blast
qed

text \<open>Three nodes, two of them equal, in a table of the default size.\<close>

theorem folding_set_is_map_witness:
  "\<exists>s s'. FoldingSetBase 6 (\<lambda>_. None) = Some s \<and>
    perform_all (Suc (Suc 0)) (\<lambda>i. 0) (\<lambda>n. [of_nat (n div 2)]) [Enter 4, Enter 5, Enter 6, Find [2], Remove 5, Reserve 200, Remove 4, Find [2]] s =
      Some ([Entered 4, Entered 4, Entered 6, Found (Some 4), Removed False, Reserved, Removed True, Found None], s')"
proof -
  obtain s where s: "FoldingSetBase 6 (\<lambda>_. None) = Some s" by (simp add: FoldingSetBase_def)
  let ?hash = "\<lambda>i. 0 :: 32 word" and ?prof = "\<lambda>n. [of_nat (n div 2) :: 32 word]"
  let ?ops = "[Enter 4, Enter 5, Enter 6, Find [2], Remove 5, Reserve 200, Remove 4, Find [2]]"
  have "fst (map_steps ?prof ?ops Map.empty) =
      [Entered 4, Entered 4, Entered 6, Found (Some 4), Removed False, Reserved, Removed True, Found None]"
    by simp
  moreover have "represents ?hash ?prof s Map.empty" "NumBuckets s < 2 ^ 30" "NumNodes s + length ?ops < 2 ^ 30"
    "\<forall>c. Reserve c \<in> set ?ops \<longrightarrow> c < 2 ^ 30"
    using FoldingSetBase_represents[OF s] by simp_all
  ultimately show ?thesis using folding_set_is_map[of ?hash ?prof s Map.empty ?ops 0] s by metis
qed

end
