(* ===== verification/FoldingSetIds.thy ===== *)
theory FoldingSetIds
  imports FoldingSets
begin

text \<open>
  The bits of an identity: what is added to it can be told from what comes after it, so that two
  nodes with the same bits have the same strings, numbers and pointers.
\<close>

subsection \<open>Bytes of a word\<close>

lemma byte_at_byte: "take_bit 8 (byte_at s i) = byte_at s i"
proof -
  have "of_char (s ! i) < (2 ^ 8 :: nat)" using nat_of_char_less_256[of "s ! i"] by simp
  then have "take_bit 8 (of_char (s ! i)) = (of_char (s ! i) :: nat)" by (rule take_bit_nat_eq_self)
  then show ?thesis unfolding byte_at_def take_bit_of_nat by (rule arg_cong)
qed

lemma byte_at_bits: "bit (byte_at s i) n \<Longrightarrow> n < 8"
  by (metis bit_take_bit_iff byte_at_byte)

lemma byte_at_eq: "byte_at s i = byte_at t j \<longleftrightarrow> s ! i = t ! j"
proof
  assume "byte_at s i = byte_at t j"
  then have "unat (byte_at s i) = unat (byte_at t j)" by simp
  moreover have "unat (byte_at u k) = of_char (u ! k)" for u k
  proof -
    have "of_char (u ! k) < (2 ^ 32 :: nat)" by (rule order.strict_trans[OF nat_of_char_less_256]) simp
    then show ?thesis by (simp add: byte_at_def unat_of_nat)
  qed
  ultimately show "s ! i = t ! j" by simp
qed (simp add: byte_at_def)

text \<open>Four bytes in a word, from the highest to the lowest, can be read again.\<close>

lemma four_bytes:
  fixes a :: "32 word"
  assumes "take_bit 8 a = a" "take_bit 8 b = b" "take_bit 8 c = c" "take_bit 8 d = d"
    and w: "w = push_bit 24 a OR push_bit 16 b OR push_bit 8 c OR d"
  shows "a = take_bit 8 (drop_bit 24 w)" "b = take_bit 8 (drop_bit 16 w)" "c = take_bit 8 (drop_bit 8 w)" "d = take_bit 8 w"
proof -
  have bits: "bit a n \<Longrightarrow> n < 8" "bit b n \<Longrightarrow> n < 8" "bit c n \<Longrightarrow> n < 8" "bit d n \<Longrightarrow> n < 8" for n
    using assms(1-4) by (metis bit_take_bit_iff)+
  show "a = take_bit 8 (drop_bit 24 w)" by (rule bit_word_eqI) (use bits in \<open>force simp: w bit_simps\<close>)
  show "b = take_bit 8 (drop_bit 16 w)" by (rule bit_word_eqI) (use bits in \<open>force simp: w bit_simps\<close>)
  show "c = take_bit 8 (drop_bit 8 w)" by (rule bit_word_eqI) (use bits in \<open>force simp: w bit_simps\<close>)
  show "d = take_bit 8 w" by (rule bit_word_eqI) (use bits in \<open>force simp: w bit_simps\<close>)
qed

lemma four_bytes_eq:
  fixes a :: "32 word"
  assumes "take_bit 8 a = a" "take_bit 8 b = b" "take_bit 8 c = c" "take_bit 8 d = d"
    "take_bit 8 a' = a'" "take_bit 8 b' = b'" "take_bit 8 c' = c'" "take_bit 8 d' = d'"
    "push_bit 24 a OR push_bit 16 b OR push_bit 8 c OR d = push_bit 24 a' OR push_bit 16 b' OR push_bit 8 c' OR d'"
  shows "a = a'" "b = b'" "c = c'" "d = d'"
  using four_bytes[OF assms(1-4) refl] four_bytes[OF assms(5-8) refl] unfolding assms(9) by metis+

subsection \<open>Strings\<close>

declare add_units.simps [simp del]

lemma add_units_all:
  "j \<le> length s div 4 \<Longrightarrow> add_units s (4 * j + 4) bits =
    (4 * (length s div 4) + 4, bits @ map (\<lambda>u. unit_at s (4 * u)) [Suc j ..< Suc (length s div 4)])"
proof (induction "length s div 4 - j" arbitrary: j bits)
  case 0
  then have "j = length s div 4" by simp
  moreover from this have "\<not> 4 * j + 4 \<le> length s" by simp
  ultimately show ?case by (simp add: add_units.simps)
next
  case (Suc k)
  then have less: "j < length s div 4" by simp
  then have "4 * j + 4 \<le> length s" by simp
  then have "add_units s (4 * j + 4) bits = add_units s (4 * Suc j + 4) (bits @ [unit_at s (4 * Suc j)])"
    by (subst add_units.simps) (simp add: add.commute)
  moreover have "[Suc j ..< Suc (length s div 4)] = Suc j # [Suc (Suc j) ..< Suc (length s div 4)]"
    using less by (simp add: upt_conv_Cons)
  ultimately show ?case using Suc.hyps(1)[of "Suc j"] Suc.hyps(2) less by simp
qed

text \<open>The bytes that are left over.\<close>

definition left_over :: "string \<Rightarrow> node_id" where
  "left_over s =
     (let n = length s
      in if n mod 4 = 3 then [push_bit 8 (push_bit 8 (byte_at s (n - 3)) OR byte_at s (n - 2)) OR byte_at s (n - 1)]
         else if n mod 4 = 2 then [push_bit 8 (byte_at s (n - 2)) OR byte_at s (n - 1)]
         else if n mod 4 = 1 then [byte_at s (n - 1)]
         else [])"

lemma AddString_bits:
  "AddString s bits = bits @ of_nat (length s) # map (\<lambda>u. unit_at s (4 * u)) [1 ..< Suc (length s div 4)] @ left_over s"
proof (cases "s = []")
  case True
  then show ?thesis by (simp add: AddString_def left_over_def)
next
  case False
  let ?n = "length s"
  have units: "add_units s 4 b = (4 * (?n div 4) + 4, b @ map (\<lambda>u. unit_at s (4 * u)) [1 ..< Suc (?n div 4)])" for b
    using add_units_all[of 0 s b] by simp
  have "4 * (?n div 4) + 4 - ?n = 4 - ?n mod 4" using div_mult_mod_eq[of ?n 4] by linarith
  moreover have "?n mod 4 < 4" by simp
  ultimately show ?thesis
    using False by (auto simp: AddString_def Let_def units left_over_def)
qed

lemma unit_bytes:
  assumes "unit_at s pos = unit_at t pos" "4 \<le> pos"
  shows "\<forall>i. pos - 4 \<le> i \<and> i < pos \<longrightarrow> s ! i = t ! i"
proof -
  note bytes = four_bytes_eq[OF byte_at_byte byte_at_byte byte_at_byte byte_at_byte byte_at_byte byte_at_byte byte_at_byte
      byte_at_byte assms(1)[unfolded unit_at_def]]
  have "i = pos - 1 \<or> i = pos - 2 \<or> i = pos - 3 \<or> i = pos - 4" if "pos - 4 \<le> i" "i < pos" for i
    using that assms(2) by linarith
  then show ?thesis using bytes[unfolded byte_at_eq] by blast
qed

lemma left_over_bytes:
  assumes "left_over s = left_over t" "length s = length t"
  shows "\<forall>i. 4 * (length s div 4) \<le> i \<and> i < length s \<longrightarrow> s ! i = t ! i"
proof -
  let ?n = "length s"
  have zero: "take_bit 8 (0 :: 32 word) = 0" by simp
  note bytes2 = four_bytes_eq(3,4)[OF zero zero byte_at_byte byte_at_byte zero zero byte_at_byte byte_at_byte]
  note bytes3 = four_bytes_eq(2-4)[OF zero byte_at_byte byte_at_byte byte_at_byte zero byte_at_byte byte_at_byte byte_at_byte]
  have whole: "?n = 4 * (?n div 4) + ?n mod 4" by simp
  consider "?n mod 4 = 0" | "?n mod 4 = 1" | "?n mod 4 = 2" | "?n mod 4 = 3" by linarith
  then show ?thesis
  proof cases
    case 1
    then show ?thesis using whole by auto
  next
    case 2
    then have "byte_at s (?n - 1) = byte_at t (?n - 1)" using assms by (simp add: left_over_def Let_def)
    moreover have "i = ?n - 1" if "4 * (?n div 4) \<le> i" "i < ?n" for i using that 2 whole by linarith
    ultimately show ?thesis unfolding byte_at_eq by blast
  next
    case 3
    then have "push_bit 24 0 OR push_bit 16 0 OR push_bit 8 (byte_at s (?n - 2)) OR byte_at s (?n - 1) =
        push_bit 24 0 OR push_bit 16 0 OR push_bit 8 (byte_at t (?n - 2)) OR byte_at t (?n - 1)"
      using assms by (simp add: left_over_def Let_def)
    then have "byte_at s (?n - 2) = byte_at t (?n - 2)" "byte_at s (?n - 1) = byte_at t (?n - 1)" by (rule bytes2)+
    moreover have "i = ?n - 1 \<or> i = ?n - 2" if "4 * (?n div 4) \<le> i" "i < ?n" for i using that 3 whole by linarith
    ultimately show ?thesis unfolding byte_at_eq by blast
  next
    case 4
    have "push_bit 8 (push_bit 8 a OR b) OR c = push_bit 24 0 OR push_bit 16 a OR push_bit 8 b OR c" for a b c :: "32 word"
      by (simp add: push_bit_or or.assoc)
    then have "push_bit 24 0 OR push_bit 16 (byte_at s (?n - 3)) OR push_bit 8 (byte_at s (?n - 2)) OR byte_at s (?n - 1) =
        push_bit 24 0 OR push_bit 16 (byte_at t (?n - 3)) OR push_bit 8 (byte_at t (?n - 2)) OR byte_at t (?n - 1)"
      using assms 4 by (simp add: left_over_def Let_def)
    then have "byte_at s (?n - 3) = byte_at t (?n - 3)" "byte_at s (?n - 2) = byte_at t (?n - 2)" "byte_at s (?n - 1) = byte_at t (?n - 1)"
      by (rule bytes3)+
    moreover have "i = ?n - 1 \<or> i = ?n - 2 \<or> i = ?n - 3" if "4 * (?n div 4) \<le> i" "i < ?n" for i using that 4 whole by linarith
    ultimately show ?thesis unfolding byte_at_eq by blast
  qed
qed

text \<open>
  C35 (roundtrip): A string in an identity can be told from whatever follows it, so identities with equal bits
  were put together from equal strings.
\<close>

theorem AddString_delimits:
  assumes "AddString s bits @ xs = AddString t bits @ ys" "length s < 2 ^ 32" "length t < 2 ^ 32"
  shows "s = t \<and> xs = ys"
proof -
  have small: "unat (of_nat k :: 32 word) = k" if "k < 2 ^ 32" for k using that by (simp add: unat_of_nat)
  have "(of_nat (length s) :: 32 word) = of_nat (length t)" using assms(1) by (simp add: AddString_bits)
  from arg_cong[OF this, of unat] have n: "length s = length t" unfolding small[OF assms(2)] small[OF assms(3)] .
  have "length (left_over s) = length (left_over t)" using n by (simp add: left_over_def Let_def)
  then have parts: "map (\<lambda>u. unit_at s (4 * u)) [1 ..< Suc (length s div 4)] = map (\<lambda>u. unit_at t (4 * u)) [1 ..< Suc (length s div 4)]"
    "left_over s = left_over t" "xs = ys"
    using assms(1) n by (auto simp: AddString_bits)
  have "s ! i = t ! i" if "i < length s" for i
  proof (cases "i div 4 < length s div 4")
    case True
    then have "Suc (i div 4) \<in> set [1 ..< Suc (length s div 4)]" by (auto simp del: upt_Suc)
    from bspec[OF parts(1)[unfolded map_eq_conv] this]
    have "unit_at s (4 * Suc (i div 4)) = unit_at t (4 * Suc (i div 4))" .
    from unit_bytes[OF this] show ?thesis by simp
  next
    case False
    then have "4 * (length s div 4) \<le> i" using div_mult_mod_eq[of i 4] by linarith
    then show ?thesis using left_over_bytes[OF parts(2) n] that by blast
  qed
  then show ?thesis using n parts(3) nth_equalityI by blast
qed

theorem AddString_delimits_witness: "AddString ''auto'' [] @ [7] \<noteq> AddString ''auto&'' [] @ [7]"
  using AddString_delimits[of "''auto''" "[]" "[7]" "''auto&''" "[7]"] by auto

end
