(* ===== verification/TypeTables.thy ===== *)
theory TypeTables
  imports FDMapping "HOL-Library.Word"
begin

unbundle bit_operations_syntax

text \<open>
  The types of clang that are kept between compilations: how \<^verbatim>\<open>clang/lib/AST/ASTContext.cpp\<close> makes
  them and tells equal ones apart, which of them it reports as new to the dependency map, and how
  \<^verbatim>\<open>RemoveNode\<close> and \<^verbatim>\<open>eraseTypesASTContext\<close> of \<^verbatim>\<open>tools/zapccs/Unloader.cpp\<close> take unloaded types out of
  the tables. A type is a number, in the order of allocation; an expression, a nested name
  specifier and a template are numbers, too.
\<close>

subsection \<open>Types\<close>

type_synonym ty = nat
type_synonym expr_id = nat

text \<open>A \<^verbatim>\<open>QualType\<close>: the type and its const, restrict and volatile bits.\<close>

type_synonym qual = "ty \<times> 3 word"

text \<open>
  The class of a type with the fields that its constructor gets. Function prototypes,
  template specializations and what belongs to Objective-C have a number for their fields; they
  are not made by the functions below.
\<close>

datatype (plugins only: size code) shape =
    BuiltinSh nat
  | ComplexSh qual
  | PointerSh qual
  | AdjustedSh qual qual
  | DecayedSh qual qual
  | BlockPointerSh qual
  | LValueReferenceSh qual bool
  | RValueReferenceSh qual
  | MemberPointerSh qual ty
  | ConstantArraySh qual nat nat nat
  | IncompleteArraySh qual nat nat
  | VariableArraySh qual "expr_id option" nat nat
  | DependentSizedArraySh qual "expr_id option" nat nat
  | VectorSh qual nat nat
  | ExtVectorSh qual nat
  | DependentSizedExtVectorSh qual expr_id
  | DependentAddressSpaceSh qual expr_id
  | FunctionProtoSh nat
  | FunctionNoProtoSh qual nat
  | PipeSh qual bool
  | InjectedClassNameSh decl qual
  | UnresolvedUsingSh decl
  | TypedefSh decl
  | RecordSh decl
  | EnumSh decl
  | AttributedSh nat qual qual
  | TemplateTypeParmSh nat nat bool "decl option"
  | SubstTemplateTypeParmSh ty qual
  | SubstTemplateTypeParmPackSh ty nat
  | TemplateSpecializationSh nat
  | ElaboratedSh nat "nat option" qual
  | ParenSh qual
  | DependentNameSh nat
  | DependentTemplateSpecializationSh nat
  | PackExpansionSh qual "nat option"
  | TypeOfExprSh expr_id
  | TypeOfSh qual
  | DecltypeSh expr_id qual
  | UnaryTransformSh qual "qual option" nat
  | AutoSh "qual option" nat bool
  | DeducedTemplateSpecializationSh nat "qual option" bool
  | AtomicSh qual
  | ObjCObjectSh nat
  | ObjCInterfaceSh decl
  | ObjCObjectPointerSh qual
  | ObjCTypeParamSh nat

text \<open>The tables in which equal types are found again.\<close>

datatype (plugins only: size code) fold_set =
    ComplexTypes | PointerTypes | AdjustedTypes | BlockPointerTypes | LValueReferenceTypes
  | RValueReferenceTypes | MemberPointerTypes | ConstantArrayTypes | IncompleteArrayTypes
  | DependentSizedArrayTypes | DependentSizedExtVectorTypes | DependentAddressSpaceTypes | VectorTypes
  | FunctionNoProtoTypes | FunctionProtoTypes | DependentTypeOfExprTypes | DependentDecltypeTypes
  | TemplateTypeParmTypes | ObjCTypeParamTypes | SubstTemplateTypeParmTypes
  | SubstTemplateTypeParmPackTypes | TemplateSpecializationTypes | ParenTypes | ElaboratedTypes
  | DependentNameTypes | DependentTemplateSpecializationTypes | PackExpansionTypes | ObjCObjectTypes
  | ObjCObjectPointerTypes | DependentUnaryTransformTypes | AutoTypes
  | DeducedTemplateSpecializationTypes | AtomicTypes | AttributedTypes | PipeTypes

text \<open>
  The state: the types that exist, with their canonical types; the tables; the list of all types,
  the new ones of this compilation, the variable arrays, the types with memoized information; the
  type of a declaration; the \<^verbatim>\<open>auto\<close> that is deduced; the next free address. The rest is what the
  code asks of other parts of clang: whether types are recorded, the width of pointers, the type
  that stands for all dependent ones, which expressions are equivalent (they have the same
  representative), their types and whether they are dependent, whether a type is dependent or has
  an unexpanded parameter pack,
  the underlying type of a typedef and the previous declaration.
\<close>

record type_tables =
  ShapeOf :: "ty \<Rightarrow> shape option"
  CanonOf :: "ty \<Rightarrow> qual"
  FoldSet :: "fold_set \<Rightarrow> ty list"
  AllTypes :: "ty list"
  NewTypes :: "ty list"
  VariableArrays :: "ty list"
  MemoizedTypeInfo :: "ty list"
  TypeForDecl :: "decl \<Rightarrow> ty option"
  AutoDeduct :: "ty option"
  NextType :: ty
  CachingMode :: bool
  PointerWidth :: nat
  DependentTy :: ty
  ExprKey :: "expr_id \<Rightarrow> expr_id"
  ExprType :: "expr_id \<Rightarrow> qual"
  ExprTypeDependent :: "expr_id \<Rightarrow> bool"
  ExprDependent :: "expr_id \<Rightarrow> bool"
  DependentFlag :: "ty \<Rightarrow> bool"
  HasPack :: "ty \<Rightarrow> bool"
  UnderlyingType :: "decl \<Rightarrow> qual"
  PrevDeclOf :: "decl \<Rightarrow> decl option"

definition isCanonical :: "type_tables \<Rightarrow> qual \<Rightarrow> bool" where
  "isCanonical s T \<longleftrightarrow> CanonOf s (fst T) = (fst T, 0)"

definition hasLocalQualifiers :: "qual \<Rightarrow> bool" where
  "hasLocalQualifiers T \<longleftrightarrow> snd T \<noteq> 0"

definition getQualifiedType :: "qual \<Rightarrow> 3 word \<Rightarrow> qual" where
  "getQualifiedType T q = (fst T, snd T OR q)"

definition getCanonicalType :: "type_tables \<Rightarrow> qual \<Rightarrow> qual" where
  "getCanonicalType s T = getQualifiedType (CanonOf s (fst T)) (snd T)"

definition isDependentType :: "type_tables \<Rightarrow> ty \<Rightarrow> bool" where
  "isDependentType s t =
     (case ShapeOf s t of
        Some (TypeOfExprSh e) \<Rightarrow> ExprTypeDependent s e
      | Some (DecltypeSh e _) \<Rightarrow> ExprDependent s e
      | _ \<Rightarrow> DependentFlag s t)"


subsection \<open>Finding and making types\<close>

text \<open>
  The profile by which a table finds a type: its fields, but equivalent expressions are the same,
  and an adjusted type is one with its original and adjusted type, however it came about.
\<close>

definition profile :: "type_tables \<Rightarrow> shape \<Rightarrow> shape" where
  "profile s sh =
     (case sh of
        DecayedSh T U \<Rightarrow> AdjustedSh T U
      | DependentSizedArraySh T e m q \<Rightarrow> DependentSizedArraySh T (map_option (ExprKey s) e) m q
      | DependentSizedExtVectorSh T e \<Rightarrow> DependentSizedExtVectorSh T (ExprKey s e)
      | DependentAddressSpaceSh T e \<Rightarrow> DependentAddressSpaceSh T (ExprKey s e)
      | TypeOfExprSh e \<Rightarrow> TypeOfExprSh (ExprKey s e)
      | DecltypeSh e T \<Rightarrow> DecltypeSh (ExprKey s e) T
      | _ \<Rightarrow> sh)"

definition find_node :: "fold_set \<Rightarrow> shape \<Rightarrow> type_tables \<Rightarrow> ty option" where
  "find_node fs sh s = List.find (\<lambda>t. map_option (profile s) (ShapeOf s t) = Some (profile s sh)) (FoldSet s fs)"

text \<open>The constructor of a type: without a canonical type it is its own.\<close>

definition alloc_type :: "shape \<Rightarrow> qual option \<Rightarrow> type_tables \<Rightarrow> ty \<times> type_tables" where
  "alloc_type sh canon s =
     (let t = NextType s
      in (t, s\<lparr>ShapeOf := (ShapeOf s)(t \<mapsto> sh),
               CanonOf := (CanonOf s)(t := case canon of None \<Rightarrow> (t, 0) | Some c \<Rightarrow> c),
               NextType := Suc t\<rparr>))"

definition push_type :: "ty \<Rightarrow> type_tables \<Rightarrow> type_tables" where
  "push_type t s = s\<lparr>AllTypes := AllTypes s @ [t]\<rparr>"

definition push_new_type :: "ty \<Rightarrow> type_tables \<Rightarrow> type_tables" where
  "push_new_type t s = (if CachingMode s then s\<lparr>NewTypes := NewTypes s @ [t]\<rparr> else s)"

definition InsertNode :: "fold_set \<Rightarrow> ty \<Rightarrow> type_tables \<Rightarrow> type_tables" where
  "InsertNode fs t s = s\<lparr>FoldSet := (FoldSet s)(fs := t # FoldSet s fs)\<rparr>"

definition new_type :: "shape \<Rightarrow> qual option \<Rightarrow> type_tables \<Rightarrow> qual \<times> type_tables" where
  "new_type sh canon s = (let (t, s1) = alloc_type sh canon s in ((t, 0), push_new_type t (push_type t s1)))"

definition new_node :: "fold_set \<Rightarrow> shape \<Rightarrow> qual option \<Rightarrow> type_tables \<Rightarrow> qual \<times> type_tables" where
  "new_node fs sh canon s = (let (T, s1) = new_type sh canon s in (T, InsertNode fs (fst T) s1))"

text \<open>
  What the function for a class of types does about the canonical type when there is no such type
  yet: the new type is its own, or there is one at hand, or the same function is called for other
  fields and qualifiers are added. The reference that a type is under its sugar is read off its
  canonical type.
\<close>

datatype canonical_version = CanonSelf | CanonIs qual | CanonVia shape "3 word"

definition inner_reference :: "type_tables \<Rightarrow> qual \<Rightarrow> qual option" where
  "inner_reference s T =
     (case ShapeOf s (fst (getCanonicalType s T)) of
        Some (LValueReferenceSh P _) \<Rightarrow> Some P
      | Some (RValueReferenceSh P) \<Rightarrow> Some P
      | _ \<Rightarrow> None)"

definition referenced :: "type_tables \<Rightarrow> qual \<Rightarrow> qual" where
  "referenced s T = getCanonicalType s (case inner_reference s T of Some P \<Rightarrow> P | None \<Rightarrow> T)"

definition via_element :: "type_tables \<Rightarrow> qual \<Rightarrow> (qual \<Rightarrow> shape) \<Rightarrow> canonical_version" where
  "via_element s T sh =
     (if \<not> isCanonical s T \<or> hasLocalQualifiers T
      then (let (c, q) = getCanonicalType s T in CanonVia (sh (c, 0)) q) else CanonSelf)"

definition via_canonical :: "type_tables \<Rightarrow> qual \<Rightarrow> (qual \<Rightarrow> shape) \<Rightarrow> canonical_version" where
  "via_canonical s T sh = (if \<not> isCanonical s T then CanonVia (sh (getCanonicalType s T)) 0 else CanonSelf)"

definition sugar_of :: "type_tables \<Rightarrow> qual \<Rightarrow> canonical_version" where
  "sugar_of s T = CanonIs (if \<not> isCanonical s T then getCanonicalType s T else T)"

definition canonical_version :: "type_tables \<Rightarrow> shape \<Rightarrow> canonical_version" where
  "canonical_version s sh =
     (case sh of
        ComplexSh T \<Rightarrow> via_canonical s T ComplexSh
      | PointerSh T \<Rightarrow> via_canonical s T PointerSh
      | BlockPointerSh T \<Rightarrow> via_canonical s T BlockPointerSh
      | AdjustedSh _ T \<Rightarrow> CanonIs (getCanonicalType s T)
      | DecayedSh _ T \<Rightarrow> CanonIs (getCanonicalType s T)
      | LValueReferenceSh T spelled \<Rightarrow>
          if \<not> spelled \<or> inner_reference s T \<noteq> None \<or> \<not> isCanonical s T
          then CanonVia (LValueReferenceSh (referenced s T) True) 0 else CanonSelf
      | RValueReferenceSh T \<Rightarrow>
          if inner_reference s T \<noteq> None \<or> \<not> isCanonical s T
          then CanonVia (RValueReferenceSh (referenced s T)) 0 else CanonSelf
      | MemberPointerSh T c \<Rightarrow>
          if \<not> isCanonical s T \<or> \<not> isCanonical s (c, 0)
          then CanonVia (MemberPointerSh (getCanonicalType s T) (fst (CanonOf s c))) 0 else CanonSelf
      | ConstantArraySh T n m q \<Rightarrow> via_element s T (\<lambda>U. ConstantArraySh U n m q)
      | IncompleteArraySh T m q \<Rightarrow> via_element s T (\<lambda>U. IncompleteArraySh U m q)
      | VectorSh T n k \<Rightarrow> via_canonical s T (\<lambda>U. VectorSh U n k)
      | ExtVectorSh T n \<Rightarrow> via_canonical s T (\<lambda>U. ExtVectorSh U n)
      | FunctionNoProtoSh T i \<Rightarrow> via_canonical s T (\<lambda>U. FunctionNoProtoSh U i)
      | PipeSh T r \<Rightarrow> via_canonical s T (\<lambda>U. PipeSh U r)
      | AttributedSh _ _ T \<Rightarrow> CanonIs (getCanonicalType s T)
      | TemplateTypeParmSh d i p (Some _) \<Rightarrow> CanonVia (TemplateTypeParmSh d i p None) 0
      | SubstTemplateTypeParmSh _ T \<Rightarrow> CanonIs T
      | SubstTemplateTypeParmPackSh p a \<Rightarrow>
          if \<not> isCanonical s (p, 0) then CanonVia (SubstTemplateTypeParmPackSh (fst (CanonOf s p)) a) 0 else CanonSelf
      | ElaboratedSh _ _ T \<Rightarrow> sugar_of s T
      | ParenSh T \<Rightarrow> sugar_of s T
      | PackExpansionSh T n \<Rightarrow>
          if isCanonical s T then CanonSelf
          else if HasPack s (fst (getCanonicalType s T)) then CanonVia (PackExpansionSh (getCanonicalType s T) n) 0
          else CanonIs (getCanonicalType s T)
      | AutoSh D _ _ \<Rightarrow> (case D of None \<Rightarrow> CanonSelf | Some T \<Rightarrow> CanonIs (getCanonicalType s T))
      | DeducedTemplateSpecializationSh _ D _ \<Rightarrow> (case D of None \<Rightarrow> CanonSelf | Some T \<Rightarrow> CanonIs (getCanonicalType s T))
      | AtomicSh T \<Rightarrow> via_canonical s T AtomicSh
      | ObjCObjectPointerSh T \<Rightarrow> via_canonical s T ObjCObjectPointerSh
      | _ \<Rightarrow> CanonSelf)"

text \<open>
  The functions that share a table: look for the type; if it is not there, get the canonical type,
  by the same function when it is another one of the class, and make it. \<open>None\<close> is the failed
  assertion that the type is not there after that either.
\<close>

partial_function (option) uniqued :: "fold_set \<Rightarrow> shape \<Rightarrow> type_tables \<Rightarrow> (qual \<times> type_tables) option" where
  "uniqued fs sh s =
     (case find_node fs sh s of
        Some t \<Rightarrow> Some ((t, 0), s)
      | None \<Rightarrow>
          (case canonical_version s sh of
             CanonSelf \<Rightarrow> Some (new_node fs sh None s)
           | CanonIs T \<Rightarrow> Some (new_node fs sh (Some T) s)
           | CanonVia sh' q \<Rightarrow>
               Option.bind (uniqued fs sh' s)
                 (\<lambda>(C, s'). if find_node fs sh s' \<noteq> None then None
                            else Some (new_node fs sh (Some (getQualifiedType C q)) s'))))"

declare uniqued.simps [code]


subsection \<open>The functions that make types\<close>

definition getComplexType :: "qual \<Rightarrow> type_tables \<Rightarrow> (qual \<times> type_tables) option" where
  "getComplexType T = uniqued ComplexTypes (ComplexSh T)"

definition getPointerType :: "qual \<Rightarrow> type_tables \<Rightarrow> (qual \<times> type_tables) option" where
  "getPointerType T = uniqued PointerTypes (PointerSh T)"

definition getAdjustedType :: "qual \<Rightarrow> qual \<Rightarrow> type_tables \<Rightarrow> (qual \<times> type_tables) option" where
  "getAdjustedType T U = uniqued AdjustedTypes (AdjustedSh T U)"

definition getBlockPointerType :: "qual \<Rightarrow> type_tables \<Rightarrow> (qual \<times> type_tables) option" where
  "getBlockPointerType T = uniqued BlockPointerTypes (BlockPointerSh T)"

definition getLValueReferenceType :: "qual \<Rightarrow> bool \<Rightarrow> type_tables \<Rightarrow> (qual \<times> type_tables) option" where
  "getLValueReferenceType T spelled = uniqued LValueReferenceTypes (LValueReferenceSh T spelled)"

definition getRValueReferenceType :: "qual \<Rightarrow> type_tables \<Rightarrow> (qual \<times> type_tables) option" where
  "getRValueReferenceType T = uniqued RValueReferenceTypes (RValueReferenceSh T)"

definition getMemberPointerType :: "qual \<Rightarrow> ty \<Rightarrow> type_tables \<Rightarrow> (qual \<times> type_tables) option" where
  "getMemberPointerType T c = uniqued MemberPointerTypes (MemberPointerSh T c)"

definition getConstantArrayType :: "qual \<Rightarrow> nat \<Rightarrow> nat \<Rightarrow> nat \<Rightarrow> type_tables \<Rightarrow> (qual \<times> type_tables) option" where
  "getConstantArrayType T n m q s =
     uniqued ConstantArrayTypes (ConstantArraySh T (n mod 2 ^ PointerWidth s) m q) s"

definition getIncompleteArrayType :: "qual \<Rightarrow> nat \<Rightarrow> nat \<Rightarrow> type_tables \<Rightarrow> (qual \<times> type_tables) option" where
  "getIncompleteArrayType T m q = uniqued IncompleteArrayTypes (IncompleteArraySh T m q)"

definition getVectorType :: "qual \<Rightarrow> nat \<Rightarrow> nat \<Rightarrow> type_tables \<Rightarrow> (qual \<times> type_tables) option" where
  "getVectorType T n k = uniqued VectorTypes (VectorSh T n k)"

definition getExtVectorType :: "qual \<Rightarrow> nat \<Rightarrow> type_tables \<Rightarrow> (qual \<times> type_tables) option" where
  "getExtVectorType T n = uniqued VectorTypes (ExtVectorSh T n)"

definition getFunctionNoProtoType :: "qual \<Rightarrow> nat \<Rightarrow> type_tables \<Rightarrow> (qual \<times> type_tables) option" where
  "getFunctionNoProtoType T i = uniqued FunctionNoProtoTypes (FunctionNoProtoSh T i)"

definition getPipeType :: "qual \<Rightarrow> bool \<Rightarrow> type_tables \<Rightarrow> (qual \<times> type_tables) option" where
  "getPipeType T r = uniqued PipeTypes (PipeSh T r)"

definition getAttributedType :: "nat \<Rightarrow> qual \<Rightarrow> qual \<Rightarrow> type_tables \<Rightarrow> (qual \<times> type_tables) option" where
  "getAttributedType k T U = uniqued AttributedTypes (AttributedSh k T U)"

definition getSubstTemplateTypeParmType :: "ty \<Rightarrow> qual \<Rightarrow> type_tables \<Rightarrow> (qual \<times> type_tables) option" where
  "getSubstTemplateTypeParmType p T = uniqued SubstTemplateTypeParmTypes (SubstTemplateTypeParmSh p T)"

definition getSubstTemplateTypeParmPackType :: "ty \<Rightarrow> nat \<Rightarrow> type_tables \<Rightarrow> (qual \<times> type_tables) option" where
  "getSubstTemplateTypeParmPackType p a = uniqued SubstTemplateTypeParmPackTypes (SubstTemplateTypeParmPackSh p a)"

definition getTemplateTypeParmType ::
  "nat \<Rightarrow> nat \<Rightarrow> bool \<Rightarrow> decl option \<Rightarrow> type_tables \<Rightarrow> (qual \<times> type_tables) option" where
  "getTemplateTypeParmType d i p D = uniqued TemplateTypeParmTypes (TemplateTypeParmSh d i p D)"

definition getElaboratedType :: "nat \<Rightarrow> nat option \<Rightarrow> qual \<Rightarrow> type_tables \<Rightarrow> (qual \<times> type_tables) option" where
  "getElaboratedType k n T = uniqued ElaboratedTypes (ElaboratedSh k n T)"

definition getParenType :: "qual \<Rightarrow> type_tables \<Rightarrow> (qual \<times> type_tables) option" where
  "getParenType T = uniqued ParenTypes (ParenSh T)"

definition getPackExpansionType :: "qual \<Rightarrow> nat option \<Rightarrow> type_tables \<Rightarrow> (qual \<times> type_tables) option" where
  "getPackExpansionType T n = uniqued PackExpansionTypes (PackExpansionSh T n)"

definition getAtomicType :: "qual \<Rightarrow> type_tables \<Rightarrow> (qual \<times> type_tables) option" where
  "getAtomicType T = uniqued AtomicTypes (AtomicSh T)"

definition getObjCObjectPointerType :: "qual \<Rightarrow> type_tables \<Rightarrow> (qual \<times> type_tables) option" where
  "getObjCObjectPointerType T = uniqued ObjCObjectPointerTypes (ObjCObjectPointerSh T)"

text \<open>The \<^verbatim>\<open>auto\<close> that is still to be deduced is in no table and no list.\<close>

definition getAutoDeductType :: "type_tables \<Rightarrow> qual \<times> type_tables" where
  "getAutoDeductType s =
     (case AutoDeduct s of
        Some t \<Rightarrow> ((t, 0), s)
      | None \<Rightarrow> (let (t, s1) = alloc_type (AutoSh None 0 False) None s in ((t, 0), s1\<lparr>AutoDeduct := Some t\<rparr>)))"

definition getAutoType :: "qual option \<Rightarrow> nat \<Rightarrow> bool \<Rightarrow> type_tables \<Rightarrow> (qual \<times> type_tables) option" where
  "getAutoType D k dependent s =
     (if D = None \<and> k = 0 \<and> \<not> dependent then Some (getAutoDeductType s)
      else uniqued AutoTypes (AutoSh D k dependent) s)"

text \<open>This one does not report its type as new.\<close>

definition getDeducedTemplateSpecializationType ::
  "nat \<Rightarrow> qual option \<Rightarrow> bool \<Rightarrow> type_tables \<Rightarrow> (qual \<times> type_tables) option" where
  "getDeducedTemplateSpecializationType n D dependent s =
     (let sh = DeducedTemplateSpecializationSh n D dependent
      in case find_node DeducedTemplateSpecializationTypes sh s of
           Some t \<Rightarrow> Some ((t, 0), s)
         | None \<Rightarrow>
             (let (t, s1) = alloc_type sh (map_option (getCanonicalType s) D) s
              in Some ((t, 0), InsertNode DeducedTemplateSpecializationTypes t (push_type t s1))))"

text \<open>Types of declarations.\<close>

definition type_for_decl :: "decl \<Rightarrow> shape \<Rightarrow> qual option \<Rightarrow> type_tables \<Rightarrow> qual \<times> type_tables" where
  "type_for_decl d sh canon s =
     (let (t, s1) = alloc_type sh canon s;
          s2 = s1\<lparr>TypeForDecl := (TypeForDecl s1)(d \<mapsto> t)\<rparr>
      in ((t, 0), push_new_type t (push_type t s2)))"

definition getTypedefType :: "decl \<Rightarrow> qual option \<Rightarrow> type_tables \<Rightarrow> qual \<times> type_tables" where
  "getTypedefType d canon s =
     (case TypeForDecl s d of
        Some t \<Rightarrow> ((t, 0), s)
      | None \<Rightarrow>
          (let c = (case canon of None \<Rightarrow> getCanonicalType s (UnderlyingType s d) | Some c \<Rightarrow> c)
           in type_for_decl d (TypedefSh d) (Some c) s))"

definition share_with_previous :: "decl \<Rightarrow> (type_tables \<Rightarrow> qual \<times> type_tables) \<Rightarrow> type_tables \<Rightarrow> qual \<times> type_tables" where
  "share_with_previous d fresh s =
     (case TypeForDecl s d of
        Some t \<Rightarrow> ((t, 0), s)
      | None \<Rightarrow>
          (case Option.bind (PrevDeclOf s d) (TypeForDecl s) of
             Some t \<Rightarrow> ((t, 0), s\<lparr>TypeForDecl := (TypeForDecl s)(d \<mapsto> t)\<rparr>)
           | None \<Rightarrow> fresh s))"

definition getRecordType :: "decl \<Rightarrow> type_tables \<Rightarrow> qual \<times> type_tables" where
  "getRecordType d = share_with_previous d (type_for_decl d (RecordSh d) None)"

definition getEnumType :: "decl \<Rightarrow> type_tables \<Rightarrow> qual \<times> type_tables" where
  "getEnumType d = share_with_previous d (type_for_decl d (EnumSh d) None)"

text \<open>A previous declaration that has no type yet is a failed assertion.\<close>

definition getInjectedClassNameType :: "decl \<Rightarrow> qual \<Rightarrow> type_tables \<Rightarrow> (qual \<times> type_tables) option" where
  "getInjectedClassNameType d T s =
     (case TypeForDecl s d of
        Some t \<Rightarrow> Some ((t, 0), s)
      | None \<Rightarrow>
          (case PrevDeclOf s d of
             Some p \<Rightarrow> map_option (\<lambda>t. ((t, 0), s\<lparr>TypeForDecl := (TypeForDecl s)(d \<mapsto> t)\<rparr>)) (TypeForDecl s p)
           | None \<Rightarrow> Some (type_for_decl d (InjectedClassNameSh d T) None s)))"


definition getUnresolvedUsingType :: "decl \<Rightarrow> type_tables \<Rightarrow> qual \<times> type_tables" where
  "getUnresolvedUsingType d = type_for_decl d (UnresolvedUsingSh d) None"

text \<open>
  Types with expressions. What is unique of them is the canonical version when the expression is
  dependent; those of \<^verbatim>\<open>decltype\<close> and of \<^verbatim>\<open>__underlying_type\<close> are in no list.
\<close>

definition getTypeOfExprType :: "expr_id \<Rightarrow> type_tables \<Rightarrow> qual \<times> type_tables" where
  "getTypeOfExprType e s =
     (if ExprTypeDependent s e then
        (case find_node DependentTypeOfExprTypes (TypeOfExprSh e) s of
           Some c \<Rightarrow> new_type (TypeOfExprSh e) (Some (c, 0)) s
         | None \<Rightarrow> new_node DependentTypeOfExprTypes (TypeOfExprSh e) None s)
      else new_type (TypeOfExprSh e) (Some (getCanonicalType s (ExprType s e))) s)"

definition getTypeOfType :: "qual \<Rightarrow> type_tables \<Rightarrow> qual \<times> type_tables" where
  "getTypeOfType T s = new_type (TypeOfSh T) (Some (getCanonicalType s T)) s"

definition unlisted_node :: "fold_set \<Rightarrow> shape \<Rightarrow> type_tables \<Rightarrow> ty \<times> type_tables" where
  "unlisted_node fs sh s =
     (case find_node fs sh s of
        Some c \<Rightarrow> (c, s)
      | None \<Rightarrow> (let (c, s1) = alloc_type sh None s in (c, InsertNode fs c s1)))"

definition getDecltypeType :: "expr_id \<Rightarrow> qual \<Rightarrow> type_tables \<Rightarrow> qual \<times> type_tables" where
  "getDecltypeType e T s =
     (if ExprDependent s e then
        (let (c, s1) = unlisted_node DependentDecltypeTypes (DecltypeSh e (DependentTy s, 0)) s
         in new_type (DecltypeSh e T) (Some (c, 0)) s1)
      else new_type (DecltypeSh e T) (Some (getCanonicalType s T)) s)"

definition getUnaryTransformType :: "qual \<Rightarrow> qual \<Rightarrow> nat \<Rightarrow> type_tables \<Rightarrow> qual \<times> type_tables" where
  "getUnaryTransformType B U k s =
     (if isDependentType s (fst B) then
        (let (c, s1) = unlisted_node DependentUnaryTransformTypes
                         (UnaryTransformSh (getCanonicalType s B) (Some (DependentTy s, 0)) k) s
         in new_type (UnaryTransformSh B None k) (Some (c, 0)) s1)
      else new_type (UnaryTransformSh B (Some U) k) (Some (getCanonicalType s U)) s)"

text \<open>Arrays with a size that is not a constant.\<close>

definition push_variable_array :: "ty \<Rightarrow> type_tables \<Rightarrow> type_tables" where
  "push_variable_array t s = s\<lparr>VariableArrays := VariableArrays s @ [t]\<rparr>"

definition new_variable_array ::
  "qual \<Rightarrow> expr_id option \<Rightarrow> nat \<Rightarrow> nat \<Rightarrow> qual option \<Rightarrow> type_tables \<Rightarrow> qual \<times> type_tables"
where
  "new_variable_array T e m q canon s =
     (let (U, s1) = new_type (VariableArraySh T e m q) canon s in (U, push_variable_array (fst U) s1))"

partial_function (option) getVariableArrayType ::
  "qual \<Rightarrow> expr_id option \<Rightarrow> nat \<Rightarrow> nat \<Rightarrow> type_tables \<Rightarrow> (qual \<times> type_tables) option"
where
  "getVariableArrayType T e m q s =
     (if \<not> isCanonical s T \<or> hasLocalQualifiers T
      then (let (c, cq) = getCanonicalType s T
            in Option.bind (getVariableArrayType (c, 0) e m q s)
                 (\<lambda>(C, s'). Some (new_variable_array T e m q (Some (getQualifiedType C cq)) s')))
      else Some (new_variable_array T e m q None s))"

declare getVariableArrayType.simps [code]

definition getDependentSizedArrayType ::
  "qual \<Rightarrow> expr_id option \<Rightarrow> nat \<Rightarrow> nat \<Rightarrow> type_tables \<Rightarrow> qual \<times> type_tables"
where
  "getDependentSizedArrayType T e m q s =
     (case e of
        None \<Rightarrow> new_type (DependentSizedArraySh T None m q) None s
      | Some n \<Rightarrow>
          (let (c, cq) = getCanonicalType s T;
               sh = DependentSizedArraySh (c, 0) (Some n) m q;
               (t, s1) = (case find_node DependentSizedArrayTypes sh s of
                            Some t \<Rightarrow> (t, s)
                          | None \<Rightarrow> (let (U, s1) = new_node DependentSizedArrayTypes sh None s in (fst U, s1)));
               canon = getQualifiedType (t, 0) cq;
               size = (case ShapeOf s1 t of Some (DependentSizedArraySh _ e' _ _) \<Rightarrow> e' | _ \<Rightarrow> None)
           in if (c, 0) = T \<and> size = Some n then (canon, s1)
              else new_type (DependentSizedArraySh T (Some n) m q) (Some canon) s1))"

partial_function (option) getDependentSizedExtVectorType ::
  "qual \<Rightarrow> expr_id \<Rightarrow> type_tables \<Rightarrow> (qual \<times> type_tables) option"
where
  "getDependentSizedExtVectorType T e s =
     (case find_node DependentSizedExtVectorTypes (DependentSizedExtVectorSh (getCanonicalType s T) e) s of
        Some c \<Rightarrow> Some (new_type (DependentSizedExtVectorSh T e) (Some (c, 0)) s)
      | None \<Rightarrow>
          (if getCanonicalType s T = T
           then Some (new_node DependentSizedExtVectorTypes (DependentSizedExtVectorSh T e) None s)
           else Option.bind (getDependentSizedExtVectorType (getCanonicalType s T) e s)
                  (\<lambda>(C, s'). Some (new_type (DependentSizedExtVectorSh T e) (Some C) s'))))"

declare getDependentSizedExtVectorType.simps [code]

text \<open>Nor does this one report its types as new.\<close>

definition getDependentAddressSpaceType :: "qual \<Rightarrow> expr_id \<Rightarrow> type_tables \<Rightarrow> qual \<times> type_tables" where
  "getDependentAddressSpaceType T e s =
     (let C = getCanonicalType s T;
          sh = DependentAddressSpaceSh C e;
          (t, s1) = (case find_node DependentAddressSpaceTypes sh s of
                       Some t \<Rightarrow> (t, s)
                     | None \<Rightarrow> (let (t, s1) = alloc_type sh None s
                               in (t, push_type t (InsertNode DependentAddressSpaceTypes t s1))));
          space = (case ShapeOf s1 t of Some (DependentAddressSpaceSh _ e') \<Rightarrow> Some e' | _ \<Rightarrow> None)
      in if C = T \<and> space = Some e then ((t, 0), s1)
         else (let (u, s2) = alloc_type (DependentAddressSpaceSh T e) (Some (t, 0)) s1
               in ((u, 0), push_type u s2)))"

subsection \<open>Unloading\<close>

text \<open>The table that \<^verbatim>\<open>RemoveNode\<close> looks in.\<close>

definition table_of :: "type_tables \<Rightarrow> ty \<Rightarrow> fold_set option" where
  "table_of s t =
     (let canonical_dependent = isDependentType s t \<and> isCanonical s (t, 0)
      in case ShapeOf s t of
           None \<Rightarrow> None
         | Some sh \<Rightarrow>
             (case sh of
                TypeOfExprSh _ \<Rightarrow> if canonical_dependent then Some DependentTypeOfExprTypes else None
              | DecltypeSh _ _ \<Rightarrow> if canonical_dependent then Some DependentDecltypeTypes else None
              | ComplexSh _ \<Rightarrow> Some ComplexTypes
              | PointerSh _ \<Rightarrow> Some PointerTypes
              | DecayedSh _ _ \<Rightarrow> Some AdjustedTypes
              | AdjustedSh _ _ \<Rightarrow> Some AdjustedTypes
              | BlockPointerSh _ \<Rightarrow> Some BlockPointerTypes
              | LValueReferenceSh _ _ \<Rightarrow> Some LValueReferenceTypes
              | RValueReferenceSh _ \<Rightarrow> Some RValueReferenceTypes
              | MemberPointerSh _ _ \<Rightarrow> Some MemberPointerTypes
              | ConstantArraySh _ _ _ _ \<Rightarrow> Some ConstantArrayTypes
              | IncompleteArraySh _ _ _ \<Rightarrow> Some IncompleteArrayTypes
              | DependentSizedArraySh _ _ _ _ \<Rightarrow> Some DependentSizedArrayTypes
              | DependentSizedExtVectorSh _ _ \<Rightarrow> Some DependentSizedExtVectorTypes
              | ExtVectorSh _ _ \<Rightarrow> Some VectorTypes
              | VectorSh _ _ _ \<Rightarrow> Some VectorTypes
              | FunctionNoProtoSh _ _ \<Rightarrow> Some FunctionNoProtoTypes
              | FunctionProtoSh _ \<Rightarrow> Some FunctionProtoTypes
              | TemplateTypeParmSh _ _ _ _ \<Rightarrow> Some TemplateTypeParmTypes
              | SubstTemplateTypeParmSh _ _ \<Rightarrow> Some SubstTemplateTypeParmTypes
              | SubstTemplateTypeParmPackSh _ _ \<Rightarrow> Some SubstTemplateTypeParmPackTypes
              | TemplateSpecializationSh _ \<Rightarrow> Some TemplateSpecializationTypes
              | ParenSh _ \<Rightarrow> Some ParenTypes
              | ElaboratedSh _ _ _ \<Rightarrow> Some ElaboratedTypes
              | DependentNameSh _ \<Rightarrow> Some DependentNameTypes
              | DependentTemplateSpecializationSh _ \<Rightarrow> Some DependentTemplateSpecializationTypes
              | PackExpansionSh _ _ \<Rightarrow> Some PackExpansionTypes
              | ObjCObjectSh _ \<Rightarrow> Some ObjCObjectTypes
              | ObjCInterfaceSh _ \<Rightarrow> Some ObjCObjectTypes
              | ObjCObjectPointerSh _ \<Rightarrow> Some ObjCObjectPointerTypes
              | ObjCTypeParamSh _ \<Rightarrow> Some ObjCTypeParamTypes
              | AutoSh _ _ _ \<Rightarrow> Some AutoTypes
              | DeducedTemplateSpecializationSh _ _ _ \<Rightarrow> Some DeducedTemplateSpecializationTypes
              | AtomicSh _ \<Rightarrow> Some AtomicTypes
              | PipeSh _ _ \<Rightarrow> Some PipeTypes
              | AttributedSh _ _ _ \<Rightarrow> Some AttributedTypes
              | DependentAddressSpaceSh _ _ \<Rightarrow> Some DependentAddressSpaceTypes
              | _ \<Rightarrow> None))"

definition RemoveNode :: "ty \<Rightarrow> type_tables \<Rightarrow> type_tables" where
  "RemoveNode t s =
     (case table_of s t of
        None \<Rightarrow> s
      | Some fs \<Rightarrow> s\<lparr>FoldSet := (FoldSet s)(fs := remove1 t (FoldSet s fs))\<rparr>)"

definition eraseTypesASTContext :: "ty list \<Rightarrow> type_tables \<Rightarrow> type_tables" where
  "eraseTypesASTContext us s =
     (let s1 = fold (\<lambda>t s. RemoveNode t (s\<lparr>MemoizedTypeInfo := removeAll t (MemoizedTypeInfo s)\<rparr>)) us s
      in s1\<lparr>VariableArrays := filter (\<lambda>t. t \<notin> set us) (VariableArrays s1),
            AllTypes := filter (\<lambda>t. t \<notin> set us) (AllTypes s1)\<rparr>)"


subsection \<open>Any type\<close>

text \<open>
  A request for a type with these fields, as the function of its class answers it. A dependent
  underlying type has none as written. Types that other functions make are left out.
\<close>

definition request :: "shape \<Rightarrow> type_tables \<Rightarrow> (qual \<times> type_tables) option" where
  "request sh s =
     (case sh of
        ComplexSh T \<Rightarrow> getComplexType T s
      | PointerSh T \<Rightarrow> getPointerType T s
      | AdjustedSh T U \<Rightarrow> getAdjustedType T U s
      | BlockPointerSh T \<Rightarrow> getBlockPointerType T s
      | LValueReferenceSh T b \<Rightarrow> getLValueReferenceType T b s
      | RValueReferenceSh T \<Rightarrow> getRValueReferenceType T s
      | MemberPointerSh T c \<Rightarrow> getMemberPointerType T c s
      | ConstantArraySh T n m q \<Rightarrow> getConstantArrayType T n m q s
      | IncompleteArraySh T m q \<Rightarrow> getIncompleteArrayType T m q s
      | VariableArraySh T e m q \<Rightarrow> getVariableArrayType T e m q s
      | DependentSizedArraySh T e m q \<Rightarrow> Some (getDependentSizedArrayType T e m q s)
      | VectorSh T n k \<Rightarrow> getVectorType T n k s
      | ExtVectorSh T n \<Rightarrow> getExtVectorType T n s
      | DependentSizedExtVectorSh T e \<Rightarrow> getDependentSizedExtVectorType T e s
      | DependentAddressSpaceSh T e \<Rightarrow> Some (getDependentAddressSpaceType T e s)
      | FunctionNoProtoSh T i \<Rightarrow> getFunctionNoProtoType T i s
      | PipeSh T r \<Rightarrow> getPipeType T r s
      | InjectedClassNameSh d T \<Rightarrow> getInjectedClassNameType d T s
      | UnresolvedUsingSh d \<Rightarrow> Some (getUnresolvedUsingType d s)
      | TypedefSh d \<Rightarrow> Some (getTypedefType d None s)
      | RecordSh d \<Rightarrow> Some (getRecordType d s)
      | EnumSh d \<Rightarrow> Some (getEnumType d s)
      | AttributedSh k T U \<Rightarrow> getAttributedType k T U s
      | TemplateTypeParmSh d i p D \<Rightarrow> getTemplateTypeParmType d i p D s
      | SubstTemplateTypeParmSh p T \<Rightarrow> getSubstTemplateTypeParmType p T s
      | SubstTemplateTypeParmPackSh p a \<Rightarrow> getSubstTemplateTypeParmPackType p a s
      | ElaboratedSh k n T \<Rightarrow> getElaboratedType k n T s
      | ParenSh T \<Rightarrow> getParenType T s
      | PackExpansionSh T n \<Rightarrow> getPackExpansionType T n s
      | TypeOfExprSh e \<Rightarrow> Some (getTypeOfExprType e s)
      | TypeOfSh T \<Rightarrow> Some (getTypeOfType T s)
      | DecltypeSh e T \<Rightarrow> Some (getDecltypeType e T s)
      | UnaryTransformSh B (Some U) k \<Rightarrow> Some (getUnaryTransformType B U k s)
      | AutoSh D k b \<Rightarrow> getAutoType D k b s
      | DeducedTemplateSpecializationSh n D b \<Rightarrow> getDeducedTemplateSpecializationType n D b s
      | AtomicSh T \<Rightarrow> getAtomicType T s
      | ObjCObjectPointerSh T \<Rightarrow> getObjCObjectPointerType T s
      | _ \<Rightarrow> None)"

end
