(* ===== verification/TypeSharing.thy ===== *)
theory TypeSharing
  imports TypeTables
begin

text \<open>
  Why types may be compared by their addresses: the tables hold one type for every profile and stay
  well typed whatever types the compiler asks for, and no request leads back to a type that was
  unloaded.
\<close>

subsection \<open>Well-formed tables\<close>

definition parts :: "shape \<Rightarrow> ty set" where
  "parts sh =
     (case sh of
        ComplexSh T \<Rightarrow> {fst T} | PointerSh T \<Rightarrow> {fst T} | AdjustedSh T U \<Rightarrow> {fst T, fst U}
      | DecayedSh T U \<Rightarrow> {fst T, fst U} | BlockPointerSh T \<Rightarrow> {fst T} | LValueReferenceSh T _ \<Rightarrow> {fst T}
      | RValueReferenceSh T \<Rightarrow> {fst T} | MemberPointerSh T c \<Rightarrow> {fst T, c} | ConstantArraySh T _ _ _ \<Rightarrow> {fst T}
      | IncompleteArraySh T _ _ \<Rightarrow> {fst T} | VariableArraySh T _ _ _ \<Rightarrow> {fst T}
      | DependentSizedArraySh T _ _ _ \<Rightarrow> {fst T} | VectorSh T _ _ \<Rightarrow> {fst T} | ExtVectorSh T _ \<Rightarrow> {fst T}
      | DependentSizedExtVectorSh T _ \<Rightarrow> {fst T} | DependentAddressSpaceSh T _ \<Rightarrow> {fst T}
      | FunctionNoProtoSh T _ \<Rightarrow> {fst T} | PipeSh T _ \<Rightarrow> {fst T} | InjectedClassNameSh _ T \<Rightarrow> {fst T}
      | AttributedSh _ T U \<Rightarrow> {fst T, fst U} | SubstTemplateTypeParmSh p T \<Rightarrow> {p, fst T}
      | SubstTemplateTypeParmPackSh p _ \<Rightarrow> {p} | ElaboratedSh _ _ T \<Rightarrow> {fst T} | ParenSh T \<Rightarrow> {fst T}
      | PackExpansionSh T _ \<Rightarrow> {fst T} | TypeOfSh T \<Rightarrow> {fst T} | DecltypeSh _ T \<Rightarrow> {fst T}
      | UnaryTransformSh T U _ \<Rightarrow> insert (fst T) (fst ` set_option U) | AutoSh D _ _ \<Rightarrow> fst ` set_option D
      | DeducedTemplateSpecializationSh _ D _ \<Rightarrow> fst ` set_option D | AtomicSh T \<Rightarrow> {fst T}
      | ObjCObjectPointerSh T \<Rightarrow> {fst T}
      | _ \<Rightarrow> {})"

text \<open>The table that a type belongs to, which is not always the one where the unloader looks.\<close>

definition home :: "type_tables \<Rightarrow> ty \<Rightarrow> fold_set option" where
  "home s t =
     (case ShapeOf s t of
        Some (UnaryTransformSh _ _ _) \<Rightarrow> Some DependentUnaryTransformTypes
      | _ \<Rightarrow> table_of s t)"

text \<open>A reference that is its own canonical type refers to a canonical type that is no reference.\<close>

definition pointee_ok :: "type_tables \<Rightarrow> shape \<Rightarrow> bool" where
  "pointee_ok s sh =
     (case sh of
        LValueReferenceSh T _ \<Rightarrow> isCanonical s T \<and> inner_reference s T = None
      | RValueReferenceSh T \<Rightarrow> isCanonical s T \<and> inner_reference s T = None
      | _ \<Rightarrow> True)"

text \<open>
  \<open>us\<close> are the unloaded types. The types that are left are made of types that are left; and
  the tables have no other type, save transformed types of unloaded types.
\<close>

definition live :: "ty set \<Rightarrow> type_tables \<Rightarrow> ty set" where
  "live us s = {t. t < NextType s \<and> t \<notin> us}"

definition type_ok :: "ty set \<Rightarrow> type_tables \<Rightarrow> ty \<Rightarrow> bool" where
  "type_ok us s t \<longleftrightarrow>
     fst (CanonOf s t) < NextType s \<and> CanonOf s (fst (CanonOf s t)) = (fst (CanonOf s t), 0) \<and>
     (\<forall>sh. ShapeOf s t = Some sh \<longrightarrow> parts sh \<subseteq> {..<NextType s} \<and> (CanonOf s t = (t, 0) \<longrightarrow> pointee_ok s sh) \<and>
       (t \<notin> us \<longrightarrow> fst (CanonOf s t) \<notin> us \<and> parts sh \<inter> us = {}))"

definition profile_at :: "type_tables \<Rightarrow> ty \<Rightarrow> shape option" where
  "profile_at s t = map_option (profile s) (ShapeOf s t)"

text \<open>Types that other functions make; and the canonical type of a type in a table is the one it would get now.\<close>

definition made_elsewhere :: "shape \<Rightarrow> bool" where
  "made_elsewhere sh =
     (case sh of
        FunctionProtoSh _ \<Rightarrow> True | TemplateSpecializationSh _ \<Rightarrow> True | DependentNameSh _ \<Rightarrow> True
      | DependentTemplateSpecializationSh _ \<Rightarrow> True | ObjCObjectSh _ \<Rightarrow> True | ObjCInterfaceSh _ \<Rightarrow> True
      | ObjCTypeParamSh _ \<Rightarrow> True
      | _ \<Rightarrow> False)"

definition self_ok :: "type_tables \<Rightarrow> ty \<Rightarrow> bool" where
  "self_ok s t \<longleftrightarrow>
     (\<forall>sh. ShapeOf s t = Some sh \<and> \<not> made_elsewhere sh \<and> canonical_version s sh = CanonSelf \<longrightarrow> CanonOf s t = (t, 0))"

definition set_ok :: "ty set \<Rightarrow> type_tables \<Rightarrow> fold_set \<Rightarrow> bool" where
  "set_ok us s fs \<longleftrightarrow> distinct (FoldSet s fs) \<and> inj_on (profile_at s) (set (FoldSet s fs)) \<and>
     (\<forall>t \<in> set (FoldSet s fs). t < NextType s \<and> home s t = Some fs \<and> self_ok s t \<and>
        (t \<in> us \<longrightarrow> fs = DependentUnaryTransformTypes \<and> (\<forall>sh. ShapeOf s t = Some sh \<longrightarrow> parts sh \<inter> us \<noteq> {})))"

definition tables_ok :: "ty set \<Rightarrow> type_tables \<Rightarrow> bool" where
  "tables_ok us s \<longleftrightarrow> (\<forall>t. ShapeOf s t = None \<longleftrightarrow> NextType s \<le> t) \<and> us \<subseteq> {..<NextType s} \<and>
     DependentTy s \<in> live us s \<and> set_option (AutoDeduct s) \<subseteq> live us s \<and>
     (\<forall>t < NextType s. type_ok us s t) \<and> (\<forall>fs. set_ok us s fs)"

text \<open>What every function does to the state: types are added and stay as they are.\<close>

definition same_world :: "type_tables \<Rightarrow> type_tables \<Rightarrow> bool" where
  "same_world s s' \<longleftrightarrow> CachingMode s' = CachingMode s \<and> PointerWidth s' = PointerWidth s \<and> DependentTy s' = DependentTy s \<and>
     ExprKey s' = ExprKey s \<and> ExprType s' = ExprType s \<and> ExprTypeDependent s' = ExprTypeDependent s \<and>
     ExprDependent s' = ExprDependent s \<and> DependentFlag s' = DependentFlag s \<and> HasPack s' = HasPack s \<and>
     UnderlyingType s' = UnderlyingType s \<and> PrevDeclOf s' = PrevDeclOf s"

definition extends :: "type_tables \<Rightarrow> type_tables \<Rightarrow> bool" where
  "extends s s' \<longleftrightarrow> same_world s s' \<and> NextType s \<le> NextType s' \<and>
     (\<forall>t < NextType s. ShapeOf s' t = ShapeOf s t \<and> CanonOf s' t = CanonOf s t) \<and>
     (\<forall>fs. set (FoldSet s fs) \<subseteq> set (FoldSet s' fs))"

lemma extends_refl [simp]: "extends s s"
  by (simp add: extends_def same_world_def)

lemma extends_trans: "extends s s' \<Longrightarrow> extends s' s'' \<Longrightarrow> extends s s''"
  unfolding extends_def same_world_def by (metis order.strict_trans2 order.trans)

lemma live_extends: "extends s s' \<Longrightarrow> t \<in> live us s \<Longrightarrow> t \<in> live us s'"
  by (simp add: extends_def live_def)

lemma live_bounded: "live us s \<subseteq> {..<NextType s}"
  by (auto simp: live_def)

text \<open>What is asked of types that exist has the same answer later.\<close>

lemma extends_quals:
  assumes "extends s s'" "fst T < NextType s"
  shows "isCanonical s' T = isCanonical s T" "getCanonicalType s' T = getCanonicalType s T"
  using assms by (simp_all add: extends_def isCanonical_def getCanonicalType_def)

lemma fst_getCanonicalType [simp]: "fst (getCanonicalType s T) = fst (CanonOf s (fst T))"
  by (simp add: getCanonicalType_def getQualifiedType_def)

lemma extends_inner:
  assumes "extends s s'" "fst T < NextType s" "fst (CanonOf s (fst T)) < NextType s"
  shows "inner_reference s' T = inner_reference s T"
  using assms by (simp add: inner_reference_def extends_def)

lemma profile_extends: "extends s s' \<Longrightarrow> profile s' = profile s"
proof -
  assume "extends s s'"
  then have "ExprKey s' = ExprKey s" by (simp add: extends_def same_world_def)
  then show ?thesis by (intro ext) (simp only: profile_def)
qed

lemma home_extends:
  assumes "extends s s'" "t < NextType s"
  shows "table_of s' t = table_of s t" "home s' t = home s t" "profile_at s' t = profile_at s t"
proof -
  have same: "ShapeOf s' t = ShapeOf s t" "CanonOf s' t = CanonOf s t" "ExprTypeDependent s' = ExprTypeDependent s"
    "ExprDependent s' = ExprDependent s" "DependentFlag s' = DependentFlag s"
    using assms by (simp_all add: extends_def same_world_def)
  have "isDependentType s' t = isDependentType s t" by (simp only: isDependentType_def same)
  moreover have "isCanonical s' (t, 0) = isCanonical s (t, 0)" by (simp only: isCanonical_def same fst_conv)
  ultimately show table: "table_of s' t = table_of s t" by (simp only: table_of_def same)
  show "home s' t = home s t" by (simp only: home_def same table)
  show "profile_at s' t = profile_at s t" by (simp only: profile_at_def same profile_extends[OF assms(1)])
qed

subsection \<open>One type more\<close>

lemma live_typeD:
  assumes "tables_ok us s" "t \<in> live us s"
  shows "fst (CanonOf s t) \<in> live us s" "CanonOf s (fst (CanonOf s t)) = (fst (CanonOf s t), 0)"
    "ShapeOf s t = Some sh \<Longrightarrow> parts sh \<subseteq> live us s"
    "ShapeOf s t = Some sh \<Longrightarrow> CanonOf s t = (t, 0) \<Longrightarrow> pointee_ok s sh"
proof -
  have t: "type_ok us s t" "t \<notin> us" "t < NextType s" using assms by (auto simp: tables_ok_def live_def)
  then obtain sh' where "ShapeOf s t = Some sh'" using assms(1) by (auto simp: tables_ok_def not_le[symmetric])
  then show "fst (CanonOf s t) \<in> live us s" using t by (simp add: type_ok_def live_def)
  show "CanonOf s (fst (CanonOf s t)) = (fst (CanonOf s t), 0)" using t by (simp add: type_ok_def)
  show "ShapeOf s t = Some sh \<Longrightarrow> parts sh \<subseteq> live us s" using t by (auto simp: type_ok_def live_def)
  show "ShapeOf s t = Some sh \<Longrightarrow> CanonOf s t = (t, 0) \<Longrightarrow> pointee_ok s sh" using t by (simp add: type_ok_def)
qed

lemma live_canonical:
  assumes "tables_ok us s" "fst T \<in> live us s"
  shows "fst (CanonOf s (fst T)) \<in> live us s" "isCanonical s (getCanonicalType s T)"
    "isCanonical s (fst (CanonOf s (fst T)), q)"
  using live_typeD[OF assms] by (simp_all add: isCanonical_def)

lemma pointee_ok_extends:
  assumes "tables_ok us s" "extends s s'" "parts sh \<subseteq> {..<NextType s}"
  shows "pointee_ok s' sh = pointee_ok s sh"
proof -
  have "fst (CanonOf s t) < NextType s" if "t < NextType s" for t
    using assms(1) that by (simp add: tables_ok_def type_ok_def)
  then have "isCanonical s' T = isCanonical s T \<and> inner_reference s' T = inner_reference s T" if "fst T < NextType s" for T
    using extends_quals[OF assms(2) that] extends_inner[OF assms(2) that] that by simp
  then show ?thesis using assms(3) by (cases sh) (simp_all add: pointee_ok_def parts_def)
qed

lemma type_ok_extends:
  assumes "tables_ok us s" "extends s s'" "t < NextType s"
  shows "type_ok us s' t"
proof -
  have t: "type_ok us s t" using assms(1,3) by (simp add: tables_ok_def)
  let ?c = "fst (CanonOf s t)"
  have same: "CanonOf s' t = CanonOf s t" "ShapeOf s' t = ShapeOf s t" "CanonOf s' ?c = CanonOf s ?c" "NextType s \<le> NextType s'"
    using assms(2,3) t by (simp_all add: extends_def type_ok_def)
  have pointee: "pointee_ok s' sh = pointee_ok s sh" if "ShapeOf s t = Some sh" for sh
    using pointee_ok_extends[OF assms(1,2)] t that by (simp add: type_ok_def)
  have "parts sh \<subseteq> {..<NextType s'}" if "ShapeOf s t = Some sh" for sh
    using t that same(4) by (auto simp: type_ok_def intro: order.strict_trans2)
  then show ?thesis using t same(4) pointee unfolding type_ok_def same by simp
qed

lemma canonical_version_extends:
  assumes "tables_ok us s" "extends s s'" "parts sh \<subseteq> {..<NextType s}"
  shows "canonical_version s' sh = canonical_version s sh"
proof -
  have canon: "fst (CanonOf s t) < NextType s" if "t < NextType s" for t
    using assms(1) that by (simp add: tables_ok_def type_ok_def)
  have pack: "HasPack s' = HasPack s" using assms(2) by (simp add: extends_def same_world_def)
  have same: "isCanonical s' T = isCanonical s T" "getCanonicalType s' T = getCanonicalType s T"
    "inner_reference s' T = inner_reference s T" "CanonOf s' (fst T) = CanonOf s (fst T)" if "fst T < NextType s" for T
    using extends_quals[OF assms(2) that] extends_inner[OF assms(2) that canon[OF that]] assms(2) that
    by (simp_all add: extends_def)
  have inner: "P = fst (fst T, u) \<Longrightarrow> fst T < NextType s \<Longrightarrow> isCanonical s' (P, u) = isCanonical s (P, u)" for P T u
    using same(1)[of "(P, u)"] by simp
  have pointee: "fst P < NextType s" if "fst T < NextType s" "inner_reference s T = Some P" for T P
  proof -
    have "type_ok us s (fst (CanonOf s (fst T)))" using assms(1) canon[OF that(1)] by (simp add: tables_ok_def)
    then show ?thesis using that(2) by (auto simp: inner_reference_def type_ok_def parts_def split: option.splits shape.splits)
  qed
  have referenced: "referenced s' T = referenced s T" if "fst T < NextType s" for T
    using same[OF that] same(2)[OF that] same(2)[OF pointee[OF that]] by (auto simp: referenced_def split: option.split)
  show ?thesis
    using assms(3)
    by (cases sh) (auto simp: canonical_version_def parts_def via_canonical_def via_element_def sugar_of_def pack
        same same(1)[of "(_, 0)", simplified] same(4)[of "(_, 0)", simplified] referenced split: option.split)
qed

lemma self_ok_extends:
  assumes ok: "tables_ok us s" and "extends s s'" "t < NextType s" "self_ok s t"
  shows "self_ok s' t"
  unfolding self_ok_def
proof (intro allI impI)
  fix sh assume sh: "ShapeOf s' t = Some sh \<and> \<not> made_elsewhere sh \<and> canonical_version s' sh = CanonSelf"
  have same: "ShapeOf s' t = ShapeOf s t" "CanonOf s' t = CanonOf s t" using assms(2,3) by (simp_all add: extends_def)
  have "type_ok us s t" using ok assms(3) by (simp add: tables_ok_def)
  then have "parts sh \<subseteq> {..<NextType s}" using sh same by (simp add: type_ok_def)
  then have "canonical_version s sh = CanonSelf" using canonical_version_extends[OF ok assms(2)] sh by simp
  then show "CanonOf s' t = (t, 0)" using assms(4) sh same by (simp add: self_ok_def)
qed

lemma set_ok_extends:
  assumes ok: "tables_ok us s" and "set_ok us s fs" "extends s s'" "FoldSet s' fs = FoldSet s fs"
  shows "set_ok us s' fs"
proof -
  note assms = assms(2-)
  have bounded: "t < NextType s" if "t \<in> set (FoldSet s fs)" for t using assms(1) that by (simp add: set_ok_def)
  have shape: "ShapeOf s' t = ShapeOf s t" "t < NextType s'" if "t \<in> set (FoldSet s fs)" for t
    using assms(2) bounded[OF that] by (simp_all add: extends_def)
  have "inj_on (profile_at s') (set (FoldSet s fs)) = inj_on (profile_at s) (set (FoldSet s fs))"
    using home_extends(3)[OF assms(2) bounded] by (intro inj_on_cong)
  moreover have "self_ok s' t" if "t \<in> set (FoldSet s fs)" for t
    using self_ok_extends[OF ok assms(2) bounded[OF that]] assms(1) that by (simp add: set_ok_def)
  ultimately show ?thesis using assms(1) shape home_extends(2)[OF assms(2) bounded] by (auto simp: set_ok_def assms(3))
qed


lemma find_node_None:
  "find_node fs sh s = None \<longleftrightarrow> Some (profile s sh) \<notin> profile_at s ` set (FoldSet s fs)"
  by (auto simp: find_node_def find_None_iff profile_at_def image_iff eq_commute[of "Some (profile s sh)"])

lemma find_node_Some:
  "find_node fs sh s = Some t \<Longrightarrow> t \<in> set (FoldSet s fs) \<and> profile_at s t = Some (profile s sh)"
  by (auto simp: find_node_def find_Some_iff profile_at_def)

text \<open>A canonical type that is given is one.\<close>

definition canon_ok :: "ty set \<Rightarrow> type_tables \<Rightarrow> shape \<Rightarrow> qual option \<Rightarrow> bool" where
  "canon_ok us s sh canon \<longleftrightarrow>
     (case canon of None \<Rightarrow> pointee_ok s sh | Some C \<Rightarrow> fst C \<in> live us s \<and> isCanonical s C)"

lemma isCanonical_fst: "isCanonical s T \<Longrightarrow> isCanonical s (fst T, q)"
  by (simp add: isCanonical_def)

lemma alloc_type_ok:
  assumes ok: "tables_ok us s" and parts: "parts sh \<subseteq> live us s" and canon: "canon_ok us s sh canon"
    and alloc: "alloc_type sh canon s = (t, s')"
  shows "tables_ok us s'" "extends s s'" "t \<in> live us s'" "t = NextType s" "ShapeOf s' t = Some sh"
    "CanonOf s' t = (case canon of None \<Rightarrow> (t, 0) | Some C \<Rightarrow> C)" "FoldSet s' = FoldSet s" "NextType s' = Suc t"
proof -
  let ?canon = "case canon of None \<Rightarrow> (NextType s, 0) | Some C \<Rightarrow> C"
  have s': "s' = s\<lparr>ShapeOf := (ShapeOf s)(NextType s \<mapsto> sh), CanonOf := (CanonOf s)(NextType s := ?canon),
      NextType := Suc (NextType s)\<rparr>" and t: "t = NextType s"
    using alloc by (auto simp: alloc_type_def Let_def)
  show "t = NextType s" "ShapeOf s' t = Some sh" "FoldSet s' = FoldSet s" "NextType s' = Suc t"
    "CanonOf s' t = (case canon of None \<Rightarrow> (t, 0) | Some C \<Rightarrow> C)"
    by (simp_all add: s' t split: option.split)
  show extends: "extends s s'" by (simp add: extends_def same_world_def s')
  have fresh: "us \<subseteq> {..<NextType s}" and shapes: "ShapeOf s u = None \<longleftrightarrow> NextType s \<le> u" for u
    using ok by (auto simp: tables_ok_def)
  then show live: "t \<in> live us s'" by (auto simp: live_def s' t)
  have c: "fst ?canon < NextType s'" "CanonOf s' (fst ?canon) = (fst ?canon, 0)" "fst ?canon \<notin> us"
  proof (atomize (full), cases canon)
    case None
    then show "fst ?canon < NextType s' \<and> CanonOf s' (fst ?canon) = (fst ?canon, 0) \<and> fst ?canon \<notin> us"
      using fresh by (auto simp: s')
  next
    case (Some C)
    then have "fst C < NextType s" "fst C \<notin> us" "CanonOf s (fst C) = (fst C, 0)"
      using canon by (auto simp: canon_ok_def live_def isCanonical_def)
    then show "fst ?canon < NextType s' \<and> CanonOf s' (fst ?canon) = (fst ?canon, 0) \<and> fst ?canon \<notin> us"
      using Some by (simp add: s')
  qed
  have bounded: "parts sh \<subseteq> {..<NextType s}" "parts sh \<inter> us = {}" using parts by (auto simp: live_def)
  have "pointee_ok s' sh" if "CanonOf s' t = (t, 0)"
  proof -
    have "canon = None \<or> (\<exists>C. canon = Some C \<and> fst C = NextType s)" using that by (cases canon) (auto simp: s' t)
    then have "pointee_ok s sh" using canon by (auto simp: canon_ok_def live_def)
    then show ?thesis using pointee_ok_extends[OF ok extends bounded(1)] by simp
  qed
  then have "type_ok us s' t"
    using c bounded by (auto simp: type_ok_def s' t)
  moreover have "type_ok us s' u" if "u < NextType s" for u using type_ok_extends[OF ok extends that] .
  moreover have "set_ok us s' fs" for fs using set_ok_extends[OF ok _ extends] ok by (simp add: tables_ok_def s')
  moreover have "set_option (AutoDeduct s') \<subseteq> live us s'" "DependentTy s' \<in> live us s'"
    using ok by (auto simp: tables_ok_def s' live_def)
  ultimately show "tables_ok us s'"
    using fresh shapes unfolding tables_ok_def by (auto simp: s' t less_Suc_eq)
qed

lemma InsertNode_ok:
  assumes ok: "tables_ok us s" and t: "t \<in> live us s" "home s t = Some fs" "self_ok s t"
    and new: "profile_at s t \<notin> profile_at s ` set (FoldSet s fs)"
  shows "tables_ok us (InsertNode fs t s)" "extends s (InsertNode fs t s)"
proof -
  let ?s = "InsertNode fs t s"
  show extends: "extends s ?s" by (auto simp: extends_def same_world_def InsertNode_def)
  have [simp]: "ShapeOf ?s = ShapeOf s" "CanonOf ?s = CanonOf s" "NextType ?s = NextType s" "AutoDeduct ?s = AutoDeduct s"
    "DependentTy ?s = DependentTy s" "live us ?s = live us s"
    by (simp_all add: InsertNode_def live_def)
  have same: "home ?s u = home s u" "profile_at ?s u = profile_at s u" if "u < NextType s" for u
    using home_extends[OF extends that] by simp_all
  have types: "type_ok us ?s u" if "u < NextType s" for u using type_ok_extends[OF ok extends that] .
  have sets: "set_ok us s f" for f using ok by (simp add: tables_ok_def)
  have "set_ok us ?s f" for f
  proof (cases "f = fs")
    case False
    then show ?thesis by (intro set_ok_extends[OF ok sets extends]) (simp add: InsertNode_def)
  next
    case True
    have F: "FoldSet ?s fs = t # FoldSet s fs" by (simp add: InsertNode_def)
    have bounded: "u < NextType s" if "u \<in> insert t (set (FoldSet s fs))" for u
      using that t(1) sets[of fs] by (auto simp: set_ok_def live_def)
    have "inj_on (profile_at ?s) (set (FoldSet ?s fs)) = inj_on (profile_at s) (insert t (set (FoldSet s fs)))"
      unfolding F list.set by (rule inj_on_cong) (rule same(2)[OF bounded])
    moreover have "inj_on (profile_at s) (insert t (set (FoldSet s fs)))"
      using sets[of fs] new by (auto simp: set_ok_def inj_on_insert)
    moreover have "t \<notin> set (FoldSet s fs)" using new by blast
    moreover have "self_ok ?s u" if "u \<in> insert t (set (FoldSet s fs))" for u
      using self_ok_extends[OF ok extends bounded[OF that]] that t(3) sets[of fs] by (auto simp: set_ok_def)
    ultimately show ?thesis
      using True sets[of fs] t same(1)[OF bounded] by (auto simp: set_ok_def F live_def)
  qed
  then show "tables_ok us ?s" using ok types by (simp add: tables_ok_def)
qed


text \<open>The lists of types are of no account.\<close>

lemma other_fields_ok:
  assumes ok: "tables_ok us s" and "same_world s s'" "ShapeOf s' = ShapeOf s" "CanonOf s' = CanonOf s"
    "FoldSet s' = FoldSet s" "NextType s' = NextType s" "set_option (AutoDeduct s') \<subseteq> live us s"
  shows "tables_ok us s'" "extends s s'" "live us s' = live us s"
proof -
  show extends: "extends s s'" using assms(2-6) by (simp add: extends_def)
  show live: "live us s' = live us s" using assms(6) by (simp add: live_def)
  have "type_ok us s' t" if "t < NextType s" for t using type_ok_extends[OF ok extends that] .
  moreover have "set_ok us s' fs" for fs
    using set_ok_extends[OF ok _ extends] ok assms(5) by (simp add: tables_ok_def)
  ultimately show "tables_ok us s'" using ok assms(2-7) live by (simp add: tables_ok_def same_world_def)
qed

lemma push_ok:
  assumes "tables_ok us s"
  shows "tables_ok us (push_new_type t (push_type u s))" "extends s (push_new_type t (push_type u s))"
    "live us (push_new_type t (push_type u s)) = live us s"
    "tables_ok us (push_type u s)" "extends s (push_type u s)" "live us (push_type u s) = live us s"
    "tables_ok us (push_variable_array t s)" "extends s (push_variable_array t s)" "live us (push_variable_array t s) = live us s"
proof -
  have auto_deduct: "set_option (AutoDeduct s) \<subseteq> live us s" using assms by (simp add: tables_ok_def)
  note other = other_fields_ok[OF assms]
  show "tables_ok us (push_new_type t (push_type u s))" "extends s (push_new_type t (push_type u s))"
    "live us (push_new_type t (push_type u s)) = live us s"
    by (rule other; simp add: push_new_type_def push_type_def same_world_def auto_deduct)+
  show "tables_ok us (push_type u s)" "extends s (push_type u s)" "live us (push_type u s) = live us s"
    by (rule other; simp add: push_type_def same_world_def auto_deduct)+
  show "tables_ok us (push_variable_array t s)" "extends s (push_variable_array t s)" "live us (push_variable_array t s) = live us s"
    by (rule other; simp add: push_variable_array_def same_world_def auto_deduct)+
qed

text \<open>An answer: the type is there, and its tables are fine.\<close>

definition answers :: "ty set \<Rightarrow> type_tables \<Rightarrow> qual \<times> type_tables \<Rightarrow> bool" where
  "answers us s r \<longleftrightarrow> tables_ok us (snd r) \<and> extends s (snd r) \<and> fst (fst r) \<in> live us (snd r)"

lemma answersI:
  "tables_ok us s' \<Longrightarrow> extends s s' \<Longrightarrow> fst T \<in> live us s' \<Longrightarrow> answers us s (T, s')"
  by (simp add: answers_def)

lemma answers_trans: "extends s s1 \<Longrightarrow> answers us s1 r \<Longrightarrow> answers us s r"
  by (auto simp: answers_def intro: extends_trans)

lemma new_type_ok:
  assumes "tables_ok us s" "parts sh \<subseteq> live us s" "canon_ok us s sh canon" "new_type sh canon s = (T, s')"
  shows "answers us s (T, s')" "T = (NextType s, 0)" "ShapeOf s' (NextType s) = Some sh" "FoldSet s' = FoldSet s"
    "CanonOf s' (NextType s) = (case canon of None \<Rightarrow> (NextType s, 0) | Some C \<Rightarrow> C)"
proof -
  obtain t s1 where alloc: "alloc_type sh canon s = (t, s1)" by (cases "alloc_type sh canon s")
  note a = alloc_type_ok[OF assms(1-3) alloc]
  have T: "T = (t, 0)" "s' = push_new_type t (push_type t s1)" using assms(4) alloc by (simp_all add: new_type_def)
  show "answers us s (T, s')"
    using a push_ok[OF a(1)] by (intro answersI) (auto simp: T intro: extends_trans)
  show "T = (NextType s, 0)" using T(1) a(4) by simp
  show "ShapeOf s' (NextType s) = Some sh" "FoldSet s' = FoldSet s"
    "CanonOf s' (NextType s) = (case canon of None \<Rightarrow> (NextType s, 0) | Some C \<Rightarrow> C)"
    using a(5-7)[unfolded a(4)] by (simp_all add: T(2) push_new_type_def push_type_def)
qed

lemma insert_new_ok:
  assumes ok: "tables_ok us s" and s1: "tables_ok us s1" "extends s s1" "NextType s \<in> live us s1" "FoldSet s1 = FoldSet s"
    and shape: "ShapeOf s1 (NextType s) = Some sh" and bounded: "parts sh \<subseteq> {..<NextType s}"
    and new: "find_node fs sh s = None" and home: "home s1 (NextType s) = Some fs"
    and self: "canonical_version s sh = CanonSelf \<Longrightarrow> \<not> made_elsewhere sh \<Longrightarrow> CanonOf s1 (NextType s) = (NextType s, 0)"
  shows "tables_ok us (InsertNode fs (NextType s) s1)" "extends s (InsertNode fs (NextType s) s1)"
    "NextType s \<in> live us (InsertNode fs (NextType s) s1)"
proof -
  have "self_ok s1 (NextType s)"
    using self shape canonical_version_extends[OF ok s1(2) bounded] by (simp add: self_ok_def)
  moreover have "profile_at s1 (NextType s) \<notin> profile_at s1 ` set (FoldSet s1 fs)"
  proof -
    have "profile_at s1 t = profile_at s t" if "t \<in> set (FoldSet s fs)" for t
      using home_extends(3)[OF s1(2)] ok that by (simp add: tables_ok_def set_ok_def)
    then show ?thesis
      using new shape by (auto simp: s1(4) find_node_None profile_extends[OF s1(2)] profile_at_def[of s1 "NextType s"])
  qed
  ultimately have s': "tables_ok us (InsertNode fs (NextType s) s1)" "extends s1 (InsertNode fs (NextType s) s1)"
    using InsertNode_ok[OF s1(1,3) home] by simp_all
  then show "tables_ok us (InsertNode fs (NextType s) s1)" "extends s (InsertNode fs (NextType s) s1)"
    "NextType s \<in> live us (InsertNode fs (NextType s) s1)"
    using s1 by (auto intro: extends_trans live_extends)
qed

lemma new_node_ok:
  assumes ok: "tables_ok us s" and "parts sh \<subseteq> live us s" "canon_ok us s sh canon" "new_node fs sh canon s = (T, s')"
    and new: "find_node fs sh s = None"
    and home: "\<And>s1. extends s s1 \<Longrightarrow> ShapeOf s1 (NextType s) = Some sh \<Longrightarrow>
      CanonOf s1 (NextType s) = (case canon of None \<Rightarrow> (NextType s, 0) | Some C \<Rightarrow> C) \<Longrightarrow> home s1 (NextType s) = Some fs"
    and self: "canonical_version s sh = CanonSelf \<Longrightarrow> \<not> made_elsewhere sh \<Longrightarrow> canon = None"
  shows "answers us s (T, s')" "T = (NextType s, 0)" "ShapeOf s' (NextType s) = Some sh"
    "set (FoldSet s' fs) = insert (NextType s) (set (FoldSet s fs))"
    "CanonOf s' (NextType s) = (case canon of None \<Rightarrow> (NextType s, 0) | Some C \<Rightarrow> C)"
proof -
  obtain s1 where T: "new_type sh canon s = (T, s1)" "s' = InsertNode fs (fst T) s1"
    using assms(4) by (auto simp: new_node_def split: prod.splits)
  note n = new_type_ok[OF assms(1-3) T(1)]
  have s1: "tables_ok us s1" "extends s s1" "NextType s \<in> live us s1" using n(1,2) by (simp_all add: answers_def)
  have canon: "CanonOf s1 (NextType s) = (NextType s, 0)" if "canonical_version s sh = CanonSelf" "\<not> made_elsewhere sh"
    using self[OF that] n(5) by simp
  show "answers us s (T, s')"
    using insert_new_ok[OF ok s1 n(4) n(3) subset_trans[OF assms(2) live_bounded] new home[OF s1(2) n(3) n(5)] canon]
    by (simp add: answers_def T(2) n(2))
  show "T = (NextType s, 0)" using n(2) .
  show "ShapeOf s' (NextType s) = Some sh" "set (FoldSet s' fs) = insert (NextType s) (set (FoldSet s fs))"
    "CanonOf s' (NextType s) = (case canon of None \<Rightarrow> (NextType s, 0) | Some C \<Rightarrow> C)"
    using n by (simp_all add: T(2) InsertNode_def)
qed


subsection \<open>The shared tables\<close>

text \<open>The tables of the classes for which the one function serves, and what it is asked with.\<close>

definition shared_table :: "shape \<Rightarrow> fold_set option" where
  "shared_table sh =
     (case sh of
        ComplexSh _ \<Rightarrow> Some ComplexTypes | PointerSh _ \<Rightarrow> Some PointerTypes | AdjustedSh _ _ \<Rightarrow> Some AdjustedTypes
      | BlockPointerSh _ \<Rightarrow> Some BlockPointerTypes | LValueReferenceSh _ _ \<Rightarrow> Some LValueReferenceTypes
      | RValueReferenceSh _ \<Rightarrow> Some RValueReferenceTypes | MemberPointerSh _ _ \<Rightarrow> Some MemberPointerTypes
      | ConstantArraySh _ _ _ _ \<Rightarrow> Some ConstantArrayTypes | IncompleteArraySh _ _ _ \<Rightarrow> Some IncompleteArrayTypes
      | VectorSh _ _ _ \<Rightarrow> Some VectorTypes | ExtVectorSh _ _ \<Rightarrow> Some VectorTypes
      | FunctionNoProtoSh _ _ \<Rightarrow> Some FunctionNoProtoTypes | PipeSh _ _ \<Rightarrow> Some PipeTypes
      | AttributedSh _ _ _ \<Rightarrow> Some AttributedTypes | TemplateTypeParmSh _ _ _ _ \<Rightarrow> Some TemplateTypeParmTypes
      | SubstTemplateTypeParmSh _ _ \<Rightarrow> Some SubstTemplateTypeParmTypes
      | SubstTemplateTypeParmPackSh _ _ \<Rightarrow> Some SubstTemplateTypeParmPackTypes
      | ElaboratedSh _ _ _ \<Rightarrow> Some ElaboratedTypes | ParenSh _ \<Rightarrow> Some ParenTypes
      | PackExpansionSh _ _ \<Rightarrow> Some PackExpansionTypes | AutoSh _ _ _ \<Rightarrow> Some AutoTypes
      | DeducedTemplateSpecializationSh _ _ _ \<Rightarrow> Some DeducedTemplateSpecializationTypes
      | AtomicSh _ \<Rightarrow> Some AtomicTypes | ObjCObjectPointerSh _ \<Rightarrow> Some ObjCObjectPointerTypes
      | _ \<Rightarrow> None)"

definition replacement_ok :: "type_tables \<Rightarrow> shape \<Rightarrow> bool" where
  "replacement_ok s sh = (case sh of SubstTemplateTypeParmSh _ T \<Rightarrow> isCanonical s T | _ \<Rightarrow> True)"

lemma shared_home:
  assumes "shared_table sh = Some fs" "ShapeOf s t = Some sh"
  shows "home s t = Some fs"
  using assms by (cases sh) (auto simp: shared_table_def home_def table_of_def Let_def)

lemma shared_not_transform: "shared_table sh = Some fs \<Longrightarrow> fs \<noteq> DependentUnaryTransformTypes"
  by (cases sh) (auto simp: shared_table_def)

lemma inner_reference_live:
  assumes "tables_ok us s" "fst T \<in> live us s" "inner_reference s T = Some P"
  shows "fst P \<in> live us s" "isCanonical s P" "inner_reference s P = None"
proof -
  let ?c = "fst (CanonOf s (fst T))"
  have c: "?c \<in> live us s" "CanonOf s ?c = (?c, 0)" using live_typeD[OF assms(1,2)] by simp_all
  obtain sh where sh: "ShapeOf s ?c = Some sh" "sh = RValueReferenceSh P \<or> (\<exists>b. sh = LValueReferenceSh P b)"
    using assms(3) by (auto simp: inner_reference_def split: option.splits shape.splits)
  then show "fst P \<in> live us s" using live_typeD(3)[OF assms(1) c(1)] by (auto simp: parts_def)
  show "isCanonical s P" "inner_reference s P = None"
    using live_typeD(4)[OF assms(1) c(1)] c(2) sh by (auto simp: pointee_ok_def)
qed

lemma referenced_ok:
  assumes "tables_ok us s" "fst T \<in> live us s"
  shows "fst (referenced s T) \<in> live us s" "isCanonical s (referenced s T)" "inner_reference s (referenced s T) = None"
proof -
  let ?U = "case inner_reference s T of Some P \<Rightarrow> P | None \<Rightarrow> T"
  have U: "fst ?U \<in> live us s" "inner_reference s ?U = None"
    using inner_reference_live[OF assms] assms(2) by (auto split: option.split)
  then show "fst (referenced s T) \<in> live us s" "isCanonical s (referenced s T)"
    using live_canonical[OF assms(1) U(1)] by (simp_all add: referenced_def)
  have "fst (CanonOf s (fst (CanonOf s (fst ?U)))) = fst (CanonOf s (fst ?U))"
    using live_typeD(2)[OF assms(1) U(1)] by simp
  then show "inner_reference s (referenced s T) = None" using U(2) by (simp add: inner_reference_def referenced_def)
qed

lemma via_canonical_iff:
  "via_canonical s T f = CanonVia sh q \<longleftrightarrow> \<not> isCanonical s T \<and> sh = f (getCanonicalType s T) \<and> q = 0"
  by (auto simp: via_canonical_def)

lemma via_self:
  "isCanonical s T \<Longrightarrow> via_canonical s T f = CanonSelf"
  "isCanonical s (t, 0) \<Longrightarrow> via_element s (t, 0) f = CanonSelf"
  by (simp_all add: via_canonical_def via_element_def hasLocalQualifiers_def)

lemma via_element_iff:
  "via_element s T f = CanonVia sh q \<longleftrightarrow>
    (\<not> isCanonical s T \<or> hasLocalQualifiers T) \<and> sh = f (fst (CanonOf s (fst T)), 0) \<and> q = snd (getCanonicalType s T)"
  by (auto simp: via_element_def split: prod.split) (metis fst_conv fst_getCanonicalType)+

text \<open>The other version is canonical, so the recursion is one call deep.\<close>

lemma canonical_version_via:
  assumes ok: "tables_ok us s" and live: "parts sh \<subseteq> live us s" and via: "canonical_version s sh = CanonVia sh' q"
  shows "parts sh' \<subseteq> live us s" "canonical_version s sh' = CanonSelf" "shared_table sh' = shared_table sh"
    "profile s sh' \<noteq> profile s sh" "\<not> made_elsewhere sh'"
proof -
  have canon: "fst (CanonOf s (fst T)) \<in> live us s" "isCanonical s (getCanonicalType s T)"
    "isCanonical s (fst (CanonOf s (fst T)), 0)" if "fst T \<in> live us s" for T
    using live_canonical[OF ok that] by simp_all
  have differs: "getCanonicalType s T \<noteq> T" if "fst T \<in> live us s" "\<not> isCanonical s T" for T
    using canon(2)[OF that(1)] that(2) by metis
  have itself: "isCanonical s (t, p)" if "t \<in> live us s" "fst (CanonOf s t) = t" for t p
    using live_typeD(2)[OF ok that(1)] that(2) by (simp add: isCanonical_def)
  note ref = referenced_ok[OF ok]
  have ref_differs: "referenced s T \<noteq> T" if "fst T \<in> live us s" "inner_reference s T \<noteq> None \<or> \<not> isCanonical s T" for T
    using ref(2,3)[OF that(1)] that(2) by metis
  note via_simps = canonical_version_def via_canonical_iff via_element_iff sugar_of_def
  show "parts sh' \<subseteq> live us s"
    using live via canon(1) ref(1)
    by (cases sh) (auto simp: via_simps parts_def split: if_splits option.splits)
  show "shared_table sh' = shared_table sh" "\<not> made_elsewhere sh'"
    using via by (cases sh; auto simp: via_simps shared_table_def made_elsewhere_def split: if_splits option.splits)+
  show "canonical_version s sh' = CanonSelf"
    using live via canon ref
    by (cases sh) (auto simp: via_simps via_self parts_def split: if_splits option.splits)
  show "profile s sh' \<noteq> profile s sh"
    using live via differs ref_differs itself
    by (cases sh) (auto simp: via_simps profile_def parts_def hasLocalQualifiers_def split: if_splits option.splits)
qed


lemma canonical_version_given:
  assumes ok: "tables_ok us s" and live: "parts sh \<subseteq> live us s" and given: "replacement_ok s sh"
  shows "canonical_version s sh = CanonSelf \<Longrightarrow> canon_ok us s sh None"
    "canonical_version s sh = CanonIs C \<Longrightarrow> canon_ok us s sh (Some C)"
proof -
  have canon: "fst (CanonOf s (fst T)) \<in> live us s" "isCanonical s (getCanonicalType s T)" if "fst T \<in> live us s" for T
    using live_canonical[OF ok that] by simp_all
  show "canonical_version s sh = CanonSelf \<Longrightarrow> canon_ok us s sh None"
    by (cases sh) (simp_all add: canonical_version_def canon_ok_def pointee_ok_def del: not_None_eq split: if_splits)
  show "canonical_version s sh = CanonIs C \<Longrightarrow> canon_ok us s sh (Some C)"
    using live given canon
    by (cases sh) (auto simp: canonical_version_def canon_ok_def parts_def sugar_of_def replacement_ok_def via_canonical_def
        via_element_def split: if_splits option.splits prod.splits)
qed

text \<open>
  The one function: it returns, what it returns has the profile that was asked for and is in the
  table, and it is canonical when it has no other version.
\<close>

definition answers_with :: "ty set \<Rightarrow> fold_set \<Rightarrow> shape \<Rightarrow> type_tables \<Rightarrow> qual \<times> type_tables \<Rightarrow> bool" where
  "answers_with us fs sh s r \<longleftrightarrow> answers us s r \<and> snd (fst r) = 0 \<and> fst (fst r) \<in> set (FoldSet (snd r) fs) \<and>
     profile_at (snd r) (fst (fst r)) = Some (profile s sh) \<and>
     (\<forall>t \<in> set (FoldSet (snd r) fs). t \<notin> set (FoldSet s fs) \<longrightarrow> t = fst (fst r))"

lemma shared_profile:
  "profile s sh = profile s sh' \<Longrightarrow> shared_table sh = Some fs \<Longrightarrow> canonical_version s sh = CanonSelf \<Longrightarrow>
    sh' = sh"
proof -
  assume same: "profile s sh = profile s sh'" and shared: "shared_table sh = Some fs" and self: "canonical_version s sh = CanonSelf"
  have "profile s sh = sh"
    using shared self by (cases sh) (auto simp: profile_def shared_table_def canonical_version_def)
  with same have "profile s sh' = sh" by (rule trans[OF sym])
  then show "sh' = sh"
    using shared self by (cases sh') (auto simp: profile_def shared_table_def canonical_version_def)
qed

lemma found_ok:
  assumes ok: "tables_ok us s" and "shared_table sh = Some fs" "find_node fs sh s = Some t"
  shows "answers_with us fs sh s ((t, 0), s)" "canonical_version s sh = CanonSelf \<Longrightarrow> isCanonical s (t, 0)"
proof -
  have t: "t \<in> set (FoldSet s fs)" "profile_at s t = Some (profile s sh)" using find_node_Some[OF assms(3)] by simp_all
  have "set_ok us s fs" using ok by (simp add: tables_ok_def)
  then have "t \<in> live us s" and self: "self_ok s t"
    using t(1) shared_not_transform[OF assms(2)] by (auto simp: set_ok_def live_def)
  then show "answers_with us fs sh s ((t, 0), s)" using t ok by (simp add: answers_with_def answers_def)
  obtain sh' where sh': "ShapeOf s t = Some sh'" "profile s sh' = profile s sh" using t(2) by (auto simp: profile_at_def)
  assume self': "canonical_version s sh = CanonSelf"
  have "sh' = sh" using shared_profile[OF sh'(2)[symmetric] assms(2) self'] .
  moreover have "\<not> made_elsewhere sh" using assms(2) by (cases sh) (auto simp: shared_table_def made_elsewhere_def)
  ultimately show "isCanonical s (t, 0)" using self self' sh' by (simp add: self_ok_def isCanonical_def)
qed

lemma new_shared_ok:
  assumes ok: "tables_ok us s" and shared: "shared_table sh = Some fs" and "find_node fs sh s = None"
    and "parts sh \<subseteq> live us s" "canon_ok us s sh canon" "canonical_version s sh = CanonSelf \<Longrightarrow> canon = None"
  shows "answers_with us fs sh s (new_node fs sh canon s)"
    "canonical_version s sh = CanonSelf \<Longrightarrow> isCanonical (snd (new_node fs sh canon s)) (fst (new_node fs sh canon s))"
proof -
  obtain T s' where T: "new_node fs sh canon s = (T, s')" by (cases "new_node fs sh canon s")
  note n = new_node_ok[OF ok assms(4,5) T assms(3) shared_home[OF shared] assms(6)]
  have "profile_at s' (NextType s) = Some (profile s sh)"
    using n(1,3) profile_extends[of s s'] by (simp add: profile_at_def answers_def)
  then show "answers_with us fs sh s (new_node fs sh canon s)" using n by (simp add: T answers_with_def)
  show "isCanonical (snd (new_node fs sh canon s)) (fst (new_node fs sh canon s))" if "canonical_version s sh = CanonSelf"
    using n(2,5) assms(6)[OF that] unfolding T by (simp add: isCanonical_def)
qed

lemma answers_with_absent:
  assumes ok: "tables_ok us s" and "find_node fs sh s = None" "answers_with us fs sh' s (T, s')"
    "profile s sh' \<noteq> profile s sh"
  shows "find_node fs sh s' = None"
proof -
  have extends: "extends s s'" and T: "profile_at s' (fst T) = Some (profile s sh')"
    and others: "t \<in> set (FoldSet s' fs) \<Longrightarrow> t \<in> set (FoldSet s fs) \<or> t = fst T" for t
    using assms(3) by (auto simp: answers_with_def answers_def)
  have "profile_at s' t = profile_at s t" if "t \<in> set (FoldSet s fs)" for t
    using home_extends(3)[OF extends] ok that by (simp add: tables_ok_def set_ok_def)
  then have "Some (profile s sh) \<noteq> profile_at s' t" if "t \<in> set (FoldSet s' fs)" for t
    using assms(2,4) others[OF that] T by (auto simp: find_node_None image_iff)
  then show ?thesis by (auto simp: find_node_None profile_extends[OF extends])
qed

lemma uniqued_ok:
  assumes ok: "tables_ok us s" and shared: "shared_table sh = Some fs" and live: "parts sh \<subseteq> live us s"
    and given: "replacement_ok s sh"
  shows "\<exists>r. uniqued fs sh s = Some r \<and> answers us s r \<and> snd (fst r) = 0 \<and>
    fst (fst r) \<in> set (FoldSet (snd r) fs) \<and> profile_at (snd r) (fst (fst r)) = Some (profile s sh)"
proof (cases "find_node fs sh s")
  case (Some t)
  then show ?thesis using found_ok(1)[OF ok shared Some] by (subst uniqued.simps) (auto simp: answers_with_def)
next
  case absent: None
  note given_ok = canonical_version_given[OF ok live given]
  show ?thesis
  proof (cases "canonical_version s sh")
    case CanonSelf
    then have "uniqued fs sh s = Some (new_node fs sh None s)" using absent by (subst uniqued.simps) simp
    then show ?thesis using new_shared_ok(1)[OF ok shared absent live given_ok(1)[OF CanonSelf]]
      by (auto simp: answers_with_def)
  next
    case (CanonIs C)
    then have "uniqued fs sh s = Some (new_node fs sh (Some C) s)" using absent by (subst uniqued.simps) simp
    then show ?thesis using new_shared_ok(1)[OF ok shared absent live given_ok(2)[OF CanonIs]] CanonIs
      by (auto simp: answers_with_def)
  next
    case (CanonVia sh' q)
    note via = canonical_version_via[OF ok live CanonVia]
    have shared': "shared_table sh' = Some fs" using via(3) shared by simp
    have given': "canon_ok us s sh' None"
      using via(2) by (cases sh') (auto simp: canonical_version_def canon_ok_def pointee_ok_def simp del: not_None_eq split: if_splits)
    obtain T s1 where inner: "uniqued fs sh' s = Some (T, s1)" "answers_with us fs sh' s (T, s1)" "isCanonical s1 T"
    proof (cases "find_node fs sh' s")
      case (Some t)
      then have "uniqued fs sh' s = Some ((t, 0), s)" by (subst uniqued.simps) simp
      then show ?thesis using that found_ok[OF ok shared' Some] via(2) by blast
    next
      case None
      then have "uniqued fs sh' s = Some (new_node fs sh' None s)" using via(2) by (subst uniqued.simps) simp
      then show ?thesis using that new_shared_ok[OF ok shared' None via(1) given'] via(2) by (metis prod.collapse)
    qed
    have s1: "tables_ok us s1" "extends s s1" "fst T \<in> live us s1" using inner(2) by (simp_all add: answers_with_def answers_def)
    have absent1: "find_node fs sh s1 = None" using answers_with_absent[OF ok absent inner(2) via(4)] .
    have live1: "parts sh \<subseteq> live us s1" using live live_extends[OF s1(2)] by blast
    have canon: "canon_ok us s1 sh (Some (getQualifiedType T q))"
      using s1(3) inner(3) by (simp add: canon_ok_def getQualifiedType_def isCanonical_def)
    have version: "canonical_version s1 sh \<noteq> CanonSelf"
      using canonical_version_extends[OF ok s1(2) subset_trans[OF live live_bounded]] CanonVia by simp
    have "uniqued fs sh s = Some (new_node fs sh (Some (getQualifiedType T q)) s1)"
      using absent CanonVia inner(1) absent1 by (subst uniqued.simps) simp
    moreover have "answers_with us fs sh s1 (new_node fs sh (Some (getQualifiedType T q)) s1)"
      using new_shared_ok(1)[OF s1(1) shared absent1 live1 canon] version by blast
    ultimately show ?thesis
      using answers_trans[OF s1(2)] profile_extends[OF s1(2)] by (auto simp: answers_with_def)
  qed
qed

end
