(* ===== verification/TypeRequests.thy ===== *)
theory TypeRequests
  imports TypeSharing
begin

text \<open>
  Every function that makes types keeps the tables well formed, and what it returns is made of
  types that are left: the functions with a table of their own, one after the other, and the
  request for any type.
\<close>

subsection \<open>Types of expressions\<close>

lemma found_live:
  assumes ok: "tables_ok us s" and found: "find_node fs sh s = Some t" and "fs \<noteq> DependentUnaryTransformTypes"
  shows "t \<in> live us s"
proof -
  have "set_ok us s fs" using ok by (simp add: tables_ok_def)
  then show ?thesis using find_node_Some[OF found] assms(3) by (auto simp: set_ok_def live_def)
qed

lemma found_canonical:
  assumes ok: "tables_ok us s" and found: "find_node fs sh s = Some t"
    and self: "\<And>sh'. profile s sh' = profile s sh \<Longrightarrow> \<not> made_elsewhere sh' \<and> canonical_version s sh' = CanonSelf"
  shows "isCanonical s (t, q)"
proof -
  have t: "t \<in> set (FoldSet s fs)" "profile_at s t = Some (profile s sh)" using find_node_Some[OF found] by simp_all
  obtain sh' where sh': "ShapeOf s t = Some sh'" "profile s sh' = profile s sh" using t(2) by (auto simp: profile_at_def)
  have "set_ok us s fs" using ok by (simp add: tables_ok_def)
  then have "self_ok s t" using t(1) by (simp add: set_ok_def)
  then show ?thesis using self[OF sh'(2)] sh'(1) by (simp add: self_ok_def isCanonical_def)
qed

lemma expression_profile:
  "profile s sh' = profile s (TypeOfExprSh e) \<Longrightarrow> \<not> made_elsewhere sh' \<and> canonical_version s sh' = CanonSelf"
  "profile s sh' = profile s (DecltypeSh e T) \<Longrightarrow> \<not> made_elsewhere sh' \<and> canonical_version s sh' = CanonSelf"
  "profile s sh' = profile s (UnaryTransformSh B U k) \<Longrightarrow> \<not> made_elsewhere sh' \<and> canonical_version s sh' = CanonSelf"
  "profile s sh' = profile s (DependentSizedArraySh T e' m q) \<Longrightarrow> \<not> made_elsewhere sh' \<and> canonical_version s sh' = CanonSelf"
  "profile s sh' = profile s (DependentSizedExtVectorSh T e) \<Longrightarrow> \<not> made_elsewhere sh' \<and> canonical_version s sh' = CanonSelf"
  "profile s sh' = profile s (DependentAddressSpaceSh T e) \<Longrightarrow> \<not> made_elsewhere sh' \<and> canonical_version s sh' = CanonSelf"
  by (cases sh'; simp add: profile_def made_elsewhere_def canonical_version_def)+

lemma canon_ok_self: "pointee_ok s sh \<Longrightarrow> canon_ok us s sh None"
  by (simp add: canon_ok_def)

lemma canon_ok_canonical:
  "tables_ok us s \<Longrightarrow> fst T \<in> live us s \<Longrightarrow> canon_ok us s sh (Some (getCanonicalType s T))"
  using live_canonical[of us s T] by (simp add: canon_ok_def)

lemma canon_ok_found:
  "t \<in> live us s \<Longrightarrow> isCanonical s (t, q) \<Longrightarrow> canon_ok us s sh (Some (t, q))"
  by (simp add: canon_ok_def)

lemma new_type_answers:
  "tables_ok us s \<Longrightarrow> parts sh \<subseteq> live us s \<Longrightarrow> canon_ok us s sh canon \<Longrightarrow> answers us s (new_type sh canon s)"
  using new_type_ok(1)[of us s sh canon] by (cases "new_type sh canon s") simp

lemma getTypeOfExprType_ok:
  assumes ok: "tables_ok us s" and "fst (ExprType s e) \<in> live us s"
  shows "answers us s (getTypeOfExprType e s)"
proof (cases "ExprTypeDependent s e")
  case False
  then show ?thesis
    using new_type_answers[OF ok _ canon_ok_canonical[OF ok assms(2)]] by (simp add: getTypeOfExprType_def parts_def)
next
  case True
  show ?thesis
  proof (cases "find_node DependentTypeOfExprTypes (TypeOfExprSh e) s")
    case (Some c)
    have "canon_ok us s (TypeOfExprSh e) (Some (c, 0))"
      using canon_ok_found[OF found_live[OF ok Some] found_canonical[OF ok Some expression_profile(1)]] by simp
    then show ?thesis using new_type_answers[OF ok] True Some by (simp add: getTypeOfExprType_def parts_def)
  next
    case None
    obtain T s' where T: "new_node DependentTypeOfExprTypes (TypeOfExprSh e) None s = (T, s')" by fastforce
    have "home s1 (NextType s) = Some DependentTypeOfExprTypes"
      if "extends s s1" "ShapeOf s1 (NextType s) = Some (TypeOfExprSh e)" "CanonOf s1 (NextType s) = (NextType s, 0)" for s1
      using that True by (simp add: home_def table_of_def isDependentType_def isCanonical_def extends_def same_world_def)
    then have "answers us s (T, s')"
      by (intro new_node_ok(1)[OF ok _ canon_ok_self T None]) (auto simp: parts_def pointee_ok_def)
    then show ?thesis using True None by (simp add: getTypeOfExprType_def T)
  qed
qed

lemma getTypeOfType_ok: "tables_ok us s \<Longrightarrow> fst T \<in> live us s \<Longrightarrow> answers us s (getTypeOfType T s)"
  using new_type_answers[of us s "TypeOfSh T" "Some (getCanonicalType s T)"] canon_ok_canonical[of us s T]
  by (simp add: getTypeOfType_def parts_def)

text \<open>The canonical versions that are in no list.\<close>

lemma unlisted_node_ok:
  assumes ok: "tables_ok us s" and live: "parts sh \<subseteq> live us s" and node: "unlisted_node fs sh s = (c, s')"
    and self: "\<forall>sh'. profile s sh' = profile s sh \<longrightarrow> \<not> made_elsewhere sh' \<and> canonical_version s sh' = CanonSelf"
    and pointee: "pointee_ok s sh"
    and found: "\<forall>t. find_node fs sh s = Some t \<longrightarrow> t \<in> live us s"
    and home: "\<forall>s1. extends s s1 \<and> ShapeOf s1 (NextType s) = Some sh \<and> CanonOf s1 (NextType s) = (NextType s, 0) \<longrightarrow>
      home s1 (NextType s) = Some fs"
  shows "tables_ok us s'" "extends s s'" "c \<in> live us s'" "isCanonical s' (c, 0)"
proof -
  have "tables_ok us s' \<and> extends s s' \<and> c \<in> live us s' \<and> isCanonical s' (c, 0)"
  proof (cases "find_node fs sh s")
    case (Some t)
    then show ?thesis
      using node ok found found_canonical[OF ok Some] self by (simp add: unlisted_node_def)
  next
    case None
    obtain t s1 where alloc: "alloc_type sh None s = (t, s1)" by fastforce
    note a = alloc_type_ok[OF ok live canon_ok_self[OF pointee] alloc]
    have s': "s' = InsertNode fs (NextType s) s1" "c = NextType s" using node None alloc a(4) by (auto simp: unlisted_node_def)
    have s1: "NextType s \<in> live us s1" "ShapeOf s1 (NextType s) = Some sh" "CanonOf s1 (NextType s) = (NextType s, 0)"
      using a(3-6) by simp_all
    have "CanonOf s' c = (c, 0)" using s1(3) by (simp add: s' InsertNode_def)
    moreover have "home s1 (NextType s) = Some fs" using home a(2) s1(2,3) by blast
    ultimately show ?thesis
      using insert_new_ok[OF ok a(1,2) s1(1) a(7) s1(2) subset_trans[OF live live_bounded] None _ s1(3)]
      by (simp add: s' isCanonical_def)
  qed
  then show "tables_ok us s'" "extends s s'" "c \<in> live us s'" "isCanonical s' (c, 0)" by simp_all
qed


lemma DependentTy_live: "tables_ok us s \<Longrightarrow> DependentTy s \<in> live us s"
  by (simp add: tables_ok_def)

lemma extended_type_answers:
  assumes "extends s s1" "tables_ok us s1" "parts sh \<subseteq> live us s" "canon_ok us s1 sh canon"
  shows "answers us s (new_type sh canon s1)"
  using new_type_answers[OF assms(2) _ assms(4)] assms(3) live_extends[OF assms(1)] answers_trans[OF assms(1)] by blast

lemma getDecltypeType_ok:
  assumes ok: "tables_ok us s" and T: "fst T \<in> live us s"
  shows "answers us s (getDecltypeType e T s)"
proof (cases "ExprDependent s e")
  case False
  then show ?thesis
    using new_type_answers[OF ok _ canon_ok_canonical[OF ok T]] T by (simp add: getDecltypeType_def parts_def)
next
  case True
  let ?sh = "DecltypeSh e (DependentTy s, 0)"
  obtain c s1 where node: "unlisted_node DependentDecltypeTypes ?sh s = (c, s1)" by fastforce
  have home: "\<forall>s1. extends s s1 \<and> ShapeOf s1 (NextType s) = Some ?sh \<and> CanonOf s1 (NextType s) = (NextType s, 0) \<longrightarrow>
      home s1 (NextType s) = Some DependentDecltypeTypes"
    using True by (simp add: home_def table_of_def isDependentType_def isCanonical_def extends_def same_world_def)
  have live: "parts ?sh \<subseteq> live us s" "pointee_ok s ?sh" using DependentTy_live[OF ok] by (simp_all add: parts_def pointee_ok_def)
  have found: "\<forall>t. find_node DependentDecltypeTypes ?sh s = Some t \<longrightarrow> t \<in> live us s" using found_live[OF ok] by blast
  have self: "\<forall>sh'. profile s sh' = profile s ?sh \<longrightarrow> \<not> made_elsewhere sh' \<and> canonical_version s sh' = CanonSelf"
    using expression_profile(2) by blast
  note n = unlisted_node_ok[OF ok live(1) node self live(2) found home]
  show ?thesis
    using extended_type_answers[OF n(2,1) _ canon_ok_found[OF n(3,4)]] T True node by (simp add: getDecltypeType_def parts_def)
qed

text \<open>A transformed type that is found is left although the unloader does not clean its table: its base is.\<close>

lemma found_transform_live:
  assumes ok: "tables_ok us s" and "parts (UnaryTransformSh B U k) \<subseteq> live us s"
    and found: "find_node DependentUnaryTransformTypes (UnaryTransformSh B U k) s = Some t"
  shows "t \<in> live us s"
proof -
  have t: "t \<in> set (FoldSet s DependentUnaryTransformTypes)" "profile_at s t = Some (profile s (UnaryTransformSh B U k))"
    using find_node_Some[OF found] by simp_all
  obtain sh where sh: "ShapeOf s t = Some sh" "profile s sh = profile s (UnaryTransformSh B U k)"
    using t(2) by (auto simp: profile_at_def)
  have "sh = UnaryTransformSh B U k" using sh(2) by (cases sh) (simp_all add: profile_def)
  then have "parts sh \<inter> us = {}" using assms(2) by (auto simp: live_def)
  moreover have "set_ok us s DependentUnaryTransformTypes" using ok by (simp add: tables_ok_def)
  ultimately show ?thesis using t(1) sh(1) by (auto simp: set_ok_def live_def)
qed

lemma getUnaryTransformType_ok:
  assumes ok: "tables_ok us s" and B: "fst B \<in> live us s" and U: "fst U \<in> live us s"
  shows "answers us s (getUnaryTransformType B U k s)"
proof (cases "isDependentType s (fst B)")
  case False
  then show ?thesis
    using new_type_answers[OF ok _ canon_ok_canonical[OF ok U]] B U by (simp add: getUnaryTransformType_def parts_def)
next
  case True
  let ?sh = "UnaryTransformSh (getCanonicalType s B) (Some (DependentTy s, 0)) k"
  obtain c s1 where node: "unlisted_node DependentUnaryTransformTypes ?sh s = (c, s1)" by fastforce
  have home: "\<forall>s1. extends s s1 \<and> ShapeOf s1 (NextType s) = Some ?sh \<and> CanonOf s1 (NextType s) = (NextType s, 0) \<longrightarrow>
      home s1 (NextType s) = Some DependentUnaryTransformTypes"
    by (simp add: home_def)
  have live: "parts ?sh \<subseteq> live us s" using DependentTy_live[OF ok] live_canonical(1)[OF ok B] by (simp add: parts_def)
  have pointee: "pointee_ok s ?sh" by (simp add: pointee_ok_def)
  have found: "\<forall>t. find_node DependentUnaryTransformTypes ?sh s = Some t \<longrightarrow> t \<in> live us s"
    using found_transform_live[OF ok live] by blast
  have self: "\<forall>sh'. profile s sh' = profile s ?sh \<longrightarrow> \<not> made_elsewhere sh' \<and> canonical_version s sh' = CanonSelf"
    using expression_profile(3) by blast
  note n = unlisted_node_ok[OF ok live node self pointee found home]
  show ?thesis
    using extended_type_answers[OF n(2,1) _ canon_ok_found[OF n(3,4)]] B True node
    by (simp add: getUnaryTransformType_def parts_def)
qed

subsection \<open>Arrays and vectors\<close>

lemma canonical_again:
  assumes "tables_ok us s" "fst T \<in> live us s"
  shows "isCanonical s (fst (CanonOf s (fst T)), q)" "getCanonicalType s (getCanonicalType s T) = getCanonicalType s T"
proof -
  show canonical: "isCanonical s (fst (CanonOf s (fst T)), q)" for q using live_canonical(3)[OF assms] .
  have "CanonOf s (fst (CanonOf s (fst T))) = (fst (CanonOf s (fst T)), 0)" using canonical[of 0] by (simp add: isCanonical_def)
  then show "getCanonicalType s (getCanonicalType s T) = getCanonicalType s T"
    by (simp add: getCanonicalType_def[of s "getCanonicalType s T"] getQualifiedType_def prod_eq_iff)
qed

lemma new_variable_array_ok:
  assumes ok: "tables_ok us s" and T: "fst T \<in> live us s" and canon: "canon_ok us s (VariableArraySh T e m q) canon"
  shows "answers us s (new_variable_array T e m q canon s)"
    "canon = None \<Longrightarrow> isCanonical (snd (new_variable_array T e m q canon s)) (fst (new_variable_array T e m q canon s))"
proof -
  obtain U s1 where n: "new_type (VariableArraySh T e m q) canon s = (U, s1)" by fastforce
  have parts: "parts (VariableArraySh T e m q) \<subseteq> live us s" using T by (simp add: parts_def)
  note t = new_type_ok[OF ok parts canon n]
  have "tables_ok us s1" using t(1) by (simp add: answers_def)
  then show "answers us s (new_variable_array T e m q canon s)"
    using t(1) push_ok(7-9)[of us s1 "fst U"] by (auto simp: n answers_def new_variable_array_def intro: extends_trans)
  assume none: "canon = None"
  show "isCanonical (snd (new_variable_array T e m q canon s)) (fst (new_variable_array T e m q canon s))"
    using t(2,5) unfolding new_variable_array_def n by (simp add: none push_variable_array_def isCanonical_def)
qed

lemma getVariableArrayType_ok:
  assumes ok: "tables_ok us s" and T: "fst T \<in> live us s"
  shows "\<exists>r. getVariableArrayType T e m q s = Some r \<and> answers us s r"
proof (cases "isCanonical s T \<and> \<not> hasLocalQualifiers T")
  case True
  then have "getVariableArrayType T e m q s = Some (new_variable_array T e m q None s)"
    by (subst getVariableArrayType.simps) simp
  then show ?thesis using new_variable_array_ok(1)[OF ok T canon_ok_self] by (simp add: pointee_ok_def)
next
  case False
  obtain c cq where c: "getCanonicalType s T = (c, cq)" by fastforce
  then have c': "c = fst (CanonOf s (fst T))" using fst_getCanonicalType[of s T] by simp
  have live: "fst (c, 0::3 word) \<in> live us s" using live_canonical(1)[OF ok T] c' by simp
  obtain C s1 where inner: "new_variable_array (c, 0) e m q None s = (C, s1)" by fastforce
  have "getVariableArrayType (c, 0) e m q s = Some (C, s1)"
    using live_canonical(3)[OF ok T] inner by (subst getVariableArrayType.simps) (simp add: c' hasLocalQualifiers_def)
  then have outer: "getVariableArrayType T e m q s = Some (new_variable_array T e m q (Some (getQualifiedType C cq)) s1)"
    using False c by (subst getVariableArrayType.simps) auto
  have "canon_ok us s (VariableArraySh (c, 0) e m q) None" by (simp add: canon_ok_def pointee_ok_def)
  note n = new_variable_array_ok[OF ok live this, unfolded inner, simplified]
  have s1: "tables_ok us s1" "extends s s1" "fst C \<in> live us s1" using n(1) by (simp_all add: answers_def)
  then have "canon_ok us s1 (VariableArraySh T e m q) (Some (getQualifiedType C cq))"
    using n(2) by (simp add: canon_ok_def getQualifiedType_def isCanonical_def)
  then show ?thesis
    using new_variable_array_ok(1)[OF s1(1) live_extends[OF s1(2) T]] outer answers_trans[OF s1(2)] by blast
qed


text \<open>A dependent array has its size expression from the first one; so the others are sugar.\<close>

lemma node_answer:
  assumes ok: "tables_ok us s" and live: "parts sh \<subseteq> live us s" and pointee: "pointee_ok s sh"
    and home: "\<forall>s1. ShapeOf s1 (NextType s) = Some sh \<longrightarrow> home s1 (NextType s) = Some fs"
    and absent: "find_node fs sh s = None" and node: "new_node fs sh None s = (U, s1)"
  shows "tables_ok us s1" "extends s s1" "fst U \<in> live us s1" "isCanonical s1 (fst U, q)" "U = (NextType s, 0)"
    "ShapeOf s1 (fst U) = Some sh"
proof -
  have "answers us s (U, s1)"
    using new_node_ok(1)[OF ok live canon_ok_self[OF pointee] node absent] home by blast
  then show "tables_ok us s1" "extends s s1" "fst U \<in> live us s1" by (simp_all add: answers_def)
  note n = new_node_ok(2,3,5)[OF ok live canon_ok_self[OF pointee] node absent]
  show U: "U = (NextType s, 0)" using n(1) home by blast
  show "isCanonical s1 (fst U, q)" "ShapeOf s1 (fst U) = Some sh"
    using n(2,3) home by (simp_all add: U isCanonical_def)
qed

lemma getDependentSizedArrayType_ok:
  assumes ok: "tables_ok us s" and T: "fst T \<in> live us s"
  shows "answers us s (getDependentSizedArrayType T e m q s)"
proof (cases e)
  case None
  then show ?thesis
    using new_type_answers[OF ok _ canon_ok_self] T by (simp add: getDependentSizedArrayType_def parts_def pointee_ok_def)
next
  case (Some n)
  obtain c cq where c: "getCanonicalType s T = (c, cq)" by fastforce
  then have "c = fst (CanonOf s (fst T))" using fst_getCanonicalType[of s T] by simp
  then have c_live: "c \<in> live us s" using live_canonical(1)[OF ok T] by simp
  let ?sh = "DependentSizedArraySh (c, 0) (Some n) m q"
  have sh: "parts ?sh \<subseteq> live us s" "pointee_ok s ?sh" using c_live by (simp_all add: parts_def pointee_ok_def)
  have home: "\<forall>s1. ShapeOf s1 (NextType s) = Some ?sh \<longrightarrow> home s1 (NextType s) = Some DependentSizedArrayTypes"
    by (simp add: home_def table_of_def)
  define r where "r = (case find_node DependentSizedArrayTypes ?sh s of
      Some t \<Rightarrow> (t, s) | None \<Rightarrow> (let (U, s1) = new_node DependentSizedArrayTypes ?sh None s in (fst U, s1)))"
  obtain t s1 where r: "r = (t, s1)" by fastforce
  have s1: "tables_ok us s1 \<and> extends s s1 \<and> t \<in> live us s1 \<and> isCanonical s1 (t, cq)"
  proof (cases "find_node DependentSizedArrayTypes ?sh s")
    case found: (Some u)
    show ?thesis
      using r found ok found_live[OF ok found] found_canonical[OF ok found expression_profile(4)] by (simp add: r_def)
  next
    case absent: None
    obtain U s0 where node: "new_node DependentSizedArrayTypes ?sh None s = (U, s0)" by fastforce
    have "t = fst U" "s1 = s0" using r absent node by (simp_all add: r_def)
    then show ?thesis using node_answer[OF ok sh home absent node] by simp
  qed
  let ?size = "case ShapeOf s1 t of Some (DependentSizedArraySh _ e' _ _) \<Rightarrow> e' | _ \<Rightarrow> None"
  have canon: "getQualifiedType (t, 0) cq = (t, cq)" by (simp add: getQualifiedType_def)
  have result: "getDependentSizedArrayType T e m q s =
      (if (c, 0) = T \<and> ?size = Some n then ((t, cq), s1) else new_type (DependentSizedArraySh T (Some n) m q) (Some (t, cq)) s1)"
    using r by (simp add: getDependentSizedArrayType_def Some c Let_def r_def[symmetric] canon)
  have "answers us s (new_type (DependentSizedArraySh T (Some n) m q) (Some (t, cq)) s1)"
    using s1 T by (intro extended_type_answers) (simp_all add: parts_def canon_ok_def)
  then show ?thesis using s1 by (simp add: result answers_def)
qed

lemma getDependentSizedExtVectorType_ok:
  assumes ok: "tables_ok us s" and T: "fst T \<in> live us s"
  shows "\<exists>r. getDependentSizedExtVectorType T e s = Some r \<and> answers us s r"
proof -
  let ?C = "getCanonicalType s T"
  let ?sh = "DependentSizedExtVectorSh ?C e" and ?T = "DependentSizedExtVectorSh T e"
  have C: "getCanonicalType s ?C = ?C" "fst ?C \<in> live us s" using canonical_again(2)[OF ok T] live_canonical(1)[OF ok T] by simp_all
  have T_live: "parts ?T \<subseteq> live us s" using T by (simp add: parts_def)
  show ?thesis
  proof (cases "find_node DependentSizedExtVectorTypes ?sh s")
    case (Some c)
    then have "getDependentSizedExtVectorType T e s = Some (new_type ?T (Some (c, 0)) s)"
      by (subst getDependentSizedExtVectorType.simps) simp
    then show ?thesis
      using new_type_answers[OF ok T_live canon_ok_found[OF found_live[OF ok Some] found_canonical[OF ok Some expression_profile(5)]]]
      by simp
  next
    case absent: None
    obtain U s1 where node: "new_node DependentSizedExtVectorTypes ?sh None s = (U, s1)" by fastforce
    have sh: "parts ?sh \<subseteq> live us s" "pointee_ok s ?sh" using C(2) by (simp_all add: parts_def pointee_ok_def)
    have "\<forall>s1. ShapeOf s1 (NextType s) = Some ?sh \<longrightarrow> home s1 (NextType s) = Some DependentSizedExtVectorTypes"
      by (simp add: home_def table_of_def)
    note n = node_answer[OF ok sh this absent node]
    have plain: "getDependentSizedExtVectorType ?C e s = Some (U, s1)"
      using absent C(1) node by (subst getDependentSizedExtVectorType.simps) simp
    show ?thesis
    proof (cases "?C = T")
      case True
      then show ?thesis using plain n(1-3) by (auto simp: answers_def)
    next
      case False
      then have "getDependentSizedExtVectorType T e s = Some (new_type ?T (Some U) s1)"
        using absent plain by (subst getDependentSizedExtVectorType.simps) simp
      moreover have "answers us s (new_type ?T (Some U) s1)"
        using extended_type_answers[OF n(2,1) T_live] n(3,4) n(5) by (simp add: canon_ok_def)
      ultimately show ?thesis by simp
    qed
  qed
qed


subsection \<open>Types that are not reported\<close>

lemma alloc_pushed_ok:
  assumes ok: "tables_ok us s" and live: "parts sh \<subseteq> live us s" and canon: "canon_ok us s sh canon"
    and alloc: "alloc_type sh canon s = (t, s1)"
  shows "answers us s ((t, 0), push_type t s1)"
proof -
  note a = alloc_type_ok[OF ok live canon alloc]
  show ?thesis using a(2,3) push_ok(4-6)[OF a(1), of t] by (auto simp: answers_def intro: extends_trans)
qed

lemma getDependentAddressSpaceType_ok:
  assumes ok: "tables_ok us s" and T: "fst T \<in> live us s"
  shows "answers us s (getDependentAddressSpaceType T e s)"
proof -
  let ?C = "getCanonicalType s T"
  let ?sh = "DependentAddressSpaceSh ?C e" and ?T = "DependentAddressSpaceSh T e"
  have sh: "parts ?sh \<subseteq> live us s" using live_canonical(1)[OF ok T] by (simp add: parts_def)
  have pointee: "pointee_ok s ?sh" by (simp add: pointee_ok_def)
  define r where "r = (case find_node DependentAddressSpaceTypes ?sh s of
      Some t \<Rightarrow> (t, s)
    | None \<Rightarrow> (let (t, s1) = alloc_type ?sh None s in (t, push_type t (InsertNode DependentAddressSpaceTypes t s1))))"
  obtain t s1 where r: "r = (t, s1)" by fastforce
  have s1: "tables_ok us s1 \<and> extends s s1 \<and> t \<in> live us s1 \<and> isCanonical s1 (t, 0)"
  proof (cases "find_node DependentAddressSpaceTypes ?sh s")
    case found: (Some u)
    show ?thesis
      using r found ok found_live[OF ok found] found_canonical[OF ok found expression_profile(6)] by (simp add: r_def)
  next
    case absent: None
    obtain u s0 where alloc: "alloc_type ?sh None s = (u, s0)" by fastforce
    note a = alloc_type_ok[OF ok sh canon_ok_self[OF pointee] alloc]
    have s0: "NextType s \<in> live us s0" "ShapeOf s0 (NextType s) = Some ?sh" "CanonOf s0 (NextType s) = (NextType s, 0)"
      using a(3-6) by simp_all
    have home: "home s0 (NextType s) = Some DependentAddressSpaceTypes" using s0(2) by (simp add: home_def table_of_def)
    have t: "t = NextType s" "s1 = push_type t (InsertNode DependentAddressSpaceTypes t s0)"
      using r absent alloc a(4) by (auto simp: r_def)
    note i = insert_new_ok[OF ok a(1,2) s0(1) a(7) s0(2) subset_trans[OF sh live_bounded] absent home s0(3)]
    have "isCanonical s1 (t, 0)" using s0(3) by (simp add: t push_type_def InsertNode_def isCanonical_def)
    then show ?thesis using i push_ok(4-6)[OF i(1), of t] by (auto simp: t intro: extends_trans)
  qed
  let ?space = "case ShapeOf s1 t of Some (DependentAddressSpaceSh _ e') \<Rightarrow> Some e' | _ \<Rightarrow> None"
  obtain u s2 where alloc: "alloc_type ?T (Some (t, 0)) s1 = (u, s2)" by fastforce
  have result: "getDependentAddressSpaceType T e s =
      (if ?C = T \<and> ?space = Some e then ((t, 0), s1) else ((u, 0), push_type u s2))"
    using r alloc by (simp add: getDependentAddressSpaceType_def Let_def r_def[symmetric])
  have "parts ?T \<subseteq> live us s1" "canon_ok us s1 ?T (Some (t, 0))"
    using live_extends[of s s1, OF _ T] s1 by (simp_all add: parts_def canon_ok_def)
  then have "answers us s1 ((u, 0), push_type u s2)" using alloc_pushed_ok alloc s1 by blast
  then show ?thesis using s1 answers_trans by (auto simp: result answers_def)
qed

lemma getDeducedTemplateSpecializationType_ok:
  assumes ok: "tables_ok us s" and D: "fst ` set_option D \<subseteq> live us s"
  shows "\<exists>r. getDeducedTemplateSpecializationType n D b s = Some r \<and> answers us s r"
proof -
  let ?fs = DeducedTemplateSpecializationTypes and ?sh = "DeducedTemplateSpecializationSh n D b"
  let ?canon = "map_option (getCanonicalType s) D"
  show ?thesis
  proof (cases "find_node ?fs ?sh s")
    case (Some t)
    then show ?thesis
      using found_live[OF ok Some] ok by (simp add: getDeducedTemplateSpecializationType_def answers_def)
  next
    case absent: None
    obtain t s1 where alloc: "alloc_type ?sh ?canon s = (t, s1)" by fastforce
    have sh: "parts ?sh \<subseteq> live us s" using D by (simp add: parts_def)
    have canon: "canon_ok us s ?sh ?canon"
      using canon_ok_canonical[OF ok] D by (cases D) (simp_all add: canon_ok_def pointee_ok_def)
    note a = alloc_type_ok[OF ok sh canon alloc]
    let ?s = "push_type t s1"
    have p: "tables_ok us ?s" "extends s ?s" "NextType s \<in> live us ?s" "FoldSet ?s = FoldSet s"
      "ShapeOf ?s (NextType s) = Some ?sh" "CanonOf ?s (NextType s) = (case ?canon of None \<Rightarrow> (NextType s, 0) | Some C \<Rightarrow> C)"
      using push_ok(4-6)[OF a(1), of t] extends_trans[OF a(2)] a(3) a(5,6,7)[unfolded a(4)] by (simp_all add: push_type_def a(4))
    have "home ?s (NextType s) = Some ?fs" using p(5) by (simp add: home_def table_of_def)
    moreover have "CanonOf ?s (NextType s) = (NextType s, 0)" if "canonical_version s ?sh = CanonSelf"
      using that p(6) by (cases D) (simp_all add: canonical_version_def)
    ultimately have "answers us s ((t, 0), InsertNode ?fs t ?s)"
      using insert_new_ok[OF ok p(1-5) subset_trans[OF sh live_bounded] absent] by (simp add: answers_def a(4))
    then show ?thesis using absent alloc by (simp add: getDeducedTemplateSpecializationType_def)
  qed
qed

lemma getAutoDeductType_ok:
  assumes ok: "tables_ok us s"
  shows "answers us s (getAutoDeductType s)"
proof (cases "AutoDeduct s")
  case (Some t)
  then show ?thesis using ok by (simp add: getAutoDeductType_def answers_def tables_ok_def)
next
  case None
  let ?sh = "AutoSh None 0 False"
  obtain t s1 where alloc: "alloc_type ?sh None s = (t, s1)" by fastforce
  have "parts ?sh \<subseteq> live us s" "canon_ok us s ?sh None" by (simp_all add: parts_def canon_ok_def pointee_ok_def)
  note a = alloc_type_ok[OF ok this alloc]
  let ?s = "s1\<lparr>AutoDeduct := Some t\<rparr>"
  have "tables_ok us ?s" "extends s1 ?s" "live us ?s = live us s1"
    by (rule other_fields_ok[OF a(1)]; simp add: same_world_def a(3))+
  then show ?thesis using a(2,3) None alloc by (auto simp: getAutoDeductType_def answers_def intro: extends_trans)
qed

subsection \<open>Types of declarations\<close>

lemma type_for_decl_ok:
  assumes ok: "tables_ok us s" and "parts sh \<subseteq> live us s" "canon_ok us s sh canon"
  shows "answers us s (type_for_decl d sh canon s)"
proof -
  obtain t s1 where alloc: "alloc_type sh canon s = (t, s1)" by fastforce
  note a = alloc_type_ok[OF ok assms(2,3) alloc]
  let ?s = "s1\<lparr>TypeForDecl := (TypeForDecl s1)(d \<mapsto> t)\<rparr>"
  have "set_option (AutoDeduct s1) \<subseteq> live us s1" using a(1) by (simp add: tables_ok_def)
  then have o: "tables_ok us ?s" "extends s1 ?s" "live us ?s = live us s1"
    by (auto intro!: other_fields_ok(1,2)[OF a(1)] simp: same_world_def live_def)
  show ?thesis
    using push_ok(1-3)[OF o(1), of t t] o a(2,3) alloc
    by (auto simp: type_for_decl_def answers_def intro: extends_trans)
qed

lemma known_type_ok:
  assumes ok: "tables_ok us s" and "t \<in> live us s"
  shows "answers us s ((t, 0), s\<lparr>TypeForDecl := (TypeForDecl s)(d \<mapsto> t)\<rparr>)"
proof -
  have "set_option (AutoDeduct s) \<subseteq> live us s" using ok by (simp add: tables_ok_def)
  then have "tables_ok us (s\<lparr>TypeForDecl := (TypeForDecl s)(d \<mapsto> t)\<rparr>) \<and> extends s (s\<lparr>TypeForDecl := (TypeForDecl s)(d \<mapsto> t)\<rparr>)"
    by (auto intro!: other_fields_ok[OF ok] simp: same_world_def)
  then show ?thesis using assms(2) by (simp add: answers_def live_def)
qed

lemma share_with_previous_ok:
  assumes ok: "tables_ok us s" and "set_option (TypeForDecl s d) \<subseteq> live us s"
    "set_option (Option.bind (PrevDeclOf s d) (TypeForDecl s)) \<subseteq> live us s" and "answers us s (fresh s)"
  shows "answers us s (share_with_previous d fresh s)"
proof (cases "TypeForDecl s d")
  case (Some t)
  then show ?thesis using ok assms(2) by (simp add: share_with_previous_def answers_def)
next
  case None
  then show ?thesis
    using known_type_ok[OF ok] assms(3,4)
    by (cases "Option.bind (PrevDeclOf s d) (TypeForDecl s)") (simp_all add: share_with_previous_def)
qed


subsection \<open>Any request\<close>

text \<open>
  What a request has to be made of: types that are left, the declaration's type among them if it
  has one, and no class that other functions make.
\<close>

definition decl_ok :: "ty set \<Rightarrow> type_tables \<Rightarrow> decl \<Rightarrow> bool" where
  "decl_ok us s d \<longleftrightarrow> set_option (TypeForDecl s d) \<subseteq> live us s \<and>
     set_option (Option.bind (PrevDeclOf s d) (TypeForDecl s)) \<subseteq> live us s"

definition request_ok :: "ty set \<Rightarrow> type_tables \<Rightarrow> shape \<Rightarrow> bool" where
  "request_ok us s sh \<longleftrightarrow> parts sh \<subseteq> live us s \<and> replacement_ok s sh \<and> \<not> made_elsewhere sh \<and>
     (case sh of
        BuiltinSh _ \<Rightarrow> False
      | DecayedSh _ _ \<Rightarrow> False
      | UnaryTransformSh _ None _ \<Rightarrow> False
      | TypedefSh d \<Rightarrow> set_option (TypeForDecl s d) \<subseteq> live us s \<and> fst (UnderlyingType s d) \<in> live us s
      | RecordSh d \<Rightarrow> decl_ok us s d
      | EnumSh d \<Rightarrow> decl_ok us s d
      | InjectedClassNameSh d _ \<Rightarrow> decl_ok us s d \<and> (\<forall>p. PrevDeclOf s d = Some p \<longrightarrow> TypeForDecl s p \<noteq> None)
      | TypeOfExprSh e \<Rightarrow> fst (ExprType s e) \<in> live us s
      | _ \<Rightarrow> True)"

lemmas shared_request_defs = getComplexType_def getPointerType_def getAdjustedType_def getBlockPointerType_def
  getLValueReferenceType_def getRValueReferenceType_def getMemberPointerType_def getIncompleteArrayType_def
  getVectorType_def getExtVectorType_def getFunctionNoProtoType_def getPipeType_def getAttributedType_def
  getSubstTemplateTypeParmType_def getSubstTemplateTypeParmPackType_def getTemplateTypeParmType_def
  getElaboratedType_def getParenType_def getPackExpansionType_def getAtomicType_def getObjCObjectPointerType_def

lemma uniqued_answers:
  "tables_ok us s \<Longrightarrow> shared_table sh = Some fs \<Longrightarrow> parts sh \<subseteq> live us s \<Longrightarrow> replacement_ok s sh \<Longrightarrow>
    \<exists>r. uniqued fs sh s = Some r \<and> answers us s r"
  using uniqued_ok by blast

lemma named_types_ok:
  assumes ok: "tables_ok us s"
  shows "set_option (TypeForDecl s d) \<subseteq> live us s \<Longrightarrow> fst (UnderlyingType s d) \<in> live us s \<Longrightarrow> answers us s (getTypedefType d None s)"
    "decl_ok us s d \<Longrightarrow> answers us s (getRecordType d s)" "decl_ok us s d \<Longrightarrow> answers us s (getEnumType d s)"
    "answers us s (getUnresolvedUsingType d s)"
    "decl_ok us s d \<Longrightarrow> fst T \<in> live us s \<Longrightarrow> \<forall>p. PrevDeclOf s d = Some p \<longrightarrow> TypeForDecl s p \<noteq> None \<Longrightarrow>
      \<exists>r. getInjectedClassNameType d T s = Some r \<and> answers us s r"
proof -
  have fresh: "answers us s (type_for_decl d sh None s)" if "parts sh \<subseteq> live us s" "pointee_ok s sh" for sh
    using type_for_decl_ok[OF ok that(1) canon_ok_self[OF that(2)]] .
  show "set_option (TypeForDecl s d) \<subseteq> live us s \<Longrightarrow> fst (UnderlyingType s d) \<in> live us s \<Longrightarrow>
      answers us s (getTypedefType d None s)"
    using type_for_decl_ok[OF ok _ canon_ok_canonical[OF ok]] ok
    by (cases "TypeForDecl s d") (simp_all add: getTypedefType_def parts_def answers_def)
  show "decl_ok us s d \<Longrightarrow> answers us s (getRecordType d s)"
    using share_with_previous_ok[OF ok] fresh[of "RecordSh d"] by (simp add: getRecordType_def decl_ok_def parts_def pointee_ok_def)
  show "decl_ok us s d \<Longrightarrow> answers us s (getEnumType d s)"
    using share_with_previous_ok[OF ok] fresh[of "EnumSh d"] by (simp add: getEnumType_def decl_ok_def parts_def pointee_ok_def)
  show "answers us s (getUnresolvedUsingType d s)"
    using fresh[of "UnresolvedUsingSh d"] by (simp add: getUnresolvedUsingType_def parts_def pointee_ok_def)
  assume d: "decl_ok us s d" "fst T \<in> live us s" "\<forall>p. PrevDeclOf s d = Some p \<longrightarrow> TypeForDecl s p \<noteq> None"
  show "\<exists>r. getInjectedClassNameType d T s = Some r \<and> answers us s r"
  proof (cases "TypeForDecl s d")
    case (Some t)
    then show ?thesis using d(1) ok by (simp add: getInjectedClassNameType_def decl_ok_def answers_def)
  next
    case None
    then show ?thesis
      using fresh[of "InjectedClassNameSh d T"] d known_type_ok[OF ok]
      by (cases "PrevDeclOf s d") (auto simp: getInjectedClassNameType_def decl_ok_def parts_def pointee_ok_def)
  qed
qed

lemma request_answers:
  assumes ok: "tables_ok us s" and "request_ok us s sh"
  shows "\<exists>r. request sh s = Some r \<and> answers us s r"
proof -
  have live: "parts sh \<subseteq> live us s" and rep: "replacement_ok s sh" using assms(2) by (simp_all add: request_ok_def)
  consider fs where "shared_table sh = Some fs" "request sh s = uniqued fs sh s"
    | T n m q where "sh = ConstantArraySh T n m q" | D k b where "sh = AutoSh D k b"
    | n D b where "sh = DeducedTemplateSpecializationSh n D b" | "shared_table sh = None"
    by (cases sh) (auto simp: shared_table_def request_def shared_request_defs)
  then show ?thesis
  proof cases
    case 1
    then show ?thesis using uniqued_answers[OF ok _ live rep] by simp
  next
    case 2
    then show ?thesis
      using live uniqued_answers[OF ok, of "ConstantArraySh T (n mod 2 ^ PointerWidth s) m q" ConstantArrayTypes]
      by (simp add: request_def getConstantArrayType_def shared_table_def parts_def replacement_ok_def)
  next
    case 3
    then show ?thesis
      using uniqued_answers[OF ok _ live rep] getAutoDeductType_ok[OF ok]
      by (cases "D = None \<and> k = 0 \<and> \<not> b") (simp_all add: request_def getAutoType_def shared_table_def del: split_paired_Ex)
  next
    case 4
    then show ?thesis
      using live getDeducedTemplateSpecializationType_ok[OF ok, of D n b] by (simp add: request_def parts_def)
  next
    case 5
    then show ?thesis
      using assms(2) live
      by (cases sh) (simp_all add: request_def shared_table_def request_ok_def made_elsewhere_def parts_def named_types_ok[OF ok]
          getVariableArrayType_ok[OF ok] getDependentSizedArrayType_ok[OF ok] getDependentSizedExtVectorType_ok[OF ok]
          getDependentAddressSpaceType_ok[OF ok] getTypeOfExprType_ok[OF ok] getTypeOfType_ok[OF ok] getDecltypeType_ok[OF ok]
          getUnaryTransformType_ok[OF ok] del: split_paired_Ex split_paired_All split: option.splits)
  qed
qed

end
