(* ===== verification/TypeUnloading.thy ===== *)
theory TypeUnloading
  imports TypeRequests
begin

text \<open>
  Types across compilations: what the compiler asks for between two unloadings, and that unloaded
  types are gone from the tables, so that no later request finds one of them.
\<close>

subsection \<open>A compilation\<close>

text \<open>Any requests, one after the other, that are made of types that are left.\<close>

inductive compiles :: "ty set \<Rightarrow> type_tables \<Rightarrow> type_tables \<Rightarrow> bool" for us where
  compiles_start: "compiles us s s"
| compiles_request: "compiles us s s' \<Longrightarrow> request_ok us s' sh \<Longrightarrow> request sh s' = Some (T, s'') \<Longrightarrow> compiles us s s''"

lemma compiles_ok:
  "compiles us s s' \<Longrightarrow> tables_ok us s \<Longrightarrow> tables_ok us s' \<and> extends s s'"
proof (induction rule: compiles.induct)
  case (compiles_request s s' sh T s'')
  then have "tables_ok us s'" "extends s s'" by simp_all
  then show ?case
    using request_answers[of us s' sh] compiles_request.hyps(2,3) by (auto simp: answers_def intro: extends_trans)
qed simp

subsection \<open>Erasing types\<close>

lemma table_of_tables:
  "table_of (s\<lparr>FoldSet := f, MemoizedTypeInfo := m\<rparr>) = table_of s"
proof -
  let ?s = "s\<lparr>FoldSet := f, MemoizedTypeInfo := m\<rparr>"
  have same: "ShapeOf ?s = ShapeOf s" "CanonOf ?s = CanonOf s" "ExprTypeDependent ?s = ExprTypeDependent s"
    "ExprDependent ?s = ExprDependent s" "DependentFlag ?s = DependentFlag s"
    by simp_all
  have "isDependentType ?s = isDependentType s" "isCanonical ?s = isCanonical s"
    by (intro ext; simp only: isDependentType_def isCanonical_def same)+
  then show ?thesis by (intro ext) (simp only: table_of_def same)
qed

lemma RemoveNode_tables: "RemoveNode t (s\<lparr>MemoizedTypeInfo := m\<rparr>) =
    s\<lparr>FoldSet := FoldSet (RemoveNode t s), MemoizedTypeInfo := m\<rparr>"
  using table_of_tables[where s = s and f = "FoldSet s" and m = m] by (simp add: RemoveNode_def split: option.split)

lemma erase_loop:
  "fold (\<lambda>t s. RemoveNode t (s\<lparr>MemoizedTypeInfo := removeAll t (MemoizedTypeInfo s)\<rparr>)) us s =
     s\<lparr>FoldSet := (\<lambda>fs. fold remove1 (filter (\<lambda>t. table_of s t = Some fs) us) (FoldSet s fs)),
       MemoizedTypeInfo := filter (\<lambda>t. t \<notin> set us) (MemoizedTypeInfo s)\<rparr>"
proof (induction us arbitrary: s)
  case (Cons t us)
  let ?s = "RemoveNode t (s\<lparr>MemoizedTypeInfo := removeAll t (MemoizedTypeInfo s)\<rparr>)"
  have s: "?s = s\<lparr>FoldSet := FoldSet (RemoveNode t s), MemoizedTypeInfo := removeAll t (MemoizedTypeInfo s)\<rparr>"
    by (rule RemoveNode_tables)
  have "FoldSet (RemoveNode t s) fs = fold remove1 (if table_of s t = Some fs then [t] else []) (FoldSet s fs)" for fs
    by (auto simp: RemoveNode_def split: option.split)
  moreover have "filter (\<lambda>u. u \<notin> set us) (removeAll t (MemoizedTypeInfo s)) = filter (\<lambda>u. u \<notin> set (t # us)) (MemoizedTypeInfo s)"
    by (auto simp: removeAll_filter_not_eq intro!: filter_cong)
  moreover have "fold (\<lambda>t s. RemoveNode t (s\<lparr>MemoizedTypeInfo := removeAll t (MemoizedTypeInfo s)\<rparr>)) (t # us) s =
      fold (\<lambda>t s. RemoveNode t (s\<lparr>MemoizedTypeInfo := removeAll t (MemoizedTypeInfo s)\<rparr>)) us ?s"
    by simp
  ultimately show ?case
    using Cons.IH[of ?s] unfolding s table_of_tables by (simp add: fun_eq_iff)
qed simp

lemma fold_remove1: "distinct xs \<Longrightarrow> fold remove1 ys xs = filter (\<lambda>x. x \<notin> set ys) xs"
proof (induction ys arbitrary: xs)
  case (Cons y ys)
  then show ?case by (simp add: distinct_remove1_removeAll removeAll_filter_not_eq conj_commute eq_commute)
qed simp

text \<open>What a dependency map collects is closed: what is made of an unloaded type is unloaded, too.\<close>

definition unload_closed :: "ty set \<Rightarrow> type_tables \<Rightarrow> bool" where
  "unload_closed us s \<longleftrightarrow> us \<subseteq> {..<NextType s} \<and> DependentTy s \<notin> us \<and> set_option (AutoDeduct s) \<inter> us = {} \<and>
     (\<forall>t < NextType s. \<forall>sh. ShapeOf s t = Some sh \<longrightarrow>
        (t \<notin> us \<longrightarrow> fst (CanonOf s t) \<notin> us \<and> parts sh \<inter> us = {}) \<and>
        (t \<in> us \<and> home s t = Some DependentUnaryTransformTypes \<longrightarrow> parts sh \<inter> us \<noteq> {}))"

lemma erased_table:
  assumes ok: "tables_ok {} s" and us: "set us \<subseteq> {..<NextType s}"
  shows "fold remove1 (filter (\<lambda>t. table_of s t = Some fs) us) (FoldSet s fs) =
    (if fs = DependentUnaryTransformTypes then FoldSet s fs else filter (\<lambda>t. t \<notin> set us) (FoldSet s fs))"
proof -
  have set: "set_ok {} s fs" using ok by (simp add: tables_ok_def)
  have never: "table_of s t \<noteq> Some DependentUnaryTransformTypes" for t
    by (auto simp: table_of_def Let_def split: option.splits shape.splits if_splits)
  have table: "table_of s t = Some fs" if "t \<in> set (FoldSet s fs)" "fs \<noteq> DependentUnaryTransformTypes" for t
  proof -
    have "home s t = Some fs" using set that(1) by (simp add: set_ok_def)
    then show ?thesis using that(2) by (auto simp: home_def split: option.splits shape.splits)
  qed
  show ?thesis
    using set table never by (auto simp: fold_remove1 set_ok_def intro!: filter_cong)
qed

lemma eraseTypes_table:
  assumes "tables_ok {} s" "set us \<subseteq> {..<NextType s}"
  shows "FoldSet (eraseTypesASTContext us s) fs =
      (if fs = DependentUnaryTransformTypes then FoldSet s fs else filter (\<lambda>t. t \<notin> set us) (FoldSet s fs))"
  using erased_table[OF assms] by (simp add: eraseTypesASTContext_def erase_loop Let_def)

text \<open>
  C12 (functional): \<^verbatim>\<open>eraseTypesASTContext\<close> takes exactly the unloaded types out of the list of all
  types, of the variable arrays, of the memoized information, and of every table but one: types
  made with \<^verbatim>\<open>__underlying_type\<close> stay in theirs.
\<close>

theorem eraseTypes_exact:
  assumes "tables_ok {} s" "set us \<subseteq> {..<NextType s}"
  shows "FoldSet (eraseTypesASTContext us s) fs =
      (if fs = DependentUnaryTransformTypes then FoldSet s fs else filter (\<lambda>t. t \<notin> set us) (FoldSet s fs)) \<and>
    AllTypes (eraseTypesASTContext us s) = filter (\<lambda>t. t \<notin> set us) (AllTypes s) \<and>
    VariableArrays (eraseTypesASTContext us s) = filter (\<lambda>t. t \<notin> set us) (VariableArrays s) \<and>
    MemoizedTypeInfo (eraseTypesASTContext us s) = filter (\<lambda>t. t \<notin> set us) (MemoizedTypeInfo s)"
  using eraseTypes_table[OF assms] by (simp add: eraseTypesASTContext_def erase_loop Let_def)


subsection \<open>No way back to an unloaded type\<close>

lemma same_questions:
  assumes "same_world s s'" "ShapeOf s' = ShapeOf s" "CanonOf s' = CanonOf s"
  shows "home s' = home s" "profile_at s' = profile_at s" "pointee_ok s' = pointee_ok s" "self_ok s' = self_ok s"
proof -
  note same = assms(2,3)
  have world: "HasPack s' = HasPack s" "ExprKey s' = ExprKey s" "ExprTypeDependent s' = ExprTypeDependent s"
    "ExprDependent s' = ExprDependent s" "DependentFlag s' = DependentFlag s"
    using assms(1) by (simp_all add: same_world_def)
  have quals: "isCanonical s' = isCanonical s" "getCanonicalType s' = getCanonicalType s" "isDependentType s' = isDependentType s"
    by (intro ext; simp only: isCanonical_def getCanonicalType_def isDependentType_def same world)+
  have inner: "inner_reference s' = inner_reference s" by (intro ext) (simp only: inner_reference_def quals same)
  have via: "referenced s' = referenced s" "via_canonical s' = via_canonical s" "via_element s' = via_element s" "sugar_of s' = sugar_of s"
    by (intro ext; simp only: referenced_def via_canonical_def via_element_def sugar_of_def quals inner)+
  have "canonical_version s' = canonical_version s"
    by (intro ext) (simp only: canonical_version_def quals inner via same world)
  then show "self_ok s' = self_ok s" by (intro ext) (simp only: self_ok_def same)
  have "table_of s' = table_of s" by (intro ext) (simp only: table_of_def quals same)
  then show "home s' = home s" by (intro ext) (simp only: home_def same)
  have "profile s' = profile s" by (intro ext) (simp only: profile_def world)
  then show "profile_at s' = profile_at s" by (intro ext) (simp only: profile_at_def same)
  show "pointee_ok s' = pointee_ok s" by (intro ext) (simp only: pointee_ok_def quals inner)
qed

lemma eraseTypes_ok:
  assumes ok: "tables_ok {} s" and closed: "unload_closed (set us) s"
  shows "tables_ok (set us) (eraseTypesASTContext us s)"
proof -
  let ?s = "eraseTypesASTContext us s"
  have us: "set us \<subseteq> {..<NextType s}" using closed by (simp add: unload_closed_def)
  have fields: "ShapeOf ?s = ShapeOf s" "CanonOf ?s = CanonOf s" "NextType ?s = NextType s" "AutoDeduct ?s = AutoDeduct s"
    "DependentTy ?s = DependentTy s" "same_world s ?s"
    by (simp_all add: eraseTypesASTContext_def erase_loop Let_def same_world_def)
  note same = same_questions[OF fields(6,1,2)]
  have table: "FoldSet ?s fs = (if fs = DependentUnaryTransformTypes then FoldSet s fs else filter (\<lambda>t. t \<notin> set us) (FoldSet s fs))" for fs
    using eraseTypes_table[OF ok us] .
  have "type_ok (set us) ?s t" if "t < NextType s" for t
  proof -
    have "type_ok {} s t" using ok that by (simp add: tables_ok_def)
    then show ?thesis using closed that by (simp add: type_ok_def fields same unload_closed_def)
  qed
  moreover have "set_ok (set us) ?s fs" for fs
  proof -
    have set: "set_ok {} s fs" using ok by (simp add: tables_ok_def)
    have "distinct (FoldSet ?s fs)" "inj_on (profile_at s) (set (FoldSet ?s fs))"
      using set by (auto simp: table set_ok_def elim: inj_on_subset)
    moreover have "t < NextType s \<and> home s t = Some fs \<and> self_ok s t \<and>
        (t \<in> set us \<longrightarrow> fs = DependentUnaryTransformTypes \<and> (\<forall>sh. ShapeOf s t = Some sh \<longrightarrow> parts sh \<inter> set us \<noteq> {}))"
      if "t \<in> set (FoldSet ?s fs)" for t
    proof -
      have "t \<in> set (FoldSet s fs)" "fs \<noteq> DependentUnaryTransformTypes \<longrightarrow> t \<notin> set us"
        using that by (simp_all add: table split: if_splits)
      then show ?thesis using set closed by (auto simp: set_ok_def unload_closed_def)
    qed
    ultimately show ?thesis by (simp add: set_ok_def same fields)
  qed
  moreover have "DependentTy s \<in> live (set us) s" "set_option (AutoDeduct s) \<subseteq> live (set us) s"
    using ok closed by (auto simp: tables_ok_def live_def unload_closed_def)
  ultimately show ?thesis
    using ok us by (simp add: tables_ok_def fields live_def)
qed

text \<open>
  C10 (safety): after the unloaded types were erased, whatever a later compilation asks for, made of
  types that are left, it gets a type, and neither it nor its canonical type was unloaded.
\<close>

theorem unloaded_types_never_return:
  assumes "tables_ok {} s" "unload_closed (set us) s"
    "compiles (set us) (eraseTypesASTContext us s) s'" "request_ok (set us) s' sh"
  shows "\<exists>T s''. request sh s' = Some (T, s'') \<and> fst T \<notin> set us \<and> fst (CanonOf s'' (fst T)) \<notin> set us"
proof -
  have "tables_ok (set us) s'" using compiles_ok[OF assms(3) eraseTypes_ok[OF assms(1,2)]] by simp
  then obtain r where r: "request sh s' = Some r" "answers (set us) s' r" using request_answers assms(4) by blast
  then have "tables_ok (set us) (snd r)" "fst (fst r) \<in> live (set us) (snd r)" by (simp_all add: answers_def)
  then show ?thesis using live_typeD(1)[of "set us" "snd r"] r(1) by (cases r) (auto simp: live_def)
qed

text \<open>
  C13 (type): whatever is asked for, a table only has types that exist and belong there, and at most
  one with a given profile.
\<close>

theorem tables_stay_typed:
  assumes "tables_ok us s" "compiles us s s'" "t \<in> set (FoldSet s' fs)" "u \<in> set (FoldSet s' fs)"
  shows "t < NextType s' \<and> home s' t = Some fs \<and> (profile_at s' t = profile_at s' u \<longrightarrow> t = u)"
proof -
  have "set_ok us s' fs" using compiles_ok[OF assms(2,1)] by (simp add: tables_ok_def)
  then show ?thesis using assms(3,4) by (auto simp: set_ok_def inj_on_def)
qed

lemma uniqued_answer:
  assumes "tables_ok us s" "shared_table sh = Some fs" "request_ok us s sh" "uniqued fs sh s = Some (T, s')"
  shows "tables_ok us s'" "extends s s'" "snd T = 0" "fst T \<in> set (FoldSet s' fs)"
    "profile_at s' (fst T) = Some (profile s sh)"
proof -
  have "parts sh \<subseteq> live us s" "replacement_ok s sh" using assms(3) by (simp_all add: request_ok_def)
  then obtain r where "uniqued fs sh s = Some r" "answers us s r" "snd (fst r) = 0"
    "fst (fst r) \<in> set (FoldSet (snd r) fs)" "profile_at (snd r) (fst (fst r)) = Some (profile s sh)"
    using uniqued_ok[OF assms(1,2)] by blast
  moreover from this(1) have "r = (T, s')" using assms(4) by simp
  ultimately show "tables_ok us s'" "extends s s'" "snd T = 0" "fst T \<in> set (FoldSet s' fs)"
    "profile_at s' (fst T) = Some (profile s sh)"
    by (simp_all add: answers_def)
qed

text \<open>
  C11 (equivalence): types may be compared by their addresses. Of two requests to a table, the second
  any number of requests later, the answers are the same type if and only if the fields are.
\<close>

theorem same_type_iff_same_fields:
  assumes "tables_ok us s" "shared_table sh = Some fs" "shared_table sh' = Some fs"
    "request_ok us s sh" "uniqued fs sh s = Some (T, s1)" "compiles us s1 s2"
    "request_ok us s2 sh'" "uniqued fs sh' s2 = Some (T', s3)"
  shows "T = T' \<longleftrightarrow> profile s sh = profile s sh'"
proof -
  note first = uniqued_answer[OF assms(1,2,4,5)]
  have s2: "tables_ok us s2" "extends s1 s2" using compiles_ok[OF assms(6) first(1)] by simp_all
  note second = uniqued_answer[OF s2(1) assms(3,7,8)]
  have later: "extends s1 s3" "extends s s2"
    using extends_trans[OF s2(2) second(2)] extends_trans[OF first(2) s2(2)] by simp_all
  have "set_ok us s1 fs" "set_ok us s3 fs" using first(1) second(1) by (simp_all add: tables_ok_def)
  then have ends: "fst T < NextType s1" and inj: "inj_on (profile_at s3) (set (FoldSet s3 fs))"
    using first(4) by (simp_all add: set_ok_def)
  have "set (FoldSet s1 fs) \<subseteq> set (FoldSet s3 fs)" using later(1) by (simp add: extends_def)
  then have "fst T \<in> set (FoldSet s3 fs)" "profile_at s3 (fst T) = Some (profile s sh)"
    using first(4,5) home_extends(3)[OF later(1) ends] by auto
  moreover have "profile_at s3 (fst T') = Some (profile s sh')" using second(5) profile_extends[OF later(2)] by simp
  ultimately have "fst T = fst T' \<longleftrightarrow> profile s sh = profile s sh'" using inj second(4) by (metis inj_onD option.inject)
  then show ?thesis using first(3) second(3) by (simp add: prod_eq_iff)
qed

end
