(* ===== verification/TypeReports.thy ===== *)
theory TypeReports
  imports TypeUnloading FoldingSetMaps
begin

text \<open>
  The dependency map learns of the types of a compilation from the list of new types. Whatever
  type is made, it is in that list, except for two classes of types; and those are found again
  although nothing knows what they depend on.
\<close>

subsection \<open>What is reported\<close>

text \<open>The state only grows by types that are in both lists, in the same order.\<close>

definition reports :: "type_tables \<Rightarrow> type_tables \<Rightarrow> bool" where
  "reports s s' \<longleftrightarrow> CachingMode s' = CachingMode s \<and>
     (\<exists>ts. AllTypes s' = AllTypes s @ ts \<and> NewTypes s' = NewTypes s @ (if CachingMode s then ts else []))"

lemma reports_refl [simp]: "reports s s"
  by (simp add: reports_def)

lemma reports_trans: "reports s s' \<Longrightarrow> reports s' s'' \<Longrightarrow> reports s s''"
  by (auto simp: reports_def split: if_splits)

lemma reports_simps [simp]:
  "reports s (InsertNode fs t s') = reports s s'"
  "reports s (snd (alloc_type sh canon s')) = reports s s'"
  "reports s (push_variable_array t s') = reports s s'"
  "reports s (s'\<lparr>TypeForDecl := f\<rparr>) = reports s s'"
  "reports s (s'\<lparr>AutoDeduct := a\<rparr>) = reports s s'"
  by (simp_all add: reports_def InsertNode_def alloc_type_def Let_def push_variable_array_def)

lemma reports_push [simp]: "reports s (push_new_type t (push_type t s)) "
  by (simp add: reports_def push_new_type_def push_type_def)

lemma reports_pushed: "reports s s' \<Longrightarrow> reports s (push_new_type t (push_type t s'))"
  by (rule reports_trans[OF _ reports_push])

lemma reports_alloc: "alloc_type sh canon s = (t, s') \<Longrightarrow> reports s s'"
  using reports_simps(2)[of s sh canon s] by simp

lemma reports_makers:
  "reports s (snd (new_type sh canon s))" "reports s (snd (new_node fs sh canon s))"
  "reports s (snd (type_for_decl d sh canon s))" "reports s (snd (unlisted_node fs sh s))"
  "reports s (snd (new_variable_array T e m q canon s))" "reports s (snd (getAutoDeductType s))"
proof -
  obtain t s' where alloc: "alloc_type sh canon s = (t, s')" by fastforce
  have s': "reports s s'" using reports_alloc[OF alloc] .
  show type: "reports s (snd (new_type sh canon s))" for sh canon
    using reports_pushed[OF reports_alloc] by (cases "alloc_type sh canon s") (simp add: new_type_def)
  show "reports s (snd (new_node fs sh canon s))"
    using type[of sh canon] by (cases "new_type sh canon s") (simp add: new_node_def)
  show "reports s (snd (type_for_decl d sh canon s))"
    using s' reports_pushed[of s "s'\<lparr>TypeForDecl := (TypeForDecl s')(d \<mapsto> t)\<rparr>"] by (simp add: type_for_decl_def alloc)
  show "reports s (snd (unlisted_node fs sh s))"
    using reports_alloc by (auto simp: unlisted_node_def split: option.split prod.split)
  show "reports s (snd (new_variable_array T e m q canon s))"
    using type[of "VariableArraySh T e m q" canon]
    by (cases "new_type (VariableArraySh T e m q) canon s") (simp add: new_variable_array_def)
  show "reports s (snd (getAutoDeductType s))"
    using reports_alloc by (auto simp: getAutoDeductType_def split: option.split prod.split)
qed

lemma reports_uniqued: "uniqued fs sh s = Some r \<Longrightarrow> reports s (snd r)"
proof (induction rule: uniqued.raw_induct[rotated, consumes 1, case_names step])
  case (step uniqued fs sh s r)
  have "reports s (snd (new_node fs sh c s'))" if "uniqued fs sh' s = Some (C, s')" for C s' sh' c
    using reports_trans[OF step.IH[OF that, unfolded snd_conv] reports_makers(2)] .
  then show ?case
    using step.hyps
    by (auto simp: reports_makers split: option.splits canonical_version.splits if_splits Option.bind_splits)
qed

lemma reports_variable_array: "getVariableArrayType T e m q s = Some r \<Longrightarrow> reports s (snd r)"
proof (induction rule: getVariableArrayType.raw_induct[rotated, consumes 1, case_names step])
  case (step make T e m q s r)
  have "reports s (snd (new_variable_array T e m q c s'))" if "make U e m q s = Some (C, s')" for C s' U c
    using reports_trans[OF step.IH[OF that, unfolded snd_conv] reports_makers(5)] .
  then show ?case
    using step.hyps by (auto simp: reports_makers split: prod.splits if_splits Option.bind_splits)
qed

lemma reports_ext_vector: "getDependentSizedExtVectorType T e s = Some r \<Longrightarrow> reports s (snd r)"
proof (induction rule: getDependentSizedExtVectorType.raw_induct[rotated, consumes 1, case_names step])
  case (step make T e s r)
  have "reports s (snd (new_type sh c s'))" if "make (getCanonicalType s T) e s = Some (C, s')" for C s' sh c
    using reports_trans[OF step.IH[OF that, unfolded snd_conv] reports_makers(1)] .
  then show ?case
    using step.hyps by (auto simp: reports_makers split: option.splits prod.splits if_splits Option.bind_splits)
qed

lemma reports_expressions:
  "reports s (snd (getTypeOfExprType e s))" "reports s (snd (getTypeOfType T s))"
  "reports s (snd (getDecltypeType e T s))" "reports s (snd (getUnaryTransformType T U k s))"
proof -
  show "reports s (snd (getTypeOfExprType e s))" "reports s (snd (getTypeOfType T s))"
    by (simp_all add: getTypeOfExprType_def getTypeOfType_def reports_makers split: option.split)
  have listed: "reports s (snd (new_type sh' canon (snd (unlisted_node fs sh s))))" for sh' canon fs sh
    using reports_trans[OF reports_makers(4) reports_makers(1)] .
  show "reports s (snd (getDecltypeType e T s))"
    using listed[of "DecltypeSh e T"] reports_makers(1)
    by (cases "unlisted_node DependentDecltypeTypes (DecltypeSh e (DependentTy s, 0)) s")
      (simp add: getDecltypeType_def, metis snd_conv)
  show "reports s (snd (getUnaryTransformType T U k s))"
    using listed[of "UnaryTransformSh T None k"] reports_makers(1)
    by (cases "unlisted_node DependentUnaryTransformTypes (UnaryTransformSh (getCanonicalType s T) (Some (DependentTy s, 0)) k) s")
      (simp add: getUnaryTransformType_def, metis snd_conv)
qed

lemma reports_dependent_array: "reports s (snd (getDependentSizedArrayType T e m q s))"
proof (cases e)
  case None
  then show ?thesis by (simp add: getDependentSizedArrayType_def reports_makers)
next
  case (Some n)
  obtain c cq where c: "getCanonicalType s T = (c, cq)" by fastforce
  let ?sh = "DependentSizedArraySh (c, 0) (Some n) m q"
  obtain U s1 where node: "new_node DependentSizedArrayTypes ?sh None s = (U, s1)" by fastforce
  have "reports s s1" using reports_makers(2)[of s DependentSizedArrayTypes ?sh None] by (simp add: node)
  moreover from this have "reports s (snd (new_type sh' canon s1))" for sh' canon
    by (rule reports_trans[OF _ reports_makers(1)])
  ultimately show ?thesis
    by (cases "find_node DependentSizedArrayTypes ?sh s")
      (simp_all add: getDependentSizedArrayType_def Some c node Let_def reports_makers)
qed

lemma reports_named:
  "reports s (snd (getUnresolvedUsingType d s))" "reports s (snd (getTypedefType d canon s))"
  "reports s (snd (getRecordType d s))" "reports s (snd (getEnumType d s))"
  "getInjectedClassNameType d T s = Some r \<Longrightarrow> reports s (snd r)"
  by (auto simp: getUnresolvedUsingType_def getTypedefType_def getRecordType_def getEnumType_def share_with_previous_def
      getInjectedClassNameType_def reports_makers split: option.splits)


text \<open>The two classes whose functions leave the list of new types alone.\<close>

definition unreported :: "shape \<Rightarrow> bool" where
  "unreported sh =
     (case sh of
        DeducedTemplateSpecializationSh _ _ _ \<Rightarrow> True
      | DependentAddressSpaceSh _ _ \<Rightarrow> True
      | _ \<Rightarrow> False)"

lemma request_reports: "request sh s = Some r \<Longrightarrow> \<not> unreported sh \<Longrightarrow> reports s (snd r)"
  by (cases sh) (auto simp: request_def unreported_def shared_request_defs getConstantArrayType_def getAutoType_def
      dest: reports_uniqued reports_variable_array reports_ext_vector reports_named(5)
      intro: reports_makers reports_expressions reports_dependent_array reports_named(1-4) split: if_splits option.splits)

text \<open>
  C29 (invariant): in caching mode every type that enters the list of all types enters the list of new
  types, too, in the same order, whichever of the requests of this model makes it, but for deduced
  template specializations and dependent address spaces. The parameters of Objective-C types and the
  builtin types, which are no requests of this model, are not reported either.
\<close>

theorem new_types_reported:
  assumes "CachingMode s" "\<not> unreported sh" "request sh s = Some (T, s')"
  shows "\<exists>ts. AllTypes s' = AllTypes s @ ts \<and> NewTypes s' = NewTypes s @ ts"
  using request_reports[OF assms(3,2)] assms(1) by (auto simp: reports_def)

text \<open>
  C39 (error): a deduced template specialization that is made in caching mode is not reported, so
  the dependency map does not hear of it, and it is found again by the next request.
\<close>

theorem specialization_not_reported:
  assumes "find_node DeducedTemplateSpecializationTypes (DeducedTemplateSpecializationSh n D b) s = None"
  shows "\<exists>s'. getDeducedTemplateSpecializationType n D b s = Some ((NextType s, 0), s') \<and>
    AllTypes s' = AllTypes s @ [NextType s] \<and> NewTypes s' = NewTypes s \<and>
    getDeducedTemplateSpecializationType n D b s' = Some ((NextType s, 0), s')"
proof -
  let ?sh = "DeducedTemplateSpecializationSh n D b"
  obtain s' where s': "getDeducedTemplateSpecializationType n D b s = Some ((NextType s, 0), s')"
    "AllTypes s' = AllTypes s @ [NextType s]" "NewTypes s' = NewTypes s" "ShapeOf s' (NextType s) = Some ?sh"
    "FoldSet s' DeducedTemplateSpecializationTypes = NextType s # FoldSet s DeducedTemplateSpecializationTypes"
    using assms
    by (simp add: getDeducedTemplateSpecializationType_def alloc_type_def push_type_def InsertNode_def Let_def)
  then have "find_node DeducedTemplateSpecializationTypes ?sh s' = Some (NextType s)" by (simp add: find_node_def)
  then have "getDeducedTemplateSpecializationType n D b s' = Some ((NextType s, 0), s')"
    by (simp add: getDeducedTemplateSpecializationType_def)
  with s' show ?thesis by blast
qed


subsection \<open>On concrete tables\<close>

text \<open>A compiler with one type, which is built in; and after it was asked for a pointer to it.\<close>

definition one_builtin :: type_tables where
  "one_builtin = \<lparr>ShapeOf = [0 \<mapsto> BuiltinSh 0], CanonOf = (\<lambda>t. (t, 0)), FoldSet = (\<lambda>_. []), AllTypes = [0], NewTypes = [],
     VariableArrays = [], MemoizedTypeInfo = [], TypeForDecl = (\<lambda>_. None), AutoDeduct = None, NextType = 1, CachingMode = True,
     PointerWidth = 64, DependentTy = 0, ExprKey = id, ExprType = (\<lambda>_. (0, 0)), ExprTypeDependent = (\<lambda>_. False),
     ExprDependent = (\<lambda>_. False), DependentFlag = (\<lambda>t. t = 0), HasPack = (\<lambda>_. False), UnderlyingType = (\<lambda>_. (0, 0)),
     PrevDeclOf = (\<lambda>_. None)\<rparr>"

definition one_pointer :: type_tables where
  "one_pointer = one_builtin\<lparr>ShapeOf := [0 \<mapsto> BuiltinSh 0, 1 \<mapsto> PointerSh (0, 0)],
     FoldSet := (\<lambda>_. [])(PointerTypes := [1]), AllTypes := [0, 1], NewTypes := [1], NextType := 2\<rparr>"

lemma one_builtin_ok: "tables_ok {} one_builtin"
  by (auto simp: tables_ok_def one_builtin_def type_ok_def set_ok_def live_def parts_def pointee_ok_def)

lemma pointer_request: "request (PointerSh (0, 0)) one_builtin = Some ((1, 0), one_pointer)"
  "uniqued PointerTypes (PointerSh (0, 0)) one_builtin = Some ((1, 0), one_pointer)"
proof -
  have "find_node PointerTypes (PointerSh (0, 0)) one_builtin = None" "canonical_version one_builtin (PointerSh (0, 0)) = CanonSelf"
    by (simp_all add: find_node_def canonical_version_def via_canonical_def isCanonical_def one_builtin_def)
  then show "uniqued PointerTypes (PointerSh (0, 0)) one_builtin = Some ((1, 0), one_pointer)"
    by (subst uniqued.simps)
      (simp add: new_node_def new_type_def alloc_type_def push_type_def push_new_type_def InsertNode_def one_pointer_def one_builtin_def fun_eq_iff)
  then show "request (PointerSh (0, 0)) one_builtin = Some ((1, 0), one_pointer)"
    by (simp add: request_def getPointerType_def)
qed

lemma pointer_ok: "request_ok {} one_builtin (PointerSh (0, 0))" "request_ok {} one_pointer (PointerSh (0, 1))"
  by (simp_all add: request_ok_def parts_def live_def replacement_ok_def made_elsewhere_def one_builtin_def one_pointer_def)

lemma one_pointer_ok: "tables_ok {} one_pointer"
  using request_answers[OF one_builtin_ok pointer_ok(1)] by (simp add: pointer_request answers_def)

lemma pointer_compiles: "compiles {} one_builtin one_pointer"
  using compiles_request[OF compiles_start pointer_ok(1) pointer_request(1)] .

lemma pointer_closed: "unload_closed (set [1]) one_pointer"
  by (auto simp: unload_closed_def one_pointer_def one_builtin_def parts_def home_def table_of_def less_2_cases_iff)


theorem eraseTypes_exact_witness: "FoldSet (eraseTypesASTContext [1] one_pointer) PointerTypes = []"
  using eraseTypes_exact[OF one_pointer_ok, of "[1]" PointerTypes] by (simp add: one_pointer_def)

theorem unloaded_types_never_return_witness:
  "\<exists>T s''. request (PointerSh (0, 0)) (eraseTypesASTContext [1] one_pointer) = Some (T, s'') \<and> fst T \<noteq> 1"
proof -
  have "NextType (eraseTypesASTContext [1] one_pointer) = NextType one_pointer"
    unfolding eraseTypesASTContext_def erase_loop by (simp add: Let_def)
  then have "request_ok (set [1]) (eraseTypesASTContext [1] one_pointer) (PointerSh (0, 0))"
    by (simp add: request_ok_def parts_def live_def replacement_ok_def made_elsewhere_def one_pointer_def)
  from unloaded_types_never_return[OF one_pointer_ok pointer_closed compiles_start this] show ?thesis
    unfolding list.set(2) by blast
qed

theorem tables_stay_typed_witness: "home one_pointer 1 = Some PointerTypes"
  using tables_stay_typed[OF one_builtin_ok pointer_compiles, of 1 PointerTypes 1] by (simp add: one_pointer_def)

theorem same_type_iff_same_fields_witness:
  "\<exists>T' s3. uniqued PointerTypes (PointerSh (0, 1)) one_pointer = Some (T', s3) \<and> T' \<noteq> (1, 0)"
proof -
  have shared: "shared_table (PointerSh T) = Some PointerTypes" for T by (simp add: shared_table_def)
  have fields: "profile one_builtin (PointerSh (0, 0)) \<noteq> profile one_builtin (PointerSh (0, 1))" by (simp add: profile_def)
  obtain T' s3 where r: "request (PointerSh (0, 1)) one_pointer = Some (T', s3)"
    using request_answers[OF one_pointer_ok pointer_ok(2)] by fastforce
  then have "uniqued PointerTypes (PointerSh (0, 1)) one_pointer = Some (T', s3)" by (simp add: request_def getPointerType_def)
  then show ?thesis
    using same_type_iff_same_fields[OF one_builtin_ok shared shared pointer_ok(1) pointer_request(2) compiles_start pointer_ok(2)]
      fields by blast
qed

theorem new_types_reported_witness: "\<exists>ts. AllTypes one_pointer = [0] @ ts \<and> NewTypes one_pointer = ts"
  using new_types_reported[OF _ _ pointer_request(1)] by (simp add: one_builtin_def unreported_def)

theorem specialization_not_reported_witness:
  "\<exists>s'. getDeducedTemplateSpecializationType 0 None False one_builtin = Some ((1, 0), s') \<and>
    AllTypes s' = [0, 1] \<and> NewTypes s' = []"
  using specialization_not_reported[of 0 None False one_builtin] by (auto simp: find_node_def one_builtin_def)


subsection \<open>Tables of types are folding sets\<close>

text \<open>
  C14 (refinement): A table of types as the functions above search it is a folding set: with any
  bits that tell profiles apart, and any hash, a search in the buckets finds the type that the list
  has, or the place to insert it.
\<close>

theorem type_table_is_folding_set:
  assumes "tables_ok us s"
    "inj_on enc (insert (profile s sh) (profile s ` {sh'. \<exists>t \<in> set (FoldSet s fs). ShapeOf s t = Some sh'}))"
    "represents hash (\<lambda>t. enc (the (profile_at s t))) f M" "ran M = set (FoldSet s fs)"
  shows "\<exists>b. FindNodeOrInsertPos hash (\<lambda>t. enc (the (profile_at s t))) (enc (profile s sh)) f =
    Some (case find_node fs sh s of Some t \<Rightarrow> (Some t, None) | None \<Rightarrow> (None, Some b))"
proof -
  let ?prof = "\<lambda>t. enc (the (profile_at s t))"
  obtain cs where cs: "holds_nodes hash ?prof f cs" "\<forall>i t. M i = Some t \<longleftrightarrow> t \<in> set (concat cs) \<and> ?prof t = i"
    using assms(3) by (auto simp: represents_def)
  have same: "M i = Some t \<longleftrightarrow> t \<in> set (FoldSet s fs) \<and> ?prof t = i" for i t
    using cs(2) unfolding assms(4)[symmetric] ran_def by blast
  have found: "?prof t = enc (profile s sh) \<longleftrightarrow> profile_at s t = Some (profile s sh)" if t: "t \<in> set (FoldSet s fs)" for t
  proof -
    have "set_ok us s fs" using assms(1) by (simp add: tables_ok_def)
    then have "t < NextType s" using t by (simp add: set_ok_def)
    moreover have "ShapeOf s t = None \<longleftrightarrow> NextType s \<le> t" using assms(1) unfolding tables_ok_def by blast
    ultimately obtain sh' where sh': "ShapeOf s t = Some sh'" by fastforce
    have "enc (profile s sh') = enc (profile s sh) \<longleftrightarrow> profile s sh' = profile s sh"
      by (rule inj_on_eq_iff[OF assms(2)]) (use t sh' in auto)
    then show ?thesis by (simp add: profile_at_def sh')
  qed
  have "M (enc (profile s sh)) = find_node fs sh s"
  proof (cases "find_node fs sh s")
    case None
    then have "M (enc (profile s sh)) \<noteq> Some t" for t
      unfolding same using found[of t] unfolding find_node_None image_iff by metis
    then show ?thesis using None by (metis option.exhaust)
  next
    case (Some t)
    then have "M (enc (profile s sh)) = Some t" unfolding same using find_node_Some[OF Some] found by blast
    then show ?thesis using Some by simp
  qed
  then show ?thesis using represents_find[OF cs] by metis
qed

theorem type_table_is_folding_set_witness:
  "\<exists>f enc. FindNodeOrInsertPos (\<lambda>i. 0) (\<lambda>t. enc (the (profile_at one_pointer t))) (enc (PointerSh (0, 0))) f = Some (Some 1, None)"
proof -
  let ?enc = "\<lambda>sh. if sh = PointerSh (0, 0) then [0] else [1 :: 32 word]"
  let ?prof = "\<lambda>t. ?enc (the (profile_at one_pointer t))" and ?hash = "\<lambda>i. 0 :: 32 word"
  have prof: "profile one_pointer (PointerSh (0, 0)) = PointerSh (0, 0)" by (simp add: profile_def)
  obtain f0 where f0: "FoldingSetBase 6 (\<lambda>_. None) = Some f0" by (simp add: FoldingSetBase_def)
  obtain f where "represents ?hash ?prof f [?prof 1 \<mapsto> 1]"
    using perform_represents[of ?hash ?prof f0 Map.empty "Enter 1" 0] FoldingSetBase_represents[OF f0] by auto
  moreover have "inj_on ?enc (insert (profile one_pointer (PointerSh (0, 0)))
      (profile one_pointer ` {sh'. \<exists>t \<in> set (FoldSet one_pointer PointerTypes). ShapeOf one_pointer t = Some sh'}))"
    by (simp add: one_pointer_def profile_def inj_on_def)
  moreover have "ran [?prof 1 \<mapsto> 1] = set (FoldSet one_pointer PointerTypes)" by (simp add: one_pointer_def)
  moreover have "find_node PointerTypes (PointerSh (0, 0)) one_pointer = Some 1"
    by (simp add: find_node_def one_pointer_def)
  ultimately show ?thesis
    using type_table_is_folding_set[OF one_pointer_ok, of ?enc "PointerSh (0, 0)" PointerTypes ?hash f "[?prof 1 \<mapsto> 1]"]
    unfolding prof by (intro exI[of _ f] exI[of _ ?enc]) auto
qed

end
