(* ===== verification/ModuleConstants.thy ===== *)
theory ModuleConstants
  imports RedeclChains StringRefs
begin

text \<open>
  The globals and constants of the module that is kept between compilations, and what the unloader
  does to them: \<^verbatim>\<open>removeDeclFromModule\<close>, \<^verbatim>\<open>collectConstants\<close> and \<^verbatim>\<open>eraseConstantandUsers\<close> of
  \<^verbatim>\<open>tools/zapccs/UnloaderIR.cpp\<close>. A constant is a number, its users are its use list. An
  instruction is known by its function, and a block address, which goes with the body of its
  function, too. The blocks and instructions themselves are not modelled.
\<close>

subsection \<open>The module\<close>

type_synonym const_id = nat
type_synonym ir_type = nat

datatype constant_kind = FunctionC | VariableC | AliasC | IFuncC | PlainC

datatype ir_user = InstructionUser const_id | BlockAddressUser const_id | ConstantUser const_id

datatype gv_linkage =
    ExternalLinkage | AvailableExternallyLinkage | LinkOnceAnyLinkage | LinkOnceODRLinkage | WeakAnyLinkage
  | WeakODRLinkage | AppendingLinkage | InternalLinkage | PrivateLinkage | ExternalWeakLinkage | CommonLinkage

datatype fn_attr =
    ArgMemOnly | Convergent | InaccessibleMemOnly | InaccessibleMemOrArgMemOnly | NoAlias | NoCapture
  | NonNull | NoneAttr | NoReturn | NoRecurse | NoUnwind | ReadNone | ReadOnly | ReturnsTwice | UWTable
  | WriteOnly | OtherAttr nat

datatype decl_sort = FunctionSort | VariableSort | OtherSort

datatype template_kind =
    TSK_Undeclared | TSK_ImplicitInstantiation | TSK_ExplicitSpecialization
  | TSK_ExplicitInstantiationDeclaration | TSK_ExplicitInstantiationDefinition

text \<open>
  First what is known of a constant: whether a global has a definition, that is a body, an
  initializer, an aliasee or a resolver; whether the initializer is a null value; the types that
  the instructions of a body access. Then the tables of the code generator and what it knows of
  declarations. Last the sets of the unloader; \<open>Gone\<close> records the constants that were destroyed.
\<close>

record codegen =
  ConstKind :: "const_id \<Rightarrow> constant_kind"
  UsersOf :: "const_id \<Rightarrow> ir_user list"
  GVName :: "const_id \<Rightarrow> string"
  GVDecl :: "const_id \<Rightarrow> decl option"
  HasDefinition :: "const_id \<Rightarrow> bool"
  NullInitializer :: "const_id \<Rightarrow> bool"
  AccessedTypes :: "const_id \<Rightarrow> ir_type list"
  LinkageOf :: "const_id \<Rightarrow> gv_linkage"
  DefaultVisibility :: "const_id \<Rightarrow> bool"
  HasComdat :: "const_id \<Rightarrow> bool"
  HasMetadata :: "const_id \<Rightarrow> bool"
  FnAttrs :: "const_id \<Rightarrow> fn_attr list"
  ReturnedAt :: "const_id \<Rightarrow> nat option"
  MachineFunction :: "const_id \<Rightarrow> bool"
  Passed :: "const_id \<Rightarrow> bool"
  FunctionTypeInfos :: "const_id list"
  GlobalObjects :: "const_id list"
  NamedValue :: "string \<Rightarrow> const_id option"
  GlobalCtors :: "const_id list"
  GlobalDtors :: "const_id list"
  SanStats :: "const_id option"
  WeakRefReferences :: "const_id list"
  DeclChains :: chains
  DeclSort :: "decl \<Rightarrow> decl_sort"
  IsDefinition :: "decl \<Rightarrow> bool"
  BodyDecl :: "decl \<Rightarrow> decl option"
  InRecord :: "decl \<Rightarrow> bool"
  MemberKind :: "decl \<Rightarrow> template_kind option"
  PointOfInstantiation :: "decl \<Rightarrow> nat option"
  DeclGlobalValues :: "decl \<Rightarrow> const_id list"
  UnloadedDecls :: "decl list"
  ErasedTypes :: "ir_type list"
  GVsToKeep :: "const_id list"
  ToErase :: "const_id list"
  SeenConstants :: "const_id list"
  ErasedDeferred :: "decl list"
  Gone :: "const_id list"

definition is_global :: "codegen \<Rightarrow> const_id \<Rightarrow> bool" where
  "is_global s c \<longleftrightarrow> ConstKind s c \<noteq> PlainC"

definition isDeclaration :: "codegen \<Rightarrow> const_id \<Rightarrow> bool" where
  "isDeclaration s c \<longleftrightarrow> ConstKind s c \<in> {FunctionC, VariableC} \<and> \<not> HasDefinition s c"

subsection \<open>Removing the definition of a global\<close>

text \<open>Nothing that belongs to the global uses a constant any more.\<close>

fun used_by :: "const_id \<Rightarrow> ir_user \<Rightarrow> bool" where
  "used_by g (InstructionUser f) = (f = g)"
| "used_by g (BlockAddressUser f) = (f = g)"
| "used_by g (ConstantUser c) = (c = g)"

definition drop_uses :: "const_id \<Rightarrow> codegen \<Rightarrow> codegen" where
  "drop_uses g s = s\<lparr>UsersOf := (\<lambda>c. filter (\<lambda>u. \<not> used_by g u) (UsersOf s c))\<rparr>"

definition drop_definition :: "const_id \<Rightarrow> codegen \<Rightarrow> codegen" where
  "drop_definition g s = (drop_uses g s)\<lparr>HasDefinition := (HasDefinition s)(g := False)\<rparr>"

definition setLinkage :: "const_id \<Rightarrow> gv_linkage \<Rightarrow> codegen \<Rightarrow> codegen" where
  "setLinkage g l s = s\<lparr>LinkageOf := (LinkageOf s)(g := l)\<rparr>"

definition deleteBody :: "const_id \<Rightarrow> codegen \<Rightarrow> codegen" where
  "deleteBody f s = setLinkage f ExternalLinkage
     ((drop_definition f s)\<lparr>AccessedTypes := (AccessedTypes s)(f := []),
        MachineFunction := (MachineFunction s)(f := False), HasMetadata := (HasMetadata s)(f := False)\<rparr>)"

definition removed_attrs :: "fn_attr list" where
  "removed_attrs =
     [ArgMemOnly, Convergent, InaccessibleMemOnly, InaccessibleMemOrArgMemOnly, NoAlias, NoCapture,
      NonNull, NoneAttr, NoReturn, NoRecurse, NoUnwind, ReadNone, ReadOnly, ReturnsTwice, UWTable, WriteOnly]"

definition removeFunctionAttrs :: "const_id \<Rightarrow> codegen \<Rightarrow> codegen" where
  "removeFunctionAttrs f s =
     s\<lparr>ReturnedAt := (case ReturnedAt s f of
                        Some i \<Rightarrow> if i \<noteq> 0 then (ReturnedAt s)(f := None) else ReturnedAt s
                      | None \<Rightarrow> ReturnedAt s),
       FnAttrs := (FnAttrs s)(f := filter (\<lambda>a. a \<notin> set removed_attrs) (FnAttrs s f))\<rparr>"

definition eraseVariable :: "const_id \<Rightarrow> codegen \<Rightarrow> codegen" where
  "eraseVariable g s =
     (let s1 = s\<lparr>HasComdat := (HasComdat s)(g := False)\<rparr>
      in if isDeclaration s1 g then s1
         else if LinkageOf s1 g = CommonLinkage \<and> NullInitializer s1 g then s1
         else drop_definition g
           (if LinkageOf s1 g \<noteq> ExternalWeakLinkage then setLinkage g ExternalLinkage s1 else s1))"

definition eraseFunction :: "const_id \<Rightarrow> codegen \<Rightarrow> codegen" where
  "eraseFunction f s =
     (let s1 = s\<lparr>HasComdat := (HasComdat s)(f := False)\<rparr>;
          s2 = (if \<not> isDeclaration s1 f then deleteBody f s1 else s1);
          s3 = s2\<lparr>MachineFunction := (MachineFunction s2)(f := False), Passed := (Passed s2)(f := False)\<rparr>
      in (removeFunctionAttrs f s3)\<lparr>FunctionTypeInfos := removeAll f (FunctionTypeInfos s3)\<rparr>)"

definition eraseDefinition :: "const_id \<Rightarrow> codegen \<Rightarrow> codegen" where
  "eraseDefinition g s =
     (let s1 = s\<lparr>DefaultVisibility := (DefaultVisibility s)(g := True),
                 HasMetadata := (if ConstKind s g \<in> {FunctionC, VariableC} then (HasMetadata s)(g := False) else HasMetadata s)\<rparr>
      in case ConstKind s1 g of
           VariableC \<Rightarrow> eraseVariable g s1
         | FunctionC \<Rightarrow> eraseFunction g s1
         | _ \<Rightarrow> drop_definition g s1)"

subsection \<open>Collecting what has to be erased\<close>

definition insertConstantsToEraseCompletely :: "const_id \<Rightarrow> codegen \<Rightarrow> bool \<times> codegen" where
  "insertConstantsToEraseCompletely c s = (c \<notin> set (ToErase s), s\<lparr>ToErase := set_add c (ToErase s)\<rparr>)"

definition unload_ok_prefixes :: "string list" where
  "unload_ok_prefixes =
     [''_GLOBAL'', ''__tls'', ''__dtor_'', ''__clang'', ''__cxx_global'', ''_ZTW'', ''__Block_byref_object'', ''asan.'']"

definition isFunctionUnloadOK :: "string \<Rightarrow> bool" where
  "isFunctionUnloadOK name \<longleftrightarrow> name = [] \<or> list_ex (sr_startswith name) unload_ok_prefixes \<or>
     (sr_startswith name (CHR 0x01 # ''??__'') \<and> sr_endswith name ''@YAXXZ'')"

text \<open>The definition of a function of a file that stays will be generated again.\<close>

definition insertCachedDeferredDeclsToEmit :: "const_id \<Rightarrow> codegen \<Rightarrow> codegen" where
  "insertCachedDeferredDeclsToEmit gv s =
     (case GVDecl s gv of
        Some d \<Rightarrow>
          if DeclSort s d = FunctionSort \<and> IsDefinition s d \<and> d \<notin> set (UnloadedDecls s)
          then s\<lparr>ErasedDeferred := set_add d (ErasedDeferred s)\<rparr> else s
      | None \<Rightarrow> s)"

fun user_constant :: "ir_user \<Rightarrow> const_id" where
  "user_constant (InstructionUser f) = f"
| "user_constant (BlockAddressUser f) = f"
| "user_constant (ConstantUser c) = c"

text \<open>What happens when all users of a constant have been visited.\<close>

definition leave_constant :: "const_id \<Rightarrow> codegen \<Rightarrow> codegen" where
  "leave_constant c s =
     (let (fresh, s') = insertConstantsToEraseCompletely c s
      in if fresh \<and> ConstKind s' c = FunctionC \<and> \<not> isFunctionUnloadOK (GVName s' c)
         then insertCachedDeferredDeclsToEmit c s' else s')"

text \<open>The recursion over the users, for all constants of a list in turn.\<close>

partial_function (option) insert_all_users :: "const_id list \<Rightarrow> codegen \<Rightarrow> codegen option" where
  "insert_all_users cs s =
     (case cs of
        [] \<Rightarrow> Some s
      | c # cs \<Rightarrow>
          if c \<in> set (SeenConstants s) then insert_all_users cs s
          else Option.bind (insert_all_users (map user_constant (UsersOf s c)) (s\<lparr>SeenConstants := SeenConstants s @ [c]\<rparr>))
                 (\<lambda>s'. insert_all_users cs (leave_constant c s')))"

declare insert_all_users.simps [code]

definition insertConstantAndUsers :: "const_id \<Rightarrow> codegen \<Rightarrow> codegen option" where
  "insertConstantAndUsers c = insert_all_users [c]"

definition findErasedType :: "codegen \<Rightarrow> const_id \<Rightarrow> bool" where
  "findErasedType s f \<longleftrightarrow> list_ex (\<lambda>t. t \<in> set (ErasedTypes s)) (AccessedTypes s f)"

definition insert_when :: "(const_id \<Rightarrow> bool) \<Rightarrow> const_id list \<Rightarrow> codegen \<Rightarrow> codegen" where
  "insert_when p cs s = fold (\<lambda>c s. if p c then snd (insertConstantsToEraseCompletely c s) else s) cs s"

definition runtime_names :: "string list" where
  "runtime_names =
     [''llvm.global_ctors'', ''llvm.global_dtors'', ''llvm.global.annotations'', ''__tls_init'', ''__tls_guard'',
      ''asan.module_ctor'', ''asan.module_dtor'', ''__llvm_gcov_ctr'', ''__llvm_gcov_init'', ''__llvm_gcov_writeout'']"

text \<open>The globals that are always made anew.\<close>

definition insert_runtime_globals :: "codegen \<Rightarrow> codegen" where
  "insert_runtime_globals s =
     (let s1 = insert_when (\<lambda>c. list_ex (sr_startswith (GVName s c)) [''__asan'', ''.omp_offload'', ''__tgt_'']) (GlobalObjects s) s;
          s2 = insert_when (\<lambda>_. True) (List.map_filter (NamedValue s1) runtime_names) s1;
          s3 = insert_when (\<lambda>c. sr_startswith (GVName s c) ''_GLOBAL__sub_I'') (GlobalCtors s2) s2;
          s4 = insert_when (\<lambda>c. sr_startswith (GVName s c) ''_GLOBAL__D'') (GlobalDtors s3) s3
      in case SanStats s4 of
           None \<Rightarrow> s4
         | Some g \<Rightarrow> (snd (insertConstantsToEraseCompletely g s4))\<lparr>SanStats := None\<rparr>)"

definition insert_erased_types :: "codegen \<Rightarrow> codegen" where
  "insert_erased_types s =
     fold (\<lambda>f s. if f \<in> set (ToErase s) \<or> f \<in> set (GVsToKeep s) then s
                else if findErasedType s f
                then insertCachedDeferredDeclsToEmit f (snd (insertConstantsToEraseCompletely f s)) else s)
       (filter (\<lambda>f. ConstKind s f = FunctionC) (GlobalObjects s)) s"

partial_function (option) collect_loop :: "nat \<Rightarrow> codegen \<Rightarrow> codegen option" where
  "collect_loop i s =
     (if i < length (ToErase s) then
        (let c = ToErase s ! i
         in Option.bind (insertConstantAndUsers c (if is_global s c then eraseDefinition c s else s)) (collect_loop (Suc i)))
      else Some s)"

declare collect_loop.simps [code]

definition prepare_constants :: "codegen \<Rightarrow> codegen" where
  "prepare_constants s =
     (let s1 = insert_erased_types (insert_runtime_globals s);
          s2 = s1\<lparr>ErasedTypes := []\<rparr>
      in fold eraseDefinition (GVsToKeep s2) s2)"

definition collectConstants :: "codegen \<Rightarrow> codegen option" where
  "collectConstants s = map_option (\<lambda>s. s\<lparr>SeenConstants := []\<rparr>) (collect_loop 0 (prepare_constants s))"

subsection \<open>Erasing\<close>

text \<open>
  \<open>None\<close> stands for the failed assertion, a cast of an instruction to a constant, and the loop that
  does not end.
\<close>

definition destroy :: "const_id \<Rightarrow> codegen \<Rightarrow> codegen" where
  "destroy c s =
     (let s' = (if is_global s c then s\<lparr>WeakRefReferences := removeAll c (WeakRefReferences s)\<rparr> else s)
      in (drop_uses c s')\<lparr>Gone := Gone s @ [c]\<rparr>)"

partial_function (option) erase_users :: "bool \<Rightarrow> const_id \<Rightarrow> codegen \<Rightarrow> codegen option" where
  "erase_users entered c s =
     (if \<not> entered then
        (if c \<in> set (SeenConstants s) then Some s
         else erase_users True c (s\<lparr>SeenConstants := SeenConstants s @ [c]\<rparr>))
      else
        (case UsersOf s c of
           [] \<Rightarrow> Some (destroy c s)
         | u # _ \<Rightarrow>
             (case u of
                ConstantUser d \<Rightarrow>
                  if ConstKind s d \<in> {VariableC, FunctionC} then None
                  else Option.bind (erase_users False d s) (erase_users True c)
              | _ \<Rightarrow> None)))"

declare erase_users.simps [code]

definition eraseConstantandUsers :: "const_id \<Rightarrow> codegen \<Rightarrow> codegen option" where
  "eraseConstantandUsers = erase_users False"

fun erase_each :: "const_id list \<Rightarrow> codegen \<Rightarrow> codegen option" where
  "erase_each [] s = Some s"
| "erase_each (c # cs) s = (case eraseConstantandUsers c s of None \<Rightarrow> None | Some s' \<Rightarrow> erase_each cs s')"

text \<open>The two passes, one after the other.\<close>

definition unload_constants :: "codegen \<Rightarrow> codegen option" where
  "unload_constants s = Option.bind (collectConstants s) (\<lambda>s'. erase_each (ToErase s') s')"

subsection \<open>Globals of unloaded declarations\<close>

definition isSameKind :: "decl option \<Rightarrow> const_id \<Rightarrow> codegen \<Rightarrow> bool" where
  "isSameKind r gv s \<longleftrightarrow>
     (case r of
        None \<Rightarrow> False
      | Some r \<Rightarrow> (DeclSort s r = FunctionSort \<and> ConstKind s gv = FunctionC) \<or>
                 (DeclSort s r = VariableSort \<and> ConstKind s gv = VariableC))"

definition setDecl :: "const_id \<Rightarrow> decl option \<Rightarrow> codegen \<Rightarrow> codegen" where
  "setDecl gv d s = s\<lparr>GVDecl := (GVDecl s)(gv := d)\<rparr>"

definition insertDeclGlobalValues :: "decl option \<Rightarrow> const_id \<Rightarrow> bool \<Rightarrow> codegen \<Rightarrow> codegen" where
  "insertDeclGlobalValues d gv preferFunctionBody s =
     (case d of
        None \<Rightarrow> setDecl gv None s
      | Some d \<Rightarrow>
          (let d = (if preferFunctionBody \<and> \<not> isDeclaration s gv \<and> ConstKind s gv = FunctionC \<and> DeclSort s d = FunctionSort
                    then (case BodyDecl s d of Some b \<Rightarrow> b | None \<Rightarrow> d) else d)
           in if gv \<in> set (DeclGlobalValues s d) then s
              else setDecl gv (Some d) (s\<lparr>DeclGlobalValues := (DeclGlobalValues s)(d := DeclGlobalValues s d @ [gv])\<rparr>)))"

definition getDeclGlobalValues :: "decl \<Rightarrow> codegen \<Rightarrow> const_id list" where
  "getDeclGlobalValues d s = filter (\<lambda>v. v \<notin> set (Gone s) \<and> is_global s v) (DeclGlobalValues s d)"

text \<open>
  The redeclaration that takes over the globals of an unloaded declaration, and whether it needs
  their definitions.
\<close>

definition module_replacement :: "decl \<Rightarrow> codegen \<Rightarrow> (decl option \<times> bool \<times> codegen) option" where
  "module_replacement d s =
     (case DeclSort s d of
        FunctionSort \<Rightarrow>
          (let was = IsDefinition s d
           in case (if was \<and> InRecord s d then Some None else nonUserDecl d (UnloadedDecls s) (DeclChains s)) of
                None \<Rightarrow> None
              | Some r \<Rightarrow> Some (r, \<not> was \<and> (case r of Some r \<Rightarrow> IsDefinition s r | None \<Rightarrow> False), s))
      | VariableSort \<Rightarrow>
          (case nonUserDecl d (UnloadedDecls s) (DeclChains s) of
             None \<Rightarrow> None
           | Some None \<Rightarrow> Some (None, False, s)
           | Some (Some r) \<Rightarrow>
               Some (Some r, IsDefinition s r,
                 if MemberKind s r \<in> {Some TSK_ImplicitInstantiation, Some TSK_ExplicitSpecialization}
                 then s\<lparr>MemberKind := (MemberKind s)(r := Some TSK_ImplicitInstantiation),
                        PointOfInstantiation := (PointOfInstantiation s)(r := None)\<rparr>
                 else s))
      | OtherSort \<Rightarrow> Some (None, False, s))"

definition remove_gv :: "decl option \<Rightarrow> bool \<Rightarrow> const_id \<Rightarrow> codegen \<Rightarrow> codegen" where
  "remove_gv r needDefinition gv s =
     (let s1 = setDecl gv None s;
          name = GVName s1 gv
      in if name = ''__cxa_pure_virtual'' then s1\<lparr>GVsToKeep := set_add gv (GVsToKeep s1)\<rparr>
         else if sr_startswith name ''__cxx_global_var_init'' \<or> ConstKind s1 gv \<in> {AliasC, IFuncC} then
           snd (insertConstantsToEraseCompletely gv s1)
         else if isSameKind r gv s1 then
           (let s2 = insertDeclGlobalValues r gv False s1
            in if needDefinition then s2 else s2\<lparr>GVsToKeep := set_add gv (GVsToKeep s2)\<rparr>)
         else snd (insertConstantsToEraseCompletely gv s1))"

definition removeDeclFromModule :: "decl \<Rightarrow> codegen \<Rightarrow> codegen option" where
  "removeDeclFromModule d s =
     (case module_replacement d s of
        None \<Rightarrow> None
      | Some (r, needDefinition, s1) \<Rightarrow>
          Some (fold (remove_gv r needDefinition) (getDeclGlobalValues d s1)
            (s1\<lparr>DeclGlobalValues := (DeclGlobalValues s1)(d := [])\<rparr>)))"

end
