(* ===== verification/ModuleErasure.thy ===== *)
theory ModuleErasure
  imports ModuleConstants
begin

text \<open>
  What \<^verbatim>\<open>collectConstants\<close> and \<^verbatim>\<open>eraseConstantandUsers\<close> of \<^verbatim>\<open>tools/zapccs/UnloaderIR.cpp\<close> achieve:
  the recursion over the users ends, the loop over the constants to be erased collects exactly their
  transitive users, and these can be destroyed one by one.
\<close>

subsection \<open>The recursion over the users\<close>

definition use_edges :: "codegen \<Rightarrow> (const_id \<times> const_id) set" where
  "use_edges s = {(c, d). d \<in> user_constant ` set (UsersOf s c)}"

text \<open>The function \<open>f\<close> was defined for the declaration \<open>d\<close> of a file that stays.\<close>

definition reemitted :: "codegen \<Rightarrow> const_id \<Rightarrow> decl \<Rightarrow> bool" where
  "reemitted s f d \<longleftrightarrow> GVDecl s f = Some d \<and> DeclSort s d = FunctionSort \<and> IsDefinition s d \<and> d \<notin> set (UnloadedDecls s)"

definition reemitted_user :: "codegen \<Rightarrow> const_id \<Rightarrow> decl \<Rightarrow> bool" where
  "reemitted_user s f d \<longleftrightarrow> ConstKind s f = FunctionC \<and> \<not> isFunctionUnloadOK (GVName s f) \<and> reemitted s f d"

text \<open>
  What the recursion has achieved from \<open>s\<close> to \<open>s'\<close>: the constants newly seen are closed under
  users, are users of the given ones, and are now to be erased; those that were not to be erased
  before have their declarations generated again.
\<close>

definition collected :: "const_id list \<Rightarrow> codegen \<Rightarrow> codegen \<Rightarrow> bool" where
  "collected cs s s' \<longleftrightarrow>
     s' = s\<lparr>SeenConstants := SeenConstants s', ToErase := ToErase s', ErasedDeferred := ErasedDeferred s'\<rparr> \<and>
     set (SeenConstants s) \<subseteq> set (SeenConstants s') \<and> set cs \<subseteq> set (SeenConstants s') \<and>
     (\<forall>v \<in> set (SeenConstants s') - set (SeenConstants s).
        use_edges s `` {v} \<subseteq> set (SeenConstants s') \<and> (\<exists>c \<in> set cs. (c, v) \<in> (use_edges s)\<^sup>*)) \<and>
     set (ToErase s') = set (ToErase s) \<union> (set (SeenConstants s') - set (SeenConstants s)) \<and>
     prefix (ToErase s) (ToErase s') \<and> (distinct (ToErase s) \<longrightarrow> distinct (ToErase s')) \<and>
     set (ErasedDeferred s') = set (ErasedDeferred s) \<union>
       {d. \<exists>f \<in> set (SeenConstants s') - set (SeenConstants s) - set (ToErase s). reemitted_user s f d}"

lemma collected_frame:
  assumes "collected cs s s'"
  shows "use_edges s' = use_edges s" "reemitted_user s' = reemitted_user s" "UsersOf s' = UsersOf s"
    "ConstKind s' = ConstKind s" "HasDefinition s' = HasDefinition s"
    "s' = s\<lparr>SeenConstants := SeenConstants s', ToErase := ToErase s', ErasedDeferred := ErasedDeferred s'\<rparr>"
proof -
  show s': "s' = s\<lparr>SeenConstants := SeenConstants s', ToErase := ToErase s', ErasedDeferred := ErasedDeferred s'\<rparr>"
    using assms unfolding collected_def by (elim conjE)
  show "use_edges s' = use_edges s" "reemitted_user s' = reemitted_user s" "UsersOf s' = UsersOf s"
    "ConstKind s' = ConstKind s" "HasDefinition s' = HasDefinition s"
    by (subst s'; simp add: use_edges_def reemitted_user_def[abs_def] reemitted_def)+
qed

lemma collectedD:
  assumes "collected cs s s'"
  shows "set (SeenConstants s) \<subseteq> set (SeenConstants s')" "set cs \<subseteq> set (SeenConstants s')"
    "v \<in> set (SeenConstants s') \<Longrightarrow> v \<notin> set (SeenConstants s) \<Longrightarrow> (v, w) \<in> use_edges s \<Longrightarrow> w \<in> set (SeenConstants s')"
    "v \<in> set (SeenConstants s') \<Longrightarrow> v \<notin> set (SeenConstants s) \<Longrightarrow> \<exists>c \<in> set cs. (c, v) \<in> (use_edges s)\<^sup>*"
    "set (ToErase s') = set (ToErase s) \<union> (set (SeenConstants s') - set (SeenConstants s))"
    "prefix (ToErase s) (ToErase s')" "distinct (ToErase s) \<Longrightarrow> distinct (ToErase s')"
    "set (ErasedDeferred s') = set (ErasedDeferred s) \<union>
       {d. \<exists>f \<in> set (SeenConstants s') - set (SeenConstants s) - set (ToErase s). reemitted_user s f d}"
  using assms unfolding collected_def by blast+

lemma collected_nil: "collected [] s s"
  by (simp add: collected_def)

lemma collected_seen:
  assumes "c \<in> set (SeenConstants s)"
  shows "collected [c] s s"
  using assms by (simp add: collected_def)

lemma collected_append:
  assumes a: "collected cs s s1" and b: "collected ds s1 s2"
  shows "collected (cs @ ds) s s2"
proof -
  note A = collectedD[OF a] and B = collectedD[OF b] and fa = collected_frame[OF a] and fb = collected_frame[OF b]
  have "s1\<lparr>SeenConstants := x, ToErase := y, ErasedDeferred := z\<rparr> = s\<lparr>SeenConstants := x, ToErase := y, ErasedDeferred := z\<rparr>"
    for x y z by (subst fa(6)) simp
  then have "s2 = s\<lparr>SeenConstants := SeenConstants s2, ToErase := ToErase s2, ErasedDeferred := ErasedDeferred s2\<rparr>"
    by (rule trans[OF fb(6)])
  moreover have "use_edges s `` {v} \<subseteq> set (SeenConstants s2) \<and> (\<exists>c \<in> set (cs @ ds). (c, v) \<in> (use_edges s)\<^sup>*)"
    if "v \<in> set (SeenConstants s2) - set (SeenConstants s)" for v
    using that A(1) A(3,4)[of v] B(1) B(3,4)[of v] unfolding fa(1) by (cases "v \<in> set (SeenConstants s1)") auto
  moreover have "set (ToErase s2) = set (ToErase s) \<union> (set (SeenConstants s2) - set (SeenConstants s))"
    using A(1,5) B(1,5) by blast
  moreover have "set (ErasedDeferred s2) = set (ErasedDeferred s) \<union>
      {d. \<exists>f \<in> set (SeenConstants s2) - set (SeenConstants s) - set (ToErase s). reemitted_user s f d}"
    unfolding B(8) A(8) A(5) fa(2) using A(1) B(1) by blast
  ultimately show ?thesis
    unfolding collected_def using A(1,2,6,7) B(1,2,6,7) prefix_order.trans by auto
qed


lemma leave_constant_fields:
  "leave_constant c s = s\<lparr>ToErase := set_add c (ToErase s), ErasedDeferred := ErasedDeferred (leave_constant c s)\<rparr>"
  "ToErase (leave_constant c s) = set_add c (ToErase s)"
  "set (ErasedDeferred (leave_constant c s)) =
    set (ErasedDeferred s) \<union> (if c \<in> set (ToErase s) then {} else {d. reemitted_user s c d})"
  by (auto simp: leave_constant_def insertConstantsToEraseCompletely_def insertCachedDeferredDeclsToEmit_def
      reemitted_user_def reemitted_def split: option.splits)

lemma prefix_set_add: "prefix xs ys \<Longrightarrow> prefix xs (set_add y ys)"
  by (auto simp: set_add_def)

lemma collected_enter:
  assumes new: "c \<notin> set (SeenConstants s)"
    and p: "collected (map user_constant (UsersOf s c)) (s\<lparr>SeenConstants := SeenConstants s @ [c]\<rparr>) s1"
  shows "collected [c] s (leave_constant c s1)"
proof -
  let ?s = "s\<lparr>SeenConstants := SeenConstants s @ [c]\<rparr>" and ?l = "leave_constant c s1"
  note P = collectedD[OF p] and f = collected_frame[OF p]
  have edges: "use_edges ?s = use_edges s" "reemitted_user ?s = reemitted_user s" "reemitted_user s1 = reemitted_user s"
    unfolding f(2) by (simp_all add: use_edges_def reemitted_user_def[abs_def] reemitted_def)
  have "?l = s1\<lparr>ToErase := ToErase ?l, ErasedDeferred := ErasedDeferred ?l\<rparr>"
    by (subst leave_constant_fields(1)) (simp add: leave_constant_fields(2))
  also have "\<dots> = s\<lparr>SeenConstants := SeenConstants s1, ToErase := ToErase ?l, ErasedDeferred := ErasedDeferred ?l\<rparr>"
    by (subst f(6)) simp
  finally have frame: "?l = s\<lparr>SeenConstants := SeenConstants s1, ToErase := ToErase ?l, ErasedDeferred := ErasedDeferred ?l\<rparr>" .
  note erase = leave_constant_fields(2)[of c s1]
  have seen: "SeenConstants ?l = SeenConstants s1" by (subst frame) simp
  have users: "use_edges s `` {c} \<subseteq> set (SeenConstants s1)" "c \<in> set (SeenConstants s1)"
    using P(1,2) by (auto simp: use_edges_def)
  have "use_edges s `` {v} \<subseteq> set (SeenConstants s1) \<and> (c, v) \<in> (use_edges s)\<^sup>*"
    if v: "v \<in> set (SeenConstants s1) - set (SeenConstants s)" for v
  proof (cases "v = c")
    case False
    obtain u where "u \<in> set (UsersOf s c)" "(user_constant u, v) \<in> (use_edges s)\<^sup>*"
      using P(4)[of v] v False unfolding edges by auto
    moreover from this(1) have "(c, user_constant u) \<in> use_edges s" by (auto simp: use_edges_def)
    ultimately show ?thesis using P(3)[of v] v False unfolding edges by auto
  qed (use users in auto)
  moreover have "set (ErasedDeferred ?l) = set (ErasedDeferred s) \<union>
      {d. \<exists>f \<in> set (SeenConstants s1) - set (SeenConstants s) - set (ToErase s). reemitted_user s f d}"
    using P(1) new unfolding leave_constant_fields(3) P(8) P(5) edges by auto
  ultimately show ?thesis
    unfolding collected_def seen erase
    using frame[unfolded erase] P(1,5,6,7) new users(2) prefix_set_add by auto
qed


text \<open>The recursion ends: each constant is entered once.\<close>

lemma collected_unseen:
  assumes "finite N" "collected cs s s'"
  shows "card (N - set (SeenConstants s')) \<le> card (N - set (SeenConstants s))"
  using collectedD(1)[OF assms(2)] assms(1) by (intro card_mono) auto

lemma insert_all_users_bounded:
  assumes "finite N" "card (N - set (SeenConstants s)) \<le> k" "set cs \<subseteq> N" "use_edges s `` N \<subseteq> N"
  shows "\<exists>s'. insert_all_users cs s = Some s' \<and> collected cs s s'"
  using assms(2-4)
proof (induction k arbitrary: cs s)
  case 0
  then have "N \<subseteq> set (SeenConstants s)" using assms(1) by auto
  then have "set cs \<subseteq> set (SeenConstants s)" using 0 by blast
  then have "insert_all_users cs s = Some s"
  proof (induction cs)
    case (Cons c cs)
    then show ?case by (subst insert_all_users.simps) simp
  qed (subst insert_all_users.simps, simp)
  moreover have "collected cs s s" using \<open>set cs \<subseteq> set (SeenConstants s)\<close> by (simp add: collected_def)
  ultimately show ?case by blast
next
  case (Suc k)
  from Suc.prems show ?case
  proof (induction cs arbitrary: s)
    case Nil
    then show ?case by (subst insert_all_users.simps) (simp add: collected_nil)
  next
    case (Cons c cs)
    show ?case
    proof (cases "c \<in> set (SeenConstants s)")
      case True
      obtain s' where "insert_all_users cs s = Some s'" "collected cs s s'" using Cons.IH[of s] Cons.prems by auto
      then show ?thesis
        using True collected_append[OF collected_seen[OF True]] by (subst insert_all_users.simps) auto
    next
      case False
      let ?s = "s\<lparr>SeenConstants := SeenConstants s @ [c]\<rparr>"
      have edges: "use_edges ?s = use_edges s" by (simp add: use_edges_def)
      have "N - set (SeenConstants s) = insert c (N - set (SeenConstants ?s))" "c \<notin> N - set (SeenConstants ?s)"
        using False Cons.prems(2) by auto
      then have "card (N - set (SeenConstants s)) = Suc (card (N - set (SeenConstants ?s)))"
        using assms(1) by (metis finite_Diff card_insert_disjoint)
      then have "card (N - set (SeenConstants ?s)) \<le> k" using Cons.prems(1) by simp
      moreover have "set (map user_constant (UsersOf s c)) \<subseteq> N"
        using Cons.prems(2,3) by (auto simp: use_edges_def)
      ultimately obtain s1 where s1: "insert_all_users (map user_constant (UsersOf s c)) ?s = Some s1"
        "collected (map user_constant (UsersOf s c)) ?s s1"
        using Suc.IH[of ?s "map user_constant (UsersOf s c)"] Cons.prems(3) edges by auto
      have one: "collected [c] s (leave_constant c s1)" by (rule collected_enter[OF False s1(2)])
      obtain s2 where s2: "insert_all_users cs (leave_constant c s1) = Some s2" "collected cs (leave_constant c s1) s2"
        using Cons.IH[of "leave_constant c s1"] collected_unseen[OF assms(1) one] Cons.prems collected_frame(1)[OF one] by auto
      show ?thesis
        using False s1(1) s2(1) collected_append[OF one s2(2)] by (subst insert_all_users.simps) simp
    qed
  qed
qed

lemma insertConstantAndUsers_total:
  assumes "finite N" "c \<in> N" "use_edges s `` N \<subseteq> N"
  shows "\<exists>s'. insertConstantAndUsers c s = Some s' \<and> collected [c] s s'"
  using insert_all_users_bounded[OF assms(1) order_refl, of "[c]" s] assms(2,3) by (simp add: insertConstantAndUsers_def)


subsection \<open>Erasing definitions\<close>

text \<open>
  A common variable keeps a null initializer, and nothing else is kept of what a global uses. A
  null value is a constant that uses no other one.
\<close>

definition keeps_initializer :: "codegen \<Rightarrow> const_id \<Rightarrow> bool" where
  "keeps_initializer s g \<longleftrightarrow> ConstKind s g = VariableC \<and> LinkageOf s g = CommonLinkage \<and> NullInitializer s g"

definition null_value :: "codegen \<Rightarrow> const_id \<Rightarrow> bool" where
  "null_value s c \<longleftrightarrow> \<not> is_global s c \<and> (\<forall>x. ConstantUser c \<notin> set (UsersOf s x))"

fun sound_user :: "codegen \<Rightarrow> const_id \<Rightarrow> ir_user \<Rightarrow> bool" where
  "sound_user s c (InstructionUser f) = (ConstKind s f = FunctionC \<and> HasDefinition s f)"
| "sound_user s c (BlockAddressUser f) = (ConstKind s f = FunctionC \<and> HasDefinition s f)"
| "sound_user s c (ConstantUser g) =
     ((is_global s g \<longrightarrow> HasDefinition s g) \<and> (ConstKind s g = VariableC \<longrightarrow> NullInitializer s g \<longrightarrow> null_value s c))"

definition sound_uses :: "codegen \<Rightarrow> bool" where
  "sound_uses s \<longleftrightarrow> (\<forall>c. \<forall>u \<in> set (UsersOf s c). sound_user s c u)"

text \<open>What erasing a definition changes.\<close>

definition same_module :: "codegen \<Rightarrow> codegen \<Rightarrow> bool" where
  "same_module s s' \<longleftrightarrow> ConstKind s' = ConstKind s \<and> GVName s' = GVName s \<and> GVDecl s' = GVDecl s \<and>
     NullInitializer s' = NullInitializer s \<and> DeclSort s' = DeclSort s \<and> IsDefinition s' = IsDefinition s \<and>
     UnloadedDecls s' = UnloadedDecls s"

lemma same_module_refl [simp]: "same_module s s"
  by (simp add: same_module_def)

lemma same_module_trans: "same_module s s1 \<Longrightarrow> same_module s1 s2 \<Longrightarrow> same_module s s2"
  by (simp add: same_module_def)

lemmas erase_defs = eraseDefinition_def eraseVariable_def eraseFunction_def drop_definition_def drop_uses_def
  deleteBody_def setLinkage_def removeFunctionAttrs_def isDeclaration_def

lemma eraseDefinition_fields:
  "same_module s (eraseDefinition g s)"
  "ToErase (eraseDefinition g s) = ToErase s" "SeenConstants (eraseDefinition g s) = SeenConstants s"
  "ErasedDeferred (eraseDefinition g s) = ErasedDeferred s" "Gone (eraseDefinition g s) = Gone s"
  by (auto simp: erase_defs same_module_def Let_def split: constant_kind.split)

lemma eraseDefinition_definition:
  "x \<noteq> g \<Longrightarrow> HasDefinition (eraseDefinition g s) x = HasDefinition s x"
  "keeps_initializer s g \<Longrightarrow> HasDefinition (eraseDefinition g s) g = HasDefinition s g"
  "keeps_initializer (eraseDefinition g s) = keeps_initializer s"
  by (auto simp: erase_defs keeps_initializer_def Let_def fun_eq_iff split: constant_kind.split)

lemma used_by_iff: "used_by g u \<longleftrightarrow> user_constant u = g"
  by (cases u) auto

lemma sound_usesD: "sound_uses s \<Longrightarrow> u \<in> set (UsersOf s c) \<Longrightarrow> sound_user s c u"
  by (simp add: sound_uses_def)

lemma sound_used_by:
  assumes "sound_uses s" "u \<in> set (UsersOf s c)" "is_global s (user_constant u)"
  shows "HasDefinition s (user_constant u)"
  using sound_usesD[OF assms(1,2)] assms(3) by (cases u) auto

lemma eraseDefinition_users:
  assumes "sound_uses s" "is_global s g"
  shows "set (UsersOf (eraseDefinition g s) c) =
    (if keeps_initializer s g then set (UsersOf s c) else {u \<in> set (UsersOf s c). user_constant u \<noteq> g})"
proof -
  have none: "user_constant u \<noteq> g" if "\<not> HasDefinition s g" "u \<in> set (UsersOf s c)" for u
    using sound_used_by[OF assms(1) that(2)] assms(2) that(1) by auto
  show ?thesis
    using assms(2) none
    by (cases "ConstKind s g") (auto simp: erase_defs keeps_initializer_def is_global_def used_by_iff Let_def)
qed

text \<open>Uses are only dropped; those that stay are sound.\<close>

lemma sound_shrink:
  assumes "sound_uses s" "same_module s s'" "\<And>c. set (UsersOf s' c) \<subseteq> set (UsersOf s c)"
    "\<And>c u. u \<in> set (UsersOf s' c) \<Longrightarrow> is_global s (user_constant u) \<Longrightarrow> HasDefinition s' (user_constant u)"
  shows "sound_uses s'"
  unfolding sound_uses_def
proof (intro allI ballI)
  fix c u assume u: "u \<in> set (UsersOf s' c)"
  have same: "ConstKind s' = ConstKind s" "NullInitializer s' = NullInitializer s" "is_global s' = is_global s"
    using assms(2) by (auto simp: same_module_def is_global_def)
  have "null_value s c \<Longrightarrow> null_value s' c" using assms(3) same by (auto simp: null_value_def)
  moreover have "sound_user s c u" using sound_usesD[OF assms(1)] assms(3) u by blast
  moreover have "ConstKind s f = FunctionC \<Longrightarrow> is_global s f" for f by (simp add: is_global_def)
  ultimately show "sound_user s' c u" using assms(4)[OF u] same by (cases u) auto
qed

lemma sound_eraseDefinition:
  assumes "sound_uses s" "is_global s g"
  shows "sound_uses (eraseDefinition g s)"
proof (rule sound_shrink[OF assms(1) eraseDefinition_fields(1)])
  fix c u
  show "set (UsersOf (eraseDefinition g s) c) \<subseteq> set (UsersOf s c)" using eraseDefinition_users[OF assms] by auto
  assume u: "u \<in> set (UsersOf (eraseDefinition g s) c)" "is_global s (user_constant u)"
  then have "u \<in> set (UsersOf s c)" "user_constant u = g \<Longrightarrow> keeps_initializer s g"
    using eraseDefinition_users[OF assms, of c] by (auto split: if_splits)
  then show "HasDefinition (eraseDefinition g s) (user_constant u)"
    using sound_used_by[OF assms(1) _ u(2)] eraseDefinition_definition(1,2) by (cases "user_constant u = g") auto
qed

lemma use_edges_eraseDefinition:
  assumes "sound_uses s" "is_global s g"
  shows "use_edges (eraseDefinition g s) \<subseteq> use_edges s" "use_edges s \<subseteq> use_edges (eraseDefinition g s) \<union> UNIV \<times> {g}"
  using eraseDefinition_users[OF assms] by (auto simp: use_edges_def split: if_splits)

subsection \<open>The loop that collects\<close>

text \<open>
  The invariant when the first \<open>i\<close> constants have been handled: what has been seen is to be erased
  and closed under users, and the globals handled use nothing any more.
\<close>

definition collecting :: "codegen \<Rightarrow> nat \<Rightarrow> codegen \<Rightarrow> bool" where
  "collecting s0 i s \<longleftrightarrow> same_module s0 s \<and> sound_uses s \<and>
     (\<forall>c. set (UsersOf s c) \<subseteq> set (UsersOf s0 c)) \<and> use_edges s0 \<subseteq> use_edges s \<union> UNIV \<times> set (ToErase s) \<and>
     keeps_initializer s = keeps_initializer s0 \<and> Gone s = Gone s0 \<and>
     distinct (ToErase s) \<and> prefix (ToErase s0) (ToErase s) \<and>
     set (SeenConstants s) \<subseteq> set (ToErase s) \<and> use_edges s `` set (SeenConstants s) \<subseteq> set (SeenConstants s) \<and>
     set (take i (ToErase s)) \<subseteq> set (SeenConstants s) \<and>
     (\<forall>g \<in> set (take i (ToErase s)). is_global s0 g \<longrightarrow>
        (\<forall>c. \<forall>u \<in> set (UsersOf s c). user_constant u = g \<longrightarrow> keeps_initializer s0 g)) \<and>
     set (ToErase s) \<subseteq> (use_edges s0)\<^sup>* `` set (ToErase s0) \<and>
     set (ErasedDeferred s) = set (ErasedDeferred s0) \<union>
       {d. \<exists>f \<in> set (ToErase s) - set (ToErase s0). reemitted_user s0 f d}"

lemma collectingD:
  assumes "collecting s0 i s"
  shows "same_module s0 s" "sound_uses s" "set (UsersOf s c) \<subseteq> set (UsersOf s0 c)"
    "(x, y) \<in> use_edges s0 \<Longrightarrow> (x, y) \<in> use_edges s \<or> y \<in> set (ToErase s)"
    "keeps_initializer s = keeps_initializer s0" "Gone s = Gone s0"
    "distinct (ToErase s)" "prefix (ToErase s0) (ToErase s)" "set (SeenConstants s) \<subseteq> set (ToErase s)"
    "x \<in> set (SeenConstants s) \<Longrightarrow> (x, y) \<in> use_edges s \<Longrightarrow> y \<in> set (SeenConstants s)"
    "set (take i (ToErase s)) \<subseteq> set (SeenConstants s)"
    "\<lbrakk>g \<in> set (take i (ToErase s)); is_global s0 g; u \<in> set (UsersOf s c); user_constant u = g\<rbrakk> \<Longrightarrow> keeps_initializer s0 g"
    "set (ToErase s) \<subseteq> (use_edges s0)\<^sup>* `` set (ToErase s0)"
    "set (ErasedDeferred s) = set (ErasedDeferred s0) \<union>
       {d. \<exists>f \<in> set (ToErase s) - set (ToErase s0). reemitted_user s0 f d}"
  using assms unfolding collecting_def by blast+

lemma collecting_edges:
  assumes "collecting s0 i s"
  shows "use_edges s \<subseteq> use_edges s0" "is_global s = is_global s0" "reemitted_user s = reemitted_user s0"
proof -
  show "use_edges s \<subseteq> use_edges s0" using collectingD(3)[OF assms] by (auto simp: use_edges_def subset_iff)
  show "is_global s = is_global s0" "reemitted_user s = reemitted_user s0"
    using collectingD(1)[OF assms]
    by (auto simp: same_module_def is_global_def reemitted_user_def reemitted_def fun_eq_iff)
qed

lemma collecting_erase:
  assumes "collecting s0 i s" "c \<in> set (ToErase s)" "is_global s c"
  shows "collecting s0 i (eraseDefinition c s)"
    "\<And>x u. \<lbrakk>u \<in> set (UsersOf (eraseDefinition c s) x); user_constant u = c\<rbrakk> \<Longrightarrow> keeps_initializer s0 c"
proof -
  let ?s = "eraseDefinition c s"
  note D = collectingD[OF assms(1)] and fields = eraseDefinition_fields[where s = s and g = c]
  note users = eraseDefinition_users[OF D(2) assms(3)] and edges = use_edges_eraseDefinition[OF D(2) assms(3)]
  show "\<And>x u. \<lbrakk>u \<in> set (UsersOf ?s x); user_constant u = c\<rbrakk> \<Longrightarrow> keeps_initializer s0 c"
    using users D(5) by (auto split: if_splits)
  have fewer: "set (UsersOf ?s x) \<subseteq> set (UsersOf s x)" for x using users by auto
  show "collecting s0 i ?s"
    unfolding collecting_def fields(2-5)
  proof (intro conjI)
    show "same_module s0 ?s" by (rule same_module_trans[OF D(1) fields(1)])
    show "sound_uses ?s" by (rule sound_eraseDefinition[OF D(2) assms(3)])
    show "\<forall>x. set (UsersOf ?s x) \<subseteq> set (UsersOf s0 x)" using fewer D(3) by blast
    show "use_edges s0 \<subseteq> use_edges ?s \<union> UNIV \<times> set (ToErase s)" using D(4) edges(2) assms(2) by (auto simp: subset_iff)
    show "keeps_initializer ?s = keeps_initializer s0" using D(5) eraseDefinition_definition(3) by simp
    show "use_edges ?s `` set (SeenConstants s) \<subseteq> set (SeenConstants s)" using D(10) edges(1) by blast
    show "\<forall>g \<in> set (take i (ToErase s)). is_global s0 g \<longrightarrow>
        (\<forall>x. \<forall>u \<in> set (UsersOf ?s x). user_constant u = g \<longrightarrow> keeps_initializer s0 g)"
      using D(12) fewer by blast
  qed (use D(6-9,11,13,14) in \<open>blast+\<close>)
qed

lemma collected_same:
  assumes "collected cs s s'"
  shows "same_module s s'" "sound_uses s' = sound_uses s" "keeps_initializer s' = keeps_initializer s" "Gone s' = Gone s"
proof -
  have sound: "sound_user (s\<lparr>SeenConstants := x, ToErase := y, ErasedDeferred := z\<rparr>) c u = sound_user s c u" for x y z c u
    by (cases u) (auto simp: null_value_def is_global_def)
  note s' = collected_frame(6)[OF assms]
  show "same_module s s'" "keeps_initializer s' = keeps_initializer s" "Gone s' = Gone s"
    by (subst s'; simp add: same_module_def keeps_initializer_def[abs_def])+
  show "sound_uses s' = sound_uses s" by (subst s') (simp add: sound_uses_def sound)
qed

lemma collecting_users:
  assumes "collecting s0 i s" "i < length (ToErase s)" and p: "collected [ToErase s ! i] s s2"
    and handled: "\<And>x u. \<lbrakk>is_global s0 (ToErase s ! i); u \<in> set (UsersOf s x); user_constant u = ToErase s ! i\<rbrakk> \<Longrightarrow>
      keeps_initializer s0 (ToErase s ! i)"
  shows "collecting s0 (Suc i) s2"
proof -
  let ?c = "ToErase s ! i"
  note D = collectingD[OF assms(1)] and P = collectedD[OF p] and same = collected_same[OF p] and frame = collected_frame[OF p]
  note edges = collecting_edges[OF assms(1)]
  have "take (Suc i) (ToErase s2) = take (Suc i) (ToErase s)"
    using P(6) assms(2) by (auto simp: prefix_def)
  then have take: "take (Suc i) (ToErase s2) = take i (ToErase s) @ [?c]" using assms(2) by (simp add: take_Suc_conv_app_nth)
  have grow: "set (ToErase s) \<subseteq> set (ToErase s2)" using P(5) by blast
  have c: "?c \<in> set (ToErase s)" using assms(2) by simp
  have reach: "v \<in> (use_edges s0)\<^sup>* `` set (ToErase s0)" if v: "v \<in> set (SeenConstants s2)" "v \<notin> set (SeenConstants s)" for v
  proof -
    have "(?c, v) \<in> (use_edges s0)\<^sup>*" using P(4)[OF v] rtrancl_mono[OF edges(1)] by auto
    moreover obtain b where "b \<in> set (ToErase s0)" "(b, ?c) \<in> (use_edges s0)\<^sup>*" using c D(13) by blast
    ultimately show ?thesis by (meson ImageI rtrancl_trans)
  qed
  show ?thesis
    unfolding collecting_def same(3,4) frame(1,3) take
  proof (intro conjI)
    show "same_module s0 s2" by (rule same_module_trans[OF D(1) same(1)])
    show "sound_uses s2" using D(2) same(2) by simp
    show "\<forall>c. set (UsersOf s c) \<subseteq> set (UsersOf s0 c)" using D(3) by blast
    show "use_edges s0 \<subseteq> use_edges s \<union> UNIV \<times> set (ToErase s2)" using D(4) grow by auto
    show "keeps_initializer s = keeps_initializer s0" "Gone s = Gone s0" "distinct (ToErase s2)" using D(5,6,7) P(7) by auto
    show "prefix (ToErase s0) (ToErase s2)" by (rule prefix_order.trans[OF D(8) P(6)])
    show "set (SeenConstants s2) \<subseteq> set (ToErase s2)" using D(9) P(5) by blast
    show "use_edges s `` set (SeenConstants s2) \<subseteq> set (SeenConstants s2)"
    proof
      fix w assume "w \<in> use_edges s `` set (SeenConstants s2)"
      then obtain v where "v \<in> set (SeenConstants s2)" "(v, w) \<in> use_edges s" by blast
      then show "w \<in> set (SeenConstants s2)" using D(10) P(1,3) by blast
    qed
    show "set (take i (ToErase s) @ [?c]) \<subseteq> set (SeenConstants s2)" using D(11) P(1,2) by auto
    show "\<forall>g \<in> set (take i (ToErase s) @ [?c]). is_global s0 g \<longrightarrow>
        (\<forall>c. \<forall>u \<in> set (UsersOf s c). user_constant u = g \<longrightarrow> keeps_initializer s0 g)"
      using D(12) handled by auto
    show "set (ToErase s2) \<subseteq> (use_edges s0)\<^sup>* `` set (ToErase s0)" using D(13) reach unfolding P(5) by blast
    show "set (ErasedDeferred s2) = set (ErasedDeferred s0) \<union>
        {d. \<exists>f \<in> set (ToErase s2) - set (ToErase s0). reemitted_user s0 f d}"
      using set_mono_prefix[OF D(8)] D(9) unfolding P(8) D(14) P(5) edges(3) by blast
  qed
qed

lemma collecting_start:
  assumes "sound_uses s" "distinct (ToErase s)" "SeenConstants s = []"
  shows "collecting s 0 s"
  using assms by (auto simp: collecting_def)

lemma closed_rtrancl: "r `` N \<subseteq> N \<Longrightarrow> M \<subseteq> N \<Longrightarrow> r\<^sup>* `` M \<subseteq> N"
  by (metis Image_closed_trancl Image_mono subset_refl subset_trans)

lemma collect_loop_total:
  assumes N: "finite N" "use_edges s0 `` N \<subseteq> N" "set (ToErase s0) \<subseteq> N" and "collecting s0 i s"
  shows "\<exists>s'. collect_loop i s = Some s' \<and> collecting s0 (length (ToErase s')) s'"
  using assms(4)
proof (induction "card N - i" arbitrary: i s rule: less_induct)
  case less
  note D = collectingD[OF less.prems]
  have erase: "set (ToErase s) \<subseteq> N" using D(13) closed_rtrancl[OF N(2,3)] by blast
  then have bound: "length (ToErase s) \<le> card N" using D(7) N(1) by (metis card_mono distinct_card)
  show ?case
  proof (cases "i < length (ToErase s)")
    case False
    then have "take (length (ToErase s)) (ToErase s) = take i (ToErase s)" by simp
    then have "collecting s0 (length (ToErase s)) s" using less.prems unfolding collecting_def by simp
    then show ?thesis using False by (subst collect_loop.simps) simp
  next
    case True
    let ?c = "ToErase s ! i"
    let ?s = "if is_global s ?c then eraseDefinition ?c s else s"
    have c: "?c \<in> set (ToErase s)" using True by simp
    have same: "ToErase ?s = ToErase s" by (simp add: eraseDefinition_fields)
    have step: "collecting s0 i ?s" using collecting_erase(1)[OF less.prems c] less.prems by simp
    have "use_edges ?s `` N \<subseteq> N" using collecting_edges(1)[OF step] N(2) by blast
    then obtain s2 where s2: "insertConstantAndUsers ?c ?s = Some s2" "collected [?c] ?s s2"
      using insertConstantAndUsers_total[OF N(1), of ?c ?s] erase c by blast
    have "collecting s0 (Suc i) s2"
      using collecting_users[OF step, unfolded same, OF True s2(2)] collecting_erase(2)[OF less.prems c]
        collecting_edges(2)[OF less.prems] by (auto split: if_splits)
    moreover have "card N - Suc i < card N - i" using True bound by simp
    ultimately show ?thesis using less.hyps[of "Suc i" s2] True s2(1) by (subst collect_loop.simps) (simp add: Let_def)
  qed
qed

text \<open>
  At the end all transitive users of the first constants are collected, and the only users that are
  left of a collected constant are constants that are collected, too, and are no globals.
\<close>

lemma plain_user:
  assumes "sound_uses s" "u \<in> set (UsersOf s c)" "\<not> is_global s (user_constant u)"
  shows "u = ConstantUser (user_constant u)"
  using sound_usesD[OF assms(1,2)] assms(3) by (cases u) (auto simp: is_global_def)

lemma keeping_user:
  assumes "sound_uses s" "u \<in> set (UsersOf s c)" "keeps_initializer s (user_constant u)"
  shows "null_value s c"
  using sound_usesD[OF assms(1,2)] assms(3) by (cases u) (auto simp: keeps_initializer_def)

lemma null_not_used:
  assumes "sound_uses s" "null_value s c"
  shows "(x, c) \<notin> use_edges s"
proof
  assume "(x, c) \<in> use_edges s"
  then obtain u where "u \<in> set (UsersOf s x)" "user_constant u = c" by (auto simp: use_edges_def)
  then show False using plain_user[OF assms(1), of u x] assms(2) by (auto simp: null_value_def)
qed

lemma collecting_result:
  assumes "collecting s0 (length (ToErase s)) s" "sound_uses s0" "\<forall>c \<in> set (ToErase s0). is_global s0 c"
  shows "set (ToErase s) = (use_edges s0)\<^sup>* `` set (ToErase s0)"
    "\<lbrakk>c \<in> set (ToErase s); u \<in> set (UsersOf s c)\<rbrakk> \<Longrightarrow> u = ConstantUser (user_constant u) \<and> \<not> is_global s (user_constant u) \<and> user_constant u \<in> set (ToErase s)"
proof -
  note D = collectingD[OF assms(1)]
  have seen: "set (SeenConstants s) = set (ToErase s)" using D(9,11) by auto
  have closed: "y \<in> set (ToErase s)" if "(x, y) \<in> use_edges s0" "x \<in> set (ToErase s)" for x y
    using D(4)[OF that(1)] D(10)[of x y] that(2) seen by blast
  show E: "set (ToErase s) = (use_edges s0)\<^sup>* `` set (ToErase s0)"
  proof
    show "(use_edges s0)\<^sup>* `` set (ToErase s0) \<subseteq> set (ToErase s)"
      using closed_rtrancl[of "use_edges s0" "set (ToErase s)"] closed set_mono_prefix[OF D(8)] by blast
  qed (rule D(13))
  assume c: "c \<in> set (ToErase s)" and u: "u \<in> set (UsersOf s c)"
  have edge: "(c, user_constant u) \<in> use_edges s" using u by (auto simp: use_edges_def)
  have erased: "user_constant u \<in> set (ToErase s)" using D(10)[OF _ edge] c seen by blast
  have plain: "\<not> is_global s (user_constant u)"
  proof
    assume "is_global s (user_constant u)"
    then have "keeps_initializer s0 (user_constant u)"
      using D(12)[of "user_constant u" u c] erased u collecting_edges(2)[OF assms(1)] by simp
    then have null: "null_value s0 c" using keeping_user[OF assms(2)] D(3) u by blast
    then have "c \<notin> set (ToErase s0)" using assms(3) by (auto simp: null_value_def)
    then obtain x where "(x, c) \<in> use_edges s0" using c E by (auto elim: rtranclE)
    then show False using null_not_used[OF assms(2) null] by blast
  qed
  with plain_user[OF D(2) u] erased show "u = ConstantUser (user_constant u) \<and> \<not> is_global s (user_constant u) \<and> user_constant u \<in> set (ToErase s)"
    by blast
qed

subsection \<open>The recursion that erases\<close>

text \<open>
  \<open>erasable E rank s\<close>: the users of a constant of \<open>E\<close> are in \<open>E\<close> and no globals, a plain constant
  has a smaller rank than what it uses, and what was destroyed is no user any more.
\<close>

definition erasable :: "const_id set \<Rightarrow> (const_id \<Rightarrow> nat) \<Rightarrow> codegen \<Rightarrow> bool" where
  "erasable E rank s \<longleftrightarrow> set (Gone s) \<subseteq> set (SeenConstants s) \<and> (\<forall>c \<in> E. \<forall>u \<in> set (UsersOf s c).
       u = ConstantUser (user_constant u) \<and> \<not> is_global s (user_constant u) \<and> user_constant u \<in> E \<and>
       rank (user_constant u) < rank c \<and> user_constant u \<notin> set (Gone s))"

definition erased_to :: "codegen \<Rightarrow> const_id list \<Rightarrow> codegen \<Rightarrow> bool" where
  "erased_to s new s' \<longleftrightarrow> UsersOf s' = (\<lambda>x. filter (\<lambda>u. user_constant u \<notin> set new) (UsersOf s x)) \<and>
     Gone s' = Gone s @ new \<and> set (SeenConstants s') = set (SeenConstants s) \<union> set new \<and>
     is_global s' = is_global s \<and> ConstKind s' = ConstKind s \<and> distinct new \<and> set new \<inter> set (Gone s) = {}"

lemma erased_to_trans: "erased_to s xs s1 \<Longrightarrow> erased_to s1 ys s2 \<Longrightarrow> erased_to s (xs @ ys) s2"
  by (auto simp: erased_to_def)

lemma erasable_erased_to:
  assumes "erasable E rank s" "erased_to s new s'"
  shows "erasable E rank s'"
  using assms by (auto simp: erasable_def erased_to_def)

lemma erased_to_destroy:
  assumes "c \<in> set (SeenConstants s)" "c \<notin> set (Gone s)"
  shows "erased_to s [c] (destroy c s)"
  using assms
  by (auto simp: erased_to_def destroy_def drop_uses_def Let_def used_by_iff is_global_def fun_eq_iff)

lemma erase_entered:
  assumes IH: "\<And>d s. \<lbrakk>rank d < rank c; d \<in> E; d \<notin> set (SeenConstants s); erasable E rank s;
        \<forall>v \<in> set (SeenConstants s). v \<in> set (Gone s) \<or> rank d < rank v\<rbrakk> \<Longrightarrow>
      \<exists>s' new. erase_users False d s = Some s' \<and> erased_to s new s' \<and> d \<in> set new \<and> set new \<subseteq> E \<and>
        (\<forall>v \<in> set new. rank v \<le> rank d)"
    and c: "c \<in> E"
  shows "\<lbrakk>c \<in> set (SeenConstants s); c \<notin> set (Gone s); erasable E rank s;
        \<forall>v \<in> set (SeenConstants s). v \<in> set (Gone s) \<or> rank c \<le> rank v\<rbrakk> \<Longrightarrow>
      \<exists>s' new. erase_users True c s = Some s' \<and> erased_to s new s' \<and> c \<in> set new \<and> set new \<subseteq> E \<and>
        (\<forall>v \<in> set new. rank v \<le> rank c)"
proof (induction "length (UsersOf s c)" arbitrary: s rule: less_induct)
  case less
  show ?case
  proof (cases "UsersOf s c")
    case Nil
    then show ?thesis
      using erased_to_destroy[OF less.prems(1,2)] c by (subst erase_users.simps) auto
  next
    case (Cons u us)
    then have "u \<in> set (UsersOf s c)" by simp
    then obtain d where u: "u = ConstantUser d" "\<not> is_global s d" "d \<in> E" "rank d < rank c" "d \<notin> set (Gone s)"
      using less.prems(3) c unfolding erasable_def by fastforce
    then have "d \<notin> set (SeenConstants s)" "\<forall>v \<in> set (SeenConstants s). v \<in> set (Gone s) \<or> rank d < rank v"
      using less.prems(4) by fastforce+
    then obtain s1 new1 where s1: "erase_users False d s = Some s1" "erased_to s new1 s1" "d \<in> set new1" "set new1 \<subseteq> E"
      "\<forall>v \<in> set new1. rank v \<le> rank d"
      using IH[OF u(4,3) _ less.prems(3)] by blast
    have fewer: "length (UsersOf s1 c) < length (UsersOf s c)"
      using s1(2,3) Cons u(1) by (auto simp: erased_to_def less_Suc_eq_le)
    have "c \<notin> set new1" using s1(5) u(4) by auto
    then have "c \<in> set (SeenConstants s1)" "c \<notin> set (Gone s1)"
      "\<forall>v \<in> set (SeenConstants s1). v \<in> set (Gone s1) \<or> rank c \<le> rank v"
      using s1(2) less.prems(1,2,4) by (auto simp: erased_to_def)
    then obtain s2 new2 where s2: "erase_users True c s1 = Some s2" "erased_to s1 new2 s2" "c \<in> set new2" "set new2 \<subseteq> E"
      "\<forall>v \<in> set new2. rank v \<le> rank c"
      using less.hyps[OF fewer _ _ erasable_erased_to[OF less.prems(3) s1(2)]] by blast
    have "erase_users True c s = Some s2"
      using Cons u(1,2) s1(1) s2(1) by (subst erase_users.simps) (auto simp: is_global_def)
    moreover have "\<forall>v \<in> set (new1 @ new2). rank v \<le> rank c" using s1(5) s2(5) u(4) by auto
    ultimately show ?thesis using erased_to_trans[OF s1(2) s2(2)] s1(4) s2(3,4) by (intro exI[of _ s2] exI[of _ "new1 @ new2"]) auto
  qed
qed

lemma erase_users_total:
  "\<lbrakk>c \<in> E; c \<notin> set (SeenConstants s); erasable E rank s;
     \<forall>v \<in> set (SeenConstants s). v \<in> set (Gone s) \<or> rank c < rank v\<rbrakk> \<Longrightarrow>
   \<exists>s' new. erase_users False c s = Some s' \<and> erased_to s new s' \<and> c \<in> set new \<and> set new \<subseteq> E \<and>
     (\<forall>v \<in> set new. rank v \<le> rank c)"
proof (induction "rank c" arbitrary: c s rule: less_induct)
  case less
  let ?s = "s\<lparr>SeenConstants := SeenConstants s @ [c]\<rparr>"
  have gone: "c \<notin> set (Gone s)" using less.prems(2,3) by (auto simp: erasable_def)
  have "erasable E rank ?s" using less.prems(3) by (auto simp: erasable_def is_global_def)
  moreover have "\<forall>v \<in> set (SeenConstants ?s). v \<in> set (Gone ?s) \<or> rank c \<le> rank v" using less.prems(4) by auto
  ultimately obtain s' new where s': "erase_users True c ?s = Some s'" "erased_to ?s new s'" "c \<in> set new" "set new \<subseteq> E"
    "\<forall>v \<in> set new. rank v \<le> rank c"
    using erase_entered[of rank c E ?s] less.hyps less.prems(1) gone by auto
  have "erase_users False c s = Some s'" using less.prems(2) s'(1) by (subst erase_users.simps) simp
  moreover have "erased_to s new s'" using s'(2,3) by (auto simp: erased_to_def is_global_def)
  ultimately show ?case using s'(3-5) by blast
qed

lemma erase_each_total:
  assumes "set cs \<subseteq> E" "erasable E rank s" "set (SeenConstants s) = set (Gone s)"
  shows "\<exists>s' new. erase_each cs s = Some s' \<and> erased_to s new s' \<and> set cs \<subseteq> set (Gone s') \<and> set new \<subseteq> E"
  using assms
proof (induction cs arbitrary: s)
  case Nil
  have "erased_to s [] s" by (simp add: erased_to_def)
  then show ?case by (intro exI[of _ s] exI[of _ "[]"]) simp
next
  case (Cons c cs)
  obtain s1 new1 where s1: "eraseConstantandUsers c s = Some s1" "erased_to s new1 s1" "c \<in> set (Gone s1)" "set new1 \<subseteq> E"
  proof (cases "c \<in> set (SeenConstants s)")
    case True
    have "erased_to s [] s" by (simp add: erased_to_def)
    moreover have "eraseConstantandUsers c s = Some s"
      unfolding eraseConstantandUsers_def using True by (subst erase_users.simps) simp
    ultimately show ?thesis using that True Cons.prems(3) by auto
  next
    case False
    have "\<forall>v \<in> set (SeenConstants s). v \<in> set (Gone s) \<or> rank c < rank v" using Cons.prems(3) by simp
    then show ?thesis
      using that erase_users_total[of c E s rank] False Cons.prems(1,2) by (auto simp: eraseConstantandUsers_def erased_to_def)
  qed
  have "set (SeenConstants s1) = set (Gone s1)" using s1(2) Cons.prems(3) by (auto simp: erased_to_def)
  then obtain s2 new2 where s2: "erase_each cs s1 = Some s2" "erased_to s1 new2 s2" "set cs \<subseteq> set (Gone s2)" "set new2 \<subseteq> E"
    using Cons.IH[of s1] Cons.prems(1) erasable_erased_to[OF Cons.prems(2) s1(2)] by auto
  moreover have "c \<in> set (Gone s2)" using s1(3) s2(2) by (auto simp: erased_to_def)
  ultimately show ?case
    using s1(1,4) erased_to_trans[OF s1(2) s2(2)] by (intro exI[of _ s2] exI[of _ "new1 @ new2"]) auto
qed

subsection \<open>Both passes\<close>

text \<open>
  A module between compilations: only globals are in the tables, the uses are sound, finitely many,
  and those of plain constants by plain constants have no cycle; the unloader starts with no other
  sets than what the declarations gave it.
\<close>

definition tables_global :: "codegen \<Rightarrow> bool" where
  "tables_global s \<longleftrightarrow> list_all (is_global s) (ToErase s @ GVsToKeep s @ GlobalObjects s @ GlobalCtors s @ GlobalDtors s) \<and>
     (\<forall>n c. NamedValue s n = Some c \<longrightarrow> is_global s c) \<and> (\<forall>c. SanStats s = Some c \<longrightarrow> is_global s c)"

definition module_ok :: "(const_id \<Rightarrow> nat) \<Rightarrow> codegen \<Rightarrow> bool" where
  "module_ok rank s \<longleftrightarrow> tables_global s \<and> sound_uses s \<and> finite (use_edges s) \<and>
     (\<forall>(c, d) \<in> use_edges s. \<not> is_global s d \<longrightarrow> rank d < rank c) \<and>
     distinct (ToErase s) \<and> SeenConstants s = [] \<and> Gone s = []"

text \<open>What the preparation does before the loop: only sets of the unloader change.\<close>

definition adds_globals :: "codegen \<Rightarrow> codegen \<Rightarrow> bool" where
  "adds_globals s s' \<longleftrightarrow> same_module s s' \<and> UsersOf s' = UsersOf s \<and> HasDefinition s' = HasDefinition s \<and>
     set (ToErase s) \<subseteq> set (ToErase s') \<and> (distinct (ToErase s) \<longrightarrow> distinct (ToErase s')) \<and>
     (tables_global s \<longrightarrow> tables_global s') \<and> SeenConstants s' = SeenConstants s \<and> Gone s' = Gone s \<and>
     GVsToKeep s' = GVsToKeep s \<and> GlobalObjects s' = GlobalObjects s"

lemma adds_globals_refl: "adds_globals s s"
  by (simp add: adds_globals_def)

lemma adds_globals_trans:
  assumes a: "adds_globals s s1" and b: "adds_globals s1 s2"
  shows "adds_globals s s2"
proof -
  note A = a[unfolded adds_globals_def] and B = b[unfolded adds_globals_def]
  have "same_module s s2" using A B same_module_trans[of s s1 s2] by blast
  moreover have "set (ToErase s) \<subseteq> set (ToErase s2)" "distinct (ToErase s) \<longrightarrow> distinct (ToErase s2)"
    "tables_global s \<longrightarrow> tables_global s2" using A B by blast+
  ultimately show ?thesis unfolding adds_globals_def using A B by metis
qed

lemma adds_globals_fold:
  assumes "\<And>c s. c \<in> set cs \<Longrightarrow> adds_globals s0 s \<Longrightarrow> adds_globals s0 (f c s)"
  shows "adds_globals s0 s \<Longrightarrow> adds_globals s0 (fold f cs s)"
  using assms
proof (induction cs arbitrary: s)
  case (Cons c cs)
  have "adds_globals s0 (f c s)" by (rule Cons.prems(2)[OF _ Cons.prems(1)]) simp
  then have "adds_globals s0 (fold f cs (f c s))" by (rule Cons.IH) (rule Cons.prems(2), simp)
  then show ?case by simp
qed simp

lemma adds_globals_insert:
  assumes "adds_globals s0 s" "tables_global s0 \<Longrightarrow> is_global s0 c"
  shows "adds_globals s0 (snd (insertConstantsToEraseCompletely c s))"
proof (cases "tables_global s0")
  case True
  have "is_global s = is_global s0" using assms(1) by (auto simp: adds_globals_def same_module_def is_global_def)
  then have "is_global s c" using assms(2)[OF True] by simp
  then have "adds_globals s (snd (insertConstantsToEraseCompletely c s))"
    by (auto simp: adds_globals_def insertConstantsToEraseCompletely_def same_module_def tables_global_def
        list_all_iff is_global_def)
  then show ?thesis by (rule adds_globals_trans[OF assms(1)])
next
  case False
  then show ?thesis using assms(1) unfolding adds_globals_def
    by (simp add: insertConstantsToEraseCompletely_def same_module_def subset_insertI2)
qed

lemma adds_globals_deferred: "adds_globals s (insertCachedDeferredDeclsToEmit c s)"
  by (auto simp: adds_globals_def insertCachedDeferredDeclsToEmit_def same_module_def tables_global_def
      is_global_def list_all_iff split: option.split)

lemma adds_globals_insert_when:
  assumes "\<And>c. c \<in> set cs \<Longrightarrow> tables_global s \<Longrightarrow> is_global s c"
  shows "adds_globals s (insert_when p cs s)"
  unfolding insert_when_def
proof (rule adds_globals_fold[OF _ adds_globals_refl])
  fix c s' assume "c \<in> set cs" "adds_globals s s'"
  then show "adds_globals s (if p c then snd (insertConstantsToEraseCompletely c s') else s')"
    using adds_globals_insert assms by simp
qed

lemma adds_globals_runtime: "adds_globals s (insert_runtime_globals s)"
proof -
  define s1 where "s1 = insert_when (\<lambda>c. list_ex (sr_startswith (GVName s c)) [''__asan'', ''.omp_offload'', ''__tgt_'']) (GlobalObjects s) s"
  define s2 where "s2 = insert_when (\<lambda>_. True) (List.map_filter (NamedValue s1) runtime_names) s1"
  define s3 where "s3 = insert_when (\<lambda>c. sr_startswith (GVName s c) ''_GLOBAL__sub_I'') (GlobalCtors s2) s2"
  define s4 where "s4 = insert_when (\<lambda>c. sr_startswith (GVName s c) ''_GLOBAL__D'') (GlobalDtors s3) s3"
  have "adds_globals s s1" unfolding s1_def
    by (rule adds_globals_insert_when) (auto simp: tables_global_def list_all_iff)
  moreover have "adds_globals s1 s2" unfolding s2_def
    by (rule adds_globals_insert_when) (auto simp: tables_global_def List.map_filter_def)
  moreover have "adds_globals s2 s3" unfolding s3_def
    by (rule adds_globals_insert_when) (auto simp: tables_global_def list_all_iff)
  moreover have "adds_globals s3 s4" unfolding s4_def
    by (rule adds_globals_insert_when) (auto simp: tables_global_def list_all_iff)
  ultimately have s4: "adds_globals s s4" by (meson adds_globals_trans)
  have stats: "adds_globals t (t\<lparr>SanStats := None\<rparr>)" for t
    by (auto simp: adds_globals_def same_module_def tables_global_def is_global_def list_all_iff)
  have "adds_globals s4 (case SanStats s4 of None \<Rightarrow> s4 | Some g \<Rightarrow> (snd (insertConstantsToEraseCompletely g s4))\<lparr>SanStats := None\<rparr>)"
  proof (cases "SanStats s4")
    case (Some g)
    have "adds_globals s4 (snd (insertConstantsToEraseCompletely g s4))"
      using Some by (intro adds_globals_insert[OF adds_globals_refl]) (simp add: tables_global_def)
    then show ?thesis using adds_globals_trans[OF _ stats] Some by simp
  qed (simp add: adds_globals_refl)
  then have "adds_globals s (case SanStats s4 of None \<Rightarrow> s4 | Some g \<Rightarrow> (snd (insertConstantsToEraseCompletely g s4))\<lparr>SanStats := None\<rparr>)"
    by (rule adds_globals_trans[OF s4])
  then show ?thesis unfolding insert_runtime_globals_def Let_def s1_def s2_def s3_def s4_def .
qed

lemma adds_globals_types: "adds_globals s (insert_erased_types s)"
  unfolding insert_erased_types_def
proof (rule adds_globals_fold[OF _ adds_globals_refl])
  fix f s' assume "f \<in> set (filter (\<lambda>f. ConstKind s f = FunctionC) (GlobalObjects s))" "adds_globals s s'"
  then have "adds_globals s (snd (insertConstantsToEraseCompletely f s'))" "adds_globals s s'"
    using adds_globals_insert[of s s' f] by (auto simp: is_global_def)
  then show "adds_globals s (if f \<in> set (ToErase s') \<or> f \<in> set (GVsToKeep s') then s'
      else if findErasedType s' f then insertCachedDeferredDeclsToEmit f (snd (insertConstantsToEraseCompletely f s')) else s')"
    using adds_globals_trans[OF _ adds_globals_deferred] by simp
qed

lemma keep_declarations:
  assumes "sound_uses s" "list_all (is_global s) gs"
  shows "sound_uses (fold eraseDefinition gs s) \<and> use_edges (fold eraseDefinition gs s) \<subseteq> use_edges s \<and>
    same_module s (fold eraseDefinition gs s) \<and> ToErase (fold eraseDefinition gs s) = ToErase s \<and>
    SeenConstants (fold eraseDefinition gs s) = SeenConstants s \<and> Gone (fold eraseDefinition gs s) = Gone s"
  using assms
proof (induction gs arbitrary: s)
  case (Cons g gs)
  have g: "is_global s g" "is_global (eraseDefinition g s) = is_global s"
    using Cons.prems(2) eraseDefinition_fields(1)[of s g] by (auto simp: same_module_def is_global_def)
  show ?case
    using Cons.IH[of "eraseDefinition g s"] sound_eraseDefinition[OF Cons.prems(1) g(1)] Cons.prems(2) g(2)
      use_edges_eraseDefinition(1)[OF Cons.prems(1) g(1)] eraseDefinition_fields[where s = s and g = g]
      same_module_trans[of s "eraseDefinition g s" "fold eraseDefinition gs (eraseDefinition g s)"] by auto
qed simp

lemma prepared:
  assumes "module_ok rank s"
  shows "sound_uses (prepare_constants s)" "use_edges (prepare_constants s) \<subseteq> use_edges s"
    "same_module s (prepare_constants s)" "\<forall>c \<in> set (ToErase (prepare_constants s)). is_global (prepare_constants s) c"
    "distinct (ToErase (prepare_constants s))" "SeenConstants (prepare_constants s) = []" "Gone (prepare_constants s) = []"
proof -
  define s1 where "s1 = (insert_erased_types (insert_runtime_globals s))\<lparr>ErasedTypes := []\<rparr>"
  have "adds_globals t (t\<lparr>ErasedTypes := []\<rparr>)" for t
    by (auto simp: adds_globals_def same_module_def tables_global_def is_global_def list_all_iff)
  then have s1: "adds_globals s s1"
    unfolding s1_def using adds_globals_trans adds_globals_runtime adds_globals_types by meson
  have ok: "tables_global s" "sound_uses s" "distinct (ToErase s)" "SeenConstants s = []" "Gone s = []"
    using assms by (simp_all add: module_ok_def)
  have tables: "tables_global s1" and fields: "UsersOf s1 = UsersOf s" "distinct (ToErase s1)" "SeenConstants s1 = []" "Gone s1 = []"
    and same: "same_module s s1" "HasDefinition s1 = HasDefinition s"
    using s1 ok by (auto simp: adds_globals_def)
  have sound: "sound_uses s1"
    using fields(1) same sound_used_by[OF ok(2)] by (intro sound_shrink[OF ok(2) same(1)]) auto
  have keep: "list_all (is_global s1) (GVsToKeep s1)" using tables by (simp add: tables_global_def list_all_iff)
  have prep: "prepare_constants s = fold eraseDefinition (GVsToKeep s1) s1"
    unfolding prepare_constants_def s1_def Let_def ..
  note K = keep_declarations[OF sound keep, folded prep]
  show "sound_uses (prepare_constants s)" "distinct (ToErase (prepare_constants s))"
    "SeenConstants (prepare_constants s) = []" "Gone (prepare_constants s) = []"
    using K fields by auto
  show "use_edges (prepare_constants s) \<subseteq> use_edges s" using K fields(1) by (auto simp: use_edges_def)
  show "same_module s (prepare_constants s)" using K same_module_trans[OF same(1)] by blast
  show "\<forall>c \<in> set (ToErase (prepare_constants s)). is_global (prepare_constants s) c"
    using K tables by (auto simp: tables_global_def list_all_iff same_module_def is_global_def)
qed

lemma collectConstants_total:
  assumes "module_ok rank s"
  shows "\<exists>s'. collectConstants s = Some (s'\<lparr>SeenConstants := []\<rparr>) \<and>
    collecting (prepare_constants s) (length (ToErase s')) s'"
proof -
  let ?p = "prepare_constants s"
  note P = prepared[OF assms]
  let ?N = "Field (use_edges ?p) \<union> set (ToErase ?p)"
  have "finite (use_edges s)" using assms by (simp add: module_ok_def)
  then have N: "finite ?N" using finite_subset[OF P(2)] by (simp add: finite_Field)
  have closed: "use_edges ?p `` ?N \<subseteq> ?N" "set (ToErase ?p) \<subseteq> ?N" by (auto simp: Field_def)
  have "collecting ?p 0 ?p" by (rule collecting_start[OF P(1,5,6)])
  from collect_loop_total[OF N closed this] show ?thesis by (auto simp: collectConstants_def)
qed

text \<open>
  C21 (safety): The two passes end without a failed assertion. They destroy exactly the constants
  that use, over any number of steps, what has to be erased, each of them once and when nothing
  uses it any more, and afterwards no instruction, initializer or constant that is left refers to
  a destroyed one.
\<close>

theorem unload_constants_erases:
  assumes "module_ok rank s"
  shows "\<exists>s'. unload_constants s = Some s' \<and> distinct (Gone s') \<and>
    set (Gone s') = (use_edges (prepare_constants s))\<^sup>* `` set (ToErase (prepare_constants s)) \<and>
    (\<forall>c \<in> set (Gone s'). UsersOf s' c = []) \<and> (\<forall>c. \<forall>u \<in> set (UsersOf s' c). user_constant u \<notin> set (Gone s'))"
proof -
  let ?p = "prepare_constants s"
  note P = prepared[OF assms]
  obtain s1 where s1: "collectConstants s = Some (s1\<lparr>SeenConstants := []\<rparr>)" "collecting ?p (length (ToErase s1)) s1"
    using collectConstants_total[OF assms] by blast
  note D = collectingD[OF s1(2)] and R = collecting_result[OF s1(2) P(1,4)]
  let ?s = "s1\<lparr>SeenConstants := []\<rparr>" and ?E = "set (ToErase s1)"
  have gone: "Gone s1 = []" using D(6) P(7) by simp
  have same: "is_global s1 = is_global s"
    using D(1) P(3) by (auto simp: same_module_def is_global_def)
  have "rank (user_constant u) < rank c" if u: "u \<in> set (UsersOf s1 c)" "\<not> is_global s1 (user_constant u)" for c u
  proof -
    have "(c, user_constant u) \<in> use_edges s1" using u(1) by (auto simp: use_edges_def)
    then have "(c, user_constant u) \<in> use_edges s" using collecting_edges(1)[OF s1(2)] P(2) by blast
    then show ?thesis using assms u(2) unfolding same by (auto simp: module_ok_def)
  qed
  then have "erasable ?E rank ?s" using R(2) gone unfolding erasable_def by (auto simp: is_global_def)
  then obtain s2 new where s2: "erase_each (ToErase s1) ?s = Some s2" "erased_to ?s new s2" "?E \<subseteq> set (Gone s2)" "set new \<subseteq> ?E"
    using erase_each_total[of "ToErase s1" ?E rank ?s] gone by auto
  have new: "Gone s2 = new" "distinct new" "set new = ?E" using s2(2-4) gone by (auto simp: erased_to_def)
  have users: "UsersOf s2 = (\<lambda>x. filter (\<lambda>u. user_constant u \<notin> set new) (UsersOf s1 x))" using s2(2) by (simp add: erased_to_def)
  have "unload_constants s = Some s2" using s1(1) s2(1) by (simp add: unload_constants_def)
  moreover have "UsersOf s2 c = []" if "c \<in> ?E" for c using R(2)[OF that] new(3) unfolding users by (simp add: filter_empty_conv)
  ultimately show ?thesis using new R(1) users by auto
qed

text \<open>The globals of the runtime, and the functions that access an erased type without being erased already.\<close>

definition runtime_globals :: "codegen \<Rightarrow> const_id set" where
  "runtime_globals s =
     {c \<in> set (GlobalObjects s). \<exists>p \<in> {''__asan'', ''.omp_offload'', ''__tgt_''}. sr_startswith (GVName s c) p} \<union>
     {c. \<exists>n \<in> set runtime_names. NamedValue s n = Some c} \<union>
     {c \<in> set (GlobalCtors s). sr_startswith (GVName s c) ''_GLOBAL__sub_I''} \<union>
     {c \<in> set (GlobalDtors s). sr_startswith (GVName s c) ''_GLOBAL__D''} \<union> set_option (SanStats s)"

definition type_accesses :: "codegen \<Rightarrow> const_id set" where
  "type_accesses s =
     {f \<in> set (GlobalObjects s). ConstKind s f = FunctionC \<and> f \<notin> set (ToErase s) \<and> f \<notin> runtime_globals s \<and>
        f \<notin> set (GVsToKeep s) \<and> findErasedType s f}"

lemma insert_when_is: "insert_when p cs s = s\<lparr>ToErase := fold set_add (filter p cs) (ToErase s)\<rparr>"
proof (induction cs arbitrary: s)
  case (Cons c cs)
  then show ?case by (simp add: insert_when_def insertConstantsToEraseCompletely_def)
qed (simp add: insert_when_def)

lemma set_fold_set_add: "set (fold set_add xs ys) = set ys \<union> set xs"
  by (induction xs arbitrary: ys) auto

lemma set_map_filter_Some: "set (List.map_filter f xs) = {y. \<exists>x \<in> set xs. f x = Some y}"
  by (force simp: List.map_filter_def)

lemma insert_runtime_globals_is:
  "insert_runtime_globals s = s\<lparr>ToErase := ToErase (insert_runtime_globals s), SanStats := None\<rparr>"
  "set (ToErase (insert_runtime_globals s)) = set (ToErase s) \<union> runtime_globals s"
proof -
  define E where "E = fold set_add (filter (\<lambda>c. sr_startswith (GVName s c) ''_GLOBAL__D'') (GlobalDtors s))
    (fold set_add (filter (\<lambda>c. sr_startswith (GVName s c) ''_GLOBAL__sub_I'') (GlobalCtors s))
      (fold set_add (filter (\<lambda>_. True) (List.map_filter (NamedValue s) runtime_names))
        (fold set_add (filter (\<lambda>c. list_ex (sr_startswith (GVName s c)) [''__asan'', ''.omp_offload'', ''__tgt_''])
          (GlobalObjects s)) (ToErase s))))"
  define E' where "E' = (case SanStats s of None \<Rightarrow> E | Some g \<Rightarrow> set_add g E)"
  have none: "s\<lparr>ToErase := E\<rparr> = s\<lparr>ToErase := E, SanStats := None\<rparr>" if "SanStats s = None"
    using that by (cases s) simp
  have eq: "insert_runtime_globals s = s\<lparr>ToErase := E', SanStats := None\<rparr>"
  proof (cases "SanStats s")
    case None
    then have "insert_runtime_globals s = s\<lparr>ToErase := E\<rparr>"
      by (simp add: insert_runtime_globals_def insert_when_is E_def)
    then show ?thesis using none None by (simp add: E'_def)
  next
    case (Some g)
    then show ?thesis
      by (simp add: insert_runtime_globals_def insert_when_is insertConstantsToEraseCompletely_def E_def E'_def)
  qed
  then show "insert_runtime_globals s = s\<lparr>ToErase := ToErase (insert_runtime_globals s), SanStats := None\<rparr>" by simp
  have "set E = set (ToErase s) \<union>
      {c \<in> set (GlobalObjects s). \<exists>p \<in> {''__asan'', ''.omp_offload'', ''__tgt_''}. sr_startswith (GVName s c) p} \<union>
      {c. \<exists>n \<in> set runtime_names. NamedValue s n = Some c} \<union>
      {c \<in> set (GlobalCtors s). sr_startswith (GVName s c) ''_GLOBAL__sub_I''} \<union>
      {c \<in> set (GlobalDtors s). sr_startswith (GVName s c) ''_GLOBAL__D''}"
    unfolding E_def set_fold_set_add set_filter set_map_filter_Some by auto
  then have "set E' = set (ToErase s) \<union> runtime_globals s"
    by (cases "SanStats s") (auto simp: E'_def runtime_globals_def)
  then show "set (ToErase (insert_runtime_globals s)) = set (ToErase s) \<union> runtime_globals s" by (simp add: eq)
qed

definition erase_accessing :: "const_id \<Rightarrow> codegen \<Rightarrow> codegen" where
  "erase_accessing f s =
     (if f \<in> set (ToErase s) \<or> f \<in> set (GVsToKeep s) then s
      else if findErasedType s f
      then insertCachedDeferredDeclsToEmit f (snd (insertConstantsToEraseCompletely f s)) else s)"

definition accessing :: "codegen \<Rightarrow> const_id set \<Rightarrow> const_id set" where
  "accessing s F = {f \<in> F. f \<notin> set (ToErase s) \<and> f \<notin> set (GVsToKeep s) \<and> findErasedType s f}"

lemma erase_accessing_is:
  "erase_accessing f s = s\<lparr>ToErase := ToErase (erase_accessing f s), ErasedDeferred := ErasedDeferred (erase_accessing f s)\<rparr>"
  "set (ToErase (erase_accessing f s)) = set (ToErase s) \<union> accessing s {f}"
  "set (ErasedDeferred (erase_accessing f s)) = set (ErasedDeferred s) \<union> {d. \<exists>f \<in> accessing s {f}. reemitted s f d}"
  by (auto simp: erase_accessing_def accessing_def insertCachedDeferredDeclsToEmit_def
      insertConstantsToEraseCompletely_def reemitted_def split: option.split)

lemma fold_erase_accessing:
  "fold erase_accessing fs s = s\<lparr>ToErase := ToErase (fold erase_accessing fs s),
     ErasedDeferred := ErasedDeferred (fold erase_accessing fs s)\<rparr> \<and>
   set (ToErase (fold erase_accessing fs s)) = set (ToErase s) \<union> accessing s (set fs) \<and>
   set (ErasedDeferred (fold erase_accessing fs s)) =
     set (ErasedDeferred s) \<union> {d. \<exists>f \<in> accessing s (set fs). reemitted s f d}"
proof (induction fs arbitrary: s)
  case (Cons f fs)
  let ?s = "erase_accessing f s"
  note one = erase_accessing_is[of f s] and rest = Cons.IH[of ?s]
  have same: "GVsToKeep ?s = GVsToKeep s" "findErasedType ?s = findErasedType s" "reemitted ?s = reemitted s"
    by (subst one(1); simp add: findErasedType_def[abs_def] reemitted_def[abs_def])+
  have split: "accessing s (set (f # fs)) = accessing s {f} \<union> accessing ?s (set fs)"
    unfolding accessing_def one(2) same by auto
  have "fold erase_accessing fs ?s = s\<lparr>ToErase := ToErase (fold erase_accessing fs ?s),
      ErasedDeferred := ErasedDeferred (fold erase_accessing fs ?s)\<rparr>"
    by (subst rest[THEN conjunct1], subst one(1)) simp
  then show ?case using rest one(2,3) unfolding split same by auto
qed (simp add: accessing_def)

lemma prepared_exactly:
  "set (ToErase (prepare_constants s)) = set (ToErase s) \<union> runtime_globals s \<union> type_accesses s"
  "set (ErasedDeferred (prepare_constants s)) = set (ErasedDeferred s) \<union> {d. \<exists>f \<in> type_accesses s. reemitted s f d}"
proof -
  let ?r = "insert_runtime_globals s"
  let ?fs = "filter (\<lambda>f. ConstKind ?r f = FunctionC) (GlobalObjects ?r)"
  define t where "t = (fold erase_accessing ?fs ?r)\<lparr>ErasedTypes := []\<rparr>"
  have "insert_erased_types ?r = fold erase_accessing ?fs ?r"
    unfolding insert_erased_types_def erase_accessing_def[abs_def] ..
  then have "prepare_constants s = fold eraseDefinition (GVsToKeep t) t"
    by (simp add: prepare_constants_def t_def Let_def)
  moreover have "ToErase (fold eraseDefinition gs t) = ToErase t \<and> ErasedDeferred (fold eraseDefinition gs t) = ErasedDeferred t" for gs t
    by (induction gs arbitrary: t) (auto simp: eraseDefinition_fields)
  moreover obtain E where r: "?r = s\<lparr>ToErase := E, SanStats := None\<rparr>" "set E = set (ToErase s) \<union> runtime_globals s"
    using insert_runtime_globals_is by blast
  have "accessing ?r (set ?fs) = type_accesses s" "reemitted ?r = reemitted s" "ErasedDeferred ?r = ErasedDeferred s"
    unfolding r(1) by (auto simp: accessing_def type_accesses_def r(2) findErasedType_def reemitted_def[abs_def])
  ultimately show "set (ToErase (prepare_constants s)) = set (ToErase s) \<union> runtime_globals s \<union> type_accesses s"
    "set (ErasedDeferred (prepare_constants s)) = set (ErasedDeferred s) \<union> {d. \<exists>f \<in> type_accesses s. reemitted s f d}"
    using fold_erase_accessing[of ?fs ?r] by (simp_all add: t_def insert_runtime_globals_is(2))
qed

text \<open>
  C23 (functional): The constants to be erased and the declarations to be generated again, exactly.
  Erased is what uses, over any number of steps, a constant to be erased before, a global of the
  runtime, or a function that accesses an erased type and is not to be erased or kept anyway. To the
  declarations generated again are added those of the last group, and those of the functions that
  are erased only as users and have no name of the runtime, if they are definitions of functions
  that are not unloaded themselves.
\<close>

theorem collectConstants_reemits:
  assumes "module_ok rank s"
  shows "\<exists>s'. collectConstants s = Some s' \<and>
    set (ToErase s') = (use_edges (prepare_constants s))\<^sup>* `` (set (ToErase s) \<union> runtime_globals s \<union> type_accesses s) \<and>
    set (ErasedDeferred s') = set (ErasedDeferred s) \<union> {d. \<exists>f \<in> type_accesses s. reemitted s f d} \<union>
      {d. \<exists>f \<in> set (ToErase s') - (set (ToErase s) \<union> runtime_globals s \<union> type_accesses s). reemitted_user s f d}"
proof -
  note P = prepared[OF assms]
  obtain s1 where s1: "collectConstants s = Some (s1\<lparr>SeenConstants := []\<rparr>)"
    "collecting (prepare_constants s) (length (ToErase s1)) s1"
    using collectConstants_total[OF assms] by blast
  have "reemitted_user (prepare_constants s) = reemitted_user s"
    using P(3) by (simp add: reemitted_user_def[abs_def] reemitted_def same_module_def)
  then show ?thesis
    using s1(1) collectingD(14)[OF s1(2)] collecting_result(1)[OF s1(2) P(1,4)]
    unfolding prepared_exactly by auto
qed

text \<open>
  A variable 11 of an unloaded declaration; 12 is an expression over it, which initializes the
  variable 14 and is used in the function 13, defined in a file that stays by the declaration 5.
\<close>

abbreviation empty_module :: codegen where
  "empty_module \<equiv>
     \<lparr>ConstKind = \<lambda>_. PlainC, UsersOf = \<lambda>_. [], GVName = \<lambda>_. [], GVDecl = \<lambda>_. None, HasDefinition = \<lambda>_. False,
      NullInitializer = \<lambda>_. False, AccessedTypes = \<lambda>_. [], LinkageOf = \<lambda>_. ExternalLinkage,
      DefaultVisibility = \<lambda>_. True, HasComdat = \<lambda>_. False, HasMetadata = \<lambda>_. False, FnAttrs = \<lambda>_. [],
      ReturnedAt = \<lambda>_. None, MachineFunction = \<lambda>_. False, Passed = \<lambda>_. False, FunctionTypeInfos = [],
      GlobalObjects = [], NamedValue = \<lambda>_. None, GlobalCtors = [], GlobalDtors = [], SanStats = None,
      WeakRefReferences = [], DeclChains = \<lparr>RedeclLink = \<lambda>_. UninitializedLatest, First = \<lambda>d. d\<rparr>,
      DeclSort = \<lambda>_. OtherSort, IsDefinition = \<lambda>_. False, BodyDecl = \<lambda>_. None, InRecord = \<lambda>_. False,
      MemberKind = \<lambda>_. None, PointOfInstantiation = \<lambda>_. None, DeclGlobalValues = \<lambda>_. [], UnloadedDecls = [],
      ErasedTypes = [], GVsToKeep = [], ToErase = [], SeenConstants = [], ErasedDeferred = [], Gone = []\<rparr>"

definition sample_module :: codegen where
  "sample_module = empty_module
     \<lparr>ConstKind := (\<lambda>c. if c = 11 \<or> c = 14 then VariableC else if c = 13 then FunctionC else PlainC),
      UsersOf := (\<lambda>c. if c = 11 then [ConstantUser 12] else if c = 12 then [InstructionUser 13, ConstantUser 14] else []),
      GVName := (\<lambda>c. if c = 13 then ''f'' else ''v''), GVDecl := [13 \<mapsto> 5], HasDefinition := (\<lambda>c. c = 13 \<or> c = 14),
      GlobalObjects := [11, 13, 14], DeclSort := (\<lambda>_. FunctionSort), IsDefinition := (\<lambda>_. True), ToErase := [11]\<rparr>"

lemma sample_edges: "use_edges sample_module = {(11, 12), (12, 13), (12, 14)}"
  by (auto simp: use_edges_def sample_module_def split: if_splits)

lemma sample_ok: "module_ok (\<lambda>c. 20 - c) sample_module"
proof -
  have "sound_uses sample_module" by (auto simp: sound_uses_def sample_module_def is_global_def split: if_splits)
  then show ?thesis
    unfolding module_ok_def sample_edges
    by (auto simp: tables_global_def is_global_def sample_module_def)
qed

lemma sample_prepared: "prepare_constants sample_module = sample_module"
  by (simp add: prepare_constants_def insert_runtime_globals_def insert_erased_types_def insert_when_def sample_module_def
      findErasedType_def List.map_filter_def runtime_names_def)

lemma sample_reached: "(use_edges sample_module)\<^sup>* `` {11} \<supseteq> {11, 12, 13, 14}"
  unfolding sample_edges by (auto intro: converse_rtrancl_into_rtrancl)

theorem unload_constants_erases_witness:
  "\<exists>s'. unload_constants sample_module = Some s' \<and> {11, 12, 13, 14} \<subseteq> set (Gone s') \<and> distinct (Gone s')"
proof -
  have "ToErase sample_module = [11]" by (simp add: sample_module_def)
  then show ?thesis
    using unload_constants_erases[OF sample_ok] sample_reached unfolding sample_prepared by auto
qed

text \<open>The same with a function 15 that accesses the erased type 7, defined by the declaration 6.\<close>

definition sample_accesses :: codegen where
  "sample_accesses = sample_module
     \<lparr>ConstKind := (ConstKind sample_module)(15 := FunctionC), GlobalObjects := [11, 13, 14, 15],
      GVDecl := [13 \<mapsto> 5, 15 \<mapsto> 6], AccessedTypes := (\<lambda>c. if c = 15 then [7] else []), ErasedTypes := [7]\<rparr>"

lemma sample_accesses_edges: "use_edges sample_accesses = use_edges sample_module"
  by (simp add: use_edges_def sample_accesses_def)

lemma sample_accesses_ok: "module_ok (\<lambda>c. 20 - c) sample_accesses"
proof -
  have "sound_uses sample_accesses"
    by (auto simp: sound_uses_def sample_accesses_def sample_module_def is_global_def split: if_splits)
  then show ?thesis
    unfolding module_ok_def sample_accesses_edges sample_edges
    by (auto simp: tables_global_def is_global_def sample_accesses_def sample_module_def)
qed

lemma sample_accesses_prepared: "use_edges (prepare_constants sample_accesses) = use_edges sample_module"
  by (simp add: prepare_constants_def insert_runtime_globals_def insert_erased_types_def insert_when_def
      sample_accesses_def sample_module_def findErasedType_def List.map_filter_def runtime_names_def
      insertCachedDeferredDeclsToEmit_def insertConstantsToEraseCompletely_def use_edges_def)

theorem collectConstants_reemits_witness:
  "\<exists>s'. collectConstants sample_accesses = Some s' \<and> {5, 6} \<subseteq> set (ErasedDeferred s')"
proof -
  have roots: "runtime_globals sample_accesses = {}" "type_accesses sample_accesses = {15}" "ToErase sample_accesses = [11]"
    by (auto simp: runtime_globals_def type_accesses_def findErasedType_def sample_accesses_def sample_module_def split: if_splits)
  have "reemitted_user sample_accesses 13 5" "reemitted sample_accesses 15 6"
    by (simp_all add: reemitted_user_def reemitted_def sample_accesses_def sample_module_def isFunctionUnloadOK_def
        unload_ok_prefixes_def)
  moreover have "13 \<in> (use_edges sample_module)\<^sup>* `` {15, 11} - {15, 11}" using sample_reached by auto
  ultimately show ?thesis
    using collectConstants_reemits[OF sample_accesses_ok]
    unfolding sample_accesses_prepared roots Un_empty_right list.set Un_insert_left Un_empty_left by (elim exE conjE) (simp only:, blast)
qed

end
