(* ===== verification/ModuleDecls.thy ===== *)
theory ModuleDecls
  imports ModuleErasure
begin

text \<open>
  What \<^verbatim>\<open>removeDeclFromModule\<close> of \<^verbatim>\<open>tools/zapccs/UnloaderIR.cpp\<close> does with the globals of a
  declaration that is unloaded, and how it interacts with the collection of constants.
\<close>

subsection \<open>Globals of a declaration that is unloaded\<close>

lemma module_replacement_chain:
  assumes "chain (DeclChains s) ds" "d \<in> set ds"
  shows "module_replacement d s \<noteq> None"
    "module_replacement d s = Some (r, need, s1) \<Longrightarrow>
      (\<forall>x. r = Some x \<longrightarrow> x \<in> set ds \<and> x \<noteq> d \<and> x \<notin> set (UnloadedDecls s) \<and> (need \<longrightarrow> IsDefinition s x))"
    "module_replacement d s = Some (r, need, s1) \<Longrightarrow> s1 = s\<lparr>MemberKind := MemberKind s1, PointOfInstantiation := PointOfInstantiation s1\<rparr>"
proof -
  obtain best where oldest: "nonUserDecl d (UnloadedDecls s) (DeclChains s) = Some best"
    and survivor: "\<forall>x. best = Some x \<longrightarrow> x \<in> set ds \<and> x \<noteq> d \<and> x \<notin> set (UnloadedDecls s)"
    using nonUserDecl_oldest[OF assms] find_survivor[of "\<lambda>r. r \<noteq> d \<and> r \<notin> set (UnloadedDecls s)" ds] by blast
  show "module_replacement d s \<noteq> None"
    by (cases "DeclSort s d") (auto simp: module_replacement_def oldest Let_def split: option.split)
  show "module_replacement d s = Some (r, need, s1) \<Longrightarrow>
      (\<forall>x. r = Some x \<longrightarrow> x \<in> set ds \<and> x \<noteq> d \<and> x \<notin> set (UnloadedDecls s) \<and> (need \<longrightarrow> IsDefinition s x))"
    using survivor unfolding module_replacement_def oldest Let_def
    by (cases "DeclSort s d") (auto split: option.splits if_splits)
  show "module_replacement d s = Some (r, need, s1) \<Longrightarrow> s1 = s\<lparr>MemberKind := MemberKind s1, PointOfInstantiation := PointOfInstantiation s1\<rparr>"
    unfolding module_replacement_def oldest Let_def
    by (cases "DeclSort s d") (auto split: option.splits if_splits)
qed

text \<open>What becomes of a global of the declaration.\<close>

definition rehomed :: "codegen \<Rightarrow> decl option \<Rightarrow> bool \<Rightarrow> const_id \<Rightarrow> codegen \<Rightarrow> bool" where
  "rehomed s r need v s' \<longleftrightarrow> v \<in> set (ToErase s') \<or>
     (GVName s v = ''__cxa_pure_virtual'' \<and> v \<in> set (GVsToKeep s')) \<or>
     (\<exists>x. r = Some x \<and> v \<in> set (DeclGlobalValues s' x) \<and> (need \<or> v \<in> set (GVsToKeep s')))"

definition gv_step :: "codegen \<Rightarrow> decl option \<Rightarrow> codegen \<Rightarrow> bool" where
  "gv_step s r s' \<longleftrightarrow> GVName s' = GVName s \<and> set (ToErase s) \<subseteq> set (ToErase s') \<and> set (GVsToKeep s) \<subseteq> set (GVsToKeep s') \<and>
     (\<forall>x. set (DeclGlobalValues s x) \<subseteq> set (DeclGlobalValues s' x)) \<and>
     (\<forall>x. r \<noteq> Some x \<longrightarrow> DeclGlobalValues s' x = DeclGlobalValues s x)"

lemma remove_gv_step:
  "gv_step s r (remove_gv r need v s)" "rehomed s r need v (remove_gv r need v s)"
  "GVDecl (remove_gv r need v s) x = (if x = v then GVDecl (remove_gv r need v s) v else GVDecl s x)"
  "GVDecl (remove_gv r need v s) v \<in> {None, r}"
  by (auto simp: remove_gv_def gv_step_def rehomed_def setDecl_def insertDeclGlobalValues_def isSameKind_def
      insertConstantsToEraseCompletely_def Let_def split: option.split)

lemma rehomed_step: "rehomed s r need v s1 \<Longrightarrow> gv_step s1 r s' \<Longrightarrow> GVName s1 = GVName s \<Longrightarrow> rehomed s r need v s'"
  unfolding rehomed_def gv_step_def subset_iff by metis

lemma gv_step_trans: "gv_step s r s1 \<Longrightarrow> gv_step s1 r s2 \<Longrightarrow> gv_step s r s2"
  unfolding gv_step_def by (metis subset_trans)

lemma fold_remove_gv:
  "gv_step s r (fold (remove_gv r need) vs s) \<and> (\<forall>v \<in> set vs. rehomed s r need v (fold (remove_gv r need) vs s)) \<and>
   (\<forall>x. GVDecl (fold (remove_gv r need) vs s) x \<in> (if x \<in> set vs then {None, r} else {GVDecl s x}))"
proof (induction vs arbitrary: s)
  case (Cons v vs)
  let ?s = "remove_gv r need v s"
  note one = remove_gv_step[where s = s and r = r and need = need and v = v] and rest = Cons.IH[of ?s]
  have name: "GVName ?s = GVName s" using one(1) by (simp add: gv_step_def)
  have "rehomed s r need x (fold (remove_gv r need) vs ?s)" if "x \<in> set (v # vs)" for x
  proof (cases "x \<in> set vs")
    case True
    then have "rehomed ?s r need x (fold (remove_gv r need) vs ?s)" using rest by blast
    then show ?thesis by (simp add: rehomed_def name)
  next
    case False
    then show ?thesis using that one(2) rehomed_step[OF one(2) _ name] rest by auto
  qed
  moreover have "GVDecl (fold (remove_gv r need) vs ?s) x \<in> (if x \<in> set (v # vs) then {None, r} else {GVDecl s x})" for x
    using rest[THEN conjunct2, THEN conjunct2, THEN spec, of x] one(3)[of x] one(4) by (auto split: if_splits)
  ultimately show ?case using gv_step_trans[OF one(1)] rest by simp
qed (simp add: gv_step_def)

text \<open>
  C22 (invariant): No global of an unloaded declaration is left behind: its entry is empty, none of
  its globals refers to it any more, and each is erased, or listed by a redeclaration that stays,
  which keeps the definition only if it is the definition in the source itself; the runtime's
  function for pure virtual calls stays declared. Other globals keep their declaration.
\<close>

theorem removeDeclFromModule_rehomes:
  assumes "chain (DeclChains s) ds" "d \<in> set ds"
  shows "\<exists>s'. removeDeclFromModule d s = Some s' \<and> DeclGlobalValues s' d = [] \<and>
    (\<forall>v \<in> set (getDeclGlobalValues d s). GVDecl s' v \<noteq> Some d \<and>
       (v \<in> set (ToErase s') \<or> (GVName s v = ''__cxa_pure_virtual'' \<and> v \<in> set (GVsToKeep s')) \<or>
        (\<exists>x \<in> set ds. x \<noteq> d \<and> x \<notin> set (UnloadedDecls s) \<and> v \<in> set (DeclGlobalValues s' x) \<and>
           (IsDefinition s x \<or> v \<in> set (GVsToKeep s'))))) \<and>
    (\<forall>v. v \<notin> set (getDeclGlobalValues d s) \<longrightarrow> GVDecl s' v = GVDecl s v)"
proof -
  obtain r need s1 where rep: "module_replacement d s = Some (r, need, s1)"
    using module_replacement_chain(1)[OF assms] by auto
  note R = module_replacement_chain(2,3)[OF assms rep]
  let ?s1 = "s1\<lparr>DeclGlobalValues := (DeclGlobalValues s1)(d := [])\<rparr>"
  let ?vs = "getDeclGlobalValues d s1"
  have same: "?vs = getDeclGlobalValues d s" "GVName s1 = GVName s" "GVDecl s1 = GVDecl s"
    by (subst R(2); simp add: getDeclGlobalValues_def is_global_def)+
  define s' where "s' = fold (remove_gv r need) ?vs ?s1"
  note F = fold_remove_gv[of ?s1 r need ?vs, folded s'_def]
  note decls = F[THEN conjunct2, THEN conjunct2, THEN spec]
  have d: "r \<noteq> Some d" using R(1) by auto
  then have "DeclGlobalValues s' d = DeclGlobalValues ?s1 d" using F[THEN conjunct1] unfolding gv_step_def by blast
  then have empty: "DeclGlobalValues s' d = []" by simp
  have moved: "GVDecl s' v \<noteq> Some d" if "v \<in> set ?vs" for v using decls[of v] that d by auto
  have others: "GVDecl s' v = GVDecl s v" if "v \<notin> set ?vs" for v using decls[of v] that same(3) by simp
  have homes: "v \<in> set (ToErase s') \<or> (GVName s v = ''__cxa_pure_virtual'' \<and> v \<in> set (GVsToKeep s')) \<or>
      (\<exists>x \<in> set ds. x \<noteq> d \<and> x \<notin> set (UnloadedDecls s) \<and> v \<in> set (DeclGlobalValues s' x) \<and>
         (IsDefinition s x \<or> v \<in> set (GVsToKeep s')))" if "v \<in> set ?vs" for v
  proof -
    have "rehomed ?s1 r need v s'" using F that by blast
    moreover have "GVName ?s1 = GVName s" using same(2) by simp
    ultimately show ?thesis using R(1) unfolding rehomed_def by metis
  qed
  have "removeDeclFromModule d s = Some s'" using rep by (simp add: removeDeclFromModule_def s'_def)
  then show ?thesis using empty moved others homes unfolding same(1) by blast
qed

text \<open>
  The function 13 was first declared by 5, which is unloaded, and is defined by 6 in a file that
  stays: both declarations list it.
\<close>

definition redeclared_module :: codegen where
  "redeclared_module = sample_module
     \<lparr>DeclChains := setPreviousDecl 6 (Some 5) \<lparr>RedeclLink = \<lambda>_. UninitializedLatest, First = \<lambda>d. d\<rparr>,
      DeclGlobalValues := (\<lambda>d. if d = 5 \<or> d = 6 then [13] else []), GVDecl := [13 \<mapsto> 6],
      IsDefinition := (\<lambda>d. d = 6), UnloadedDecls := [5]\<rparr>"

theorem removeDeclFromModule_rehomes_witness:
  "\<exists>s'. removeDeclFromModule 5 redeclared_module = Some s' \<and> GVDecl s' 13 \<noteq> Some 5 \<and> DeclGlobalValues s' 5 = []"
proof -
  have "chain (DeclChains redeclared_module) [5, 6]"
    by (simp add: redeclared_module_def setPreviousDecl_def link_defs)
  moreover have "13 \<in> set (getDeclGlobalValues 5 redeclared_module)"
    by (simp add: redeclared_module_def sample_module_def getDeclGlobalValues_def is_global_def)
  ultimately show ?thesis using removeDeclFromModule_rehomes[of redeclared_module "[5, 6]" 5] by auto
qed

text \<open>
  A global that the redeclaration lists already loses its declaration when the other
  one is unloaded: \<^verbatim>\<open>insertDeclGlobalValues\<close> returns before it sets the declaration that was cleared
  before. When the function is then erased because it uses something unloaded, its definition, in
  a file that stays, is not generated again.
\<close>

theorem listed_global_not_reemitted:
  "(case removeDeclFromModule 5 redeclared_module of
      None \<Rightarrow> None
    | Some s1 \<Rightarrow> map_option (\<lambda>s2. (DeclGlobalValues s1 6, GVDecl s1 13, ToErase s2, ErasedDeferred s2))
        (collectConstants s1)) = Some ([13], None, [11, 13, 14, 12], [])"
  by code_simp

end
