(* ===== verification/Specializations.thy ===== *)
theory Specializations
  imports FoldingSetMaps Redeclarations ModuleConstants
begin

text \<open>
  The specializations of a template: \<^verbatim>\<open>FoldingSetVector\<close> of \<^verbatim>\<open>llvm/ADT/FoldingSet.h\<close>, a folding set
  with the list of its nodes in the order of insertion, and what \<^verbatim>\<open>VisitClassTemplateSpecializationDecl\<close>
  and \<^verbatim>\<open>VisitVarTemplateSpecializationDecl\<close> of \<^verbatim>\<open>tools/zapccs/UnloaderIR.cpp\<close> do with it when
  redeclarations of a specialization are unloaded.
\<close>

subsection \<open>A folding set with a list\<close>

record folding_vector =
  VecSet :: folding_set
  VecNodes :: "fs_node list"

definition vec_clear :: "folding_vector \<Rightarrow> folding_vector" where
  "vec_clear v = \<lparr>VecSet = clear_set (VecSet v), VecNodes = []\<rparr>"

definition vec_FindNodeOrInsertPos ::
  "(node_id \<Rightarrow> 32 word) \<Rightarrow> (fs_node \<Rightarrow> node_id) \<Rightarrow> node_id \<Rightarrow> folding_vector \<Rightarrow> (fs_node option \<times> nat option) option"
where
  "vec_FindNodeOrInsertPos hash prof i v = FindNodeOrInsertPos hash prof i (VecSet v)"

definition vec_GetOrInsertNode ::
  "nat \<Rightarrow> (node_id \<Rightarrow> 32 word) \<Rightarrow> (fs_node \<Rightarrow> node_id) \<Rightarrow> fs_node \<Rightarrow> folding_vector \<Rightarrow> (fs_node \<times> folding_vector) option"
where
  "vec_GetOrInsertNode fuel hash prof n v =
     map_option (\<lambda>(e, t). (e, \<lparr>VecSet = t, VecNodes = (if e = n then VecNodes v @ [n] else VecNodes v)\<rparr>))
       (GetOrInsertNode fuel hash prof n (VecSet v))"

definition vec_InsertNode_at ::
  "nat \<Rightarrow> (node_id \<Rightarrow> 32 word) \<Rightarrow> (fs_node \<Rightarrow> node_id) \<Rightarrow> fs_node \<Rightarrow> nat \<Rightarrow> folding_vector \<Rightarrow> folding_vector option"
where
  "vec_InsertNode_at fuel hash prof n b v =
     map_option (\<lambda>t. \<lparr>VecSet = t, VecNodes = VecNodes v @ [n]\<rparr>) (fs_InsertNode fuel hash prof n b (VecSet v))"

text \<open>
  Insertion without a position expects that no equal node is there: another equal node fails an
  assertion, here \<open>None\<close>; the node itself passes it.
\<close>

definition vec_InsertNode ::
  "nat \<Rightarrow> (node_id \<Rightarrow> 32 word) \<Rightarrow> (fs_node \<Rightarrow> node_id) \<Rightarrow> fs_node \<Rightarrow> folding_vector \<Rightarrow> folding_vector option"
where
  "vec_InsertNode fuel hash prof n v =
     Option.bind (GetOrInsertNode fuel hash prof n (VecSet v))
       (\<lambda>(e, t). if e = n then Some \<lparr>VecSet = t, VecNodes = VecNodes v @ [n]\<rparr> else None)"

definition vec_erase :: "fs_node \<Rightarrow> folding_vector \<Rightarrow> (bool \<times> folding_vector) option" where
  "vec_erase n v =
     map_option (\<lambda>(found, t). (found, \<lparr>VecSet = t, VecNodes = (if found then removeAll n (VecNodes v) else VecNodes v)\<rparr>))
       (fs_RemoveNode n (VecSet v))"

definition vec_size :: "folding_vector \<Rightarrow> nat" where
  "vec_size v = NumNodes (VecSet v)"

definition vec_empty :: "folding_vector \<Rightarrow> bool" where
  "vec_empty v \<longleftrightarrow> vec_size v = 0"

subsection \<open>Unloading a specialization\<close>

text \<open>
  One template with its specializations and its partial specializations. What a declaration is a
  specialization for, its profile, does not change.
\<close>

record specialized =
  Scopes :: scopes
  Specializations :: folding_vector
  PartialSpecializations :: folding_vector
  IsPartial :: "decl \<Rightarrow> bool"
  SpecializationKind :: "decl \<Rightarrow> template_kind"
  InstantiationChanges :: "decl \<rightharpoonup> template_kind"
  UnloadedSpecs :: "decl list"

definition specs_of :: "bool \<Rightarrow> specialized \<Rightarrow> folding_vector" where
  "specs_of p s = (if p then PartialSpecializations s else Specializations s)"

definition set_specs :: "bool \<Rightarrow> folding_vector \<Rightarrow> specialized \<Rightarrow> specialized" where
  "set_specs p v s = (if p then s\<lparr>PartialSpecializations := v\<rparr> else s\<lparr>Specializations := v\<rparr>)"

definition restore_kind :: "decl \<Rightarrow> decl option \<Rightarrow> specialized \<Rightarrow> specialized" where
  "restore_kind d r s =
     (case r of
        None \<Rightarrow> s
      | Some x \<Rightarrow>
          (case InstantiationChanges s d of
             None \<Rightarrow> s
           | Some k \<Rightarrow> s\<lparr>SpecializationKind := (SpecializationKind s)(x := k)\<rparr>))"

text \<open>The replacement of a partial specialization has to be one, or the cast fails.\<close>

definition insert_replacement ::
  "nat \<Rightarrow> (node_id \<Rightarrow> 32 word) \<Rightarrow> (fs_node \<Rightarrow> node_id) \<Rightarrow> bool \<Rightarrow> decl option \<Rightarrow> specialized \<Rightarrow> specialized option"
where
  "insert_replacement fuel hash prof p r s =
     (case r of
        None \<Rightarrow> Some s
      | Some x \<Rightarrow>
          if p \<and> \<not> IsPartial s x then None
          else map_option (\<lambda>v. set_specs p v s) (vec_InsertNode fuel hash prof x (specs_of p s)))"

text \<open>
  The handlers of the two kinds of templates. That of a variable template asks for the replacement
  to be inserted whether or not the erased declaration was in the set.
\<close>

definition VisitClassTemplateSpecializationDecl ::
  "nat \<Rightarrow> (node_id \<Rightarrow> 32 word) \<Rightarrow> (fs_node \<Rightarrow> node_id) \<Rightarrow> decl \<Rightarrow> specialized \<Rightarrow> specialized option"
where
  "VisitClassTemplateSpecializationDecl fuel hash prof d s =
     Option.bind (nonUserDecl d (UnloadedSpecs s) (Chains (Scopes s))) (\<lambda>r.
       (let s1 = restore_kind d r s; p = IsPartial s1 d
        in Option.bind (vec_erase d (specs_of p s1)) (\<lambda>(found, v).
             Option.bind (if found then insert_replacement fuel hash prof p r (set_specs p v s1) else Some (set_specs p v s1))
               (\<lambda>s2. map_option (\<lambda>t. s2\<lparr>Scopes := t\<rparr>) (VisitRedeclarable d (Scopes s2))))))"

definition VisitVarTemplateSpecializationDecl ::
  "nat \<Rightarrow> (node_id \<Rightarrow> 32 word) \<Rightarrow> (fs_node \<Rightarrow> node_id) \<Rightarrow> decl \<Rightarrow> specialized \<Rightarrow> specialized option"
where
  "VisitVarTemplateSpecializationDecl fuel hash prof d s =
     Option.bind (nonUserDecl d (UnloadedSpecs s) (Chains (Scopes s))) (\<lambda>r.
       (let s1 = restore_kind d r s; p = IsPartial s1 d
        in Option.bind (vec_erase d (specs_of p s1)) (\<lambda>(found, v).
             Option.bind (insert_replacement fuel hash prof p r (set_specs p v s1))
               (\<lambda>s2. map_option (\<lambda>t. s2\<lparr>Scopes := t\<rparr>) (VisitRedeclarable d (Scopes s2))))))"


subsection \<open>The list has the nodes of the set\<close>

lemma represents_size:
  assumes "represents hash prof t M"
  shows "NumNodes t = card (ran M)" "finite (ran M)" "M i = Some n \<Longrightarrow> prof n = i"
proof -
  obtain cs where cs: "holds_nodes hash prof t cs" and M: "\<forall>i n. M i = Some n \<longleftrightarrow> n \<in> set (concat cs) \<and> prof n = i"
    using assms by (auto simp: represents_def)
  have filed: "filed hash prof t cs" using cs by (simp add: holds_nodes_def)
  have ran: "ran M = set (concat cs)" using M unfolding ran_def by blast
  show "NumNodes t = card (ran M)"
    unfolding ran distinct_card[OF filed_distinct[OF filed]] using filed by (simp add: filed_def del: length_concat)
  show "finite (ran M)" unfolding ran by simp
  show "M i = Some n \<Longrightarrow> prof n = i" using M by blast
qed

definition lists_exactly ::
  "(node_id \<Rightarrow> 32 word) \<Rightarrow> (fs_node \<Rightarrow> node_id) \<Rightarrow> folding_vector \<Rightarrow> (node_id \<rightharpoonup> fs_node) \<Rightarrow> fs_node list \<Rightarrow> bool"
where
  "lists_exactly hash prof v M ns \<longleftrightarrow> represents hash prof (VecSet v) M \<and> VecNodes v = ns \<and>
     NumBuckets (VecSet v) < 2 ^ 30 \<and> card (ran M) < 2 ^ 30"

lemma vec_erase_lists:
  assumes "lists_exactly hash prof v M ns"
  shows "\<exists>v'. vec_erase n v = Some (M (prof n) = Some n, v') \<and>
    lists_exactly hash prof v' (if M (prof n) = Some n then M(prof n := None) else M)
      (if M (prof n) = Some n then removeAll n ns else ns)"
proof -
  have v: "represents hash prof (VecSet v) M" "NumBuckets (VecSet v) < 2 ^ 30" "VecNodes v = ns" "card (ran M) < 2 ^ 30"
    using assms by (simp_all add: lists_exactly_def)
  note size = represents_size[OF v(1)]
  obtain t where t: "perform (Suc (Suc 0)) hash prof (Remove n) (VecSet v) = Some (fst (map_step prof (Remove n) M), t)"
    "represents hash prof t (snd (map_step prof (Remove n) M))" "NumBuckets t < 2 ^ 30"
    using perform_represents[OF v(1,2), of "Remove n" 0] size(1) v(4) by auto
  have "ran (M(prof n := None)) \<subseteq> ran M" by (auto simp: ran_def)
  then have "card (ran (M(prof n := None))) < 2 ^ 30" using card_mono[OF size(2)] v(4) by (meson le_less_trans)
  then show ?thesis using t v(3,4) by (auto simp: vec_erase_def lists_exactly_def split: if_splits)
qed

lemma vec_InsertNode_lists:
  assumes "lists_exactly hash prof v M ns" "Suc (card (ran M)) < 2 ^ 30" "M (prof n) = None"
  shows "\<exists>v'. vec_InsertNode (Suc (Suc fuel)) hash prof n v = Some v' \<and> lists_exactly hash prof v' (M(prof n \<mapsto> n)) (ns @ [n])"
proof -
  have v: "represents hash prof (VecSet v) M" "NumBuckets (VecSet v) < 2 ^ 30" "VecNodes v = ns"
    using assms(1) by (simp_all add: lists_exactly_def)
  note size = represents_size[OF v(1)]
  obtain t where t: "perform (Suc (Suc fuel)) hash prof (Enter n) (VecSet v) = Some (Entered n, t)"
    "represents hash prof t (M(prof n \<mapsto> n))" "NumBuckets t < 2 ^ 30"
    using perform_represents[OF v(1,2), of "Enter n" fuel] size(1) assms(2,3) by auto
  have "ran (M(prof n \<mapsto> n)) = insert n (ran M)" using assms(3) by simp
  then have "card (ran (M(prof n \<mapsto> n))) < 2 ^ 30" using card_insert_le_m1[of "Suc (card (ran M))" "ran M" n] assms(2) by simp
  then show ?thesis using t v(3) by (auto simp: vec_InsertNode_def lists_exactly_def)
qed

text \<open>A node that is in the set is listed again; one that is equal to another node fails.\<close>

lemma vec_InsertNode_there:
  assumes "lists_exactly hash prof v M ns" "M (prof n) = Some e"
  shows "vec_InsertNode fuel hash prof n v = (if e = n then Some (v\<lparr>VecNodes := ns @ [n]\<rparr>) else None)"
    "lists_exactly hash prof (v\<lparr>VecNodes := ns @ [n]\<rparr>) M (ns @ [n])"
proof -
  obtain cs where cs: "holds_nodes hash prof (VecSet v) cs" and M: "\<forall>i n. M i = Some n \<longleftrightarrow> n \<in> set (concat cs) \<and> prof n = i"
    using assms(1) by (auto simp: represents_def lists_exactly_def)
  show "vec_InsertNode fuel hash prof n v = (if e = n then Some (v\<lparr>VecNodes := ns @ [n]\<rparr>) else None)"
    using represents_find[OF cs M, of "prof n"] assms by (simp add: vec_InsertNode_def GetOrInsertNode_def lists_exactly_def)
  show "lists_exactly hash prof (v\<lparr>VecNodes := ns @ [n]\<rparr>) M (ns @ [n])" using assms(1) by (simp add: lists_exactly_def)
qed

lemma card_ran_swap:
  assumes "represents hash prof t M" "M i = Some f"
  shows "Suc (card (ran (M(i := None)))) = card (ran M)"
proof -
  note size = represents_size[OF assms(1)]
  have "j = i" if "M j = Some f" for j using size(3)[OF assms(2)] size(3)[OF that] by simp
  then have "(\<exists>j. j \<noteq> i \<and> M j = Some n) \<longleftrightarrow> (\<exists>j. M j = Some n) \<and> n \<noteq> f" for n
    using assms(2) by (metis option.inject)
  then have "ran (M(i := None)) = ran M - {f}" by (simp add: ran_def set_eq_iff cong: conj_cong)
  moreover have "f \<in> ran M" using assms(2) by (rule ranI)
  ultimately show ?thesis using card_Suc_Diff1[OF size(2)] by simp
qed


subsection \<open>One redeclaration\<close>

lemma specs_of_set [simp]:
  "specs_of p (set_specs q v s) = (if p = q then v else specs_of p s)"
  "Scopes (set_specs p v s) = Scopes s" "IsPartial (set_specs p v s) = IsPartial s"
  "UnloadedSpecs (set_specs p v s) = UnloadedSpecs s" "SpecializationKind (set_specs p v s) = SpecializationKind s"
  "InstantiationChanges (set_specs p v s) = InstantiationChanges s"
  by (simp_all add: specs_of_def set_specs_def)

lemma restore_kind_fields [simp]:
  "specs_of p (restore_kind d r s) = specs_of p s" "Scopes (restore_kind d r s) = Scopes s"
  "IsPartial (restore_kind d r s) = IsPartial s" "UnloadedSpecs (restore_kind d r s) = UnloadedSpecs s"
  "InstantiationChanges (restore_kind d r s) = InstantiationChanges s"
  by (simp_all add: restore_kind_def specs_of_def split: option.split)

lemma restore_kind_other: "r \<noteq> Some x \<Longrightarrow> SpecializationKind (restore_kind d r s) x = SpecializationKind s x"
  by (auto simp: restore_kind_def split: option.split)

lemma specs_of_Scopes [simp]: "specs_of p (s\<lparr>Scopes := t\<rparr>) = specs_of p s"
  by (simp add: specs_of_def)

text \<open>
  What stays the same while the redeclarations \<open>ds0\<close> of one specialization in the state \<open>s0\<close> are
  unloaded and \<open>ds\<close> are left.
\<close>

definition spec_left ::
  "decl_name \<Rightarrow> context_id \<Rightarrow> (context_id \<Rightarrow> nat) \<Rightarrow> bool \<Rightarrow> decl list \<Rightarrow> specialized \<Rightarrow> decl list \<Rightarrow> specialized \<Rightarrow> bool"
where
  "spec_left name b rank p ds0 s0 ds s \<longleftrightarrow>
     (ds = [] \<or> entity_ok (Scopes s) name b ds \<and> nested (Scopes s) rank) \<and>
     UnloadedSpecs s = UnloadedSpecs s0 \<and> IsPartial s = IsPartial s0 \<and> specs_of (\<not> p) s = specs_of (\<not> p) s0 \<and>
     InstantiationChanges s = InstantiationChanges s0 \<and>
     set ds \<subseteq> set ds0 \<and> set ds0 - set ds \<subseteq> set (UnloadedSpecs s0) \<and>
     List.find (\<lambda>r. r \<notin> set (UnloadedSpecs s0)) ds = List.find (\<lambda>r. r \<notin> set (UnloadedSpecs s0)) ds0 \<and>
     (\<forall>x. List.find (\<lambda>r. r \<notin> set (UnloadedSpecs s0)) ds0 \<noteq> Some x \<longrightarrow> SpecializationKind s x = SpecializationKind s0 x)"

lemma find_remove1: "\<not> P x \<Longrightarrow> List.find P (remove1 x xs) = List.find P xs"
  by (induction xs) auto

lemma spec_left_replacement:
  assumes "spec_left name b rank p ds0 s0 ds s" "d \<in> set ds" "d \<in> set (UnloadedSpecs s0)"
  shows "nonUserDecl d (UnloadedSpecs s) (Chains (Scopes s)) = Some (List.find (\<lambda>r. r \<notin> set (UnloadedSpecs s0)) ds0)"
proof -
  have ok: "entity_ok (Scopes s) name b ds" and same: "UnloadedSpecs s = UnloadedSpecs s0"
    "List.find (\<lambda>r. r \<notin> set (UnloadedSpecs s0)) ds = List.find (\<lambda>r. r \<notin> set (UnloadedSpecs s0)) ds0"
    using assms(1,2) by (auto simp: spec_left_def)
  have "(\<lambda>r. r \<noteq> d \<and> r \<notin> set (UnloadedSpecs s0)) = (\<lambda>r. r \<notin> set (UnloadedSpecs s0))" using assms(3) by auto
  then show ?thesis using nonUserDecl_oldest[OF _ assms(2), of "Chains (Scopes s)" "UnloadedSpecs s"] ok same
    by (simp add: entity_ok_def del: RedeclChains.chain.simps)
qed

text \<open>Whatever becomes of the set, the rest of a handler is the same.\<close>

lemma spec_left_step:
  assumes "spec_left name b rank p ds0 s0 ds s" "d \<in> set ds" "d \<in> set (UnloadedSpecs s0)"
  shows "\<exists>t. VisitRedeclarable d (Scopes s) = Some t \<and>
    spec_left name b rank p ds0 s0 (remove1 d ds)
      ((set_specs p v (restore_kind d (List.find (\<lambda>r. r \<notin> set (UnloadedSpecs s0)) ds0) s))\<lparr>Scopes := t\<rparr>)"
proof -
  let ?keep = "List.find (\<lambda>r. r \<notin> set (UnloadedSpecs s0)) ds0"
  have ok: "entity_ok (Scopes s) name b ds" "nested (Scopes s) rank" using assms(1,2) by (auto simp: spec_left_def)
  obtain t where t: "VisitRedeclarable d (Scopes s) = Some t" "nested t rank"
    "ds \<noteq> [d] \<longrightarrow> entity_ok t name b (remove1 d ds)"
    using VisitRedeclarable_step[OF ok assms(2)] by blast
  have "distinct ds" using ok(1) chain_distinct by (auto simp: entity_ok_def simp del: RedeclChains.chain.simps)
  then have members: "set (remove1 d ds) = set ds - {d}" by simp
  have "remove1 d ds = [] \<or> entity_ok t name b (remove1 d ds)" using t(3) by auto
  moreover have "SpecializationKind (restore_kind d ?keep s) x = SpecializationKind s0 x" if "?keep \<noteq> Some x" for x
    using restore_kind_other[OF that] assms(1) that by (simp add: spec_left_def)
  moreover have "(\<not> p) \<noteq> p" by simp
  ultimately show ?thesis
    using assms(1,3) t(1,2) find_remove1[of "\<lambda>r. r \<notin> set (UnloadedSpecs s0)" d ds]
    unfolding spec_left_def members by (intro exI[of _ t]) auto
qed


subsection \<open>Class templates: all unloaded redeclarations of a specialization\<close>

lemma set_specs_twice [simp]: "set_specs p v' (set_specs p v s) = set_specs p v' s"
  by (simp add: set_specs_def)

text \<open>\<open>f\<close> stands for the specialization \<open>ds\<close> of the template in the map \<open>M\<close> from profiles to nodes.\<close>

definition one_specialization ::
  "(fs_node \<Rightarrow> node_id) \<Rightarrow> bool \<Rightarrow> specialized \<Rightarrow> decl list \<Rightarrow> node_id \<Rightarrow> decl \<Rightarrow> (node_id \<rightharpoonup> fs_node) \<Rightarrow> bool"
where
  "one_specialization prof p s ds i f M \<longleftrightarrow> f \<in> set ds \<and> M i = Some f \<and>
     (\<forall>d \<in> set ds. prof d = i \<and> IsPartial s d = p)"

abbreviation survivor :: "specialized \<Rightarrow> decl list \<Rightarrow> decl option" where
  "survivor s ds \<equiv> List.find (\<lambda>r. r \<notin> set (UnloadedSpecs s)) ds"

lemma replace_specialization:
  assumes "lists_exactly hash prof v M ns" "M (prof f) = Some f" "r \<noteq> Some f"
    "\<forall>x. r = Some x \<longrightarrow> prof x = prof f \<and> (p \<longrightarrow> IsPartial s x)"
  shows "\<exists>v1 v2. vec_erase f v = Some (True, v1) \<and>
    insert_replacement (Suc (Suc fuel)) hash prof p r (set_specs p v1 s) = Some (set_specs p v2 s) \<and>
    lists_exactly hash prof v2 (M(prof f := r)) (removeAll f ns @ (case r of None \<Rightarrow> [] | Some x \<Rightarrow> [x]))"
proof -
  obtain v1 where v1: "vec_erase f v = Some (True, v1)"
    "lists_exactly hash prof v1 (M(prof f := None)) (removeAll f ns)"
    using vec_erase_lists[OF assms(1), of f] assms(2) by auto
  have rep: "represents hash prof (VecSet v) M" "card (ran M) < 2 ^ 30" using assms(1) by (simp_all add: lists_exactly_def)
  have room: "Suc (card (ran (M(prof f := None)))) < 2 ^ 30" using card_ran_swap[OF rep(1) assms(2)] rep(2) by simp
  show ?thesis
  proof (cases r)
    case None
    then show ?thesis using v1 by (intro exI[of _ v1]) (simp add: insert_replacement_def)
  next
    case (Some x)
    then have x: "prof x = prof f" "p \<longrightarrow> IsPartial s x" using assms(4) by simp_all
    then have "(M(prof f := None)) (prof x) = None" by simp
    then obtain v2 where "vec_InsertNode (Suc (Suc fuel)) hash prof x v1 = Some v2"
      "lists_exactly hash prof v2 (M(prof f := None, prof x \<mapsto> x)) (removeAll f ns @ [x])"
      using vec_InsertNode_lists[OF v1(2) room, of x fuel] by blast
    then show ?thesis using v1 x Some by (intro exI[of _ v1] exI[of _ v2]) (simp add: insert_replacement_def)
  qed
qed

lemma filter_remove1_in: "P x \<Longrightarrow> filter P (remove1 x xs) = remove1 x (filter P xs)"
  by (induction xs) auto

definition class_left ::
  "(node_id \<Rightarrow> 32 word) \<Rightarrow> (fs_node \<Rightarrow> node_id) \<Rightarrow> decl_name \<Rightarrow> context_id \<Rightarrow> (context_id \<Rightarrow> nat) \<Rightarrow> bool \<Rightarrow> decl list \<Rightarrow>
    specialized \<Rightarrow> node_id \<Rightarrow> decl \<Rightarrow> (node_id \<rightharpoonup> fs_node) \<Rightarrow> fs_node list \<Rightarrow> specialized \<Rightarrow> decl list \<Rightarrow> bool"
where
  "class_left hash prof name b rank p ds0 s0 i f M ns s xs \<longleftrightarrow> one_specialization prof p s0 ds0 i f M \<and>
     (\<exists>ds. spec_left name b rank p ds0 s0 ds s \<and> xs = filter (\<lambda>d. d \<in> set (UnloadedSpecs s0)) ds \<and>
       (if f \<in> set ds then lists_exactly hash prof (specs_of p s) M ns
        else lists_exactly hash prof (specs_of p s) (M(i := survivor s0 ds0))
          (removeAll f ns @ (case survivor s0 ds0 of None \<Rightarrow> [] | Some x \<Rightarrow> [x]))))"

lemma spec_left_distinct: "spec_left name b rank p ds0 s0 ds s \<Longrightarrow> distinct ds"
  using chain_distinct by (auto simp: spec_left_def entity_ok_def simp del: RedeclChains.chain.simps)

lemma class_left_step:
  assumes "class_left hash prof name b rank p ds0 s0 i f M ns s xs" "d \<in> set xs"
  shows "\<exists>s'. VisitClassTemplateSpecializationDecl (Suc (Suc fuel)) hash prof d s = Some s' \<and>
    class_left hash prof name b rank p ds0 s0 i f M ns s' (remove1 d xs)"
proof -
  let ?keep = "survivor s0 ds0" and ?U = "set (UnloadedSpecs s0)"
  obtain ds where ds: "spec_left name b rank p ds0 s0 ds s" "xs = filter (\<lambda>d. d \<in> ?U) ds"
    and lists: "if f \<in> set ds then lists_exactly hash prof (specs_of p s) M ns
      else lists_exactly hash prof (specs_of p s) (M(i := ?keep)) (removeAll f ns @ (case ?keep of None \<Rightarrow> [] | Some x \<Rightarrow> [x]))"
    and one: "one_specialization prof p s0 ds0 i f M"
    using assms(1) by (auto simp: class_left_def)
  have d: "d \<in> set ds" "d \<in> ?U" "d \<in> set ds0" using assms(2) ds by (auto simp: spec_left_def)
  have keep: "?keep = Some x \<Longrightarrow> x \<in> set ds0 \<and> x \<notin> ?U" for x using find_survivor[of "\<lambda>r. r \<notin> ?U" ds0 x] by simp
  have partial: "IsPartial s d = p" "\<forall>x. ?keep = Some x \<longrightarrow> prof x = i \<and> IsPartial s x = p" and prof: "prof d = i" "prof f = i" "M i = Some f"
    using one ds(1) d(3) keep by (auto simp: one_specialization_def spec_left_def)
  define s1 where "s1 = restore_kind d ?keep s"
  have s1: "IsPartial s1 d = p" "specs_of p s1 = specs_of p s" using partial(1) by (simp_all add: s1_def)
  have visit: "VisitClassTemplateSpecializationDecl (Suc (Suc fuel)) hash prof d s =
      Option.bind (vec_erase d (specs_of p s)) (\<lambda>(found, v).
        Option.bind (if found then insert_replacement (Suc (Suc fuel)) hash prof p ?keep (set_specs p v s1) else Some (set_specs p v s1))
          (\<lambda>s2. map_option (\<lambda>t. s2\<lparr>Scopes := t\<rparr>) (VisitRedeclarable d (Scopes s2))))"
    unfolding VisitClassTemplateSpecializationDecl_def spec_left_replacement[OF ds(1) d(1,2)] Option.bind.simps(2)
      s1_def[symmetric] Let_def s1 ..
  have rest: "\<exists>t. VisitRedeclarable d (Scopes (set_specs p v s1)) = Some t \<and>
      spec_left name b rank p ds0 s0 (remove1 d ds) ((set_specs p v s1)\<lparr>Scopes := t\<rparr>)" for v
    using spec_left_step[OF ds(1) d(1,2), of v] by (simp add: s1_def)
  have xs: "remove1 d xs = filter (\<lambda>d. d \<in> ?U) (remove1 d ds)" unfolding ds(2) using d(2) by (rule filter_remove1_in[symmetric])
  have members: "f \<in> set (remove1 d ds) \<longleftrightarrow> f \<in> set ds \<and> f \<noteq> d"
    using spec_left_distinct[OF ds(1)] by auto
  show ?thesis
  proof (cases "d = f")
    case True
    have "lists_exactly hash prof (specs_of p s) M ns" using lists d(1) True by simp
    moreover have "M (prof f) = Some f" using prof by simp
    moreover have "?keep \<noteq> Some f" using keep d(2) True by auto
    moreover have "\<forall>x. ?keep = Some x \<longrightarrow> prof x = prof f \<and> (p \<longrightarrow> IsPartial s1 x)" using partial prof by (simp add: s1_def)
    ultimately obtain v1 v2 where v: "vec_erase f (specs_of p s) = Some (True, v1)"
      "insert_replacement (Suc (Suc fuel)) hash prof p ?keep (set_specs p v1 s1) = Some (set_specs p v2 s1)"
      "lists_exactly hash prof v2 (M(prof f := ?keep)) (removeAll f ns @ (case ?keep of None \<Rightarrow> [] | Some x \<Rightarrow> [x]))"
      by (drule_tac replace_specialization[where r = ?keep and s = s1 and p = p and fuel = fuel]) blast+
    obtain t where t: "VisitRedeclarable d (Scopes (set_specs p v2 s1)) = Some t"
      "spec_left name b rank p ds0 s0 (remove1 d ds) ((set_specs p v2 s1)\<lparr>Scopes := t\<rparr>)" using rest by blast
    have "class_left hash prof name b rank p ds0 s0 i f M ns ((set_specs p v2 s1)\<lparr>Scopes := t\<rparr>) (remove1 d xs)"
      unfolding class_left_def xs using one t(2) v(3) members True prof by (intro conjI exI[of _ "remove1 d ds"]) simp_all
    then show ?thesis unfolding visit using v t(1) True by simp
  next
    case False
    obtain M' ns' where M': "lists_exactly hash prof (specs_of p s) M' ns'" "M' i \<noteq> Some d"
      "M' = (if f \<in> set ds then M else M(i := ?keep))"
      "ns' = (if f \<in> set ds then ns else removeAll f ns @ (case ?keep of None \<Rightarrow> [] | Some x \<Rightarrow> [x]))"
      using lists prof(3) False keep d(2) by (fastforce split: if_splits)
    obtain v where v: "vec_erase d (specs_of p s) = Some (False, v)" "lists_exactly hash prof v M' ns'"
      using vec_erase_lists[OF M'(1), of d] M'(2) prof(1) by auto
    obtain t where t: "VisitRedeclarable d (Scopes (set_specs p v s1)) = Some t"
      "spec_left name b rank p ds0 s0 (remove1 d ds) ((set_specs p v s1)\<lparr>Scopes := t\<rparr>)" using rest by blast
    have "class_left hash prof name b rank p ds0 s0 i f M ns ((set_specs p v s1)\<lparr>Scopes := t\<rparr>) (remove1 d xs)"
      unfolding class_left_def xs using one t(2) v(2) members False M'(3,4)
      by (intro conjI exI[of _ "remove1 d ds"]) (simp_all split: if_splits)
    then show ?thesis unfolding visit using v t(1) by simp
  qed
qed


interpretation class_redeclarations:
  member_removal "class_left hash prof name b rank p ds0 s0 i f M ns" "VisitClassTemplateSpecializationDecl (Suc (Suc fuel)) hash prof" 0
  for hash prof name b rank p ds0 s0 i f M ns fuel
proof
  show "distinct xs" if "class_left hash prof name b rank p ds0 s0 i f M ns s xs" for s xs
    using that spec_left_distinct by (auto simp: class_left_def)
qed (rule class_left_step)

lemma spec_left_start:
  "entity_ok (Scopes s) name b ds \<Longrightarrow> nested (Scopes s) rank \<Longrightarrow> spec_left name b rank p ds s ds s"
  by (simp add: spec_left_def)

lemma spec_left_end:
  assumes "spec_left name b rank p ds0 s0 ds s" "filter (\<lambda>d. d \<in> set (UnloadedSpecs s0)) ds = []"
  shows "f \<in> set ds0 \<Longrightarrow> f \<in> set ds \<longleftrightarrow> f \<notin> set (UnloadedSpecs s0)"
    "survivor s0 ds0 = Some x \<Longrightarrow> isFirstDecl (Chains (Scopes s)) x"
proof -
  have stay: "\<forall>d \<in> set ds. d \<notin> set (UnloadedSpecs s0)" using assms(2) by (auto simp: filter_empty_conv)
  then show "f \<in> set ds0 \<Longrightarrow> f \<in> set ds \<longleftrightarrow> f \<notin> set (UnloadedSpecs s0)" using assms(1) by (auto simp: spec_left_def)
  show "isFirstDecl (Chains (Scopes s)) x" if "survivor s0 ds0 = Some x"
  proof -
    have find: "survivor s0 ds = Some x" using assms(1) that by (simp add: spec_left_def)
    then obtain ds' where ds: "ds = x # ds'" using stay by (cases ds) auto
    then have "entity_ok (Scopes s) name b (x # ds')" using assms(1) by (simp add: spec_left_def)
    then show ?thesis using chain_isFirstDecl[of "Chains (Scopes s)" x ds' x]
      by (simp add: entity_ok_def del: RedeclChains.chain.simps)
  qed
qed

text \<open>
  C28 (refinement): After all unloaded redeclarations of a specialization of a class template are
  visited, in whichever order, its template has for it the oldest redeclaration that stays, which is
  the first one of its chain now, or nothing; the set of the specializations and their list agree as
  before, and other specializations are where they were.
\<close>

theorem class_specialization_follows:
  assumes "entity_ok (Scopes s) name b ds" "nested (Scopes s) rank" "one_specialization prof p s ds i f M"
    "lists_exactly hash prof (specs_of p s) M ns" "distinct rs" "set rs = set ds \<inter> set (UnloadedSpecs s)"
  shows "\<exists>s'. remove_all (VisitClassTemplateSpecializationDecl (Suc (Suc fuel)) hash prof) rs s = Some s' \<and>
    (if f \<in> set rs
     then lists_exactly hash prof (specs_of p s') (M(i := survivor s ds))
            (removeAll f ns @ (case survivor s ds of None \<Rightarrow> [] | Some x \<Rightarrow> [x]))
     else lists_exactly hash prof (specs_of p s') M ns) \<and>
    (\<forall>x. survivor s ds = Some x \<longrightarrow> isFirstDecl (Chains (Scopes s')) x) \<and>
    specs_of (\<not> p) s' = specs_of (\<not> p) s \<and>
    (\<forall>x. survivor s ds \<noteq> Some x \<longrightarrow> SpecializationKind s' x = SpecializationKind s x)"
proof -
  let ?xs = "filter (\<lambda>d. d \<in> set (UnloadedSpecs s)) ds"
  have f: "f \<in> set ds" using assms(3) by (simp add: one_specialization_def)
  have start: "class_left hash prof name b rank p ds s i f M ns s ?xs"
    using assms(3,4) spec_left_start[OF assms(1,2)] f unfolding class_left_def by (intro conjI exI[of _ ds]) simp_all
  have rs: "set rs = set ?xs" using assms(6) by auto
  have "length rs = length ?xs"
    using rs assms(5) spec_left_distinct[OF spec_left_start[OF assms(1,2)]] by (metis distinct_card distinct_filter)
  then obtain s' where s': "remove_all (VisitClassTemplateSpecializationDecl (Suc (Suc fuel)) hash prof) rs s = Some s'"
    "class_left hash prof name b rank p ds s i f M ns s' (filter (\<lambda>d. d \<notin> set rs) ?xs)"
    using class_redeclarations.remove_all_keeps[OF start assms(5)] rs by auto
  have "filter (\<lambda>d. d \<notin> set rs) ?xs = []" unfolding rs by (simp add: filter_empty_conv)
  then obtain ds' where ds': "spec_left name b rank p ds s ds' s'" "filter (\<lambda>d. d \<in> set (UnloadedSpecs s)) ds' = []"
    and lists: "if f \<in> set ds' then lists_exactly hash prof (specs_of p s') M ns
      else lists_exactly hash prof (specs_of p s') (M(i := survivor s ds))
        (removeAll f ns @ (case survivor s ds of None \<Rightarrow> [] | Some x \<Rightarrow> [x]))"
    using s'(2) by (auto simp: class_left_def)
  have "f \<in> set ds' \<longleftrightarrow> f \<notin> set rs" using spec_left_end(1)[OF ds' f] assms(6) f by blast
  then show ?thesis using s'(1) lists spec_left_end(2)[OF ds'] ds'(1) by (auto simp: spec_left_def)
qed

subsection \<open>Variable templates\<close>

lemma var_visit:
  assumes "spec_left name b rank p ds0 s0 ds s" "d \<in> set ds" "d \<in> set (UnloadedSpecs s0)" "IsPartial s0 d = p"
  shows "VisitVarTemplateSpecializationDecl fuel hash prof d s =
    Option.bind (vec_erase d (specs_of p s)) (\<lambda>(found, v).
      Option.bind (insert_replacement fuel hash prof p (survivor s0 ds0) (set_specs p v (restore_kind d (survivor s0 ds0) s)))
        (\<lambda>s2. map_option (\<lambda>t. s2\<lparr>Scopes := t\<rparr>) (VisitRedeclarable d (Scopes s2))))"
proof -
  define s1 where "s1 = restore_kind d (survivor s0 ds0) s"
  have s1: "IsPartial s1 d = p" "specs_of p s1 = specs_of p s" using assms(1,4) by (simp_all add: s1_def spec_left_def)
  show ?thesis
    unfolding VisitVarTemplateSpecializationDecl_def spec_left_replacement[OF assms(1-3)] Option.bind.simps(2)
      s1_def[symmetric] Let_def s1 ..
qed

definition var_left ::
  "(node_id \<Rightarrow> 32 word) \<Rightarrow> (fs_node \<Rightarrow> node_id) \<Rightarrow> decl_name \<Rightarrow> context_id \<Rightarrow> (context_id \<Rightarrow> nat) \<Rightarrow> bool \<Rightarrow> decl list \<Rightarrow>
    specialized \<Rightarrow> node_id \<Rightarrow> decl \<Rightarrow> (node_id \<rightharpoonup> fs_node) \<Rightarrow> fs_node list \<Rightarrow> nat \<Rightarrow> specialized \<Rightarrow> decl list \<Rightarrow> bool"
where
  "var_left hash prof name b rank p ds0 s0 i f M ns k s xs \<longleftrightarrow> one_specialization prof p s0 ds0 i f M \<and>
     survivor s0 ds0 = Some f \<and> length xs \<le> k \<and>
     lists_exactly hash prof (specs_of p s) M (ns @ replicate (k - length xs) f) \<and>
     (\<exists>ds. spec_left name b rank p ds0 s0 ds s \<and> xs = filter (\<lambda>d. d \<in> set (UnloadedSpecs s0)) ds)"

lemma var_left_step:
  assumes "var_left hash prof name b rank p ds0 s0 i f M ns k s xs" "d \<in> set xs"
  shows "\<exists>s'. VisitVarTemplateSpecializationDecl fuel hash prof d s = Some s' \<and>
    var_left hash prof name b rank p ds0 s0 i f M ns k s' (remove1 d xs)"
proof -
  let ?U = "set (UnloadedSpecs s0)" and ?ns = "ns @ replicate (k - length xs) f"
  obtain ds where ds: "spec_left name b rank p ds0 s0 ds s" "xs = filter (\<lambda>d. d \<in> ?U) ds"
    and lists: "lists_exactly hash prof (specs_of p s) M ?ns" "length xs \<le> k"
    and one: "one_specialization prof p s0 ds0 i f M" "survivor s0 ds0 = Some f"
    using assms(1) by (auto simp: var_left_def)
  have d: "d \<in> set ds" "d \<in> ?U" "d \<in> set ds0" using assms(2) ds by (auto simp: spec_left_def)
  have f: "d \<noteq> f" using find_survivor[OF one(2)] d(2) by auto
  have prof: "prof d = i" "prof f = i" "M i = Some f" "IsPartial s0 d = p" "IsPartial s f = p"
    using one(1) ds(1) d(3) by (auto simp: one_specialization_def spec_left_def)
  obtain v where v: "vec_erase d (specs_of p s) = Some (False, v)" "lists_exactly hash prof v M ?ns"
    using vec_erase_lists[OF lists(1), of d] prof f by auto
  let ?v = "v\<lparr>VecNodes := ?ns @ [f]\<rparr>" and ?s1 = "restore_kind d (Some f) s"
  have insert: "insert_replacement fuel hash prof p (Some f) (set_specs p v ?s1) = Some (set_specs p ?v ?s1)"
    using vec_InsertNode_there(1)[OF v(2), of f f fuel] prof by (simp add: insert_replacement_def)
  obtain t where t: "VisitRedeclarable d (Scopes s) = Some t"
    "spec_left name b rank p ds0 s0 (remove1 d ds) ((set_specs p ?v ?s1)\<lparr>Scopes := t\<rparr>)"
    using spec_left_step[OF ds(1) d(1,2), of ?v] one(2) by auto
  have xs: "remove1 d xs = filter (\<lambda>d. d \<in> ?U) (remove1 d ds)" unfolding ds(2) using d(2) by (rule filter_remove1_in[symmetric])
  have "0 < length xs" using assms(2) by (cases xs) auto
  then have k: "k - length (remove1 d xs) = Suc (k - length xs)" "length (remove1 d xs) \<le> k"
    using lists(2) length_remove1[of d xs] assms(2) by (simp_all del: length_0_conv length_greater_0_conv)
  have "lists_exactly hash prof ?v M (ns @ replicate (k - length (remove1 d xs)) f)"
    using vec_InsertNode_there(2)[OF v(2), of f f] prof unfolding k by (simp add: replicate_append_same[symmetric])
  then have "var_left hash prof name b rank p ds0 s0 i f M ns k ((set_specs p ?v ?s1)\<lparr>Scopes := t\<rparr>) (remove1 d xs)"
    using one k(2) t(2) xs unfolding var_left_def by auto
  then show ?thesis
    unfolding var_visit[OF ds(1) d(1,2) prof(4)] one(2) using v(1) insert t(1) by simp
qed

interpretation var_redeclarations:
  member_removal "var_left hash prof name b rank p ds0 s0 i f M ns k" "VisitVarTemplateSpecializationDecl fuel hash prof" 0
  for hash prof name b rank p ds0 s0 i f M ns k fuel
proof
  show "distinct xs" if "var_left hash prof name b rank p ds0 s0 i f M ns k s xs" for s xs
    using that spec_left_distinct by (auto simp: var_left_def)
qed (rule var_left_step)

text \<open>
  C38 (error): Unloading redeclarations of a specialization of a variable template whose oldest one
  stays lists that one once more for every unloaded redeclaration, though the set has it only once:
  the list is longer after every compilation that redeclares the specialization.
\<close>

theorem var_specialization_listed_again:
  assumes "entity_ok (Scopes s) name b ds" "nested (Scopes s) rank" "one_specialization prof p s ds i f M"
    "lists_exactly hash prof (specs_of p s) M ns" "distinct rs" "set rs = set ds \<inter> set (UnloadedSpecs s)"
    "survivor s ds = Some f"
  shows "\<exists>s'. remove_all (VisitVarTemplateSpecializationDecl fuel hash prof) rs s = Some s' \<and>
    lists_exactly hash prof (specs_of p s') M (ns @ replicate (length rs) f)"
proof -
  let ?xs = "filter (\<lambda>d. d \<in> set (UnloadedSpecs s)) ds"
  have start: "var_left hash prof name b rank p ds s i f M ns (length ?xs) s ?xs"
    using assms(3,4,7) spec_left_start[OF assms(1,2)] unfolding var_left_def by (intro conjI exI[of _ ds]) simp_all
  have rs: "set rs = set ?xs" using assms(6) by auto
  have length: "length rs = length ?xs"
    using rs assms(5) spec_left_distinct[OF spec_left_start[OF assms(1,2)]] by (metis distinct_card distinct_filter)
  then obtain s' where s': "remove_all (VisitVarTemplateSpecializationDecl fuel hash prof) rs s = Some s'"
    "var_left hash prof name b rank p ds s i f M ns (length ?xs) s' (filter (\<lambda>d. d \<notin> set rs) ?xs)"
    using var_redeclarations.remove_all_keeps[OF start assms(5)] rs by auto
  have "filter (\<lambda>d. d \<notin> set rs) ?xs = []" unfolding rs by (simp add: filter_empty_conv)
  then have "lists_exactly hash prof (specs_of p s') M (ns @ replicate (length rs) f)"
    using s'(2) length by (simp add: var_left_def)
  then show ?thesis using s'(1) by blast
qed

text \<open>
  And a redeclaration that is unloaded before the one in the set fails the assertion of the insertion,
  when another one stays.
\<close>

lemma var_specialization_fails:
  assumes "entity_ok (Scopes s) name b ds" "nested (Scopes s) rank" "one_specialization prof p s ds i f M"
    "lists_exactly hash prof (specs_of p s) M ns" "d \<in> set ds" "d \<in> set (UnloadedSpecs s)" "f \<in> set (UnloadedSpecs s)"
    "d \<noteq> f" "survivor s ds = Some x"
  shows "VisitVarTemplateSpecializationDecl fuel hash prof d s = None"
proof -
  have x: "x \<in> set ds" "x \<noteq> f" using find_survivor[OF assms(9)] assms(7) by auto
  then have prof: "prof d = i" "prof x = i" "M i = Some f" "IsPartial s d = p" "IsPartial s x = p"
    using assms(3,5) by (auto simp: one_specialization_def)
  obtain v where v: "vec_erase d (specs_of p s) = Some (False, v)" "lists_exactly hash prof v M ns"
    using vec_erase_lists[OF assms(4), of d] prof assms(8) by auto
  have "insert_replacement fuel hash prof p (Some x) (set_specs p v (restore_kind d (Some x) s)) = None"
    using vec_InsertNode_there(1)[OF v(2), of x f fuel] prof x(2) by (simp add: insert_replacement_def)
  then show ?thesis
    unfolding var_visit[OF spec_left_start[OF assms(1,2)] assms(5,6) prof(4)] assms(9) using v(1) by simp
qed


text \<open>A specialization that is declared three times; its template lists the first declaration 4.\<close>

definition redeclared_specialization :: "folding_vector \<Rightarrow> decl list \<Rightarrow> specialized" where
  "redeclared_specialization v unloaded =
     \<lparr>Scopes = redeclared_scopes, Specializations = v, PartialSpecializations = v, IsPartial = \<lambda>_. False,
      SpecializationKind = \<lambda>_. TSK_ExplicitSpecialization, InstantiationChanges = Map.empty, UnloadedSpecs = unloaded\<rparr>"

lemma one_listed: "\<exists>v. lists_exactly (\<lambda>_. 0) (\<lambda>_. [1]) v [[1] \<mapsto> 4] [4]"
proof -
  obtain t where t: "FoldingSetBase 6 (\<lambda>_. None) = Some t" by (simp add: FoldingSetBase_def)
  let ?v = "\<lparr>VecSet = t, VecNodes = []\<rparr>"
  have "lists_exactly (\<lambda>_. 0) (\<lambda>_. [1]) ?v Map.empty []"
    using FoldingSetBase_represents[OF t] by (simp add: lists_exactly_def)
  from vec_InsertNode_lists[OF this, of 4] show ?thesis by auto
qed

lemma redeclared_specialization_ok:
  "entity_ok (Scopes (redeclared_specialization v us)) 7 0 [4, 5, 6]" "nested (Scopes (redeclared_specialization v us)) (\<lambda>_. 0)"
  "one_specialization (\<lambda>_. [1]) False (redeclared_specialization v us) [4, 5, 6] [1] 4 [[1] \<mapsto> 4]"
  "UnloadedSpecs (redeclared_specialization v us) = us" "specs_of False (redeclared_specialization v us) = v"
  using redeclared_scopes_ok
  by (simp_all add: redeclared_specialization_def one_specialization_def nested_def redeclared_scopes_def specs_of_def)

theorem class_specialization_follows_witness:
  "\<exists>v s'. VecNodes v = [4] \<and>
    remove_all (VisitClassTemplateSpecializationDecl 2 (\<lambda>_. 0) (\<lambda>_. [1])) [6, 4] (redeclared_specialization v [6, 4]) = Some s' \<and>
    VecNodes (specs_of False s') = [5] \<and> isFirstDecl (Chains (Scopes s')) 5"
proof -
  obtain v where v: "lists_exactly (\<lambda>_. 0) (\<lambda>_. [1]) v [[1] \<mapsto> 4] [4]" using one_listed by blast
  note ok = redeclared_specialization_ok[of v "[6, 4]"]
  have listed: "lists_exactly (\<lambda>_. 0) (\<lambda>_. [1]) (specs_of False (redeclared_specialization v [6, 4])) [[1] \<mapsto> 4] [4]"
    unfolding ok(5) by (rule v)
  have "set [6, 4] = set [4, 5, 6] \<inter> set (UnloadedSpecs (redeclared_specialization v [6, 4]))"
    "distinct [6, 4 :: decl]" unfolding ok(4) by auto
  from class_specialization_follows[OF ok(1-3) listed this(2,1)]
  show ?thesis using v by (intro exI[of _ v]) (auto simp: ok(4) lists_exactly_def numeral_2_eq_2)
qed

theorem var_specialization_listed_again_witness:
  "\<exists>v s'. VecNodes v = [4] \<and>
    remove_all (VisitVarTemplateSpecializationDecl 2 (\<lambda>_. 0) (\<lambda>_. [1])) [6, 5] (redeclared_specialization v [6, 5]) = Some s' \<and>
    VecNodes (specs_of False s') = [4, 4, 4]"
proof -
  obtain v where v: "lists_exactly (\<lambda>_. 0) (\<lambda>_. [1]) v [[1] \<mapsto> 4] [4]" using one_listed by blast
  note ok = redeclared_specialization_ok[of v "[6, 5]"]
  have listed: "lists_exactly (\<lambda>_. 0) (\<lambda>_. [1]) (specs_of False (redeclared_specialization v [6, 5])) [[1] \<mapsto> 4] [4]"
    unfolding ok(5) by (rule v)
  have "set [6, 5] = set [4, 5, 6] \<inter> set (UnloadedSpecs (redeclared_specialization v [6, 5]))"
    "distinct [6, 5 :: decl]" "survivor (redeclared_specialization v [6, 5]) [4, 5, 6] = Some 4" unfolding ok(4) by auto
  from var_specialization_listed_again[OF ok(1-3) listed this(2,1,3)]
  show ?thesis using v by (intro exI[of _ v]) (auto simp: lists_exactly_def)
qed

end
