(* ===== verification/Emission.thy ===== *)
theory Emission
  imports ModuleConstants
begin

text \<open>
  Which part of the module that is kept goes into the object file of a compilation:
  \<^verbatim>\<open>CachingPassManager.cpp\<close> of \<^verbatim>\<open>tools/zapccs\<close>. At the start of a compilation every global is dead;
  the declarations of the files that are included decide which globals are only declared and which
  are defined; what the defined ones use comes along. Passes, and the emission itself, skip what is
  dead, and emit what is only declared as an external reference.
\<close>

subsection \<open>Globals and their marks\<close>

datatype aliveness = Dead | AliveDeclaration | AliveDefinition

text \<open>
  \<open>Operands\<close> are the operands of a constant that are constants: the initializer of a variable, the
  symbol of an alias; \<open>BodyOperands\<close> those of the instructions of a function, in order. The lists of
  the module have the globals of the four kinds. Then what the decisions read of a declaration;
  what the code generator keeps of it is in \<open>Gen\<close>.
\<close>

record emission =
  Gen :: codegen
  Functions :: "const_id list"
  Variables :: "const_id list"
  Aliases :: "const_id list"
  IFuncs :: "const_id list"
  Operands :: "const_id \<Rightarrow> const_id list"
  BodyOperands :: "const_id \<Rightarrow> const_id list"
  TypeInfos :: "const_id \<Rightarrow> const_id list"
  Alive :: "const_id \<Rightarrow> aliveness"
  SeenGlobals :: "const_id list"
  SeenOperands :: "const_id list"
  LiveDecls :: "decl list"
  SpecializationMembers :: "decl \<Rightarrow> decl list"
  IsFriend :: "decl \<Rightarrow> bool"
  InFunction :: "decl \<Rightarrow> bool"
  HasAlias :: "decl \<Rightarrow> bool"
  HasUsed :: "decl \<Rightarrow> bool"
  DefinedHere :: "decl \<Rightarrow> bool"
  IsImplicit :: "decl \<Rightarrow> bool"
  RecordContext :: "decl \<Rightarrow> decl option"
  IsInstantiation :: "decl \<Rightarrow> bool"
  OutOfLineMemberInstance :: "decl \<Rightarrow> bool"
  SpecializationOf :: "decl \<Rightarrow> template_kind"
  ThreadLocal :: "decl \<Rightarrow> bool"
  BodyHere :: "decl \<Rightarrow> bool"
  NotDiscardable :: "decl \<Rightarrow> bool"
  IsDynamicClass :: "decl \<Rightarrow> bool"
  KeyFunction :: "decl \<Rightarrow> decl option"
  DependentFunctions :: "decl \<Rightarrow> decl list"
  AtFileScope :: "decl \<Rightarrow> bool"
  VirtualSiblings :: "decl \<Rightarrow> decl list"
  GlobalDeclsOf :: "decl \<Rightarrow> nat list option"

definition setAlive :: "const_id \<Rightarrow> aliveness \<Rightarrow> emission \<Rightarrow> emission" where
  "setAlive g a s = s\<lparr>Alive := (Alive s)(g := a)\<rparr>"

text \<open>The start of a compilation, and what makes all globals visible to the unloader again.\<close>

definition module_globals :: "emission \<Rightarrow> const_id list" where
  "module_globals s = Functions s @ Variables s @ Aliases s @ IFuncs s"

definition resetAlive :: "emission \<Rightarrow> emission" where
  "resetAlive s = fold (\<lambda>g. setAlive g Dead) (module_globals s) s"

definition setAllAlive :: "emission \<Rightarrow> emission" where
  "setAllAlive s = fold (\<lambda>g. setAlive g AliveDefinition) (module_globals s) s"

subsection \<open>What the emitted globals use\<close>

text \<open>
  Two walks that call each other. An operand is marked before it is visited, the initializer or
  operand of a global itself is not. The fuel is for the nesting of the calls.
\<close>

fun for_each :: "('a \<Rightarrow> 's \<Rightarrow> 's option) \<Rightarrow> 'a list \<Rightarrow> 's \<Rightarrow> 's option" where
  "for_each f [] s = Some s"
| "for_each f (x # xs) s = Option.bind (f x s) (for_each f xs)"

definition constants_of :: "emission \<Rightarrow> const_id \<Rightarrow> const_id list" where
  "constants_of s g = (if ConstKind (Gen s) g = FunctionC then Operands s g @ BodyOperands s g else Operands s g)"

fun GlobalIsNeeded :: "nat \<Rightarrow> const_id \<Rightarrow> emission \<Rightarrow> emission option"
and MarkUsedGlobalsAsNeeded :: "nat \<Rightarrow> const_id \<Rightarrow> emission \<Rightarrow> emission option"
where
  "GlobalIsNeeded 0 g s = None"
| "GlobalIsNeeded (Suc fuel) g s =
     (if g \<in> set (SeenGlobals s) then Some s
      else
        (let s1 = s\<lparr>SeenGlobals := g # SeenGlobals s\<rparr>
         in if Alive s1 g = AliveDeclaration then Some s1
            else for_each (MarkUsedGlobalsAsNeeded fuel) (constants_of s1 g) (setAlive g AliveDefinition s1)))"
| "MarkUsedGlobalsAsNeeded 0 c s = None"
| "MarkUsedGlobalsAsNeeded (Suc fuel) c s =
     (if is_global (Gen s) c then GlobalIsNeeded fuel c s
      else for_each (\<lambda>c s. if c \<in> set (SeenOperands s) then Some s
                           else MarkUsedGlobalsAsNeeded fuel c (s\<lparr>SeenOperands := c # SeenOperands s\<rparr>))
             (Operands s c) s)"

declare GlobalIsNeeded.simps [simp del] MarkUsedGlobalsAsNeeded.simps [simp del]

text \<open>The lists of the module skip what is dead at the moment the iterator gets there.\<close>

definition ResurrectGlobals :: "nat \<Rightarrow> emission \<Rightarrow> emission option" where
  "ResurrectGlobals fuel s =
     for_each (\<lambda>g s. if Alive s g = Dead then Some s else GlobalIsNeeded fuel g s) (module_globals s)
       (s\<lparr>SeenGlobals := [], SeenOperands := []\<rparr>)"

text \<open>The type infos that the emitted functions mention.\<close>

definition resurrect_type_infos :: "emission \<Rightarrow> emission" where
  "resurrect_type_infos s =
     fold (\<lambda>f s. if Alive s f = Dead \<or> Alive s f = AliveDeclaration \<or> f \<notin> set (FunctionTypeInfos (Gen s)) then s
                 else fold (\<lambda>g s. if g \<in> set (Gone (Gen s)) \<or> Alive s g = AliveDeclaration then s
                                  else setAlive g AliveDefinition s) (TypeInfos s f) s)
       (Functions s) s"

end
