(* ===== verification/EmissionClosure.thy ===== *)
theory EmissionClosure
  imports Emission ModuleErasure
begin

text \<open>
  The walk of \<^verbatim>\<open>ResurrectGlobals\<close> ends, and makes alive exactly what the alive definitions use;
  what is only declared stays so.
\<close>

subsection \<open>Uses\<close>

definition uses :: "emission \<Rightarrow> (const_id \<times> const_id) set" where
  "uses s = {(x, y). if is_global (Gen s) x then Alive s x \<noteq> AliveDeclaration \<and> y \<in> set (constants_of s x)
                     else y \<in> set (Operands s x)}"

definition operands_in :: "const_id set \<Rightarrow> emission \<Rightarrow> bool" where
  "operands_in U s \<longleftrightarrow> finite U \<and> (\<forall>x \<in> U. set (constants_of s x) \<union> set (Operands s x) \<subseteq> U)"

text \<open>A constant is done when what it uses directly was entered.\<close>

definition done_with :: "emission \<Rightarrow> const_id \<Rightarrow> bool" where
  "done_with s c \<longleftrightarrow>
     (if is_global (Gen s) c then c \<in> set (SeenGlobals s) else set (Operands s c) \<subseteq> set (SeenOperands s))"

definition entered :: "const_id list \<Rightarrow> const_id list \<Rightarrow> emission \<Rightarrow> emission" where
  "entered G C s = s\<lparr>SeenGlobals := G @ SeenGlobals s, SeenOperands := C @ SeenOperands s,
     Alive := (\<lambda>x. if x \<in> set G \<and> Alive s x \<noteq> AliveDeclaration then AliveDefinition else Alive s x)\<rparr>"

definition walk :: "const_id set \<Rightarrow> emission \<Rightarrow> emission \<Rightarrow> bool" where
  "walk R s s' \<longleftrightarrow> (\<exists>G C. s' = entered G C s \<and> set G \<inter> set (SeenGlobals s) = {} \<and> set G \<union> set C \<subseteq> R \<and>
     (\<forall>g \<in> set G. Alive s g = AliveDeclaration \<or> (\<forall>c \<in> set (constants_of s g). done_with s' c)) \<and>
     (\<forall>c \<in> set C. done_with s' c))"

lemma entered_fields [simp]:
  "Gen (entered G C s) = Gen s" "Operands (entered G C s) = Operands s" "constants_of (entered G C s) = constants_of s"
  "SeenGlobals (entered G C s) = G @ SeenGlobals s" "SeenOperands (entered G C s) = C @ SeenOperands s"
  "Alive (entered G C s) x = AliveDeclaration \<longleftrightarrow> Alive s x = AliveDeclaration"
  by (auto simp: entered_def constants_of_def fun_eq_iff)

lemma entered_entered: "entered G2 C2 (entered G1 C1 s) = entered (G2 @ G1) (C2 @ C1) s"
  by (auto simp: entered_def fun_eq_iff intro!: emission.equality)

lemma uses_entered [simp]: "uses (entered G C s) = uses s"
  by (simp add: uses_def)

lemma operands_in_entered [simp]: "operands_in U (entered G C s) = operands_in U s"
  by (simp add: operands_in_def)

lemma done_with_entered: "done_with s c \<Longrightarrow> done_with (entered G C s) c"
  by (auto simp: done_with_def split: if_splits)

lemma walk_keeps:
  assumes "walk R s s'"
  shows "Gen s' = Gen s" "Operands s' = Operands s" "constants_of s' = constants_of s" "uses s' = uses s"
    "operands_in U s' = operands_in U s" "done_with s c \<Longrightarrow> done_with s' c"
    "set (SeenGlobals s) \<subseteq> set (SeenGlobals s')" "set (SeenOperands s) \<subseteq> set (SeenOperands s')"
    "Alive s' x = AliveDeclaration \<longleftrightarrow> Alive s x = AliveDeclaration"
  using assms by (auto simp: walk_def done_with_entered)

lemma walk_refl: "walk R s s"
proof -
  have "s = entered [] [] s" by (simp add: entered_def)
  then show ?thesis unfolding walk_def by (intro exI[of _ "[]"]) simp
qed

lemma walk_trans:
  assumes "walk R s s1" "walk R s1 s2"
  shows "walk R s s2"
proof -
  obtain G1 C1 where 1: "s1 = entered G1 C1 s" "set G1 \<inter> set (SeenGlobals s) = {}" "set G1 \<union> set C1 \<subseteq> R"
    "\<forall>g \<in> set G1. Alive s g = AliveDeclaration \<or> (\<forall>c \<in> set (constants_of s g). done_with s1 c)" "\<forall>c \<in> set C1. done_with s1 c"
    using assms(1) by (auto simp: walk_def)
  obtain G2 C2 where 2: "s2 = entered G2 C2 s1" "set G2 \<inter> set (SeenGlobals s1) = {}" "set G2 \<union> set C2 \<subseteq> R"
    "\<forall>g \<in> set G2. Alive s1 g = AliveDeclaration \<or> (\<forall>c \<in> set (constants_of s1 g). done_with s2 c)" "\<forall>c \<in> set C2. done_with s2 c"
    using assms(2) by (auto simp: walk_def)
  have more: "done_with s1 c \<Longrightarrow> done_with s2 c" for c using walk_keeps(6)[OF assms(2)] .
  have "s2 = entered (G2 @ G1) (C2 @ C1) s" using 1(1) 2(1) by (simp add: entered_entered)
  moreover have "set (G2 @ G1) \<inter> set (SeenGlobals s) = {}" using 1(2) 2(2) unfolding 1(1) by auto
  moreover have "Alive s g = AliveDeclaration \<or> (\<forall>c \<in> set (constants_of s g). done_with s2 c)" if "g \<in> set (G2 @ G1)" for g
  proof (cases "g \<in> set G1")
    case True
    then show ?thesis using 1(4) more by blast
  next
    case False
    then have "g \<in> set G2" using that by simp
    then show ?thesis using 2(4) walk_keeps(3,9)[OF assms(1)] by metis
  qed
  moreover have "done_with s2 c" if "c \<in> set (C2 @ C1)" for c using that 1(5) 2(5) more by auto
  moreover have "set (G2 @ G1) \<union> set (C2 @ C1) \<subseteq> R" using 1(3) 2(3) by auto
  ultimately show ?thesis unfolding walk_def by blast
qed

lemma walk_mono: "walk R s s' \<Longrightarrow> R \<subseteq> R' \<Longrightarrow> walk R' s s'"
  unfolding walk_def by blast

lemma for_each_walk:
  assumes "\<forall>c \<in> set cs. \<forall>s1. walk R s s1 \<longrightarrow> (\<exists>s2. f c s1 = Some s2 \<and> walk R s1 s2 \<and> D s2 c)"
    "\<And>c s1 s2. walk R s1 s2 \<Longrightarrow> D s1 c \<Longrightarrow> D s2 c"
  shows "\<exists>s'. for_each f cs s = Some s' \<and> walk R s s' \<and> (\<forall>c \<in> set cs. D s' c)"
  using assms(1)
proof (induction cs arbitrary: s)
  case Nil
  then show ?case by (simp add: walk_refl)
next
  case (Cons c cs)
  obtain s1 where s1: "f c s = Some s1" "walk R s s1" "D s1 c"
    using Cons.prems[THEN bspec, of c, THEN spec, of s] walk_refl[of R s] by auto
  have "\<forall>c \<in> set cs. \<forall>s2. walk R s1 s2 \<longrightarrow> (\<exists>s3. f c s2 = Some s3 \<and> walk R s2 s3 \<and> D s3 c)"
    by (intro ballI allI impI) (rule Cons.prems[THEN bspec, THEN spec, THEN mp, OF _ walk_trans[OF s1(2)]], simp_all)
  from Cons.IH[OF this] obtain s' where s': "for_each f cs s1 = Some s'" "walk R s1 s'" "\<forall>c \<in> set cs. D s' c" by blast
  then show ?case using s1 walk_trans[OF s1(2) s'(2)] assms(2)[OF s'(2) s1(3)] by (intro exI[of _ s']) simp
qed

subsection \<open>The walk\<close>

definition unseen :: "const_id set \<Rightarrow> emission \<Rightarrow> nat" where
  "unseen U s = 2 * card (U - set (SeenGlobals s)) + card (U - set (SeenOperands s))"

lemma unseen_walk: "finite U \<Longrightarrow> walk R s s' \<Longrightarrow> unseen U s' \<le> unseen U s"
  unfolding unseen_def using walk_keeps(7,8)[of R s s']
  by (intro add_mono mult_le_mono2 card_mono) auto

lemma unseen_operand:
  assumes "finite U" "c \<in> U" "c \<notin> set (SeenOperands s)"
  shows "Suc (unseen U (s\<lparr>SeenOperands := c # SeenOperands s\<rparr>)) = unseen U s"
proof -
  have "U - set (c # SeenOperands s) = (U - set (SeenOperands s)) - {c}" by auto
  then show ?thesis using card_Suc_Diff1[of "U - set (SeenOperands s)" c] assms by (simp add: unseen_def)
qed

lemma unseen_global:
  assumes "finite U" "g \<in> U" "g \<notin> set (SeenGlobals s)"
  shows "unseen U (s\<lparr>SeenGlobals := g # SeenGlobals s, Alive := a\<rparr>) + 2 = unseen U s"
proof -
  have "U - set (g # SeenGlobals s) = (U - set (SeenGlobals s)) - {g}" by auto
  then show ?thesis using card_Suc_Diff1[of "U - set (SeenGlobals s)" g] assms by (simp add: unseen_def)
qed

abbreviation reach :: "emission \<Rightarrow> const_id \<Rightarrow> const_id set" where
  "reach s x \<equiv> (uses s)\<^sup>* `` {x}"

lemma reach_step: "(x, y) \<in> uses s \<Longrightarrow> reach s y \<subseteq> reach s x"
  by (auto intro: converse_rtrancl_into_rtrancl)

lemma entered_global:
  assumes "g \<notin> set (SeenGlobals s)" "Alive s g \<noteq> AliveDeclaration"
  shows "setAlive g AliveDefinition (s\<lparr>SeenGlobals := g # SeenGlobals s\<rparr>) = entered [g] [] s"
  using assms by (auto simp: setAlive_def entered_def fun_eq_iff intro!: emission.equality)

lemma entered_declaration:
  assumes "Alive s g = AliveDeclaration"
  shows "s\<lparr>SeenGlobals := g # SeenGlobals s\<rparr> = entered [g] [] s"
  using assms by (auto simp: entered_def fun_eq_iff intro!: emission.equality)

lemma entered_operand: "s\<lparr>SeenOperands := c # SeenOperands s\<rparr> = entered [] [c] s"
  by (auto simp: entered_def fun_eq_iff intro!: emission.equality)

text \<open>Entering a node before its successors are done, and the walk that does them.\<close>

lemma walk_enter_global:
  assumes "walk R (entered [g] [] s) s'" "g \<notin> set (SeenGlobals s)" "g \<in> R"
    "Alive s g = AliveDeclaration \<or> (\<forall>c \<in> set (constants_of s g). done_with s' c)"
  shows "walk R s s'"
proof -
  obtain G C where "s' = entered G C (entered [g] [] s)" "set G \<inter> set (SeenGlobals (entered [g] [] s)) = {}" "set G \<union> set C \<subseteq> R"
    "\<forall>h \<in> set G. Alive s h = AliveDeclaration \<or> (\<forall>c \<in> set (constants_of s h). done_with s' c)" "\<forall>c \<in> set C. done_with s' c"
    using assms(1) unfolding walk_def by (auto simp del: entered_fields(4,5))
  then show ?thesis unfolding walk_def
    using assms(2-4) by (intro exI[of _ "G @ [g]"] exI[of _ C]) (auto simp: entered_entered)
qed

lemma walk_enter_operand:
  assumes "walk R (entered [] [c] s) s'" "c \<in> R" "done_with s' c"
  shows "walk R s s'"
proof -
  obtain G C where "s' = entered G C (entered [] [c] s)" "set G \<inter> set (SeenGlobals s) = {}" "set G \<union> set C \<subseteq> R"
    "\<forall>h \<in> set G. Alive s h = AliveDeclaration \<or> (\<forall>c \<in> set (constants_of s h). done_with s' c)" "\<forall>c \<in> set C. done_with s' c"
    using assms(1) unfolding walk_def by auto
  then show ?thesis unfolding walk_def
    using assms(2,3) by (intro exI[of _ G] exI[of _ "C @ [c]"]) (auto simp: entered_entered)
qed

lemma needed_walk:
  "(\<forall>g s. g \<in> U \<and> is_global (Gen s) g \<and> operands_in U s \<and> unseen U s < fuel \<longrightarrow>
     (\<exists>s'. GlobalIsNeeded fuel g s = Some s' \<and> walk (reach s g) s s' \<and> g \<in> set (SeenGlobals s'))) \<and>
   (\<forall>c s. c \<in> U \<and> operands_in U s \<and> Suc (unseen U s) < fuel \<longrightarrow>
     (\<exists>s'. MarkUsedGlobalsAsNeeded fuel c s = Some s' \<and> walk (reach s c) s s' \<and> done_with s' c))"
proof (induction fuel)
  case 0
  then show ?case by simp
next
  case (Suc n)
  note mark = Suc.IH[THEN conjunct2, rule_format] and global = Suc.IH[THEN conjunct1, rule_format]
  have "\<exists>s'. GlobalIsNeeded (Suc n) g s = Some s' \<and> walk (reach s g) s s' \<and> g \<in> set (SeenGlobals s')"
    if g: "g \<in> U" "is_global (Gen s) g" "operands_in U s" "unseen U s < Suc n" for g s
  proof (cases "g \<in> set (SeenGlobals s)")
    case True
    then show ?thesis by (simp add: GlobalIsNeeded.simps walk_refl)
  next
    case new: False
    have fin: "finite U" using g(3) by (simp add: operands_in_def)
    show ?thesis
    proof (cases "Alive s g = AliveDeclaration")
      case True
      have "walk (reach s g) s (entered [g] [] s)" by (rule walk_enter_global[OF walk_refl]) (use new True in simp_all)
      then show ?thesis using new True entered_declaration[OF True]
        by (intro exI[of _ "entered [g] [] s"]) (simp add: GlobalIsNeeded.simps Let_def)
    next
      case False
      let ?s = "entered [g] [] s"
      have s1: "setAlive g AliveDefinition (s\<lparr>SeenGlobals := g # SeenGlobals s\<rparr>) = ?s" by (rule entered_global[OF new False])
      have less: "unseen U ?s + 2 = unseen U s"
        using unseen_global[OF fin g(1) new] unfolding s1[symmetric] by (simp add: setAlive_def)
      have each: "\<exists>t. MarkUsedGlobalsAsNeeded n c s1 = Some t \<and> walk (reach s g) s1 t \<and> done_with t c"
        if c: "c \<in> set (constants_of s g)" and s1: "walk (reach s g) ?s s1" for c s1
      proof -
        have "c \<in> U" "(g, c) \<in> uses s" using c g False by (auto simp: operands_in_def uses_def)
        moreover have "operands_in U s1" "uses s1 = uses s" using walk_keeps[OF s1] g(3) by simp_all
        moreover have "Suc (unseen U s1) < n" using unseen_walk[OF fin s1] less g(4) by simp
        ultimately show ?thesis using mark[of c s1] walk_mono reach_step[of g c s] by (metis (no_types, lifting))
      qed
      obtain s' where s': "for_each (MarkUsedGlobalsAsNeeded n) (constants_of s g) ?s = Some s'" "walk (reach s g) ?s s'"
        "\<forall>c \<in> set (constants_of s g). done_with s' c"
        using for_each_walk[of "constants_of s g" "reach s g" ?s "MarkUsedGlobalsAsNeeded n" done_with] each walk_keeps(6) by blast
      have "walk (reach s g) s s'" using walk_enter_global[OF s'(2) new] s'(3) by simp
      moreover have "g \<in> set (SeenGlobals s')" using walk_keeps(7)[OF s'(2)] by auto
      moreover have "GlobalIsNeeded (Suc n) g s = for_each (MarkUsedGlobalsAsNeeded n) (constants_of s g) ?s"
        using new False s1 by (simp add: GlobalIsNeeded.simps Let_def constants_of_def)
      ultimately show ?thesis using s'(1) by simp
    qed
  qed
  moreover have "\<exists>s'. MarkUsedGlobalsAsNeeded (Suc n) c s = Some s' \<and> walk (reach s c) s s' \<and> done_with s' c"
    if c: "c \<in> U" "operands_in U s" "Suc (unseen U s) < Suc n" for c s
  proof (cases "is_global (Gen s) c")
    case True
    then obtain s' where "GlobalIsNeeded n c s = Some s'" "walk (reach s c) s s'" "c \<in> set (SeenGlobals s')"
      using global[of c s] c by auto
    then show ?thesis using True walk_keeps(1)[of "reach s c" s s'] by (simp add: MarkUsedGlobalsAsNeeded.simps done_with_def)
  next
    case False
    have fin: "finite U" using c(2) by (simp add: operands_in_def)
    let ?f = "\<lambda>c s. if c \<in> set (SeenOperands s) then Some s
                    else MarkUsedGlobalsAsNeeded n c (s\<lparr>SeenOperands := c # SeenOperands s\<rparr>)"
    have each: "\<exists>t. ?f d s1 = Some t \<and> walk (reach s c) s1 t \<and> d \<in> set (SeenOperands t)"
      if d: "d \<in> set (Operands s c)" and s1: "walk (reach s c) s s1" for d s1
    proof (cases "d \<in> set (SeenOperands s1)")
      case True
      then show ?thesis by (simp add: walk_refl)
    next
      case new: False
      let ?t = "entered [] [d] s1"
      have edge: "(c, d) \<in> uses s" "d \<in> U" using d c False by (auto simp: operands_in_def uses_def)
      have same: "operands_in U s1" "uses s1 = uses s" using walk_keeps[OF s1] c(2) by simp_all
      have "Suc (unseen U ?t) = unseen U s1" using unseen_operand[OF fin edge(2) new] by (simp add: entered_operand)
      then have "Suc (unseen U ?t) < n" using unseen_walk[OF fin s1] c(3) by simp
      then obtain t where t: "MarkUsedGlobalsAsNeeded n d ?t = Some t" "walk (reach s d) ?t t" "done_with t d"
        using mark[of d ?t] edge(2) same by auto
      have "d \<in> reach s c" using edge(1) by auto
      then have "walk (reach s c) s1 t"
        using walk_enter_operand[OF walk_mono[OF t(2) reach_step[OF edge(1)]] _ t(3)] by blast
      moreover have "d \<in> set (SeenOperands t)" using walk_keeps(8)[OF t(2)] by auto
      ultimately show ?thesis using new t(1) by (simp add: entered_operand)
    qed
    obtain s' where s': "for_each ?f (Operands s c) s = Some s'" "walk (reach s c) s s'"
      "\<forall>d \<in> set (Operands s c). d \<in> set (SeenOperands s')"
      using for_each_walk[of "Operands s c" "reach s c" s ?f "\<lambda>s c. c \<in> set (SeenOperands s)"] each walk_keeps(8) by blast
    have "done_with s' c" using s'(3) False walk_keeps(1,2)[OF s'(2)] by (auto simp: done_with_def)
    then show ?thesis using False s'(1,2) by (simp add: MarkUsedGlobalsAsNeeded.simps)
  qed
  ultimately show ?case by simp
qed

subsection \<open>The whole module\<close>

lemma forget_seen [simp]:
  "constants_of (s\<lparr>SeenGlobals := G, SeenOperands := C\<rparr>) = constants_of s"
  "uses (s\<lparr>SeenGlobals := G, SeenOperands := C\<rparr>) = uses s"
  "operands_in U (s\<lparr>SeenGlobals := G, SeenOperands := C\<rparr>) = operands_in U s"
proof -
  show *: "constants_of (s\<lparr>SeenGlobals := G, SeenOperands := C\<rparr>) = constants_of s"
    by (rule ext) (simp add: constants_of_def cong: if_cong)
  show "uses (s\<lparr>SeenGlobals := G, SeenOperands := C\<rparr>) = uses s"
    "operands_in U (s\<lparr>SeenGlobals := G, SeenOperands := C\<rparr>) = operands_in U s"
    by (simp_all add: uses_def operands_in_def *)
qed

text \<open>The globals that the alive definitions use, not looking into what is only declared.\<close>

definition emitted :: "emission \<Rightarrow> const_id set" where
  "emitted s = {h. is_global (Gen s) h \<and> (\<exists>g \<in> set (module_globals s). Alive s g = AliveDefinition \<and> (g, h) \<in> (uses s)\<^sup>*)}"

lemma declaration_uses_nothing:
  "is_global (Gen s) r \<Longrightarrow> Alive s r = AliveDeclaration \<Longrightarrow> (r, x) \<in> (uses s)\<^sup>* \<Longrightarrow> x = r"
  by (erule converse_rtranclE) (auto simp: uses_def)

lemma walk_alive:
  assumes "walk R s s'"
  shows "Alive s x \<noteq> Dead \<Longrightarrow> Alive s' x = Alive s x" "Alive s x = Dead \<Longrightarrow> Alive s' x \<noteq> Dead \<Longrightarrow> x \<in> set (SeenGlobals s') \<and> x \<in> R"
  using assms by (cases "Alive s x"; auto simp: walk_def entered_def split: if_splits)+

lemma ResurrectGlobals_walk:
  assumes "operands_in U s" "set (module_globals s) \<subseteq> U" "\<forall>g \<in> set (module_globals s). is_global (Gen s) g"
    "3 * card U < fuel"
  shows "\<exists>s'. ResurrectGlobals fuel s = Some s' \<and>
    walk (\<Union>g \<in> {g \<in> set (module_globals s). Alive s g \<noteq> Dead}. reach s g) (s\<lparr>SeenGlobals := [], SeenOperands := []\<rparr>) s' \<and>
    (\<forall>g \<in> set (module_globals s). Alive s' g = Dead \<or> g \<in> set (SeenGlobals s'))"
proof -
  let ?s = "s\<lparr>SeenGlobals := [], SeenOperands := []\<rparr>" and ?f = "\<lambda>g s. if Alive s g = Dead then Some s else GlobalIsNeeded fuel g s"
  let ?R = "\<Union>g \<in> {g \<in> set (module_globals s). Alive s g \<noteq> Dead}. reach s g" and ?D = "\<lambda>s g. Alive s g = Dead \<or> g \<in> set (SeenGlobals s)"
  have start: "operands_in U ?s" "uses ?s = uses s" "unseen U ?s = 3 * card U" "finite U"
    using assms(1) by (simp_all add: unseen_def) (simp add: operands_in_def)
  have each: "\<exists>s2. ?f g s1 = Some s2 \<and> walk ?R s1 s2 \<and> ?D s2 g"
    if g: "g \<in> set (module_globals s)" and s1: "walk ?R ?s s1" for g s1
  proof (cases "Alive s1 g = Dead")
    case True
    then show ?thesis by (simp add: walk_refl)
  next
    case False
    have same: "operands_in U s1" "uses s1 = uses s" "Gen s1 = Gen s" using walk_keeps[OF s1] start by simp_all
    have "unseen U s1 < fuel" using unseen_walk[OF start(4) s1] start(3) assms(4) by simp
    then obtain s2 where s2: "GlobalIsNeeded fuel g s1 = Some s2" "walk (reach s1 g) s1 s2" "g \<in> set (SeenGlobals s2)"
      using needed_walk[of U fuel, THEN conjunct1, rule_format, of g s1] g assms(2,3) same by auto
    have "g \<in> ?R"
    proof (cases "Alive s g = Dead")
      case True
      then show ?thesis using walk_alive(2)[OF s1, of g] False by simp
    qed (use g in blast)
    then have "reach s1 g \<subseteq> ?R" unfolding same(2) by (auto intro: rtrancl_trans)
    then show ?thesis using s2 walk_mono False by (metis (no_types, lifting))
  qed
  have more: "?D s2 g" if "walk ?R s1 s2" "?D s1 g" for g s1 s2
    using walk_alive[OF that(1), of g] walk_keeps(7)[OF that(1)] that(2) by auto
  have "\<exists>s'. for_each ?f (module_globals s) ?s = Some s' \<and> walk ?R ?s s' \<and> (\<forall>g \<in> set (module_globals s). ?D s' g)"
    by (rule for_each_walk) (use each more in blast)+
  then show ?thesis by (simp add: ResurrectGlobals_def)
qed

lemma walk_done:
  assumes "walk R s s'" "SeenGlobals s = []" "SeenOperands s = []" "(x, y) \<in> (uses s)\<^sup>*" "done_with s' x"
  shows "done_with s' y"
  using assms(4,5)
proof (induction rule: rtrancl_induct)
  case (step y z)
  obtain G C where "s' = entered G C s" "\<forall>g \<in> set G. Alive s g = AliveDeclaration \<or> (\<forall>c \<in> set (constants_of s g). done_with s' c)"
    "\<forall>c \<in> set C. done_with s' c"
    using assms(1) unfolding walk_def by blast
  moreover have "done_with s' y" using step by simp
  ultimately show ?case
    using step.hyps(2) assms(2,3) by (auto simp: done_with_def uses_def split: if_splits)
qed

lemma ResurrectGlobals_marks:
  assumes "operands_in U s" "set (module_globals s) \<subseteq> U" "\<forall>g \<in> set (module_globals s). is_global (Gen s) g"
    "3 * card U < fuel"
  shows "\<exists>s'. ResurrectGlobals fuel s = Some s' \<and>
    (\<forall>g \<in> set (module_globals s). Alive s' g =
       (if Alive s g = AliveDeclaration then AliveDeclaration else if g \<in> emitted s then AliveDefinition else Dead))"
proof -
  let ?s = "s\<lparr>SeenGlobals := [], SeenOperands := []\<rparr>"
  obtain s' where s': "ResurrectGlobals fuel s = Some s'"
    and walk: "walk (\<Union>g \<in> {g \<in> set (module_globals s). Alive s g \<noteq> Dead}. reach s g) ?s s'"
    and seen: "\<forall>g \<in> set (module_globals s). Alive s' g = Dead \<or> g \<in> set (SeenGlobals s')"
    using ResurrectGlobals_walk[OF assms] by blast
  have uses: "uses ?s = uses s" by simp
  have "Alive s' g = (if Alive s g = AliveDeclaration then AliveDeclaration else if g \<in> emitted s then AliveDefinition else Dead)"
    if g: "g \<in> set (module_globals s)" for g
  proof (cases "Alive s g = AliveDeclaration")
    case True
    then show ?thesis using walk_keeps(9)[OF walk, of g] by simp
  next
    case False
    have def: "Alive s' g \<noteq> Dead \<longleftrightarrow> Alive s' g = AliveDefinition"
      using walk_keeps(9)[OF walk, of g] False by (cases "Alive s' g") simp_all
    have "g \<in> emitted s" if "Alive s' g \<noteq> Dead"
    proof (cases "Alive s g")
      case Dead
      then have "g \<in> (\<Union>g \<in> {g \<in> set (module_globals s). Alive s g \<noteq> Dead}. reach s g)" using walk_alive(2)[OF walk, of g] that by simp
      then obtain r where r: "r \<in> set (module_globals s)" "Alive s r \<noteq> Dead" "(r, g) \<in> (uses s)\<^sup>*" by auto
      have "Alive s r \<noteq> AliveDeclaration" using declaration_uses_nothing[of s r g] r assms(3) Dead by auto
      then have "Alive s r = AliveDefinition" using r(2) by (cases "Alive s r") simp_all
      then show ?thesis using r g assms(3) by (auto simp: emitted_def)
    qed (use False g assms(3) in \<open>auto simp: emitted_def\<close>)
    moreover have "Alive s' g \<noteq> Dead" if em: "g \<in> emitted s"
    proof -
      obtain r where r: "r \<in> set (module_globals s)" "Alive s r = AliveDefinition" "(r, g) \<in> (uses s)\<^sup>*"
        using em unfolding emitted_def by blast
      have "Alive s' r \<noteq> Dead" using walk_alive(1)[OF walk, of r] r(2) by simp
      then have "done_with s' r" using seen r(1) assms(3) walk_keeps(1)[OF walk] by (auto simp: done_with_def)
      then have "done_with s' g" using walk_done[OF walk _ _ r(3)[folded uses]] by simp
      then have "g \<in> set (SeenGlobals s')" using g assms(3) walk_keeps(1)[OF walk] by (simp add: done_with_def)
      then show ?thesis using walk False by (auto simp: walk_def entered_def)
    qed
    ultimately show ?thesis using False def by auto
  qed
  then show ?thesis using s' by blast
qed

text \<open>
  C24 (refinement): The walk over the globals of the module ends, and then the module defines exactly
  what the definitions that were alive before use, directly and indirectly; what was chosen to be
  only declared stays so, and its initializer or body does not bring anything along.
\<close>

theorem ResurrectGlobals_exact:
  assumes "operands_in U s" "set (module_globals s) \<subseteq> U" "\<forall>g \<in> set (module_globals s). is_global (Gen s) g"
    "3 * card U < fuel"
  shows "\<exists>s'. ResurrectGlobals fuel s = Some s' \<and>
    (\<forall>g \<in> set (module_globals s). Alive s' g =
       (if Alive s g = AliveDeclaration then AliveDeclaration else if g \<in> emitted s then AliveDefinition else Dead))"
  by (rule ResurrectGlobals_marks[OF assms])

text \<open>
  The function 1 is defined: its body has the constant 2, an address in the string 3, the variable 4,
  which is only declared, and itself. The initializer of 4 uses the string 5.
\<close>

definition sample_emission :: emission where
  "sample_emission =
     \<lparr>Gen = empty_module\<lparr>ConstKind := (\<lambda>c. if c = 1 then FunctionC else if c = 2 then PlainC else VariableC)\<rparr>,
      Functions = [1], Variables = [3, 4, 5], Aliases = [], IFuncs = [],
      Operands = (\<lambda>c. if c = 2 then [3] else if c = 4 then [5] else []),
      BodyOperands = (\<lambda>c. if c = 1 then [2, 4, 1] else []), TypeInfos = \<lambda>_. [],
      Alive = (\<lambda>_. Dead)(1 := AliveDefinition, 4 := AliveDeclaration), SeenGlobals = [], SeenOperands = [],
      LiveDecls = [], SpecializationMembers = \<lambda>_. [], IsFriend = \<lambda>_. False, InFunction = \<lambda>_. False,
      HasAlias = \<lambda>_. False, HasUsed = \<lambda>_. False, DefinedHere = \<lambda>_. False, IsImplicit = \<lambda>_. False,
      RecordContext = \<lambda>_. None, IsInstantiation = \<lambda>_. False, OutOfLineMemberInstance = \<lambda>_. False,
      SpecializationOf = \<lambda>_. TSK_Undeclared, ThreadLocal = \<lambda>_. False, BodyHere = \<lambda>_. False,
      NotDiscardable = \<lambda>_. False, IsDynamicClass = \<lambda>_. False, KeyFunction = \<lambda>_. None,
      DependentFunctions = \<lambda>_. [], AtFileScope = \<lambda>_. False, VirtualSiblings = \<lambda>_. [], GlobalDeclsOf = \<lambda>_. None\<rparr>"

lemma sample_emission_uses: "uses sample_emission = {(1, 2), (1, 4), (1, 1), (2, 3)}"
  by (auto simp: uses_def sample_emission_def constants_of_def is_global_def split: if_splits)

theorem ResurrectGlobals_exact_witness:
  "\<exists>s'. ResurrectGlobals 16 sample_emission = Some s' \<and> Alive s' 1 = AliveDefinition \<and> Alive s' 3 = AliveDefinition \<and>
     Alive s' 4 = AliveDeclaration \<and> Alive s' 5 = Dead"
proof -
  let ?s = sample_emission
  have fields: "module_globals ?s = [1, 3, 4, 5]" "is_global (Gen ?s) c \<longleftrightarrow> c \<noteq> 2"
    "Alive ?s = (\<lambda>_. Dead)(1 := AliveDefinition, 4 := AliveDeclaration)" for c
    by (auto simp: sample_emission_def module_globals_def is_global_def)
  have reached: "(uses ?s)\<^sup>* `` {1, 2, 3, 4} = {1, 2, 3, 4}" by (rule Image_closed_trancl) (auto simp: sample_emission_uses)
  have "(1, 3) \<in> (uses ?s)\<^sup>*" unfolding sample_emission_uses by (blast intro: converse_rtrancl_into_rtrancl)
  then have emitted: "1 \<in> emitted ?s" "3 \<in> emitted ?s" unfolding emitted_def fields by auto
  have "5 \<notin> emitted ?s"
  proof
    assume "5 \<in> emitted ?s"
    then have "(1, 5) \<in> (uses ?s)\<^sup>*" by (auto simp: emitted_def fields split: if_splits)
    then have "5 \<in> {1, 2, 3, 4 :: const_id}" using reached by blast
    then show False by simp
  qed
  moreover have "operands_in {1, 2, 3, 4, 5} ?s" by (auto simp: operands_in_def constants_of_def sample_emission_def)
  ultimately show ?thesis
    using ResurrectGlobals_exact[of "{1, 2, 3, 4, 5}" ?s 16] emitted unfolding fields by auto
qed

subsection \<open>Nothing that is emitted refers to what is dead\<close>

text \<open>The globals in the initializer, symbol or body of a global.\<close>

definition mentions :: "emission \<Rightarrow> const_id \<Rightarrow> const_id set" where
  "mentions s g = {h. is_global (Gen s) h \<and>
     (\<exists>c \<in> set (constants_of s g). (c, h) \<in> {(x, y). \<not> is_global (Gen s) x \<and> y \<in> set (Operands s x)}\<^sup>*)}"

lemma mentions_uses:
  assumes "h \<in> mentions s g" "is_global (Gen s) g" "Alive s g \<noteq> AliveDeclaration"
  shows "(g, h) \<in> (uses s)\<^sup>*"
proof -
  obtain c where c: "c \<in> set (constants_of s g)" "(c, h) \<in> {(x, y). \<not> is_global (Gen s) x \<and> y \<in> set (Operands s x)}\<^sup>*"
    using assms(1) by (auto simp: mentions_def)
  have "{(x, y). \<not> is_global (Gen s) x \<and> y \<in> set (Operands s x)} \<subseteq> uses s" by (auto simp: uses_def)
  then have "(c, h) \<in> (uses s)\<^sup>*" using c(2) rtrancl_mono by blast
  moreover have "(g, c) \<in> uses s" using c(1) assms(2,3) by (simp add: uses_def)
  ultimately show ?thesis by (rule converse_rtrancl_into_rtrancl[rotated])
qed

definition infos_closed :: "emission \<Rightarrow> bool" where
  "infos_closed s \<longleftrightarrow> (\<forall>f. \<forall>v \<in> set (TypeInfos s f) - set (Gone (Gen s)).
     mentions s v \<subseteq> set (TypeInfos s f) - set (Gone (Gen s)))"

definition no_dead_reference :: "emission \<Rightarrow> bool" where
  "no_dead_reference s \<longleftrightarrow> (\<forall>g \<in> set (module_globals s). Alive s g = AliveDefinition \<longrightarrow>
     (\<forall>h \<in> mentions s g. Alive s h \<noteq> Dead))"

definition marked_defined :: "const_id set \<Rightarrow> emission \<Rightarrow> emission" where
  "marked_defined V s = s\<lparr>Alive := (\<lambda>x. if x \<in> V \<and> Alive s x \<noteq> AliveDeclaration then AliveDefinition else Alive s x)\<rparr>"

lemma marked_fields [simp]:
  "Gen (marked_defined V s) = Gen s" "TypeInfos (marked_defined V s) = TypeInfos s"
  "Alive (marked_defined V s) x = (if x \<in> V \<and> Alive s x \<noteq> AliveDeclaration then AliveDefinition else Alive s x)"
  "marked_defined {} s = s" "marked_defined W (marked_defined V s) = marked_defined (V \<union> W) s"
  "mentions (marked_defined V s) = mentions s" "module_globals (marked_defined V s) = module_globals s"
  by (auto simp: marked_defined_def mentions_def constants_of_def module_globals_def fun_eq_iff intro!: emission.equality cong: if_cong)

lemma mark_infos:
  "fold (\<lambda>g s. if g \<in> set (Gone (Gen s)) \<or> Alive s g = AliveDeclaration then s else setAlive g AliveDefinition s) vs s =
    marked_defined (set vs - set (Gone (Gen s))) s"
proof (induction vs arbitrary: s)
  case (Cons v vs)
  have "(if v \<in> set (Gone (Gen s)) \<or> Alive s v = AliveDeclaration then s else setAlive v AliveDefinition s) =
      marked_defined ({v} - set (Gone (Gen s))) s"
    by (auto simp: marked_defined_def setAlive_def fun_eq_iff intro!: emission.equality)
  moreover have "({v} - A) \<union> (set vs - A) = set (v # vs) - A" for A by auto
  ultimately show ?case using Cons.IH[of "marked_defined ({v} - set (Gone (Gen s))) s"] by simp
qed simp

lemma resurrect_type_infos_marks:
  "\<exists>fs. resurrect_type_infos s = marked_defined ((\<Union>f \<in> fs. set (TypeInfos s f)) - set (Gone (Gen s))) s"
proof -
  let ?step = "\<lambda>f s. if Alive s f = Dead \<or> Alive s f = AliveDeclaration \<or> f \<notin> set (FunctionTypeInfos (Gen s)) then s
    else fold (\<lambda>g s. if g \<in> set (Gone (Gen s)) \<or> Alive s g = AliveDeclaration then s else setAlive g AliveDefinition s) (TypeInfos s f) s"
  have "\<exists>fs. fold ?step gs t = marked_defined ((\<Union>f \<in> fs. set (TypeInfos t f)) - set (Gone (Gen t))) t" for gs t
  proof (induction gs arbitrary: t)
    case Nil
    show ?case by (intro exI[of _ "{}"]) simp
  next
    case (Cons g gs)
    show ?case
    proof (cases "Alive t g = Dead \<or> Alive t g = AliveDeclaration \<or> g \<notin> set (FunctionTypeInfos (Gen t))")
      case True
      then show ?thesis using Cons.IH[of t] by simp
    next
      case False
      let ?t = "marked_defined (set (TypeInfos t g) - set (Gone (Gen t))) t"
      obtain fs where "fold ?step gs ?t = marked_defined ((\<Union>f \<in> fs. set (TypeInfos ?t f)) - set (Gone (Gen ?t))) ?t"
        using Cons.IH by blast
      moreover have "(A - G) \<union> (B - G) = (A \<union> B) - G" for A B G :: "const_id set" by auto
      ultimately show ?thesis using False mark_infos[of "TypeInfos t g" t] by (intro exI[of _ "insert g fs"]) simp
    qed
  qed
  then show ?thesis unfolding resurrect_type_infos_def .
qed

lemma ResurrectGlobals_keeps:
  assumes "walk R (s\<lparr>SeenGlobals := G, SeenOperands := C\<rparr>) s'"
  shows "Gen s' = Gen s" "mentions s' = mentions s" "TypeInfos s' = TypeInfos s" "module_globals s' = module_globals s"
proof -
  have "constants_of s' = constants_of s" "Operands s' = Operands s" using walk_keeps(2,3)[OF assms] by simp_all
  then show "Gen s' = Gen s" "mentions s' = mentions s" "TypeInfos s' = TypeInfos s" "module_globals s' = module_globals s"
    using assms by (auto simp: walk_def entered_def mentions_def module_globals_def fun_eq_iff)
qed

text \<open>
  After the walk and the marking of type infos, no definition that is emitted refers to a
  global that is not: everything in its initializer or body is defined or declared in the output.
\<close>

theorem nothing_dead_is_referred_to:
  assumes "operands_in U s" "set (module_globals s) \<subseteq> U" "\<forall>g \<in> set (module_globals s). is_global (Gen s) g"
    "\<forall>g \<in> set (module_globals s). mentions s g \<subseteq> set (module_globals s)" "infos_closed s" "3 * card U < fuel"
  shows "\<exists>s'. ResurrectGlobals fuel s = Some s' \<and> no_dead_reference (resurrect_type_infos s')"
proof -
  obtain s' where s': "ResurrectGlobals fuel s = Some s'"
    and walk: "walk (\<Union>g \<in> {g \<in> set (module_globals s). Alive s g \<noteq> Dead}. reach s g) (s\<lparr>SeenGlobals := [], SeenOperands := []\<rparr>) s'"
    using ResurrectGlobals_walk[OF assms(1-3,6)] by blast
  have marks: "Alive s' g = (if Alive s g = AliveDeclaration then AliveDeclaration else if g \<in> emitted s then AliveDefinition else Dead)"
    if "g \<in> set (module_globals s)" for g
    using ResurrectGlobals_marks[OF assms(1-3,6)] s' that by auto
  note same = ResurrectGlobals_keeps[OF walk]
  have closed: "Alive s' h \<noteq> Dead"
    if g: "g \<in> set (module_globals s)" "Alive s' g = AliveDefinition" and h: "h \<in> mentions s g" for g h
  proof -
    have "g \<in> emitted s" "Alive s g \<noteq> AliveDeclaration" using marks[OF g(1)] g(2) by (auto split: if_splits)
    moreover have "is_global (Gen s) h" using h by (simp add: mentions_def)
    ultimately have "h \<in> emitted s" using mentions_uses[OF h] g(1) assms(3) by (auto simp: emitted_def intro: rtrancl_trans)
    moreover have "h \<in> set (module_globals s)" using assms(4) g(1) h by blast
    ultimately show ?thesis using marks[of h] by (cases "Alive s h = AliveDeclaration") simp_all
  qed
  obtain fs where fs: "resurrect_type_infos s' = marked_defined ((\<Union>f \<in> fs. set (TypeInfos s' f)) - set (Gone (Gen s'))) s'"
    using resurrect_type_infos_marks by blast
  have "Alive (resurrect_type_infos s') h \<noteq> Dead"
    if g: "g \<in> set (module_globals s)" "Alive (resurrect_type_infos s') g = AliveDefinition" and h: "h \<in> mentions s g" for g h
  proof (cases "Alive s' g = AliveDefinition")
    case True
    then show ?thesis using closed[OF g(1) True h] by (simp add: fs)
  next
    case False
    then obtain f where f: "f \<in> fs" "g \<in> set (TypeInfos s f)" "g \<notin> set (Gone (Gen s))"
      using g(2) same by (auto simp: fs split: if_splits)
    then have "h \<in> set (TypeInfos s f)" "h \<notin> set (Gone (Gen s))" using assms(5) h by (auto simp: infos_closed_def)
    then show ?thesis using f(1) same by (auto simp: fs)
  qed
  then have "no_dead_reference (resurrect_type_infos s')" using same by (simp add: no_dead_reference_def fs)
  then show ?thesis using s' by blast
qed

end
