(* ===== verification/EmissionChoice.thy ===== *)
theory EmissionChoice
  imports EmissionClosure
begin

text \<open>
  Which globals of the declarations of the included files are defined in the output and which only
  declared: \<^verbatim>\<open>resurrect\<close> of \<^verbatim>\<open>tools/zapccs/CachingPassManager.cpp\<close>, and
  \<^verbatim>\<open>dependsOnEmittedFunction\<close> of \<^verbatim>\<open>tools/zapccs/DependencyMap.cpp\<close>.
\<close>

subsection \<open>Redeclarations\<close>

text \<open>From the declaration back to the first one, then from the most recent one.\<close>

partial_function (option) redecl_cycle :: "decl \<Rightarrow> decl \<Rightarrow> chains \<Rightarrow> decl list option" where
  "redecl_cycle starter d s =
     (let next = getNextRedeclaration s d
      in if next = starter then Some [d] else Option.bind (redecl_cycle starter next s) (\<lambda>ds. Some (d # ds)))"

declare redecl_cycle.simps [code]

definition redecls_of :: "decl \<Rightarrow> chains \<Rightarrow> decl list option" where
  "redecls_of d s = redecl_cycle d d s"

definition definition_is_live :: "emission \<Rightarrow> decl \<Rightarrow> bool" where
  "definition_is_live s r \<longleftrightarrow> (DefinedHere s r \<or> HasAlias s r) \<and>
     (r \<in> set (LiveDecls s) \<or>
      IsImplicit s r \<and> (case RecordContext s r of None \<Rightarrow> False | Some c \<Rightarrow> c \<in> set (LiveDecls s)))"

partial_function (option) no_definition_from :: "decl \<Rightarrow> emission \<Rightarrow> bool option" where
  "no_definition_from r s =
     (if definition_is_live s r then Some False
      else (case getPreviousDecl (DeclChains (Gen s)) r of None \<Rightarrow> Some True | Some p \<Rightarrow> no_definition_from p s))"

declare no_definition_from.simps [code]

definition isNoDefinition :: "decl \<Rightarrow> emission \<Rightarrow> bool option" where
  "isNoDefinition d s = no_definition_from (getMostRecentDecl (DeclChains (Gen s)) d) s"

subsection \<open>Variables that an emitted function uses\<close>

fun any_visit :: "('a \<Rightarrow> 's \<Rightarrow> (bool \<times> 's) option) \<Rightarrow> 'a list \<Rightarrow> 's \<Rightarrow> (bool \<times> 's) option" where
  "any_visit f [] v = Some (False, v)"
| "any_visit f (x # xs) v =
     (case f x v of None \<Rightarrow> None | Some (b, v') \<Rightarrow> if b then Some (True, v') else any_visit f xs v')"

fun dependsOnEmittedFunctionOf :: "nat \<Rightarrow> emission \<Rightarrow> decl \<Rightarrow> decl list \<Rightarrow> (bool \<times> decl list) option" where
  "dependsOnEmittedFunctionOf 0 s f visited = None"
| "dependsOnEmittedFunctionOf (Suc fuel) s f visited =
     (if f \<in> set visited then Some (False, visited)
      else if f \<notin> set (LiveDecls s) then Some (False, f # visited)
      else if AtFileScope s f \<and> SpecializationOf s f \<in> {TSK_Undeclared, TSK_ExplicitSpecialization}
      then Some (True, f # visited)
      else (case (if AtFileScope s f then Some (False, f # visited)
                  else any_visit (dependsOnEmittedFunctionOf fuel s) (VirtualSiblings s f) (f # visited)) of
              None \<Rightarrow> None
            | Some (b, v) \<Rightarrow> if b then Some (True, v)
                else any_visit (dependsOnEmittedFunctionOf fuel s) (DependentFunctions s f) v))"

declare dependsOnEmittedFunctionOf.simps(2) [simp del]

definition dependsOnEmittedFunction :: "nat \<Rightarrow> emission \<Rightarrow> decl \<Rightarrow> bool option" where
  "dependsOnEmittedFunction fuel s v =
     map_option fst (any_visit (dependsOnEmittedFunctionOf fuel s) (DependentFunctions s v) [])"

subsection \<open>The decisions\<close>

definition setGlobalValues :: "decl \<Rightarrow> bool \<Rightarrow> emission \<Rightarrow> emission option" where
  "setGlobalValues d declaration s =
     Option.bind (redecls_of d (DeclChains (Gen s)))
       (\<lambda>rs. Some (fold (\<lambda>g. setAlive g (if declaration \<and> LinkageOf (Gen s) g \<noteq> InternalLinkage
                                        then AliveDeclaration else AliveDefinition))
                     (concat (map (\<lambda>r. getDeclGlobalValues r (Gen s)) rs)) s))"

text \<open>The members of live specializations are decided, too.\<close>

partial_function (option) add_members :: "nat \<Rightarrow> emission \<Rightarrow> decl list \<Rightarrow> decl list option" where
  "add_members i s ds =
     (if i < length ds then add_members (Suc i) s (fold set_add (SpecializationMembers s (ds ! i)) ds) else Some ds)"

declare add_members.simps [code]

definition decls_to_decide :: "emission \<Rightarrow> decl list option" where
  "decls_to_decide s =
     Option.bind (add_members 0 s (fold set_add (LiveDecls s) []))
       (\<lambda>ds. Some (filter (\<lambda>d. \<not> (IsFriend s d \<or> InFunction s d)) ds))"

definition emit_erased ::
  "(decl \<Rightarrow> nat \<Rightarrow> emission \<Rightarrow> emission) \<Rightarrow> decl \<Rightarrow> emission \<Rightarrow> emission option"
where
  "emit_erased EmitGlobal d s =
     (if DeclSort (Gen s) d = FunctionSort \<and> d \<in> set (ErasedDeferred (Gen s))
      then (case GlobalDeclsOf s d of
              None \<Rightarrow> None
            | Some gds \<Rightarrow>
                (let s' = fold (EmitGlobal d) (rev gds) s
                 in Some (s'\<lparr>Gen := (Gen s')\<lparr>ErasedDeferred := removeAll d (ErasedDeferred (Gen s'))\<rparr>\<rparr>)))
      else Some s)"

definition decide_variable :: "nat \<Rightarrow> decl \<Rightarrow> emission \<Rightarrow> emission option" where
  "decide_variable fuel d s =
     Option.bind (redecls_of d (DeclChains (Gen s))) (\<lambda>rs.
       if list_ex (OutOfLineMemberInstance s) rs
       then (if SpecializationOf s d = TSK_ExplicitInstantiationDefinition then setGlobalValues d False s
             else Option.bind (dependsOnEmittedFunction fuel s d)
                    (\<lambda>b. if b then setGlobalValues d False s else Some s))
       else if ThreadLocal s d then Some s
       else Option.bind (isNoDefinition d s) (\<lambda>b. setGlobalValues d b s))"

definition decide_function :: "decl \<Rightarrow> emission \<Rightarrow> emission option" where
  "decide_function d s =
     Option.bind (isNoDefinition d s) (\<lambda>b.
       if b then setGlobalValues d True s
       else if BodyHere s d \<and> NotDiscardable s d then setGlobalValues d False s else Some s)"

definition decide_class :: "decl \<Rightarrow> emission \<Rightarrow> emission option" where
  "decide_class d s =
     (if IsDynamicClass s d
      then (case KeyFunction s d of
              None \<Rightarrow> Some s
            | Some k \<Rightarrow> Option.bind (isNoDefinition k s) (\<lambda>b. setGlobalValues d b s))
      else Some s)"

definition decide :: "nat \<Rightarrow> decl \<Rightarrow> emission \<Rightarrow> emission option" where
  "decide fuel d s =
     (if HasAlias s d \<or> HasUsed s d
      then (if DeclSort (Gen s) d = FunctionSort \<and> IsInstantiation s d then Some s else setGlobalValues d False s)
      else (case DeclSort (Gen s) d of
              VariableSort \<Rightarrow> decide_variable fuel d s
            | FunctionSort \<Rightarrow> decide_function d s
            | OtherSort \<Rightarrow> decide_class d s))"

text \<open>The whole of it; what the code generator does when it is released is a parameter.\<close>

definition resurrect ::
  "nat \<Rightarrow> (decl \<Rightarrow> nat \<Rightarrow> emission \<Rightarrow> emission) \<Rightarrow> (emission \<Rightarrow> emission) \<Rightarrow> emission \<Rightarrow> emission option"
where
  "resurrect fuel EmitGlobal Release s =
     Option.bind (decls_to_decide s) (\<lambda>ds.
     Option.bind (for_each (emit_erased EmitGlobal) ds s) (\<lambda>s1.
     Option.bind (for_each (decide fuel) ds s1) (\<lambda>s2.
     Option.bind (ResurrectGlobals fuel (Release s2)) (\<lambda>s3. Some (resurrect_type_infos s3)))))"

subsection \<open>Chains\<close>

lemma redecls_of_down:
  assumes "linked s f xs" "st \<notin> set (f # xs)"
  shows "redecl_cycle st (last (f # xs)) s =
    (if getNextRedeclaration s f = st then Some (rev (f # xs))
     else Option.bind (redecl_cycle st (getNextRedeclaration s f) s) (\<lambda>ds. Some (rev (f # xs) @ ds)))"
  using assms
proof (induction xs rule: rev_induct)
  case Nil
  then show ?case by (subst redecl_cycle.simps) (simp add: Let_def)
next
  case (snoc x xs)
  have "RedeclLink s x = Previous (last (f # xs))" using snoc.prems(1) by (simp add: linked_append)
  then have nxt: "getNextRedeclaration s x = last (f # xs)" by (simp add: getNextRedeclaration_def)
  have "last (f # xs) \<noteq> st" using snoc.prems(2) last_in_set[of "f # xs"] by auto
  moreover have "linked s f xs" "st \<notin> set (f # xs)" using snoc.prems by (simp_all add: linked_append)
  ultimately show ?case
    using snoc.IH nxt by (subst redecl_cycle.simps) (cases "redecl_cycle st (getNextRedeclaration s f) s"; simp add: Let_def)
qed

lemma redecls_of_back:
  assumes "linked s st ys" "ys \<noteq> []" "distinct (st # ys)"
  shows "redecl_cycle st (last ys) s = Some (rev ys)"
  using assms
proof (induction ys rule: rev_induct)
  case (snoc x ys)
  have "RedeclLink s x = Previous (last (st # ys))" using snoc.prems(1) by (simp add: linked_append)
  then have nxt: "getNextRedeclaration s x = last (st # ys)" by (simp add: getNextRedeclaration_def)
  show ?case
  proof (cases "ys = []")
    case True
    then show ?thesis using nxt by (subst redecl_cycle.simps) (simp add: Let_def)
  next
    case False
    then have "last ys \<noteq> st" using snoc.prems(3) last_in_set[of ys] by auto
    moreover have "redecl_cycle st (last ys) s = Some (rev ys)" using snoc.IH snoc.prems False by (simp add: linked_append)
    ultimately show ?thesis using nxt False by (subst redecl_cycle.simps) (simp add: Let_def)
  qed
qed simp

lemma redecls_of_chain:
  assumes "chain s ds" "d \<in> set ds"
  shows "\<exists>rs. redecls_of d s = Some rs \<and> set rs = set ds"
proof -
  obtain f fs where ds: "ds = f # fs" using assms(2) by (cases ds) auto
  have c: "distinct (f # fs)" "linked s f fs" "getNextRedeclaration s f = last (f # fs)" using assms(1) ds by simp_all
  show ?thesis
  proof (cases "d = f")
    case True
    show ?thesis
    proof (cases "fs = []")
      case True
      then show ?thesis using \<open>d = f\<close> ds c(3) unfolding redecls_of_def by (subst redecl_cycle.simps) simp
    next
      case False
      then have "redecl_cycle f (last fs) s = Some (rev fs)" "last fs \<noteq> f"
        using redecls_of_back[OF c(2) _ c(1)] c(1) last_in_set[of fs] by auto
      then show ?thesis using False \<open>d = f\<close> ds c(3) unfolding redecls_of_def by (subst redecl_cycle.simps) (simp add: Let_def)
    qed
  next
    case False
    then obtain xs ys where fs: "fs = xs @ d # ys" using assms(2) ds by (auto dest: split_list)
    have l: "linked s f xs" "RedeclLink s d = Previous (last (f # xs))" "linked s d ys" "d \<notin> set (f # xs)" "distinct (d # ys)"
      using c(1,2) fs by (auto simp: linked_append)
    have nxt: "getNextRedeclaration s d = last (f # xs)" using l(2) by (simp add: getNextRedeclaration_def)
    have "last (f # xs) \<noteq> d" using l(4) last_in_set[of "f # xs"] by auto
    then have "redecls_of d s = Option.bind (redecl_cycle d (last (f # xs)) s) (\<lambda>ds. Some (d # ds))"
      using nxt unfolding redecls_of_def by (subst redecl_cycle.simps) (simp add: Let_def)
    moreover have "getNextRedeclaration s f = (if ys = [] then d else last ys)" using c(3) fs by simp
    moreover have "ys \<noteq> [] \<Longrightarrow> last ys \<noteq> d" using l(5) last_in_set[of ys] by auto
    ultimately show ?thesis
      using redecls_of_down[OF l(1,4)] redecls_of_back[OF l(3) _ l(5)] ds fs by (cases "ys = []") (auto simp: Let_def)
  qed
qed

lemma no_definition_linked:
  assumes "linked (DeclChains (Gen s)) f ds" "\<not> NextIsPrevious (RedeclLink (DeclChains (Gen s)) f)"
  shows "no_definition_from (last (f # ds)) s = Some (\<forall>r \<in> set (f # ds). \<not> definition_is_live s r)"
  using assms
proof (induction ds rule: rev_induct)
  case Nil
  then show ?case by (subst no_definition_from.simps) (simp add: getPreviousDecl_def)
next
  case (snoc x xs)
  have "getPreviousDecl (DeclChains (Gen s)) x = Some (last (f # xs))" using linked_previous[OF snoc.prems(1)] .
  moreover have "linked (DeclChains (Gen s)) f xs" using snoc.prems(1) by (simp add: linked_append)
  ultimately show ?case using snoc.IH snoc.prems(2) by (subst no_definition_from.simps) auto
qed

lemma isNoDefinition_chain:
  assumes "chain (DeclChains (Gen s)) ds" "d \<in> set ds"
  shows "isNoDefinition d s = Some (\<forall>r \<in> set ds. \<not> definition_is_live s r)"
proof -
  obtain f fs where ds: "ds = f # fs" using assms(2) by (cases ds) auto
  have "getMostRecentDecl (DeclChains (Gen s)) d = last (f # fs)" using chain_ends(3) assms ds by simp
  then show ?thesis using no_definition_linked[of s f fs] assms(1) ds
    by (simp add: isNoDefinition_def del: last.simps)
qed

subsection \<open>The search for an emitted function\<close>

definition search_next :: "emission \<Rightarrow> decl \<Rightarrow> decl list" where
  "search_next s f = (if AtFileScope s f then [] else VirtualSiblings s f) @ DependentFunctions s f"

definition surely_emitted :: "emission \<Rightarrow> decl \<Rightarrow> bool" where
  "surely_emitted s f \<longleftrightarrow> f \<in> set (LiveDecls s) \<and> AtFileScope s f \<and>
     SpecializationOf s f \<in> {TSK_Undeclared, TSK_ExplicitSpecialization}"

definition search_edges :: "emission \<Rightarrow> (decl \<times> decl) set" where
  "search_edges s = {(f, g). f \<in> set (LiveDecls s) \<and> g \<in> set (search_next s f)}"

definition finds_emitted :: "emission \<Rightarrow> decl \<Rightarrow> bool" where
  "finds_emitted s f \<longleftrightarrow> (\<exists>e. (f, e) \<in> (search_edges s)\<^sup>* \<and> surely_emitted s e)"

definition explored :: "emission \<Rightarrow> decl list \<Rightarrow> decl list \<Rightarrow> bool" where
  "explored s V V' \<longleftrightarrow> set V \<subseteq> set V' \<and> (\<forall>x \<in> set V' - set V. \<not> surely_emitted s x \<and>
     (x \<in> set (LiveDecls s) \<longrightarrow> set (search_next s x) \<subseteq> set V'))"

lemma explored_refl: "explored s V V"
  by (simp add: explored_def)

lemma explored_trans: "explored s V V1 \<Longrightarrow> explored s V1 V2 \<Longrightarrow> explored s V V2"
  unfolding explored_def by blast

definition search_result :: "emission \<Rightarrow> decl list \<Rightarrow> decl list \<Rightarrow> bool \<Rightarrow> decl list \<Rightarrow> bool" where
  "search_result s fs V b V' \<longleftrightarrow> set V \<subseteq> set V' \<and> (b \<longrightarrow> (\<exists>f \<in> set fs. finds_emitted s f)) \<and>
     (\<not> b \<longrightarrow> set fs \<subseteq> set V' \<and> explored s V V')"

lemma any_visit_search:
  assumes "\<forall>f \<in> set fs. \<forall>V1. set V \<subseteq> set V1 \<longrightarrow> (\<exists>b V2. visit f V1 = Some (b, V2) \<and> search_result s [f] V1 b V2)"
  shows "\<exists>b V'. any_visit visit fs V = Some (b, V') \<and> search_result s fs V b V'"
  using assms
proof (induction fs arbitrary: V)
  case Nil
  show ?case by (intro exI[of _ False] exI[of _ V]) (simp add: search_result_def explored_refl)
next
  case (Cons f fs)
  obtain b V1 where f: "visit f V = Some (b, V1)" "search_result s [f] V b V1"
    using Cons.prems[THEN bspec, of f, THEN spec, of V] by auto
  have V1: "set V \<subseteq> set V1" using f(2) by (simp add: search_result_def)
  show ?case
  proof (cases b)
    case True
    then show ?thesis using f by (auto simp: search_result_def)
  next
    case False
    have "\<forall>g \<in> set fs. \<forall>V2. set V1 \<subseteq> set V2 \<longrightarrow> (\<exists>b V3. visit g V2 = Some (b, V3) \<and> search_result s [g] V2 b V3)"
      by (intro ballI allI impI) (rule Cons.prems[THEN bspec, THEN spec, THEN mp], use V1 in auto)
    from Cons.IH[OF this] obtain b' V' where r: "any_visit visit fs V1 = Some (b', V')" "search_result s fs V1 b' V'" by blast
    then have "search_result s (f # fs) V b' V'"
      using f(2) False explored_trans[of s V V1 V'] by (auto simp: search_result_def)
    then show ?thesis using f(1) False r(1) by simp
  qed
qed

lemma finds_emitted_next: "f \<in> set (LiveDecls s) \<Longrightarrow> g \<in> set (search_next s f) \<Longrightarrow> finds_emitted s g \<Longrightarrow> finds_emitted s f"
  unfolding finds_emitted_def search_edges_def by (blast intro: converse_rtrancl_into_rtrancl)

text \<open>A function that was entered, and the search from what comes next.\<close>

lemma search_enter:
  assumes "f \<notin> set V" "f \<in> set (LiveDecls s)" "\<not> surely_emitted s f" "search_result s gs (f # V) b1 V1"
    "b1 \<Longrightarrow> b" "set gs \<subseteq> set (search_next s f)"
    "\<not> b1 \<Longrightarrow> search_result s hs V1 b V' \<and> set gs \<union> set hs = set (search_next s f)" "b1 \<Longrightarrow> V' = V1"
  shows "search_result s [f] V b V'"
proof (cases b1)
  case True
  then show ?thesis using assms(4-6,8) finds_emitted_next[OF assms(2)] by (auto simp: search_result_def)
next
  case False
  then have r: "search_result s hs V1 b V'" "set gs \<union> set hs = set (search_next s f)" using assms(7) by simp_all
  have V: "set (f # V) \<subseteq> set V1" "set V1 \<subseteq> set V'" using assms(4) r(1) by (simp_all add: search_result_def)
  show ?thesis
  proof (cases b)
    case True
    then obtain h where "h \<in> set hs" "finds_emitted s h" using r(1) by (auto simp: search_result_def)
    moreover have "h \<in> set (search_next s f)" using \<open>h \<in> set hs\<close> r(2) by blast
    ultimately show ?thesis using finds_emitted_next[OF assms(2)] V True by (auto simp: search_result_def)
  next
    case no: False
    have parts: "explored s (f # V) V1" "explored s V1 V'" "set gs \<subseteq> set V1" "set hs \<subseteq> set V'"
      using assms(4) r(1) False no by (simp_all add: search_result_def)
    have "explored s (f # V) V'" using explored_trans[OF parts(1,2)] .
    moreover have "set (search_next s f) \<subseteq> set V'" unfolding r(2)[symmetric] using parts(3,4) V(2) by blast
    ultimately have "explored s (f # V) V' \<and> set (search_next s f) \<subseteq> set V'" ..
    then have "explored s V V'" using assms(3) V unfolding explored_def by auto
    then show ?thesis using no V by (auto simp: search_result_def)
  qed
qed

lemma search_terminates:
  assumes "finite U" "\<forall>f \<in> U. set (search_next s f) \<subseteq> U"
  shows "f \<in> U \<Longrightarrow> card (U - set V) < fuel \<Longrightarrow>
    \<exists>b V'. dependsOnEmittedFunctionOf fuel s f V = Some (b, V') \<and> search_result s [f] V b V'"
proof (induction fuel arbitrary: f V)
  case 0
  then show ?case by simp
next
  case (Suc n)
  show ?case
  proof (cases "f \<in> set V \<or> f \<notin> set (LiveDecls s) \<or> surely_emitted s f")
    case True
    then show ?thesis
      by (auto simp: dependsOnEmittedFunctionOf.simps search_result_def explored_def surely_emitted_def finds_emitted_def)
  next
    case False
    let ?gs = "if AtFileScope s f then [] else VirtualSiblings s f" and ?hs = "DependentFunctions s f"
    have "f \<in> U - set V" using False Suc.prems(1) by blast
    moreover have "U - set (f # V) = (U - set V) - {f}" by auto
    ultimately have "Suc (card (U - set (f # V))) = card (U - set V)"
      using card_Suc_Diff1[of "U - set V" f] assms(1) by simp
    then have less: "card (U - set (f # V)) < n" using Suc.prems(2) by simp
    have visit: "\<exists>b V2. dependsOnEmittedFunctionOf n s g V1 = Some (b, V2) \<and> search_result s [g] V1 b V2"
      if g: "g \<in> set (search_next s f)" and V1: "set (f # V) \<subseteq> set V1" for g V1
    proof (rule Suc.IH)
      show "g \<in> U" using g assms(2) Suc.prems(1) by blast
      have "card (U - set V1) \<le> card (U - set (f # V))" using assms(1) V1 by (intro card_mono) auto
      then show "card (U - set V1) < n" using less by simp
    qed
    have parts: "set ?gs \<subseteq> set (search_next s f)" "set ?hs \<subseteq> set (search_next s f)" "set ?gs \<union> set ?hs = set (search_next s f)"
      by (auto simp: search_next_def)
    obtain b1 V1 where 1: "any_visit (dependsOnEmittedFunctionOf n s) ?gs (f # V) = Some (b1, V1)" "search_result s ?gs (f # V) b1 V1"
      using any_visit_search[of ?gs "f # V" "dependsOnEmittedFunctionOf n s" s] visit parts(1) by blast
    have V1: "set (f # V) \<subseteq> set V1" using 1(2) by (simp add: search_result_def)
    have "\<forall>g \<in> set ?hs. \<forall>V2. set V1 \<subseteq> set V2 \<longrightarrow>
        (\<exists>b V3. dependsOnEmittedFunctionOf n s g V2 = Some (b, V3) \<and> search_result s [g] V2 b V3)"
      using visit parts(2) V1 by (meson subset_trans subsetD)
    then obtain b2 V2 where 2: "any_visit (dependsOnEmittedFunctionOf n s) ?hs V1 = Some (b2, V2)" "search_result s ?hs V1 b2 V2"
      using any_visit_search[of ?hs V1 "dependsOnEmittedFunctionOf n s" s] by blast
    have "(if AtFileScope s f then Some (False, f # V) else any_visit (dependsOnEmittedFunctionOf n s) (VirtualSiblings s f) (f # V)) = Some (b1, V1)"
      using 1(1) by (cases "AtFileScope s f") simp_all
    then have result: "dependsOnEmittedFunctionOf (Suc n) s f V = Some (if b1 then (True, V1) else (b2, V2))"
      using False 2(1) unfolding dependsOnEmittedFunctionOf.simps surely_emitted_def by auto
    have "search_result s [f] V (b1 \<or> b2) (if b1 then V1 else V2)"
      by (rule search_enter[OF _ _ _ 1(2) _ parts(1), where hs = ?hs]) (use False 2(2) parts(3) in \<open>simp_all split: if_splits\<close>)
    then show ?thesis using result
      by (intro exI[of _ "b1 \<or> b2"] exI[of _ "if b1 then V1 else V2"]) (simp split: if_split)
  qed
qed

lemma explored_all:
  assumes "explored s [] V" "(f, e) \<in> (search_edges s)\<^sup>*" "f \<in> set V"
  shows "e \<in> set V \<and> \<not> surely_emitted s e"
  using assms(2,3)
proof (induction rule: rtrancl_induct)
  case base
  then show ?case using assms(1) by (simp add: explored_def)
next
  case (step y z)
  then have "z \<in> set V" using assms(1) by (auto simp: explored_def search_edges_def)
  then show ?case using assms(1) by (simp add: explored_def)
qed

lemma dependsOnEmittedFunction_finds:
  assumes "finite U" "\<forall>f \<in> U. set (search_next s f) \<subseteq> U" "set (DependentFunctions s v) \<subseteq> U" "card U < fuel"
  shows "dependsOnEmittedFunction fuel s v = Some (\<exists>f \<in> set (DependentFunctions s v). finds_emitted s f)"
proof -
  have "\<exists>b V2. dependsOnEmittedFunctionOf fuel s f V1 = Some (b, V2) \<and> search_result s [f] V1 b V2"
    if "f \<in> set (DependentFunctions s v)" for f V1
  proof (rule search_terminates[OF assms(1,2)])
    show "f \<in> U" using that assms(3) by blast
    have "card (U - set V1) \<le> card U" using assms(1) by (intro card_mono) auto
    then show "card (U - set V1) < fuel" using assms(4) by simp
  qed
  then obtain b V where r: "any_visit (dependsOnEmittedFunctionOf fuel s) (DependentFunctions s v) [] = Some (b, V)"
    "search_result s (DependentFunctions s v) [] b V"
    using any_visit_search[of "DependentFunctions s v" "[]" "dependsOnEmittedFunctionOf fuel s" s] by blast
  have "b" if "f \<in> set (DependentFunctions s v)" "finds_emitted s f" for f
    using r(2) that explored_all[of s V f] by (auto simp: search_result_def finds_emitted_def)
  then have "b \<longleftrightarrow> (\<exists>f \<in> set (DependentFunctions s v). finds_emitted s f)" using r(2) by (auto simp: search_result_def)
  then show ?thesis using r(1) by (simp add: dependsOnEmittedFunction_def)
qed

text \<open>
  The search for an emitted function that uses a variable ends, and finds one exactly
  when a chain of live functions leads to one: over the functions that depend on a function, and
  from a virtual member function to the others of its class.
\<close>

theorem dependsOnEmittedFunction_exact:
  assumes "finite U" "\<forall>f \<in> U. set (search_next s f) \<subseteq> U" "set (DependentFunctions s v) \<subseteq> U" "card U < fuel"
  shows "dependsOnEmittedFunction fuel s v =
    Some (\<exists>f \<in> set (DependentFunctions s v). \<exists>e. (f, e) \<in> (search_edges s)\<^sup>* \<and> surely_emitted s e)"
  using dependsOnEmittedFunction_finds[OF assms] by (simp add: finds_emitted_def)

subsection \<open>What a decision changes\<close>

text \<open>The globals that the redeclarations of a chain have.\<close>

definition chain_globals :: "emission \<Rightarrow> decl list \<Rightarrow> const_id set" where
  "chain_globals s ds = (\<Union>d \<in> set ds. set (getDeclGlobalValues d (Gen s)))"

definition mark_as :: "(const_id \<Rightarrow> aliveness) \<Rightarrow> const_id set \<Rightarrow> emission \<Rightarrow> emission" where
  "mark_as a V s = s\<lparr>Alive := (\<lambda>g. if g \<in> V then a g else Alive s g)\<rparr>"

lemma mark_as_fold: "fold (\<lambda>g. setAlive g (a g)) gs s = mark_as a (set gs) s"
proof (induction gs arbitrary: s)
  case (Cons g gs)
  have "mark_as a (set gs) (setAlive g (a g) s) = mark_as a (set (g # gs)) s"
    by (auto simp: mark_as_def setAlive_def fun_eq_iff intro!: emission.equality)
  then show ?case using Cons by simp
qed (simp add: mark_as_def)

lemma mark_as_selectors [simp]:
  "Gen (mark_as a V s) = Gen s" "LiveDecls (mark_as a V s) = LiveDecls s" "KeyFunction (mark_as a V s) = KeyFunction s"
  "HasAlias (mark_as a V s) = HasAlias s" "HasUsed (mark_as a V s) = HasUsed s" "BodyHere (mark_as a V s) = BodyHere s"
  "NotDiscardable (mark_as a V s) = NotDiscardable s" "DependentFunctions (mark_as a V s) = DependentFunctions s"
  "AtFileScope (mark_as a V s) = AtFileScope s" "SpecializationOf (mark_as a V s) = SpecializationOf s"
  "VirtualSiblings (mark_as a V s) = VirtualSiblings s" "DefinedHere (mark_as a V s) = DefinedHere s"
  "IsImplicit (mark_as a V s) = IsImplicit s" "RecordContext (mark_as a V s) = RecordContext s"
  "Alive (mark_as a V s) g = (if g \<in> V then a g else Alive s g)" "mark_as a {} s = s"
  by (simp_all add: mark_as_def)

lemma mark_as_globals [simp]:
  "definition_is_live (mark_as a V s) = definition_is_live s" "chain_globals (mark_as a V s) = chain_globals s"
  unfolding definition_is_live_def chain_globals_def mark_as_selectors by simp_all

lemma depends_mark_as [simp]: "dependsOnEmittedFunctionOf fuel (mark_as a V s) = dependsOnEmittedFunctionOf fuel s"
proof (induction fuel)
  case 0
  show ?case by (intro ext) simp
next
  case (Suc n)
  show ?case by (intro ext) (unfold dependsOnEmittedFunctionOf.simps mark_as_selectors Suc, rule refl)
qed

definition definedness :: "bool \<Rightarrow> emission \<Rightarrow> const_id \<Rightarrow> aliveness" where
  "definedness declaration s g =
     (if declaration \<and> LinkageOf (Gen s) g \<noteq> InternalLinkage then AliveDeclaration else AliveDefinition)"

lemma setGlobalValues_chain:
  assumes "chain (DeclChains (Gen s)) ds" "d \<in> set ds"
  shows "setGlobalValues d b s = Some (mark_as (definedness b s) (chain_globals s ds) s)"
proof -
  obtain rs where rs: "redecls_of d (DeclChains (Gen s)) = Some rs" "set rs = set ds" using redecls_of_chain[OF assms] by blast
  have "set (concat (map (\<lambda>r. getDeclGlobalValues r (Gen s)) rs)) = chain_globals s ds"
    using rs(2) by (auto simp: chain_globals_def)
  moreover have "fold (\<lambda>g. setAlive g (if b \<and> LinkageOf (Gen s) g \<noteq> InternalLinkage then AliveDeclaration else AliveDefinition)) gs s =
      mark_as (definedness b s) (set gs) s" for gs
    using mark_as_fold[of "definedness b s" gs s] by (simp add: definedness_def)
  ultimately show ?thesis using rs(1) by (simp add: setGlobalValues_def del: set_concat)
qed

text \<open>A declaration can be decided when it and its key function are in chains, and the search ends.\<close>

definition decidable :: "nat \<Rightarrow> emission \<Rightarrow> decl \<Rightarrow> bool" where
  "decidable fuel s d \<longleftrightarrow> (\<exists>ds. chain (DeclChains (Gen s)) ds \<and> d \<in> set ds) \<and>
     (\<forall>k. KeyFunction s d = Some k \<longrightarrow> (\<exists>ks. chain (DeclChains (Gen s)) ks \<and> k \<in> set ks)) \<and>
     dependsOnEmittedFunction fuel s d \<noteq> None"

lemma decide_changes:
  assumes "decidable fuel s d" "chain (DeclChains (Gen s)) ds" "d \<in> set ds"
  shows "\<exists>b V. decide fuel d s = Some (mark_as (definedness b s) V s) \<and> V \<subseteq> chain_globals s ds"
proof -
  note set_chain = setGlobalValues_chain[OF assms(2,3)]
  have same: "\<exists>b V. Some s = Some (mark_as (definedness b s) V s) \<and> V \<subseteq> chain_globals s ds"
    by (rule exI[of _ False], rule exI[of _ "{}"]) simp
  have marks: "\<exists>b' V. setGlobalValues d b s = Some (mark_as (definedness b' s) V s) \<and> V \<subseteq> chain_globals s ds" for b
    using set_chain[of b] by blast
  obtain rs where rs: "redecls_of d (DeclChains (Gen s)) = Some rs" using redecls_of_chain[OF assms(2,3)] by blast
  obtain e where e: "dependsOnEmittedFunction fuel s d = Some e" using assms(1) by (auto simp: decidable_def)
  have "\<exists>b V. decide_variable fuel d s = Some (mark_as (definedness b s) V s) \<and> V \<subseteq> chain_globals s ds"
    unfolding decide_variable_def rs e isNoDefinition_chain[OF assms(2,3)] Option.bind.simps(2) using same marks by simp
  moreover have "\<exists>b V. decide_function d s = Some (mark_as (definedness b s) V s) \<and> V \<subseteq> chain_globals s ds"
    unfolding decide_function_def isNoDefinition_chain[OF assms(2,3)] Option.bind.simps(2) using same marks by simp
  moreover have "\<exists>b V. decide_class d s = Some (mark_as (definedness b s) V s) \<and> V \<subseteq> chain_globals s ds"
  proof (cases "IsDynamicClass s d \<and> KeyFunction s d \<noteq> None")
    case True
    then obtain k ks where "KeyFunction s d = Some k" "chain (DeclChains (Gen s)) ks" "k \<in> set ks"
      using assms(1) by (auto simp: decidable_def simp del: chain.simps)
    then show ?thesis using True marks isNoDefinition_chain[of s ks k] unfolding decide_class_def by simp
  qed (use same in \<open>auto simp: decide_class_def\<close>)
  ultimately show ?thesis unfolding decide_def using same marks by (simp split: decl_sort.split)
qed

lemma decidable_mark_as [simp]: "decidable fuel (mark_as a V s) d = decidable fuel s d"
  by (simp add: decidable_def dependsOnEmittedFunction_def)

lemma definedness_mark_as [simp]: "definedness b (mark_as a V s) = definedness b s"
  by (simp add: definedness_def fun_eq_iff)

end
