(* ===== verification/Spec2Isabelle.thy ===== *)
theory Spec2Isabelle
  imports Prelude StringRefs Paths Wildcard Config Options Compiler ServerLoop Client
    FDMapping Ast Dependees DepMap Replacer Users Collect
    Demangler DemanglerSafe DemanglerFaults DemanglerNames DemangleSymbols
    RedeclChains DeclLists LookupTables Redeclarations
    Macros MacroErasure MacroUnload Traversal IncludeCache FoldingSets FoldingSetOps FoldingSetMaps FoldingSetIds
    TypeTables TypeSharing TypeRequests TypeUnloading TypeReports
    ModuleConstants ModuleErasure ModuleDecls Specializations
    Emission EmissionClosure EmissionChoice
begin

text \<open>
  \<^bold>\<open>zapcc, the caching C++ compiler: what it adds to clang.\<close>

  A client (\<^verbatim>\<open>tools/zapcc\<close>) looks like a compiler to the build system. It sends its command line to
  a server (\<^verbatim>\<open>tools/zapccs\<close>) that keeps one instance of clang between compilations, with everything
  the headers of earlier compilations declared. After a compilation the server unloads what must
  not be seen by the next one: the main file, the files that wildcard patterns select, and every
  declaration that depends on what is unloaded. The next compilation replays the inclusions of the
  files that stayed, and starts afresh when a macro that was looked at has changed.

  \<^bold>\<open>The parts, in the order of the theories.\<close>

  \<^item> \<^bold>\<open>Text\<close>. \<open>StringRefs\<close> (\<^verbatim>\<open>StringRef.h\<close>, \<^verbatim>\<open>StringRef.cpp\<close>: searching, splitting, integers at 64 bits
    with the overflow the code tests for), \<open>Paths\<close> (\<^verbatim>\<open>lib/Support/Path.cpp\<close>: iterators over the
    components of a path in both directions, file names, \<^verbatim>\<open>remove_dots\<close>).
  \<^item> \<^bold>\<open>Selection and configuration\<close>. \<open>Wildcard\<close> (\<^verbatim>\<open>UnloadSelector.cpp\<close>: the matcher against the
    language of a pattern, the list of signed patterns), \<open>Config\<close> (\<^verbatim>\<open>ZapccConfig.cpp\<close>: sections, and the
    round trip with a printer of sections), \<open>Options\<close> (\<^verbatim>\<open>StringConst.cpp\<close>, switches).
  \<^item> \<^bold>\<open>Client and server\<close>. \<open>Compiler\<close> (\<^verbatim>\<open>CachingCompiler.cpp\<close>, when the kept instance can be used
    again), \<open>ServerLoop\<close> (\<^verbatim>\<open>ZapccsMain.cpp\<close>: one request as a function from the state of the server
    and the lines received to an answer, the history of arguments, exit codes), \<open>Client\<close>
    (\<^verbatim>\<open>Client.cpp\<close>: connecting with retries, encoding the command, reading the output until the exit
    code). The properties of \<open>Client\<close> compose with those of \<open>ServerLoop\<close>: the client returns the code
    the server computed, and falls back to the compiler when there is no server.
  \<^item> \<^bold>\<open>Dependencies\<close>. \<open>Ast\<close> (the nodes), \<open>Dependees\<close> (the visitors of \<^verbatim>\<open>DependencyMap.cpp\<close>: what a
    node depends on), \<open>FDMapping\<close> (\<^verbatim>\<open>FDMapping.h\<close>: files and declarations), \<open>DepMap\<close> (the graph of
    dependents, its update after a compilation), \<open>Users\<close> (modified files, replacement of an
    unloaded redeclaration by one that stays), \<open>Replacer\<close> (\<^verbatim>\<open>UserReplacer.cpp\<close>: rewiring the users),
    \<open>Collect\<close> (\<^verbatim>\<open>collectUsers\<close> and \<^verbatim>\<open>removeUsers\<close> against reachability in the graph).
  \<^item> \<^bold>\<open>Unloading declarations\<close>. \<open>RedeclChains\<close> (\<^verbatim>\<open>Redeclarable.h\<close>), \<open>DeclLists\<close> (linked lists of the
    declarations of a context), \<open>LookupTables\<close> (stored declarations of contexts), \<open>Redeclarations\<close> (the
    three together, in \<^verbatim>\<open>VisitRedeclarable\<close>).
  \<^item> \<^bold>\<open>Unloading macros, files of a compilation\<close>. \<open>Macros\<close>, \<open>MacroErasure\<close>, \<open>MacroUnload\<close> (histories
    of directives, the records by which the directives of a file are found again), \<open>Traversal\<close> and
    \<open>IncludeCache\<close> (the graph of inclusions, its replay, the values of watched macros).
  \<^item> \<^bold>\<open>Hash tables\<close>. \<open>FoldingSets\<close> (\<^verbatim>\<open>lib/Support/FoldingSet.cpp\<close>: identities, buckets whose lists go
    through the nodes, growth, removal, iteration), \<open>FoldingSetOps\<close> (each operation on well-formed
    tables), \<open>FoldingSetMaps\<close> (sequences of operations against a map), \<open>FoldingSetIds\<close> (the bits of
    strings), \<open>Specializations\<close> (a folding set with a list, in which a template has its
    specializations, and how the list follows when redeclarations of one are unloaded).
  \<^item> \<^bold>\<open>Types\<close>. \<open>TypeTables\<close> (\<^verbatim>\<open>ASTContext.cpp\<close>: the functions that make types, one for each class, and
    the tables in which equal types are found again; \<^verbatim>\<open>Unloader.cpp\<close>: taking types out of the tables),
    \<open>TypeSharing\<close> and \<open>TypeRequests\<close> (well-formed tables and every function that makes types),
    \<open>TypeUnloading\<close> (compilations, erasing, comparison by address), \<open>TypeReports\<close> (the list of new
    types that the dependency map reads; the tables as folding sets).
  \<^item> \<^bold>\<open>Unloading code\<close>. \<open>ModuleConstants\<close>, \<open>ModuleErasure\<close>, \<open>ModuleDecls\<close> (\<^verbatim>\<open>UnloaderIR.cpp\<close>: globals and
    constants of the module that is kept, with use lists and reference counts). \<open>Emission\<close>,
    \<open>EmissionClosure\<close>, \<open>EmissionChoice\<close> (\<^verbatim>\<open>CachingPassManager.cpp\<close>: which globals are defined in the
    output, which are declared, which are left out). \<open>Demangler\<close> and the
    theories named after it (\<^verbatim>\<open>DemangleGoogle.cpp\<close>, \<^verbatim>\<open>Demangle.cpp\<close>): the names of functions in reports.

  \<^bold>\<open>Conventions.\<close> Every pointer is a number, a null pointer is \<^term>\<open>None\<close>; what a pointer refers to is
  found in a map of the state, so that sharing and dangling references can be stated. Errors are
  values: \<^term>\<open>None\<close> or a constructor of a result type. Strings are lists of characters; the buffer
  of the demangler is a store of bytes with an explicit capacity. A loop over pointers that could
  fail to end is a \<^theory_text>\<open>partial_function\<close> with values in option: \<^term>\<open>None\<close> then stands for a null
  pointer that is followed, an assertion that fails and a loop that does not end, and the theorems
  show that the result is \<^term>\<open>Some\<close> on well-formed states.
\<close>

text \<open>
  \<^bold>\<open>What the groups of lemmas show.\<close>

  \<^item> Invariants: the dependency map is complete and exact for the declarations a compilation adds
    (\<open>DepMap\<close>); removing users leaves no node that depends on a removed one (\<open>Collect\<close>); the heads
    and links of redeclaration chains, lists and lookup tables survive each unloading step; the use
    lists of constants agree with their operands (\<open>ModuleErasure\<close>); the histories and records of
    macros agree (\<open>macros_ok\<close> in \<open>MacroErasure\<close>); the tables of types hold one type for every
    profile, and only types made of types that are left (\<open>tables_ok\<close> in \<open>TypeSharing\<close>).
  \<^item> Functional correctness and refinement: what is collected is what is reachable; rewiring renames
    in all places it knows (\<open>Replacer\<close>); what is emitted is what the chosen definitions use
    (\<open>EmissionClosure\<close>); a redeclaration
    chain after \<^verbatim>\<open>unchain\<close> is the list with the element removed; the histories of macros are a log
    of directives filtered by name, and erasing files filters the log by file.
  \<^item> Error behaviour: states in which the code does not do what it is for are given by theorems as
    well, such as names on which the demangler does not return, or an \<^verbatim>\<open>#undef\<close> that leaves the value of
    a watched macro in place.

  \<^bold>\<open>Interfaces.\<close> \<open>decl_index\<close> (\<open>FDMapping\<close>: files and their declarations) and \<open>dep_graph\<close> (\<open>DepMap\<close>: what
  a visitor promises the update) are interpreted on the code's own functions. \<open>member_removal\<close>
  (\<open>Prelude\<close>: repeated removal of one member of a collection) is interpreted on redeclaration chains
  (\<open>chain_members\<close>), lists of declarations (\<open>list_members\<close>), chains with their tables
  (\<open>entity_members\<close>), the redeclarations of specializations (\<open>class_redeclarations\<close>,
  \<open>var_redeclarations\<close>) and macro histories (\<open>log_members\<close>). \<open>graph_walk\<close> (\<open>Traversal\<close>) is a depth-first
  walk that marks nodes; \<open>include_walk\<close> is its interpretation on the replay of inclusions.

  \<^bold>\<open>Fuel.\<close> Recursive walks take a bound that decreases at each nested call. For the walk over types and
  template arguments it is the number of types of the tree, because well-formed trees refer
  downwards; for \<^verbatim>\<open>findIn\<close> and \<^verbatim>\<open>collectUsersOf\<close> one more than the number of nodes, because every call
  marks a node; for the replay of inclusions more than the number of known files, for the same
  reason; for redeclaration chains the number of declarations; for the demangler ten calls per
  character and one; for the walk over the operands of globals more than three times the number of
  constants, since each is entered at most twice; for insertion into a folding set one for the node and one for the growth, since
  a table that has just grown has room. Theorems that the bound suffices stand beside the definitions.
\<close>

text \<open>
  \<^bold>\<open>What is simplified.\<close> The iteration order of hash sets is a list given to the model. The mark
  \<^verbatim>\<open>used\<close> and the debug output have no effect on the results and are left out; the marks \<^verbatim>\<open>alive\<close> are a
  field of the state of \<open>Emission\<close> only, since unloading sees all globals. Two places of a tree
  do not share a statement. Instructions are known by the function they belong to. Macro
  directives have the file and presumed name of their location instead of an offset; visibility
  directives and modules are left out, since the server does not use modules. Line numbers and
  counters the code does not bound are natural numbers. A type has the fields of its constructor and
  three qualifier bits; extended qualifiers, locations and object lifetimes are left out, expressions
  are compared by a representative, and a reference is looked up under the sugar of its type through
  the canonical type.

  \<^bold>\<open>What is not modelled.\<close> The compiler itself: parsing, semantic analysis, code generation and
  optimisation are the libraries of clang and LLVM, and what they add to the caches is an argument
  of the operations here. Types of function prototypes, template specializations, dependent names
  and Objective-C classes are in the tables but made elsewhere. The passes over tables of the frontend that only erase a key
  (\<^verbatim>\<open>Unloader::UnloadAll\<close>, OpenMP, debug information): their content is the set of tables, which the
  frontend owns. Sockets, processes, files and clocks are parameters: lists of answers that a system
  call gives. The Windows parts of the client.
\<close>

end
